(* ===== verification/Prelude.thy ===== *)
theory Prelude
  imports
    Main
    "HOL-Library.Word"
    "HOL-Library.Multiset"
    "HOL-Library.List_Lexorder"
    "HOL-Library.Char_ord"
    "HOL-Library.Sublist"
begin

text \<open>
  Shared vocabulary of the development: Go's bytes, integers, strings, errors and slices,
  the list loops that every store of the program is written with (scan for the first
  match, replace it, cut it out), \<open>sort.Slice\<close>, and the lemmas about them.
  The collection \<open>store_ops\<close> holds the definitions of the store operations, so that
  a component proof unfolds them by \<open>simp add: store_ops\<close>.
\<close>

unbundle bit_operations_syntax

named_theorems store_ops \<open>definitions of the store and service operations\<close>

type_synonym byte = "8 word"
type_synonym u16 = "16 word"
type_synonym u32 = "32 word"
type_synonym u64 = "64 word"

text \<open>An \<open>error\<close> value of Go is represented by its message; a wrapped error
  \<open>fmt.Errorf("x: %w", err)\<close> is the concatenation. An operation that only returns an
  \<open>error\<close> returns \<open>error option\<close>, with \<open>None\<close> for \<open>nil\<close>. A time is the
  number of nanoseconds since an epoch.\<close>

type_synonym error = string
type_synonym time = int
type_synonym ident = string

section \<open>Strings (package strings)\<close>

definition HasPrefix :: "string \<Rightarrow> string \<Rightarrow> bool" where
  "HasPrefix s p = prefix p s"

definition HasSuffix :: "string \<Rightarrow> string \<Rightarrow> bool" where
  "HasSuffix s p = suffix p s"

definition TrimPrefix :: "string \<Rightarrow> string \<Rightarrow> string" where
  "TrimPrefix s p = (if prefix p s then drop (length p) s else s)"

definition TrimSuffix :: "string \<Rightarrow> string \<Rightarrow> string" where
  "TrimSuffix s p = (if suffix p s then take (length s - length p) s else s)"

text \<open>\<open>strings.Index\<close> and \<open>strings.LastIndex\<close>; \<open>None\<close> is Go's \<open>-1\<close>.\<close>

fun str_index :: "string \<Rightarrow> string \<Rightarrow> nat option" where
  "str_index [] k = (if k = [] then Some 0 else None)"
| "str_index (c # s) k =
     (if prefix k (c # s) then Some 0 else map_option Suc (str_index s k))"

fun str_last_index :: "string \<Rightarrow> string \<Rightarrow> nat option" where
  "str_last_index [] k = (if k = [] then Some 0 else None)"
| "str_last_index (c # s) k =
     (case str_last_index s k of
        Some i \<Rightarrow> Some (Suc i)
      | None \<Rightarrow> (if prefix k (c # s) then Some 0 else None))"

definition str_contains :: "string \<Rightarrow> string \<Rightarrow> bool" where
  "str_contains s k = (str_index s k \<noteq> None)"

text \<open>\<open>strings.ToLower\<close> on the ASCII letters; other bytes are kept. The identifiers it
  is applied to (codec names, sort keys) are ASCII.\<close>

definition lower_char :: "char \<Rightarrow> char" where
  "lower_char c = (let n = of_char c :: nat in
     if 65 \<le> n \<and> n \<le> 90 then char_of (n + 32) else c)"

definition ToLower :: "string \<Rightarrow> string" where
  "ToLower s = map lower_char s"

text \<open>\<open>strings.TrimSpace\<close> removes the UTF-8 encodings of the code points for which
  \<open>unicode.IsSpace\<close> holds. Each is a sequence of at most three bytes of which only the
  first starts a rune, so a prefix or suffix comparison finds it exactly where Go's
  decoding does.\<close>

definition chr :: "nat \<Rightarrow> char" where
  "chr n = char_of n"

definition space_runes :: "string list" where
  "space_runes =
     map (\<lambda>n. [chr n]) [9, 10, 11, 12, 13, 32]
     @ [[chr 194, chr 133], [chr 194, chr 160], [chr 225, chr 154, chr 128]]
     @ map (\<lambda>n. [chr 226, chr 128, chr n])
         [128, 129, 130, 131, 132, 133, 134, 135, 136, 137, 138, 168, 169, 175]
     @ [[chr 226, chr 129, chr 159], [chr 227, chr 128, chr 128]]"

definition strip_one :: "string list \<Rightarrow> string \<Rightarrow> string option" where
  "strip_one ws s =
     (case find (\<lambda>w. prefix w s) ws of None \<Rightarrow> None | Some w \<Rightarrow> Some (drop (length w) s))"

fun trim_left_fuel :: "nat \<Rightarrow> string list \<Rightarrow> string \<Rightarrow> string" where
  "trim_left_fuel 0 ws s = s"
| "trim_left_fuel (Suc n) ws s =
     (case strip_one ws s of None \<Rightarrow> s | Some s' \<Rightarrow> trim_left_fuel n ws s')"

definition trim_left :: "string list \<Rightarrow> string \<Rightarrow> string" where
  "trim_left ws s = trim_left_fuel (length s) ws s"

definition TrimSpace :: "string \<Rightarrow> string" where
  "TrimSpace s =
     rev (trim_left (map rev space_runes) (rev (trim_left space_runes s)))"

lemma space_runes_nonempty: "w \<in> set space_runes \<Longrightarrow> w \<noteq> []"
  by (auto simp: space_runes_def)

text \<open>Every pass removes at least one byte, so as much fuel as there are bytes is enough:
  the result has no space rune in front.\<close>

lemma strip_one_Some:
  "strip_one ws s = Some s' \<Longrightarrow> [] \<notin> set ws \<Longrightarrow> length s' < length s"
  by (auto simp: strip_one_def find_Some_iff prefix_def split: option.splits)
     (metis nth_mem length_greater_0_conv)

lemma strip_one_None:
  "strip_one ws s = None \<longleftrightarrow> (\<forall>w \<in> set ws. \<not> prefix w s)"
  by (auto simp: strip_one_def find_None_iff find_Some_iff split: option.splits)

lemma trim_left_fuel_enough:
  "length s \<le> n \<Longrightarrow> [] \<notin> set ws \<Longrightarrow> strip_one ws (trim_left_fuel n ws s) = None"
proof (induction n arbitrary: s)
  case 0
  then show ?case by (auto simp: strip_one_None)
next
  case (Suc n)
  then show ?case
    by (auto split: option.splits dest: strip_one_Some)
qed

lemma trim_left_done: "[] \<notin> set ws \<Longrightarrow> strip_one ws (trim_left ws s) = None"
  by (simp add: trim_left_def trim_left_fuel_enough)

lemma trim_left_id: "strip_one ws s = None \<Longrightarrow> trim_left ws s = s"
  by (cases "length s") (simp_all add: trim_left_def)

text \<open>The decimal form of a number, as \<open>%d\<close> prints it.\<close>

fun show_nat :: "nat \<Rightarrow> string" where
  "show_nat n =
     (if n < 10 then [chr (48 + n)] else show_nat (n div 10) @ [chr (48 + n mod 10)])"

declare show_nat.simps [simp del]

definition show_int :: "int \<Rightarrow> string" where
  "show_int n = (if n < 0 then CHR ''-'' # show_nat (nat (- n)) else show_nat (nat n))"

section \<open>Slices: scan, replace and cut the first match\<close>

text \<open>The loop \<open>for i := range xs { if p(xs[i]) { xs[i] = f(xs[i]); return } }\<close> followed
  by the not-found case, and the loop that cuts the first match out with
  \<open>append(xs[:i], xs[i+1:]...)\<close>. The scan itself is the library's \<open>find\<close>.\<close>

fun update_first :: "('a \<Rightarrow> bool) \<Rightarrow> ('a \<Rightarrow> 'a) \<Rightarrow> 'a list \<Rightarrow> 'a list option" where
  "update_first p f [] = None"
| "update_first p f (x # xs) =
     (if p x then Some (f x # xs) else map_option (Cons x) (update_first p f xs))"

fun delete_first :: "('a \<Rightarrow> bool) \<Rightarrow> 'a list \<Rightarrow> 'a list option" where
  "delete_first p [] = None"
| "delete_first p (x # xs) =
     (if p x then Some xs else map_option (Cons x) (delete_first p xs))"

lemma find_append: "find p (xs @ ys) = (case find p xs of None \<Rightarrow> find p ys | Some x \<Rightarrow> Some x)"
  by (induction xs) auto

lemma find_SomeD: "find p xs = Some x \<Longrightarrow> x \<in> set xs \<and> p x"
  by (induction xs) (auto split: if_splits)

lemma find_NoneD: "find p xs = None \<Longrightarrow> x \<in> set xs \<Longrightarrow> \<not> p x"
  by (induction xs) (auto split: if_splits)

lemma update_first_None [simp]: "update_first p f xs = None \<longleftrightarrow> find p xs = None"
  by (induction xs) auto

lemma delete_first_None [simp]: "delete_first p xs = None \<longleftrightarrow> find p xs = None"
  by (induction xs) auto

lemma find_None_first [simp]:
  "find p xs = None \<Longrightarrow> update_first p f xs = None"
  "find p xs = None \<Longrightarrow> delete_first p xs = None"
  by simp_all

lemma find_key_None: "i \<notin> k ` set xs \<Longrightarrow> find (\<lambda>x. k x = i) xs = None"
  by (auto simp: find_None_iff)

lemma find_update_first:
  assumes "update_first p f xs = Some ys" and "\<And>x. p x \<Longrightarrow> p (f x)"
  shows "find p ys = map_option f (find p xs)"
  using assms by (induction xs arbitrary: ys) (auto split: if_splits)

lemma find_update_first_other:
  assumes "update_first p f xs = Some ys"
    and "\<And>x. p x \<Longrightarrow> \<not> q x" and "\<And>x. p x \<Longrightarrow> \<not> q (f x)"
  shows "find q ys = find q xs"
  using assms by (induction xs arbitrary: ys) (auto split: if_splits)

lemma map_update_first:
  assumes "update_first p f xs = Some ys" and "\<And>x. p x \<Longrightarrow> k (f x) = k x"
  shows "map k ys = map k xs"
  using assms by (induction xs arbitrary: ys) (auto split: if_splits)

lemma set_update_first:
  "update_first p f xs = Some ys \<Longrightarrow> set ys \<subseteq> set xs \<union> f ` {x \<in> set xs. p x}"
  by (induction xs arbitrary: ys) (fastforce split: if_splits)+

lemma length_update_first: "update_first p f xs = Some ys \<Longrightarrow> length ys = length xs"
  by (induction xs arbitrary: ys) (auto split: if_splits)

lemma delete_first_split:
  "delete_first p xs = Some ys \<Longrightarrow>
     \<exists>as x bs. xs = as @ x # bs \<and> ys = as @ bs \<and> p x \<and> find p as = None"
proof (induction xs arbitrary: ys)
  case (Cons x xs)
  show ?case
  proof (cases "p x")
    case True
    with Cons.prems have "x # xs = [] @ x # xs \<and> ys = [] @ xs \<and> p x \<and> find p [] = None"
      by simp
    then show ?thesis by blast
  next
    case False
    with Cons.prems obtain zs where "delete_first p xs = Some zs" and ys: "ys = x # zs"
      by auto
    from Cons.IH [OF this(1)] obtain as y bs
      where "xs = as @ y # bs" "zs = as @ bs" "p y" "find p as = None" by blast
    with ys False have "x # xs = (x # as) @ y # bs \<and> ys = (x # as) @ bs \<and> p y
      \<and> find p (x # as) = None" by simp
    then show ?thesis by blast
  qed
qed simp

lemma find_delete_first_other:
  assumes "delete_first p xs = Some ys" and "\<And>x. p x \<Longrightarrow> \<not> q x"
  shows "find q ys = find q xs"
  using assms by (induction xs arbitrary: ys) (auto split: if_splits)

lemma set_delete_first: "delete_first p xs = Some ys \<Longrightarrow> set ys \<subseteq> set xs"
  by (induction xs arbitrary: ys) (auto split: if_splits)

lemma distinct_delete_first:
  assumes "delete_first (\<lambda>x. k x = i) xs = Some ys" and "distinct (map k xs)"
  shows "distinct (map k ys)" and "find (\<lambda>x. k x = i) ys = None"
    and "set ys = {x \<in> set xs. k x \<noteq> i}"
proof -
  from delete_first_split [OF assms(1)] obtain as x bs
    where xs: "xs = as @ x # bs" and ys: "ys = as @ bs" and "k x = i" by blast
  with assms(2) show "distinct (map k ys)" and "find (\<lambda>x. k x = i) ys = None"
    and "set ys = {x \<in> set xs. k x \<noteq> i}"
    by (auto simp: find_None_iff) (metis imageI)+
qed

section \<open>sort.Slice\<close>

text \<open>\<open>sort.Slice\<close> permutes its slice so that no element is less than an earlier one,
  provided \<open>less\<close> is a strict weak order. The order of equal elements is not specified;
  the model is the insertion sort that the library runs on short slices. The theorems
  below use only what any sort gives: the elements and their order.\<close>

fun insert_by :: "('a \<Rightarrow> 'a \<Rightarrow> bool) \<Rightarrow> 'a \<Rightarrow> 'a list \<Rightarrow> 'a list" where
  "insert_by lt x [] = [x]"
| "insert_by lt x (y # ys) =
     (if lt y x then y # insert_by lt x ys else x # y # ys)"

definition sort_slice :: "('a \<Rightarrow> 'a \<Rightarrow> bool) \<Rightarrow> 'a list \<Rightarrow> 'a list" where
  "sort_slice lt xs = foldr (insert_by lt) xs []"

lemma mset_insert_by [simp]: "mset (insert_by lt x ys) = add_mset x (mset ys)"
  by (induction ys) auto

lemma mset_sort_slice [simp]: "mset (sort_slice lt xs) = mset xs"
  by (induction xs) (auto simp: sort_slice_def)

lemma set_sort_slice [simp]: "set (sort_slice lt xs) = set xs"
  by (metis mset_sort_slice set_mset_mset)

lemma length_sort_slice [simp]: "length (sort_slice lt xs) = length xs"
  by (metis mset_sort_slice size_mset)

lemma set_insert_by [simp]: "set (insert_by lt x ys) = insert x (set ys)"
  by (induction ys) auto

text \<open>The contract of a comparison function given to \<open>sort.Slice\<close>.\<close>

locale slice_order =
  fixes lt :: "'a \<Rightarrow> 'a \<Rightarrow> bool"
  assumes asym: "lt a b \<Longrightarrow> \<not> lt b a"
    and weak: "\<not> lt a b \<Longrightarrow> \<not> lt b c \<Longrightarrow> \<not> lt a c"
begin

lemma insert_by_sorted:
  "sorted_wrt (\<lambda>a b. \<not> lt b a) ys \<Longrightarrow> sorted_wrt (\<lambda>a b. \<not> lt b a) (insert_by lt x ys)"
proof (induction ys)
  case (Cons y ys)
  then show ?case
    by (auto dest: asym weak)
qed simp

lemma slice_sorted: "sorted_wrt (\<lambda>a b. \<not> lt b a) (sort_slice lt xs)"
  by (induction xs) (auto simp: sort_slice_def insert_by_sorted)

lemma slice_sorted_id: "sorted_wrt (\<lambda>a b. \<not> lt b a) xs \<Longrightarrow> sort_slice lt xs = xs"
proof (induction xs)
  case (Cons x xs)
  then have "sort_slice lt xs = xs" by simp
  with Cons.prems show ?case
    by (cases xs) (auto simp: sort_slice_def)
qed (simp add: sort_slice_def)

end

lemma slice_order_key: "slice_order (\<lambda>a b. (k a :: 'k :: linorder) < k b)"
  by unfold_locales auto

lemma slice_order_key2:
  "slice_order (\<lambda>a b. if (k a :: 'k :: linorder) \<noteq> k b then k a < k b else (l a :: 'l :: linorder) < l b)"
  by unfold_locales (auto split: if_splits)

section \<open>Trimmed strings\<close>

lemma trim_left_fuel_suffix: "suffix (trim_left_fuel n ws s) s"
proof (induction n arbitrary: s)
  case (Suc n)
  show ?case
  proof (cases "strip_one ws s")
    case (Some s')
    then have "suffix s' s" by (auto simp: strip_one_def suffix_drop split: option.splits)
    with Suc [of s'] Some show ?thesis by (simp add: suffix_order.trans)
  qed simp
qed simp

lemma trim_left_suffix: "suffix (trim_left ws s) s"
  unfolding trim_left_def by (rule trim_left_fuel_suffix)

lemma TrimSpace_clean:
  "strip_one space_runes (TrimSpace s) = None"
  "strip_one (map rev space_runes) (rev (TrimSpace s)) = None"
proof -
  have ne: "[] \<notin> set space_runes" "[] \<notin> set (map rev space_runes)"
    using space_runes_nonempty by auto
  have "prefix (TrimSpace s) (trim_left space_runes s)"
    using trim_left_suffix [of "map rev space_runes" "rev (trim_left space_runes s)"]
    by (simp add: TrimSpace_def suffix_to_prefix)
  with trim_left_done [OF ne(1), of s] show "strip_one space_runes (TrimSpace s) = None"
    by (auto simp: strip_one_None dest: prefix_order.trans)
  show "strip_one (map rev space_runes) (rev (TrimSpace s)) = None"
    using trim_left_done [OF ne(2)] by (simp add: TrimSpace_def)
qed

lemma TrimSpace_id:
  "strip_one space_runes s = None \<Longrightarrow> strip_one (map rev space_runes) (rev s) = None \<Longrightarrow> TrimSpace s = s"
  by (simp add: TrimSpace_def trim_left_id)

text \<open>A string that begins and ends with a printable ASCII character is trimmed already.\<close>

definition plain_char :: "char \<Rightarrow> bool" where
  "plain_char c \<longleftrightarrow> 33 \<le> (of_char c :: nat) \<and> (of_char c :: nat) < 128"

lemma space_runes_ends:
  "w \<in> set space_runes \<Longrightarrow> \<not> plain_char (hd w) \<and> \<not> plain_char (last w)"
  by (auto simp: space_runes_def chr_def plain_char_def)

lemma TrimSpace_plain:
  assumes "s = [] \<or> plain_char (hd s) \<and> plain_char (last s)"
  shows "TrimSpace s = s"
proof (rule TrimSpace_id)
  show "strip_one space_runes s = None"
    using assms space_runes_ends space_runes_nonempty
    by (fastforce simp: strip_one_None prefix_def)
  have "\<not> prefix (rev w) (rev s)" if w: "w \<in> set space_runes" for w
  proof
    assume "prefix (rev w) (rev s)"
    then obtain z where "s = z @ w" by (auto simp: suffix_to_prefix [symmetric] suffix_def)
    with w space_runes_nonempty [OF w] space_runes_ends [OF w] assms show False by auto
  qed
  then show "strip_one (map rev space_runes) (rev s) = None"
    by (simp add: strip_one_None)
qed

section \<open>Slices with bounds checks\<close>

text \<open>\<open>xs[i]\<close> and \<open>xs[i:]\<close> with Go's bounds checks: \<open>None\<close> is the panic.\<close>

definition idx :: "'a list \<Rightarrow> int \<Rightarrow> 'a option" where
  "idx xs i = (if 0 \<le> i \<and> i < int (length xs) then Some (xs ! nat i) else None)"

definition slice_from :: "'a list \<Rightarrow> int \<Rightarrow> 'a list option" where
  "slice_from xs i = (if 0 \<le> i \<and> i \<le> int (length xs) then Some (drop (nat i) xs) else None)"

lemma idx_in [simp]: "0 \<le> i \<Longrightarrow> i < int (length xs) \<Longrightarrow> idx xs i = Some (xs ! nat i)"
  by (simp add: idx_def)

lemma slice_from_in [simp]: "0 \<le> i \<Longrightarrow> i \<le> int (length xs) \<Longrightarrow> slice_from xs i = Some (drop (nat i) xs)"
  by (simp add: slice_from_def)

end
