(* ===== verification/BitReader.thy ===== *)
theory BitReader
  imports Prelude
begin

text \<open>
  \<open>pkg/lib/av/extradata/bitreader.go\<close>: a cursor over a byte slice that reads bit fields
  and exp-Golomb codes. A read mutates the cursor even when it fails half way through a
  code, so a reader operation is a function from the reader to a result and the reader
  after it. The specification of the cursor is the list of bits still to be read.
\<close>

record bitReader =
  data :: "byte list"
  pos :: nat

datatype br_error = InvalidBitCount int | PastEnd nat int nat | LeadingZeros

type_synonym 'a br = "bitReader \<Rightarrow> (br_error + 'a) \<times> bitReader"

definition newBitReader :: "byte list \<Rightarrow> bitReader" where
  "newBitReader d = \<lparr>data = d, pos = 0\<rparr>"

fun readBits_loop :: "nat \<Rightarrow> u32 \<Rightarrow> bitReader \<Rightarrow> u32 \<times> bitReader" where
  "readBits_loop 0 val r = (val, r)"
| "readBits_loop (Suc k) val r =
     (let byteIdx = drop_bit 3 (pos r); bitIdx = 7 - (pos r AND 7) in
      readBits_loop k
        (push_bit 1 val OR ucast (drop_bit bitIdx (data r ! byteIdx) AND 1))
        (r\<lparr>pos := pos r + 1\<rparr>))"

definition readBits :: "int \<Rightarrow> u32 br" where
  "readBits n r =
     (if n < 0 \<or> n > 32 then (Inl (InvalidBitCount n), r)
      else if n = 0 then (Inr 0, r)
      else if int (pos r) + n > int (length (data r)) * 8
      then (Inl (PastEnd (pos r) n (length (data r) * 8)), r)
      else (let (v, r') = readBits_loop (nat n) 0 r in (Inr v, r')))"

definition readBit :: "byte br" where
  "readBit r = (case readBits 1 r of
      (Inl e, r') \<Rightarrow> (Inl e, r')
    | (Inr v, r') \<Rightarrow> (Inr (ucast v), r'))"

text \<open>The loop of \<open>readUE\<close> counts zero bits; it stops at the first one bit, at a read
  error, or when the count exceeds 31. The bound on the count is its termination.\<close>

function readUE_zeros :: "nat \<Rightarrow> nat br" where
  "readUE_zeros lz r = (case readBit r of
      (Inl e, r') \<Rightarrow> (Inl e, r')
    | (Inr b, r') \<Rightarrow>
        (if b = 1 then (Inr lz, r')
         else if lz + 1 > 31 then (Inl LeadingZeros, r')
         else readUE_zeros (lz + 1) r'))"
  by pat_completeness auto
termination
  by (relation "measure (\<lambda>(lz, r). 32 - lz)") auto

declare readUE_zeros.simps [simp del]

definition readUE :: "u32 br" where
  "readUE r = (case readUE_zeros 0 r of
      (Inl e, r') \<Rightarrow> (Inl e, r')
    | (Inr lz, r') \<Rightarrow>
        (if lz = 0 then (Inr 0, r')
         else (case readBits (int lz) r' of
             (Inl e, r'') \<Rightarrow> (Inl e, r'')
           | (Inr sfx, r'') \<Rightarrow> (Inr (push_bit lz 1 - 1 + sfx), r''))))"

definition readSE :: "32 word br" where
  "readSE r = (case readUE r of
      (Inl e, r') \<Rightarrow> (Inl e, r')
    | (Inr k, r') \<Rightarrow>
        (if k mod 2 = 0 then (Inr (- (k div 2)), r')
         else (Inr ((k + 1) div 2), r')))"

definition skip :: "nat \<Rightarrow> bitReader \<Rightarrow> bitReader" where
  "skip n r = r\<lparr>pos := pos r + n\<rparr>"

section \<open>Specification: the bits still to be read\<close>

definition byte_bits :: "byte \<Rightarrow> bool list" where
  "byte_bits b = map (\<lambda>i. bit b (7 - i)) [0..<8]"

definition bits_of_bytes :: "byte list \<Rightarrow> bool list" where
  "bits_of_bytes bs = concat (map byte_bits bs)"

definition rest_bits :: "bitReader \<Rightarrow> bool list" where
  "rest_bits r = drop (pos r) (bits_of_bytes (data r))"

fun bits_val_acc :: "nat \<Rightarrow> bool list \<Rightarrow> nat" where
  "bits_val_acc a [] = a"
| "bits_val_acc a (b # bs) = bits_val_acc (2 * a + of_bool b) bs"

definition bits_val :: "bool list \<Rightarrow> nat" where
  "bits_val bs = bits_val_acc 0 bs"

lemma length_byte_bits [simp]: "length (byte_bits b) = 8"
  by (simp add: byte_bits_def)

lemma length_bits_of_bytes [simp]: "length (bits_of_bytes bs) = 8 * length bs"
  by (induction bs) (auto simp: bits_of_bytes_def)

lemma nth_byte_bits: "i < 8 \<Longrightarrow> byte_bits b ! i = bit b (7 - i)"
  by (simp add: byte_bits_def)

lemma nth_bits_of_bytes:
  "p < 8 * length bs \<Longrightarrow> bits_of_bytes bs ! p = bit (bs ! (p div 8)) (7 - p mod 8)"
proof (induction bs arbitrary: p)
  case (Cons b bs)
  show ?case
  proof (cases "p < 8")
    case True
    then show ?thesis by (simp add: bits_of_bytes_def nth_append nth_byte_bits)
  next
    case False
    then have "p div 8 = Suc ((p - 8) div 8)" and "p mod 8 = (p - 8) mod 8"
      by (simp_all add: le_div_geq le_mod_geq)
    with False Cons show ?thesis
      by (simp add: bits_of_bytes_def nth_append)
  qed
qed simp

lemma length_rest_bits: "length (rest_bits r) = 8 * length (data r) - pos r"
  by (simp add: rest_bits_def)

lemma rest_bits_Cons:
  assumes "rest_bits r = b # bs"
  shows "pos r < 8 * length (data r)" and "b = bit (data r ! (pos r div 8)) (7 - pos r mod 8)"
    and "rest_bits (r\<lparr>pos := pos r + 1\<rparr>) = bs"
proof -
  show lt: "pos r < 8 * length (data r)"
    using assms by (metis length_rest_bits length_greater_0_conv list.discI zero_less_diff)
  then have "b # bs = bits_of_bytes (data r) ! pos r # rest_bits (r\<lparr>pos := pos r + 1\<rparr>)"
    unfolding assms [symmetric] by (simp add: rest_bits_def Cons_nth_drop_Suc)
  then have b: "b = bits_of_bytes (data r) ! pos r" and bs: "rest_bits (r\<lparr>pos := pos r + 1\<rparr>) = bs"
    by simp_all
  show "b = bit (data r ! (pos r div 8)) (7 - pos r mod 8)"
    using b nth_bits_of_bytes [OF lt] by (rule trans)
  show "rest_bits (r\<lparr>pos := pos r + 1\<rparr>) = bs" by (rule bs)
qed

lemma bits_val_acc_eq: "bits_val_acc a bs = a * 2 ^ length bs + bits_val bs"
proof (induction bs arbitrary: a)
  case (Cons b bs)
  from Cons [of "2 * a + of_bool b"] Cons [of "of_bool b"] show ?case
    by (simp add: bits_val_def algebra_simps)
qed (simp add: bits_val_def)

lemma bits_val_lt: "bits_val bs < 2 ^ length bs"
proof (induction bs)
  case (Cons b bs)
  have "bits_val (b # bs) = of_bool b * 2 ^ length bs + bits_val bs"
    using bits_val_acc_eq [of "of_bool b" bs] by (simp add: bits_val_def)
  with Cons show ?case by (cases b) auto
qed (simp add: bits_val_def)

lemma bits_val_snoc: "bits_val (bs @ [b]) = 2 * bits_val bs + of_bool b"
proof -
  have "bits_val_acc a (bs @ [b]) = 2 * bits_val_acc a bs + of_bool b" for a
    by (induction bs arbitrary: a) auto
  then show ?thesis by (simp add: bits_val_def)
qed

section \<open>The reads meet the specification\<close>

lemma bit_to_word: "ucast (drop_bit i (x :: byte) AND 1) = (of_bool (bit x i) :: u32)"
  by (rule bit_word_eqI) (auto simp: bit_simps bit_1_iff)

lemma shift_in_bit: "push_bit 1 (v :: u32) OR of_bool b = 2 * v + of_bool b"
proof -
  have "push_bit 1 v AND of_bool b = 0"
    by (rule bit_word_eqI) (auto simp: bit_simps bit_1_iff bit_0)
  then have "push_bit 1 v OR of_bool b = push_bit 1 v + of_bool b"
    by (simp add: disjunctive_add_eq_or)
  then show ?thesis by (simp add: push_bit_eq_mult)
qed

lemma readBits_loop_spec:
  "rest_bits r = xs @ ys \<Longrightarrow>
     readBits_loop (length xs) (of_nat a) r
       = (of_nat (bits_val_acc a xs), r\<lparr>pos := pos r + length xs\<rparr>)
     \<and> rest_bits (r\<lparr>pos := pos r + length xs\<rparr>) = ys"
proof (induction xs arbitrary: a r)
  case (Cons x xs)
  let ?r = "r\<lparr>pos := pos r + 1\<rparr>"
  from Cons.prems have r: "rest_bits r = x # (xs @ ys)" by simp
  have idx: "drop_bit 3 (pos r) = pos r div 8" "pos r AND 7 = pos r mod 8"
    using take_bit_eq_mask [of 3 "pos r"]
    by (simp_all add: drop_bit_eq_div take_bit_eq_mod mask_eq_exp_minus_1)
  have v: "push_bit 1 (of_nat a) OR ucast (drop_bit (7 - pos r mod 8) (data r ! (pos r div 8)) AND 1)
      = (of_nat (2 * a + of_bool x) :: u32)"
    unfolding bit_to_word shift_in_bit using rest_bits_Cons(2) [OF r] by simp
  have "readBits_loop (length (x # xs)) (of_nat a) r
      = readBits_loop (length xs) (of_nat (2 * a + of_bool x)) ?r"
    unfolding list.size(4) add_0_right add_Suc_right readBits_loop.simps Let_def idx v
    by simp
  with Cons.IH [OF rest_bits_Cons(3) [OF r], of "2 * a + of_bool x"] show ?case
    by simp
qed simp

lemma readBits_spec:
  assumes "rest_bits r = xs @ ys" and "length xs \<le> 32"
  shows "readBits (int (length xs)) r
       = (Inr (of_nat (bits_val xs)), r\<lparr>pos := pos r + length xs\<rparr>)"
    and "rest_bits (r\<lparr>pos := pos r + length xs\<rparr>) = ys"
proof -
  from readBits_loop_spec [OF assms(1), of 0]
  have loop: "readBits_loop (length xs) 0 r
      = (of_nat (bits_val xs), r\<lparr>pos := pos r + length xs\<rparr>)"
    and "rest_bits (r\<lparr>pos := pos r + length xs\<rparr>) = ys"
    by (simp_all add: bits_val_def)
  then show "rest_bits (r\<lparr>pos := pos r + length xs\<rparr>) = ys" by simp
  from assms(1) have "length xs \<le> 8 * length (data r) - pos r"
    by (metis length_append length_rest_bits le_add1)
  then have "xs \<noteq> [] \<Longrightarrow> pos r + length xs \<le> length (data r) * 8"
    by (cases xs) auto
  with assms(2) loop show "readBits (int (length xs)) r
      = (Inr (of_nat (bits_val xs)), r\<lparr>pos := pos r + length xs\<rparr>)"
    by (cases "xs = []") (auto simp: readBits_def bits_val_def)
qed

lemma readBits_past_end:
  assumes "0 < n" and "n \<le> 32" and "length (rest_bits r) < nat n"
  shows "\<exists>e. readBits n r = (Inl e, r)"
  using assms by (auto simp: readBits_def length_rest_bits)

lemma readBit_spec:
  assumes "rest_bits r = b # bs"
  shows "readBit r = (Inr (of_bool b), r\<lparr>pos := pos r + 1\<rparr>)"
    and "rest_bits (r\<lparr>pos := pos r + 1\<rparr>) = bs"
proof -
  have "bits_val [b] = of_bool b" by (simp add: bits_val_def)
  with readBits_spec(1) [of r "[b]" bs] assms
  show "readBit r = (Inr (of_bool b), r\<lparr>pos := pos r + 1\<rparr>)"
    by (simp add: readBit_def)
  from rest_bits_Cons(3) [OF assms] show "rest_bits (r\<lparr>pos := pos r + 1\<rparr>) = bs" .
qed

lemma readBit_end: "rest_bits r = [] \<Longrightarrow> \<exists>e. readBit r = (Inl e, r)"
  using readBits_past_end [of 1 r] by (auto simp: readBit_def)

section \<open>Exp-Golomb codes\<close>

lemma readUE_zeros_spec:
  "rest_bits r = replicate n False @ True # bs \<Longrightarrow> lz + n \<le> 31 \<Longrightarrow>
     readUE_zeros lz r = (Inr (lz + n), r\<lparr>pos := pos r + n + 1\<rparr>)
     \<and> rest_bits (r\<lparr>pos := pos r + n + 1\<rparr>) = bs"
proof (induction n arbitrary: lz r)
  case 0
  then have "rest_bits r = True # bs" by simp
  from readBit_spec [OF this] show ?case
    by (simp add: readUE_zeros.simps [of lz])
next
  case (Suc n)
  then have r: "rest_bits r = False # (replicate n False @ True # bs)" by simp
  from Suc.IH [OF readBit_spec(2) [OF r], of "lz + 1"] Suc.prems(2) readBit_spec(1) [OF r]
  show ?case
    by (simp add: readUE_zeros.simps [of lz])
qed

lemma readUE_code:
  assumes "rest_bits r = replicate (length xs) False @ True # xs @ ys" and "length xs \<le> 31"
  shows "readUE r
       = (Inr (of_nat (2 ^ length xs - 1 + bits_val xs)), r\<lparr>pos := pos r + 2 * length xs + 1\<rparr>)"
    and "rest_bits (r\<lparr>pos := pos r + 2 * length xs + 1\<rparr>) = ys"
proof -
  let ?r = "r\<lparr>pos := pos r + length xs + 1\<rparr>"
  from readUE_zeros_spec [OF assms(1), of 0] assms(2)
  have zeros: "readUE_zeros 0 r = (Inr (length xs), ?r)" and rest: "rest_bits ?r = xs @ ys"
    by simp_all
  have len: "length xs \<le> 32" using assms(2) by simp
  from readBits_spec(2) [OF rest len]
  show "rest_bits (r\<lparr>pos := pos r + 2 * length xs + 1\<rparr>) = ys"
    by (simp add: mult_2 add.assoc)
  have "push_bit (length xs) 1 - 1 + of_nat (bits_val xs)
      = (of_nat (2 ^ length xs - 1 + bits_val xs) :: u32)"
    unfolding of_nat_add by (simp add: push_bit_eq_mult of_nat_diff)
  with readBits_spec(1) [OF rest len] zeros
  show "readUE r
       = (Inr (of_nat (2 ^ length xs - 1 + bits_val xs)), r\<lparr>pos := pos r + 2 * length xs + 1\<rparr>)"
    by (cases "xs = []") (simp_all add: readUE_def bits_val_def mult_2 add.assoc)
qed

text \<open>The codes themselves: the binary digits of \<open>v + 1\<close>, preceded by one zero bit for
  each digit but the first.\<close>

fun nat_bits :: "nat \<Rightarrow> bool list" where
  "nat_bits n = (if n = 0 then [] else nat_bits (n div 2) @ [odd n])"

declare nat_bits.simps [simp del]

definition ue_encode :: "nat \<Rightarrow> bool list" where
  "ue_encode v = (let ds = nat_bits (v + 1) in replicate (length ds - 1) False @ ds)"

definition se_encode :: "int \<Rightarrow> bool list" where
  "se_encode k = ue_encode (if k > 0 then nat (2 * k - 1) else nat (- 2 * k))"

lemma nat_bits_numeral [simp]:
  "nat_bits 0 = []" "nat_bits 1 = [True]" "nat_bits (Suc 0) = [True]"
  "nat_bits (numeral (num.Bit0 k)) = nat_bits (numeral k) @ [False]"
  "nat_bits (numeral (num.Bit1 k)) = nat_bits (numeral k) @ [True]"
  by (simp_all add: nat_bits.simps [of 0] nat_bits.simps [of "Suc 0"]
      nat_bits.simps [of "numeral (num.Bit0 k)"] nat_bits.simps [of "numeral (num.Bit1 k)"])

lemma bits_val_nat_bits: "bits_val (nat_bits n) = n"
proof (induction n rule: nat_bits.induct)
  case (1 n)
  then show ?case
    by (cases "n = 0")
       (simp_all add: nat_bits.simps [of n] nat_bits.simps [of 0] bits_val_snoc bits_val_def [of "[]"])
qed

lemma nat_bits_Cons: "0 < n \<Longrightarrow> \<exists>xs. nat_bits n = True # xs"
proof (induction n rule: nat_bits.induct)
  case (1 n)
  show ?case
  proof (cases "n div 2 = 0")
    case True
    with "1.prems" have "n = 1" by auto
    then show ?thesis by (simp add: nat_bits.simps)
  next
    case False
    with 1 show ?thesis by (auto simp: nat_bits.simps [of n])
  qed
qed

lemma ue_encode_shape:
  obtains xs where "ue_encode v = replicate (length xs) False @ True # xs"
    and "v = 2 ^ length xs - 1 + bits_val xs"
proof -
  obtain xs where xs: "nat_bits (v + 1) = True # xs"
    using nat_bits_Cons [of "v + 1"] by auto
  have "bits_val (True # xs) = 2 ^ length xs + bits_val xs"
    using bits_val_acc_eq [of 1 xs] by (simp add: bits_val_def)
  with bits_val_nat_bits [of "v + 1", unfolded xs] have "v + 1 = 2 ^ length xs + bits_val xs"
    by simp
  then have "v = 2 ^ length xs - 1 + bits_val xs" by simp
  with xs that show thesis by (simp add: ue_encode_def)
qed

lemma readUE_encoded:
  assumes "rest_bits r = ue_encode v @ ys" and "v < 2 ^ 32 - 1"
  shows "fst (readUE r) = Inr (of_nat v)" and "rest_bits (snd (readUE r)) = ys"
    and "data (snd (readUE r)) = data r"
proof -
  obtain xs where code: "ue_encode v = replicate (length xs) False @ True # xs"
    and v: "v = 2 ^ length xs - 1 + bits_val xs"
    by (rule ue_encode_shape)
  have "(0 :: nat) < 2 ^ length xs" by simp
  with v assms(2) have "(2 :: nat) ^ length xs < 2 ^ 32" by linarith
  then have "length xs < 32" by (rule power_less_imp_less_exp [rotated]) simp
  then have "length xs \<le> 31" by simp
  moreover have "rest_bits r = replicate (length xs) False @ True # xs @ ys"
    using assms(1) unfolding code by simp
  ultimately have "readUE r = (Inr (of_nat v), r\<lparr>pos := pos r + 2 * length xs + 1\<rparr>)"
    and "rest_bits (r\<lparr>pos := pos r + 2 * length xs + 1\<rparr>) = ys"
    unfolding v by (rule readUE_code [rotated])+
  then show "fst (readUE r) = Inr (of_nat v)" and "rest_bits (snd (readUE r)) = ys"
    and "data (snd (readUE r)) = data r"
    by simp_all
qed

lemma u32_of_nat_div2: "n < 2 ^ 32 \<Longrightarrow> (of_nat n :: u32) div 2 = of_nat (n div 2)"
  by (simp add: word_arith_nat_div unat_of_nat)

lemma u32_of_nat_mod2: "n < 2 ^ 32 \<Longrightarrow> (of_nat n :: u32) mod 2 = 0 \<longleftrightarrow> even n"
  by (cases "even n")
     (simp_all add: word_arith_nat_mod unat_of_nat odd_iff_mod_2_eq_one even_iff_mod_2_eq_zero)

lemma sint_of_int_u32: "\<bar>k\<bar> < 2 ^ 31 \<Longrightarrow> sint (of_int k :: u32) = k"
  by (simp add: sint_sbintrunc' signed_take_bit_int_eq_self)

lemma readSE_encoded:
  assumes "rest_bits r = se_encode k @ ys" and "\<bar>k\<bar> < 2 ^ 31"
  shows "fst (readSE r) = Inr (of_int k)" and "rest_bits (snd (readSE r)) = ys"
    and "data (snd (readSE r)) = data r"
proof -
  define v where "v = (if k > 0 then nat (2 * k - 1) else nat (- 2 * k))"
  have v: "v < 2 ^ 32 - 1" using assms(2) by (auto simp: v_def)
  from assms(1) have r: "rest_bits r = ue_encode v @ ys" by (simp add: se_encode_def v_def)
  obtain r' where ue: "readUE r = (Inr (of_nat v), r')" and "rest_bits r' = ys" "data r' = data r"
    using readUE_encoded [OF r v] by (cases "readUE r") auto
  then show "rest_bits (snd (readSE r)) = ys" and "data (snd (readSE r)) = data r"
    by (simp_all add: readSE_def)
  have v32: "v < 2 ^ 32" "v + 1 < 2 ^ 32" using v by simp_all
  show "fst (readSE r) = Inr (of_int k)"
  proof (cases "k > 0")
    case True
    then have "odd v" and "(v + 1) div 2 = nat k" by (auto simp: v_def even_nat_iff)
    moreover from this(2) have "(of_nat v + 1) div 2 = (of_nat (nat k) :: u32)"
      using u32_of_nat_div2 [OF v32(2), unfolded of_nat_add of_nat_1] by metis
    ultimately show ?thesis
      using ue u32_of_nat_mod2 [OF v32(1)] True by (simp add: readSE_def)
  next
    case False
    then have "even v" and "v div 2 = nat (- k)" by (auto simp: v_def even_nat_iff)
    with ue u32_of_nat_mod2 [OF v32(1)] u32_of_nat_div2 [OF v32(1)] False show ?thesis
      by (simp add: readSE_def)
  qed
qed


section \<open>Frame and bounds\<close>

text \<open>Every read leaves the slice alone and moves forward, and one that starts inside the
  slice stays inside it: \<open>r.data[byteIdx]\<close> is never out of range.\<close>

definition forward :: "bitReader \<Rightarrow> bitReader \<Rightarrow> bool" where
  "forward r r' \<longleftrightarrow> data r' = data r \<and> pos r \<le> pos r'
     \<and> (pos r \<le> 8 * length (data r) \<longrightarrow> pos r' \<le> 8 * length (data r))"

lemma forward_refl [simp]: "forward r r"
  by (simp add: forward_def)

lemma forward_trans: "forward r s \<Longrightarrow> forward s t \<Longrightarrow> forward r t"
  by (auto simp: forward_def)

lemma readBits_loop_forward: "snd (readBits_loop k v r) = r\<lparr>pos := pos r + k\<rparr>"
  by (induction k arbitrary: v r) (simp_all add: Let_def)

lemma readBits_forward: "forward r (snd (readBits n r))"
  using readBits_loop_forward [of "nat n" 0 r]
  by (auto simp: readBits_def forward_def split: prod.splits)

lemma readBit_forward: "forward r (snd (readBit r))"
  using readBits_forward [of r 1]
  by (auto simp: readBit_def split: prod.splits sum.splits)

lemma readUE_zeros_forward: "forward r (snd (readUE_zeros lz r))"
proof (induction lz r rule: readUE_zeros.induct)
  case (1 lz r)
  with readBit_forward [of r] show ?case
    by (auto simp: readUE_zeros.simps [of lz r] split: prod.splits sum.splits
        intro: forward_trans)
qed

lemma readUE_forward: "forward r (snd (readUE r))"
proof (cases "readUE_zeros 0 r")
  case (Pair x r1)
  with readUE_zeros_forward [of r 0] have 1: "forward r r1" by simp
  have "forward r1 (snd (readBits n r1))" for n by (rule readBits_forward)
  with 1 have "forward r (snd (readBits n r1))" for n by (blast intro: forward_trans)
  with 1 Pair show ?thesis
    by (auto simp: readUE_def split: sum.split prod.split) (metis snd_conv)+
qed

lemma readSE_forward: "forward r (snd (readSE r))"
  using readUE_forward [of r]
  by (auto simp: readSE_def split: prod.splits sum.splits)

section \<open>Round trip\<close>

text \<open>Reading an unsigned and then a signed Exp-Golomb code that stand next in the slice
  gives back the two encoded values, for every value that a 32-bit integer can carry, and
  leaves the reader on the bit after them.\<close>

theorem exp_golomb_roundtrip:
  assumes "rest_bits r = ue_encode v @ se_encode k @ ys" and "v < 2 ^ 32 - 1" and "\<bar>k\<bar> < 2 ^ 31"
  shows "\<exists>r1 r2. readUE r = (Inr (of_nat v), r1) \<and> readSE r1 = (Inr (of_int k), r2)
    \<and> rest_bits r2 = ys \<and> data r2 = data r"
proof -
  obtain r1 where 1: "readUE r = (Inr (of_nat v), r1)" "rest_bits r1 = se_encode k @ ys" "data r1 = data r"
    using readUE_encoded [OF assms(1,2)] by (cases "readUE r") auto
  moreover obtain r2 where "readSE r1 = (Inr (of_int k), r2)" "rest_bits r2 = ys" "data r2 = data r1"
    using readSE_encoded [OF 1(2) assms(3)] by (cases "readSE r1") auto
  ultimately show ?thesis by auto
qed

theorem exp_golomb_roundtrip_witness:
  "\<exists>r1 r2. readUE (newBitReader [43, 192]) = (Inr 4, r1) \<and> readSE r1 = (Inr (- 1), r2)"
proof -
  have "rest_bits (newBitReader [43, 192]) = ue_encode 4 @ se_encode (- 1) @ drop 8 (bits_of_bytes [43, 192])"
    by code_simp
  then show ?thesis using exp_golomb_roundtrip [of "newBitReader [43, 192]" 4 "- 1"] by auto
qed

text \<open>No operation of the reader runs past the end of its slice: each one leaves the slice
  alone, moves the position forward and, from a position inside the slice, stays inside.\<close>

theorem reader_in_bounds:
  "forward r (snd (readBits n r)) \<and> forward r (snd (readBit r)) \<and> forward r (snd (readUE r))
   \<and> forward r (snd (readSE r))"
  by (simp add: readBits_forward readBit_forward readUE_forward readSE_forward)

end
