(* ===== verification/Sps.thy ===== *)
theory Sps
  imports BitReader
begin

text \<open>
  \<open>pkg/lib/av/extradata/sps.go\<close>: the H.264 and H.265 sequence parameter set parsers.
  Both give up with \<open>nil\<close> at the first failing read, so a parser step is a partial
  function on the reader. \<open>sp_reads m bs x\<close> says that a step consumes exactly the
  bits \<open>bs\<close> and yields \<open>x\<close>; its composition rules turn a parser into the bit
  layout it accepts.
\<close>

type_synonym 'a sp = "bitReader \<Rightarrow> ('a \<times> bitReader) option"

definition sp_return :: "'a \<Rightarrow> 'a sp" where
  "sp_return x r = Some (x, r)"


definition sp_bind :: "'a sp \<Rightarrow> ('a \<Rightarrow> 'b sp) \<Rightarrow> 'b sp" where
  "sp_bind m f r = (case m r of None \<Rightarrow> None | Some (x, r') \<Rightarrow> f x r')"

definition sp_then :: "'a sp \<Rightarrow> 'b sp \<Rightarrow> 'b sp" where
  "sp_then m k = sp_bind m (\<lambda>_. k)"

text \<open>\<open>if v, err := read(); err != nil { return nil }\<close>\<close>

definition orNil :: "'a br \<Rightarrow> 'a sp" where
  "orNil m r = (case m r of (Inl e, r') \<Rightarrow> None | (Inr x, r') \<Rightarrow> Some (x, r'))"

definition skipBits :: "nat \<Rightarrow> unit sp" where
  "skipBits n r = Some ((), skip n r)"

fun sp_times :: "nat \<Rightarrow> 'a sp \<Rightarrow> unit sp" where
  "sp_times 0 m = sp_return ()"
| "sp_times (Suc n) m = sp_then m (sp_times n m)"

section \<open>H.264\<close>







section \<open>H.265\<close>

record H265SPSInfo =
  h5ChromaFormatIDC :: u32
  h5BitDepthLuma :: u32
  h5BitDepthChroma :: u32
  h5Width :: u32
  h5Height :: u32

fun read_sublayer_flags :: "nat \<Rightarrow> (byte \<times> byte) list sp" where
  "read_sublayer_flags 0 = sp_return []"
| "read_sublayer_flags (Suc n) =
     sp_bind (orNil readBit) (\<lambda>pp.
     sp_bind (orNil readBit) (\<lambda>lp.
     sp_bind (read_sublayer_flags n) (\<lambda>fs. sp_return ((pp, lp) # fs))))"

fun skip_sublayers :: "(byte \<times> byte) list \<Rightarrow> unit sp" where
  "skip_sublayers [] = sp_return ()"
| "skip_sublayers ((pp, lp) # fs) =
     sp_then (if pp = 1 then skipBits 88 else sp_return ()) (
     sp_then (if lp = 1 then skipBits 8 else sp_return ()) (
     skip_sublayers fs))"

definition skipH265ProfileTierLevel :: "bool \<Rightarrow> u32 \<Rightarrow> unit sp" where
  "skipH265ProfileTierLevel profilePresentFlag maxNumSubLayersMinus1 =
     sp_then (if profilePresentFlag then skipBits 88 else sp_return ()) (
     sp_then (skipBits 8) (
     if maxNumSubLayersMinus1 > 0 then
       sp_bind (read_sublayer_flags (unat maxNumSubLayersMinus1)) (\<lambda>fs.
       sp_then (if maxNumSubLayersMinus1 < 8
                then skipBits (unat (8 - maxNumSubLayersMinus1) * 2) else sp_return ()) (
       skip_sublayers fs))
     else sp_return ()))"

definition h265_sps_fields :: "H265SPSInfo sp" where
  "h265_sps_fields =
     sp_then (orNil (readBits 4)) (
     sp_bind (orNil (readBits 3)) (\<lambda>maxSubLayers.
     sp_then (orNil readBit) (
     sp_then (skipH265ProfileTierLevel True maxSubLayers) (
     sp_then (orNil readUE) (
     sp_bind (orNil readUE) (\<lambda>chromaFmt.
     sp_then (if chromaFmt = 3 then sp_then (orNil readBit) (sp_return ()) else sp_return ()) (
     sp_bind (orNil readUE) (\<lambda>width.
     sp_bind (orNil readUE) (\<lambda>height.
     sp_bind (orNil readBit) (\<lambda>confWin.
     sp_then (if confWin = 1 then sp_times 4 (orNil readUE) else sp_return ()) (
     sp_bind (orNil readUE) (\<lambda>bdl.
     sp_bind (orNil readUE) (\<lambda>bdc.
     sp_return \<lparr>h5ChromaFormatIDC = chromaFmt, h5BitDepthLuma = bdl + 8,
       h5BitDepthChroma = bdc + 8, h5Width = width, h5Height = height\<rparr>)))))))))))))"

definition ParseH265SPS :: "byte list \<Rightarrow> H265SPSInfo option" where
  "ParseH265SPS sps =
     (if length sps < 4 then None
      else map_option fst (h265_sps_fields (newBitReader (drop 2 sps))))"

section \<open>What a step reads\<close>

definition sp_reads :: "'a sp \<Rightarrow> bool list \<Rightarrow> 'a \<Rightarrow> bool" where
  "sp_reads m bs x \<longleftrightarrow>
     (\<forall>r ys. rest_bits r = bs @ ys \<longrightarrow> (\<exists>r'. m r = Some (x, r') \<and> rest_bits r' = ys))"

named_theorems reads \<open>what the parser steps read\<close>

lemma reads_return [reads]: "sp_reads (sp_return x) [] x"
  by (simp add: sp_reads_def sp_return_def)

lemma reads_bind [reads]:
  assumes "sp_reads m as x" and "sp_reads (f x) bs y"
  shows "sp_reads (sp_bind m f) (as @ bs) y"
  unfolding sp_reads_def
proof (intro allI impI)
  fix r ys
  assume "rest_bits r = (as @ bs) @ ys"
  then have "rest_bits r = as @ (bs @ ys)" by simp
  with assms(1) obtain r1 where "m r = Some (x, r1)" and "rest_bits r1 = bs @ ys"
    unfolding sp_reads_def by blast
  with assms(2) show "\<exists>r'. sp_bind m f r = Some (y, r') \<and> rest_bits r' = ys"
    unfolding sp_reads_def sp_bind_def by auto
qed

lemma reads_then [reads]:
  "sp_reads m as x \<Longrightarrow> sp_reads k bs y \<Longrightarrow> sp_reads (sp_then m k) (as @ bs) y"
  unfolding sp_then_def by (rule reads_bind)

lemma reads_orNil:
  assumes "\<And>r ys. rest_bits r = bs @ ys \<Longrightarrow> fst (m r) = Inr x \<and> rest_bits (snd (m r)) = ys"
  shows "sp_reads (orNil m) bs x"
  unfolding sp_reads_def
proof (intro allI impI)
  fix r ys
  assume "rest_bits r = bs @ ys"
  from assms [OF this] show "\<exists>r'. orNil m r = Some (x, r') \<and> rest_bits r' = ys"
    by (cases "m r") (simp add: orNil_def)
qed

lemma reads_bit [reads]: "sp_reads (orNil readBit) [b] (of_bool b)"
  using readBit_spec by (intro reads_orNil) (metis append_Cons append_Nil fst_conv snd_conv)

lemma reads_bits [reads]:
  "length bs \<le> 32 \<Longrightarrow> n = int (length bs) \<Longrightarrow>
     sp_reads (orNil (readBits n)) bs (of_nat (bits_val bs))"
  by (intro reads_orNil) (simp add: readBits_spec)

lemma reads_ue [reads]:
  "v < 2 ^ 32 - 1 \<Longrightarrow> sp_reads (orNil readUE) (ue_encode v) (of_nat v)"
  by (intro reads_orNil conjI readUE_encoded)


lemma reads_skip [reads]: "length bs = n \<Longrightarrow> sp_reads (skipBits n) bs ()"
proof -
  assume "length bs = n"
  then have "drop (pos r + n) d = ys" if "drop (pos r) d = bs @ ys" for r :: bitReader and d ys
    using that by (metis add.commute append_eq_conv_conj drop_drop)
  then show ?thesis
    by (simp add: sp_reads_def skipBits_def skip_def rest_bits_def)
qed

lemma reads_times:
  "(\<And>x. x \<in> set xs \<Longrightarrow> sp_reads m (enc x) (val x)) \<Longrightarrow>
     sp_reads (sp_times (length xs) m) (concat (map enc xs)) ()"
proof (induction xs)
  case Nil
  then show ?case by (simp add: reads_return)
next
  case (Cons x xs)
  then have "sp_reads m (enc x) (val x)"
    and "sp_reads (sp_times (length xs) m) (concat (map enc xs)) ()" by simp_all
  then show ?case by (simp add: reads_then)
qed

lemma reads_then_unit: "sp_reads m bs x \<Longrightarrow> sp_reads (sp_then m (sp_return y)) bs y"
  using reads_then [OF _ reads_return] by fastforce

lemma reads_if:
  "sp_reads a as x \<Longrightarrow> sp_reads b bs y \<Longrightarrow>
     sp_reads (if c then a else b) (if c then as else bs) (if c then x else y)"
  by simp

lemma u32_of_nat_inj: "n < 2 ^ 32 \<Longrightarrow> m < 2 ^ 32 \<Longrightarrow> (of_nat n :: u32) = of_nat m \<longleftrightarrow> n = m"
  by (simp add: word_of_nat_eq_iff take_bit_nat_eq_self)

lemma ue_eq_3: "n < 2 ^ 32 - 1 \<Longrightarrow> (of_nat n :: u32) = 3 \<longleftrightarrow> n = 3"
  using u32_of_nat_inj [of n 3] by simp

section \<open>The layout of an H.264 sequence parameter set\<close>




definition ue_ok :: "nat \<Rightarrow> bool" where "ue_ok v \<longleftrightarrow> v < 2 ^ 32 - 1"





lemma reads_separate:
  assumes "ue_ok c"
  shows "sp_reads (if (of_nat c :: u32) = 3 then sp_then (orNil readBit) (sp_return ()) else sp_return ())
    (if c = 3 then [s] else []) ()"
  using reads_then_unit [OF reads_bit [of s], of "()"] reads_return [of "()"] assms
  by (simp add: ue_eq_3 ue_ok_def)




lemma sp_bind_then: "sp_bind m (\<lambda>x. sp_then (f x) k) = sp_then (sp_bind m f) k"
  by (rule ext) (simp add: sp_bind_def sp_then_def split: option.split)


lemma map_option_fst_reads:
  "sp_reads m bs x \<Longrightarrow> rest_bits r = bs @ ys \<Longrightarrow> map_option fst (m r) = Some x"
  unfolding sp_reads_def by fastforce

lemma rest_newBitReader [simp]: "rest_bits (newBitReader d) = bits_of_bytes d"
  by (simp add: rest_bits_def newBitReader_def)

section \<open>The layout of an H.265 sequence parameter set\<close>

record h265_layout =
  v_vps :: "bool list"
  v_sublayers :: "bool list"
  v_nesting :: bool
  v_ptl :: "bool list"
  v_flags :: "(bool \<times> bool) list"
  v_reserved :: "bool list"
  v_sublayer_info :: "bool list list"
  v_id :: nat
  v_chroma :: nat
  v_separate :: bool
  v_width :: nat
  v_height :: nat
  v_window :: "nat list option"
  v_bdl :: nat
  v_bdc :: nat

fun flag_bits :: "bool \<times> bool \<Rightarrow> bool list" where
  "flag_bits (p, l) = [p, l]"

fun sublayer_len :: "bool \<times> bool \<Rightarrow> nat" where
  "sublayer_len (p, l) = (if p then 88 else 0) + (if l then 8 else 0)"

definition window_bits :: "nat list option \<Rightarrow> bool list" where
  "window_bits w = (case w of None \<Rightarrow> [False] | Some os \<Rightarrow> [True] @ concat (map ue_encode os))"

definition h265_bits :: "h265_layout \<Rightarrow> bool list" where
  "h265_bits l =
     v_vps l @ v_sublayers l @ [v_nesting l]
     @ (v_ptl l @ (if v_flags l = [] then []
          else concat (map flag_bits (v_flags l)) @ v_reserved l @ concat (v_sublayer_info l)))
     @ ue_encode (v_id l) @ ue_encode (v_chroma l)
     @ (if v_chroma l = 3 then [v_separate l] else [])
     @ ue_encode (v_width l) @ ue_encode (v_height l) @ window_bits (v_window l)
     @ ue_encode (v_bdl l) @ ue_encode (v_bdc l)"

definition h265_layout_ok :: "h265_layout \<Rightarrow> bool" where
  "h265_layout_ok l \<longleftrightarrow>
     length (v_vps l) = 4 \<and> length (v_sublayers l) = 3
     \<and> bits_val (v_sublayers l) = length (v_flags l) \<and> length (v_ptl l) = 96
     \<and> length (v_reserved l) = 2 * (8 - length (v_flags l))
     \<and> map length (v_sublayer_info l) = map sublayer_len (v_flags l)
     \<and> list_all ue_ok [v_id l, v_chroma l, v_width l, v_height l, v_bdl l, v_bdc l]
     \<and> (case v_window l of None \<Rightarrow> True | Some os \<Rightarrow> length os = 4 \<and> list_all ue_ok os)"

definition flag_bytes :: "(bool \<times> bool) list \<Rightarrow> (byte \<times> byte) list" where
  "flag_bytes fs = map (\<lambda>(p, l). (of_bool p, of_bool l)) fs"

lemma reads_sublayer_flags:
  "sp_reads (read_sublayer_flags (length fs)) (concat (map flag_bits fs)) (flag_bytes fs)"
proof (induction fs)
  case Nil
  show ?case by (simp add: reads_return flag_bytes_def)
next
  case (Cons f fs)
  obtain p l where f: "f = (p, l)" by (cases f)
  have "sp_reads (sp_bind (read_sublayer_flags (length fs)) (\<lambda>fs. sp_return ((of_bool p, of_bool l) # fs)))
      (concat (map flag_bits fs) @ []) ((of_bool p, of_bool l) # flag_bytes fs)"
    by (rule reads_bind [OF Cons reads_return])
  then have "sp_reads (read_sublayer_flags (length (f # fs)))
      ([p] @ [l] @ concat (map flag_bits fs) @ []) ((of_bool p, of_bool l) # flag_bytes fs)"
    unfolding list.size(4) add_0_right add_Suc_right read_sublayer_flags.simps
    by (intro reads_bind [OF reads_bit])
  then show ?case by (simp add: f flag_bytes_def)
qed

lemma reads_opt_skip:
  "length bs = (if p then n else 0) \<Longrightarrow>
     sp_reads (if of_bool p = (1 :: byte) then skipBits n else sp_return ()) bs ()"
  using reads_skip [of bs n] reads_return [of "()"] by (cases p) simp_all

lemma reads_skip_sublayers:
  "map length infos = map sublayer_len fs \<Longrightarrow>
     sp_reads (skip_sublayers (flag_bytes fs)) (concat infos) ()"
proof (induction fs arbitrary: infos)
  case Nil
  then show ?case by (simp add: reads_return flag_bytes_def)
next
  case (Cons f fs)
  obtain p l where f: "f = (p, l)" by (cases f)
  from Cons.prems obtain x infos' where infos: "infos = x # infos'"
    and x: "length x = (if p then 88 else 0) + (if l then 8 else 0)"
    and "map length infos' = map sublayer_len fs" by (auto simp: f Cons_eq_map_conv)
  let ?a = "take (if p then 88 else 0) x" and ?b = "drop (if p then 88 else 0) x"
  have "length ?a = (if p then 88 else 0)" and "length ?b = (if l then 8 else 0)"
    using x by auto
  from reads_then [OF reads_opt_skip [OF this(1)] reads_then [OF reads_opt_skip [OF this(2)]
    Cons.IH [OF \<open>map length infos' = map sublayer_len fs\<close>]]]
  have "sp_reads (skip_sublayers (flag_bytes (f # fs))) (?a @ ?b @ concat infos') ()"
    by (simp add: f flag_bytes_def)
  then show ?case
    unfolding append_assoc [symmetric] append_take_drop_id by (simp add: infos)
qed

lemma sublayer_count:
  assumes "n \<le> 7"
  shows "(of_nat n :: u32) > 0 \<longleftrightarrow> n > 0" and "(of_nat n :: u32) < 8"
    and "unat (of_nat n :: u32) = n" and "unat (8 - of_nat n :: u32) * 2 = 2 * (8 - n)"
proof -
  from assms have "n = 0 \<or> n = 1 \<or> n = 2 \<or> n = 3 \<or> n = 4 \<or> n = 5 \<or> n = 6 \<or> n = 7" by linarith
  then show "(of_nat n :: u32) > 0 \<longleftrightarrow> n > 0" and "(of_nat n :: u32) < 8"
    and "unat (of_nat n :: u32) = n" and "unat (8 - of_nat n :: u32) * 2 = 2 * (8 - n)"
    by auto
qed

lemma reads_ptl:
  assumes "length ptl = 96" and "length fs \<le> 7" and "length res = 2 * (8 - length fs)"
    and "map length infos = map sublayer_len fs"
  shows "sp_reads (skipH265ProfileTierLevel True (of_nat (length fs)))
    (ptl @ (if fs = [] then [] else concat (map flag_bits fs) @ res @ concat infos)) ()"
proof -
  note n = sublayer_count [OF assms(2)]
  have "sp_reads (sp_bind (read_sublayer_flags (length fs)) (\<lambda>fl.
        sp_then (skipBits (2 * (8 - length fs))) (skip_sublayers fl)))
      (concat (map flag_bits fs) @ res @ concat infos) ()"
    by (intro reads_bind [OF reads_sublayer_flags] reads_then [OF reads_skip]
        reads_skip_sublayers assms)
  note body = this
  have eq: "skipH265ProfileTierLevel True (of_nat (length fs)) =
      sp_then (skipBits 88) (sp_then (skipBits 8)
        (if fs = [] then sp_return () else sp_bind (read_sublayer_flags (length fs)) (\<lambda>fl.
           sp_then (skipBits (2 * (8 - length fs))) (skip_sublayers fl))))"
    using n by (simp add: skipH265ProfileTierLevel_def mult.commute)
  have "sp_reads (skipH265ProfileTierLevel True (of_nat (length fs)))
      (take 88 ptl @ drop 88 ptl @ (if fs = [] then [] else concat (map flag_bits fs) @ res @ concat infos))
      (if fs = [] then () else ())"
    unfolding eq by (intro reads_then [OF reads_skip] reads_if reads_return body) (simp_all add: assms)
  then show ?thesis
    unfolding append_assoc [symmetric] append_take_drop_id by simp
qed

lemma reads_window:
  assumes "case w of None \<Rightarrow> True | Some os \<Rightarrow> length os = 4 \<and> list_all ue_ok os"
  shows "sp_reads (sp_bind (orNil readBit) (\<lambda>c. if c = 1 then sp_times 4 (orNil readUE) else sp_return ()))
    (window_bits w) ()"
proof (cases w)
  case None
  with reads_bind [OF reads_bit [of False], of "\<lambda>c. if c = 1 then _ else sp_return ()"]
    reads_return [of "()"] show ?thesis
    by (fastforce simp: window_bits_def)
next
  case (Some os)
  with assms have "length os = 4" and ok: "\<And>x. x \<in> set os \<Longrightarrow> x < 2 ^ 32 - 1"
    by (auto simp: list_all_iff ue_ok_def)
  with reads_times [of os "orNil readUE" ue_encode of_nat, OF reads_ue [OF ok]] Some reads_bind [OF reads_bit [of True],
      of "\<lambda>c. if c = 1 then sp_times 4 (orNil readUE) else sp_return ()"]
  show ?thesis by (simp add: window_bits_def)
qed

lemma reads_h265:
  assumes "h265_layout_ok l"
  shows "sp_reads h265_sps_fields (h265_bits l)
    \<lparr>h5ChromaFormatIDC = of_nat (v_chroma l), h5BitDepthLuma = of_nat (v_bdl l) + 8,
     h5BitDepthChroma = of_nat (v_bdc l) + 8, h5Width = of_nat (v_width l),
     h5Height = of_nat (v_height l)\<rparr>"
proof -
  from assms have ok: "v_id l < 2 ^ 32 - 1" "v_chroma l < 2 ^ 32 - 1" "v_width l < 2 ^ 32 - 1"
    "v_height l < 2 ^ 32 - 1" "v_bdl l < 2 ^ 32 - 1" "v_bdc l < 2 ^ 32 - 1" "ue_ok (v_chroma l)"
    and lens: "length (v_vps l) \<le> 32" "4 = int (length (v_vps l))"
      "length (v_sublayers l) \<le> 32" "3 = int (length (v_sublayers l))"
    and n: "bits_val (v_sublayers l) = length (v_flags l)"
    and ptl: "length (v_ptl l) = 96" "length (v_reserved l) = 2 * (8 - length (v_flags l))"
      "map length (v_sublayer_info l) = map sublayer_len (v_flags l)"
    and win: "case v_window l of None \<Rightarrow> True | Some os \<Rightarrow> length os = 4 \<and> list_all ue_ok os"
    by (auto simp: h265_layout_ok_def ue_ok_def)
  from bits_val_lt [of "v_sublayers l"] lens(4) n have "length (v_flags l) \<le> 7" by simp
  note tier = reads_ptl [OF ptl(1) this ptl(2,3)]
  have last: "sp_reads (sp_bind (orNil readUE) (\<lambda>c. sp_return (f c))) (ue_encode (v_bdc l))
      (f (of_nat (v_bdc l)))" for f :: "u32 \<Rightarrow> H265SPSInfo"
    using reads_bind [OF reads_ue [OF ok(6)], of "\<lambda>c. sp_return (f c)", OF reads_return] by simp
  show ?thesis
    unfolding h265_sps_fields_def h265_bits_def
      sp_bind_then [where f = "\<lambda>c. if c = 1 then sp_times 4 (orNil readUE) else sp_return ()"]
    by (intro reads_then [OF reads_bits] reads_bind [OF reads_bits] reads_then [OF reads_bit]
        reads_then [OF tier [folded n]] reads_then [OF reads_ue] reads_bind [OF reads_ue]
        reads_then [OF reads_separate] reads_then [OF reads_window] last lens ok win)
qed

section \<open>What the parsers return\<close>



text \<open>C24: \<open>ParseH265SPS\<close> on the payload of a sequence parameter set laid out as the
  standard says (any number of sub-layers with their optional profile and level fields,
  with or without a conformance window) returns the chroma format, bit depths, width and
  height that were encoded.\<close>

theorem ParseH265SPS_decodes:
  assumes "h265_layout_ok l"
    and "bits_of_bytes payload = h265_bits l @ trailing"
  shows "ParseH265SPS (h0 # h1 # payload) = Some
    \<lparr>h5ChromaFormatIDC = of_nat (v_chroma l), h5BitDepthLuma = of_nat (v_bdl l) + 8,
     h5BitDepthChroma = of_nat (v_bdc l) + 8, h5Width = of_nat (v_width l),
     h5Height = of_nat (v_height l)\<rparr>"
proof -
  have "length (h265_bits l) \<ge> 104"
    using assms(1) by (simp add: h265_bits_def h265_layout_ok_def)
  then have "length (bits_of_bytes payload) \<ge> 104" using assms(2) by simp
  then have "length payload \<ge> 2" by (simp add: length_bits_of_bytes)
  with map_option_fst_reads [OF reads_h265 [OF assms(1)], of "newBitReader payload"] assms(2)
  show ?thesis by (simp add: ParseH265SPS_def)
qed

definition example_rbsp :: "byte list" where
  "example_rbsp = [1, 1, 96, 0, 0, 0, 144, 0, 0, 0, 0, 0, 93, 160, 2, 128, 128, 45, 22, 89]"

theorem ParseH265SPS_decodes_witness:
  "ParseH265SPS (66 # 1 # example_rbsp) = Some
    \<lparr>h5ChromaFormatIDC = 1, h5BitDepthLuma = 8, h5BitDepthChroma = 8, h5Width = 1280, h5Height = 720\<rparr>"
proof -
  let ?l = "\<lparr>v_vps = replicate 4 False, v_sublayers = replicate 3 False, v_nesting = True,
    v_ptl = take 96 (drop 8 (bits_of_bytes example_rbsp)), v_flags = [], v_reserved = replicate 16 False,
    v_sublayer_info = [], v_id = 0, v_chroma = 1, v_separate = False, v_width = 1280, v_height = 720,
    v_window = None, v_bdl = 0, v_bdc = 0\<rparr>"
  have "bits_val (replicate 3 False) = 0" by code_simp
  then have "h265_layout_ok ?l"
    by (simp add: h265_layout_ok_def ue_ok_def example_rbsp_def numeral_3_eq_3 del: replicate.simps)
  moreover have "bits_of_bytes example_rbsp = h265_bits ?l @ drop 151 (bits_of_bytes example_rbsp)"
  proof -
    have "ue_encode 1280 = [False, False, False, False, False, False, False, False, False, False, True, False, True, False, False, False, False, False, False, False, True]"
      and "ue_encode 720 = [False, False, False, False, False, False, False, False, False, True, False, True, True, False, True, False, False, False, True]"
      by (simp_all add: ue_encode_def Let_def)
    then have "h265_bits ?l = take 151 (bits_of_bytes example_rbsp)"
      unfolding h265_bits_def h265_layout.simps by (simp only:) code_simp
    then show ?thesis by simp
  qed
  ultimately show ?thesis by (subst ParseH265SPS_decodes) (assumption, assumption, simp)
qed

subsection \<open>Emulation prevention\<close>

text \<open>A NAL unit carries its payload with an emulation prevention byte 3 after every two zero
  bytes that are followed by a byte of at most 3; \<open>z\<close> counts the zero bytes before.\<close>

fun escape_rbsp :: "nat \<Rightarrow> byte list \<Rightarrow> byte list" where
  "escape_rbsp z [] = []"
| "escape_rbsp z (b # bs) =
     (if z \<ge> 2 \<and> b \<le> 3 then 3 # b # escape_rbsp (if b = 0 then 1 else 0) bs
      else b # escape_rbsp (if b = 0 then Suc z else 0) bs)"

text \<open>The parser reads the bytes of the NAL unit without removing the emulation
  prevention bytes, so that on the NAL unit of an ordinary 1280x720 Main profile stream
  (whose constraint flags are zero bytes, and so escaped) it returns a 2x1 picture of chroma
  format 22 and 647 bits, where the unescaped payload gives the encoded values.\<close>

theorem ParseH265SPS_emulation_prevention:
  "ParseH265SPS (66 # 1 # example_rbsp) = Some
    \<lparr>h5ChromaFormatIDC = 1, h5BitDepthLuma = 8, h5BitDepthChroma = 8, h5Width = 1280, h5Height = 720\<rparr>
   \<and> ParseH265SPS (66 # 1 # escape_rbsp 0 example_rbsp) = Some
    \<lparr>h5ChromaFormatIDC = 22, h5BitDepthLuma = 647, h5BitDepthChroma = 8, h5Width = 2, h5Height = 1\<rparr>"
  by code_simp

end
