(* ===== verification/Extradata.thy ===== *)
theory Extradata
  imports Sps
begin

text \<open>
  \<open>pkg/lib/av/extradata/extradata.go\<close>: splitting an Annex B byte stream into NAL units.
  The splitter works with indices into the stream; \<open>scan\<close> is the same loop over the
  rest of the stream, on which the properties are proved.
\<close>

section \<open>Annex B\<close>

text \<open>The loop of \<open>trimTrailingZeros\<close> over \<open>end\<close>.\<close>

fun trim_zeros_end :: "byte list \<Rightarrow> nat \<Rightarrow> nat" where
  "trim_zeros_end d 0 = 0"
| "trim_zeros_end d (Suc e) = (if d ! e = 0 then trim_zeros_end d e else Suc e)"

definition trimTrailingZeros :: "byte list \<Rightarrow> byte list" where
  "trimTrailingZeros d = take (trim_zeros_end d (length d)) d"

definition subslice :: "nat \<Rightarrow> nat \<Rightarrow> 'a list \<Rightarrow> 'a list" where
  "subslice i j xs = take (j - i) (drop i xs)"

text \<open>\<open>start\<close> is \<open>None\<close> for Go's \<open>-1\<close>: no start code was seen yet.\<close>

definition flush_nalu :: "byte list \<Rightarrow> nat option \<Rightarrow> nat \<Rightarrow> byte list list \<Rightarrow> byte list list" where
  "flush_nalu d start i nalus = (case start of
      None \<Rightarrow> nalus
    | Some st \<Rightarrow> (let nalu = trimTrailingZeros (subslice st i d) in
        if length nalu > 0 then nalus @ [nalu] else nalus))"

function split_loop :: "byte list \<Rightarrow> nat \<Rightarrow> nat option \<Rightarrow> byte list list \<Rightarrow> byte list list" where
  "split_loop d i start nalus =
     (let n = length d in
      if i < n then
        (if i + 3 < n \<and> d ! i = 0 \<and> d ! (i + 1) = 0 \<and> d ! (i + 2) = 0 \<and> d ! (i + 3) = 1
         then split_loop d (i + 4) (Some (i + 4)) (flush_nalu d start i nalus)
         else if i + 2 < n \<and> d ! i = 0 \<and> d ! (i + 1) = 0 \<and> d ! (i + 2) = 1
         then split_loop d (i + 3) (Some (i + 3)) (flush_nalu d start i nalus)
         else split_loop d (i + 1) start nalus)
      else (case start of
          None \<Rightarrow> nalus
        | Some st \<Rightarrow> (if st < n then nalus @ [drop st d] else nalus)))"
  by pat_completeness auto
termination
  by (relation "measure (\<lambda>(d, i, start, nalus). length d - i)") (auto simp: Let_def)

declare split_loop.simps [simp del]

definition SplitNALUnits :: "byte list \<Rightarrow> byte list list" where
  "SplitNALUnits d = split_loop d 0 None []"

section \<open>The splitter scans the stream once\<close>

text \<open>The same loop over the rest of the stream, with the unit collected so far instead of
  the two indices.\<close>

lemma trim_zeros_end_le: "trim_zeros_end d e \<le> e"
  by (induction e) auto

lemma trimTrailingZeros_snoc:
  "trimTrailingZeros (xs @ [x]) = (if x = 0 then trimTrailingZeros xs else xs @ [x])"
proof -
  have "trim_zeros_end (xs @ [x]) n = trim_zeros_end xs n" if "n \<le> length xs" for n
    using that by (induction n) (auto simp: nth_append)
  with trim_zeros_end_le [of xs "length xs"] show ?thesis
    by (auto simp: trimTrailingZeros_def)
qed

lemma trimTrailingZeros_Nil [simp]: "trimTrailingZeros [] = []"
  by (simp add: trimTrailingZeros_def)

lemma trimTrailingZeros_id: "xs = [] \<or> last xs \<noteq> 0 \<Longrightarrow> trimTrailingZeros xs = xs"
  by (cases xs rule: rev_cases) (auto simp: trimTrailingZeros_snoc)

lemma trimTrailingZeros_last: "trimTrailingZeros xs \<noteq> [] \<Longrightarrow> last (trimTrailingZeros xs) \<noteq> 0"
  by (induction xs rule: rev_induct) (auto simp: trimTrailingZeros_snoc split: if_splits)

lemma trimTrailingZeros_prefix: "prefix (trimTrailingZeros xs) xs"
  by (simp add: trimTrailingZeros_def take_is_prefix)

definition flush_unit :: "byte list option \<Rightarrow> byte list list" where
  "flush_unit cur = (case cur of None \<Rightarrow> []
     | Some c \<Rightarrow> (if trimTrailingZeros c = [] then [] else [trimTrailingZeros c]))"

function scan :: "byte list \<Rightarrow> byte list option \<Rightarrow> byte list list" where
  "scan xs cur =
     (if xs = [] then (case cur of None \<Rightarrow> [] | Some c \<Rightarrow> (if c = [] then [] else [c]))
      else if prefix [0, 0, 0, 1] xs then flush_unit cur @ scan (drop 4 xs) (Some [])
      else if prefix [0, 0, 1] xs then flush_unit cur @ scan (drop 3 xs) (Some [])
      else scan (tl xs) (map_option (\<lambda>c. c @ [hd xs]) cur))"
  by pat_completeness auto
termination
  by (relation "measure (\<lambda>(xs, cur). length xs)") (auto simp: prefix_def)

declare scan.simps [simp del]

lemma scan_Nil [simp]:
  "scan [] cur = (case cur of None \<Rightarrow> [] | Some c \<Rightarrow> (if c = [] then [] else [c]))"
  by (simp add: scan.simps)

lemma scan_code4 [simp]: "scan (0 # 0 # 0 # 1 # xs) cur = flush_unit cur @ scan xs (Some [])"
  by (simp add: scan.simps [of "0 # 0 # 0 # 1 # xs"])

lemma scan_code3 [simp]: "scan (0 # 0 # 1 # xs) cur = flush_unit cur @ scan xs (Some [])"
  by (simp add: scan.simps [of "0 # 0 # 1 # xs"])

lemma scan_step:
  "\<not> prefix [0, 0, 0, 1] (x # xs) \<Longrightarrow> \<not> prefix [0, 0, 1] (x # xs) \<Longrightarrow>
     scan (x # xs) cur = scan xs (map_option (\<lambda>c. c @ [x]) cur)"
  by (auto simp: scan.simps [of "x # xs"])

lemma prefix_code4:
  "prefix [a, b, c, e] (drop i d) \<longleftrightarrow>
     i + 3 < length d \<and> d ! i = a \<and> d ! (i + 1) = b \<and> d ! (i + 2) = c \<and> d ! (i + 3) = e"
  by (cases "i < length d"; cases "i + 1 < length d"; cases "i + 2 < length d"; cases "i + 3 < length d")
     (auto simp: Cons_nth_drop_Suc [symmetric] numeral_3_eq_3 simp del: Cons_nth_drop_Suc)

lemma prefix_code3:
  "prefix [a, b, c] (drop i d) \<longleftrightarrow>
     i + 2 < length d \<and> d ! i = a \<and> d ! (i + 1) = b \<and> d ! (i + 2) = c"
  by (cases "i < length d"; cases "i + 1 < length d"; cases "i + 2 < length d")
     (auto simp: Cons_nth_drop_Suc [symmetric] simp del: Cons_nth_drop_Suc)

lemma subslice_snoc: "st \<le> i \<Longrightarrow> i < length d \<Longrightarrow> subslice st (Suc i) d = subslice st i d @ [d ! i]"
  by (simp add: subslice_def Suc_diff_le take_Suc_conv_app_nth)

lemma subslice_same: "subslice i i d = []"
  by (simp add: subslice_def)

lemma flush_nalu_eq:
  "flush_nalu d start i acc = acc @ flush_unit (map_option (\<lambda>st. subslice st i d) start)"
  by (auto simp: flush_nalu_def flush_unit_def Let_def split: option.split)

lemma split_loop_scan:
  "(\<And>st. start = Some st \<Longrightarrow> st \<le> i) \<Longrightarrow>
     split_loop d i start acc = acc @ scan (drop i d) (map_option (\<lambda>st. subslice st i d) start)"
proof (induction d i start acc rule: split_loop.induct)
  case (1 d i start acc)
  let ?n = "length d" and ?cur = "map_option (\<lambda>st. subslice st i d) start"
  let ?c4 = "i + 3 < ?n \<and> d ! i = 0 \<and> d ! (i + 1) = 0 \<and> d ! (i + 2) = 0 \<and> d ! (i + 3) = 1"
  let ?c3 = "i + 2 < ?n \<and> d ! i = 0 \<and> d ! (i + 1) = 0 \<and> d ! (i + 2) = 1"
  note loop = split_loop.simps [of d i start acc] and sc = scan.simps [of "drop i d" ?cur]
  show ?case
  proof (cases "i < ?n")
    case False
    then show ?thesis
      by (auto simp: loop sc subslice_def split: option.split)
  next
    case lt: True
    consider (four) ?c4 | (three) "\<not> ?c4" ?c3 | (none) "\<not> ?c4" "\<not> ?c3" by blast
    then show ?thesis
    proof cases
      case four
      with lt "1.IH"(1) [of ?n] show ?thesis
        by (simp add: loop sc prefix_code4 flush_nalu_eq subslice_same add.commute)
    next
      case three
      with lt "1.IH"(2) [of ?n] show ?thesis
        by (simp add: loop sc prefix_code4 prefix_code3 flush_nalu_eq subslice_same add.commute)
    next
      case none
      have cur: "map_option (\<lambda>st. subslice st (i + 1) d) start = map_option (\<lambda>c. c @ [d ! i]) ?cur"
        using "1.prems" lt by (cases start) (simp_all add: subslice_snoc)
      have dr: "drop i d = d ! i # drop (i + 1) d" using lt by (simp add: Cons_nth_drop_Suc)
      have "\<not> prefix [0, 0, 0, 1] (drop i d)" "\<not> prefix [0, 0, 1] (drop i d)"
        using none unfolding prefix_code4 prefix_code3 by blast+
      then have "scan (drop i d) ?cur = scan (drop (i + 1) d) (map_option (\<lambda>c. c @ [d ! i]) ?cur)"
        unfolding dr by (rule scan_step)
      moreover have "split_loop d i start acc = split_loop d (i + 1) start acc"
        unfolding loop Let_def by (simp only: lt none if_True if_False)
      moreover have "split_loop d (i + 1) start acc
          = acc @ scan (drop (i + 1) d) (map_option (\<lambda>st. subslice st (i + 1) d) start)"
        using "1.IH"(3) [OF refl lt none] "1.prems" by (simp add: le_SucI)
      ultimately show ?thesis unfolding cur by simp
    qed
  qed
qed

lemma SplitNALUnits_scan: "SplitNALUnits d = scan d None"
  unfolding SplitNALUnits_def using split_loop_scan [of None 0 d "[]"] by simp

section \<open>Units in, units out\<close>

definition clean_unit :: "byte list \<Rightarrow> bool" where
  "clean_unit n \<longleftrightarrow> n \<noteq> [] \<and> last n \<noteq> 0 \<and> \<not> sublist [0, 0, 1] n"

text \<open>The stream of a list of units, each behind a start code of four or three bytes.\<close>

fun annexb :: "(bool \<times> byte list) list \<Rightarrow> byte list" where
  "annexb [] = []"
| "annexb ((long, n) # us) = (if long then [0, 0, 0, 1] else [0, 0, 1]) @ n @ annexb us"

lemma no_code_inside:
  assumes "last (x # xs) \<noteq> 0" and "\<not> sublist [0, 0, 1] (x # xs)"
  shows "\<not> prefix [0, 0, 0, 1] (x # xs @ ys)" and "\<not> prefix [0, 0, 1] (x # xs @ ys)"
  using assms
  by (cases xs; cases "tl xs"; cases "tl (tl xs)"; auto simp: sublist_Cons_right split: if_splits)+

lemma scan_unit:
  "n = [] \<or> last n \<noteq> 0 \<Longrightarrow> \<not> sublist [0, 0, 1] n \<Longrightarrow>
     scan (n @ ys) (Some c) = scan ys (Some (c @ n))"
proof (induction n arbitrary: c)
  case (Cons x xs)
  then have "scan ((x # xs) @ ys) (Some c) = scan (xs @ ys) (Some (c @ [x]))"
    using no_code_inside [of x xs ys] by (simp add: scan_step)
  also have "\<dots> = scan ys (Some ((c @ [x]) @ xs))"
    using Cons.prems by (intro Cons.IH) (auto simp: sublist_Cons_right split: if_splits)
  finally show ?case by simp
qed simp

lemma flush_clean: "clean_unit n \<Longrightarrow> flush_unit (Some n) = [n]"
  by (simp add: flush_unit_def clean_unit_def trimTrailingZeros_id)

lemma scan_annexb:
  "list_all (clean_unit \<circ> snd) us \<Longrightarrow> us \<noteq> [] \<Longrightarrow>
     scan (annexb us) cur = flush_unit cur @ map snd us"
proof (induction us arbitrary: cur)
  case (Cons u us)
  obtain long n where u: "u = (long, n)" by (cases u)
  with Cons.prems have n: "clean_unit n" by simp
  then have "scan (n @ annexb us) (Some []) = scan (annexb us) (Some n)"
    using scan_unit [of n "annexb us" "[]"] by (simp add: clean_unit_def)
  moreover have "scan (annexb us) (Some n) = n # map snd us"
    using Cons n by (cases "us = []") (simp_all add: flush_clean clean_unit_def)
  ultimately show ?case by (simp add: u)
qed simp

lemma SplitNALUnits_annexb: "list_all (clean_unit \<circ> snd) us \<Longrightarrow> SplitNALUnits (annexb us) = map snd us"
  by (cases "us = []") (simp_all add: SplitNALUnits_scan scan_annexb flush_unit_def)

definition no_code_from :: "byte list \<Rightarrow> byte list \<Rightarrow> bool" where
  "no_code_from c xs \<longleftrightarrow> (\<forall>a b. c = a @ b \<longrightarrow> b \<noteq> [] \<longrightarrow> \<not> prefix [0, 0, 1] (b @ xs))"

lemma no_code_from_sublist: "no_code_from c xs \<Longrightarrow> \<not> sublist [0, 0, 1] c"
  unfolding no_code_from_def sublist_def
  by (metis append.assoc append_is_Nil_conv list.distinct(1) prefixI)

lemma no_code_from_snoc:
  assumes "no_code_from c (x # xs)" and "\<not> prefix [0, 0, 1] (x # xs)"
  shows "no_code_from (c @ [x]) xs"
  unfolding no_code_from_def
proof (intro allI impI)
  fix a b
  assume "c @ [x] = a @ b" and "b \<noteq> []"
  then obtain b' where "b = b' @ [x]" and "c = a @ b'"
    by (metis append_assoc append_butlast_last_id last_appendR last_snoc same_append_eq butlast_append
        butlast_snoc)
  with assms show "\<not> prefix [0, 0, 1] (b @ xs)"
    unfolding no_code_from_def by (cases "b' = []") auto
qed

lemma flush_unit_units:
  "no_code_from c xs \<Longrightarrow> n \<in> set (flush_unit (Some c)) \<Longrightarrow>
     n \<noteq> [] \<and> \<not> sublist [0, 0, 1] n \<and> last n \<noteq> 0"
  using no_code_from_sublist [of c xs] trimTrailingZeros_prefix [of c] trimTrailingZeros_last [of c]
  by (auto simp: flush_unit_def split: if_splits) (meson prefix_imp_sublist sublist_order.order.trans)

lemma scan_units:
  "(\<And>c. cur = Some c \<Longrightarrow> no_code_from c xs) \<Longrightarrow> n \<in> set (scan xs cur) \<Longrightarrow>
     n \<noteq> [] \<and> \<not> sublist [0, 0, 1] n"
proof (induction xs cur rule: scan.induct)
  case (1 xs cur)
  note unf = scan.simps [of xs cur]
  have flush: "n \<in> set (flush_unit cur) \<Longrightarrow> n \<noteq> [] \<and> \<not> sublist [0, 0, 1] n"
    using "1.prems"(1) flush_unit_units by (cases cur) (auto simp: flush_unit_def [of None])
  consider (nil) "xs = []" | (four) "xs \<noteq> []" "prefix [0, 0, 0, 1] xs"
    | (three) "xs \<noteq> []" "\<not> prefix [0, 0, 0, 1] xs" "prefix [0, 0, 1] xs"
    | (step) "xs \<noteq> []" "\<not> prefix [0, 0, 0, 1] xs" "\<not> prefix [0, 0, 1] xs" by blast
  then show ?case
  proof cases
    case nil
    with "1.prems" no_code_from_sublist show ?thesis
      by (auto split: option.splits if_splits)
  next
    case four
    with "1.prems"(2) flush "1.IH"(1) show ?thesis
      by (auto simp: unf no_code_from_def)
  next
    case three
    with "1.prems"(2) flush "1.IH"(2) show ?thesis
      by (auto simp: unf no_code_from_def)
  next
    case step
    then have "n \<in> set (scan (tl xs) (map_option (\<lambda>c. c @ [hd xs]) cur))"
      using "1.prems"(2) by (simp add: unf)
    moreover have "no_code_from (c @ [hd xs]) (tl xs)" if "cur = Some c" for c
      using no_code_from_snoc [of c "hd xs" "tl xs"] "1.prems"(1) [OF that] step by simp
    ultimately show ?thesis using "1.IH"(3) [OF step] by auto
  qed
qed

text \<open>C36: splitting an Annex B stream gives back exactly its NAL units, in order, whichever
  start codes (three or four bytes) stand before them.\<close>

theorem SplitNALUnits_roundtrip:
  "list_all (clean_unit \<circ> snd) us \<Longrightarrow> SplitNALUnits (annexb us) = map snd us"
  by (rule SplitNALUnits_annexb)

theorem SplitNALUnits_roundtrip_witness:
  "SplitNALUnits [0, 0, 0, 1, 103, 0, 0, 7, 0, 0, 1, 104, 5] = [[103, 0, 0, 7], [104, 5]]"
  using SplitNALUnits_roundtrip [of "[(True, [103, 0, 0, 7]), (False, [104, 5])]"]
  by (simp add: clean_unit_def sublist_Cons_right)

text \<open>On any input whatever, the units that are returned are nonempty and no start code is
  left inside one.\<close>

theorem SplitNALUnits_units: "\<forall>n \<in> set (SplitNALUnits d). n \<noteq> [] \<and> \<not> sublist [0, 0, 1] n"
  using scan_units [of None d] by (auto simp: SplitNALUnits_scan)

theorem SplitNALUnits_units_witness:
  "SplitNALUnits [9, 0, 0, 1, 0, 0, 1, 5, 0] = [[5, 0]] \<and> \<not> sublist [0, 0, 1] [5, 0 :: byte]"
proof -
  have "SplitNALUnits [9, 0, 0, 1, 0, 0, 1, 5, 0] = [[5, 0]]" by code_simp
  with SplitNALUnits_units [of "[9, 0, 0, 1, 0, 0, 1, 5, 0]"] show ?thesis by simp
qed

end
