(* ===== verification/CodecConfig.thy ===== *)
theory CodecConfig
  imports Extradata
begin

text \<open>
  \<open>pkg/lib/av/extradata\<close>: building the \<open>avcC\<close> and \<open>hvcC\<close> configuration records
  (\<open>h264.go\<close>, \<open>h265.go\<close>) and the dispatch of \<open>ToGstCodecData\<close>. The record builders
  allocate a slice of a computed size and fill it by index: the model keeps the slice and
  the index, and a store out of range, which panics in Go, is \<open>None\<close>. A \<open>nil\<close> slice
  is the empty list.
\<close>

section \<open>Filling a slice by index\<close>

type_synonym cursor = "byte list \<times> nat"

text \<open>\<open>out[i] = b; i++\<close>\<close>

fun put_byte :: "byte \<Rightarrow> cursor \<Rightarrow> cursor option" where
  "put_byte b (out, i) = (if i < length out then Some (out[i := b], i + 1) else None)"

text \<open>\<open>putU16BE(out[i:], v); i += 2\<close>\<close>

fun putU16BE :: "u16 \<Rightarrow> cursor \<Rightarrow> cursor option" where
  "putU16BE v (out, i) =
     (if i + 1 < length out
      then Some (out[i := ucast (drop_bit 8 v), i + 1 := ucast v], i + 2) else None)"

text \<open>\<open>copy(out[i:], s); i += len(s)\<close>: \<open>copy\<close> stops at the shorter slice, and slicing
  past the end panics.\<close>

fun copy_bytes :: "byte list \<Rightarrow> cursor \<Rightarrow> cursor option" where
  "copy_bytes s (out, i) =
     (if i \<le> length out
      then Some (take i out @ take (length out - i) s @ drop (i + length s) out, i + length s)
      else None)"

definition and_then :: "cursor option \<Rightarrow> (cursor \<Rightarrow> cursor option) \<Rightarrow> cursor option" where
  "and_then m f = Option.bind m f"

fun put_bytes :: "byte list \<Rightarrow> cursor \<Rightarrow> cursor option" where
  "put_bytes [] c = Some c"
| "put_bytes (b # bs) c = and_then (put_byte b c) (put_bytes bs)"

text \<open>The loop that stores each unit behind its length.\<close>

fun put_units :: "byte list list \<Rightarrow> cursor \<Rightarrow> cursor option" where
  "put_units [] c = Some c"
| "put_units (s # ss) c =
     and_then (and_then (putU16BE (of_nat (length s)) c) (copy_bytes s)) (put_units ss)"

definition units_size :: "byte list list \<Rightarrow> nat" where
  "units_size ss = sum_list (map (\<lambda>s. 2 + length s) ss)"

section \<open>H.264: AVCDecoderConfigurationRecord\<close>

definition errNoSPS :: error where "errNoSPS = ''extradata: no SPS NAL unit found''"
definition errNoPPS :: error where "errNoPPS = ''extradata: no PPS NAL unit found''"

definition h264_nal_type :: "byte list \<Rightarrow> byte" where
  "h264_nal_type nalu = nalu ! 0 AND 31"

definition h264_units :: "byte \<Rightarrow> byte list list \<Rightarrow> byte list list" where
  "h264_units t nalus = filter (\<lambda>nalu. length nalu \<noteq> 0 \<and> h264_nal_type nalu = t) nalus"

definition avcc_write :: "byte list \<Rightarrow> byte list list \<Rightarrow> byte list list \<Rightarrow> byte list option" where
  "avcc_write sps spsList ppsList =
     (let size = 6 + units_size spsList + 1 + units_size ppsList;
          out = replicate size 0;
          hdr = put_bytes [1, sps ! 1, sps ! 2, sps ! 3, 255,
                  224 OR of_nat (length spsList mod 32)] (out, 0)
      in map_option fst
        (and_then (and_then (and_then hdr (put_units spsList))
           (put_byte (of_nat (length ppsList)))) (put_units ppsList)))"

text \<open>\<open>None\<close> is a panic; \<open>Inl\<close> an error; \<open>Inr\<close> the slice.\<close>

definition h264ToAvcC :: "byte list \<Rightarrow> (error + byte list) option" where
  "h264ToAvcC extradata =
     (if length extradata = 0 then Some (Inr [])
      else if extradata ! 0 = 1 then Some (Inr extradata)
      else
        let nalus = SplitNALUnits extradata in
        if length nalus = 0
        then Some (Inl ''extradata: h264: no NAL units found in Annex B data'')
        else
          let spsList = h264_units 7 nalus; ppsList = h264_units 8 nalus in
          if length spsList = 0 then Some (Inl errNoSPS)
          else if length ppsList = 0 then Some (Inl errNoPPS)
          else if length (spsList ! 0) < 4
          then Some (Inl (''extradata: h264: SPS too short ('' @ show_nat (length (spsList ! 0)) @ '' bytes)''))
          else map_option Inr (avcc_write (spsList ! 0) spsList ppsList))"

section \<open>H.265: HEVCDecoderConfigurationRecord\<close>

definition h265_nal_type :: "byte list \<Rightarrow> byte" where
  "h265_nal_type nalu = drop_bit 1 (nalu ! 0) AND 63"

definition h265_units :: "byte \<Rightarrow> byte list list \<Rightarrow> byte list list" where
  "h265_units t nalus = filter (\<lambda>nalu. length nalu \<ge> 2 \<and> h265_nal_type nalu = t) nalus"

text \<open>Byte 1, bytes 2 to 5, bytes 6 to 11 and byte 12 of the record, from a parameter set
  that is long enough; zeros otherwise.\<close>

definition hvcc_profile :: "byte list \<Rightarrow> byte \<times> byte list \<times> byte list \<times> byte" where
  "hvcc_profile sps =
     (if length sps \<ge> 15 then
        let ptlByte = sps ! 3;
            profileSpace = drop_bit 6 ptlByte AND 3;
            tierFlag = drop_bit 5 ptlByte AND 1;
            profileIDC = ptlByte AND 31
        in (push_bit 6 profileSpace OR push_bit 5 tierFlag OR profileIDC,
            subslice 4 8 sps, subslice 8 14 sps, sps ! 14)
      else (0, replicate 4 0, replicate 6 0, 0))"

text \<open>The chroma format and the bit depths less 8, as bytes.\<close>

definition hvcc_chroma :: "byte list \<Rightarrow> byte \<times> byte \<times> byte" where
  "hvcc_chroma sps = (case ParseH265SPS sps of
      None \<Rightarrow> (1, 0, 0)
    | Some p \<Rightarrow> (ucast (h5ChromaFormatIDC p), ucast (h5BitDepthLuma p - 8),
        ucast (h5BitDepthChroma p - 8)))"

definition hvcc_header :: "byte list \<Rightarrow> nat \<Rightarrow> byte list" where
  "hvcc_header sps numArrays =
     (let (b1, compat, constraint, level) = hvcc_profile sps;
          (chroma, luma8, chroma8) = hvcc_chroma sps
      in [1, b1] @ compat @ constraint @ [level, 240, 0, 252, 252 OR (chroma AND 3),
          248 OR (luma8 AND 7), 248 OR (chroma8 AND 7), 0, 0, 15, of_nat numArrays])"

type_synonym nalu_array = "byte \<times> byte list list"

definition hvcc_arrays :: "byte list list \<Rightarrow> byte list list \<Rightarrow> byte list list \<Rightarrow> nalu_array list" where
  "hvcc_arrays vpsList spsList ppsList =
     (if length vpsList > 0 then [(32, vpsList)] else []) @ [(33, spsList), (34, ppsList)]"

definition arrays_size :: "nalu_array list \<Rightarrow> nat" where
  "arrays_size arrs = sum_list (map (\<lambda>(t, ns). 3 + units_size ns) arrs)"

fun put_arrays :: "nalu_array list \<Rightarrow> cursor \<Rightarrow> cursor option" where
  "put_arrays [] c = Some c"
| "put_arrays ((t, ns) # arrs) c =
     and_then (and_then (and_then (put_byte (128 OR (t AND 63)) c)
       (putU16BE (of_nat (length ns)))) (put_units ns)) (put_arrays arrs)"

definition h265ToHvcC :: "byte list \<Rightarrow> (error + byte list) option" where
  "h265ToHvcC extradata =
     (if length extradata = 0 then Some (Inr [])
      else if extradata ! 0 = 1 then Some (Inr extradata)
      else
        let nalus = SplitNALUnits extradata in
        if length nalus = 0
        then Some (Inl ''extradata: h265: no NAL units found in Annex B data'')
        else
          let vpsList = h265_units 32 nalus; spsList = h265_units 33 nalus;
              ppsList = h265_units 34 nalus in
          if length spsList = 0 then Some (Inl errNoSPS)
          else if length ppsList = 0 then Some (Inl errNoPPS)
          else
            let sps = spsList ! 0; arrs = hvcc_arrays vpsList spsList ppsList;
                size = 23 + arrays_size arrs; out = replicate size 0
            in (case and_then (put_bytes (hvcc_header sps (length arrs)) (out, 0))
                  (put_arrays arrs) of
                None \<Rightarrow> None
              | Some (out', i) \<Rightarrow>
                  (if i \<noteq> size then Some (Inl (''extradata: h265: size mismatch: wrote ''
                      @ show_nat i @ '', expected '' @ show_nat size))
                   else Some (Inr out'))))"


section \<open>Writing stays inside the slice\<close>

text \<open>\<open>filled w k c\<close>: the cursor has written \<open>w\<close> and has \<open>k\<close> bytes left.\<close>

definition filled :: "byte list \<Rightarrow> nat \<Rightarrow> cursor \<Rightarrow> bool" where
  "filled w k c \<longleftrightarrow> c = (w @ replicate k 0, length w)"

definition writes :: "(cursor \<Rightarrow> cursor option) \<Rightarrow> byte list \<Rightarrow> bool" where
  "writes f bs \<longleftrightarrow> (\<forall>w k. \<exists>c. f (w @ replicate (length bs + k) 0, length w) = Some c
     \<and> filled (w @ bs) k c)"

lemma writes_byte: "writes (put_byte b) [b]"
  by (simp add: writes_def filled_def list_update_append)

definition u16_bytes :: "u16 \<Rightarrow> byte list" where
  "u16_bytes v = [ucast (drop_bit 8 v), ucast v]"

lemma writes_u16: "writes (putU16BE v) (u16_bytes v)"
  by (simp add: writes_def filled_def u16_bytes_def list_update_append)

lemma writes_copy: "writes (copy_bytes s) s"
  by (simp add: writes_def filled_def replicate_add)

lemma writes_id: "writes Some []"
  by (simp add: writes_def filled_def)

lemma writes_seq:
  assumes "writes f as" and "writes g bs"
  shows "writes (\<lambda>c. and_then (f c) g) (as @ bs)"
  unfolding writes_def
proof (intro allI)
  fix w k
  obtain c where "f (w @ replicate (length as + (length bs + k)) 0, length w) = Some c"
    and "filled (w @ as) (length bs + k) c"
    using assms(1) unfolding writes_def by blast
  moreover obtain c' where "g ((w @ as) @ replicate (length bs + k) 0, length (w @ as)) = Some c'"
    and "filled ((w @ as) @ bs) k c'"
    using assms(2) unfolding writes_def by blast
  ultimately show "\<exists>c. and_then (f (w @ replicate (length (as @ bs) + k) 0, length w)) g = Some c
      \<and> filled (w @ as @ bs) k c"
    by (simp add: and_then_def filled_def add.assoc)
qed

lemma writes_bytes: "writes (put_bytes bs) bs"
proof (induction bs)
  case Nil
  then show ?case using writes_id by (simp add: writes_def)
next
  case (Cons b bs)
  from writes_seq [OF writes_byte [of b] Cons] show ?case by (simp add: writes_def)
qed

definition unit_bytes :: "byte list \<Rightarrow> byte list" where
  "unit_bytes s = u16_bytes (of_nat (length s)) @ s"

lemma writes_units: "writes (put_units ss) (concat (map unit_bytes ss))"
proof (induction ss)
  case Nil
  then show ?case using writes_id by (simp add: writes_def)
next
  case (Cons s ss)
  from writes_seq [OF writes_seq [OF writes_u16 writes_copy] Cons, of "of_nat (length s)" s]
  show ?case by (simp add: writes_def unit_bytes_def)
qed

lemma length_units: "length (concat (map unit_bytes ss)) = units_size ss"
  by (induction ss) (simp_all add: units_size_def unit_bytes_def u16_bytes_def)

text \<open>A write that fills the whole slice returns exactly what was written.\<close>

lemma writes_all:
  assumes "writes f bs"
  shows "f (replicate (length bs) 0, 0) = Some (bs, length bs)"
  using assms [unfolded writes_def, rule_format, of "[]" 0] by (auto simp: filled_def)

section \<open>The records that are written\<close>

definition avcc_record :: "byte list \<Rightarrow> byte list list \<Rightarrow> byte list list \<Rightarrow> byte list" where
  "avcc_record sps spsList ppsList =
     [1, sps ! 1, sps ! 2, sps ! 3, 255, 224 OR of_nat (length spsList mod 32)]
     @ concat (map unit_bytes spsList) @ [of_nat (length ppsList)]
     @ concat (map unit_bytes ppsList)"

lemma avcc_write_eq: "avcc_write sps ss ps = Some (avcc_record sps ss ps)"
proof -
  let ?hdr = "[1, sps ! 1, sps ! 2, sps ! 3, 255, 224 OR of_nat (length ss mod 32)]"
  let ?body = "((?hdr @ concat (map unit_bytes ss)) @ [of_nat (length ps)]) @ concat (map unit_bytes ps)"
  have "length ?body = 6 + units_size ss + 1 + units_size ps"
    unfolding length_append length_units by simp
  note len = this
  have "(\<lambda>c. and_then (and_then (and_then (put_bytes ?hdr c) (put_units ss))
      (put_byte (of_nat (length ps)))) (put_units ps)) (replicate (length ?body) 0, 0)
    = Some (?body, length ?body)"
    by (rule writes_all) (intro writes_seq writes_bytes writes_units writes_byte)
  then show ?thesis
    unfolding len avcc_write_def avcc_record_def Let_def by (simp only: option.map fst_conv append_assoc)
qed

definition array_bytes :: "nalu_array \<Rightarrow> byte list" where
  "array_bytes arr = (case arr of (t, ns) \<Rightarrow>
     [128 OR (t AND 63)] @ u16_bytes (of_nat (length ns)) @ concat (map unit_bytes ns))"

lemma writes_arrays: "writes (put_arrays arrs) (concat (map array_bytes arrs))"
proof (induction arrs)
  case Nil
  then show ?case using writes_id by (simp add: writes_def)
next
  case (Cons a arrs)
  obtain t ns where a: "a = (t, ns)" by (cases a)
  from writes_seq [OF writes_seq [OF writes_seq [OF writes_byte [of "128 OR (t AND 63)"]
      writes_u16 [of "of_nat (length ns)"]] writes_units [of ns]] Cons]
  show ?case by (simp add: writes_def array_bytes_def a)
qed

lemma length_arrays: "length (concat (map array_bytes arrs)) = arrays_size arrs"
proof (induction arrs)
  case (Cons a arrs)
  obtain t ns where a: "a = (t, ns)" by (cases a)
  have "length (array_bytes a) = 3 + units_size ns"
    unfolding array_bytes_def a by (simp add: u16_bytes_def length_units del: length_concat)
  with Cons show ?case by (simp add: arrays_size_def a del: length_concat)
qed (simp add: arrays_size_def)

lemma length_hvcc_header [simp]: "length (hvcc_header sps n) = 23"
  by (auto simp: hvcc_header_def hvcc_profile_def subslice_def Let_def split: prod.split)

definition hvcc_record :: "byte list \<Rightarrow> nalu_array list \<Rightarrow> byte list" where
  "hvcc_record sps arrs = hvcc_header sps (length arrs) @ concat (map array_bytes arrs)"

text \<open>The size computed beforehand is the size written: neither a store out of range nor
  the \<open>size mismatch\<close> error can happen.\<close>

lemma hvcc_write_eq:
  "and_then (put_bytes (hvcc_header sps (length arrs)) (replicate (23 + arrays_size arrs) 0, 0))
     (put_arrays arrs) = Some (hvcc_record sps arrs, 23 + arrays_size arrs)"
proof -
  have len: "length (hvcc_header sps (length arrs) @ concat (map array_bytes arrs)) = 23 + arrays_size arrs"
    unfolding length_append length_arrays by simp
  show ?thesis
    using writes_all [OF writes_seq [OF writes_bytes writes_arrays], of "hvcc_header sps (length arrs)" arrs]
    unfolding len hvcc_record_def .
qed

lemma h264ToAvcC_cases:
  assumes "d \<noteq> []" and "hd d \<noteq> 1"
  defines "ss \<equiv> h264_units 7 (SplitNALUnits d)" and "ps \<equiv> h264_units 8 (SplitNALUnits d)"
  shows "h264ToAvcC d =
    Some (if SplitNALUnits d = [] then Inl ''extradata: h264: no NAL units found in Annex B data''
      else if ss = [] then Inl errNoSPS else if ps = [] then Inl errNoPPS
      else if length (hd ss) < 4
      then Inl (''extradata: h264: SPS too short ('' @ show_nat (length (hd ss)) @ '' bytes)'')
      else Inr (avcc_record (hd ss) ss ps))"
  using assms by (simp add: h264ToAvcC_def Let_def avcc_write_eq hd_conv_nth)

lemma h265ToHvcC_cases:
  assumes "d \<noteq> []" and "hd d \<noteq> 1"
  defines "vs \<equiv> h265_units 32 (SplitNALUnits d)" and "ss \<equiv> h265_units 33 (SplitNALUnits d)"
    and "ps \<equiv> h265_units 34 (SplitNALUnits d)"
  shows "h265ToHvcC d =
    Some (if SplitNALUnits d = [] then Inl ''extradata: h265: no NAL units found in Annex B data''
      else if ss = [] then Inl errNoSPS else if ps = [] then Inl errNoPPS
      else Inr (hvcc_record (hd ss) (hvcc_arrays vs ss ps)))"
  using assms by (simp add: h265ToHvcC_def Let_def hvcc_write_eq hd_conv_nth)

section \<open>Reading the records back\<close>

fun take_units :: "nat \<Rightarrow> byte list \<Rightarrow> (byte list list \<times> byte list) option" where
  "take_units 0 bs = Some ([], bs)"
| "take_units (Suc n) (h # l # bs) =
     (let k = unat h * 256 + unat l in
      if k \<le> length bs
      then map_option (\<lambda>(us, r). (take k bs # us, r)) (take_units n (drop k bs)) else None)"
| "take_units (Suc n) _ = None"

definition parse_avcC :: "byte list \<Rightarrow> (byte list \<times> byte list list \<times> byte list list) option" where
  "parse_avcC bs = (if length bs < 6 \<or> bs ! 0 \<noteq> 1 then None else
     (case take_units (unat (bs ! 5 AND 31)) (drop 6 bs) of
        Some (ss, n # r) \<Rightarrow> (case take_units (unat n) r of
            Some (ps, []) \<Rightarrow> Some (subslice 1 4 bs, ss, ps) | _ \<Rightarrow> None)
      | _ \<Rightarrow> None))"

fun take_arrays :: "nat \<Rightarrow> byte list \<Rightarrow> nalu_array list option" where
  "take_arrays 0 bs = (if bs = [] then Some [] else None)"
| "take_arrays (Suc n) (t # h # l # bs) =
     (case take_units (unat h * 256 + unat l) bs of
        None \<Rightarrow> None
      | Some (us, r) \<Rightarrow> map_option (Cons (t AND 63, us)) (take_arrays n r))"
| "take_arrays (Suc n) _ = None"

definition parse_hvcC :: "byte list \<Rightarrow> nalu_array list option" where
  "parse_hvcC bs = (if length bs < 23 \<or> bs ! 0 \<noteq> 1 then None
     else take_arrays (unat (bs ! 22)) (drop 23 bs))"

lemma u16_bytes_val:
  assumes "n < 65536"
  shows "\<exists>h l. u16_bytes (of_nat n) = [h, l] \<and> unat h * 256 + unat l = n"
proof -
  have "unat (ucast (drop_bit 8 (of_nat n :: u16)) :: byte) = n div 256"
    using assms by (simp add: unsigned_ucast_eq unsigned_drop_bit_eq unat_of_nat drop_bit_nat_def take_bit_nat_def)
  moreover have "unat (ucast (of_nat n :: u16) :: byte) = n mod 256"
    by (simp add: unsigned_ucast_eq unat_of_nat take_bit_nat_def mod_mod_cancel)
  ultimately show ?thesis by (simp add: u16_bytes_def)
qed

lemma take_units_bytes:
  assumes "\<forall>u \<in> set us. length u < 65536"
  shows "take_units (length us) (concat (map unit_bytes us) @ r) = Some (us, r)"
  using assms
proof (induction us)
  case (Cons u us)
  then obtain h l where "u16_bytes (of_nat (length u)) = [h, l]" and "unat h * 256 + unat l = length u"
    using u16_bytes_val [of "length u"] by auto
  with Cons show ?case by (simp add: unit_bytes_def)
qed simp

lemma sps_count_byte:
  assumes "n < 32"
  shows "unat ((224 OR of_nat n) AND (31 :: byte)) = n"
proof -
  have "\<forall>n < 32. unat ((224 OR of_nat n) AND (31 :: byte)) = n" by code_simp
  with assms show ?thesis by blast
qed

lemma parse_avcC_record:
  assumes "0 < length ss" "length ss < 32" "length ps < 256" "4 \<le> length sps"
    and "\<forall>u \<in> set ss \<union> set ps. length u < 65536"
  shows "parse_avcC (avcc_record sps ss ps) = Some (subslice 1 4 sps, ss, ps)"
proof -
  let ?r = "avcc_record sps ss ps"
  have hdr: "length ?r \<ge> 6" "?r ! 0 = 1" "?r ! 5 = 224 OR of_nat (length ss)"
    using assms(2) by (simp_all add: avcc_record_def del: length_concat)
  have "drop 6 ?r = concat (map unit_bytes ss) @ of_nat (length ps) # concat (map unit_bytes ps)"
    by (simp add: avcc_record_def)
  moreover have "take_units (length ps) (concat (map unit_bytes ps)) = Some (ps, [])"
    using take_units_bytes [of ps "[]"] assms(5) by simp
  moreover have "subslice 1 4 ?r = subslice 1 4 sps"
    using assms(4) by (cases sps; cases "tl sps"; cases "tl (tl sps)"; cases "tl (tl (tl sps))")
      (auto simp: avcc_record_def subslice_def)
  ultimately show ?thesis
    using hdr assms by (simp add: parse_avcC_def sps_count_byte take_units_bytes unat_of_nat not_less)
qed

lemma array_type_byte: "t AND 63 = t \<Longrightarrow> (128 OR t) AND 63 = (t :: byte)"
  by (simp add: bit.conj_disj_distrib2)

lemma take_arrays_bytes:
  assumes "\<forall>(t, us) \<in> set arrs. t AND 63 = t \<and> length us < 65536 \<and> (\<forall>u \<in> set us. length u < 65536)"
  shows "take_arrays (length arrs) (concat (map array_bytes arrs)) = Some arrs"
  using assms
proof (induction arrs)
  case (Cons a arrs)
  obtain t us where a: "a = (t, us)" by (cases a)
  with Cons.prems obtain h l where "u16_bytes (of_nat (length us)) = [h, l]"
    and "unat h * 256 + unat l = length us"
    using u16_bytes_val [of "length us"] by auto
  with Cons a show ?case by (simp add: array_bytes_def array_type_byte take_units_bytes)
qed simp

lemma parse_hvcC_record:
  assumes "length arrs < 256"
    and "\<forall>(t, us) \<in> set arrs. t AND 63 = t \<and> length us < 65536 \<and> (\<forall>u \<in> set us. length u < 65536)"
  shows "parse_hvcC (hvcc_record sps arrs) = Some arrs"
proof -
  obtain b1 c1 c2 l where pr: "hvcc_profile sps = (b1, c1, c2, l)" and "length c1 = 4" "length c2 = 6"
    by (cases "15 \<le> length sps") (auto simp: hvcc_profile_def subslice_def Let_def)
  then have "hvcc_header sps (length arrs) ! 0 = 1"
    "hvcc_header sps (length arrs) ! 22 = of_nat (length arrs)"
    by (simp_all add: hvcc_header_def nth_append split: prod.split)
  then show ?thesis
    using assms take_arrays_bytes [of arrs]
    by (simp add: parse_hvcC_def hvcc_record_def nth_append unat_of_nat)
qed

lemma annexb_start: "us \<noteq> [] \<Longrightarrow> annexb us \<noteq> [] \<and> hd (annexb us) = 0"
  by (cases us rule: annexb.cases) auto

section \<open>What the conversions return\<close>

text \<open>C22: an Annex B stream of clean NAL units (any mix of three and four byte start codes)
  with 1 to 31 sequence parameter sets, 1 to 255 picture parameter sets, all shorter than
  64 KiB and the first SPS of four bytes or more, is turned by \<open>h264ToAvcC\<close> into an
  \<open>avcC\<close> record from which the profile bytes and exactly those parameter sets, in order,
  are read back.\<close>

theorem h264ToAvcC_decodes:
  assumes "list_all (clean_unit \<circ> snd) us"
    and "ss = h264_units 7 (map snd us)" and "ps = h264_units 8 (map snd us)"
    and "0 < length ss" "length ss < 32" "0 < length ps" "length ps < 256"
    and "4 \<le> length (hd ss)" and "\<forall>u \<in> set ss \<union> set ps. length u < 65536"
  shows "\<exists>r. h264ToAvcC (annexb us) = Some (Inr r) \<and> parse_avcC r = Some (subslice 1 4 (hd ss), ss, ps)"
proof -
  have "us \<noteq> []" using assms(2,4) by (auto simp: h264_units_def)
  with annexb_start h264ToAvcC_cases [of "annexb us"]
  have "h264ToAvcC (annexb us) = Some (Inr (avcc_record (hd ss) ss ps))"
    using assms by (auto simp: SplitNALUnits_annexb)
  with parse_avcC_record assms show ?thesis by auto
qed

text \<open>The parameter sets of a one-slice stream.\<close>

theorem h264ToAvcC_decodes_witness:
  "\<exists>r. h264ToAvcC (annexb [(True, [103, 66, 0, 30, 5]), (False, [104, 206, 6]), (False, [101, 9])])
      = Some (Inr r)
    \<and> parse_avcC r = Some ([66, 0, 30], [[103, 66, 0, 30, 5]], [[104, 206, 6]])"
proof -
  have "h264_units 7 [[103, 66, 0, 30, 5], [104, 206, 6], [101, 9]] = [[103, 66, 0, 30, 5]]"
    "h264_units 8 [[103, 66, 0, 30, 5], [104, 206, 6], [101, 9]] = [[104, 206, 6]]"
    by code_simp+
  then show ?thesis
    using h264ToAvcC_decodes [of "[(True, [103, 66, 0, 30, 5]), (False, [104, 206, 6]), (False, [101, 9])]",
        OF _ refl refl]
    by (simp add: clean_unit_def sublist_Cons_right subslice_def)
qed

text \<open>C23: an Annex B stream of clean NAL units with at least one SPS and one PPS, fewer than
  65536 of each kind and all shorter than 64 KiB, is turned by \<open>h265ToHvcC\<close> into an
  \<open>hvcC\<close> record whose arrays are read back as the VPS (when there is one), SPS and PPS
  units of the stream, in order.\<close>

theorem h265ToHvcC_decodes:
  assumes "list_all (clean_unit \<circ> snd) us"
    and "vs = h265_units 32 (map snd us)" "ss = h265_units 33 (map snd us)"
      "ps = h265_units 34 (map snd us)"
    and "ss \<noteq> []" "ps \<noteq> []" and "length us < 65536" and "\<forall>u \<in> set us. length (snd u) < 65536"
  shows "\<exists>r. h265ToHvcC (annexb us) = Some (Inr r)
    \<and> parse_hvcC r = Some ((if vs = [] then [] else [(32, vs)]) @ [(33, ss), (34, ps)])"
proof -
  let ?arrs = "hvcc_arrays vs ss ps"
  have "us \<noteq> []" using assms(3,5) by (auto simp: h265_units_def)
  with annexb_start h265ToHvcC_cases [of "annexb us"]
  have out: "h265ToHvcC (annexb us) = Some (Inr (hvcc_record (hd ss) ?arrs))"
    using assms by (auto simp: SplitNALUnits_annexb)
  have len: "length (h265_units t (map snd us)) < 65536" for t
    unfolding h265_units_def using assms(7) by (intro le_less_trans [OF length_filter_le]) simp
  have short: "length u < 65536" if "u \<in> set (h265_units t (map snd us))" for t u
    using that assms(8) by (auto simp: h265_units_def)
  have "parse_hvcC (hvcc_record (hd ss) ?arrs) = Some ?arrs"
    by (rule parse_hvcC_record) (auto simp: hvcc_arrays_def assms(2-4) len short)
  with out show ?thesis by (auto simp: hvcc_arrays_def)
qed

theorem h265ToHvcC_decodes_witness:
  "\<exists>r. h265ToHvcC (annexb [(True, [64, 1, 12]), (True, [66, 1, 1, 3]), (False, [68, 1, 193])])
      = Some (Inr r)
    \<and> parse_hvcC r = Some [(32, [[64, 1, 12]]), (33, [[66, 1, 1, 3]]), (34, [[68, 1, 193]])]"
proof -
  let ?us = "[[64, 1, 12], [66, 1, 1, 3], [68, 1, 193]]"
  have "h265_units 32 ?us = [[64, 1, 12]]" "h265_units 33 ?us = [[66, 1, 1, 3]]"
    "h265_units 34 ?us = [[68, 1, 193]]"
    by code_simp+
  then show ?thesis
    using h265ToHvcC_decodes [of "[(True, [64, 1, 12]), (True, [66, 1, 1, 3]), (False, [68, 1, 193])]",
        OF _ refl refl refl]
    by (simp add: clean_unit_def sublist_Cons_right)
qed


end
