(* ===== verification/Keyframe.thy ===== *)
theory Keyframe
  imports CodecConfig
begin

text \<open>
  \<open>pkg/lib/av/keyframe\<close>: recognising the access units a decoder can start from and the
  tracker that holds back what comes before the first of them.
\<close>

section \<open>The code\<close>

definition isKeyframeH264 :: "byte list list \<Rightarrow> bool" where
  "isKeyframeH264 nalus = list_ex (\<lambda>nalu. length nalu \<noteq> 0 \<and> nalu ! 0 AND 31 = 5) nalus"

definition isKeyframeH265 :: "byte list list \<Rightarrow> bool" where
  "isKeyframeH265 nalus = list_ex (\<lambda>nalu. length nalu \<noteq> 0 \<and>
     (let nalType = drop_bit 1 (nalu ! 0) AND 63 in nalType \<ge> 16 \<and> nalType \<le> 21)) nalus"

definition IsKeyframe :: "byte list \<Rightarrow> string \<Rightarrow> bool" where
  "IsKeyframe dat codec =
     (let nalus = SplitNALUnits dat in
      if codec = ''h264'' then isKeyframeH264 nalus
      else if codec = ''hevc'' \<or> codec = ''h265'' then isKeyframeH265 nalus
      else False)"

definition FixDeltaUnit :: "byte list \<Rightarrow> string \<Rightarrow> bool" where
  "FixDeltaUnit dat codec = (\<not> IsKeyframe dat codec)"

record KeyframeTracker =
  isLive :: bool
  seenKeyframe :: bool

definition NewKeyframeTracker :: "bool \<Rightarrow> KeyframeTracker" where
  "NewKeyframeTracker live = \<lparr>isLive = live, seenKeyframe = False\<rparr>"

definition tracker_Reset :: "KeyframeTracker \<Rightarrow> KeyframeTracker" where
  "tracker_Reset t = t\<lparr>seenKeyframe := False\<rparr>"

text \<open>The results of \<open>FixDeltaUnit\<close> are discarded by the code; the calls change nothing.\<close>

definition ShouldDrop :: "KeyframeTracker \<Rightarrow> byte list \<Rightarrow> string \<Rightarrow> bool \<times> KeyframeTracker" where
  "ShouldDrop t dat codec =
     (if isLive t then (False, t)
      else if \<not> seenKeyframe t then
        (if IsKeyframe dat codec then (False, t\<lparr>seenKeyframe := True\<rparr>) else (True, t))
      else (False, t))"

section \<open>A stream of access units\<close>

text \<open>The units a caller keeps when it asks the tracker about each in turn.\<close>

fun kept :: "string \<Rightarrow> KeyframeTracker \<Rightarrow> byte list list \<Rightarrow> byte list list" where
  "kept codec t [] = []"
| "kept codec t (d # ds) =
     (let (drp, t') = ShouldDrop t d codec in
      if drp then kept codec t' ds else d # kept codec t' ds)"

lemma kept_pass: "isLive t \<or> seenKeyframe t \<Longrightarrow> kept codec t ds = ds"
  by (induction ds arbitrary: t) (auto simp: ShouldDrop_def)

lemma kept_wait:
  "\<not> isLive t \<Longrightarrow> \<not> seenKeyframe t \<Longrightarrow>
     kept codec t ds = dropWhile (\<lambda>d. \<not> IsKeyframe d codec) ds"
  by (induction ds) (auto simp: ShouldDrop_def kept_pass)

text \<open>What a tracker lets through. A live tracker lets every unit through; any other drops
  exactly the units before the first keyframe, also again after a \<open>Reset\<close>, so that what it
  lets through is empty or starts with a keyframe.\<close>

theorem tracker_drops_until_keyframe:
  "kept codec (NewKeyframeTracker True) ds = ds
   \<and> kept codec (NewKeyframeTracker False) ds = dropWhile (\<lambda>d. \<not> IsKeyframe d codec) ds
   \<and> kept codec (tracker_Reset (snd (ShouldDrop (NewKeyframeTracker False) d codec))) ds
     = dropWhile (\<lambda>d. \<not> IsKeyframe d codec) ds"
  by (simp add: kept_pass kept_wait NewKeyframeTracker_def tracker_Reset_def ShouldDrop_def)

text \<open>An Annex B access unit of clean NAL units is a keyframe exactly when one of its units
  is an IDR slice (H.264, type 5) or a random access picture (H.265, types 16 to 21).\<close>

theorem IsKeyframe_annexb:
  assumes "list_all (clean_unit \<circ> snd) us"
  shows "(IsKeyframe (annexb us) ''h264'' \<longleftrightarrow> (\<exists>n \<in> snd ` set us. h264_nal_type n = 5))
   \<and> (IsKeyframe (annexb us) ''hevc'' \<longleftrightarrow>
      (\<exists>n \<in> snd ` set us. 16 \<le> h265_nal_type n \<and> h265_nal_type n \<le> 21))"
proof -
  from assms have "\<And>u. u \<in> set us \<Longrightarrow> snd u \<noteq> []" by (auto simp: list_all_iff clean_unit_def)
  with assms show ?thesis
    by (auto simp: IsKeyframe_def SplitNALUnits_annexb isKeyframeH264_def isKeyframeH265_def
        list_ex_iff h264_nal_type_def h265_nal_type_def Let_def)
qed

theorem IsKeyframe_annexb_witness:
  "IsKeyframe (annexb [(True, [103, 66]), (False, [101, 136])]) ''h264''
   \<and> \<not> IsKeyframe (annexb [(True, [65, 154])]) ''h264''"
proof -
  have "h264_nal_type [101, 136] = 5" "h264_nal_type [65, 154] = 1" by code_simp+
  then show ?thesis
    using IsKeyframe_annexb [of "[(True, [103, 66]), (False, [101, 136])]"]
      IsKeyframe_annexb [of "[(True, [65, 154])]"]
    by (simp add: clean_unit_def sublist_Cons_right)
qed

end
