(* ===== verification/Selector.thy ===== *)
theory Selector
  imports Prelude
begin

text \<open>
  \<open>pkg/lib/av/selector\<close>: choosing the audio track of a stream. The result of the model is
  the index that the code returns, \<open>-1\<close> when there is no track.
\<close>

section \<open>The code\<close>

record AudioTrack =
  Index :: int
  Codec :: string
  Channels :: int
  SampleRate :: int
  Language :: string
  IsAD :: bool
  BitrateKbps :: int

definition codecPriority :: "string \<Rightarrow> int" where
  "codecPriority codec =
     (if codec = ''aac'' then 50 else if codec = ''mp2'' then 40 else if codec = ''ac3'' then 30
      else if codec = ''eac3'' then 20 else if codec = ''dts'' then 10 else 0)"

text \<open>One round of the last loop: the better of the best so far and the next track.\<close>

definition better :: "AudioTrack \<Rightarrow> AudioTrack \<Rightarrow> AudioTrack" where
  "better best t =
     (let tp = codecPriority (Codec t); bp = codecPriority (Codec best)
      in if tp > bp \<or> (tp = bp \<and> Channels t > Channels best) then t else best)"

text \<open>The tracks that are left after the two narrowing steps.\<close>

definition audio_candidates :: "AudioTrack list \<Rightarrow> string \<Rightarrow> AudioTrack list" where
  "audio_candidates tracks lang =
     (let candidates = filter (\<lambda>t. \<not> IsAD t) tracks;
          candidates = (if length candidates = 0 then tracks else candidates)
      in if lang \<noteq> '''' then
           (let langMatches = filter (\<lambda>t. Language t = lang) candidates
            in if length langMatches > 0 then langMatches else candidates)
         else candidates)"

definition SelectAudio :: "AudioTrack list \<Rightarrow> string \<Rightarrow> int" where
  "SelectAudio tracks lang =
     (if length tracks = 0 then -1
      else
        let candidates = audio_candidates tracks lang
        in Index (fold (\<lambda>t best. better best t) (tl candidates) (hd candidates)))"

section \<open>What is chosen\<close>

definition audio_rank :: "AudioTrack \<Rightarrow> int \<times> int" where
  "audio_rank t = (codecPriority (Codec t), Channels t)"

definition rank_le :: "int \<times> int \<Rightarrow> int \<times> int \<Rightarrow> bool" where
  "rank_le a b \<longleftrightarrow> fst a < fst b \<or> fst a = fst b \<and> snd a \<le> snd b"

lemma rank_le_trans: "rank_le a b \<Longrightarrow> rank_le b c \<Longrightarrow> rank_le a c"
  by (auto simp: rank_le_def)

lemma better_rank: "better b t = (if rank_le (audio_rank t) (audio_rank b) then b else t)"
  by (auto simp: better_def rank_le_def audio_rank_def Let_def)

text \<open>The loop keeps the first of the tracks of the highest rank.\<close>

lemma fold_better:
  "\<exists>pre post. b # ts = pre @ fold (\<lambda>t best. better best t) ts b # post
     \<and> (\<forall>t \<in> set pre. \<not> rank_le (audio_rank (fold (\<lambda>t best. better best t) ts b)) (audio_rank t))
     \<and> (\<forall>t \<in> set post. rank_le (audio_rank t) (audio_rank (fold (\<lambda>t best. better best t) ts b)))"
proof (induction ts rule: rev_induct)
  case (snoc t ts)
  let ?m = "fold (\<lambda>t best. better best t) ts b"
  from snoc obtain pre post where IH: "b # ts = pre @ ?m # post"
    "\<forall>t \<in> set pre. \<not> rank_le (audio_rank ?m) (audio_rank t)"
    "\<forall>t \<in> set post. rank_le (audio_rank t) (audio_rank ?m)" by blast
  show ?case
  proof (cases "rank_le (audio_rank t) (audio_rank ?m)")
    case True
    then show ?thesis
      using IH by (intro exI [of _ pre] exI [of _ "post @ [t]"]) (auto simp: better_rank)
  next
    case False
    have "\<not> rank_le (audio_rank t) (audio_rank x)" if "x \<in> set (b # ts)" for x
    proof -
      from that IH(1) have "x \<in> set pre \<or> x = ?m \<or> x \<in> set post" by (metis set_append Un_iff set_ConsD)
      then have "rank_le (audio_rank x) (audio_rank ?m)"
        using IH(2,3) by (auto simp: rank_le_def)
      with False show ?thesis by (blast intro: rank_le_trans)
    qed
    then show ?thesis
      using False by (intro exI [of _ "b # ts"] exI [of _ "[]"]) (auto simp: better_rank)
  qed
next
  case Nil
  show ?case by (intro exI [of _ "[]"]) simp
qed

lemma audio_candidates_spec:
  fixes lang :: string
  assumes "tracks \<noteq> []"
  defines "noAD \<equiv> filter (\<lambda>t. \<not> IsAD t) tracks"
  defines "pool \<equiv> if noAD = [] then tracks else noAD"
  shows "audio_candidates tracks lang =
    (if lang \<noteq> '''' \<and> filter (\<lambda>t. Language t = lang) pool \<noteq> []
     then filter (\<lambda>t. Language t = lang) pool else pool)"
    and "pool \<noteq> []" and "audio_candidates tracks lang \<noteq> []"
  using assms by (simp_all add: audio_candidates_def Let_def)

text \<open>The documented selection order. The chosen track is the first of those of the highest
  rank (codec priority, then channels) among the candidates: the tracks without audio
  description (all, when every track has it), narrowed to the preferred language when one
  is set and a candidate has it.\<close>

theorem SelectAudio_best:
  fixes lang :: string
  assumes "tracks \<noteq> []"
  defines "noAD \<equiv> filter (\<lambda>t. \<not> IsAD t) tracks"
  defines "pool \<equiv> if noAD = [] then tracks else noAD"
  defines "cands \<equiv> if lang \<noteq> '''' \<and> filter (\<lambda>t. Language t = lang) pool \<noteq> []
    then filter (\<lambda>t. Language t = lang) pool else pool"
  shows "\<exists>pre t post. cands = pre @ t # post \<and> SelectAudio tracks lang = Index t
    \<and> (\<forall>u \<in> set pre. \<not> rank_le (audio_rank t) (audio_rank u))
    \<and> (\<forall>u \<in> set post. rank_le (audio_rank u) (audio_rank t))"
proof -
  have c: "audio_candidates tracks lang = cands" "cands \<noteq> []"
    using audio_candidates_spec(1,3) [OF assms(1), of lang] unfolding cands_def pool_def noAD_def by simp_all
  then have "SelectAudio tracks lang = Index (fold (\<lambda>t best. better best t) (tl cands) (hd cands))"
    and "hd cands # tl cands = cands"
    using assms(1) by (simp_all add: SelectAudio_def)
  with fold_better [of "hd cands" "tl cands"] show ?thesis by metis
qed

theorem SelectAudio_best_witness:
  "SelectAudio
     [\<lparr>Index = 1, Codec = ''ac3'', Channels = 6, SampleRate = 48000, Language = ''eng'', IsAD = False, BitrateKbps = 384\<rparr>,
      \<lparr>Index = 2, Codec = ''aac'', Channels = 2, SampleRate = 48000, Language = ''eng'', IsAD = True, BitrateKbps = 128\<rparr>,
      \<lparr>Index = 3, Codec = ''mp2'', Channels = 2, SampleRate = 48000, Language = ''eng'', IsAD = False, BitrateKbps = 192\<rparr>]
     ''eng'' = 3"
proof -
  let ?a = "\<lparr>Index = 1, Codec = ''ac3'', Channels = 6, SampleRate = 48000, Language = ''eng'', IsAD = False, BitrateKbps = 384\<rparr>"
  let ?b = "\<lparr>Index = 2, Codec = ''aac'', Channels = 2, SampleRate = 48000, Language = ''eng'', IsAD = True, BitrateKbps = 128\<rparr>"
  let ?c = "\<lparr>Index = 3, Codec = ''mp2'', Channels = 2, SampleRate = 48000, Language = ''eng'', IsAD = False, BitrateKbps = 192\<rparr>"
  obtain pre t post where "[?a, ?c] = pre @ t # post" "SelectAudio [?a, ?b, ?c] ''eng'' = Index t"
    and "\<forall>u \<in> set pre. \<not> rank_le (audio_rank t) (audio_rank u)"
    and "\<forall>u \<in> set post. rank_le (audio_rank u) (audio_rank t)"
    using SelectAudio_best [of "[?a, ?b, ?c]" "''eng''"] by auto
  then show ?thesis
    by (cases pre) (auto simp: rank_le_def audio_rank_def codecPriority_def Cons_eq_append_conv)
qed

end
