(* ===== verification/TsHeader.thy ===== *)
theory TsHeader
  imports Prelude "HOL-Library.Monad_Syntax"
begin

text \<open>
  \<open>pkg/media/tsheader.go\<close>: collecting the packets a player needs before the first frame of
  an MPEG transport stream: the program association table, the program map table and the
  first packet of the video stream that carries a sequence parameter set. A read out of
  range, which panics in Go, is \<open>None\<close>; the HTTP request around it is not modelled, and
  what the response body delivers is a list of read results.
\<close>

section \<open>The code\<close>

definition tsPacketSize :: nat where "tsPacketSize = 188"

text \<open>\<open>int(hi&mask)<<8 | int(lo)\<close> and \<open>uint16(hi&mask)<<8 | uint16(lo)\<close>\<close>

definition len12 :: "byte \<Rightarrow> byte \<Rightarrow> int" where
  "len12 hi lo = push_bit 8 (uint (hi AND 15)) OR uint lo"

lemma len12_nonneg [simp]: "0 \<le> len12 hi lo"
  by (simp add: len12_def)

definition pid13 :: "byte \<Rightarrow> byte \<Rightarrow> u16" where
  "pid13 hi lo = push_bit 8 (ucast (hi AND 31)) OR ucast lo"

definition u16BE :: "byte \<Rightarrow> byte \<Rightarrow> u16" where
  "u16BE hi lo = push_bit 8 (ucast hi) OR ucast lo"

definition tsPayload :: "byte list \<Rightarrow> byte list option" where
  "tsPayload pkt = do {
     b3 \<leftarrow> idx pkt 3;
     start \<leftarrow> (if b3 AND 32 \<noteq> 0 then do { b4 \<leftarrow> idx pkt 4; Some (5 + uint b4) } else Some 4);
     if start \<ge> int tsPacketSize then Some [] else slice_from pkt start }"

function nal_type_loop :: "byte list \<Rightarrow> byte \<Rightarrow> nat \<Rightarrow> bool option" where
  "nal_type_loop payload nalType i =
     (if int i < int (length payload) - 3 then do {
        b0 \<leftarrow> idx payload (int i); b1 \<leftarrow> idx payload (int i + 1);
        b2 \<leftarrow> idx payload (int i + 2); b3 \<leftarrow> idx payload (int i + 3);
        found \<leftarrow>
          (if b0 = 0 \<and> b1 = 0 then
             (if b2 = 1 then Some (b3 AND 31 = nalType)
              else if i + 4 < length payload \<and> b2 = 0 \<and> b3 = 1
                then do { b4 \<leftarrow> idx payload (int i + 4); Some (b4 AND 31 = nalType) }
              else Some False)
           else Some False);
        if found then Some True else nal_type_loop payload nalType (Suc i) }
      else Some False)"
  by pat_completeness auto
termination
  by (relation "measure (\<lambda>(payload, t, i). length payload - i)") auto

declare nal_type_loop.simps [simp del]

definition hasNALType :: "byte list \<Rightarrow> byte \<Rightarrow> bool option" where
  "hasNALType payload nalType =
     (if length payload < 4 then Some False else nal_type_loop payload nalType 0)"

definition hasSPSNAL :: "byte list \<Rightarrow> bool option" where
  "hasSPSNAL payload = hasNALType payload 7"

definition hasIDRNAL :: "byte list \<Rightarrow> bool option" where
  "hasIDRNAL payload = hasNALType payload 5"

text \<open>The beginning that \<open>parsePATForPMTPID\<close>, \<open>isPMT\<close> and \<open>parsePMTForVideoPID\<close> share:
  the section behind the adaptation field and the pointer field; \<open>Some None\<close> is the early
  return.\<close>

definition ts_section :: "byte list \<Rightarrow> byte list option option" where
  "ts_section pkt = do {
     b3 \<leftarrow> idx pkt 3;
     start \<leftarrow> (if b3 AND 32 \<noteq> 0
        then do { b4 \<leftarrow> idx pkt 4;
                  Some (if uint b4 + 5 > int tsPacketSize then None else Some (5 + uint b4)) }
        else Some (Some 4));
     case start of
       None \<Rightarrow> Some None
     | Some s \<Rightarrow>
         if s \<ge> int tsPacketSize - 1 then Some None
         else do {
           pointer \<leftarrow> idx pkt s;
           let offset = s + 1 + uint pointer in
           if offset \<ge> int (length pkt) then Some None
           else map_option Some (slice_from pkt offset) } }"

function pat_loop :: "byte list \<Rightarrow> int \<Rightarrow> int \<Rightarrow> u16 option" where
  "pat_loop d limit p =
     (if p + 4 \<le> limit then do {
        d0 \<leftarrow> idx d p; d1 \<leftarrow> idx d (p + 1); d2 \<leftarrow> idx d (p + 2); d3 \<leftarrow> idx d (p + 3);
        if u16BE d0 d1 \<noteq> 0 then Some (pid13 d2 d3) else pat_loop d limit (p + 4) }
      else Some 0)"
  by pat_completeness auto
termination
  by (relation "measure (\<lambda>(d, limit, p). nat (limit - p))") auto

declare pat_loop.simps [simp del]

definition parsePATForPMTPID :: "byte list \<Rightarrow> u16 option" where
  "parsePATForPMTPID pkt = do {
     s \<leftarrow> ts_section pkt;
     case s of
       None \<Rightarrow> Some 0
     | Some d \<Rightarrow>
         if length d < 12 then Some 0
         else do {
           d1 \<leftarrow> idx d 1; d2 \<leftarrow> idx d 2;
           let sectionLen = len12 d1 d2 in
           pat_loop d (min (3 + sectionLen - 4) (int (length d))) 8 } }"

definition isPMT :: "byte list \<Rightarrow> bool option" where
  "isPMT pkt = do {
     s \<leftarrow> ts_section pkt;
     case s of None \<Rightarrow> Some False | Some d \<Rightarrow> do { t \<leftarrow> idx d 0; Some (t = 2) } }"

function pmt_loop :: "byte list \<Rightarrow> int \<Rightarrow> int \<Rightarrow> u16 option" where
  "pmt_loop d limit p =
     (if p + 5 \<le> limit then do {
        streamType \<leftarrow> idx d p; d1 \<leftarrow> idx d (p + 1); d2 \<leftarrow> idx d (p + 2);
        d3 \<leftarrow> idx d (p + 3); d4 \<leftarrow> idx d (p + 4);
        if streamType = 27 \<or> streamType = 36 \<or> streamType = 2 then Some (pid13 d1 d2)
        else pmt_loop d limit (p + (5 + len12 d3 d4)) }
      else Some 0)"
  by pat_completeness auto
termination
  proof (relation "measure (\<lambda>(d, limit, p). nat (limit - p))", goal_cases)
  case (2 d limit p streamType d1 d2 d3 d4)
  then show ?case using len12_nonneg [of d3 d4] by (simp del: len12_nonneg)
qed simp

declare pmt_loop.simps [simp del]

definition parsePMTForVideoPID :: "byte list \<Rightarrow> u16 option" where
  "parsePMTForVideoPID pkt = do {
     s \<leftarrow> ts_section pkt;
     case s of
       None \<Rightarrow> Some 0
     | Some d \<Rightarrow>
         if length d < 12 then Some 0
         else do {
           d1 \<leftarrow> idx d 1; d2 \<leftarrow> idx d 2; d10 \<leftarrow> idx d 10; d11 \<leftarrow> idx d 11;
           let sectionLen = len12 d1 d2; progInfoLen = len12 d10 d11 in
           pmt_loop d (min (3 + sectionLen - 4) (int (length d))) (12 + progInfoLen) } }"

definition skipPESHeader :: "byte list \<Rightarrow> byte list option" where
  "skipPESHeader payload =
     (if length payload < 9 then Some payload
      else do {
        p0 \<leftarrow> idx payload 0; p1 \<leftarrow> idx payload 1; p2 \<leftarrow> idx payload 2;
        if p0 \<noteq> 0 \<or> p1 \<noteq> 0 \<or> p2 \<noteq> 1 then Some payload
        else do {
          p8 \<leftarrow> idx payload 8;
          let start = 9 + uint p8 in
          if start \<ge> int (length payload) then Some [] else slice_from payload start } })"

record ts_state =
  ts_pat :: "byte list option"
  ts_pmt :: "byte list option"
  ts_videoPID :: u16
  ts_spsStart :: nat
  ts_collecting :: bool
  ts_videoPkts :: "byte list list"

definition ts_init :: ts_state where
  "ts_init = \<lparr>ts_pat = None, ts_pmt = None, ts_videoPID = 0, ts_spsStart = 0,
     ts_collecting = False, ts_videoPkts = []\<rparr>"

definition pkt_pid :: "byte list \<Rightarrow> u16" where "pkt_pid pkt = pid13 (pkt ! 1) (pkt ! 2)"
definition pkt_pusi :: "byte list \<Rightarrow> bool" where "pkt_pusi pkt = (pkt ! 1 AND 64 \<noteq> 0)"

text \<open>The body of the inner loop for one packet: the three steps in order. The flag of the
  last is \<open>goto done\<close>.\<close>

definition see_pat :: "byte list \<Rightarrow> ts_state \<Rightarrow> ts_state option" where
  "see_pat pkt s =
     (if pkt_pid pkt = 0 \<and> pkt_pusi pkt \<and> ts_pat s = None
      then do { v \<leftarrow> parsePATForPMTPID pkt; Some (s\<lparr>ts_pat := Some pkt, ts_videoPID := v\<rparr>) }
      else Some s)"

definition see_pmt :: "byte list \<Rightarrow> ts_state \<Rightarrow> ts_state option" where
  "see_pmt pkt s =
     (if ts_pmt s = None \<and> pkt_pusi pkt \<and> pkt_pid pkt \<noteq> 0 \<and> pkt_pid pkt \<noteq> 0x1fff
      then do {
        is_pmt \<leftarrow> isPMT pkt;
        if is_pmt then do {
          vp \<leftarrow> parsePMTForVideoPID pkt;
          let s1 = s\<lparr>ts_pmt := Some pkt\<rparr> in
          Some (if vp > 0 then s1\<lparr>ts_videoPID := vp\<rparr> else s1) }
        else Some s }
      else Some s)"

definition see_video :: "byte list \<Rightarrow> ts_state \<Rightarrow> (bool \<times> ts_state) option" where
  "see_video pkt s =
     (if ts_pat s \<noteq> None \<and> ts_pmt s \<noteq> None \<and> ts_videoPID s > 0 \<and> pkt_pid pkt = ts_videoPID s
      then do {
        hasSPS \<leftarrow> (if pkt_pusi pkt then do {
            payload \<leftarrow> tsPayload pkt;
            pesData \<leftarrow> skipPESHeader payload;
            a \<leftarrow> hasSPSNAL payload;
            if a then Some True else hasSPSNAL pesData }
          else Some False);
        if hasSPS
        then Some (True, s\<lparr>ts_spsStart := length (ts_videoPkts s), ts_collecting := True,
          ts_videoPkts := ts_videoPkts s @ [pkt]\<rparr>)
        else Some (False,
          if ts_collecting s then s\<lparr>ts_videoPkts := ts_videoPkts s @ [pkt]\<rparr> else s) }
      else Some (False, s))"

definition ts_packet :: "byte list \<Rightarrow> ts_state \<Rightarrow> (bool \<times> ts_state) option" where
  "ts_packet pkt s = do { s1 \<leftarrow> see_pat pkt s; s2 \<leftarrow> see_pmt pkt s1; see_video pkt s2 }"

text \<open>The inner loop: resynchronise on the sync byte, take a packet; the rest of the buffer
  stays for the next read.\<close>

function ts_packets :: "byte list \<Rightarrow> ts_state \<Rightarrow> (bool \<times> byte list \<times> ts_state) option" where
  "ts_packets buf s =
     (if length buf \<ge> tsPacketSize then
        (if buf ! 0 \<noteq> 0x47 then ts_packets (drop 1 buf) s
         else case ts_packet (take tsPacketSize buf) s of
             None \<Rightarrow> None
           | Some (True, s') \<Rightarrow> Some (True, drop tsPacketSize buf, s')
           | Some (False, s') \<Rightarrow> ts_packets (drop tsPacketSize buf) s')
      else Some (False, buf, s))"
  by pat_completeness auto
termination
  by (relation "measure (\<lambda>(buf, s). length buf)") (auto simp: tsPacketSize_def)

declare ts_packets.simps [simp del]

text \<open>What \<open>r.Read\<close> returned: bytes, and possibly an error. After the last result of the
  list the reader returns \<open>io.EOF\<close>.\<close>

datatype read_result = Bytes "byte list" | BytesEOF "byte list" | BytesErr "byte list" error

definition show_bool :: "bool \<Rightarrow> string" where
  "show_bool b = (if b then ''true'' else ''false'')"

definition ts_missing :: "ts_state \<Rightarrow> error" where
  "ts_missing s = ''could not capture TS header (pat='' @ show_bool (ts_pat s \<noteq> None)
     @ '' pmt='' @ show_bool (ts_pmt s \<noteq> None)
     @ '' video_pkts='' @ show_nat (length (ts_videoPkts s)) @ '')''"

definition ts_result :: "ts_state \<Rightarrow> error + byte list" where
  "ts_result s = (case (ts_pat s, ts_pmt s) of
      (Some p, Some m) \<Rightarrow>
        if length (ts_videoPkts s) = 0 then Inl (ts_missing s)
        else Inr (p @ m @ concat (drop (ts_spsStart s) (ts_videoPkts s)))
    | _ \<Rightarrow> Inl (ts_missing s))"

fun extractTSHeader_loop :: "read_result list \<Rightarrow> byte list \<Rightarrow> ts_state \<Rightarrow> (error + byte list) option" where
  "extractTSHeader_loop [] buf s = Some (ts_result s)"
| "extractTSHeader_loop (BytesEOF bs # rs) buf s = Some (ts_result s)"
| "extractTSHeader_loop (BytesErr bs e # rs) buf s =
     Some (if length (ts_videoPkts s) > 0 then ts_result s else Inl e)"
| "extractTSHeader_loop (Bytes bs # rs) buf s =
     (case ts_packets (buf @ bs) s of
        None \<Rightarrow> None
      | Some (True, buf', s') \<Rightarrow> Some (ts_result s')
      | Some (False, buf', s') \<Rightarrow> extractTSHeader_loop rs buf' s')"

definition extractTSHeader :: "read_result list \<Rightarrow> (error + byte list) option" where
  "extractTSHeader rs = extractTSHeader_loop rs [] ts_init"

section \<open>No read is out of range\<close>

named_theorems in_range \<open>computations that read inside their slices\<close>

lemma bind_in [in_range]:
  "m \<noteq> None \<Longrightarrow> (\<And>x. m = Some x \<Longrightarrow> f x \<noteq> None) \<Longrightarrow> Option.bind m f \<noteq> None"
  by (cases m) simp_all

lemma idx_range [in_range]: "0 \<le> i \<Longrightarrow> i < int (length xs) \<Longrightarrow> idx xs i \<noteq> None"
  by simp

lemma slice_from_range [in_range]: "0 \<le> i \<Longrightarrow> i \<le> int (length xs) \<Longrightarrow> slice_from xs i \<noteq> None"
  by simp

lemma if_in [in_range]:
  "(c \<Longrightarrow> a \<noteq> None) \<Longrightarrow> (\<not> c \<Longrightarrow> b \<noteq> None) \<Longrightarrow> (if c then a else b) \<noteq> None"
  by simp

lemma case_option_in [in_range]:
  "(x = None \<Longrightarrow> a \<noteq> None) \<Longrightarrow> (\<And>y. x = Some y \<Longrightarrow> f y \<noteq> None) \<Longrightarrow>
     (case x of None \<Rightarrow> a | Some y \<Rightarrow> f y) \<noteq> None"
  by (cases x) simp_all

lemma map_option_in [in_range]: "m \<noteq> None \<Longrightarrow> map_option f m \<noteq> None"
  by simp

lemma Some_in [in_range]: "Some x \<noteq> None"
  by simp

lemma start_bounds:
  assumes "(if c then do { b4 \<leftarrow> idx pkt 4; Some (if uint b4 + 5 > n then None else Some (5 + uint b4)) }
    else Some (Some 4)) = Some (Some (s :: int))"
  shows "0 \<le> s"
  using assms by (cases "idx pkt 4") (auto split: if_splits)

lemma ts_section_in [in_range]: "length pkt = tsPacketSize \<Longrightarrow> ts_section pkt \<noteq> None"
  unfolding ts_section_def Let_def
  by (intro in_range) (auto simp: tsPacketSize_def dest: start_bounds)

lemma ts_section_nonempty: "ts_section pkt = Some (Some d) \<Longrightarrow> d \<noteq> []"
  by (auto simp: ts_section_def Let_def slice_from_def le_nat_iff split: bind_splits if_splits option.splits)

lemma pat_loop_in [in_range]: "limit \<le> int (length d) \<Longrightarrow> 0 \<le> p \<Longrightarrow> pat_loop d limit p \<noteq> None"
proof (induction d limit p rule: pat_loop.induct)
  case (1 d limit p)
  then show ?case
    unfolding pat_loop.simps [of d limit p] by (intro in_range) auto
qed

lemma pmt_loop_in [in_range]: "limit \<le> int (length d) \<Longrightarrow> 0 \<le> p \<Longrightarrow> pmt_loop d limit p \<noteq> None"
proof (induction d limit p rule: pmt_loop.induct)
  case (1 d limit p)
  then show ?case
    unfolding pmt_loop.simps [of d limit p] by (intro in_range) auto
qed

lemma nal_type_loop_in [in_range]: "nal_type_loop payload t i \<noteq> None"
proof (induction payload t i rule: nal_type_loop.induct)
  case (1 payload t i)
  then show ?case
    unfolding nal_type_loop.simps [of payload t i] by (intro in_range) auto
qed

lemma tsPayload_in [in_range]: "length pkt = tsPacketSize \<Longrightarrow> tsPayload pkt \<noteq> None"
  unfolding tsPayload_def
  by (intro in_range) (auto simp: tsPacketSize_def split: bind_splits if_splits)

lemma skipPESHeader_in [in_range]: "skipPESHeader d \<noteq> None"
  unfolding skipPESHeader_def Let_def by (intro in_range) auto

lemma hasSPSNAL_in [in_range]: "hasSPSNAL d \<noteq> None"
  unfolding hasSPSNAL_def hasNALType_def by (intro in_range)

lemma parsePAT_in [in_range]: "length pkt = tsPacketSize \<Longrightarrow> parsePATForPMTPID pkt \<noteq> None"
  unfolding parsePATForPMTPID_def Let_def by (intro in_range) auto

lemma parsePMT_in [in_range]: "length pkt = tsPacketSize \<Longrightarrow> parsePMTForVideoPID pkt \<noteq> None"
  unfolding parsePMTForVideoPID_def Let_def by (intro in_range) auto

lemma isPMT_in [in_range]: "length pkt = tsPacketSize \<Longrightarrow> isPMT pkt \<noteq> None"
  unfolding isPMT_def by (intro in_range) (auto dest: ts_section_nonempty)

section \<open>What is collected\<close>

definition ts_packet_ok :: "byte list \<Rightarrow> bool" where
  "ts_packet_ok pkt \<longleftrightarrow> length pkt = tsPacketSize \<and> pkt ! 0 = 0x47"

definition pat_packet :: "byte list \<Rightarrow> bool" where
  "pat_packet pkt \<longleftrightarrow> ts_packet_ok pkt \<and> pkt_pusi pkt \<and> pkt_pid pkt = 0"

definition pmt_packet :: "byte list \<Rightarrow> bool" where
  "pmt_packet pkt \<longleftrightarrow> ts_packet_ok pkt \<and> pkt_pusi pkt \<and> isPMT pkt = Some True"

text \<open>A packet that starts a PES packet and carries a sequence parameter set.\<close>

definition sps_packet :: "byte list \<Rightarrow> bool" where
  "sps_packet pkt \<longleftrightarrow> ts_packet_ok pkt \<and> pkt_pusi pkt \<and>
     (\<exists>d. tsPayload pkt = Some d \<and> (hasSPSNAL d = Some True
        \<or> Option.bind (skipPESHeader d) hasSPSNAL = Some True))"

text \<open>The PID the code looks at comes from the map table it kept or from the association
  table it kept.\<close>

definition pid_source :: "byte list option \<Rightarrow> byte list option \<Rightarrow> u16 \<Rightarrow> bool" where
  "pid_source p m v \<longleftrightarrow> v = 0 \<or> (\<exists>x. p = Some x \<and> parsePATForPMTPID x = Some v)
     \<or> (\<exists>x. m = Some x \<and> parsePMTForVideoPID x = Some v)"

definition tables_ok :: "ts_state \<Rightarrow> bool" where
  "tables_ok s \<longleftrightarrow> (\<forall>p. ts_pat s = Some p \<longrightarrow> pat_packet p)
     \<and> (\<forall>m. ts_pmt s = Some m \<longrightarrow> pmt_packet m)
     \<and> pid_source (ts_pat s) (ts_pmt s) (ts_videoPID s)"

definition waiting :: "ts_state \<Rightarrow> bool" where
  "waiting s \<longleftrightarrow> tables_ok s \<and> ts_videoPkts s = [] \<and> \<not> ts_collecting s"

definition captured :: "ts_state \<Rightarrow> bool" where
  "captured s \<longleftrightarrow> tables_ok s \<and> ts_pat s \<noteq> None \<and> ts_pmt s \<noteq> None \<and> ts_spsStart s = 0
     \<and> (\<exists>v. ts_videoPkts s = [v] \<and> sps_packet v \<and> pkt_pid v = ts_videoPID s \<and> pkt_pid v \<noteq> 0)"

lemma see_pat_waiting:
  assumes "ts_packet_ok pkt" and "waiting s"
  shows "\<exists>s'. see_pat pkt s = Some s' \<and> waiting s'"
proof -
  obtain v where "parsePATForPMTPID pkt = Some v"
    using parsePAT_in [of pkt] assms(1) by (auto simp: ts_packet_ok_def)
  with assms show ?thesis
    by (auto simp: see_pat_def waiting_def tables_ok_def pid_source_def pat_packet_def)
qed

lemma see_pmt_waiting:
  assumes "ts_packet_ok pkt" and "waiting s"
  shows "\<exists>s'. see_pmt pkt s = Some s' \<and> waiting s'"
proof -
  obtain b v where "isPMT pkt = Some b" "parsePMTForVideoPID pkt = Some v"
    using isPMT_in [of pkt] parsePMT_in [of pkt] assms(1) by (auto simp: ts_packet_ok_def)
  with assms show ?thesis
    by (auto simp: see_pmt_def waiting_def tables_ok_def pid_source_def pmt_packet_def Let_def)
qed

lemma see_video_waiting:
  assumes "ts_packet_ok pkt" and "waiting s"
  shows "\<exists>b s'. see_video pkt s = Some (b, s') \<and> (if b then captured s' else waiting s')"
proof -
  obtain d where d: "tsPayload pkt = Some d"
    using tsPayload_in [of pkt] assms(1) by (auto simp: ts_packet_ok_def)
  obtain e where e: "skipPESHeader d = Some e"
    using skipPESHeader_in [of d] by blast
  obtain a b where ab: "hasSPSNAL d = Some a" "hasSPSNAL e = Some b"
    using hasSPSNAL_in [of d] hasSPSNAL_in [of e] by (meson not_None_eq)
  then have eq: "see_video pkt s =
    (if ts_pat s \<noteq> None \<and> ts_pmt s \<noteq> None \<and> ts_videoPID s > 0 \<and> pkt_pid pkt = ts_videoPID s
        \<and> pkt_pusi pkt \<and> (a \<or> b)
     then Some (True, s\<lparr>ts_spsStart := 0, ts_collecting := True, ts_videoPkts := [pkt]\<rparr>)
     else Some (False, s))"
    using assms(2) d e by (simp add: see_video_def waiting_def)
  have "captured (s\<lparr>ts_spsStart := 0, ts_collecting := True, ts_videoPkts := [pkt]\<rparr>)"
    if "ts_pat s \<noteq> None" "ts_pmt s \<noteq> None" "ts_videoPID s > 0" "pkt_pid pkt = ts_videoPID s"
      "pkt_pusi pkt" "a \<or> b"
    using that ab d e assms by (auto simp: waiting_def captured_def tables_ok_def sps_packet_def word_gt_0)
  with eq assms(2) show ?thesis by (auto split: if_splits)
qed

lemma ts_packet_waiting:
  assumes "ts_packet_ok pkt" and "waiting s"
  shows "\<exists>b s'. ts_packet pkt s = Some (b, s') \<and> (if b then captured s' else waiting s')"
proof -
  from see_pat_waiting [OF assms] obtain s1 where 1: "see_pat pkt s = Some s1" "waiting s1" by blast
  from see_pmt_waiting [OF assms(1) 1(2)] obtain s2 where "see_pmt pkt s1 = Some s2" "waiting s2" by blast
  with see_video_waiting [OF assms(1)] 1 show ?thesis by (simp add: ts_packet_def)
qed

lemma ts_packets_waiting:
  "waiting s \<Longrightarrow> \<exists>b buf' s'. ts_packets buf s = Some (b, buf', s') \<and> (if b then captured s' else waiting s')"
proof (induction buf s rule: ts_packets.induct)
  case (1 buf s)
  show ?case
  proof (cases "length buf \<ge> tsPacketSize \<and> buf ! 0 = 0x47")
    case True
    then have "ts_packet_ok (take tsPacketSize buf)"
      by (simp add: ts_packet_ok_def tsPacketSize_def)
    from ts_packet_waiting [OF this "1.prems"] True "1.IH"(2) show ?thesis
      by (fastforce simp: ts_packets.simps [of buf] split: bool.splits)
  next
    case False
    with 1 show ?thesis by (auto simp: ts_packets.simps [of buf])
  qed
qed

definition header_ok :: "byte list \<Rightarrow> bool" where
  "header_ok r \<longleftrightarrow> (\<exists>p m v. r = p @ m @ v \<and> pat_packet p \<and> pmt_packet m \<and> sps_packet v
     \<and> pkt_pid v \<noteq> 0 \<and> pid_source (Some p) (Some m) (pkt_pid v))"

lemma captured_result: "captured s \<Longrightarrow> \<exists>r. ts_result s = Inr r \<and> header_ok r"
  unfolding captured_def tables_ok_def ts_result_def header_ok_def by fastforce

lemma waiting_result: "waiting s \<Longrightarrow> \<exists>e. ts_result s = Inl e"
  by (auto simp: waiting_def ts_result_def split: option.split)

lemma extract_loop_result:
  "waiting s \<Longrightarrow> \<exists>x. extractTSHeader_loop rs buf s = Some x \<and> (\<forall>r. x = Inr r \<longrightarrow> header_ok r)"
proof (induction rs buf s rule: extractTSHeader_loop.induct)
  case (4 bs rs buf s)
  from ts_packets_waiting [OF "4.prems", of "buf @ bs"] obtain b buf' s' where
    step: "ts_packets (buf @ bs) s = Some (b, buf', s')" "if b then captured s' else waiting s'" by blast
  then show ?case
    using "4.IH" [OF step(1)] captured_result [of s'] by (cases b) auto
qed (use waiting_result in \<open>fastforce simp: waiting_def\<close>)+

text \<open>C35: \<open>extractTSHeader\<close> never reads out of range, whatever bytes arrive in whatever
  portions, and a header it returns is one association table packet, one map table packet
  and one packet of the PID named by those tables that starts a PES packet and carries a
  sequence parameter set.\<close>

theorem extractTSHeader_safe:
  "\<exists>x. extractTSHeader rs = Some x \<and> (\<forall>r. x = Inr r \<longrightarrow> header_ok r)"
proof -
  have "waiting ts_init" by (simp add: waiting_def tables_ok_def pid_source_def ts_init_def)
  then show ?thesis unfolding extractTSHeader_def by (rule extract_loop_result)
qed

definition example_packet :: "byte list \<Rightarrow> byte list" where
  "example_packet bs = bs @ replicate (tsPacketSize - length bs) 255"

definition example_pat :: "byte list" where
  "example_pat = example_packet [0x47, 0x40, 0, 0x10, 0, 0, 0xb0, 0x0d, 0, 1, 0xc1, 0, 0, 0, 1, 0xe1, 0]"

definition example_pmt :: "byte list" where
  "example_pmt = example_packet [0x47, 0x41, 0, 0x10, 0, 2, 0xb0, 0x12, 0, 1, 0xc1, 0, 0, 0xe1, 1, 0xf0, 0,
     0x1b, 0xe1, 1, 0xf0, 0]"

definition example_video :: "byte list" where
  "example_video = example_packet [0x47, 0x41, 1, 0x10, 0, 0, 1, 0xe0, 0, 0, 0x80, 0, 0, 0, 0, 0, 1, 0x67]"

theorem extractTSHeader_safe_witness:
  "extractTSHeader [Bytes (9 # example_pat), Bytes (example_pmt @ example_video)]
     = Some (Inr (example_pat @ example_pmt @ example_video))
   \<and> header_ok (example_pat @ example_pmt @ example_video)"
proof -
  have "extractTSHeader [Bytes (9 # example_pat), Bytes (example_pmt @ example_video)]
     = Some (Inr (example_pat @ example_pmt @ example_video))"
    by code_simp
  with extractTSHeader_safe [of "[Bytes (9 # example_pat), Bytes (example_pmt @ example_video)]"]
  show ?thesis by auto
qed

text \<open>The order of the tables matters: the PID of the association table is stored in
  \<open>videoPID\<close> and overwrites the video PID when the map table came first. The same three
  packets give a header in the order PAT, PMT and none in the order PMT, PAT, where the
  code then waits for video on the PID of the map table.\<close>

theorem pat_after_pmt_forgets_video:
  assumes "pmt_packet m" and "pat_packet p" and "pkt_pid m \<noteq> 0" "pkt_pid m \<noteq> 0x1fff"
    and "parsePMTForVideoPID m = Some v" "v > 0" and "parsePATForPMTPID p = Some q"
    and "pkt_pid m \<noteq> v"
  shows "\<exists>s s'. Option.bind (ts_packet p ts_init) (\<lambda>r. ts_packet m (snd r)) = Some (False, s)
    \<and> Option.bind (ts_packet m ts_init) (\<lambda>r. ts_packet p (snd r)) = Some (False, s')
    \<and> ts_videoPID s = v \<and> ts_videoPID s' = q"
  using assms
  by (simp add: ts_packet_def see_pat_def see_pmt_def see_video_def ts_init_def pmt_packet_def
      pat_packet_def Let_def word_gt_0)

theorem pat_after_pmt_forgets_video_witness:
  "(\<exists>s s'. Option.bind (ts_packet example_pat ts_init) (\<lambda>r. ts_packet example_pmt (snd r)) = Some (False, s)
    \<and> Option.bind (ts_packet example_pmt ts_init) (\<lambda>r. ts_packet example_pat (snd r)) = Some (False, s')
    \<and> ts_videoPID s = 0x101 \<and> ts_videoPID s' = 0x100)
   \<and> extractTSHeader [Bytes (example_pmt @ example_pat @ example_video)]
     = Some (Inl ''could not capture TS header (pat=true pmt=true video_pkts=0)'')"
proof -
  have "pmt_packet example_pmt" "pat_packet example_pat" "pkt_pid example_pmt = 0x100"
    "parsePMTForVideoPID example_pmt = Some 0x101" "parsePATForPMTPID example_pat = Some 0x100"
    by code_simp+
  moreover have "extractTSHeader [Bytes (example_pmt @ example_pat @ example_video)]
     = Some (Inl ''could not capture TS header (pat=true pmt=true video_pkts=0)'')"
    by code_simp
  ultimately show ?thesis
    using pat_after_pmt_forgets_video [of example_pmt example_pat "0x101" "0x100"] by simp
qed

end
