(* ===== verification/Codecs.thy ===== *)
theory Codecs
  imports Prelude
begin

text \<open>
  \<open>pkg/media/probe.go\<close> and \<open>pkg/media/args.go\<close>: names of codecs, containers and encoders,
  and the splitting of command lines.
\<close>

section \<open>The code\<close>

definition normalize_lower :: "string \<Rightarrow> string" where
  "normalize_lower c =
     (if c = ''hevc'' \<or> str_contains c ''h265'' \<or> str_contains c ''h.265'' \<or> str_contains c ''hevc''
      then ''h265''
      else if c = ''avc'' \<or> c = ''mpeg-4 avc'' \<or> str_contains c ''h264'' \<or> str_contains c ''h.264''
      then ''h264''
      else if c = ''mpeg2'' \<or> c = ''mpeg2video'' \<or> str_contains c ''mpeg-2'' then ''mpeg2video''
      else if c = ''mpeg4'' \<or> str_contains c ''mpeg-4 visual'' then ''mpeg4''
      else if c = ''aac_latm'' \<or> c = ''mp4a-latm'' then ''aac_latm''
      else if c = ''aac'' \<or> c = ''aac audio'' then ''aac''
      else if c = ''mp2'' \<or> str_contains c ''mpeg audio'' then ''mp2''
      else if c = ''ac3'' \<or> c = ''ac-3'' \<or> c = ''a_ac3'' then ''ac3''
      else if c = ''eac3'' \<or> c = ''e-ac-3'' \<or> c = ''a_eac3'' then ''eac3''
      else if c = ''dts'' \<or> c = ''dca'' \<or> str_contains c ''dts'' then ''dts''
      else if c = ''truehd'' \<or> c = ''mlp'' \<or> str_contains c ''truehd'' then ''truehd''
      else if c = ''opus'' \<or> c = ''libopus'' then ''opus''
      else if c = ''flac'' then ''flac''
      else if c = ''vorbis'' \<or> c = ''libvorbis'' then ''vorbis''
      else if c = ''av1 video'' \<or> c = ''av1'' then ''av1''
      else if c = ''vp8'' then ''vp8''
      else if c = ''vp9'' then ''vp9''
      else c)"

definition NormalizeCodec :: "string \<Rightarrow> string" where
  "NormalizeCodec codec = normalize_lower (ToLower (TrimSpace codec))"

definition IsH265 :: "string \<Rightarrow> bool" where
  "IsH265 codec = (let c = NormalizeCodec codec in c = ''h265'' \<or> c = ''hvc1'' \<or> c = ''hev1'')"

definition BaseCodec :: "string \<Rightarrow> string" where
  "BaseCodec codec = (if IsH265 codec then ''h265'' else NormalizeCodec codec)"

definition NormalizeContainer :: "string \<Rightarrow> string" where
  "NormalizeContainer formatName =
     (if formatName = ''mpegts'' then ''mpegts''
      else if formatName = ''matroska,webm'' then ''matroska''
      else if formatName = ''mov,mp4,m4a,3gp,3g2,mj2'' then ''mp4''
      else formatName)"

definition IsHTTPURL :: "string \<Rightarrow> bool" where
  "IsHTTPURL s = (HasPrefix s ''http://'' \<or> HasPrefix s ''https://'')"

definition IsRTSPURL :: "string \<Rightarrow> bool" where
  "IsRTSPURL s = (HasPrefix s ''rtsp://'' \<or> HasPrefix s ''rtsps://'')"

record split_state =
  sp_args :: "string list"
  sp_current :: string
  sp_inQuote :: bool
  sp_quoteChar :: char

definition split_char :: "char \<Rightarrow> split_state \<Rightarrow> split_state" where
  "split_char c s =
     (if sp_inQuote s then
        (if c = sp_quoteChar s then s\<lparr>sp_inQuote := False\<rparr>
         else s\<lparr>sp_current := sp_current s @ [c]\<rparr>)
      else if c = chr 39 \<or> c = chr 34 then s\<lparr>sp_inQuote := True, sp_quoteChar := c\<rparr>
      else if c = chr 32 \<or> c = chr 9 then
        (if length (sp_current s) > 0
         then s\<lparr>sp_args := sp_args s @ [sp_current s], sp_current := []\<rparr> else s)
      else s\<lparr>sp_current := sp_current s @ [c]\<rparr>)"

definition ShellSplit :: "string \<Rightarrow> string list" where
  "ShellSplit s =
     (let e = fold split_char s
            \<lparr>sp_args = [], sp_current = [], sp_inQuote = False, sp_quoteChar = chr 0\<rparr>
      in if length (sp_current e) > 0 then sp_args e @ [sp_current e] else sp_args e)"

definition IsFFmpegNoise :: "string \<Rightarrow> bool" where
  "IsFFmpegNoise line =
     list_ex (str_contains line)
       [''Last message repeated'', ''non-existing PPS'', ''mmco: unref short failure'',
        ''no frame!'', ''non-monotonic DTS'', ''Discarded'']"

definition IsHEVC :: "string \<Rightarrow> bool" where
  "IsHEVC codec \<longleftrightarrow> codec \<in> set [''libx265'', ''hevc'', ''hevc_vaapi'', ''hevc_qsv'', ''hevc_nvenc'',
     ''hevc_videotoolbox'']"

text \<open>The inner switches of \<open>MapEncoderHW\<close>; \<open>None\<close> falls out of the switch.\<close>

definition hw_encoder :: "string \<Rightarrow> string \<Rightarrow> string option" where
  "hw_encoder codec hwaccel =
     (if hwaccel = ''vaapi'' then
        (if codec = ''h264'' then Some ''h264_vaapi''
         else if codec = ''h265'' \<or> codec = ''hevc'' then Some ''hevc_vaapi''
         else if codec = ''av1'' then Some ''av1_vaapi'' else None)
      else if hwaccel = ''qsv'' then
        (if codec = ''h264'' then Some ''h264_qsv''
         else if codec = ''h265'' \<or> codec = ''hevc'' then Some ''hevc_qsv'' else None)
      else if hwaccel = ''nvenc'' \<or> hwaccel = ''cuda'' then
        (if codec = ''h264'' then Some ''h264_nvenc''
         else if codec = ''h265'' \<or> codec = ''hevc'' then Some ''hevc_nvenc'' else None)
      else if hwaccel = ''videotoolbox'' then
        (if codec = ''h264'' then Some ''h264_videotoolbox''
         else if codec = ''h265'' \<or> codec = ''hevc'' then Some ''hevc_videotoolbox'' else None)
      else None)"

definition MapEncoderHW :: "string \<Rightarrow> string \<Rightarrow> string" where
  "MapEncoderHW codec hwaccel =
     (case hw_encoder codec hwaccel of
        Some e \<Rightarrow> e
      | None \<Rightarrow>
          if codec = ''h264'' then ''libx264''
          else if codec = ''h265'' \<or> codec = ''hevc'' then ''libx265''
          else if codec = ''av1'' then ''libsvtav1'' else codec)"

definition DefaultContainer :: "string \<Rightarrow> string" where
  "DefaultContainer videoCodec = (if videoCodec = ''av1'' then ''matroska'' else ''mpegts'')"

section \<open>Normal forms\<close>

lemma lower_char_idem [simp]: "lower_char (lower_char c) = lower_char c"
  by (auto simp: lower_char_def Let_def of_char_of)

lemma ToLower_idem [simp]: "ToLower (ToLower s) = ToLower s"
  by (simp add: ToLower_def)

text \<open>No space rune contains a letter, so lowering neither makes nor breaks one.\<close>

lemma lower_char_of: "of_char (lower_char c) = (let n = of_char c :: nat in if 65 \<le> n \<and> n \<le> 90 then n + 32 else n)"
  by (auto simp: lower_char_def Let_def of_char_of)

lemma lower_char_eq:
  assumes "of_char d < (65 :: nat) \<or> 122 < (of_char d :: nat)"
  shows "lower_char c = d \<longleftrightarrow> c = d"
proof -
  have "lower_char c = d \<longleftrightarrow> (of_char (lower_char c) :: nat) = of_char d" by simp
  also have "\<dots> \<longleftrightarrow> (of_char c :: nat) = of_char d"
    using assms by (auto simp: lower_char_of Let_def)
  finally show ?thesis by simp
qed

lemma space_runes_letters:
  "\<forall>w \<in> set space_runes. \<forall>d \<in> set w. of_char d < (65 :: nat) \<or> 122 < (of_char d :: nat)"
  by (simp add: space_runes_def chr_def)

lemma prefix_ToLower:
  assumes "\<forall>d \<in> set w. of_char d < (65 :: nat) \<or> 122 < (of_char d :: nat)"
  shows "prefix w (ToLower s) \<longleftrightarrow> prefix w s"
  using assms
proof (induction w arbitrary: s)
  case (Cons d w)
  then have "d = lower_char c \<longleftrightarrow> d = c" for c using lower_char_eq [of d c] by auto
  with Cons show ?case by (cases s) (simp_all add: ToLower_def)
qed simp

lemma ToLower_rev: "rev (ToLower s) = ToLower (rev s)"
  by (simp add: ToLower_def rev_map)

lemma strip_ToLower:
  assumes "\<forall>w \<in> set ws. \<forall>d \<in> set w. of_char d < (65 :: nat) \<or> 122 < (of_char d :: nat)"
  shows "strip_one ws (ToLower s) = None \<longleftrightarrow> strip_one ws s = None"
  using assms by (simp add: strip_one_None prefix_ToLower)

lemma TrimSpace_ToLower_TrimSpace: "TrimSpace (ToLower (TrimSpace s)) = ToLower (TrimSpace s)"
proof -
  have letters: "\<forall>w \<in> set (map rev space_runes). \<forall>d \<in> set w. of_char d < (65 :: nat) \<or> 122 < (of_char d :: nat)"
    using space_runes_letters by simp
  show ?thesis
    by (rule TrimSpace_id)
       (simp_all add: strip_ToLower space_runes_letters letters ToLower_rev TrimSpace_clean)
qed

definition codec_names :: "string list" where
  "codec_names = [''h265'', ''h264'', ''mpeg2video'', ''mpeg4'', ''aac_latm'', ''aac'', ''mp2'', ''ac3'',
     ''eac3'', ''dts'', ''truehd'', ''opus'', ''flac'', ''vorbis'', ''av1'', ''vp8'', ''vp9'']"

lemma if_mem: "x \<in> S \<Longrightarrow> y \<in> S \<Longrightarrow> (if b then x else y) \<in> S"
  by simp

lemma normalize_lower_range: "normalize_lower c \<in> insert c (set codec_names)"
  unfolding normalize_lower_def by (intro if_mem) (simp_all add: codec_names_def)

lemma codec_names_normal: "list_all (\<lambda>c. normalize_lower c = c) codec_names"
  by code_simp

lemma codec_names_clean: "c \<in> set codec_names \<Longrightarrow> ToLower (TrimSpace c) = c"
  by (auto simp: codec_names_def TrimSpace_plain plain_char_def ToLower_def lower_char_def)

lemma normalize_lower_idem: "normalize_lower (normalize_lower c) = normalize_lower c"
  using normalize_lower_range [of c] codec_names_normal by (auto simp: list_all_iff)

lemma normal_form_clean:
  "ToLower (TrimSpace (normalize_lower (ToLower (TrimSpace c)))) = normalize_lower (ToLower (TrimSpace c))"
  using normalize_lower_range [of "ToLower (TrimSpace c)"] codec_names_clean
  by (auto simp: TrimSpace_ToLower_TrimSpace)

lemma NormalizeCodec_idem: "NormalizeCodec (NormalizeCodec c) = NormalizeCodec c"
  by (simp add: NormalizeCodec_def normal_form_clean normalize_lower_idem)

lemma BaseCodec_NormalizeCodec: "BaseCodec (NormalizeCodec c) = BaseCodec c"
  by (simp add: BaseCodec_def IsH265_def NormalizeCodec_idem)

text \<open>The codec names have normal forms: normalising twice changes nothing, the base codec
  depends only on the normal form and is its own base codec, and being H.265 can be decided
  on the base codec.\<close>

theorem codec_normal_forms:
  "NormalizeCodec (NormalizeCodec c) = NormalizeCodec c
   \<and> BaseCodec (NormalizeCodec c) = BaseCodec c
   \<and> BaseCodec (BaseCodec c) = BaseCodec c
   \<and> IsH265 (BaseCodec c) = IsH265 c"
proof -
  have "NormalizeCodec ''h265'' = ''h265''"
    using codec_names_clean [of "''h265''"] codec_names_normal
    by (simp add: NormalizeCodec_def codec_names_def)
  then show ?thesis
    by (simp add: NormalizeCodec_idem BaseCodec_NormalizeCodec BaseCodec_def IsH265_def Let_def)
qed

text \<open>The encoder chosen for a codec encodes that family: whatever the hardware, an HEVC
  encoder is chosen exactly for \<open>h265\<close> and for the names that are HEVC encoders already.\<close>

theorem MapEncoderHW_family: "IsHEVC (MapEncoderHW c hw) \<longleftrightarrow> c = ''h265'' \<or> IsHEVC c"
  unfolding MapEncoderHW_def hw_encoder_def IsHEVC_def
  by (cases "c = ''h264''"; cases "c = ''h265''"; cases "c = ''hevc''"; cases "c = ''av1''") simp_all

section \<open>Command lines\<close>

definition shell_quote :: "char \<Rightarrow> string \<Rightarrow> string" where
  "shell_quote q a = q # a @ [q]"

text \<open>Arguments, each with a quote character that does not occur in it, joined by spaces.\<close>

fun shell_join :: "(char \<times> string) list \<Rightarrow> string" where
  "shell_join [] = []"
| "shell_join ((q, a) # as) = shell_quote q a @ chr 32 # shell_join as"

definition quotable :: "char \<times> string \<Rightarrow> bool" where
  "quotable qa \<longleftrightarrow> fst qa \<in> {chr 39, chr 34} \<and> fst qa \<notin> set (snd qa)"

lemma split_quoted_body:
  "sp_inQuote s \<Longrightarrow> sp_quoteChar s \<notin> set a \<Longrightarrow>
     fold split_char a s = s\<lparr>sp_current := sp_current s @ a\<rparr>"
  by (induction a arbitrary: s) (auto simp: split_char_def)

lemma split_quoted:
  assumes "\<not> sp_inQuote s" "sp_current s = []" "quotable (q, a)"
  shows "fold split_char (shell_quote q a @ [chr 32]) s =
    s\<lparr>sp_args := sp_args s @ (if a = [] then [] else [a]), sp_quoteChar := q\<rparr>"
proof -
  let ?t = "s\<lparr>sp_inQuote := True, sp_quoteChar := q\<rparr>"
  have "split_char q s = ?t"
    using assms by (auto simp: split_char_def quotable_def)
  moreover have "fold split_char a ?t = ?t\<lparr>sp_current := a\<rparr>"
    using split_quoted_body [of ?t a] assms by (simp add: quotable_def)
  moreover have "chr 32 \<noteq> chr 39" "chr 32 \<noteq> chr 34" by (simp_all add: chr_def)
  ultimately show ?thesis
    using assms by (simp add: shell_quote_def split_char_def)
qed

lemma fold_shell_join:
  "list_all quotable as \<Longrightarrow> \<not> sp_inQuote s \<Longrightarrow> sp_current s = [] \<Longrightarrow>
     \<exists>q. fold split_char (shell_join as) s
       = s\<lparr>sp_args := sp_args s @ filter (\<lambda>a. a \<noteq> []) (map snd as), sp_quoteChar := q\<rparr>"
proof (induction as arbitrary: s)
  case Nil
  show ?case by (intro exI [of _ "sp_quoteChar s"]) simp
next
  case (Cons qa as)
  obtain q a where qa: "qa = (q, a)" by (cases qa)
  let ?s = "s\<lparr>sp_args := sp_args s @ (if a = [] then [] else [a]), sp_quoteChar := q\<rparr>"
  have "fold split_char (shell_join (qa # as)) s = fold split_char (shell_join as) ?s"
    using split_quoted [of s q a] Cons.prems by (simp add: qa)
  with Cons.IH [of ?s] Cons.prems show ?case by (auto simp: qa)
qed

text \<open>Quoting arguments and joining them with spaces is undone by \<open>ShellSplit\<close>, except that
  an empty argument is lost.\<close>

theorem ShellSplit_quoted:
  assumes "list_all quotable as"
  shows "ShellSplit (shell_join as) = filter (\<lambda>a. a \<noteq> []) (map snd as)"
  using fold_shell_join [OF assms, of "\<lparr>sp_args = [], sp_current = [], sp_inQuote = False, sp_quoteChar = chr 0\<rparr>"]
  by (auto simp: ShellSplit_def)

theorem ShellSplit_quoted_witness:
  "ShellSplit (shell_join [(chr 39, ''a b''), (chr 34, []), (chr 34, ''c'')]) = [''a b'', ''c'']"
proof -
  have "list_all quotable [(chr 39, ''a b''), (chr 34, []), (chr 34, ''c'')]" by code_simp
  from ShellSplit_quoted [OF this] show ?thesis by simp
qed

end
