(* ===== verification/Strategy.thy ===== *)
theory Strategy
  imports Codecs
begin

text \<open>
  \<open>pkg/service/strategy.go\<close>: classification of a stream and the choice of what to do with its
  video and audio, and the choice of a pipeline that the session manager makes from it
  (\<open>runPipeline\<close>, \<open>runGoMSE\<close>, \<open>runGoHLS\<close> and \<open>resolveNeedsTranscode\<close> in
  \<open>pkg/session/manager.go\<close>). Fields that these functions only pass on are left out.
\<close>

section \<open>The code\<close>

datatype StreamCategory =
  CategoryLiveIPTV | CategoryLiveSatIP | CategoryVODRemote | CategoryVODLocal | CategoryFile

record SessionStrategy =
  st_Category :: StreamCategory
  st_MetadataOnly :: bool
  st_VideoCodec :: string
  st_AudioCodec :: string
  st_HWAccel :: string
  st_Container :: string

record StrategyInput =
  in_StreamURL :: string
  in_VODType :: string
  in_SatIPSource :: bool
  in_StreamVCodec :: string
  in_StreamACodec :: string

record StrategyOutput =
  out_VideoCodec :: string
  out_AudioCodec :: string
  out_HWAccel :: string
  out_Container :: string
  out_OutputHeight :: int

definition isLocalURL :: "string \<Rightarrow> bool" where
  "isLocalURL u =
     (if \<not> HasPrefix u ''http://'' \<and> \<not> HasPrefix u ''https://'' then True
      else
        let u = TrimPrefix u ''http://''; u = TrimPrefix u ''https://'' in
        HasPrefix u ''192.168.'' \<or> HasPrefix u ''10.'' \<or> HasPrefix u ''172.''
        \<or> HasPrefix u ''localhost'' \<or> HasPrefix u ''127.'')"

definition classifyStream :: "StrategyInput \<Rightarrow> StreamCategory" where
  "classifyStream i =
     (if in_SatIPSource i then CategoryLiveSatIP
      else if in_VODType i = ''movie'' \<or> in_VODType i = ''series'' then
        (if isLocalURL (in_StreamURL i) then CategoryVODLocal else CategoryVODRemote)
      else CategoryLiveIPTV)"

definition normalizeVideoCodecName :: "string \<Rightarrow> string" where
  "normalizeVideoCodecName c =
     (let l = ToLower c in
      if l = ''hevc'' \<or> l = ''h265'' \<or> l = ''h.265'' then ''h265''
      else if l = ''hvc1'' then ''hvc1''
      else if l = ''hev1'' then ''hev1''
      else if l = ''avc'' \<or> l = ''h264'' \<or> l = ''h.264'' then ''h264''
      else l)"

definition baseVideoCodec :: "string \<Rightarrow> string" where
  "baseVideoCodec c =
     (let n = normalizeVideoCodecName c in
      if n = ''hvc1'' \<or> n = ''hev1'' \<or> n = ''h265'' then ''h265'' else n)"

definition resolveVideoActionWithHeight :: "string \<Rightarrow> string \<Rightarrow> int \<Rightarrow> string" where
  "resolveVideoActionWithHeight sourceCodec clientCodec outputHeight =
     (if clientCodec = '''' \<or> clientCodec = ''default'' \<or> clientCodec = ''copy'' then
        (if outputHeight > 0 then
           (if sourceCodec \<noteq> '''' then normalizeVideoCodecName sourceCodec else ''hvc1'')
         else ''copy'')
      else
        let src = baseVideoCodec sourceCodec; dst = baseVideoCodec clientCodec in
        if src = dst \<and> outputHeight = 0 then ''copy'' else clientCodec)"

definition resolveVideoAction :: "string \<Rightarrow> string \<Rightarrow> string" where
  "resolveVideoAction sourceCodec clientCodec = resolveVideoActionWithHeight sourceCodec clientCodec 0"

definition resolveAudioAction :: "string \<Rightarrow> string \<Rightarrow> string \<Rightarrow> string" where
  "resolveAudioAction sourceCodec clientCodec outputContainer =
     (if clientCodec = '''' \<or> clientCodec = ''default'' then
        (if sourceCodec = ''aac'' \<and> outputContainer \<noteq> ''webm'' then ''copy''
         else if outputContainer = ''webm'' then ''opus''
         else ''aac'')
      else if clientCodec = ''copy'' \<or> sourceCodec = clientCodec then ''copy''
      else clientCodec)"

definition source_audio :: "StrategyInput \<Rightarrow> string" where
  "source_audio i = (if in_StreamACodec i \<noteq> '''' then ToLower (in_StreamACodec i) else ''aac'')"

definition source_video :: "StrategyInput \<Rightarrow> string" where
  "source_video i = (if in_StreamVCodec i \<noteq> '''' then ToLower (in_StreamVCodec i) else ''h264'')"

text \<open>The step that all three strategies share: copied audio must be AAC.\<close>

definition copy_only_aac :: "string \<Rightarrow> string \<Rightarrow> string" where
  "copy_only_aac sourceAudio audioCodec =
     (if audioCodec = ''copy'' \<and> sourceAudio \<noteq> ''aac'' then ''aac'' else audioCodec)"

definition liveStrategy :: "StrategyInput \<Rightarrow> StrategyOutput \<Rightarrow> StreamCategory \<Rightarrow> SessionStrategy" where
  "liveStrategy i out cat =
     (let sourceVideo = source_video i; sourceAudio = source_audio i;
          videoCodec = resolveVideoActionWithHeight sourceVideo (out_VideoCodec out) (out_OutputHeight out);
          audioCodec = resolveAudioAction sourceAudio (out_AudioCodec out) (out_Container out);
          audioCodec = copy_only_aac sourceAudio audioCodec;
          audioCodec = (if audioCodec = ''copy'' \<and> (cat = CategoryLiveSatIP \<or> cat = CategoryLiveIPTV)
                        then ''aac'' else audioCodec)
      in \<lparr>st_Category = cat, st_MetadataOnly = False, st_VideoCodec = videoCodec,
          st_AudioCodec = audioCodec, st_HWAccel = out_HWAccel out, st_Container = out_Container out\<rparr>)"

definition vodRemoteStrategy :: "StrategyInput \<Rightarrow> StrategyOutput \<Rightarrow> SessionStrategy" where
  "vodRemoteStrategy i out =
     (let sourceAudio = source_audio i;
          audioCodec = resolveAudioAction sourceAudio (out_AudioCodec out) (out_Container out);
          audioCodec = copy_only_aac sourceAudio audioCodec
      in \<lparr>st_Category = CategoryVODRemote, st_MetadataOnly = False, st_VideoCodec = out_VideoCodec out,
          st_AudioCodec = audioCodec, st_HWAccel = out_HWAccel out, st_Container = out_Container out\<rparr>)"

definition vodLocalStrategy :: "StrategyInput \<Rightarrow> StrategyOutput \<Rightarrow> SessionStrategy" where
  "vodLocalStrategy i out =
     (let sourceAudio = source_audio i;
          audioCodec = resolveAudioAction sourceAudio (out_AudioCodec out) (out_Container out);
          audioCodec = copy_only_aac sourceAudio audioCodec
      in \<lparr>st_Category = CategoryVODLocal, st_MetadataOnly = False, st_VideoCodec = out_VideoCodec out,
          st_AudioCodec = audioCodec, st_HWAccel = out_HWAccel out, st_Container = out_Container out\<rparr>)"

definition resolveSessionStrategy :: "StrategyInput \<Rightarrow> StrategyOutput \<Rightarrow> SessionStrategy" where
  "resolveSessionStrategy i out =
     (let cat = classifyStream i in
      case cat of
        CategoryLiveIPTV \<Rightarrow> liveStrategy i out cat
      | CategoryLiveSatIP \<Rightarrow> liveStrategy i out cat
      | CategoryVODRemote \<Rightarrow> vodRemoteStrategy i out
      | _ \<Rightarrow> vodLocalStrategy i out)"

section \<open>The pipeline that a session runs\<close>

definition resolveNeedsTranscode :: "string \<Rightarrow> string \<Rightarrow> bool" where
  "resolveNeedsTranscode outCodec srcCodec =
     (if outCodec = '''' \<or> outCodec = ''copy'' \<or> outCodec = ''default'' then False
      else if srcCodec = '''' then True
      else BaseCodec outCodec \<noteq> BaseCodec srcCodec)"

datatype pipeline = HLSCopy | HLSTranscode | MSECopy | MSETranscode | StreamCopy
  | AudioTranscode | FullTranscode

text \<open>The source video that the demuxer reports: codec and height, or none.\<close>

type_synonym source_info = "(string \<times> int) option"

definition forceDecode :: "bool \<Rightarrow> int \<Rightarrow> int \<Rightarrow> source_info \<Rightarrow> bool" where
  "forceDecode needsTranscode bitrateKbps outputHeight info =
     (needsTranscode \<or> bitrateKbps > 0 \<or>
      (outputHeight > 0 \<and> (case info of None \<Rightarrow> False | Some (_, h) \<Rightarrow> outputHeight < h)))"

text \<open>The decisions of \<open>runPipeline\<close> (and of \<open>runGoHLS\<close> and \<open>runGoMSE\<close>) once the source has
  been opened.\<close>

definition choosePipeline :: "string \<Rightarrow> string \<Rightarrow> int \<Rightarrow> int \<Rightarrow> source_info \<Rightarrow> pipeline" where
  "choosePipeline delivery outputVideoCodec bitrateKbps outputHeight info =
     (let outCodec = NormalizeCodec outputVideoCodec;
          srcCodec = (case info of None \<Rightarrow> '''' | Some (c, _) \<Rightarrow> NormalizeCodec c);
          needsTranscode = resolveNeedsTranscode outCodec srcCodec;
          outCodec = (if \<not> needsTranscode \<and> (outCodec = '''' \<or> outCodec = ''default'' \<or> outCodec = ''copy'')
                      then srcCodec else outCodec);
          decode = forceDecode needsTranscode bitrateKbps outputHeight info
      in if delivery = ''hls'' then (if decode then HLSTranscode else HLSCopy)
         else if delivery = ''mse'' then (if decode then MSETranscode else MSECopy)
         else if \<not> needsTranscode then StreamCopy
         else if outCodec = srcCodec then AudioTranscode
         else FullTranscode)"

section \<open>What is chosen\<close>

definition is_live :: "StrategyInput \<Rightarrow> bool" where
  "is_live i \<longleftrightarrow> classifyStream i \<in> {CategoryLiveIPTV, CategoryLiveSatIP}"

definition passthrough :: "string \<Rightarrow> bool" where
  "passthrough c \<longleftrightarrow> c \<in> {'''', ''default'', ''copy''}"

lemma classifyStream_cases:
  "classifyStream i \<in> {CategoryLiveIPTV, CategoryLiveSatIP, CategoryVODRemote, CategoryVODLocal}"
  by (simp add: classifyStream_def)

lemma resolveAudioAction_copy:
  "resolveAudioAction s c ct = ''copy'' \<longleftrightarrow>
     c \<in> {'''', ''default''} \<and> s = ''aac'' \<and> ct \<noteq> ''webm''
     \<or> c \<notin> {'''', ''default''} \<and> (c = ''copy'' \<or> s = c)"
  by (auto simp: resolveAudioAction_def)

lemma copy_only_aac_copy: "copy_only_aac s a = ''copy'' \<longleftrightarrow> a = ''copy'' \<and> s = ''aac''"
  by (auto simp: copy_only_aac_def)

lemma live_strategy:
  "is_live i \<Longrightarrow> resolveSessionStrategy i out = liveStrategy i out (classifyStream i)"
  by (auto simp: is_live_def resolveSessionStrategy_def)

lemma vod_strategy_audio:
  "\<not> is_live i \<Longrightarrow> st_AudioCodec (resolveSessionStrategy i out)
     = copy_only_aac (source_audio i) (resolveAudioAction (source_audio i) (out_AudioCodec out) (out_Container out))"
  using classifyStream_cases [of i]
  by (auto simp: is_live_def resolveSessionStrategy_def vodRemoteStrategy_def vodLocalStrategy_def Let_def)

text \<open>Audio is copied exactly for on-demand streams whose audio is AAC when the client asks
  for a copy, for AAC, or for the default in a container other than WebM. In particular the
  audio of a live stream is always encoded again.\<close>

theorem audio_copied_iff:
  "st_AudioCodec (resolveSessionStrategy i out) = ''copy'' \<longleftrightarrow>
     \<not> is_live i \<and> source_audio i = ''aac'' \<and>
     (out_AudioCodec out \<in> {''copy'', ''aac''}
      \<or> out_AudioCodec out \<in> {'''', ''default''} \<and> out_Container out \<noteq> ''webm'')"
proof (cases "is_live i")
  case True
  then show ?thesis by (auto simp: live_strategy liveStrategy_def is_live_def Let_def)
next
  case False
  then show ?thesis
    by (auto simp: vod_strategy_audio copy_only_aac_copy resolveAudioAction_copy)
qed

text \<open>The video of a live stream is copied exactly when no scaling is asked for and the
  client's codec is a passthrough or of the same family as the source's (or the source's
  codec is itself named \<open>copy\<close>).\<close>

theorem live_video_copied_iff:
  assumes "is_live i" and "0 \<le> out_OutputHeight out"
  shows "st_VideoCodec (resolveSessionStrategy i out) = ''copy'' \<longleftrightarrow>
    (if passthrough (out_VideoCodec out)
     then out_OutputHeight out = 0 \<or> source_video i = ''copy''
     else out_OutputHeight out = 0 \<and> baseVideoCodec (source_video i) = baseVideoCodec (out_VideoCodec out))"
proof -
  have low: "ToLower (source_video i) = source_video i"
    by (simp add: source_video_def) (simp add: ToLower_def lower_char_def)
  then have norm: "normalizeVideoCodecName (source_video i) = ''copy'' \<longleftrightarrow> source_video i = ''copy''"
    by (auto simp: normalizeVideoCodecName_def Let_def)
  have "st_VideoCodec (resolveSessionStrategy i out)
      = resolveVideoActionWithHeight (source_video i) (out_VideoCodec out) (out_OutputHeight out)"
    using assms(1) by (simp add: live_strategy liveStrategy_def Let_def)
  moreover have "source_video i \<noteq> ''''" by (simp add: source_video_def ToLower_def)
  ultimately show ?thesis
    using assms(2) norm by (auto simp: resolveVideoActionWithHeight_def passthrough_def Let_def)
qed

theorem live_video_copied_iff_witness:
  "st_VideoCodec (resolveSessionStrategy
     \<lparr>in_StreamURL = ''http://h/1.ts'', in_VODType = '''', in_SatIPSource = False,
      in_StreamVCodec = ''HEVC'', in_StreamACodec = ''ac3''\<rparr>
     \<lparr>out_VideoCodec = ''hvc1'', out_AudioCodec = '''', out_HWAccel = '''', out_Container = ''mp4'',
      out_OutputHeight = 0\<rparr>) = ''copy''"
  by (subst live_video_copied_iff) code_simp+

text \<open>A session whose pipeline is neither HLS nor MSE runs the stream copy pipeline exactly
  when the wanted codec is a passthrough or of the source's family, and the full transcoder
  otherwise: the audio transcoding pipeline is never reached.\<close>

theorem stream_delivery_pipelines:
  assumes "delivery \<notin> {''hls'', ''mse''}"
  shows "choosePipeline delivery codec bitrate h info =
    (if passthrough (NormalizeCodec codec)
        \<or> (\<exists>c hh. info = Some (c, hh) \<and> NormalizeCodec c \<noteq> '''' \<and> BaseCodec codec = BaseCodec c)
     then StreamCopy else FullTranscode)"
proof (cases info)
  case None
  with assms show ?thesis
    by (auto simp: choosePipeline_def resolveNeedsTranscode_def passthrough_def Let_def)
next
  case (Some ch)
  obtain c hh where ch: "ch = (c, hh)" by (cases ch)
  have "BaseCodec codec = BaseCodec c" if "NormalizeCodec codec = NormalizeCodec c"
    using that BaseCodec_NormalizeCodec by metis
  with assms Some ch show ?thesis
    by (auto simp: choosePipeline_def resolveNeedsTranscode_def BaseCodec_NormalizeCodec passthrough_def Let_def)
qed

lemma common_codecs [simp]:
  "NormalizeCodec ''h264'' = ''h264''" "NormalizeCodec ''h265'' = ''h265''" "NormalizeCodec ''hevc'' = ''h265''"
proof -
  have "normalize_lower ''h264'' = ''h264''" "normalize_lower ''h265'' = ''h265''"
    "normalize_lower ''hevc'' = ''h265''" by code_simp+
  then show "NormalizeCodec ''h264'' = ''h264''" "NormalizeCodec ''h265'' = ''h265''"
    "NormalizeCodec ''hevc'' = ''h265''"
    by (simp_all add: NormalizeCodec_def TrimSpace_plain plain_char_def ToLower_def lower_char_def)
qed

theorem stream_delivery_pipelines_witness:
  "choosePipeline ''stream'' ''h264'' 4000 720 (Some (''h264'', 1080)) = StreamCopy
   \<and> choosePipeline ''stream'' ''h265'' 0 0 (Some (''h264'', 1080)) = FullTranscode"
  using stream_delivery_pipelines [of "''stream''" "''h264''" 4000 720 "Some (''h264'', 1080)"]
    stream_delivery_pipelines [of "''stream''" "''h265''" 0 0 "Some (''h264'', 1080)"]
  by (simp add: passthrough_def BaseCodec_def IsH265_def)

lemma pipeline_same_codec:
  assumes "NormalizeCodec codec = NormalizeCodec c" and "\<not> passthrough (NormalizeCodec codec)"
  shows "choosePipeline d codec b h (Some (c, hh)) =
    (let decode = b > 0 \<or> (h > 0 \<and> h < hh) in
     if d = ''hls'' then (if decode then HLSTranscode else HLSCopy)
     else if d = ''mse'' then (if decode then MSETranscode else MSECopy) else StreamCopy)"
  using assms by (simp add: choosePipeline_def resolveNeedsTranscode_def forceDecode_def passthrough_def Let_def)

text \<open>Scaling is honoured for HLS and MSE, which decode whenever the output is lower than
  the source, and lost for every other delivery: for a live H.264 or H.265 source the
  strategy asks for an encoder because a height is set, and the session then copies the
  stream, whatever the height and the bit rate.\<close>

theorem scaling_lost_without_segments:
  assumes "is_live i" and "in_StreamVCodec i \<in> {''h264'', ''hevc''}"
    and "passthrough (out_VideoCodec out)" and "0 < out_OutputHeight out" "out_OutputHeight out < srcHeight"
    and "delivery \<notin> {''hls'', ''mse''}"
    and "codec = st_VideoCodec (resolveSessionStrategy i out)"
    and "src = Some (in_StreamVCodec i, srcHeight)"
  shows "codec \<noteq> ''copy''
    \<and> choosePipeline delivery codec bitrate (out_OutputHeight out) src = StreamCopy
    \<and> choosePipeline ''hls'' codec bitrate (out_OutputHeight out) src = HLSTranscode
    \<and> choosePipeline ''mse'' codec bitrate (out_OutputHeight out) src = MSETranscode"
proof -
  have "resolveVideoActionWithHeight (source_video i) (out_VideoCodec out) (out_OutputHeight out)
      = normalizeVideoCodecName (source_video i)"
    using assms(3,4) by (auto simp: resolveVideoActionWithHeight_def passthrough_def source_video_def ToLower_def)
  then have codec: "codec = normalizeVideoCodecName (source_video i)"
    using assms(1,7) by (simp add: live_strategy liveStrategy_def Let_def)
  have "normalizeVideoCodecName (source_video i) = NormalizeCodec (in_StreamVCodec i)"
    using assms(2) by (auto simp: source_video_def normalizeVideoCodecName_def ToLower_def lower_char_def)
  then have c: "codec \<in> {''h264'', ''h265''}" and n: "NormalizeCodec codec = NormalizeCodec (in_StreamVCodec i)"
    using codec assms(2) by auto
  from c have "\<not> passthrough (NormalizeCodec codec)" by (auto simp: passthrough_def)
  note choice = pipeline_same_codec [OF n this]
  from c assms(4-6) show ?thesis unfolding assms(8) choice by auto
qed

theorem scaling_lost_without_segments_witness:
  "choosePipeline ''stream'' (st_VideoCodec (resolveSessionStrategy
     \<lparr>in_StreamURL = ''http://h/1.ts'', in_VODType = '''', in_SatIPSource = False,
      in_StreamVCodec = ''h264'', in_StreamACodec = ''aac''\<rparr>
     \<lparr>out_VideoCodec = ''copy'', out_AudioCodec = '''', out_HWAccel = '''', out_Container = ''mpegts'',
      out_OutputHeight = 480\<rparr>)) 0 480 (Some (''h264'', 1080)) = StreamCopy"
  using scaling_lost_without_segments [of
     "\<lparr>in_StreamURL = ''http://h/1.ts'', in_VODType = '''', in_SatIPSource = False,
      in_StreamVCodec = ''h264'', in_StreamACodec = ''aac''\<rparr>"
     "\<lparr>out_VideoCodec = ''copy'', out_AudioCodec = '''', out_HWAccel = '''', out_Container = ''mpegts'',
      out_OutputHeight = 480\<rparr>" 1080 "''stream''" _ _ 0, OF _ _ _ _ _ _ refl refl]
  by (simp add: is_live_def classifyStream_def passthrough_def)

end
