(* ===== verification/Stores.thy ===== *)
theory Stores
  imports Prelude
begin

text \<open>
  What the JSON stores of \<open>pkg/store\<close> have in common. A store keeps a slice of records in
  memory and rewrites its file after every change; the state of a store is that slice. The
  clock, the identifiers that \<open>uuid.New\<close> returns and the outcome of writing the file are
  inputs of an operation, so every theorem holds for all of them. A failed write is reported
  and the change stays in memory, as in the code.
\<close>

section \<open>Inputs of an operation\<close>

record env =
  e_now :: time
  e_uuid :: "nat \<Rightarrow> ident"
  e_save :: "error option"

text \<open>What reading and decoding the file gives: \<open>Malformed\<close> carries what
  \<open>json.Unmarshal\<close> left in the slice.\<close>

datatype 'r json_file = NotExist | Unreadable error | Contents "'r list" | Malformed error "'r list"

fun load_slice :: "'r json_file \<Rightarrow> 'r list \<Rightarrow> error option \<times> 'r list" where
  "load_slice NotExist s = (None, s)"
| "load_slice (Unreadable e) s = (Some e, s)"
| "load_slice (Contents xs) s = (None, xs)"
| "load_slice (Malformed e xs) s = (Some e, xs)"

definition not_found :: "error \<Rightarrow> 'r option \<Rightarrow> error + 'r" where
  "not_found e x = (case x of None \<Rightarrow> Inl e | Some r \<Rightarrow> Inr r)"

lemma not_found_simps [simp]: "not_found e None = Inl e" "not_found e (Some r) = Inr r"
  by (simp_all add: not_found_def)

lemma not_found_Inr [simp]: "not_found e x = Inr r \<longleftrightarrow> x = Some r"
  by (cases x) simp_all

section \<open>The contract of a store keyed by identifiers\<close>

text \<open>\<open>get\<close> returns what a client sees (\<open>view\<close>) of the first record with the identifier;
  \<open>delete\<close> removes that record and is silent when there is none.\<close>

locale keyed_store =
  fixes key :: "'r \<Rightarrow> ident"
    and view :: "'r \<Rightarrow> 'v"
    and missing :: error
    and get :: "ident \<Rightarrow> 'r list \<Rightarrow> error + 'v"
    and delete :: "env \<Rightarrow> ident \<Rightarrow> 'r list \<Rightarrow> error option \<times> 'r list"
  assumes get_find: "get i s = not_found missing (map_option view (find (\<lambda>r. key r = i) s))"
    and delete_eq: "delete e i s = (case delete_first (\<lambda>r. key r = i) s of
      None \<Rightarrow> (None, s) | Some s' \<Rightarrow> (e_save e, s'))"
begin

definition unique_keys :: "'r list \<Rightarrow> bool" where
  "unique_keys s \<longleftrightarrow> distinct (map key s)"

lemma get_missing: "get i s = Inl x \<longleftrightarrow> x = missing \<and> i \<notin> key ` set s"
  by (auto simp: get_find not_found_def find_None_iff split: option.splits dest: find_SomeD)

lemma get_member: "unique_keys s \<Longrightarrow> r \<in> set s \<Longrightarrow> get (key r) s = Inr (view r)"
  by (induction s) (auto simp: get_find unique_keys_def)

lemma get_Inr: "get i s = Inr v \<Longrightarrow> \<exists>r \<in> set s. key r = i \<and> view r = v"
  by (auto simp: get_find dest: find_SomeD)

lemma delete_unique: "unique_keys s \<Longrightarrow> unique_keys (snd (delete e i s))"
  by (auto simp: delete_eq unique_keys_def split: option.splits dest: distinct_delete_first(1))

lemma delete_set: "unique_keys s \<Longrightarrow> set (snd (delete e i s)) = {r \<in> set s. key r \<noteq> i}"
  by (auto simp: delete_eq unique_keys_def split: option.splits
      dest: distinct_delete_first(3) find_NoneD)

lemma delete_subset: "set (snd (delete e i s)) \<subseteq> set s"
  by (auto simp: delete_eq split: option.splits dest: set_delete_first)

lemma get_deleted: "unique_keys s \<Longrightarrow> get i (snd (delete e i s)) = Inl missing"
  using delete_set [of s e i] by (auto simp: get_missing)

lemma get_delete_other: "j \<noteq> i \<Longrightarrow> get j (snd (delete e i s)) = get j s"
proof (cases "delete_first (\<lambda>r. key r = i) s")
  case (Some s')
  then have "find (\<lambda>r. key r = j) s' = find (\<lambda>r. key r = j) s" if "j \<noteq> i"
    using that by (intro find_delete_first_other [OF Some]) auto
  with Some show "j \<noteq> i \<Longrightarrow> ?thesis" by (simp add: delete_eq get_find)
qed (simp add: delete_eq)

lemma delete_absent: "i \<notin> key ` set s \<Longrightarrow> delete e i s = (None, s)"
  by (simp add: delete_eq find_key_None)

end

text \<open>An operation that replaces the first record with the identifier and fails when there is
  none. \<open>put\<close> keeps the identifier.\<close>

locale update_law =
  fixes key :: "'r \<Rightarrow> ident"
    and missing :: error
    and put :: "env \<Rightarrow> 'a \<Rightarrow> 'r \<Rightarrow> 'r"
    and target :: "'a \<Rightarrow> ident"
    and update :: "env \<Rightarrow> 'a \<Rightarrow> 'r list \<Rightarrow> error option \<times> 'r list"
  assumes update_eq: "update e a s = (case update_first (\<lambda>r. key r = target a) (put e a) s of
      None \<Rightarrow> (Some missing, s) | Some s' \<Rightarrow> (e_save e, s'))"
    and put_key: "key r = target a \<Longrightarrow> key (put e a r) = target a"
begin

lemma update_keys: "map key (snd (update e a s)) = map key s"
  by (auto simp: update_eq put_key split: option.splits intro: map_update_first)

lemma update_missing: "target a \<notin> key ` set s \<Longrightarrow> update e a s = (Some missing, s)"
  by (simp add: update_eq find_key_None)

lemma update_succeeds: "target a \<in> key ` set s \<Longrightarrow> fst (update e a s) = e_save e"
  by (auto simp: update_eq find_None_iff split: option.split)

lemma update_find:
  "find (\<lambda>r. key r = i) (snd (update e a s)) =
     (if i = target a then map_option (put e a) (find (\<lambda>r. key r = i) s) else find (\<lambda>r. key r = i) s)"
proof (cases "update_first (\<lambda>r. key r = target a) (put e a) s")
  case None
  then show ?thesis by (auto simp: update_eq)
next
  case (Some s')
  have "find (\<lambda>r. key r = target a) s' = map_option (put e a) (find (\<lambda>r. key r = target a) s)"
    by (rule find_update_first [OF Some]) (simp add: put_key)
  moreover have "i \<noteq> target a \<Longrightarrow> find (\<lambda>r. key r = i) s' = find (\<lambda>r. key r = i) s"
    by (rule find_update_first_other [OF Some]) (auto simp: put_key)
  ultimately show ?thesis using Some by (simp add: update_eq)
qed

lemma update_set:
  "set (snd (update e a s)) \<subseteq> set s \<union> put e a ` {r \<in> set s. key r = target a}"
  by (auto simp: update_eq split: option.splits dest: set_update_first)

end

text \<open>A keyed store with such an operation.\<close>

locale updatable_store = keyed_store key view missing get delete + update_law key missing put target update
  for key :: "'r \<Rightarrow> ident" and view :: "'r \<Rightarrow> 'v" and missing :: error
    and get :: "ident \<Rightarrow> 'r list \<Rightarrow> error + 'v"
    and delete :: "env \<Rightarrow> ident \<Rightarrow> 'r list \<Rightarrow> error option \<times> 'r list"
    and put :: "env \<Rightarrow> 'a \<Rightarrow> 'r \<Rightarrow> 'r" and target :: "'a \<Rightarrow> ident"
    and update :: "env \<Rightarrow> 'a \<Rightarrow> 'r list \<Rightarrow> error option \<times> 'r list"
begin

lemma update_unique: "unique_keys s \<Longrightarrow> unique_keys (snd (update e a s))"
  by (simp add: unique_keys_def update_keys)

lemma get_updated:
  "find (\<lambda>r. key r = target a) s = Some r \<Longrightarrow> get (target a) (snd (update e a s)) = Inr (view (put e a r))"
  by (simp add: get_find update_find)

lemma get_update_other: "i \<noteq> target a \<Longrightarrow> get i (snd (update e a s)) = get i s"
  by (simp add: get_find update_find)

end

text \<open>A keyed store with an operation that appends a record, possibly after a check.\<close>

locale creating_store = keyed_store key view missing get delete
  for key :: "'r \<Rightarrow> ident" and view :: "'r \<Rightarrow> 'v" and missing :: error
    and get :: "ident \<Rightarrow> 'r list \<Rightarrow> error + 'v"
    and delete :: "env \<Rightarrow> ident \<Rightarrow> 'r list \<Rightarrow> error option \<times> 'r list" +
  fixes entry :: "env \<Rightarrow> 'a \<Rightarrow> 'r"
    and refused :: "'a \<Rightarrow> 'r list \<Rightarrow> error option"
    and create :: "env \<Rightarrow> 'a \<Rightarrow> 'r list \<Rightarrow> error option \<times> 'r list"
  assumes create_append: "create e a s = (case refused a s of
      Some x \<Rightarrow> (Some x, s) | None \<Rightarrow> (e_save e, s @ [entry e a]))"
begin

lemma create_unique:
  "unique_keys s \<Longrightarrow> key (entry e a) \<notin> key ` set s \<Longrightarrow> unique_keys (snd (create e a s))"
  by (auto simp: create_append unique_keys_def split: option.split)

lemma get_created:
  "refused a s = None \<Longrightarrow> key (entry e a) \<notin> key ` set s \<Longrightarrow>
     get (key (entry e a)) (snd (create e a s)) = Inr (view (entry e a))"
  by (simp add: create_append get_find find_append find_key_None)

lemma get_create_other:
  "i \<noteq> key (entry e a) \<Longrightarrow> get i (snd (create e a s)) = get i s"
  by (auto simp: create_append get_find find_append split: option.split)

lemma create_refused: "refused a s = Some x \<Longrightarrow> create e a s = (Some x, s)"
  by (simp add: create_append)

end

text \<open>The identifier a created record gets: its own, or a new one when it has none.\<close>

definition or_uuid :: "env \<Rightarrow> ident \<Rightarrow> ident" where
  "or_uuid e i = (if i = '''' then e_uuid e 0 else i)"

text \<open>Inputs for the concrete runs of the witnesses.\<close>

definition example_env :: env where
  "example_env = \<lparr>e_now = 5, e_uuid = (\<lambda>n. ''u'' @ show_nat n), e_save = None\<rparr>"

end
