(* ===== verification/ChannelStore.thy ===== *)
theory ChannelStore
  imports Stores
begin

text \<open>
  \<open>pkg/store/channel.go\<close>: channels with their stream mappings. The identifier of a channel is
  derived from its name and owner by a hash (\<open>uuid.NewSHA1\<close>), which is a parameter
  \<open>sha\<close> of \<open>Create\<close>.
\<close>

section \<open>The data\<close>

record Channel =
  ch_ID :: ident
  ch_UserID :: ident
  ch_Name :: string
  ch_LogoID :: "ident option"
  ch_Logo :: string
  ch_TvgID :: string
  ch_ChannelGroupID :: "ident option"
  ch_StreamProfileID :: "ident option"
  ch_FailCount :: int
  ch_IsEnabled :: bool
  ch_CreatedAt :: time
  ch_UpdatedAt :: time

record ChannelStream =
  cs_ID :: ident
  cs_ChannelID :: ident
  cs_StreamID :: ident
  cs_Priority :: int

record channelEntry =
  ce_Channel :: Channel
  ce_StreamIDs :: "ChannelStream list"

type_synonym channels = "channelEntry list"

definition ce_id :: "channelEntry \<Rightarrow> ident" where
  "ce_id c = ch_ID (ce_Channel c)"

definition channel_missing :: error where "channel_missing = ''channel not found''"

section \<open>The code\<close>

definition ChannelStore_Load :: "channelEntry json_file \<Rightarrow> channels \<Rightarrow> error option \<times> channels" where
  "ChannelStore_Load = load_slice"

definition channel_findIndex :: "ident \<Rightarrow> channels \<Rightarrow> channelEntry option" where
  "channel_findIndex i s = find (\<lambda>c. ce_id c = i) s"

definition deterministicChannelID :: "(string \<Rightarrow> ident) \<Rightarrow> string \<Rightarrow> ident \<Rightarrow> ident" where
  "deterministicChannelID sha name userID = sha (name @ '':'' @ userID)"

definition channel_entry :: "(string \<Rightarrow> ident) \<Rightarrow> env \<Rightarrow> Channel \<Rightarrow> channelEntry" where
  "channel_entry sha e ch =
     \<lparr>ce_Channel = ch\<lparr>ch_ID := deterministicChannelID sha (ch_Name ch) (ch_UserID ch),
        ch_CreatedAt := e_now e, ch_UpdatedAt := e_now e\<rparr>,
      ce_StreamIDs = []\<rparr>"

definition ChannelStore_Create :: "(string \<Rightarrow> ident) \<Rightarrow> env \<Rightarrow> Channel \<Rightarrow> channels \<Rightarrow> error option \<times> channels" where
  "ChannelStore_Create sha e ch s = (e_save e, s @ [channel_entry sha e ch])"

definition ChannelStore_GetByID :: "ident \<Rightarrow> channels \<Rightarrow> error + Channel" where
  "ChannelStore_GetByID i s = not_found channel_missing (map_option ce_Channel (channel_findIndex i s))"

definition ChannelStore_GetByIDForUser :: "ident \<Rightarrow> ident \<Rightarrow> channels \<Rightarrow> error + Channel" where
  "ChannelStore_GetByIDForUser i userID s = (case channel_findIndex i s of
      None \<Rightarrow> Inl channel_missing
    | Some c \<Rightarrow> if ch_UserID (ce_Channel c) \<noteq> userID then Inl channel_missing else Inr (ce_Channel c))"

definition ChannelStore_GetByIDLite :: "ident \<Rightarrow> channels \<Rightarrow> error + Channel" where
  "ChannelStore_GetByIDLite i s = (case channel_findIndex i s of
      None \<Rightarrow> Inl channel_missing
    | Some c \<Rightarrow> let ch = ce_Channel c in
        Inr \<lparr>ch_ID = ch_ID ch, ch_UserID = '''', ch_Name = ch_Name ch, ch_LogoID = None, ch_Logo = '''',
          ch_TvgID = '''', ch_ChannelGroupID = None, ch_StreamProfileID = ch_StreamProfileID ch,
          ch_FailCount = 0, ch_IsEnabled = ch_IsEnabled ch, ch_CreatedAt = 0, ch_UpdatedAt = 0\<rparr>)"

definition name_less :: "Channel \<Rightarrow> Channel \<Rightarrow> bool" where
  "name_less a b \<longleftrightarrow> ToLower (ch_Name a) < ToLower (ch_Name b)"

definition ChannelStore_List :: "channels \<Rightarrow> Channel list" where
  "ChannelStore_List s = sort_slice name_less (map ce_Channel s)"

definition ChannelStore_ListByUserID :: "ident \<Rightarrow> channels \<Rightarrow> Channel list" where
  "ChannelStore_ListByUserID userID s =
     sort_slice name_less (filter (\<lambda>ch. ch_UserID ch = userID) (map ce_Channel s))"

definition channel_put :: "env \<Rightarrow> Channel \<Rightarrow> channelEntry \<Rightarrow> channelEntry" where
  "channel_put e ch c = c\<lparr>ce_Channel := ch\<lparr>ch_UpdatedAt := e_now e,
     ch_CreatedAt := ch_CreatedAt (ce_Channel c)\<rparr>\<rparr>"

definition ChannelStore_Update :: "env \<Rightarrow> Channel \<Rightarrow> channels \<Rightarrow> error option \<times> channels" where
  "ChannelStore_Update e ch s =
     (case update_first (\<lambda>c. ce_id c = ch_ID ch) (channel_put e ch) s of
        None \<Rightarrow> (Some channel_missing, s)
      | Some s' \<Rightarrow> (e_save e, s'))"

definition ChannelStore_UpdateForUser :: "env \<Rightarrow> Channel \<Rightarrow> ident \<Rightarrow> channels \<Rightarrow> error option \<times> channels" where
  "ChannelStore_UpdateForUser e ch userID s = (case channel_findIndex (ch_ID ch) s of
      None \<Rightarrow> (Some channel_missing, s)
    | Some c \<Rightarrow> if ch_UserID (ce_Channel c) \<noteq> userID then (Some channel_missing, s)
        else ChannelStore_Update e ch s)"

definition ChannelStore_Delete :: "env \<Rightarrow> ident \<Rightarrow> channels \<Rightarrow> error option \<times> channels" where
  "ChannelStore_Delete e i s = (case delete_first (\<lambda>c. ce_id c = i) s of
      None \<Rightarrow> (None, s) | Some s' \<Rightarrow> (e_save e, s'))"

definition ChannelStore_DeleteForUser :: "env \<Rightarrow> ident \<Rightarrow> ident \<Rightarrow> channels \<Rightarrow> error option \<times> channels" where
  "ChannelStore_DeleteForUser e i userID s = (case channel_findIndex i s of
      None \<Rightarrow> (None, s)
    | Some c \<Rightarrow> if ch_UserID (ce_Channel c) = userID then ChannelStore_Delete e i s else (None, s))"

text \<open>The mappings that \<open>AssignStreams\<close> builds; \<open>priorities[i]\<close> panics when there are
  fewer priorities than streams.\<close>

fun assigned :: "env \<Rightarrow> ident \<Rightarrow> nat \<Rightarrow> ident list \<Rightarrow> int list \<Rightarrow> ChannelStream list option" where
  "assigned e channelID n [] ps = Some []"
| "assigned e channelID n (i # is) [] = None"
| "assigned e channelID n (i # is) (p # ps) =
     map_option (Cons \<lparr>cs_ID = e_uuid e n, cs_ChannelID = channelID, cs_StreamID = i, cs_Priority = p\<rparr>)
       (assigned e channelID (Suc n) is ps)"

definition ChannelStore_AssignStreams ::
    "env \<Rightarrow> ident \<Rightarrow> ident list \<Rightarrow> int list \<Rightarrow> channels \<Rightarrow> (error option \<times> channels) option" where
  "ChannelStore_AssignStreams e channelID streamIDs priorities s =
     (case channel_findIndex channelID s of
        None \<Rightarrow> Some (Some channel_missing, s)
      | Some _ \<Rightarrow>
          (case assigned e channelID 0 streamIDs priorities of
             None \<Rightarrow> None
           | Some cs \<Rightarrow>
               (case update_first (\<lambda>c. ce_id c = channelID) (\<lambda>c. c\<lparr>ce_StreamIDs := cs\<rparr>) s of
                  None \<Rightarrow> Some (Some channel_missing, s)
                | Some s' \<Rightarrow> Some (e_save e, s'))))"

definition priority_less :: "ChannelStream \<Rightarrow> ChannelStream \<Rightarrow> bool" where
  "priority_less a b \<longleftrightarrow> cs_Priority a < cs_Priority b"

definition ChannelStore_GetStreams :: "ident \<Rightarrow> channels \<Rightarrow> error + ChannelStream list" where
  "ChannelStore_GetStreams channelID s = (case channel_findIndex channelID s of
      None \<Rightarrow> Inl channel_missing
    | Some c \<Rightarrow> Inr (sort_slice priority_less (ce_StreamIDs c)))"

definition fail_put :: "(int \<Rightarrow> int) \<Rightarrow> env \<Rightarrow> ident \<Rightarrow> channelEntry \<Rightarrow> channelEntry" where
  "fail_put f e i c = c\<lparr>ce_Channel := (ce_Channel c)\<lparr>ch_FailCount := f (ch_FailCount (ce_Channel c))\<rparr>\<rparr>"

definition ChannelStore_IncrementFailCount :: "env \<Rightarrow> ident \<Rightarrow> channels \<Rightarrow> error option \<times> channels" where
  "ChannelStore_IncrementFailCount e i s =
     (case update_first (\<lambda>c. ce_id c = i) (fail_put (\<lambda>n. n + 1) e i) s of
        None \<Rightarrow> (Some channel_missing, s) | Some s' \<Rightarrow> (e_save e, s'))"

definition ChannelStore_ResetFailCount :: "env \<Rightarrow> ident \<Rightarrow> channels \<Rightarrow> error option \<times> channels" where
  "ChannelStore_ResetFailCount e i s =
     (case update_first (\<lambda>c. ce_id c = i) (fail_put (\<lambda>n. 0) e i) s of
        None \<Rightarrow> (Some channel_missing, s) | Some s' \<Rightarrow> (e_save e, s'))"

text \<open>The loop of \<open>RemoveStreamMappings\<close>: the flag \<open>changed\<close> and the entries kept.\<close>

fun remove_mappings :: "ident list \<Rightarrow> channels \<Rightarrow> bool \<times> channels" where
  "remove_mappings removeSet [] = (False, [])"
| "remove_mappings removeSet (c # cs) =
     (let hadStreams = length (ce_StreamIDs c) > 0;
          keptStreams = filter (\<lambda>m. cs_StreamID m \<notin> set removeSet) (ce_StreamIDs c);
          changed = list_ex (\<lambda>m. cs_StreamID m \<in> set removeSet) (ce_StreamIDs c);
          (changed', kept) = remove_mappings removeSet cs
      in if hadStreams \<and> length keptStreams = 0 then (True, kept)
         else (changed \<or> changed', c\<lparr>ce_StreamIDs := keptStreams\<rparr> # kept))"

definition ChannelStore_RemoveStreamMappings :: "env \<Rightarrow> ident list \<Rightarrow> channels \<Rightarrow> error option \<times> channels" where
  "ChannelStore_RemoveStreamMappings e streamIDs s =
     (if length streamIDs = 0 then (None, s)
      else case remove_mappings streamIDs s of
        (changed, kept) \<Rightarrow> if changed then (e_save e, kept) else (None, s))"

definition ChannelStore_ClearAndSave :: "env \<Rightarrow> channels \<Rightarrow> error option \<times> channels" where
  "ChannelStore_ClearAndSave e s = (e_save e, [])"

section \<open>The store satisfies its contract\<close>

interpretation channel: keyed_store ce_id ce_Channel channel_missing ChannelStore_GetByID ChannelStore_Delete
  by unfold_locales
     (simp_all add: ChannelStore_GetByID_def ChannelStore_Delete_def channel_findIndex_def)

interpretation channel: updatable_store ce_id ce_Channel channel_missing ChannelStore_GetByID
  ChannelStore_Delete channel_put ch_ID ChannelStore_Update
  by unfold_locales (simp_all add: ChannelStore_Update_def channel_put_def ce_id_def)

interpretation channel: creating_store ce_id ce_Channel channel_missing ChannelStore_GetByID
  ChannelStore_Delete "channel_entry sha" "\<lambda>_ _. None" "ChannelStore_Create sha" for sha
  by unfold_locales (simp_all add: ChannelStore_Create_def)

interpretation channel_inc: update_law ce_id channel_missing "fail_put (\<lambda>n. n + 1)" "\<lambda>i. i"
  ChannelStore_IncrementFailCount
  by unfold_locales (simp_all add: ChannelStore_IncrementFailCount_def fail_put_def ce_id_def)

interpretation channel_reset: update_law ce_id channel_missing "fail_put (\<lambda>n. 0)" "\<lambda>i. i"
  ChannelStore_ResetFailCount
  by unfold_locales (simp_all add: ChannelStore_ResetFailCount_def fail_put_def ce_id_def)

interpretation by_name: slice_order name_less
  unfolding name_less_def by (rule slice_order_key)

interpretation by_priority: slice_order priority_less
  unfolding priority_less_def by (rule slice_order_key)

section \<open>Stream mappings\<close>

definition strip_mappings :: "ident list \<Rightarrow> channelEntry \<Rightarrow> channelEntry" where
  "strip_mappings ids c = c\<lparr>ce_StreamIDs := filter (\<lambda>m. cs_StreamID m \<notin> set ids) (ce_StreamIDs c)\<rparr>"

text \<open>A channel is left alone by the removal of its streams when it had none or keeps one.\<close>

definition keeps_stream :: "ident list \<Rightarrow> channelEntry \<Rightarrow> bool" where
  "keeps_stream ids c \<longleftrightarrow> ce_StreamIDs c = [] \<or> (\<exists>m \<in> set (ce_StreamIDs c). cs_StreamID m \<notin> set ids)"

lemma remove_mappings_kept:
  "snd (remove_mappings ids s) = map (strip_mappings ids) (filter (keeps_stream ids) s)"
  by (induction s)
     (auto simp: strip_mappings_def keeps_stream_def filter_empty_conv Let_def split: prod.split)

lemma strip_mappings_id:
  "list_all (\<lambda>m. cs_StreamID m \<notin> set ids) (ce_StreamIDs c) \<Longrightarrow> strip_mappings ids c = c"
  by (cases c) (simp add: strip_mappings_def list_all_iff cong: filter_cong)

lemma remove_mappings_unchanged:
  "\<not> fst (remove_mappings ids s) \<Longrightarrow>
     list_all (\<lambda>c. list_all (\<lambda>m. cs_StreamID m \<notin> set ids) (ce_StreamIDs c)) s \<and> snd (remove_mappings ids s) = s"
proof (induction s)
  case (Cons c s)
  then show ?case
    using strip_mappings_id [of ids c]
    by (auto simp: Let_def list_all_iff list_ex_iff strip_mappings_def split: prod.splits if_splits)
qed simp

lemma keeps_stream_Nil: "keeps_stream [] c" and strip_mappings_Nil: "strip_mappings [] c = c"
  by (auto simp: keeps_stream_def strip_mappings_id list_all_iff)

text \<open>Removing streams takes exactly their mappings out of every channel and deletes exactly
  the channels that had streams and lost all of them; the file is written only when
  something changed.\<close>

theorem RemoveStreamMappings_spec:
  "snd (ChannelStore_RemoveStreamMappings e ids s)
     = map (strip_mappings ids) (filter (keeps_stream ids) s)
   \<and> fst (ChannelStore_RemoveStreamMappings e ids s)
     = (if list_ex (\<lambda>c. list_ex (\<lambda>m. cs_StreamID m \<in> set ids) (ce_StreamIDs c)) s then e_save e else None)"
proof -
  have changed: "fst (remove_mappings ids s)
      \<longleftrightarrow> list_ex (\<lambda>c. list_ex (\<lambda>m. cs_StreamID m \<in> set ids) (ce_StreamIDs c)) s"
    by (induction s)
       (auto simp: Let_def list_ex_iff filter_empty_conv split: prod.splits if_splits)
  have "map (strip_mappings ids) (filter (keeps_stream ids) s) = s" if "\<not> fst (remove_mappings ids s)"
    using remove_mappings_unchanged [OF that] remove_mappings_kept [of ids s] by simp
  then show ?thesis
    using changed remove_mappings_kept [of ids s]
    by (auto simp: ChannelStore_RemoveStreamMappings_def keeps_stream_Nil strip_mappings_Nil list_ex_iff
        split: prod.split)
qed

lemma assigned_pairs:
  "length is = length ps \<Longrightarrow> \<exists>cs. assigned e ch n is ps = Some cs
     \<and> map (\<lambda>m. (cs_StreamID m, cs_Priority m)) cs = zip is ps \<and> (\<forall>m \<in> set cs. cs_ChannelID m = ch)"
proof (induction "is" arbitrary: n ps)
  case (Cons i "is")
  then obtain p ps' where ps: "ps = p # ps'" by (cases ps) auto
  with Cons.prems Cons.IH [of ps' "Suc n"] show ?case by auto
qed simp

lemma assign_then_get:
  assumes "channel_findIndex ch s = Some c" and "length ids = length ps"
  shows "\<exists>s' ms. ChannelStore_AssignStreams e ch ids ps s = Some (e_save e, s')
    \<and> ChannelStore_GetStreams ch s' = Inr ms
    \<and> mset (map (\<lambda>m. (cs_StreamID m, cs_Priority m)) ms) = mset (zip ids ps)
    \<and> sorted (map cs_Priority ms)
    \<and> (sorted ps \<longrightarrow> map (\<lambda>m. (cs_StreamID m, cs_Priority m)) ms = zip ids ps)
    \<and> (\<forall>i. i \<noteq> ch \<longrightarrow> ChannelStore_GetStreams i s' = ChannelStore_GetStreams i s)"
proof -
  obtain cs where cs: "assigned e ch 0 ids ps = Some cs"
    and pairs: "map (\<lambda>m. (cs_StreamID m, cs_Priority m)) cs = zip ids ps"
    using assigned_pairs [OF assms(2)] by blast
  from pairs have "map snd (map (\<lambda>m. (cs_StreamID m, cs_Priority m)) cs) = ps"
    using assms(2) by simp
  then have prios: "map cs_Priority cs = ps" by (simp add: comp_def)
  let ?f = "\<lambda>c. c\<lparr>ce_StreamIDs := cs\<rparr>"
  from assms(1) obtain s' where s': "update_first (\<lambda>c. ce_id c = ch) ?f s = Some s'"
    by (cases "update_first (\<lambda>c. ce_id c = ch) ?f s") (auto simp: channel_findIndex_def)
  have found: "channel_findIndex ch s' = Some (?f c)"
    using find_update_first [OF s'] assms(1) by (simp add: channel_findIndex_def ce_id_def)
  have other: "channel_findIndex i s' = channel_findIndex i s" if "i \<noteq> ch" for i
    unfolding channel_findIndex_def by (rule find_update_first_other [OF s']) (use that in \<open>auto simp: ce_id_def\<close>)
  let ?ms = "sort_slice priority_less cs"
  have "sorted (map cs_Priority ?ms)"
    using by_priority.slice_sorted [of cs] by (simp add: sorted_wrt_map priority_less_def not_less)
  moreover have "mset (map (\<lambda>m. (cs_StreamID m, cs_Priority m)) ?ms) = mset (zip ids ps)"
    using pairs by (metis mset_map mset_sort_slice)
  moreover have "?ms = cs" if "sorted ps"
    using that prios
    by (intro by_priority.slice_sorted_id) (auto simp: sorted_wrt_map priority_less_def not_less)
  ultimately show ?thesis
    using s' found other cs pairs assms(1)
    by (intro exI [of _ s'] exI [of _ ?ms])
       (auto simp: ChannelStore_AssignStreams_def ChannelStore_GetStreams_def)
qed

text \<open>Assigning streams to a channel and reading them back gives the assigned streams with
  their priorities, ordered by priority, and in the assigned order when the priorities
  ascend; other channels keep their streams. Fewer priorities than streams panic.\<close>

theorem AssignStreams_GetStreams:
  assumes "channel_findIndex ch s = Some c" and "length ids = length ps"
  shows "\<exists>s' ms. ChannelStore_AssignStreams e ch ids ps s = Some (e_save e, s')
    \<and> ChannelStore_GetStreams ch s' = Inr ms
    \<and> mset (map (\<lambda>m. (cs_StreamID m, cs_Priority m)) ms) = mset (zip ids ps)
    \<and> sorted (map cs_Priority ms)
    \<and> (sorted ps \<longrightarrow> map (\<lambda>m. (cs_StreamID m, cs_Priority m)) ms = zip ids ps)
    \<and> (\<forall>i. i \<noteq> ch \<longrightarrow> ChannelStore_GetStreams i s' = ChannelStore_GetStreams i s)"
  using assms by (rule assign_then_get)

definition example_channel :: "ident \<Rightarrow> ident \<Rightarrow> Channel" where
  "example_channel i u = \<lparr>ch_ID = i, ch_UserID = u, ch_Name = ''One'', ch_LogoID = None, ch_Logo = '''',
     ch_TvgID = '''', ch_ChannelGroupID = None, ch_StreamProfileID = None, ch_FailCount = 0,
     ch_IsEnabled = True, ch_CreatedAt = 0, ch_UpdatedAt = 0\<rparr>"

theorem AssignStreams_GetStreams_witness:
  "\<exists>s' ms. ChannelStore_AssignStreams example_env ''c'' [''a'', ''b''] [1, 2]
      [\<lparr>ce_Channel = example_channel ''c'' ''u'', ce_StreamIDs = []\<rparr>] = Some (None, s')
    \<and> ChannelStore_GetStreams ''c'' s' = Inr ms
    \<and> map (\<lambda>m. (cs_StreamID m, cs_Priority m)) ms = [(''a'', 1), (''b'', 2)]"
  using AssignStreams_GetStreams [of "''c''" "[\<lparr>ce_Channel = example_channel ''c'' ''u'', ce_StreamIDs = []\<rparr>]"
      "\<lparr>ce_Channel = example_channel ''c'' ''u'', ce_StreamIDs = []\<rparr>" "[''a'', ''b'']" "[1, 2]" example_env]
  by (auto simp: channel_findIndex_def ce_id_def example_channel_def example_env_def)

section \<open>Identifiers\<close>

text \<open>The identifier of a channel is a function of its name and owner and \<open>Create\<close> does not
  look for it, so that creating a channel again succeeds, leaves two entries with one
  identifier, the old one hides the new one, and deleting the channel uncovers the new one
  instead of removing it.\<close>

theorem Create_again_shadows:
  assumes "distinct (map ce_id s)"
    and "ChannelStore_GetByID (deterministicChannelID sha (ch_Name ch) (ch_UserID ch)) s = Inr old"
    and "i = deterministicChannelID sha (ch_Name ch) (ch_UserID ch)"
    and "s' = snd (ChannelStore_Create sha e ch s)"
  shows "fst (ChannelStore_Create sha e ch s) = e_save e
    \<and> \<not> distinct (map ce_id s')
    \<and> ChannelStore_GetByID i s' = Inr old
    \<and> ChannelStore_GetByID i (snd (ChannelStore_Delete e' i s')) = Inr (ce_Channel (channel_entry sha e ch))"
proof -
  have id: "ce_id (channel_entry sha e ch) = i" by (simp add: channel_entry_def ce_id_def assms(3))
  obtain c where c: "find (\<lambda>r. ce_id r = i) s = Some c" "ce_Channel c = old"
    using assms(2,3) by (auto simp: channel.get_find)
  then have mem: "i \<in> ce_id ` set s" by (auto dest: find_SomeD)
  obtain t where t: "delete_first (\<lambda>r. ce_id r = i) s = Some t"
    using c(1) by (cases "delete_first (\<lambda>r. ce_id r = i) s") auto
  have "delete_first (\<lambda>r. ce_id r = i) (s @ [x]) = Some (t @ [x])" for x
    using t by (induction s arbitrary: t) (auto split: if_splits)
  moreover have "find (\<lambda>r. ce_id r = i) t = None"
    using distinct_delete_first(2) [OF t assms(1)] .
  ultimately show ?thesis
    using assms(1,4) c id mem
    by (auto simp: ChannelStore_Create_def ChannelStore_Delete_def channel.get_find find_append)
qed

theorem Create_again_shadows_witness:
  "ChannelStore_GetByID ''One:u'' (snd (ChannelStore_Delete example_env ''One:u''
     (snd (ChannelStore_Create (\<lambda>x. x) example_env (example_channel '''' ''u'')
        [\<lparr>ce_Channel = example_channel ''One:u'' ''u'', ce_StreamIDs = []\<rparr>]))))
   = Inr (ce_Channel (channel_entry (\<lambda>x. x) example_env (example_channel '''' ''u'')))"
  using Create_again_shadows [of "[\<lparr>ce_Channel = example_channel ''One:u'' ''u'', ce_StreamIDs = []\<rparr>]"
      "\<lambda>x. x" "example_channel '''' ''u''" "example_channel ''One:u'' ''u''", OF _ _ refl refl]
  by (simp add: channel.get_find ce_id_def example_channel_def deterministicChannelID_def)

section \<open>Separation of users\<close>

lemma update_first_others:
  "update_first p f xs = Some ys \<Longrightarrow> x \<in> set xs \<Longrightarrow> \<not> p x \<Longrightarrow> x \<in> set ys"
  by (induction xs arbitrary: ys) (auto split: if_splits)

lemma delete_first_others:
  "delete_first p xs = Some ys \<Longrightarrow> x \<in> set xs \<Longrightarrow> \<not> p x \<Longrightarrow> x \<in> set ys"
  by (induction xs arbitrary: ys) (auto split: if_splits)

lemma owner_unique:
  "distinct (map ce_id s) \<Longrightarrow> channel_findIndex i s = Some c \<Longrightarrow> d \<in> set s \<Longrightarrow> ce_id d = i \<Longrightarrow> d = c"
  by (induction s) (auto simp: channel_findIndex_def split: if_splits)

text \<open>What a user does to channels leaves the channels of every other user as they are, and a
  channel of another user is reported as not found (an update, a lookup) or ignored (a
  deletion).\<close>

theorem ForUser_separation:
  assumes "distinct (map ce_id s)" and "d \<in> set s" and "ch_UserID (ce_Channel d) \<noteq> u"
  shows "d \<in> set (snd (ChannelStore_UpdateForUser e ch u s))
    \<and> d \<in> set (snd (ChannelStore_DeleteForUser e i u s))
    \<and> ChannelStore_GetByIDForUser (ce_id d) u s = Inl channel_missing
    \<and> ChannelStore_DeleteForUser e (ce_id d) u s = (None, s)
    \<and> (ch_ID ch = ce_id d \<longrightarrow> ChannelStore_UpdateForUser e ch u s = (Some channel_missing, s))"
proof -
  have own: "channel_findIndex (ce_id d) s = Some d"
    using assms(1,2) owner_unique [OF assms(1) _ assms(2)]
    by (cases "channel_findIndex (ce_id d) s") (auto simp: channel_findIndex_def dest: find_NoneD)
  have "d \<in> set (snd (ChannelStore_UpdateForUser e ch u s))"
    using assms own
    by (cases "ch_ID ch = ce_id d")
       (auto simp: ChannelStore_UpdateForUser_def ChannelStore_Update_def intro: update_first_others
          split: option.split)
  moreover have "d \<in> set (snd (ChannelStore_DeleteForUser e i u s))"
    using assms own
    by (cases "i = ce_id d")
       (auto simp: ChannelStore_DeleteForUser_def ChannelStore_Delete_def intro: delete_first_others
          split: option.split)
  ultimately show ?thesis
    using assms(3) own
    by (simp add: ChannelStore_GetByIDForUser_def ChannelStore_DeleteForUser_def ChannelStore_UpdateForUser_def)
qed

theorem ForUser_separation_witness:
  "ChannelStore_GetByIDForUser ''c'' ''eve'' [\<lparr>ce_Channel = example_channel ''c'' ''bob'', ce_StreamIDs = []\<rparr>]
   = Inl channel_missing"
  using ForUser_separation [of "[\<lparr>ce_Channel = example_channel ''c'' ''bob'', ce_StreamIDs = []\<rparr>]"
      "\<lparr>ce_Channel = example_channel ''c'' ''bob'', ce_StreamIDs = []\<rparr>" "''eve''"]
  by (simp add: example_channel_def ce_id_def)

end
