(* ===== verification/ChannelGroupStore.thy ===== *)
theory ChannelGroupStore
  imports Stores
begin

text \<open>
  \<open>pkg/store/channel_group.go\<close>: the groups that channels are shown in.
\<close>

section \<open>The code\<close>

record ChannelGroup =
  g_ID :: ident
  g_UserID :: ident
  g_Name :: string
  g_ImageURL :: string
  g_IsEnabled :: bool
  g_JellyfinEnabled :: bool
  g_JellyfinType :: string
  g_SortOrder :: int
  g_CreatedAt :: time
  g_UpdatedAt :: time

type_synonym groups = "ChannelGroup list"

definition group_missing :: error where "group_missing = ''channel group not found''"

definition GroupStore_Load :: "ChannelGroup json_file \<Rightarrow> groups \<Rightarrow> error option \<times> groups" where
  "GroupStore_Load = load_slice"

definition group_entry :: "env \<Rightarrow> ChannelGroup \<Rightarrow> ChannelGroup" where
  "group_entry e g = g\<lparr>g_ID := or_uuid e (g_ID g), g_CreatedAt := e_now e, g_UpdatedAt := e_now e\<rparr>"

definition GroupStore_Create :: "env \<Rightarrow> ChannelGroup \<Rightarrow> groups \<Rightarrow> error option \<times> groups" where
  "GroupStore_Create e g s = (e_save e, s @ [group_entry e g])"

definition GroupStore_GetByID :: "ident \<Rightarrow> groups \<Rightarrow> error + ChannelGroup" where
  "GroupStore_GetByID i s = not_found group_missing (find (\<lambda>g. g_ID g = i) s)"

definition GroupStore_GetByName :: "string \<Rightarrow> groups \<Rightarrow> error + ChannelGroup" where
  "GroupStore_GetByName name s = not_found group_missing (find (\<lambda>g. g_Name g = name) s)"

definition GroupStore_GetByIDForUser :: "ident \<Rightarrow> ident \<Rightarrow> groups \<Rightarrow> error + ChannelGroup" where
  "GroupStore_GetByIDForUser i userID s =
     not_found group_missing (find (\<lambda>g. g_ID g = i \<and> g_UserID g = userID) s)"

definition group_less :: "ChannelGroup \<Rightarrow> ChannelGroup \<Rightarrow> bool" where
  "group_less a b = (if g_SortOrder a \<noteq> g_SortOrder b then g_SortOrder a < g_SortOrder b
     else g_Name a < g_Name b)"

definition GroupStore_List :: "groups \<Rightarrow> groups" where
  "GroupStore_List s = sort_slice group_less s"

definition GroupStore_ListByUserID :: "ident \<Rightarrow> groups \<Rightarrow> groups" where
  "GroupStore_ListByUserID userID s = sort_slice group_less (filter (\<lambda>g. g_UserID g = userID) s)"

definition group_put :: "env \<Rightarrow> ChannelGroup \<Rightarrow> ChannelGroup \<Rightarrow> ChannelGroup" where
  "group_put e g old = g\<lparr>g_UpdatedAt := e_now e, g_CreatedAt := g_CreatedAt old\<rparr>"

definition GroupStore_Update :: "env \<Rightarrow> ChannelGroup \<Rightarrow> groups \<Rightarrow> error option \<times> groups" where
  "GroupStore_Update e g s = (case update_first (\<lambda>r. g_ID r = g_ID g) (group_put e g) s of
      None \<Rightarrow> (Some group_missing, s) | Some s' \<Rightarrow> (e_save e, s'))"

definition GroupStore_UpdateForUser :: "env \<Rightarrow> ChannelGroup \<Rightarrow> ident \<Rightarrow> groups \<Rightarrow> error option \<times> groups" where
  "GroupStore_UpdateForUser e g userID s =
     (case update_first (\<lambda>r. g_ID r = g_ID g \<and> g_UserID r = userID) (group_put e g) s of
        None \<Rightarrow> (Some group_missing, s) | Some s' \<Rightarrow> (e_save e, s'))"

definition GroupStore_Delete :: "env \<Rightarrow> ident \<Rightarrow> groups \<Rightarrow> error option \<times> groups" where
  "GroupStore_Delete e i s = (case delete_first (\<lambda>r. g_ID r = i) s of
      None \<Rightarrow> (None, s) | Some s' \<Rightarrow> (e_save e, s'))"

definition GroupStore_DeleteForUser :: "env \<Rightarrow> ident \<Rightarrow> ident \<Rightarrow> groups \<Rightarrow> error option \<times> groups" where
  "GroupStore_DeleteForUser e i userID s =
     (case delete_first (\<lambda>r. g_ID r = i \<and> g_UserID r = userID) s of
        None \<Rightarrow> (None, s) | Some s' \<Rightarrow> (e_save e, s'))"

definition GroupStore_ClearAndSave :: "env \<Rightarrow> groups \<Rightarrow> error option \<times> groups" where
  "GroupStore_ClearAndSave e s = (e_save e, [])"

section \<open>The store satisfies its contract\<close>

interpretation chgroup: updatable_store g_ID "\<lambda>g. g" group_missing GroupStore_GetByID GroupStore_Delete
  group_put g_ID GroupStore_Update
  by unfold_locales
     (simp_all add: GroupStore_GetByID_def GroupStore_Delete_def GroupStore_Update_def group_put_def
       option.map_ident)

interpretation chgroup: creating_store g_ID "\<lambda>g. g" group_missing GroupStore_GetByID GroupStore_Delete
  group_entry "\<lambda>_ _. None" GroupStore_Create
  by unfold_locales (simp_all add: GroupStore_Create_def)

interpretation by_sort_order: slice_order group_less
  unfolding group_less_def by (rule slice_order_key2)

text \<open>The groups of a user are listed completely, each once, ordered by their sort order and,
  within one, by name.\<close>

theorem GroupStore_ListByUserID_spec:
  "mset (GroupStore_ListByUserID u s) = filter_mset (\<lambda>g. g_UserID g = u) (mset s)
   \<and> sorted_wrt (\<lambda>a b. g_SortOrder a < g_SortOrder b \<or> g_SortOrder a = g_SortOrder b \<and> g_Name a \<le> g_Name b)
       (GroupStore_ListByUserID u s)"
proof -
  have "(\<not> group_less b a) = (g_SortOrder a < g_SortOrder b \<or> g_SortOrder a = g_SortOrder b \<and> g_Name a \<le> g_Name b)"
    for a b by (auto simp: group_less_def not_less)
  then show ?thesis
    using by_sort_order.slice_sorted by (simp add: GroupStore_ListByUserID_def mset_filter)
qed

end
