(* ===== verification/ChannelService.thy ===== *)
theory ChannelService
  imports ChannelStore ChannelGroupStore
begin

text \<open>
  \<open>pkg/service/channel.go\<close> over the two stores, with the revision counters of
  \<open>pkg/store/revision.go\<close> from which the ETags are made. The stream store is used through its
  interface (\<open>store.StreamReader\<close>): \<open>stream_of\<close> is its \<open>GetByID\<close>.
\<close>

section \<open>The code\<close>

record channel_service =
  svc_channels :: channels
  svc_groups :: groups
  svc_rev :: u64
  svc_groupRev :: u64

definition Bump :: "u64 \<Rightarrow> u64" where "Bump v = v + 1"

definition wrap_err :: "string \<Rightarrow> error \<Rightarrow> error" where
  "wrap_err msg err = msg @ '': '' @ err"

text \<open>A change of the channels: the store runs, an error is wrapped, and success bumps the
  revision.\<close>

definition change_channels ::
    "string \<Rightarrow> (channels \<Rightarrow> error option \<times> channels) \<Rightarrow> channel_service \<Rightarrow> error option \<times> channel_service" where
  "change_channels msg op s = (case op (svc_channels s) of
      (Some err, cs) \<Rightarrow> (Some (wrap_err msg err), s\<lparr>svc_channels := cs\<rparr>)
    | (None, cs) \<Rightarrow> (None, s\<lparr>svc_channels := cs, svc_rev := Bump (svc_rev s)\<rparr>))"

definition change_groups ::
    "string \<Rightarrow> (groups \<Rightarrow> error option \<times> groups) \<Rightarrow> channel_service \<Rightarrow> error option \<times> channel_service" where
  "change_groups msg op s = (case op (svc_groups s) of
      (Some err, gs) \<Rightarrow> (Some (wrap_err msg err), s\<lparr>svc_groups := gs\<rparr>)
    | (None, gs) \<Rightarrow> (None, s\<lparr>svc_groups := gs, svc_groupRev := Bump (svc_groupRev s)\<rparr>))"

definition CreateChannel where
  "CreateChannel sha e ch = change_channels ''creating channel'' (ChannelStore_Create sha e ch)"

definition UpdateChannel where
  "UpdateChannel e ch = change_channels ''updating channel'' (ChannelStore_Update e ch)"

definition DeleteChannel where
  "DeleteChannel e i = change_channels ''deleting channel'' (ChannelStore_Delete e i)"

definition UpdateChannelForUser where
  "UpdateChannelForUser e ch u =
     change_channels ''updating channel for user'' (ChannelStore_UpdateForUser e ch u)"

definition DeleteChannelForUser where
  "DeleteChannelForUser e i u =
     change_channels ''deleting channel for user'' (ChannelStore_DeleteForUser e i u)"

definition CreateChannelGroup where
  "CreateChannelGroup e g = change_groups ''creating channel group'' (GroupStore_Create e g)"

definition UpdateChannelGroup where
  "UpdateChannelGroup e g = change_groups ''updating channel group'' (GroupStore_Update e g)"

definition DeleteChannelGroup where
  "DeleteChannelGroup e i = change_groups ''deleting channel group'' (GroupStore_Delete e i)"

definition UpdateChannelGroupForUser where
  "UpdateChannelGroupForUser e g u =
     change_groups ''updating channel group for user'' (GroupStore_UpdateForUser e g u)"

definition DeleteChannelGroupForUser where
  "DeleteChannelGroupForUser e i u =
     change_groups ''deleting channel group for user'' (GroupStore_DeleteForUser e i u)"

text \<open>These two pass the error of the store on as it is.\<close>

definition IncrementChannelFailCount :: "env \<Rightarrow> ident \<Rightarrow> channel_service \<Rightarrow> error option \<times> channel_service" where
  "IncrementChannelFailCount e i s = (case ChannelStore_IncrementFailCount e i (svc_channels s) of
      (Some err, cs) \<Rightarrow> (Some err, s\<lparr>svc_channels := cs\<rparr>)
    | (None, cs) \<Rightarrow> (None, s\<lparr>svc_channels := cs, svc_rev := Bump (svc_rev s)\<rparr>))"

definition ResetChannelFailCount :: "env \<Rightarrow> ident \<Rightarrow> channel_service \<Rightarrow> error option \<times> channel_service" where
  "ResetChannelFailCount e i s = (case ChannelStore_ResetFailCount e i (svc_channels s) of
      (Some err, cs) \<Rightarrow> (Some err, s\<lparr>svc_channels := cs\<rparr>)
    | (None, cs) \<Rightarrow> (None, s\<lparr>svc_channels := cs, svc_rev := Bump (svc_rev s)\<rparr>))"

definition wrap_get :: "string \<Rightarrow> error + 'a \<Rightarrow> error + 'a" where
  "wrap_get msg r = (case r of Inl err \<Rightarrow> Inl (wrap_err msg err) | Inr x \<Rightarrow> Inr x)"

definition GetChannel :: "ident \<Rightarrow> channel_service \<Rightarrow> error + Channel" where
  "GetChannel i s = wrap_get ''getting channel'' (ChannelStore_GetByID i (svc_channels s))"

definition GetChannelForUser :: "ident \<Rightarrow> ident \<Rightarrow> channel_service \<Rightarrow> error + Channel" where
  "GetChannelForUser i u s =
     wrap_get ''getting channel for user'' (ChannelStore_GetByIDForUser i u (svc_channels s))"

definition GetChannelGroup :: "ident \<Rightarrow> channel_service \<Rightarrow> error + ChannelGroup" where
  "GetChannelGroup i s = wrap_get ''getting channel group'' (GroupStore_GetByID i (svc_groups s))"

definition GetChannelGroupForUser :: "ident \<Rightarrow> ident \<Rightarrow> channel_service \<Rightarrow> error + ChannelGroup" where
  "GetChannelGroupForUser i u s =
     wrap_get ''getting channel group for user'' (GroupStore_GetByIDForUser i u (svc_groups s))"

fun first_unknown :: "(ident \<Rightarrow> error + 'st) \<Rightarrow> ident list \<Rightarrow> error option" where
  "first_unknown stream_of [] = None"
| "first_unknown stream_of (i # is) = (case stream_of i of
      Inl err \<Rightarrow> Some (wrap_err (''stream '' @ i @ '' not found'') err)
    | Inr _ \<Rightarrow> first_unknown stream_of is)"

text \<open>\<open>None\<close> would be the panic of the store when there are too few priorities.\<close>

definition assignStreams ::
    "(ident \<Rightarrow> error + 'st) \<Rightarrow> env \<Rightarrow> ident \<Rightarrow> ident list \<Rightarrow> channel_service \<Rightarrow>
      (error option \<times> channel_service) option" where
  "assignStreams stream_of e channelID streamIDs s =
     (case first_unknown stream_of streamIDs of
        Some err \<Rightarrow> Some (Some err, s)
      | None \<Rightarrow>
          let prios = map (\<lambda>n. int n + 1) [0..<length streamIDs] in
          (case ChannelStore_AssignStreams e channelID streamIDs prios (svc_channels s) of
             None \<Rightarrow> None
           | Some (Some err, cs) \<Rightarrow>
               Some (Some (wrap_err ''assigning streams to channel'' err), s\<lparr>svc_channels := cs\<rparr>)
           | Some (None, cs) \<Rightarrow>
               Some (None, s\<lparr>svc_channels := cs, svc_rev := Bump (svc_rev s)\<rparr>)))"


definition AssignStreamsForUser where
  "AssignStreamsForUser stream_of e channelID streamIDs userID s =
     (case ChannelStore_GetByIDForUser channelID userID (svc_channels s) of
        Inl err \<Rightarrow> Some (Some (wrap_err ''channel not found'' err), s)
      | Inr _ \<Rightarrow> assignStreams stream_of e channelID streamIDs s)"

definition GetChannelStreams :: "(ident \<Rightarrow> error + 'st) \<Rightarrow> ident \<Rightarrow> channel_service \<Rightarrow> error + 'st list" where
  "GetChannelStreams stream_of channelID s =
     (case ChannelStore_GetStreams channelID (svc_channels s) of
        Inl err \<Rightarrow> Inl (wrap_err ''getting channel streams'' err)
      | Inr ms \<Rightarrow> Inr (List.map_filter (\<lambda>m. case stream_of (cs_StreamID m) of
          Inl _ \<Rightarrow> None | Inr st \<Rightarrow> Some st) ms))"

definition GetChannelStreamsForUser where
  "GetChannelStreamsForUser stream_of channelID userID s =
     (case ChannelStore_GetByIDForUser channelID userID (svc_channels s) of
        Inl err \<Rightarrow> Inl (wrap_err ''channel not found'' err)
      | Inr _ \<Rightarrow> GetChannelStreams stream_of channelID s)"

section \<open>Properties\<close>





text \<open>The revision behind the channels' ETag moves exactly when a change is reported as
  successful, whatever the operation; the groups' revision is not touched by it.\<close>

theorem channel_revision_moves:
  "(svc_rev (snd (change_channels msg op s)) \<noteq> svc_rev s) = (fst (change_channels msg op s) = None)
   \<and> svc_groupRev (snd (change_channels msg op s)) = svc_groupRev s
   \<and> (svc_groupRev (snd (change_groups msg gop s)) \<noteq> svc_groupRev s) = (fst (change_groups msg gop s) = None)
   \<and> svc_channels (snd (change_groups msg gop s)) = svc_channels s"
  by (auto simp: change_channels_def change_groups_def Bump_def split: prod.split option.split)

end
