(* ===== verification/RecordingStore.thy ===== *)
theory RecordingStore
  imports Stores
begin

text \<open>
  \<open>pkg/store/scheduled_recording.go\<close>: the scheduled recordings.
\<close>

section \<open>The code\<close>

record ScheduledRecording =
  sr_ID :: ident
  sr_UserID :: ident
  sr_ChannelID :: ident
  sr_ChannelName :: string
  sr_ProgramTitle :: string
  sr_StartAt :: time
  sr_StopAt :: time
  sr_Status :: string
  sr_SessionID :: ident
  sr_SegmentID :: ident
  sr_FilePath :: string
  sr_LastError :: string
  sr_CreatedAt :: time
  sr_UpdatedAt :: time

type_synonym recordings = "ScheduledRecording list"

definition rec_missing :: error where "rec_missing = ''scheduled recording not found''"

definition RecStore_Load :: "ScheduledRecording json_file \<Rightarrow> recordings \<Rightarrow> error option \<times> recordings" where
  "RecStore_Load = load_slice"

definition rec_entry :: "env \<Rightarrow> ScheduledRecording \<Rightarrow> ScheduledRecording" where
  "rec_entry e r = r\<lparr>sr_ID := or_uuid e (sr_ID r),
     sr_Status := (if sr_Status r = '''' then ''pending'' else sr_Status r),
     sr_CreatedAt := e_now e, sr_UpdatedAt := e_now e\<rparr>"

definition RecStore_Create :: "env \<Rightarrow> ScheduledRecording \<Rightarrow> recordings \<Rightarrow> error option \<times> recordings" where
  "RecStore_Create e r s = (e_save e, s @ [rec_entry e r])"

definition RecStore_GetByID :: "ident \<Rightarrow> recordings \<Rightarrow> error + ScheduledRecording" where
  "RecStore_GetByID i s = not_found rec_missing (find (\<lambda>r. sr_ID r = i) s)"

definition RecStore_List :: "recordings \<Rightarrow> recordings" where
  "RecStore_List s = s"

definition RecStore_ListByUserID :: "ident \<Rightarrow> recordings \<Rightarrow> recordings" where
  "RecStore_ListByUserID u s = filter (\<lambda>r. sr_UserID r = u) s"

definition RecStore_ListPending :: "time \<Rightarrow> recordings \<Rightarrow> recordings" where
  "RecStore_ListPending before s = filter (\<lambda>r. sr_Status r = ''pending'' \<and> \<not> sr_StartAt r > before) s"

definition RecStore_ListByStatus :: "string \<Rightarrow> recordings \<Rightarrow> recordings" where
  "RecStore_ListByStatus status s = filter (\<lambda>r. sr_Status r = status) s"

definition excludeStatus :: "string \<Rightarrow> bool" where
  "excludeStatus st \<longleftrightarrow> st \<in> {''cancelled'', ''failed'', ''completed''}"

definition RecStore_ListByChannelAndTimeRange ::
    "ident \<Rightarrow> ident \<Rightarrow> time \<Rightarrow> time \<Rightarrow> recordings \<Rightarrow> recordings" where
  "RecStore_ListByChannelAndTimeRange channelID userID start stop s =
     filter (\<lambda>r. sr_ChannelID r = channelID \<and> sr_UserID r = userID \<and> \<not> excludeStatus (sr_Status r)
       \<and> sr_StartAt r < stop \<and> sr_StopAt r > start) s"

definition rec_updateField ::
    "env \<Rightarrow> ident \<Rightarrow> (ScheduledRecording \<Rightarrow> ScheduledRecording) \<Rightarrow> recordings \<Rightarrow> error option \<times> recordings" where
  "rec_updateField e i f s =
     (case update_first (\<lambda>r. sr_ID r = i) (\<lambda>r. (f r)\<lparr>sr_UpdatedAt := e_now e\<rparr>) s of
        None \<Rightarrow> (Some rec_missing, s) | Some s' \<Rightarrow> (e_save e, s'))"

definition RecStore_UpdateStatus ::
    "env \<Rightarrow> ident \<Rightarrow> string \<Rightarrow> string \<Rightarrow> recordings \<Rightarrow> error option \<times> recordings" where
  "RecStore_UpdateStatus e i status lastError s =
     rec_updateField e i (\<lambda>r. r\<lparr>sr_Status := status, sr_LastError := lastError\<rparr>) s"

definition RecStore_UpdateRecordingState ::
    "env \<Rightarrow> ident \<Rightarrow> ident \<Rightarrow> ident \<Rightarrow> recordings \<Rightarrow> error option \<times> recordings" where
  "RecStore_UpdateRecordingState e i sessionID segmentID s =
     rec_updateField e i (\<lambda>r. r\<lparr>sr_SessionID := sessionID, sr_SegmentID := segmentID\<rparr>) s"

definition RecStore_Delete :: "env \<Rightarrow> ident \<Rightarrow> recordings \<Rightarrow> error option \<times> recordings" where
  "RecStore_Delete e i s = (case delete_first (\<lambda>r. sr_ID r = i) s of
      None \<Rightarrow> (None, s) | Some s' \<Rightarrow> (e_save e, s'))"

definition RecStore_ClearAndSave :: "env \<Rightarrow> recordings \<Rightarrow> error option \<times> recordings" where
  "RecStore_ClearAndSave e s = (e_save e, [])"

section \<open>The store satisfies its contract\<close>

interpretation recs: creating_store sr_ID "\<lambda>r. r" rec_missing RecStore_GetByID RecStore_Delete
  rec_entry "\<lambda>_ _. None" RecStore_Create
  by unfold_locales
     (simp_all add: RecStore_GetByID_def RecStore_Delete_def RecStore_Create_def option.map_ident)

definition status_put :: "env \<Rightarrow> ident \<times> string \<times> string \<Rightarrow> ScheduledRecording \<Rightarrow> ScheduledRecording" where
  "status_put e a r = r\<lparr>sr_Status := fst (snd a), sr_LastError := snd (snd a), sr_UpdatedAt := e_now e\<rparr>"

definition state_put :: "env \<Rightarrow> ident \<times> ident \<times> ident \<Rightarrow> ScheduledRecording \<Rightarrow> ScheduledRecording" where
  "state_put e a r = r\<lparr>sr_SessionID := fst (snd a), sr_SegmentID := snd (snd a), sr_UpdatedAt := e_now e\<rparr>"

interpretation rec_status: update_law sr_ID rec_missing status_put fst
  "\<lambda>e a. RecStore_UpdateStatus e (fst a) (fst (snd a)) (snd (snd a))"
  by unfold_locales (simp_all add: RecStore_UpdateStatus_def rec_updateField_def status_put_def [abs_def])

interpretation rec_state: update_law sr_ID rec_missing state_put fst
  "\<lambda>e a. RecStore_UpdateRecordingState e (fst a) (fst (snd a)) (snd (snd a))"
  by unfold_locales (simp_all add: RecStore_UpdateRecordingState_def rec_updateField_def state_put_def [abs_def])

end
