(* ===== verification/Scheduler.thy ===== *)
theory Scheduler
  imports RecordingStore ChannelStore
begin

text \<open>
  \<open>pkg/service/scheduler.go\<close> over the store of scheduled recordings. The calls the scheduler
  makes to the on-demand service and to the file system are kept in a trace; what the
  on-demand service answers, the clock at each reading and the outcome of each write are
  inputs.
\<close>

section \<open>The code\<close>

definition RecStatusPending :: string where "RecStatusPending = ''pending''"
definition RecStatusRecording :: string where "RecStatusRecording = ''recording''"
definition RecStatusCompleted :: string where "RecStatusCompleted = ''completed''"
definition RecStatusFailed :: string where "RecStatusFailed = ''failed''"

definition ErrScheduleConflict :: error where
  "ErrScheduleConflict = ''overlapping recording already scheduled''"
definition ErrRecordingNotFound :: error where
  "ErrRecordingNotFound = ''scheduled recording not found''"
definition ErrNotAuthorized :: error where "ErrNotAuthorized = ''not authorized''"

datatype vod_call = StopRecording ident | StartRecording ident | RemoveFile string

text \<open>What \<open>vodService.StartRecording\<close> returned.\<close>

datatype start_outcome = Started | AlreadyRecording | StartFailed error

record scheduler =
  sch_recs :: recordings
  sch_calls :: "vod_call list"

definition call :: "vod_call \<Rightarrow> scheduler \<Rightarrow> scheduler" where
  "call c s = s\<lparr>sch_calls := sch_calls s @ [c]\<rparr>"

definition set_recs :: "recordings \<Rightarrow> scheduler \<Rightarrow> scheduler" where
  "set_recs rs s = s\<lparr>sch_recs := rs\<rparr>"

record start_in =
  si_status :: env
  si_outcome :: start_outcome
  si_failed :: env
  si_state :: env

definition startRecording :: "start_in \<Rightarrow> ScheduledRecording \<Rightarrow> scheduler \<Rightarrow> scheduler" where
  "startRecording i r s =
     (case RecStore_UpdateStatus (si_status i) (sr_ID r) RecStatusRecording '''' (sch_recs s) of
        (Some err, rs) \<Rightarrow> set_recs rs s
      | (None, rs) \<Rightarrow>
          let s = call (StartRecording (sr_ChannelID r)) (set_recs rs s) in
          (case si_outcome i of
             StartFailed err \<Rightarrow>
               set_recs (snd (RecStore_UpdateStatus (si_failed i) (sr_ID r) RecStatusFailed err (sch_recs s))) s
           | _ \<Rightarrow>
               set_recs (snd (RecStore_UpdateRecordingState (si_state i) (sr_ID r) (sr_ChannelID r) ''''
                 (sch_recs s))) s))"

record schedule_in =
  ci_now :: time
  ci_startCutoff :: time
  ci_create :: env
  ci_now_lead :: time
  ci_leadTime :: time
  ci_start :: start_in

text \<open>Scheduling takes two sections of the store's lock: the search for a conflicting recording
  and the creation; other operations can run between them.\<close>

definition Schedule_check ::
    "schedule_in \<Rightarrow> channels \<Rightarrow> ScheduledRecording \<Rightarrow> recordings \<Rightarrow> error option" where
  "Schedule_check i chs r rs =
     (case ChannelStore_GetByID (sr_ChannelID r) chs of
        Inl err \<Rightarrow> Some (''channel not found: '' @ err)
      | Inr channel \<Rightarrow>
          if \<not> ch_IsEnabled channel then Some (''channel '' @ sr_ChannelID r @ '' is disabled'')
          else if sr_StartAt r < ci_now i - ci_startCutoff i
          then Some ''start time is too far in the past''
          else if \<not> sr_StopAt r > sr_StartAt r then Some ''stop time must be after start time''
          else if length (RecStore_ListByChannelAndTimeRange (sr_ChannelID r) (sr_UserID r)
              (sr_StartAt r) (sr_StopAt r) rs) > 0
          then Some ErrScheduleConflict
          else None)"

definition Schedule_create ::
    "schedule_in \<Rightarrow> ScheduledRecording \<Rightarrow> scheduler \<Rightarrow> error option \<times> scheduler" where
  "Schedule_create i r s =
     (case RecStore_Create (ci_create i) r (sch_recs s) of
        (Some err, rs) \<Rightarrow> (Some err, set_recs rs s)
      | (None, rs) \<Rightarrow>
          let s = set_recs rs s; r = rec_entry (ci_create i) r in
          (None, if sr_StartAt r < ci_now_lead i + ci_leadTime i
                 then startRecording (ci_start i) r s else s))"

definition Schedule ::
    "schedule_in \<Rightarrow> channels \<Rightarrow> ScheduledRecording \<Rightarrow> scheduler \<Rightarrow> error option \<times> scheduler" where
  "Schedule i chs r s =
     (case Schedule_check i chs r (sch_recs s) of
        Some err \<Rightarrow> (Some err, s)
      | None \<Rightarrow> Schedule_create i r s)"

definition Scheduler_Delete ::
    "env \<Rightarrow> ident \<Rightarrow> ident \<Rightarrow> bool \<Rightarrow> scheduler \<Rightarrow> error option \<times> scheduler" where
  "Scheduler_Delete e i userID isAdmin s =
     (case RecStore_GetByID i (sch_recs s) of
        Inl _ \<Rightarrow> (Some ErrRecordingNotFound, s)
      | Inr r \<Rightarrow>
          if \<not> isAdmin \<and> sr_UserID r \<noteq> userID then (Some ErrNotAuthorized, s)
          else
            let s = (if sr_Status r = RecStatusRecording then call (StopRecording (sr_ChannelID r)) s else s);
                s = (if sr_FilePath r \<noteq> '''' then call (RemoveFile (sr_FilePath r)) s else s);
                (err, rs) = RecStore_Delete e i (sch_recs s)
            in (err, set_recs rs s))"

definition Scheduler_List :: "ident \<Rightarrow> bool \<Rightarrow> scheduler \<Rightarrow> recordings" where
  "Scheduler_List userID isAdmin s =
     (if isAdmin then RecStore_List (sch_recs s) else RecStore_ListByUserID userID (sch_recs s))"

definition Scheduler_Get :: "ident \<Rightarrow> ident \<Rightarrow> bool \<Rightarrow> scheduler \<Rightarrow> error + ScheduledRecording" where
  "Scheduler_Get i userID isAdmin s =
     (case RecStore_GetByID i (sch_recs s) of
        Inl _ \<Rightarrow> Inl ErrRecordingNotFound
      | Inr r \<Rightarrow> if \<not> isAdmin \<and> sr_UserID r \<noteq> userID then Inl ErrNotAuthorized else Inr r)"

fun drop_missed :: "(nat \<Rightarrow> env) \<Rightarrow> time \<Rightarrow> nat \<Rightarrow> recordings \<Rightarrow> scheduler \<Rightarrow> scheduler" where
  "drop_missed es now k [] s = s"
| "drop_missed es now k (r # rs) s =
     drop_missed es now (Suc k) rs
       (if sr_StopAt r < now then set_recs (snd (RecStore_Delete (es k) (sr_ID r) (sch_recs s))) s else s)"

fun start_all :: "(nat \<Rightarrow> start_in) \<Rightarrow> nat \<Rightarrow> recordings \<Rightarrow> scheduler \<Rightarrow> scheduler" where
  "start_all is k [] s = s"
| "start_all is k (r # rs) s = start_all is (Suc k) rs (startRecording (is k) r s)"

definition startPendingRecordings :: "(nat \<Rightarrow> env) \<Rightarrow> (nat \<Rightarrow> start_in) \<Rightarrow> time \<Rightarrow> scheduler \<Rightarrow> scheduler" where
  "startPendingRecordings es is now s =
     (let s = drop_missed es now 0 (RecStore_ListByStatus RecStatusPending (sch_recs s)) s
      in start_all is 0 (RecStore_ListPending now (sch_recs s)) s)"

record monitor_in =
  mi_now :: time
  mi_done :: env
  mi_session :: bool
  mi_now_lost :: time
  mi_lost :: env
  mi_start :: start_in

definition monitor_one :: "monitor_in \<Rightarrow> ScheduledRecording \<Rightarrow> scheduler \<Rightarrow> scheduler" where
  "monitor_one i r s =
     (if sr_StopAt r < mi_now i then
        let s = call (StopRecording (sr_ChannelID r)) s in
        set_recs (snd (RecStore_UpdateStatus (mi_done i) (sr_ID r) RecStatusCompleted '''' (sch_recs s))) s
      else if \<not> mi_session i then
        (if sr_StopAt r < mi_now_lost i
         then set_recs (snd (RecStore_UpdateStatus (mi_lost i) (sr_ID r) RecStatusFailed
           ''recording session lost'' (sch_recs s))) s
         else startRecording (mi_start i) r s)
      else s)"

fun monitor_all :: "(nat \<Rightarrow> monitor_in) \<Rightarrow> nat \<Rightarrow> recordings \<Rightarrow> scheduler \<Rightarrow> scheduler" where
  "monitor_all is k [] s = s"
| "monitor_all is k (r # rs) s = monitor_all is (Suc k) rs (monitor_one (is k) r s)"

definition monitorActiveRecordings :: "(nat \<Rightarrow> monitor_in) \<Rightarrow> scheduler \<Rightarrow> scheduler" where
  "monitorActiveRecordings is s = monitor_all is 0 (RecStore_ListByStatus RecStatusRecording (sch_recs s)) s"

record tick_in =
  ti_now :: time
  ti_missed :: "nat \<Rightarrow> env"
  ti_starts :: "nat \<Rightarrow> start_in"
  ti_monitor :: "nat \<Rightarrow> monitor_in"

definition Tick :: "tick_in \<Rightarrow> scheduler \<Rightarrow> scheduler" where
  "Tick i s = monitorActiveRecordings (ti_monitor i)
     (startPendingRecordings (ti_missed i) (ti_starts i) (ti_now i) s)"

section \<open>How the recordings change\<close>

definition active :: "ScheduledRecording \<Rightarrow> bool" where
  "active r \<longleftrightarrow> \<not> excludeStatus (sr_Status r)"

definition slot :: "ScheduledRecording \<Rightarrow> ident \<times> ident \<times> time \<times> time" where
  "slot r = (sr_ChannelID r, sr_UserID r, sr_StartAt r, sr_StopAt r)"

text \<open>Every recording of \<open>s'\<close> is one of \<open>s\<close> with the same identifier and slot, active only if
  it was, pending only if it was, and unchanged unless its identifier is in \<open>I\<close>.\<close>

definition covered :: "ident set \<Rightarrow> recordings \<Rightarrow> recordings \<Rightarrow> bool" where
  "covered I s s' \<longleftrightarrow> (\<forall>r' \<in> set s'. (sr_ID r' \<notin> I \<longrightarrow> r' \<in> set s)
     \<and> (\<exists>r \<in> set s. sr_ID r = sr_ID r' \<and> slot r = slot r' \<and> (active r' \<longrightarrow> active r)
          \<and> (sr_Status r' = RecStatusPending \<longrightarrow> sr_Status r = RecStatusPending)))"

lemma covered_subset: "set s' \<subseteq> set s \<Longrightarrow> covered I s s'"
  by (auto simp: covered_def)

lemma covered_trans: "covered I s s' \<Longrightarrow> covered J s' s'' \<Longrightarrow> covered (I \<union> J) s s''"
  unfolding covered_def by (metis Un_iff)

lemma covered_trans_same: "covered I s s' \<Longrightarrow> covered I s' s'' \<Longrightarrow> covered I s s''"
  using covered_trans [of I s s' I s''] by simp

lemma covered_mono: "covered I s s' \<Longrightarrow> I \<subseteq> J \<Longrightarrow> covered J s s'"
  unfolding covered_def by blast

lemma covered_status:
  assumes "\<not> excludeStatus st \<longrightarrow> (\<forall>r \<in> set s. sr_ID r = i \<longrightarrow> active r)" and "st \<noteq> RecStatusPending"
  shows "covered {i} s (snd (RecStore_UpdateStatus e i st le s))"
  using rec_status.update_set [of e "(i, st, le)" s] assms
  by (fastforce simp: covered_def status_put_def slot_def active_def)

lemma covered_state: "covered {i} s (snd (RecStore_UpdateRecordingState e i a b s))"
  using rec_state.update_set [of e "(i, a, b)" s]
  by (fastforce simp: covered_def state_put_def slot_def active_def)

lemma covered_delete: "covered I s (snd (RecStore_Delete e i s))"
  by (rule covered_subset) (rule recs.delete_subset)

lemma status_ids: "map sr_ID (snd (RecStore_UpdateStatus e i st le s)) = map sr_ID s"
  using rec_status.update_keys [of e "(i, st, le)" s] by simp

lemma state_ids: "map sr_ID (snd (RecStore_UpdateRecordingState e i a b s)) = map sr_ID s"
  using rec_state.update_keys [of e "(i, a, b)" s] by simp

lemma find_unique: "distinct (map sr_ID s) \<Longrightarrow> r \<in> set s \<Longrightarrow> find (\<lambda>q. sr_ID q = sr_ID r) s = Some r"
  by (induction s) auto

lemma status_set:
  assumes "distinct (map sr_ID s)" and "r' \<in> set (snd (RecStore_UpdateStatus e i st le s))" and "sr_ID r' = i"
  shows "sr_Status r' = st"
proof -
  have "distinct (map sr_ID (snd (RecStore_UpdateStatus e i st le s)))" using assms(1) by (simp add: status_ids)
  from find_unique [OF this assms(2)] have "Some r' = map_option (status_put e (i, st, le)) (find (\<lambda>q. sr_ID q = i) s)"
    using rec_status.update_find [of i e "(i, st, le)" s] assms(3) by simp
  then show ?thesis by (cases "find (\<lambda>q. sr_ID q = i) s") (simp_all add: status_put_def)
qed

lemma state_status:
  assumes "r' \<in> set (snd (RecStore_UpdateRecordingState e i a b s))"
  shows "\<exists>r \<in> set s. sr_ID r = sr_ID r' \<and> sr_Status r = sr_Status r'"
  using rec_state.update_set [of e "(i, a, b)" s] assms by (fastforce simp: state_put_def)

section \<open>One start\<close>

lemma startRecording_recs:
  "sch_recs (startRecording i q s) =
     (let u = RecStore_UpdateStatus (si_status i) (sr_ID q) RecStatusRecording '''' (sch_recs s) in
      if fst u \<noteq> None then snd u else case si_outcome i of
        StartFailed x \<Rightarrow> snd (RecStore_UpdateStatus (si_failed i) (sr_ID q) RecStatusFailed x (snd u))
      | _ \<Rightarrow> snd (RecStore_UpdateRecordingState (si_state i) (sr_ID q) (sr_ChannelID q) '''' (snd u)))"
  by (auto simp: startRecording_def set_recs_def call_def Let_def split: prod.split option.split start_outcome.split)

lemma start_covered:
  assumes "\<forall>r \<in> set (sch_recs s). sr_ID r = sr_ID q \<longrightarrow> active r"
  shows "covered {sr_ID q} (sch_recs s) (sch_recs (startRecording i q s))"
proof -
  let ?rs = "snd (RecStore_UpdateStatus (si_status i) (sr_ID q) RecStatusRecording '''' (sch_recs s))"
  have 1: "covered {sr_ID q} (sch_recs s) ?rs" using assms by (simp add: covered_status RecStatusPending_def RecStatusRecording_def)
  have "covered {sr_ID q} ?rs (snd (RecStore_UpdateStatus e (sr_ID q) RecStatusFailed x ?rs))" for e x
    by (rule covered_status) (simp_all add: excludeStatus_def RecStatusFailed_def RecStatusPending_def)
  with covered_trans_same [OF 1] covered_trans_same [OF 1 covered_state] 1 show ?thesis
    by (auto simp: startRecording_recs Let_def split: start_outcome.split)
qed

lemma start_ids: "map sr_ID (sch_recs (startRecording i q s)) = map sr_ID (sch_recs s)"
  by (simp add: startRecording_recs Let_def status_ids state_ids split: start_outcome.split)

lemma start_status:
  assumes "distinct (map sr_ID (sch_recs s))" and "r' \<in> set (sch_recs (startRecording i q s))"
    and "sr_ID r' = sr_ID q"
  shows "sr_Status r' \<in> {RecStatusRecording, RecStatusFailed}"
proof -
  let ?rs = "snd (RecStore_UpdateStatus (si_status i) (sr_ID q) RecStatusRecording '''' (sch_recs s))"
  have d: "distinct (map sr_ID ?rs)" using assms(1) by (simp add: status_ids)
  have 1: "sr_Status r = RecStatusRecording" if "r \<in> set ?rs" "sr_ID r = sr_ID q" for r
    using status_set [OF assms(1) that] .
  consider "r' \<in> set ?rs"
    | x where "r' \<in> set (snd (RecStore_UpdateStatus (si_failed i) (sr_ID q) RecStatusFailed x ?rs))"
    | "r' \<in> set (snd (RecStore_UpdateRecordingState (si_state i) (sr_ID q) (sr_ChannelID q) '''' ?rs))"
    using assms(2) by (auto simp: startRecording_recs Let_def split: if_splits start_outcome.splits)
  then show ?thesis
  proof cases
    case 2
    with status_set [OF d _ assms(3)] show ?thesis by blast
  next
    case 3
    from state_status [OF this] 1 assms(3) show ?thesis by auto
  qed (use 1 assms(3) in blast)
qed

section \<open>The loops over recordings\<close>

definition loop_ready :: "recordings \<Rightarrow> scheduler \<Rightarrow> bool" where
  "loop_ready qs s \<longleftrightarrow> distinct (map sr_ID qs) \<and> distinct (map sr_ID (sch_recs s)) \<and>
     (\<forall>q \<in> set qs. \<forall>r \<in> set (sch_recs s). sr_ID r = sr_ID q \<longrightarrow> active r \<and> slot r = slot q)"

text \<open>A loop that runs a body for each recording of a list, where the body changes only the
  recording it is given and activates none that was not active.\<close>

locale rec_loop =
  fixes body :: "nat \<Rightarrow> ScheduledRecording \<Rightarrow> scheduler \<Rightarrow> scheduler"
    and loop :: "nat \<Rightarrow> recordings \<Rightarrow> scheduler \<Rightarrow> scheduler"
  assumes loop_Nil: "loop k [] s = s"
    and loop_Cons: "loop k (q # qs) s = loop (Suc k) qs (body k q s)"
    and body_covered: "\<forall>r \<in> set (sch_recs s). sr_ID r = sr_ID q \<longrightarrow> active r \<Longrightarrow>
      covered {sr_ID q} (sch_recs s) (sch_recs (body k q s))"
    and body_ids: "map sr_ID (sch_recs (body k q s)) = map sr_ID (sch_recs s)"
begin

lemma loop_ids: "map sr_ID (sch_recs (loop k qs s)) = map sr_ID (sch_recs s)"
  by (induction qs arbitrary: k s) (simp_all add: loop_Nil loop_Cons body_ids)

lemma ready_step: "loop_ready (q # qs) s \<Longrightarrow> loop_ready qs (body k q s)"
proof -
  assume r: "loop_ready (q # qs) s"
  then have c: "covered {sr_ID q} (sch_recs s) (sch_recs (body k q s))"
    by (intro body_covered) (auto simp: loop_ready_def)
  have "active r' \<and> slot r' = slot p"
    if "p \<in> set qs" "r' \<in> set (sch_recs (body k q s))" "sr_ID r' = sr_ID p" for p r'
  proof -
    from that r have "sr_ID r' \<noteq> sr_ID q" by (force simp: loop_ready_def)
    with c that(2) have "r' \<in> set (sch_recs s)" by (auto simp: covered_def)
    with r that show ?thesis by (auto simp: loop_ready_def)
  qed
  with r show ?thesis by (auto simp: loop_ready_def body_ids)
qed

lemma loop_covered: "loop_ready qs s \<Longrightarrow> covered (sr_ID ` set qs) (sch_recs s) (sch_recs (loop k qs s))"
proof (induction qs arbitrary: k s)
  case Nil
  show ?case by (simp add: loop_Nil covered_subset)
next
  case (Cons q qs)
  then have "covered {sr_ID q} (sch_recs s) (sch_recs (body k q s))"
    by (intro body_covered) (auto simp: loop_ready_def)
  from covered_trans [OF this Cons.IH [OF ready_step [OF Cons.prems]]] show ?case
    by (simp add: loop_Cons)
qed

text \<open>What the body makes true of its recording holds of it after the loop.\<close>

lemma loop_post:
  assumes "\<And>k q s r. q \<in> set qs \<Longrightarrow> distinct (map sr_ID (sch_recs s)) \<Longrightarrow>
      \<forall>r \<in> set (sch_recs s). sr_ID r = sr_ID q \<longrightarrow> active r \<and> slot r = slot q \<Longrightarrow>
      r \<in> set (sch_recs (body k q s)) \<Longrightarrow> sr_ID r = sr_ID q \<Longrightarrow> P r"
    and "loop_ready qs s" and "r \<in> set (sch_recs (loop k qs s))" and "sr_ID r \<in> sr_ID ` set qs"
  shows "P r"
  using assms
proof (induction qs arbitrary: k s)
  case (Cons q qs)
  have ready: "loop_ready qs (body k q s)" by (rule ready_step [OF Cons.prems(2)])
  have r: "r \<in> set (sch_recs (loop (Suc k) qs (body k q s)))" using Cons.prems(3) by (simp add: loop_Cons)
  show ?case
  proof (cases "sr_ID r \<in> sr_ID ` set qs")
    case True
    show ?thesis by (rule Cons.IH [OF _ ready r True]) (rule Cons.prems(1), simp_all)
  next
    case False
    with loop_covered [OF ready] r have "r \<in> set (sch_recs (body k q s))" by (auto simp: covered_def)
    then show ?thesis
      using Cons.prems False by (intro Cons.prems(1) [of q s r k]) (auto simp: loop_ready_def)
  qed
qed simp

end

interpretation starting: rec_loop "\<lambda>k. startRecording (is k)" "start_all is" for "is"
  by unfold_locales (simp_all add: start_covered start_ids)

lemma monitor_covered:
  assumes "\<forall>r \<in> set (sch_recs s). sr_ID r = sr_ID q \<longrightarrow> active r"
  shows "covered {sr_ID q} (sch_recs s) (sch_recs (monitor_one i q s))"
proof -
  have "covered {sr_ID q} (sch_recs s) (snd (RecStore_UpdateStatus e (sr_ID q) st x (sch_recs s)))"
    if "excludeStatus st" for e st x
    using that by (intro covered_status) (auto simp: excludeStatus_def RecStatusPending_def)
  then show ?thesis
    using start_covered [OF assms]
    by (auto simp: monitor_one_def set_recs_def call_def excludeStatus_def RecStatusCompleted_def
        RecStatusFailed_def covered_subset Let_def)
qed

lemma monitor_ids: "map sr_ID (sch_recs (monitor_one i q s)) = map sr_ID (sch_recs s)"
  by (simp add: monitor_one_def set_recs_def call_def status_ids start_ids Let_def)

interpretation monitoring: rec_loop "\<lambda>k. monitor_one (is k)" "monitor_all is" for "is"
  by unfold_locales (simp_all add: monitor_covered monitor_ids)

section \<open>The invariant: no two active recordings overlap\<close>

definition overlap :: "ScheduledRecording \<Rightarrow> ScheduledRecording \<Rightarrow> bool" where
  "overlap a b \<longleftrightarrow> sr_ChannelID a = sr_ChannelID b \<and> sr_UserID a = sr_UserID b
     \<and> sr_StartAt a < sr_StopAt b \<and> sr_StartAt b < sr_StopAt a"

definition schedule_inv :: "recordings \<Rightarrow> bool" where
  "schedule_inv s \<longleftrightarrow> distinct (map sr_ID s) \<and>
     (\<forall>a \<in> set s. \<forall>b \<in> set s. active a \<longrightarrow> active b \<longrightarrow> sr_ID a \<noteq> sr_ID b \<longrightarrow> \<not> overlap a b)"

lemma schedule_inv_covered:
  assumes "schedule_inv s" and "covered I s s'" and "distinct (map sr_ID s')"
  shows "schedule_inv s'"
  unfolding schedule_inv_def
proof (intro conjI ballI impI assms(3))
  fix a b
  assume "a \<in> set s'" "b \<in> set s'" "active a" "active b" "sr_ID a \<noteq> sr_ID b"
  moreover from this assms(2) obtain a' b' where "a' \<in> set s" "b' \<in> set s" "active a'" "active b'"
    "sr_ID a' = sr_ID a" "sr_ID b' = sr_ID b" "slot a' = slot a" "slot b' = slot b"
    unfolding covered_def by metis
  ultimately show "\<not> overlap a b"
    using assms(1) unfolding schedule_inv_def overlap_def slot_def by (metis prod.inject)
qed

lemma distinct_filter_ids: "distinct (map sr_ID s) \<Longrightarrow> distinct (map sr_ID (filter P s))"
  by (simp add: distinct_map_filter)

lemma ready_filter:
  assumes "distinct (map sr_ID (sch_recs s))" and "\<And>r. P r \<Longrightarrow> active r"
  shows "loop_ready (filter P (sch_recs s)) s"
proof -
  have "r = q" if "q \<in> set (sch_recs s)" "r \<in> set (sch_recs s)" "sr_ID r = sr_ID q" for q r
    using assms(1) that by (auto simp: distinct_map inj_on_def)
  with assms show ?thesis by (auto simp: loop_ready_def distinct_filter_ids)
qed

lemma pending_active: "sr_Status r = RecStatusPending \<Longrightarrow> active r"
  and recording_active: "sr_Status r = RecStatusRecording \<Longrightarrow> active r"
  by (simp_all add: active_def excludeStatus_def RecStatusPending_def RecStatusRecording_def)

lemma drop_missed_ok:
  "distinct (map sr_ID (sch_recs s)) \<Longrightarrow>
     set (sch_recs (drop_missed es now k rs s)) \<subseteq> set (sch_recs s)
     \<and> distinct (map sr_ID (sch_recs (drop_missed es now k rs s)))"
proof (induction rs arbitrary: k s)
  case (Cons r rs)
  let ?s = "if sr_StopAt r < now then set_recs (snd (RecStore_Delete (es k) (sr_ID r) (sch_recs s))) s else s"
  have "set (sch_recs ?s) \<subseteq> set (sch_recs s) \<and> distinct (map sr_ID (sch_recs ?s))"
    using Cons.prems recs.delete_subset recs.delete_unique [unfolded recs.unique_keys_def, of "sch_recs s"]
    by (auto simp: set_recs_def)
  with Cons.IH [of ?s "Suc k"] show ?case by auto
qed simp

lemma startPending_ok:
  assumes "schedule_inv (sch_recs s)"
  shows "schedule_inv (sch_recs (startPendingRecordings es is now s))"
    and "\<forall>r \<in> set (sch_recs (startPendingRecordings es is now s)). sr_Status r = RecStatusPending \<longrightarrow> now < sr_StartAt r"
proof -
  let ?d = "drop_missed es now 0 (RecStore_ListByStatus RecStatusPending (sch_recs s)) s"
  let ?q = "RecStore_ListPending now (sch_recs ?d)"
  let ?e = "start_all is 0 ?q ?d"
  have d: "set (sch_recs ?d) \<subseteq> set (sch_recs s)" "distinct (map sr_ID (sch_recs ?d))"
    using drop_missed_ok assms by (simp_all add: schedule_inv_def)
  have inv: "schedule_inv (sch_recs ?d)"
    by (rule schedule_inv_covered [OF assms covered_subset [OF d(1), of "{}"] d(2)])
  have "active r" if "sr_Status r = ''pending'' \<and> \<not> sr_StartAt r > now" for r
    using that by (simp add: active_def excludeStatus_def)
  from ready_filter [OF d(2) this] have ready: "loop_ready ?q ?d" unfolding RecStore_ListPending_def .
  have cov: "covered (sr_ID ` set ?q) (sch_recs ?d) (sch_recs ?e)" by (rule starting.loop_covered [OF ready])
  show "schedule_inv (sch_recs (startPendingRecordings es is now s))"
    using schedule_inv_covered [OF inv cov] d(2)
    by (simp add: startPendingRecordings_def Let_def starting.loop_ids)
  have "now < sr_StartAt r" if r: "r \<in> set (sch_recs ?e)" "sr_Status r = RecStatusPending" for r
  proof -
    have "sr_ID r \<notin> sr_ID ` set ?q"
    proof
      assume "sr_ID r \<in> sr_ID ` set ?q"
      from starting.loop_post [OF _ ready r(1) this, where P = "\<lambda>r. sr_Status r \<noteq> RecStatusPending"] start_status
      have "sr_Status r \<noteq> RecStatusPending"
        by (fastforce simp: RecStatusPending_def RecStatusRecording_def RecStatusFailed_def)
      with r(2) show False by simp
    qed
    with cov r have "r \<in> set (sch_recs ?d)" "r \<notin> set ?q" by (auto simp: covered_def)
    with r(2) show ?thesis by (auto simp: RecStore_ListPending_def RecStatusPending_def)
  qed
  then show "\<forall>r \<in> set (sch_recs (startPendingRecordings es is now s)). sr_Status r = RecStatusPending \<longrightarrow> now < sr_StartAt r"
    by (simp add: startPendingRecordings_def Let_def)
qed

lemma monitor_one_post:
  assumes "distinct (map sr_ID (sch_recs s))" and "r \<in> set (sch_recs (monitor_one i q s))" "sr_ID r = sr_ID q"
    and "\<forall>r \<in> set (sch_recs s). sr_ID r = sr_ID q \<longrightarrow> active r \<and> slot r = slot q"
    and "sr_Status r = RecStatusRecording"
  shows "mi_now i \<le> sr_StopAt r"
proof (cases "sr_StopAt q < mi_now i")
  case True
  with status_set [OF assms(1) _ assms(3)] assms(2,5) show ?thesis
    by (fastforce simp: monitor_one_def set_recs_def call_def RecStatusCompleted_def RecStatusRecording_def Let_def)
next
  case False
  have "covered {sr_ID q} (sch_recs s) (sch_recs (monitor_one i q s))"
    using assms(4) by (intro monitor_covered) blast
  with assms(2-4) have "slot r = slot q" unfolding covered_def by metis
  with False show ?thesis by (simp add: slot_def)
qed

lemma monitor_ok:
  assumes "schedule_inv (sch_recs s)" and "\<forall>k. now \<le> mi_now (is k)"
  shows "\<forall>r \<in> set (sch_recs (monitorActiveRecordings is s)). sr_Status r = RecStatusRecording \<longrightarrow> now \<le> sr_StopAt r"
    and "covered (sr_ID ` set (sch_recs s)) (sch_recs s) (sch_recs (monitorActiveRecordings is s))"
proof -
  let ?q = "RecStore_ListByStatus RecStatusRecording (sch_recs s)"
  have d: "distinct (map sr_ID (sch_recs s))" using assms(1) by (simp add: schedule_inv_def)
  from ready_filter [OF d recording_active] have ready: "loop_ready ?q s"
    unfolding RecStore_ListByStatus_def .
  have cov: "covered (sr_ID ` set ?q) (sch_recs s) (sch_recs (monitorActiveRecordings is s))"
    unfolding monitorActiveRecordings_def by (rule monitoring.loop_covered [OF ready])
  then show "covered (sr_ID ` set (sch_recs s)) (sch_recs s) (sch_recs (monitorActiveRecordings is s))"
    by (rule covered_mono) (auto simp: RecStore_ListByStatus_def)
  show "\<forall>r \<in> set (sch_recs (monitorActiveRecordings is s)). sr_Status r = RecStatusRecording \<longrightarrow> now \<le> sr_StopAt r"
  proof (intro ballI impI)
    fix r
    assume r: "r \<in> set (sch_recs (monitorActiveRecordings is s))" "sr_Status r = RecStatusRecording"
    have mem: "sr_ID r \<in> sr_ID ` set ?q"
    proof (rule ccontr)
      assume n: "sr_ID r \<notin> sr_ID ` set ?q"
      with cov r have "r \<in> set ?q" by (auto simp: covered_def RecStore_ListByStatus_def)
      with n show False by blast
    qed
    have "sr_Status r = RecStatusRecording \<longrightarrow> now \<le> sr_StopAt r"
    proof (rule monitoring.loop_post [OF _ ready r(1) [unfolded monitorActiveRecordings_def] mem], goal_cases)
      case (1 k q s' r')
      then have "mi_now (is k) \<le> sr_StopAt r'" if "sr_Status r' = RecStatusRecording"
        using monitor_one_post [of s' r' "is k" q] that by blast
      with assms(2) show ?case using order.trans by blast
    qed
    with r(2) show "now \<le> sr_StopAt r" by simp
  qed
qed

section \<open>Every interleaving of the operations\<close>

text \<open>The steps are the single calls of the store, each one section of its lock, in any order:
  a request that passes the check, the creation it then makes, the deletion of a recording
  (by its owner or as missed), the end of one (completed or failed), the note of its session,
  and the start of one. \<open>sx_asked\<close> holds the requests between their check and their creation.\<close>

record sched_state =
  sx_recs :: recordings
  sx_asked :: "ScheduledRecording list"

definition sx_start :: sched_state where "sx_start = \<lparr>sx_recs = [], sx_asked = []\<rparr>"

inductive sched_step :: "sched_state \<Rightarrow> sched_state \<Rightarrow> bool" where
  asked: "Schedule_check i chs r (sx_recs s) = None \<Longrightarrow> sr_Status r = '''' \<Longrightarrow>
    sched_step s (s\<lparr>sx_asked := r # sx_asked s\<rparr>)"
| created: "r \<in> set (sx_asked s) \<Longrightarrow> or_uuid e (sr_ID r) \<notin> sr_ID ` set (sx_recs s) \<Longrightarrow>
    sched_step s \<lparr>sx_recs = snd (RecStore_Create e r (sx_recs s)), sx_asked = remove1 r (sx_asked s)\<rparr>"
| deleted: "sched_step s (s\<lparr>sx_recs := snd (RecStore_Delete e i (sx_recs s))\<rparr>)"
| ended: "st \<in> {RecStatusCompleted, RecStatusFailed} \<Longrightarrow>
    sched_step s (s\<lparr>sx_recs := snd (RecStore_UpdateStatus e i st le (sx_recs s))\<rparr>)"
| noted: "sched_step s (s\<lparr>sx_recs := snd (RecStore_UpdateRecordingState e i a b (sx_recs s))\<rparr>)"
| started: "sched_step s (s\<lparr>sx_recs := snd (RecStore_UpdateStatus e i RecStatusRecording '''' (sx_recs s))\<rparr>)"

inductive sched_reach :: "(sched_state \<Rightarrow> sched_state \<Rightarrow> bool) \<Rightarrow> sched_state \<Rightarrow> bool" for P where
  init: "sched_reach P sx_start"
| step: "sched_reach P s \<Longrightarrow> sched_step s s' \<Longrightarrow> P s s' \<Longrightarrow> sched_reach P s'"

text \<open>What the code leaves to its callers: one scheduling request at a time, and no start of a
  recording that has ended in the meantime.\<close>

definition orderly :: "sched_state \<Rightarrow> sched_state \<Rightarrow> bool" where
  "orderly s s' \<longleftrightarrow> length (sx_asked s') \<le> 1 \<and>
     (\<forall>a \<in> set (sx_recs s'). \<forall>b \<in> set (sx_recs s). sr_ID a = sr_ID b \<and> active a \<longrightarrow> active b)"








section \<open>The operations are made of these steps\<close>

definition alone :: "recordings \<Rightarrow> sched_state" where "alone rs = \<lparr>sx_recs = rs, sx_asked = []\<rparr>"

definition sched_run :: "recordings \<Rightarrow> recordings \<Rightarrow> bool" where
  "sched_run rs rs' \<longleftrightarrow> (\<lambda>s s'. sched_step s s' \<and> orderly s s')\<^sup>*\<^sup>* (alone rs) (alone rs')"

lemma run_refl [simp]: "sched_run rs rs" by (simp add: sched_run_def)

lemma run_trans [trans]: "sched_run a b \<Longrightarrow> sched_run b c \<Longrightarrow> sched_run a c"
  by (simp add: sched_run_def)

lemma run_step:
  assumes "sched_step (alone rs) (alone rs')" and "covered I rs rs'" and "distinct (map sr_ID rs)"
  shows "sched_run rs rs'"
proof -
  have "active b" if ab: "a \<in> set rs'" "b \<in> set rs" "sr_ID a = sr_ID b" "active a" for a b
  proof -
    from assms(2) ab(1,4) obtain c where "c \<in> set rs" "sr_ID c = sr_ID a" "active c"
      unfolding covered_def by metis
    with assms(3) ab(2,3) show ?thesis by (metis find_unique option.inject)
  qed
  then have "orderly (alone rs) (alone rs')" by (auto simp: orderly_def alone_def)
  with assms(1) show ?thesis by (simp add: sched_run_def r_into_rtranclp)
qed

lemma alone_steps:
  "sched_step (alone rs) (alone (snd (RecStore_Delete e i rs)))"
  "st \<in> {RecStatusCompleted, RecStatusFailed, RecStatusRecording} \<Longrightarrow> st = RecStatusRecording \<longrightarrow> le = '''' \<Longrightarrow>
     sched_step (alone rs) (alone (snd (RecStore_UpdateStatus e i st le rs)))"
  "sched_step (alone rs) (alone (snd (RecStore_UpdateRecordingState e i a b rs)))"
  using sched_step.deleted [of "alone rs"] sched_step.ended [of _ "alone rs"] sched_step.noted [of "alone rs"]
    sched_step.started [of "alone rs"]
  by (auto simp: alone_def)

lemma run_delete: "distinct (map sr_ID rs) \<Longrightarrow> sched_run rs (snd (RecStore_Delete e i rs))"
  by (rule run_step [OF alone_steps(1) covered_delete [of "{}"]])

lemma run_end:
  "distinct (map sr_ID rs) \<Longrightarrow> st \<in> {RecStatusCompleted, RecStatusFailed} \<Longrightarrow>
     sched_run rs (snd (RecStore_UpdateStatus e i st le rs))"
  by (rule run_step [OF alone_steps(2) covered_status])
     (auto simp: excludeStatus_def RecStatusCompleted_def RecStatusFailed_def RecStatusPending_def RecStatusRecording_def)

lemma run_start:
  assumes "distinct (map sr_ID (sch_recs s))" and "\<forall>r \<in> set (sch_recs s). sr_ID r = sr_ID q \<longrightarrow> active r"
  shows "sched_run (sch_recs s) (sch_recs (startRecording i q s))"
proof -
  let ?rs = "snd (RecStore_UpdateStatus (si_status i) (sr_ID q) RecStatusRecording '''' (sch_recs s))"
  have d: "distinct (map sr_ID ?rs)" using assms(1) by (simp add: status_ids)
  have 1: "sched_run (sch_recs s) ?rs"
    by (rule run_step [OF alone_steps(2) covered_status])
       (use assms in \<open>auto simp: RecStatusRecording_def RecStatusPending_def\<close>)
  have "sched_run ?rs (snd (RecStore_UpdateStatus (si_failed i) (sr_ID q) RecStatusFailed x ?rs))" for x
    by (rule run_end [OF d]) simp
  moreover have "sched_run ?rs (snd (RecStore_UpdateRecordingState (si_state i) (sr_ID q) (sr_ChannelID q) '''' ?rs))"
    by (rule run_step [OF alone_steps(3) covered_state d])
  ultimately show ?thesis
    using 1 run_trans [OF 1] by (auto simp: startRecording_recs Let_def split: start_outcome.split)
qed

lemma run_monitor:
  assumes "distinct (map sr_ID (sch_recs s))" and "\<forall>r \<in> set (sch_recs s). sr_ID r = sr_ID q \<longrightarrow> active r"
  shows "sched_run (sch_recs s) (sch_recs (monitor_one i q s))"
  using assms run_end [OF assms(1)] run_start [OF assms]
  by (auto simp: monitor_one_def set_recs_def call_def Let_def)

text \<open>A loop whose body is a run of steps is one.\<close>

locale rec_loop_run = rec_loop +
  assumes body_run: "distinct (map sr_ID (sch_recs s)) \<Longrightarrow>
    \<forall>r \<in> set (sch_recs s). sr_ID r = sr_ID q \<longrightarrow> active r \<Longrightarrow>
    sched_run (sch_recs s) (sch_recs (body k q s))"
begin

lemma loop_run: "loop_ready qs s \<Longrightarrow> sched_run (sch_recs s) (sch_recs (loop k qs s))"
proof (induction qs arbitrary: k s)
  case (Cons q qs)
  then have "sched_run (sch_recs s) (sch_recs (body k q s))"
    by (intro body_run) (auto simp: loop_ready_def)
  from run_trans [OF this Cons.IH [OF ready_step [OF Cons.prems]]] show ?case by (simp add: loop_Cons)
qed (simp add: loop_Nil)

end

interpretation starting_run: rec_loop_run "\<lambda>k. startRecording (is k)" "start_all is" for "is"
  by unfold_locales (rule run_start)

interpretation monitoring_run: rec_loop_run "\<lambda>k. monitor_one (is k)" "monitor_all is" for "is"
  by unfold_locales (rule run_monitor)

lemma drop_missed_run:
  "distinct (map sr_ID (sch_recs s)) \<Longrightarrow> sched_run (sch_recs s) (sch_recs (drop_missed es now k rs s))"
proof (induction rs arbitrary: k s)
  case (Cons r rs)
  let ?s = "if sr_StopAt r < now then set_recs (snd (RecStore_Delete (es k) (sr_ID r) (sch_recs s))) s else s"
  have "sched_run (sch_recs s) (sch_recs ?s)" "distinct (map sr_ID (sch_recs ?s))"
    using Cons.prems run_delete [OF Cons.prems]
      recs.delete_unique [unfolded recs.unique_keys_def, of "sch_recs s"]
    by (auto simp: set_recs_def)
  from run_trans [OF this(1) Cons.IH [OF this(2)]] show ?case by simp
qed simp

lemma ready_recording:
  "distinct (map sr_ID (sch_recs s)) \<Longrightarrow> loop_ready (RecStore_ListByStatus RecStatusRecording (sch_recs s)) s"
  unfolding RecStore_ListByStatus_def by (rule ready_filter [OF _ recording_active])

lemma Tick_run: "distinct (map sr_ID (sch_recs s)) \<Longrightarrow> sched_run (sch_recs s) (sch_recs (Tick i s))"
proof -
  let ?d = "drop_missed (ti_missed i) (ti_now i) 0 (RecStore_ListByStatus RecStatusPending (sch_recs s)) s"
  let ?e = "start_all (ti_starts i) 0 (RecStore_ListPending (ti_now i) (sch_recs ?d)) ?d"
  let ?q = "RecStore_ListByStatus RecStatusRecording (sch_recs ?e)"
  assume d: "distinct (map sr_ID (sch_recs s))"
  then have d1: "distinct (map sr_ID (sch_recs ?d))" by (simp add: drop_missed_ok)
  then have d2: "distinct (map sr_ID (sch_recs ?e))" by (simp add: starting.loop_ids)
  have "loop_ready (RecStore_ListPending (ti_now i) (sch_recs ?d)) ?d"
    unfolding RecStore_ListPending_def
    by (rule ready_filter [OF d1]) (simp add: active_def excludeStatus_def)
  from run_trans [OF drop_missed_run [OF d] starting_run.loop_run [OF this]]
  have "sched_run (sch_recs s) (sch_recs ?e)" .
  moreover have "loop_ready ?q ?e" by (rule ready_recording [OF d2])
  ultimately show ?thesis
    using monitoring_run.loop_run run_trans
    by (fastforce simp: Tick_def startPendingRecordings_def monitorActiveRecordings_def Let_def)
qed

lemma Scheduler_Delete_run:
  "distinct (map sr_ID (sch_recs s)) \<Longrightarrow> sched_run (sch_recs s) (sch_recs (snd (Scheduler_Delete e i u adm s)))"
  using run_delete [of "sch_recs s" e i]
  by (auto simp: Scheduler_Delete_def set_recs_def call_def Let_def split: sum.split prod.split)




definition example_rec :: "ident \<Rightarrow> time \<Rightarrow> time \<Rightarrow> ScheduledRecording" where
  "example_rec i a b = \<lparr>sr_ID = i, sr_UserID = ''u'', sr_ChannelID = ''c'', sr_ChannelName = ''One'',
     sr_ProgramTitle = ''News'', sr_StartAt = a, sr_StopAt = b, sr_Status = '''', sr_SessionID = '''',
     sr_SegmentID = '''', sr_FilePath = '''', sr_LastError = '''', sr_CreatedAt = 0, sr_UpdatedAt = 0\<rparr>"

definition example_start :: start_in where
  "example_start = \<lparr>si_status = example_env, si_outcome = Started, si_failed = example_env, si_state = example_env\<rparr>"

definition example_schedule :: schedule_in where
  "example_schedule = \<lparr>ci_now = 0, ci_startCutoff = 300, ci_create = example_env, ci_now_lead = 0,
     ci_leadTime = 30, ci_start = example_start\<rparr>"

definition example_channels :: channels where
  "example_channels = [\<lparr>ce_Channel = example_channel ''c'' ''u'', ce_StreamIDs = []\<rparr>]"

definition example_sched :: scheduler where
  "example_sched = snd (Schedule example_schedule example_channels (example_rec ''b'' 200 300)
     (snd (Schedule example_schedule example_channels (example_rec ''a'' 100 200) \<lparr>sch_recs = [], sch_calls = []\<rparr>)))"


text \<open>What goes wrong otherwise. Two requests for the same slot that both pass their check before
  either creates its recording are both accepted; and a recording that has failed, whose slot
  has been given to another, is set recording again by a tick that had listed it before.\<close>

definition at_most :: "nat \<Rightarrow> sched_state \<Rightarrow> sched_state \<Rightarrow> bool" where
  "at_most n s s' \<longleftrightarrow> length (sx_asked s') \<le> n"

definition example_asked :: "ident \<Rightarrow> ScheduledRecording" where
  "example_asked i = example_rec i 100 200"

definition example_entry :: "ident \<Rightarrow> ScheduledRecording" where
  "example_entry i = rec_entry example_env (example_asked i)"

definition example_failed :: recordings where
  "example_failed = snd (RecStore_UpdateStatus example_env ''a'' RecStatusFailed ''x'' [example_entry ''a''])"

definition example_restarted :: recordings where
  "example_restarted = snd (RecStore_UpdateStatus example_env ''a'' RecStatusRecording ''''
     (example_failed @ [example_entry ''b'']))"

lemma example_check:
  assumes "\<forall>a \<in> set rs. \<not> active a"
  shows "Schedule_check example_schedule example_channels (example_asked i) rs = None"
proof -
  have "RecStore_ListByChannelAndTimeRange ''c'' ''u'' 100 200 rs = []"
    using assms by (auto simp: RecStore_ListByChannelAndTimeRange_def filter_empty_conv active_def)
  moreover have "ChannelStore_GetByID ''c'' example_channels = Inr (example_channel ''c'' ''u'')"
    and "ch_IsEnabled (example_channel ''c'' ''u'')" by code_simp+
  ultimately show ?thesis by (simp add: Schedule_check_def example_asked_def example_rec_def example_schedule_def)
qed

lemma ask_reach:
  assumes "sched_reach (at_most n) \<lparr>sx_recs = rs, sx_asked = q\<rparr>" and "\<forall>a \<in> set rs. \<not> active a" and "length q < n"
  shows "sched_reach (at_most n) \<lparr>sx_recs = rs, sx_asked = example_asked i # q\<rparr>"
  using sched_step.asked [of example_schedule example_channels "example_asked i" "\<lparr>sx_recs = rs, sx_asked = q\<rparr>"]
    example_check [OF assms(2)] assms(3)
  by (intro sched_reach.step [OF assms(1)]) (simp_all add: at_most_def example_asked_def example_rec_def)

lemma create_reach:
  assumes "sched_reach (at_most n) \<lparr>sx_recs = rs, sx_asked = q\<rparr>" and "example_asked i \<in> set q"
    and "i \<noteq> ''''" "i \<notin> sr_ID ` set rs" "length q \<le> n"
  shows "sched_reach (at_most n) \<lparr>sx_recs = rs @ [example_entry i], sx_asked = remove1 (example_asked i) q\<rparr>"
proof -
  have id: "or_uuid example_env (sr_ID (example_asked i)) = i"
    using assms(3) by (simp add: or_uuid_def example_asked_def example_rec_def)
  show ?thesis
    using sched_step.created [of "example_asked i" "\<lparr>sx_recs = rs, sx_asked = q\<rparr>" example_env] assms(2-5) id
    by (intro sched_reach.step [OF assms(1)])
       (auto simp: at_most_def RecStore_Create_def example_entry_def length_remove1)
qed

lemma example_slots:
  "remove1 (example_asked ''a'') [example_asked ''b'', example_asked ''a''] = [example_asked ''b'']"
  "sr_ID (example_entry ''a'') = ''a''" "sr_ID ` set example_failed = {''a''}"
  "\<forall>r \<in> set example_failed. \<not> active r"
  "example_entry ''a'' \<noteq> example_entry ''b''" "active (example_entry ''a'')" "active (example_entry ''b'')"
  "overlap (example_entry ''a'') (example_entry ''b'')"
  "length example_restarted = 2" "example_restarted ! 0 \<noteq> example_restarted ! 1"
  "active (example_restarted ! 0)" "active (example_restarted ! 1)"
  "overlap (example_restarted ! 0) (example_restarted ! 1)"
  by code_simp+

theorem two_requests_overlap:
  "\<exists>s. sched_reach (at_most 2) s \<and> (\<exists>a \<in> set (sx_recs s). \<exists>b \<in> set (sx_recs s).
     a \<noteq> b \<and> active a \<and> active b \<and> overlap a b)"
proof -
  have "sched_reach (at_most 2) \<lparr>sx_recs = [], sx_asked = []\<rparr>"
    using sched_reach.init by (simp add: sx_start_def)
  from ask_reach [OF ask_reach [OF this, of "''a''"], of "''b''"]
  have "sched_reach (at_most 2) \<lparr>sx_recs = [], sx_asked = [example_asked ''b'', example_asked ''a'']\<rparr>" by simp
  from create_reach [OF this, of "''a''"] example_slots(1)
  have "sched_reach (at_most 2) \<lparr>sx_recs = [example_entry ''a''], sx_asked = [example_asked ''b'']\<rparr>" by simp
  from create_reach [OF this, of "''b''"] example_slots(2)
  have "sched_reach (at_most 2) \<lparr>sx_recs = [example_entry ''a'', example_entry ''b''], sx_asked = []\<rparr>" by simp
  then show ?thesis
    using example_slots(5-8)
    by (intro exI [of _ "\<lparr>sx_recs = [example_entry ''a'', example_entry ''b''], sx_asked = []\<rparr>"] conjI) auto
qed

theorem restarted_recording_overlaps:
  "\<exists>s. sched_reach (at_most 1) s \<and> (\<exists>a \<in> set (sx_recs s). \<exists>b \<in> set (sx_recs s).
     a \<noteq> b \<and> active a \<and> active b \<and> overlap a b)"
proof -
  have "sched_reach (at_most 1) \<lparr>sx_recs = [], sx_asked = []\<rparr>"
    using sched_reach.init by (simp add: sx_start_def)
  from create_reach [OF ask_reach [OF this, of "''a''"], of "''a''"]
  have "sched_reach (at_most 1) \<lparr>sx_recs = [example_entry ''a''], sx_asked = []\<rparr>" by simp
  from sched_reach.step [OF this sched_step.ended [OF insertI2 [OF singletonI], of _ example_env "''a''" "''x''"]]
  have "sched_reach (at_most 1) \<lparr>sx_recs = example_failed, sx_asked = []\<rparr>"
    by (simp add: at_most_def example_failed_def)
  from create_reach [OF ask_reach [OF this, of "''b''"], of "''b''"] example_slots(3,4)
  have "sched_reach (at_most 1) \<lparr>sx_recs = example_failed @ [example_entry ''b''], sx_asked = []\<rparr>" by simp
  from sched_reach.step [OF this sched_step.started [of _ example_env "''a''"]]
  have "sched_reach (at_most 1) \<lparr>sx_recs = example_restarted, sx_asked = []\<rparr>"
    by (simp add: at_most_def example_restarted_def)
  moreover have "example_restarted ! 0 \<in> set example_restarted" "example_restarted ! 1 \<in> set example_restarted"
    using example_slots(9) by simp_all
  ultimately show ?thesis
    using example_slots(10-13)
    by (intro exI [of _ "\<lparr>sx_recs = example_restarted, sx_asked = []\<rparr>"] conjI) auto
qed

text \<open>A tick leaves nothing behind: afterwards no recording that was due is still pending and
  none that has ended is still recording, even when the recorder fails or a write does.
  (The clock that the second half of the tick reads is not behind that of the first.)\<close>

theorem Tick_leaves_nothing_due:
  assumes "schedule_inv (sch_recs s)" and "\<forall>k. ti_now i \<le> mi_now (ti_monitor i k)"
    and "r \<in> set (sch_recs (Tick i s))"
  shows "(sr_Status r = RecStatusPending \<longrightarrow> ti_now i < sr_StartAt r)
    \<and> (sr_Status r = RecStatusRecording \<longrightarrow> ti_now i \<le> sr_StopAt r)"
proof -
  let ?m = "startPendingRecordings (ti_missed i) (ti_starts i) (ti_now i) s"
  note start = startPending_ok [OF assms(1), of "ti_missed i" "ti_starts i" "ti_now i"]
  note monitor = monitor_ok [OF start(1) assms(2)]
  have "ti_now i < sr_StartAt r" if "sr_Status r = RecStatusPending"
  proof -
    from monitor(2) assms(3) obtain q where q: "q \<in> set (sch_recs ?m)" "slot q = slot r"
      "sr_Status r = RecStatusPending \<longrightarrow> sr_Status q = RecStatusPending"
      unfolding covered_def Tick_def by metis
    with that start(2) have "ti_now i < sr_StartAt q" by blast
    with q(2) show ?thesis by (simp add: slot_def)
  qed
  moreover have "sr_Status r = RecStatusRecording \<longrightarrow> ti_now i \<le> sr_StopAt r"
    using monitor(1) assms(3) by (simp add: Tick_def)
  ultimately show ?thesis by blast
qed

definition example_tick :: tick_in where
  "example_tick = \<lparr>ti_now = 250, ti_missed = (\<lambda>k. example_env), ti_starts = (\<lambda>k. example_start),
     ti_monitor = (\<lambda>k. \<lparr>mi_now = 250, mi_done = example_env, mi_session = True, mi_now_lost = 250,
       mi_lost = example_env, mi_start = example_start\<rparr>)\<rparr>"

theorem Tick_leaves_nothing_due_witness:
  "map sr_Status (sch_recs (Tick example_tick example_sched)) = [''recording'']
   \<and> 250 \<le> sr_StopAt (hd (sch_recs (Tick example_tick example_sched)))"
proof -
  have out: "map sr_Status (sch_recs (Tick example_tick example_sched)) = [''recording'']"
    "sch_recs (Tick example_tick example_sched) \<noteq> []"
    by code_simp+
  have inv: "schedule_inv (sch_recs example_sched)" by code_simp
  have "hd (sch_recs (Tick example_tick example_sched)) \<in> set (sch_recs (Tick example_tick example_sched))"
    using out(2) by simp
  from Tick_leaves_nothing_due [OF inv _ this] out show ?thesis
    by (cases "sch_recs (Tick example_tick example_sched)")
       (simp_all add: example_tick_def RecStatusRecording_def)
qed

text \<open>C37: a scheduled recording is deleted only by its owner or an administrator: for anyone else
  the recordings, the recorder and the files are left alone, and the answer is the same for
  every such recording. The owner's deletion removes it.\<close>

theorem Scheduler_Delete_authorised:
  assumes "distinct (map sr_ID (sch_recs s))" and "r \<in> set (sch_recs s)"
  shows "(\<not> adm \<and> sr_UserID r \<noteq> u \<longrightarrow> Scheduler_Delete e (sr_ID r) u adm s = (Some ErrNotAuthorized, s))
    \<and> (adm \<or> sr_UserID r = u \<longrightarrow>
        set (sch_recs (snd (Scheduler_Delete e (sr_ID r) u adm s))) = {q \<in> set (sch_recs s). sr_ID q \<noteq> sr_ID r}
        \<and> (sr_Status r = RecStatusRecording \<longrightarrow>
            StopRecording (sr_ChannelID r) \<in> set (sch_calls (snd (Scheduler_Delete e (sr_ID r) u adm s)))))"
proof -
  have get: "RecStore_GetByID (sr_ID r) (sch_recs s) = Inr r"
    using recs.get_member [of "sch_recs s" r] assms by (simp add: recs.unique_keys_def)
  have "set (snd (RecStore_Delete e (sr_ID r) (sch_recs s))) = {q \<in> set (sch_recs s). sr_ID q \<noteq> sr_ID r}"
    using recs.delete_set [of "sch_recs s"] assms(1) by (simp add: recs.unique_keys_def)
  then show ?thesis
    by (simp add: Scheduler_Delete_def get set_recs_def call_def Let_def case_prod_beta)
qed

theorem Scheduler_Delete_authorised_witness:
  "Scheduler_Delete example_env ''a'' ''eve'' False \<lparr>sch_recs = [example_rec ''a'' 1 2], sch_calls = []\<rparr>
   = (Some ErrNotAuthorized, \<lparr>sch_recs = [example_rec ''a'' 1 2], sch_calls = []\<rparr>)"
  using Scheduler_Delete_authorised [of "\<lparr>sch_recs = [example_rec ''a'' 1 2], sch_calls = []\<rparr>"
      "example_rec ''a'' 1 2" False "''eve''" example_env]
  by (simp add: example_rec_def)

end
