(* ===== verification/ProfileStore.thy ===== *)
theory ProfileStore
  imports Stores
begin

text \<open>
  \<open>pkg/store/profile.go\<close>: the stream profiles. \<open>Load\<close> also migrates an old browser
  profile, and the file is written back when it did; the outcome of that write is ignored by
  the code.
\<close>

section \<open>The code\<close>

record StreamProfile =
  p_ID :: ident
  p_Name :: string
  p_StreamMode :: string
  p_HWAccel :: string
  p_VideoCodec :: string
  p_Container :: string
  p_AudioCodec :: string
  p_Delivery :: string
  p_OutputHeight :: int
  p_Deinterlace :: bool
  p_FPSMode :: string
  p_UseCustomArgs :: bool
  p_AutoDetect :: bool
  p_CustomArgs :: string
  p_Command :: string
  p_Args :: string
  p_IsDefault :: bool
  p_IsSystem :: bool
  p_IsClient :: bool
  p_CreatedAt :: time
  p_UpdatedAt :: time

type_synonym profiles = "StreamProfile list"

definition profile_missing :: error where "profile_missing = ''stream profile not found''"

definition migrate_browser :: "StreamProfile \<Rightarrow> StreamProfile" where
  "migrate_browser p = (if p_Name p = ''Browser'' \<and> p_IsClient p \<and> p_Delivery p = ''''
     then p\<lparr>p_Delivery := ''mse''\<rparr> else p)"

fun ProfileStore_Load :: "StreamProfile json_file \<Rightarrow> profiles \<Rightarrow> error option \<times> profiles" where
  "ProfileStore_Load NotExist s = (None, [])"
| "ProfileStore_Load (Unreadable err) s = (Some (''reading profile store: '' @ err), s)"
| "ProfileStore_Load (Malformed err xs) s = (Some (''parsing profile store: '' @ err), s)"
| "ProfileStore_Load (Contents xs) s = (None, map migrate_browser xs)"

definition sortCategory :: "StreamProfile \<Rightarrow> int" where
  "sortCategory p = (if p_IsSystem p then 0 else if p_IsClient p then 1 else 2)"

definition profile_less :: "StreamProfile \<Rightarrow> StreamProfile \<Rightarrow> bool" where
  "profile_less a b = (if sortCategory a \<noteq> sortCategory b then sortCategory a < sortCategory b
     else p_Name a < p_Name b)"

definition ProfileStore_List :: "profiles \<Rightarrow> profiles" where
  "ProfileStore_List s = sort_slice profile_less s"

definition ProfileStore_GetByID :: "ident \<Rightarrow> profiles \<Rightarrow> error + StreamProfile" where
  "ProfileStore_GetByID i s = not_found profile_missing (find (\<lambda>p. p_ID p = i) s)"

definition ProfileStore_GetByName :: "string \<Rightarrow> profiles \<Rightarrow> error + StreamProfile" where
  "ProfileStore_GetByName name s = not_found profile_missing (find (\<lambda>p. p_Name p = name) s)"

definition ProfileStore_GetDefault :: "profiles \<Rightarrow> error + StreamProfile" where
  "ProfileStore_GetDefault s = not_found ''default stream profile not found'' (find p_IsDefault s)"

definition profile_entry :: "env \<Rightarrow> StreamProfile \<Rightarrow> StreamProfile" where
  "profile_entry e p = p\<lparr>p_ID := or_uuid e (p_ID p)\<rparr>"

definition profile_refused :: "StreamProfile \<Rightarrow> profiles \<Rightarrow> error option" where
  "profile_refused p s =
     (if list_ex (\<lambda>q. p_Name q = p_Name p) s then Some ''stream profile name already exists'' else None)"

definition ProfileStore_Create :: "env \<Rightarrow> StreamProfile \<Rightarrow> profiles \<Rightarrow> error option \<times> profiles" where
  "ProfileStore_Create e p s = (case profile_refused p s of
      Some err \<Rightarrow> (Some err, s) | None \<Rightarrow> (e_save e, s @ [profile_entry e p]))"

definition ProfileStore_Update :: "env \<Rightarrow> StreamProfile \<Rightarrow> profiles \<Rightarrow> error option \<times> profiles" where
  "ProfileStore_Update e p s = (case update_first (\<lambda>q. p_ID q = p_ID p) (\<lambda>q. p) s of
      None \<Rightarrow> (Some profile_missing, s) | Some s' \<Rightarrow> (e_save e, s'))"

definition ProfileStore_Delete :: "env \<Rightarrow> ident \<Rightarrow> profiles \<Rightarrow> error option \<times> profiles" where
  "ProfileStore_Delete e i s = (case delete_first (\<lambda>p. p_ID p = i) s of
      None \<Rightarrow> (None, s) | Some s' \<Rightarrow> (e_save e, s'))"

definition empty_profile :: StreamProfile where
  "empty_profile = \<lparr>p_ID = '''', p_Name = '''', p_StreamMode = '''', p_HWAccel = '''', p_VideoCodec = '''',
     p_Container = '''', p_AudioCodec = '''', p_Delivery = '''', p_OutputHeight = 0, p_Deinterlace = False,
     p_FPSMode = '''', p_UseCustomArgs = False, p_AutoDetect = False, p_CustomArgs = '''', p_Command = '''',
     p_Args = '''', p_IsDefault = False, p_IsSystem = False, p_IsClient = False, p_CreatedAt = 0, p_UpdatedAt = 0\<rparr>"

definition systemProfiles :: profiles where
  "systemProfiles =
     [empty_profile\<lparr>p_Name := ''Direct'', p_StreamMode := ''direct'', p_HWAccel := ''none'', p_VideoCodec := ''copy'',
        p_Container := ''mpegts'', p_IsSystem := True\<rparr>,
      empty_profile\<lparr>p_Name := ''Proxy'', p_StreamMode := ''proxy'', p_HWAccel := ''none'', p_VideoCodec := ''copy'',
        p_Container := ''mpegts'', p_IsDefault := True, p_IsSystem := True\<rparr>]"

definition SeedSystemProfiles :: "env \<Rightarrow> profiles \<Rightarrow> profiles" where
  "SeedSystemProfiles e s =
     (let hasSystem = map p_Name (filter p_IsSystem s);
          missing = filter (\<lambda>(k, sp). p_Name sp \<notin> set hasSystem) (enumerate 0 systemProfiles)
      in s @ map (\<lambda>(k, sp). sp\<lparr>p_ID := e_uuid e k\<rparr>) missing)"

definition RemoveClientProfiles :: "profiles \<Rightarrow> profiles" where
  "RemoveClientProfiles s = filter (\<lambda>p. \<not> p_IsClient p) s"

definition CreateDirect :: "StreamProfile \<Rightarrow> profiles \<Rightarrow> profiles" where
  "CreateDirect p s = s @ [p]"

definition ProfileStore_ClearAndSave :: "env \<Rightarrow> profiles \<Rightarrow> error option \<times> profiles" where
  "ProfileStore_ClearAndSave e s = (e_save e, [])"

section \<open>The store satisfies its contract\<close>

interpretation profile: updatable_store p_ID "\<lambda>p. p" profile_missing ProfileStore_GetByID ProfileStore_Delete
  "\<lambda>e p q. p" p_ID ProfileStore_Update
  by unfold_locales
     (simp_all add: ProfileStore_GetByID_def ProfileStore_Delete_def ProfileStore_Update_def option.map_ident)

interpretation profile: creating_store p_ID "\<lambda>p. p" profile_missing ProfileStore_GetByID ProfileStore_Delete
  profile_entry profile_refused ProfileStore_Create
  by unfold_locales (simp_all add: ProfileStore_Create_def)

interpretation by_category: slice_order profile_less
  unfolding profile_less_def by (rule slice_order_key2)

text \<open>Seeding the system profiles keeps every profile, leaves a system profile of each of the
  two names, and seeding again adds nothing.\<close>

theorem SeedSystemProfiles_complete:
  "(\<exists>p \<in> set (SeedSystemProfiles e s). p_Name p = ''Direct'' \<and> p_IsSystem p)
   \<and> (\<exists>p \<in> set (SeedSystemProfiles e s). p_Name p = ''Proxy'' \<and> p_IsSystem p)
   \<and> SeedSystemProfiles e' (SeedSystemProfiles e s) = SeedSystemProfiles e s
   \<and> set s \<subseteq> set (SeedSystemProfiles e s)"
  by (auto simp: SeedSystemProfiles_def systemProfiles_def Let_def)

end
