(* ===== verification/ClientService.thy ===== *)
theory ClientService
  imports ProfileStore
begin

text \<open>
  \<open>pkg/store/client.go\<close> and \<open>pkg/service/client.go\<close>: the clients, the rules that recognise
  them in a request, and the service that keeps each client with its own stream profile.
\<close>

section \<open>The store\<close>

record ClientMatchRule =
  mr_ID :: ident
  mr_ClientID :: ident
  mr_HeaderName :: string
  mr_MatchType :: string
  mr_MatchValue :: string

record Client =
  c_ID :: ident
  c_Name :: string
  c_Priority :: int
  c_ListenPort :: int
  c_StreamProfileID :: ident
  c_IsEnabled :: bool
  c_MatchRules :: "ClientMatchRule list"
  c_CreatedAt :: time
  c_UpdatedAt :: time

type_synonym clients = "Client list"

definition client_missing :: error where "client_missing = ''client not found''"

fun ClientStore_Load :: "Client json_file \<Rightarrow> clients \<Rightarrow> error option \<times> clients" where
  "ClientStore_Load (Unreadable err) s = (Some (''reading client store: '' @ err), s)"
| "ClientStore_Load f s = load_slice f s"

definition client_less :: "Client \<Rightarrow> Client \<Rightarrow> bool" where
  "client_less a b = (if c_Priority a \<noteq> c_Priority b then c_Priority a < c_Priority b
     else c_Name a < c_Name b)"

definition ClientStore_List :: "clients \<Rightarrow> clients" where
  "ClientStore_List s = sort_slice client_less s"

definition ClientStore_ListEnabledWithRules :: "clients \<Rightarrow> clients" where
  "ClientStore_ListEnabledWithRules s = sort_slice client_less (filter c_IsEnabled s)"

definition ClientStore_GetByID :: "ident \<Rightarrow> clients \<Rightarrow> error + Client" where
  "ClientStore_GetByID i s = not_found client_missing (find (\<lambda>c. c_ID c = i) s)"

definition client_entry :: "env \<Rightarrow> Client \<Rightarrow> Client" where
  "client_entry e c = c\<lparr>c_ID := or_uuid e (c_ID c)\<rparr>"

definition ClientStore_Create :: "env \<Rightarrow> Client \<Rightarrow> clients \<Rightarrow> error option \<times> clients" where
  "ClientStore_Create e c s = (e_save e, s @ [client_entry e c])"

definition client_put :: "env \<Rightarrow> Client \<Rightarrow> Client \<Rightarrow> Client" where
  "client_put e c old = old\<lparr>c_Name := c_Name c, c_Priority := c_Priority c,
     c_StreamProfileID := c_StreamProfileID c, c_IsEnabled := c_IsEnabled c\<rparr>"

definition ClientStore_Update :: "env \<Rightarrow> Client \<Rightarrow> clients \<Rightarrow> error option \<times> clients" where
  "ClientStore_Update e c s = (case update_first (\<lambda>r. c_ID r = c_ID c) (client_put e c) s of
      None \<Rightarrow> (Some client_missing, s) | Some s' \<Rightarrow> (e_save e, s'))"

definition ClientStore_Delete :: "env \<Rightarrow> ident \<Rightarrow> clients \<Rightarrow> error option \<times> clients" where
  "ClientStore_Delete e i s = (case delete_first (\<lambda>r. c_ID r = i) s of
      None \<Rightarrow> (None, s) | Some s' \<Rightarrow> (e_save e, s'))"

text \<open>The rules get the client's identifier, and a new identifier where they have none.\<close>

fun own_rules :: "env \<Rightarrow> ident \<Rightarrow> nat \<Rightarrow> ClientMatchRule list \<Rightarrow> ClientMatchRule list" where
  "own_rules e i k [] = []"
| "own_rules e i k (r # rs) =
     (if mr_ID r = '''' then r\<lparr>mr_ID := e_uuid e k, mr_ClientID := i\<rparr> # own_rules e i (Suc k) rs
      else r\<lparr>mr_ClientID := i\<rparr> # own_rules e i k rs)"

definition rules_put :: "env \<Rightarrow> ident \<times> ClientMatchRule list \<Rightarrow> Client \<Rightarrow> Client" where
  "rules_put e a c = c\<lparr>c_MatchRules := own_rules e (fst a) 0 (snd a)\<rparr>"

definition ClientStore_SetMatchRules :: "env \<Rightarrow> ident \<times> ClientMatchRule list \<Rightarrow> clients \<Rightarrow> error option \<times> clients" where
  "ClientStore_SetMatchRules e a s = (case update_first (\<lambda>r. c_ID r = fst a) (rules_put e a) s of
      None \<Rightarrow> (Some client_missing, s) | Some s' \<Rightarrow> (e_save e, s'))"

definition IsStreamProfileReferenced :: "ident \<Rightarrow> clients \<Rightarrow> bool" where
  "IsStreamProfileReferenced i s = list_ex (\<lambda>c. c_StreamProfileID c = i) s"

definition ClientStore_Clear :: "clients \<Rightarrow> clients" where
  "ClientStore_Clear s = []"

definition ClientStore_AddDirect :: "Client \<Rightarrow> clients \<Rightarrow> clients" where
  "ClientStore_AddDirect c s = s @ [c]"

definition ClientStore_ClearAndSave :: "env \<Rightarrow> clients \<Rightarrow> error option \<times> clients" where
  "ClientStore_ClearAndSave e s = (e_save e, [])"

interpretation client: updatable_store c_ID "\<lambda>c. c" client_missing ClientStore_GetByID ClientStore_Delete
  client_put c_ID ClientStore_Update
  by unfold_locales
     (simp_all add: ClientStore_GetByID_def ClientStore_Delete_def ClientStore_Update_def client_put_def
       option.map_ident)

interpretation client: creating_store c_ID "\<lambda>c. c" client_missing ClientStore_GetByID ClientStore_Delete
  client_entry "\<lambda>_ _. None" ClientStore_Create
  by unfold_locales (simp_all add: ClientStore_Create_def)

interpretation client_rules: update_law c_ID client_missing rules_put fst ClientStore_SetMatchRules
  by unfold_locales (simp_all add: ClientStore_SetMatchRules_def rules_put_def)

interpretation by_client_priority: slice_order client_less
  unfolding client_less_def by (rule slice_order_key2)

section \<open>The service\<close>

text \<open>What the service reads of a request: the parameter \<open>_port\<close> and the headers.\<close>

record request =
  rq_port :: string
  rq_header :: "string \<Rightarrow> string"

definition digit :: "char \<Rightarrow> int option" where
  "digit c = (let n = of_char c :: nat in if 48 \<le> n \<and> n \<le> 57 then Some (int n - 48) else None)"

fun digits_val :: "int \<Rightarrow> string \<Rightarrow> int option" where
  "digits_val acc [] = Some acc"
| "digits_val acc (c # cs) = (case digit c of None \<Rightarrow> None | Some d \<Rightarrow> digits_val (10 * acc + d) cs)"

text \<open>\<open>strconv.Atoi\<close> for 64-bit integers; \<open>None\<close> is an error.\<close>

definition atoi :: "string \<Rightarrow> int option" where
  "atoi s =
     (let (neg, ds) = (case s of c # cs \<Rightarrow>
            if c = chr 45 then (True, cs) else if c = chr 43 then (False, cs) else (False, s)
          | [] \<Rightarrow> (False, []))
      in if ds = [] then None
         else case digits_val 0 ds of
           None \<Rightarrow> None
         | Some v \<Rightarrow>
             let v = (if neg then - v else v) in
             if - (2 ^ 63) \<le> v \<and> v < 2 ^ 63 then Some v else None)"

definition requestOriginPort :: "request \<Rightarrow> int" where
  "requestOriginPort r =
     (case (if rq_port r \<noteq> '''' then atoi (rq_port r) else None) of
        Some p \<Rightarrow> p
      | None \<Rightarrow>
          let h = rq_header r ''X-TVProxy-Port'' in
          (case (if h \<noteq> '''' then atoi h else None) of Some p \<Rightarrow> p | None \<Rightarrow> 8080))"

definition matchRule :: "request \<Rightarrow> ClientMatchRule \<Rightarrow> bool" where
  "matchRule r rule =
     (let headerValue = rq_header r (mr_HeaderName rule) in
      if mr_MatchType rule = ''exists'' then headerValue \<noteq> ''''
      else if mr_MatchType rule = ''contains'' then str_contains headerValue (mr_MatchValue rule)
      else if mr_MatchType rule = ''equals'' then headerValue = mr_MatchValue rule
      else if mr_MatchType rule = ''prefix'' then HasPrefix headerValue (mr_MatchValue rule)
      else False)"

definition matchesAllRules :: "request \<Rightarrow> Client \<Rightarrow> bool" where
  "matchesAllRules r c = list_all (matchRule r) (c_MatchRules c)"

definition matchesClient :: "request \<Rightarrow> Client \<Rightarrow> int \<Rightarrow> bool" where
  "matchesClient r c originPort =
     (if c_ListenPort c > 0 \<and> c_ListenPort c \<noteq> originPort then False
      else if length (c_MatchRules c) = 0 then c_ListenPort c > 0 \<and> c_ListenPort c = originPort
      else matchesAllRules r c)"

fun match_loop :: "request \<Rightarrow> int \<Rightarrow> profiles \<Rightarrow> clients \<Rightarrow> (StreamProfile \<times> string) option" where
  "match_loop r originPort ps [] = None"
| "match_loop r originPort ps (c # cs) =
     (if \<not> matchesClient r c originPort then match_loop r originPort ps cs
      else case ProfileStore_GetByID (c_StreamProfileID c) ps of
        Inl _ \<Rightarrow> match_loop r originPort ps cs
      | Inr p \<Rightarrow> Some (p, c_Name c))"

definition MatchClient :: "request \<Rightarrow> profiles \<Rightarrow> clients \<Rightarrow> (StreamProfile \<times> string) option" where
  "MatchClient r ps cs =
     match_loop r (requestOriginPort r) ps (ClientStore_ListEnabledWithRules cs)"

record client_service =
  cl_clients :: clients
  cl_profiles :: profiles

record create_in =
  cr_profile :: env
  cr_client :: env
  cr_cleanup :: env
  cr_rules :: env

definition client_profile :: "string \<Rightarrow> StreamProfile" where
  "client_profile name = empty_profile\<lparr>p_Name := name, p_StreamMode := ''ffmpeg'', p_HWAccel := ''none'',
     p_Container := ''mpegts'', p_Command := ''ffmpeg'', p_AutoDetect := True, p_IsClient := True\<rparr>"

definition CreateClient ::
    "create_in \<Rightarrow> Client \<Rightarrow> ClientMatchRule list \<Rightarrow> client_service \<Rightarrow> error option \<times> client_service" where
  "CreateClient i c rules s =
     (let profile = client_profile (c_Name c) in
      case ProfileStore_Create (cr_profile i) profile (cl_profiles s) of
        (Some err, ps) \<Rightarrow> (Some (''creating stream profile: '' @ err), s\<lparr>cl_profiles := ps\<rparr>)
      | (None, ps) \<Rightarrow>
          let s = s\<lparr>cl_profiles := ps\<rparr>; profile = profile_entry (cr_profile i) profile;
              c = c\<lparr>c_StreamProfileID := p_ID profile\<rparr> in
          (case ClientStore_Create (cr_client i) c (cl_clients s) of
             (Some err, cs) \<Rightarrow>
               (Some (''creating client: '' @ err),
                s\<lparr>cl_clients := cs,
                  cl_profiles := snd (ProfileStore_Delete (cr_cleanup i) (p_ID profile) (cl_profiles s))\<rparr>)
           | (None, cs) \<Rightarrow>
               let s = s\<lparr>cl_clients := cs\<rparr>; c = client_entry (cr_client i) c in
               (case ClientStore_SetMatchRules (cr_rules i) (c_ID c, rules) (cl_clients s) of
                  (Some err, cs) \<Rightarrow> (Some (''setting match rules: '' @ err), s\<lparr>cl_clients := cs\<rparr>)
                | (None, cs) \<Rightarrow> (None, s\<lparr>cl_clients := cs\<rparr>))))"

text \<open>The rules are \<open>nil\<close> (\<open>None\<close>) when the request does not carry any.\<close>

definition UpdateClient ::
    "env \<Rightarrow> env \<Rightarrow> Client \<Rightarrow> ClientMatchRule list option \<Rightarrow> client_service \<Rightarrow> error option \<times> client_service" where
  "UpdateClient e1 e2 c rules s =
     (case ClientStore_Update e1 c (cl_clients s) of
        (Some err, cs) \<Rightarrow> (Some (''updating client: '' @ err), s\<lparr>cl_clients := cs\<rparr>)
      | (None, cs) \<Rightarrow>
          let s = s\<lparr>cl_clients := cs\<rparr> in
          (case rules of
             None \<Rightarrow> (None, s)
           | Some rs \<Rightarrow>
               (case ClientStore_SetMatchRules e2 (c_ID c, rs) (cl_clients s) of
                  (Some err, cs) \<Rightarrow> (Some (''updating match rules: '' @ err), s\<lparr>cl_clients := cs\<rparr>)
                | (None, cs) \<Rightarrow> (None, s\<lparr>cl_clients := cs\<rparr>))))"

definition DeleteClient :: "env \<Rightarrow> env \<Rightarrow> ident \<Rightarrow> client_service \<Rightarrow> error option \<times> client_service" where
  "DeleteClient e1 e2 i s =
     (case ClientStore_GetByID i (cl_clients s) of
        Inl err \<Rightarrow> (Some (''getting client: '' @ err), s)
      | Inr c \<Rightarrow>
          let profileID = c_StreamProfileID c in
          (case ClientStore_Delete e1 i (cl_clients s) of
             (Some err, cs) \<Rightarrow> (Some (''deleting client: '' @ err), s\<lparr>cl_clients := cs\<rparr>)
           | (None, cs) \<Rightarrow>
               let s = s\<lparr>cl_clients := cs\<rparr> in
               (None,
                case ProfileStore_GetByID profileID (cl_profiles s) of
                  Inl _ \<Rightarrow> s
                | Inr p \<Rightarrow>
                    if \<not> p_IsSystem p \<and> \<not> IsStreamProfileReferenced profileID (cl_clients s)
                    then s\<lparr>cl_profiles := snd (ProfileStore_Delete e2 profileID (cl_profiles s))\<rparr> else s)))"

section \<open>Which client is matched\<close>

definition eligible :: "request \<Rightarrow> profiles \<Rightarrow> Client \<Rightarrow> bool" where
  "eligible r ps c \<longleftrightarrow> c_IsEnabled c \<and> matchesClient r c (requestOriginPort r)
     \<and> (\<exists>p. ProfileStore_GetByID (c_StreamProfileID c) ps = Inr p)"

lemma match_loop_None:
  "match_loop r port ps cs = None \<longleftrightarrow>
     (\<forall>c \<in> set cs. matchesClient r c port \<longrightarrow> (\<exists>err. ProfileStore_GetByID (c_StreamProfileID c) ps = Inl err))"
  by (induction cs) (auto split: sum.split)

lemma match_loop_Some:
  "match_loop r port ps cs = Some (p, n) \<Longrightarrow> \<exists>pre c post. cs = pre @ c # post \<and> matchesClient r c port
     \<and> ProfileStore_GetByID (c_StreamProfileID c) ps = Inr p \<and> c_Name c = n \<and> match_loop r port ps pre = None"
proof (induction cs)
  case (Cons c cs)
  show ?case
  proof (cases "matchesClient r c port \<and> (\<exists>q. ProfileStore_GetByID (c_StreamProfileID c) ps = Inr q)")
    case True
    with Cons.prems show ?thesis by (intro exI [of _ "[]"]) auto
  next
    case False
    then have skip: "match_loop r port ps (c # ds) = match_loop r port ps ds" for ds
      by (auto split: sum.split)
    with Cons obtain pre d post where "cs = pre @ d # post" "matchesClient r d port"
      "ProfileStore_GetByID (c_StreamProfileID d) ps = Inr p" "c_Name d = n" "match_loop r port ps pre = None"
      by auto
    then show ?thesis using skip by (intro exI [of _ "c # pre"] exI [of _ d] exI [of _ post]) simp
  qed
qed simp

text \<open>C38: a request is given the profile of the best matching client. When a client is returned it
  is enabled, matches the request and has that profile, and no eligible client comes before
  it in the order of priorities and names; nothing is returned only when no client is
  eligible.\<close>

theorem MatchClient_best:
  "case MatchClient r ps cs of
     None \<Rightarrow> \<not> (\<exists>d \<in> set cs. eligible r ps d)
   | Some (p, n) \<Rightarrow> \<exists>c \<in> set cs. eligible r ps c \<and> ProfileStore_GetByID (c_StreamProfileID c) ps = Inr p
       \<and> c_Name c = n \<and> \<not> (\<exists>d \<in> set cs. eligible r ps d \<and> client_less d c)"
proof (cases "MatchClient r ps cs")
  case None
  then have "\<forall>c \<in> set cs. c_IsEnabled c \<longrightarrow> matchesClient r c (requestOriginPort r) \<longrightarrow>
      (\<exists>err. ProfileStore_GetByID (c_StreamProfileID c) ps = Inl err)"
    by (auto simp: MatchClient_def match_loop_None ClientStore_ListEnabledWithRules_def)
  then have "\<not> (\<exists>d \<in> set cs. eligible r ps d)" by (force simp: eligible_def)
  with None show ?thesis by simp
next
  case (Some pn)
  obtain p n where pn: "pn = (p, n)" by (cases pn)
  let ?l = "ClientStore_ListEnabledWithRules cs"
  from Some pn obtain pre c post where l: "?l = pre @ c # post" "matchesClient r c (requestOriginPort r)"
    "ProfileStore_GetByID (c_StreamProfileID c) ps = Inr p" "c_Name c = n"
    and pre: "match_loop r (requestOriginPort r) ps pre = None"
    using match_loop_Some unfolding MatchClient_def by blast
  have set: "set ?l = {d \<in> set cs. c_IsEnabled d}" by (auto simp: ClientStore_ListEnabledWithRules_def)
  with l have c: "c \<in> set cs" "eligible r ps c" by (auto simp: eligible_def)
  have "sorted_wrt (\<lambda>a b. \<not> client_less b a) (pre @ c # post)"
    using by_client_priority.slice_sorted [of "filter c_IsEnabled cs"] l(1)
    by (simp add: ClientStore_ListEnabledWithRules_def)
  then have post: "\<not> client_less d c" if "d \<in> set post" for d
    using that by (simp add: sorted_wrt_append)
  have "\<not> client_less d c" if d: "d \<in> set cs" "eligible r ps d" for d
  proof -
    from d set l(1) have "d \<in> set pre \<or> d = c \<or> d \<in> set post" by (auto simp: eligible_def)
    moreover have "d \<notin> set pre" using pre d(2) by (force simp: match_loop_None eligible_def)
    moreover have "\<not> client_less c c" by (simp add: client_less_def)
    ultimately show ?thesis using post by blast
  qed
  with Some pn l(3,4) c show ?thesis by auto
qed

section \<open>Clients and their profiles\<close>

definition refs_ok :: "client_service \<Rightarrow> bool" where
  "refs_ok s \<longleftrightarrow> (\<forall>c \<in> set (cl_clients s). c_StreamProfileID c \<in> p_ID ` set (cl_profiles s))"

text \<open>Deleting a client deletes at most its own profile: no system profile and no profile that
  another client uses, so that every client that is left still has its profile.\<close>

theorem DeleteClient_keeps_profiles:
  assumes "distinct (map p_ID (cl_profiles s))" and "refs_ok s"
  shows "refs_ok (snd (DeleteClient e1 e2 i s))
    \<and> {p \<in> set (cl_profiles s). p_IsSystem p} \<subseteq> set (cl_profiles (snd (DeleteClient e1 e2 i s)))"
proof (cases "ClientStore_GetByID i (cl_clients s)")
  case (Inr c)
  let ?cs = "snd (ClientStore_Delete e1 i (cl_clients s))"
  let ?pid = "c_StreamProfileID c"
  let ?ps = "snd (ProfileStore_Delete e2 ?pid (cl_profiles s))"
  have sub: "set ?cs \<subseteq> set (cl_clients s)" by (rule client.delete_subset)
  have ps: "set ?ps = {p \<in> set (cl_profiles s). p_ID p \<noteq> ?pid}"
    using profile.delete_set [of "cl_profiles s"] assms(1) by (simp add: profile.unique_keys_def)
  have own: "p = q" if "ProfileStore_GetByID ?pid (cl_profiles s) = Inr p" "q \<in> set (cl_profiles s)" "p_ID q = ?pid" for p q
    using profile.get_member [of "cl_profiles s" q] assms(1) that by (simp add: profile.unique_keys_def)
  from assms(2) sub have "refs_ok (s\<lparr>cl_clients := ?cs\<rparr>)" by (auto simp: refs_ok_def)
  moreover have "refs_ok (s\<lparr>cl_clients := ?cs, cl_profiles := ?ps\<rparr>)"
    if "\<not> IsStreamProfileReferenced ?pid ?cs"
    using that assms(2) sub ps by (fastforce simp: refs_ok_def IsStreamProfileReferenced_def list_ex_iff)
  moreover have "{p \<in> set (cl_profiles s). p_IsSystem p} \<subseteq> set ?ps"
    if "ProfileStore_GetByID ?pid (cl_profiles s) = Inr p" "\<not> p_IsSystem p" for p
    using that own ps by auto
  ultimately show ?thesis
    using Inr by (auto simp: DeleteClient_def Let_def split: prod.splits option.splits sum.splits)
qed (use assms in \<open>simp add: DeleteClient_def\<close>)

definition example_client :: "ident \<Rightarrow> ident \<Rightarrow> Client" where
  "example_client i p = \<lparr>c_ID = i, c_Name = ''TV'', c_Priority = 1, c_ListenPort = 8090, c_StreamProfileID = p,
     c_IsEnabled = True, c_MatchRules = [], c_CreatedAt = 0, c_UpdatedAt = 0\<rparr>"

definition example_cl :: client_service where
  "example_cl = \<lparr>cl_clients = [example_client ''a'' ''p'', example_client ''b'' ''p''],
     cl_profiles = [empty_profile\<lparr>p_ID := ''p'', p_Name := ''TV''\<rparr>]\<rparr>"

theorem DeleteClient_keeps_profiles_witness:
  "map p_ID (cl_profiles (snd (DeleteClient example_env example_env ''a'' example_cl))) = [''p'']
   \<and> refs_ok (snd (DeleteClient example_env example_env ''a'' example_cl))"
proof -
  have "distinct (map p_ID (cl_profiles example_cl))" "refs_ok example_cl" by code_simp+
  moreover have "map p_ID (cl_profiles (snd (DeleteClient example_env example_env ''a'' example_cl))) = [''p'']"
    by code_simp
  ultimately show ?thesis
    using DeleteClient_keeps_profiles [of example_cl example_env example_env "''a''"] by simp
qed

lemma fresh_profile_refs:
  "refs_ok s \<Longrightarrow> c_StreamProfileID c = p_ID p \<Longrightarrow>
     refs_ok (s\<lparr>cl_profiles := cl_profiles s @ [p], cl_clients := cl_clients s @ [c]\<rparr>)"
  by (auto simp: refs_ok_def)

lemma rules_refs:
  assumes "refs_ok (s\<lparr>cl_clients := cs\<rparr>)"
  shows "refs_ok (s\<lparr>cl_clients := snd (ClientStore_SetMatchRules e a cs)\<rparr>)"
  using client_rules.update_set [of e a cs] assms by (fastforce simp: refs_ok_def rules_put_def)

text \<open>Creating a client: a taken profile name is refused without a change; when all writes
  succeed the client is there with its rules and a client profile of its name, and every
  client has its profile.\<close>

theorem CreateClient_spec:
  assumes "refs_ok s" and "e_save (cr_profile i) = None" "e_save (cr_client i) = None" "e_save (cr_rules i) = None"
    and "e_uuid (cr_profile i) 0 \<notin> p_ID ` set (cl_profiles s)"
    and "or_uuid (cr_client i) (c_ID c) \<notin> c_ID ` set (cl_clients s)"
  shows "if list_ex (\<lambda>p. p_Name p = c_Name c) (cl_profiles s)
    then CreateClient i c rules s = (Some ''creating stream profile: stream profile name already exists'', s)
    else fst (CreateClient i c rules s) = None \<and> refs_ok (snd (CreateClient i c rules s))
      \<and> (\<exists>c' p. ClientStore_GetByID (or_uuid (cr_client i) (c_ID c)) (cl_clients (snd (CreateClient i c rules s))) = Inr c'
          \<and> c_MatchRules c' = own_rules (cr_rules i) (c_ID c') 0 rules
          \<and> ProfileStore_GetByID (c_StreamProfileID c') (cl_profiles (snd (CreateClient i c rules s))) = Inr p
          \<and> p_IsClient p \<and> p_Name p = c_Name c)"
proof (cases "list_ex (\<lambda>p. p_Name p = c_Name c) (cl_profiles s)")
  case True
  then show ?thesis
    by (simp add: CreateClient_def ProfileStore_Create_def profile_refused_def client_profile_def Let_def)
next
  case False
  define p where "p = profile_entry (cr_profile i) (client_profile (c_Name c))"
  define c1 where "c1 = client_entry (cr_client i) (c\<lparr>c_StreamProfileID := p_ID p\<rparr>)"
  let ?cs = "cl_clients s @ [c1]" and ?ps = "cl_profiles s @ [p]"
  let ?u = "ClientStore_SetMatchRules (cr_rules i) (c_ID c1, rules) ?cs"
  have pid: "p_ID p = e_uuid (cr_profile i) 0"
    by (simp add: p_def profile_entry_def client_profile_def empty_profile_def or_uuid_def)
  have c1: "c_ID c1 = or_uuid (cr_client i) (c_ID c)" "c_StreamProfileID c1 = p_ID p"
    by (simp_all add: c1_def client_entry_def)
  have absent: "find (\<lambda>r. c_ID r = c_ID c1) (cl_clients s) = None"
    using assms(6) c1(1) by (simp add: find_key_None)
  then have found: "find (\<lambda>r. c_ID r = c_ID c1) ?cs = Some c1" by (simp add: find_append)
  then have u: "fst ?u = None"
    using assms(4) by (cases "update_first (\<lambda>r. c_ID r = c_ID c1) (rules_put (cr_rules i) (c_ID c1, rules)) ?cs")
      (auto simp: ClientStore_SetMatchRules_def)
  have run: "CreateClient i c rules s = (None, s\<lparr>cl_profiles := ?ps, cl_clients := snd ?u\<rparr>)"
    using False assms(2,3) u
    by (simp add: CreateClient_def ProfileStore_Create_def profile_refused_def client_profile_def
        ClientStore_Create_def p_def [symmetric, unfolded client_profile_def] c1_def [symmetric] Let_def
        list_ex_iff case_prod_beta split: option.split)
  have "refs_ok (s\<lparr>cl_profiles := ?ps, cl_clients := snd ?u\<rparr>)"
    by (rule rules_refs [OF fresh_profile_refs [OF assms(1) c1(2)]])
  moreover have "ClientStore_GetByID (c_ID c1) (snd ?u) = Inr (rules_put (cr_rules i) (c_ID c1, rules) c1)"
    using client_rules.update_find [of "c_ID c1" "cr_rules i" "(c_ID c1, rules)" ?cs] found
    by (simp add: client.get_find)
  moreover have "ProfileStore_GetByID (p_ID p) ?ps = Inr p"
    using assms(5) pid by (simp add: profile.get_find find_append find_key_None)
  moreover have "p_IsClient p" "p_Name p = c_Name c"
    by (simp_all add: p_def profile_entry_def client_profile_def)
  ultimately show ?thesis
    using False c1 by (simp add: run rules_put_def)
qed

theorem CreateClient_spec_witness:
  "fst (CreateClient \<lparr>cr_profile = example_env, cr_client = example_env, cr_cleanup = example_env, cr_rules = example_env\<rparr>
     ((example_client ''c'' '''')\<lparr>c_Name := ''Box''\<rparr>) [] example_cl) = None
   \<and> refs_ok (snd (CreateClient \<lparr>cr_profile = example_env, cr_client = example_env, cr_cleanup = example_env, cr_rules = example_env\<rparr>
     ((example_client ''c'' '''')\<lparr>c_Name := ''Box''\<rparr>) [] example_cl))"
proof -
  let ?i = "\<lparr>cr_profile = example_env, cr_client = example_env, cr_cleanup = example_env, cr_rules = example_env\<rparr>"
  let ?c = "(example_client ''c'' '''')\<lparr>c_Name := ''Box''\<rparr>"
  have "refs_ok example_cl" "e_uuid example_env 0 \<notin> p_ID ` set (cl_profiles example_cl)"
    "or_uuid example_env (c_ID ?c) \<notin> c_ID ` set (cl_clients example_cl)"
    "\<not> list_ex (\<lambda>p. p_Name p = c_Name ?c) (cl_profiles example_cl)"
    by code_simp+
  then show ?thesis
    using CreateClient_spec [of example_cl ?i ?c "[]"] by (simp add: example_env_def)
qed

text \<open>When the file of the clients cannot be written, \<open>CreateClient\<close> reports the error and
  deletes the new profile, but the client stays in memory and is left without a profile.\<close>

theorem CreateClient_failed_write_dangles:
  assumes "e_save (cr_profile i) = None" "e_save (cr_client i) = Some err"
    and "\<not> list_ex (\<lambda>p. p_Name p = c_Name c) (cl_profiles s)"
    and "distinct (map p_ID (cl_profiles s))" "e_uuid (cr_profile i) 0 \<notin> p_ID ` set (cl_profiles s)"
  shows "fst (CreateClient i c rules s) = Some (''creating client: '' @ err)
    \<and> length (cl_clients (snd (CreateClient i c rules s))) = Suc (length (cl_clients s))
    \<and> set (cl_profiles (snd (CreateClient i c rules s))) = set (cl_profiles s)
    \<and> \<not> refs_ok (snd (CreateClient i c rules s))"
proof -
  define p where "p = profile_entry (cr_profile i) (client_profile (c_Name c))"
  have pid: "p_ID p = e_uuid (cr_profile i) 0"
    by (simp add: p_def profile_entry_def client_profile_def empty_profile_def or_uuid_def)
  have "set (snd (ProfileStore_Delete (cr_cleanup i) (p_ID p) (cl_profiles s @ [p])))
      = {q \<in> set (cl_profiles s @ [p]). p_ID q \<noteq> p_ID p}"
    using assms(4,5) pid by (intro profile.delete_set) (simp add: profile.unique_keys_def)
  also have "\<dots> = set (cl_profiles s)" using assms(5) pid by force
  finally have ps: "set (snd (ProfileStore_Delete (cr_cleanup i) (p_ID p) (cl_profiles s @ [p]))) = set (cl_profiles s)" .
  have run: "CreateClient i c rules s = (Some (''creating client: '' @ err),
      s\<lparr>cl_clients := cl_clients s @ [client_entry (cr_client i) (c\<lparr>c_StreamProfileID := p_ID p\<rparr>)],
        cl_profiles := snd (ProfileStore_Delete (cr_cleanup i) (p_ID p) (cl_profiles s @ [p]))\<rparr>)"
    using assms(1-3)
    by (simp add: CreateClient_def ProfileStore_Create_def profile_refused_def client_profile_def
        ClientStore_Create_def p_def [unfolded client_profile_def] Let_def)
  then show ?thesis
    using ps assms(5) pid by (simp add: refs_ok_def client_entry_def)
qed

theorem CreateClient_failed_write_dangles_witness:
  "\<not> refs_ok (snd (CreateClient
     \<lparr>cr_profile = example_env, cr_client = example_env\<lparr>e_save := Some ''disk full''\<rparr>, cr_cleanup = example_env, cr_rules = example_env\<rparr>
     ((example_client ''c'' '''')\<lparr>c_Name := ''Box''\<rparr>) [] example_cl))"
proof -
  let ?c = "(example_client ''c'' '''')\<lparr>c_Name := ''Box''\<rparr>"
  have "e_uuid example_env 0 \<notin> p_ID ` set (cl_profiles example_cl)"
    "distinct (map p_ID (cl_profiles example_cl))"
    "\<not> list_ex (\<lambda>p. p_Name p = c_Name ?c) (cl_profiles example_cl)"
    by code_simp+
  then show ?thesis
    using CreateClient_failed_write_dangles [of
        "\<lparr>cr_profile = example_env, cr_client = example_env\<lparr>e_save := Some ''disk full''\<rparr>, cr_cleanup = example_env, cr_rules = example_env\<rparr>"
        "''disk full''" ?c example_cl "[]"]
    by (simp add: example_env_def)
qed

text \<open>A successful update of a client stores the new name, priority, profile and enabled flag,
  and silently keeps the old listening port, whatever port the request asked for.\<close>

theorem UpdateClient_keeps_old_port:
  assumes "ClientStore_GetByID (c_ID c) (cl_clients s) = Inr old" and "e_save e = None"
  shows "\<exists>new. UpdateClient e e2 c None s = (None, snd (UpdateClient e e2 c None s))
    \<and> ClientStore_GetByID (c_ID c) (cl_clients (snd (UpdateClient e e2 c None s))) = Inr new
    \<and> c_Name new = c_Name c \<and> c_Priority new = c_Priority c \<and> c_StreamProfileID new = c_StreamProfileID c
    \<and> c_IsEnabled new = c_IsEnabled c \<and> c_MatchRules new = c_MatchRules old
    \<and> c_ListenPort new = c_ListenPort old"
proof -
  let ?u = "ClientStore_Update e c (cl_clients s)"
  from assms(1) have f: "find (\<lambda>r. c_ID r = c_ID c) (cl_clients s) = Some old"
    by (auto simp: client.get_find)
  then have "fst ?u = None"
    using assms(2) by (cases "update_first (\<lambda>r. c_ID r = c_ID c) (client_put e c) (cl_clients s)")
      (auto simp: ClientStore_Update_def)
  then have "UpdateClient e e2 c None s = (None, s\<lparr>cl_clients := snd ?u\<rparr>)"
    by (simp add: UpdateClient_def case_prod_beta)
  moreover have "ClientStore_GetByID (c_ID c) (snd ?u) = Inr (client_put e c old)"
    using client.get_updated [OF f] .
  ultimately show ?thesis by (simp add: client_put_def)
qed

theorem UpdateClient_keeps_old_port_witness:
  "\<exists>new. ClientStore_GetByID ''a'' (cl_clients (snd (UpdateClient example_env example_env
      ((example_client ''a'' ''p'')\<lparr>c_ListenPort := 9999\<rparr>) None example_cl))) = Inr new
    \<and> c_ListenPort new = 8090"
  using UpdateClient_keeps_old_port [of "(example_client ''a'' ''p'')\<lparr>c_ListenPort := 9999\<rparr>" example_cl
      "example_client ''a'' ''p''" example_env example_env]
  by (simp add: client.get_find example_cl_def example_client_def example_env_def) blast

end
