(* ===== verification/UserStore.thy ===== *)
theory UserStore
  imports Stores
begin

text \<open>
  \<open>pkg/store/user.go\<close>: the users. The password hash of a \<open>models.User\<close> is not part of its
  JSON form (\<open>json:"-"\<close>); the store keeps it beside the user and puts it back when a user
  is read.
\<close>

section \<open>The code\<close>

record User =
  u_ID :: ident
  u_Username :: string
  u_PasswordHash :: string
  u_IsAdmin :: bool
  u_InviteToken :: "string option"
  u_InviteExpiresAt :: "time option"
  u_CreatedAt :: time
  u_UpdatedAt :: time

record userEntry =
  ue_User :: User
  ue_PasswordHash :: string
  ue_GroupIDs :: "ident list"

type_synonym users = "userEntry list"

definition ue_id :: "userEntry \<Rightarrow> ident" where "ue_id x = u_ID (ue_User x)"
definition ue_name :: "userEntry \<Rightarrow> string" where "ue_name x = u_Username (ue_User x)"

definition user_missing :: error where "user_missing = ''user not found''"

definition UserStore_Load :: "userEntry json_file \<Rightarrow> users \<Rightarrow> error option \<times> users" where
  "UserStore_Load = load_slice"

text \<open>What is in the file after \<open>save\<close>: each entry without the hash inside its user.\<close>

definition user_json :: "userEntry \<Rightarrow> userEntry" where
  "user_json x = x\<lparr>ue_User := (ue_User x)\<lparr>u_PasswordHash := ''''\<rparr>\<rparr>"

definition user_entry :: "env \<Rightarrow> User \<Rightarrow> userEntry" where
  "user_entry e u = \<lparr>ue_User = u\<lparr>u_ID := or_uuid e (u_ID u), u_CreatedAt := e_now e, u_UpdatedAt := e_now e\<rparr>,
     ue_PasswordHash = u_PasswordHash u, ue_GroupIDs = []\<rparr>"

definition user_refused :: "User \<Rightarrow> users \<Rightarrow> error option" where
  "user_refused u s =
     (if list_ex (\<lambda>x. ue_name x = u_Username u) s then Some ''username already exists'' else None)"

definition UserStore_Create :: "env \<Rightarrow> User \<Rightarrow> users \<Rightarrow> error option \<times> users" where
  "UserStore_Create e u s = (case user_refused u s of
      Some err \<Rightarrow> (Some err, s) | None \<Rightarrow> (e_save e, s @ [user_entry e u]))"

definition hydrateUser :: "userEntry \<Rightarrow> User" where
  "hydrateUser x = (ue_User x)\<lparr>u_PasswordHash := ue_PasswordHash x\<rparr>"

definition UserStore_GetByID :: "ident \<Rightarrow> users \<Rightarrow> error + User" where
  "UserStore_GetByID i s = not_found user_missing (map_option hydrateUser (find (\<lambda>x. ue_id x = i) s))"

definition UserStore_GetByUsername :: "string \<Rightarrow> users \<Rightarrow> error + User" where
  "UserStore_GetByUsername n s = not_found user_missing (map_option hydrateUser (find (\<lambda>x. ue_name x = n) s))"

definition UserStore_GetByInviteToken :: "string \<Rightarrow> users \<Rightarrow> error + User" where
  "UserStore_GetByInviteToken t s =
     not_found user_missing (map_option hydrateUser (find (\<lambda>x. u_InviteToken (ue_User x) = Some t) s))"

definition UserStore_List :: "users \<Rightarrow> User list" where
  "UserStore_List s = map hydrateUser s"

definition UserStore_GetFirstAdmin :: "users \<Rightarrow> error + User" where
  "UserStore_GetFirstAdmin s =
     not_found ''no admin user found'' (map_option hydrateUser (find (\<lambda>x. u_IsAdmin (ue_User x)) s))"

definition user_put :: "env \<Rightarrow> User \<Rightarrow> userEntry \<Rightarrow> userEntry" where
  "user_put e u x = x\<lparr>ue_User := u\<lparr>u_UpdatedAt := e_now e, u_CreatedAt := u_CreatedAt (ue_User x)\<rparr>,
     ue_PasswordHash := u_PasswordHash u\<rparr>"

definition UserStore_Update :: "env \<Rightarrow> User \<Rightarrow> users \<Rightarrow> error option \<times> users" where
  "UserStore_Update e u s = (case update_first (\<lambda>x. ue_id x = u_ID u) (user_put e u) s of
      None \<Rightarrow> (Some user_missing, s) | Some s' \<Rightarrow> (e_save e, s'))"

definition UserStore_Delete :: "env \<Rightarrow> ident \<Rightarrow> users \<Rightarrow> error option \<times> users" where
  "UserStore_Delete e i s = (case delete_first (\<lambda>x. ue_id x = i) s of
      None \<Rightarrow> (None, s) | Some s' \<Rightarrow> (e_save e, s'))"

definition UserStore_GetGroupIDsForUser :: "ident \<Rightarrow> users \<Rightarrow> error + ident list" where
  "UserStore_GetGroupIDsForUser i s =
     not_found user_missing (map_option ue_GroupIDs (find (\<lambda>x. ue_id x = i) s))"

definition groups_put :: "env \<Rightarrow> ident \<times> ident list \<Rightarrow> userEntry \<Rightarrow> userEntry" where
  "groups_put e a x = x\<lparr>ue_GroupIDs := snd a\<rparr>"

definition UserStore_SetGroupIDsForUser :: "env \<Rightarrow> ident \<times> ident list \<Rightarrow> users \<Rightarrow> error option \<times> users" where
  "UserStore_SetGroupIDsForUser e a s = (case update_first (\<lambda>x. ue_id x = fst a) (groups_put e a) s of
      None \<Rightarrow> (Some user_missing, s) | Some s' \<Rightarrow> (e_save e, s'))"

definition UserStore_ClearAndSave :: "env \<Rightarrow> users \<Rightarrow> error option \<times> users" where
  "UserStore_ClearAndSave e s = (e_save e, [])"

section \<open>The store satisfies its contract\<close>

interpretation user: updatable_store ue_id hydrateUser user_missing UserStore_GetByID UserStore_Delete
  user_put u_ID UserStore_Update
  by unfold_locales
     (simp_all add: UserStore_GetByID_def UserStore_Delete_def UserStore_Update_def user_put_def ue_id_def)

interpretation user: creating_store ue_id hydrateUser user_missing UserStore_GetByID UserStore_Delete
  user_entry user_refused UserStore_Create
  by unfold_locales (simp_all add: UserStore_Create_def)

interpretation user_groups: update_law ue_id user_missing groups_put fst UserStore_SetGroupIDsForUser
  by unfold_locales (simp_all add: UserStore_SetGroupIDsForUser_def groups_put_def ue_id_def)

section \<open>Properties\<close>

lemma hydrate_json: "hydrateUser (user_json x) = hydrateUser x"
  by (simp add: hydrateUser_def user_json_def)

lemma json_fields [simp]: "ue_id (user_json x) = ue_id x" "ue_name (user_json x) = ue_name x"
  "u_InviteToken (ue_User (user_json x)) = u_InviteToken (ue_User x)"
  by (simp_all add: ue_id_def ue_name_def user_json_def)

lemma find_map: "find p (map f xs) = map_option f (find (\<lambda>x. p (f x)) xs)"
  by (induction xs) auto

text \<open>After a restart that reads the file written before, every user is found as before,
  with the password hash, by identifier, by name and by invite token.\<close>

theorem users_survive_restart:
  "fst (UserStore_Load (Contents (map user_json s)) []) = None
   \<and> UserStore_GetByID i (snd (UserStore_Load (Contents (map user_json s)) [])) = UserStore_GetByID i s
   \<and> UserStore_GetByUsername n (snd (UserStore_Load (Contents (map user_json s)) [])) = UserStore_GetByUsername n s
   \<and> UserStore_GetByInviteToken t (snd (UserStore_Load (Contents (map user_json s)) [])) = UserStore_GetByInviteToken t s
   \<and> UserStore_List (snd (UserStore_Load (Contents (map user_json s)) [])) = UserStore_List s"
  by (simp add: UserStore_Load_def UserStore_GetByID_def UserStore_GetByUsername_def
      UserStore_GetByInviteToken_def UserStore_List_def find_map option.map_comp comp_def hydrate_json)

text \<open>\<open>Create\<close> keeps user names distinct and refuses a taken name without a change.\<close>

theorem usernames_distinct_on_create:
  "(distinct (map ue_name s) \<longrightarrow> distinct (map ue_name (snd (UserStore_Create e u s))))
   \<and> (u_Username u \<in> ue_name ` set s \<longrightarrow> UserStore_Create e u s = (Some ''username already exists'', s))"
  by (auto simp: UserStore_Create_def user_refused_def list_ex_iff user_entry_def ue_name_def)

definition example_user :: "ident \<Rightarrow> string \<Rightarrow> userEntry" where
  "example_user i n = \<lparr>ue_User = \<lparr>u_ID = i, u_Username = n, u_PasswordHash = ''h'', u_IsAdmin = False,
     u_InviteToken = None, u_InviteExpiresAt = None, u_CreatedAt = 0, u_UpdatedAt = 0\<rparr>,
     ue_PasswordHash = ''h'', ue_GroupIDs = []\<rparr>"

theorem usernames_distinct_on_create_witness:
  "distinct (map ue_name (snd (UserStore_Create example_env
     ((ue_User (example_user '''' ''bob''))) [example_user ''1'' ''eve''])))
   \<and> UserStore_Create example_env (ue_User (example_user '''' ''eve'')) [example_user ''1'' ''eve'']
     = (Some ''username already exists'', [example_user ''1'' ''eve''])"
  using usernames_distinct_on_create [of "[example_user ''1'' ''eve'']" example_env "ue_User (example_user '''' ''bob'')"]
    usernames_distinct_on_create [of "[example_user ''1'' ''eve'']" example_env "ue_User (example_user '''' ''eve'')"]
  by (simp add: example_user_def ue_name_def)

text \<open>\<open>Update\<close> does not look for the name: renaming a user to the name of another is
  accepted, and the store then holds two users of one name.\<close>

theorem Update_allows_duplicate_names:
  assumes "distinct (map ue_id s)" and "x \<in> set s" "y \<in> set s" "x \<noteq> y" and "u_Username u = ue_name x"
    and "u_ID u = ue_id y"
  shows "fst (UserStore_Update e u s) = e_save e \<and> \<not> distinct (map ue_name (snd (UserStore_Update e u s)))"
proof -
  have id: "ue_id x \<noteq> ue_id y" using assms(1-4) by (auto simp: distinct_map inj_on_def)
  have fy: "find (\<lambda>r. ue_id r = u_ID u) s \<noteq> None" using assms(3,6) by (auto simp: find_None_iff)
  then obtain s' where s': "update_first (\<lambda>r. ue_id r = u_ID u) (user_put e u) s = Some s'"
    by (cases "update_first (\<lambda>r. ue_id r = u_ID u) (user_put e u) s") auto
  have run: "UserStore_Update e u s = (e_save e, s')" by (simp add: UserStore_Update_def s')
  have ids: "map ue_id s' = map ue_id s" using user.update_keys [of e u s] by (simp add: run)
  have "find (\<lambda>r. ue_id r = ue_id x) s' = find (\<lambda>r. ue_id r = ue_id x) s"
    using user.update_find [of "ue_id x" e u s] id assms(6) by (simp add: run)
  moreover have "find (\<lambda>r. ue_id r = ue_id x) s = Some x"
    using assms(1,2) by (induction s) auto
  ultimately have x': "x \<in> set s'" by (auto dest: find_SomeD)
  obtain r where r: "find (\<lambda>r. ue_id r = u_ID u) s = Some r" using fy by auto
  then have "find (\<lambda>r. ue_id r = u_ID u) s' = Some (user_put e u r)"
    using user.update_find [of "u_ID u" e u s] by (simp add: run)
  then have y': "user_put e u r \<in> set s'" "ue_id (user_put e u r) = u_ID u" by (auto dest: find_SomeD)
  have "ue_name (user_put e u r) = ue_name x" using assms(5) by (simp add: user_put_def ue_name_def)
  moreover have "user_put e u r \<noteq> x" using y'(2) id assms(6) by auto
  ultimately have "\<not> inj_on ue_name (set s')" using x' y'(1) by (auto simp: inj_on_def)
  then show ?thesis by (simp add: run distinct_map)
qed

theorem Update_allows_duplicate_names_witness:
  "map ue_name (snd (UserStore_Update example_env ((ue_User (example_user ''2'' ''eve'')))
     [example_user ''1'' ''eve'', example_user ''2'' ''bob''])) = [''eve'', ''eve'']
   \<and> \<not> distinct (map ue_name (snd (UserStore_Update example_env ((ue_User (example_user ''2'' ''eve'')))
     [example_user ''1'' ''eve'', example_user ''2'' ''bob''])))"
proof -
  have "fst (UserStore_Update example_env (ue_User (example_user ''2'' ''eve''))
      [example_user ''1'' ''eve'', example_user ''2'' ''bob'']) = e_save example_env
    \<and> \<not> distinct (map ue_name (snd (UserStore_Update example_env (ue_User (example_user ''2'' ''eve''))
      [example_user ''1'' ''eve'', example_user ''2'' ''bob''])))"
    by (rule Update_allows_duplicate_names [of _ "example_user ''1'' ''eve''" "example_user ''2'' ''bob''"])
       (simp_all add: example_user_def ue_id_def ue_name_def)
  then show ?thesis
    by (simp add: UserStore_Update_def example_user_def ue_id_def ue_name_def user_put_def)
qed

end
