(* ===== verification/Auth.thy ===== *)
theory Auth
  imports UserStore
begin

text \<open>
  \<open>pkg/service/auth.go\<close> and \<open>pkg/middleware/auth.go\<close>. Two libraries are used: bcrypt
  (\<open>hash\<close> makes a hash or fails, \<open>compare\<close> checks a password against one) and JWT
  (\<open>sign\<close> signs claims with a key, \<open>parse\<close> asks a key function for the key of a token's
  algorithm, checks signature and expiry at the current time and returns the claims and a
  validity flag). They are arguments of the definitions, and what a theorem needs of them is
  among its hypotheses.
\<close>

section \<open>Tokens\<close>

record TokenClaims =
  tc_UserID :: ident
  tc_Username :: string
  tc_IsAdmin :: bool
  tc_Subject :: string
  tc_IssuedAt :: time
  tc_ExpiresAt :: time

record auth_config =
  ac_jwtSecret :: string
  ac_accessExpiry :: time
  ac_refreshExpiry :: time
  ac_inviteExpiry :: time

type_synonym signer = "string \<Rightarrow> TokenClaims \<Rightarrow> error + string"
type_synonym parser = "(string \<Rightarrow> error + string) \<Rightarrow> time \<Rightarrow> string \<Rightarrow> error + (TokenClaims \<times> bool)"

definition generateToken :: "signer \<Rightarrow> auth_config \<Rightarrow> time \<Rightarrow> User \<Rightarrow> time \<Rightarrow> string \<Rightarrow> error + string" where
  "generateToken sign cfg now u expiry subject =
     (case sign (ac_jwtSecret cfg) \<lparr>tc_UserID = u_ID u, tc_Username = u_Username u, tc_IsAdmin = u_IsAdmin u,
          tc_Subject = subject, tc_IssuedAt = now, tc_ExpiresAt = now + expiry\<rparr> of
        Inl err \<Rightarrow> Inl (''signing token: '' @ err)
      | Inr t \<Rightarrow> Inr t)"

definition token_key :: "auth_config \<Rightarrow> string \<Rightarrow> error + string" where
  "token_key cfg alg =
     (if alg \<in> {''HS256'', ''HS384'', ''HS512''} then Inr (ac_jwtSecret cfg)
      else Inl (''unexpected signing method: '' @ alg))"

definition ValidateToken :: "parser \<Rightarrow> auth_config \<Rightarrow> time \<Rightarrow> string \<Rightarrow> error + TokenClaims" where
  "ValidateToken parse cfg now token =
     (case parse (token_key cfg) now token of
        Inl err \<Rightarrow> Inl (''parsing token: '' @ err)
      | Inr (claims, valid) \<Rightarrow> if \<not> valid then Inl ''invalid token claims'' else Inr claims)"

section \<open>Credentials\<close>

definition invalid_credentials :: error where "invalid_credentials = ''invalid credentials''"

text \<open>The three checks that \<open>Login\<close> and \<open>AuthenticateBasicAuth\<close> both make.\<close>

definition AuthenticateBasicAuth :: "(string \<Rightarrow> string \<Rightarrow> bool) \<Rightarrow> string \<Rightarrow> string \<Rightarrow> users \<Rightarrow> error + User" where
  "AuthenticateBasicAuth compare username password s =
     (case UserStore_GetByUsername username s of
        Inl _ \<Rightarrow> Inl invalid_credentials
      | Inr u \<Rightarrow>
          if u_PasswordHash u = '''' then Inl invalid_credentials
          else if \<not> compare (u_PasswordHash u) password then Inl invalid_credentials
          else Inr u)"

definition Login ::
    "(string \<Rightarrow> string \<Rightarrow> bool) \<Rightarrow> signer \<Rightarrow> auth_config \<Rightarrow> time \<Rightarrow> time \<Rightarrow> string \<Rightarrow> string \<Rightarrow> users
      \<Rightarrow> error + (string \<times> string)" where
  "Login compare sign cfg now1 now2 username password s =
     (case UserStore_GetByUsername username s of
        Inl _ \<Rightarrow> Inl invalid_credentials
      | Inr u \<Rightarrow>
          if u_PasswordHash u = '''' then Inl invalid_credentials
          else if \<not> compare (u_PasswordHash u) password then Inl invalid_credentials
          else
            (case generateToken sign cfg now1 u (ac_accessExpiry cfg) ''access'' of
               Inl err \<Rightarrow> Inl (''generating access token: '' @ err)
             | Inr accessToken \<Rightarrow>
                 (case generateToken sign cfg now2 u (ac_refreshExpiry cfg) ''refresh'' of
                    Inl err \<Rightarrow> Inl (''generating refresh token: '' @ err)
                  | Inr refreshToken \<Rightarrow> Inr (accessToken, refreshToken))))"

definition RefreshToken ::
    "signer \<Rightarrow> parser \<Rightarrow> auth_config \<Rightarrow> time \<Rightarrow> time \<Rightarrow> string \<Rightarrow> users \<Rightarrow> error + string" where
  "RefreshToken sign parse cfg now1 now2 refreshToken s =
     (case ValidateToken parse cfg now1 refreshToken of
        Inl err \<Rightarrow> Inl (''invalid refresh token: '' @ err)
      | Inr claims \<Rightarrow>
          if tc_Subject claims \<noteq> ''refresh'' then Inl ''token is not a refresh token''
          else
            (case UserStore_GetByID (tc_UserID claims) s of
               Inl err \<Rightarrow> Inl (''user no longer exists: '' @ err)
             | Inr u \<Rightarrow>
                 (case generateToken sign cfg now2 u (ac_accessExpiry cfg) ''access'' of
                    Inl err \<Rightarrow> Inl (''generating access token: '' @ err)
                  | Inr t \<Rightarrow> Inr t)))"

section \<open>Users and invites\<close>

definition new_user :: "string \<Rightarrow> User" where
  "new_user username = \<lparr>u_ID = '''', u_Username = username, u_PasswordHash = '''', u_IsAdmin = False,
     u_InviteToken = None, u_InviteExpiresAt = None, u_CreatedAt = 0, u_UpdatedAt = 0\<rparr>"

definition CreateUser ::
    "(string \<Rightarrow> error + string) \<Rightarrow> env \<Rightarrow> string \<Rightarrow> string \<Rightarrow> bool \<Rightarrow> users \<Rightarrow> error option \<times> users" where
  "CreateUser hash e username password isAdmin s =
     (case hash password of
        Inl err \<Rightarrow> (Some (''hashing password: '' @ err), s)
      | Inr h \<Rightarrow>
          (case UserStore_Create e ((new_user username)\<lparr>u_PasswordHash := h, u_IsAdmin := isAdmin\<rparr>) s of
             (Some err, s') \<Rightarrow> (Some (''creating user: '' @ err), s')
           | (None, s') \<Rightarrow> (None, s')))"

definition UpdateUser ::
    "(string \<Rightarrow> error + string) \<Rightarrow> env \<Rightarrow> User \<Rightarrow> string \<Rightarrow> users \<Rightarrow> error option \<times> users" where
  "UpdateUser hash e u newPassword s =
     (case (if newPassword \<noteq> '''' then hash newPassword else Inr (u_PasswordHash u)) of
        Inl err \<Rightarrow> (Some (''hashing password: '' @ err), s)
      | Inr h \<Rightarrow>
          (case UserStore_Update e (u\<lparr>u_PasswordHash := h\<rparr>) s of
             (Some err, s') \<Rightarrow> (Some (''updating user: '' @ err), s')
           | (None, s') \<Rightarrow> (None, s')))"

definition DeleteUser :: "env \<Rightarrow> ident \<Rightarrow> users \<Rightarrow> error option \<times> users" where
  "DeleteUser e i s = (case UserStore_Delete e i s of
      (Some err, s') \<Rightarrow> (Some (''deleting user: '' @ err), s') | (None, s') \<Rightarrow> (None, s'))"




section \<open>The middleware\<close>

record ContextUser =
  cu_UserID :: ident
  cu_Username :: string
  cu_IsAdmin :: bool

text \<open>What the middleware reads of a request.\<close>

record auth_request =
  ar_apiKey :: string
  ar_authorization :: string
  ar_token :: string

record auth_middleware =
  am_apiKey :: string
  am_adminUserID :: ident

text \<open>\<open>Inl\<close> is the 401 answer with its message, \<open>Inr\<close> the user in the context of the handler.\<close>

definition Authenticate ::
    "parser \<Rightarrow> auth_config \<Rightarrow> time \<Rightarrow> auth_middleware \<Rightarrow> auth_request \<Rightarrow> string + ContextUser" where
  "Authenticate parse cfg now m r =
     (if am_apiKey m \<noteq> '''' \<and> ar_apiKey r = am_apiKey m
      then Inr \<lparr>cu_UserID = am_adminUserID m, cu_Username = ''api-key'', cu_IsAdmin = True\<rparr>
      else
        (case (if ar_authorization r \<noteq> '''' \<and> HasPrefix (ar_authorization r) ''Bearer ''
               then Some (TrimPrefix (ar_authorization r) ''Bearer '')
               else if ar_token r \<noteq> '''' then Some (ar_token r) else None) of
           None \<Rightarrow> Inl ''missing or invalid authorization header''
         | Some token \<Rightarrow>
             (case ValidateToken parse cfg now token of
                Inl _ \<Rightarrow> Inl ''invalid token''
              | Inr claims \<Rightarrow> Inr \<lparr>cu_UserID = tc_UserID claims, cu_Username = tc_Username claims,
                  cu_IsAdmin = tc_IsAdmin claims\<rparr>)))"

definition RequireAdmin :: "string + ContextUser \<Rightarrow> bool" where
  "RequireAdmin u = (case u of Inl _ \<Rightarrow> False | Inr c \<Rightarrow> cu_IsAdmin c)"

section \<open>Logging in\<close>

lemma basic_auth_Inr:
  "AuthenticateBasicAuth compare n pw s = Inr u \<longleftrightarrow>
     (\<exists>x. find (\<lambda>x. ue_name x = n) s = Some x \<and> u = hydrateUser x \<and> ue_PasswordHash x \<noteq> ''''
        \<and> compare (ue_PasswordHash x) pw)"
  by (auto simp: AuthenticateBasicAuth_def UserStore_GetByUsername_def hydrateUser_def not_found_def
      split: option.splits)

lemma Login_needs_password_fact:
  assumes "Login compare sign cfg now1 now2 n pw s = Inr (a, r)"
  shows "\<exists>x \<in> set s. ue_name x = n \<and> ue_PasswordHash x \<noteq> '''' \<and> compare (ue_PasswordHash x) pw
    \<and> AuthenticateBasicAuth compare n pw s = Inr (hydrateUser x)
    \<and> generateToken sign cfg now1 (hydrateUser x) (ac_accessExpiry cfg) ''access'' = Inr a
    \<and> generateToken sign cfg now2 (hydrateUser x) (ac_refreshExpiry cfg) ''refresh'' = Inr r"
proof -
  obtain x where x: "find (\<lambda>x. ue_name x = n) s = Some x"
    using assms by (cases "find (\<lambda>x. ue_name x = n) s") (simp_all add: Login_def UserStore_GetByUsername_def)
  have eq: "UserStore_GetByUsername n s = Inr (hydrateUser x)" by (simp add: UserStore_GetByUsername_def x)
  from assms have "ue_PasswordHash x \<noteq> ''''" "compare (ue_PasswordHash x) pw"
    "generateToken sign cfg now1 (hydrateUser x) (ac_accessExpiry cfg) ''access'' = Inr a"
    "generateToken sign cfg now2 (hydrateUser x) (ac_refreshExpiry cfg) ''refresh'' = Inr r"
    unfolding Login_def eq by (auto simp: hydrateUser_def split: if_splits sum.splits)
  moreover from this have "AuthenticateBasicAuth compare n pw s = Inr (hydrateUser x)"
    using x by (auto simp: basic_auth_Inr)
  ultimately show ?thesis using find_SomeD [OF x] by blast
qed


text \<open>A stand-in for the two libraries: hashes are marked passwords, and a token is its subject,
  user and expiry, not yet expired.\<close>

definition toy_compare :: "string \<Rightarrow> string \<Rightarrow> bool" where "toy_compare h pw = (h = CHR ''#'' # pw)"
definition toy_claims :: "string \<Rightarrow> TokenClaims" where
  "toy_claims subject = \<lparr>tc_UserID = ''1'', tc_Username = ''eve'', tc_IsAdmin = False, tc_Subject = subject,
     tc_IssuedAt = 0, tc_ExpiresAt = (if subject = ''access'' then 10 else 100)\<rparr>"

definition toy_sign :: signer where
  "toy_sign k c = (if c = toy_claims (tc_Subject c) then Inr (k @ tc_Subject c) else Inl ''unknown claims'')"

definition toy_parse :: parser where
  "toy_parse kf now t = (case kf ''HS256'' of
     Inl err \<Rightarrow> Inl err
   | Inr k \<Rightarrow> let c = toy_claims (drop (length k) t) in
       if prefix k t \<and> now < tc_ExpiresAt c then Inr (c, True) else Inl ''expired'')"

definition toy_config :: auth_config where
  "toy_config = \<lparr>ac_jwtSecret = ''k'', ac_accessExpiry = 10, ac_refreshExpiry = 100, ac_inviteExpiry = 0\<rparr>"

definition toy_users :: users where
  "toy_users = [(example_user ''1'' ''eve'')\<lparr>ue_PasswordHash := ''#pw''\<rparr>]"


section \<open>Tokens\<close>

text \<open>\<open>ValidateToken\<close> and the middleware do not look at the subject of a token, so the
  refresh token of a login authenticates requests like an access token, with the rights of
  the user, until it expires. (Hypothesis on the library: a token signed with the secret and
  not expired is parsed back to its claims.)\<close>

theorem refresh_token_authenticates:
  assumes "Login compare sign cfg now1 now2 n pw s = Inr (a, r)"
    and "\<And>c t. sign (ac_jwtSecret cfg) c = Inr t \<Longrightarrow> now < tc_ExpiresAt c \<Longrightarrow>
      parse (token_key cfg) now t = Inr (c, True)"
    and "now < now2 + ac_refreshExpiry cfg" and "ar_apiKey q \<noteq> am_apiKey m \<or> am_apiKey m = ''''"
    and "ar_authorization q = ''Bearer '' @ r"
  shows "\<exists>x \<in> set s. ue_name x = n \<and> Authenticate parse cfg now m q =
    Inr \<lparr>cu_UserID = ue_id x, cu_Username = n, cu_IsAdmin = u_IsAdmin (ue_User x)\<rparr>"
proof -
  from Login_needs_password_fact [OF assms(1)] obtain x where x: "x \<in> set s" "ue_name x = n"
    and g: "generateToken sign cfg now2 (hydrateUser x) (ac_refreshExpiry cfg) ''refresh'' = Inr r" by blast
  let ?c = "\<lparr>tc_UserID = ue_id x, tc_Username = n, tc_IsAdmin = u_IsAdmin (ue_User x), tc_Subject = ''refresh'',
    tc_IssuedAt = now2, tc_ExpiresAt = now2 + ac_refreshExpiry cfg\<rparr>"
  from g x(2) have "sign (ac_jwtSecret cfg) ?c = Inr r"
    by (auto simp: generateToken_def hydrateUser_def ue_id_def ue_name_def split: sum.splits)
  from assms(2) [OF this] assms(3) have "ValidateToken parse cfg now r = Inr ?c"
    by (simp add: ValidateToken_def)
  moreover have "TrimPrefix (''Bearer '' @ r) ''Bearer '' = r" "HasPrefix (''Bearer '' @ r) ''Bearer ''"
    by (simp_all add: TrimPrefix_def HasPrefix_def)
  ultimately show ?thesis
    using assms(4,5) x by (intro bexI [of _ x]) (auto simp: Authenticate_def)
qed

theorem refresh_token_authenticates_witness:
  "Authenticate toy_parse toy_config 50 \<lparr>am_apiKey = '''', am_adminUserID = ''0''\<rparr>
     \<lparr>ar_apiKey = '''', ar_authorization = ''Bearer krefresh'', ar_token = ''''\<rparr>
   = Inr \<lparr>cu_UserID = ''1'', cu_Username = ''eve'', cu_IsAdmin = False\<rparr>"
proof -
  have login: "Login toy_compare toy_sign toy_config 0 0 ''eve'' ''pw'' toy_users = Inr (''kaccess'', ''krefresh'')"
    by code_simp
  let ?m = "\<lparr>am_apiKey = '''', am_adminUserID = ''0''\<rparr>"
  let ?q = "\<lparr>ar_apiKey = '''', ar_authorization = ''Bearer krefresh'', ar_token = ''''\<rparr>"
  have "\<exists>x \<in> set toy_users. ue_name x = ''eve'' \<and> Authenticate toy_parse toy_config 50 ?m ?q =
    Inr \<lparr>cu_UserID = ue_id x, cu_Username = ''eve'', cu_IsAdmin = u_IsAdmin (ue_User x)\<rparr>"
    by (rule refresh_token_authenticates [OF login])
       (auto simp: toy_parse_def toy_sign_def token_key_def toy_config_def Let_def split: if_splits)
  then show ?thesis by (auto simp: toy_users_def example_user_def ue_id_def)
qed

text \<open>C32: a new access token is given only for a valid refresh token of a user who still exists,
  and carries the rights the user has now, not those in the old token.\<close>

theorem RefreshToken_current_rights:
  assumes "RefreshToken sign parse cfg now1 now2 t s = Inr t'"
  shows "\<exists>claims x. ValidateToken parse cfg now1 t = Inr claims \<and> tc_Subject claims = ''refresh''
    \<and> x \<in> set s \<and> ue_id x = tc_UserID claims
    \<and> sign (ac_jwtSecret cfg) \<lparr>tc_UserID = tc_UserID claims, tc_Username = ue_name x,
        tc_IsAdmin = u_IsAdmin (ue_User x), tc_Subject = ''access'', tc_IssuedAt = now2,
        tc_ExpiresAt = now2 + ac_accessExpiry cfg\<rparr> = Inr t'"
proof -
  obtain claims where c: "ValidateToken parse cfg now1 t = Inr claims" "tc_Subject claims = ''refresh''"
    using assms by (auto simp: RefreshToken_def split: sum.splits if_splits)
  then obtain u where u: "UserStore_GetByID (tc_UserID claims) s = Inr u"
    and g: "generateToken sign cfg now2 u (ac_accessExpiry cfg) ''access'' = Inr t'"
    using assms by (auto simp: RefreshToken_def split: sum.splits if_splits)
  obtain x where x: "x \<in> set s" "ue_id x = tc_UserID claims" "hydrateUser x = u"
    using user.get_Inr [OF u] by blast
  from g x have "sign (ac_jwtSecret cfg) \<lparr>tc_UserID = tc_UserID claims, tc_Username = ue_name x,
      tc_IsAdmin = u_IsAdmin (ue_User x), tc_Subject = ''access'', tc_IssuedAt = now2,
      tc_ExpiresAt = now2 + ac_accessExpiry cfg\<rparr> = Inr t'"
    by (auto simp: generateToken_def hydrateUser_def ue_id_def ue_name_def split: sum.splits)
  with c x show ?thesis by blast
qed

theorem RefreshToken_current_rights_witness:
  "\<exists>claims. ValidateToken toy_parse toy_config 0 ''krefresh'' = Inr claims
     \<and> RefreshToken toy_sign toy_parse toy_config 0 0 ''krefresh'' toy_users = Inr ''kaccess''
     \<and> tc_Subject claims = ''refresh''"
proof -
  have "RefreshToken toy_sign toy_parse toy_config 0 0 ''krefresh'' toy_users = Inr ''kaccess''" by code_simp
  from this RefreshToken_current_rights [OF this] show ?thesis by blast
qed

section \<open>Invites\<close>









end
