(* ===== verification/Paths.thy ===== *)
theory Paths
  imports Prelude
begin

text \<open>
  The part of \<open>path/filepath\<close> (on Unix) the session and recording code uses: \<open>Clean\<close>, \<open>Join\<close>,
  \<open>Base\<close> and \<open>Ext\<close>. A path is read as the list of its components; \<open>Join\<close> with plain components
  appends exactly those components, so that a checked name cannot leave its directory.
\<close>

section \<open>Components\<close>

fun split_slash :: "string \<Rightarrow> string list" where
  "split_slash [] = [[]]"
| "split_slash (c # s) = (if c = CHR ''/'' then [] # split_slash s
     else case split_slash s of [] \<Rightarrow> [[c]] | w # ws \<Rightarrow> (c # w) # ws)"

fun join_slash :: "string list \<Rightarrow> string" where
  "join_slash [] = []"
| "join_slash [w] = w"
| "join_slash (w # ws) = w @ CHR ''/'' # join_slash ws"

definition rooted :: "string \<Rightarrow> bool" where
  "rooted p \<longleftrightarrow> (case p of [] \<Rightarrow> False | c # _ \<Rightarrow> c = CHR ''/'')"

text \<open>One component seen by \<open>Clean\<close>; the output so far is kept in reverse.\<close>

definition clean_step :: "bool \<Rightarrow> string \<Rightarrow> string list \<Rightarrow> string list" where
  "clean_step r w out =
     (if w = [] \<or> w = ''.'' then out
      else if w = ''..'' then
        (case out of [] \<Rightarrow> if r then [] else [''..'']
         | x # xs \<Rightarrow> if x = ''..'' then ''..'' # out else xs)
      else w # out)"

definition parts :: "string \<Rightarrow> string list" where
  "parts p = rev (fold (clean_step (rooted p)) (split_slash p) [])"

definition Clean :: "string \<Rightarrow> string" where
  "Clean p = (if rooted p then CHR ''/'' # join_slash (parts p)
     else if parts p = [] then ''.'' else join_slash (parts p))"

definition Join :: "string list \<Rightarrow> string" where
  "Join es = (case dropWhile (\<lambda>e. e = []) es of [] \<Rightarrow> [] | fs \<Rightarrow> Clean (join_slash fs))"

definition Base :: "string \<Rightarrow> string" where
  "Base p = (if p = [] then ''.''
     else let q = rev (dropWhile (\<lambda>c. c = CHR ''/'') (rev p));
              b = rev (takeWhile (\<lambda>c. c \<noteq> CHR ''/'') (rev q))
          in if b = [] then ''/'' else b)"

definition Ext :: "string \<Rightarrow> string" where
  "Ext p = (let b = takeWhile (\<lambda>c. c \<noteq> CHR ''/'') (rev p);
                e = takeWhile (\<lambda>c. c \<noteq> CHR ''.'') b
            in if length e < length b then CHR ''.'' # rev e else [])"

text \<open>A plain component is a file name: not empty, not a dot component, without a separator.\<close>

definition plain_part :: "string \<Rightarrow> bool" where
  "plain_part w \<longleftrightarrow> w \<noteq> [] \<and> w \<noteq> ''.'' \<and> w \<noteq> ''..'' \<and> CHR ''/'' \<notin> set w"

section \<open>Splitting and joining\<close>

lemma split_slash_nonempty [simp]: "split_slash s \<noteq> []"
  by (cases s) (auto split: list.splits)

lemma split_slash_append: "split_slash (a @ CHR ''/'' # b) = split_slash a @ split_slash b"
  by (induction a) (auto split: list.splits)

lemma split_slash_plain: "CHR ''/'' \<notin> set w \<Longrightarrow> split_slash w = [w]"
  by (induction w) auto

lemma split_slash_no_slash: "w \<in> set (split_slash s) \<Longrightarrow> CHR ''/'' \<notin> set w"
proof (induction s arbitrary: w)
  case (Cons c s)
  then show ?case by (cases "split_slash s") (auto split: if_splits)
qed simp

lemma join_slash_Cons: "ws \<noteq> [] \<Longrightarrow> join_slash (w # ws) = w @ CHR ''/'' # join_slash ws"
  by (cases ws) simp_all

lemma split_join:
  "ws \<noteq> [] \<Longrightarrow> \<forall>w \<in> set ws. CHR ''/'' \<notin> set w \<Longrightarrow> split_slash (join_slash ws) = ws"
proof (induction ws)
  case (Cons w ws)
  then show ?case by (cases ws) (simp_all add: split_slash_append split_slash_plain)
qed simp

lemma rooted_append: "rooted (a @ b) \<longleftrightarrow> (if a = [] then rooted b else rooted a)"
  by (cases a) (simp_all add: rooted_def)

section \<open>The output of \<open>Clean\<close>\<close>

text \<open>Reversed outputs: dot-dot components only at the bottom, none under a root.\<close>

definition clean_out :: "bool \<Rightarrow> string list \<Rightarrow> bool" where
  "clean_out r out \<longleftrightarrow> (\<exists>ws n. out = ws @ replicate n ''..'' \<and> list_all plain_part ws \<and> (r \<longrightarrow> n = 0))"

lemma clean_step_plain: "plain_part w \<Longrightarrow> clean_step r w out = w # out"
  by (simp add: clean_step_def plain_part_def)

lemma fold_clean_plain: "list_all plain_part ws \<Longrightarrow> fold (clean_step r) ws out = rev ws @ out"
  by (induction ws arbitrary: out) (simp_all add: clean_step_plain)

lemma clean_step_out:
  assumes "clean_out r out" "CHR ''/'' \<notin> set w"
  shows "clean_out r (clean_step r w out)"
proof -
  obtain ws n where o: "out = ws @ replicate n ''..''" "list_all plain_part ws" "r \<longrightarrow> n = 0"
    using assms(1) by (auto simp: clean_out_def)
  consider "w = [] \<or> w = ''.''" | "w = ''..''" | "plain_part w"
    using assms(2) by (auto simp: plain_part_def)
  then show ?thesis
  proof cases
    case 1 then show ?thesis using assms(1) by (simp add: clean_step_def)
  next
    case 3
    then have "clean_step r w out = (w # ws) @ replicate n ''..''" using o by (simp add: clean_step_plain)
    then show ?thesis using o 3 unfolding clean_out_def by (intro exI [of _ "w # ws"] exI [of _ n]) simp
  next
    case 2
    show ?thesis
    proof (cases ws)
      case Nil
      have "clean_step r w out = [] @ replicate (if r then 0 else Suc n) ''..''"
        using o 2 Nil by (cases n) (auto simp: clean_step_def)
      then show ?thesis unfolding clean_out_def
        by (intro exI [of _ "[]"] exI [of _ "if r then 0 else Suc n"]) simp
    next
      case (Cons v vs)
      then have "clean_step r w out = vs @ replicate n ''..''"
        using o 2 by (simp add: clean_step_def plain_part_def)
      then show ?thesis using o Cons unfolding clean_out_def by (intro exI [of _ vs] exI [of _ n]) simp
    qed
  qed
qed

lemma fold_clean_out:
  "\<forall>w \<in> set ws. CHR ''/'' \<notin> set w \<Longrightarrow> clean_out r out \<Longrightarrow> clean_out r (fold (clean_step r) ws out)"
  by (induction ws arbitrary: out) (simp_all add: clean_step_out)

lemma parts_out: "clean_out (rooted p) (rev (parts p))"
proof -
  have "clean_out (rooted p) []" by (auto simp: clean_out_def intro: exI [of _ "[]"])
  then show ?thesis unfolding parts_def using split_slash_no_slash by (simp add: fold_clean_out)
qed

lemma fold_dotdot:
  "fold (clean_step False) (replicate n ''..'') (replicate k ''..'') = replicate (n + k) ''..''"
proof (induction n arbitrary: k)
  case (Suc n)
  have "clean_step False ''..'' (replicate k ''..'') = replicate (Suc k) ''..''"
    by (cases k) (simp_all add: clean_step_def)
  then show ?case using Suc [of "Suc k"] by simp
qed simp

text \<open>Cleaning the components of a clean path changes nothing.\<close>

lemma fold_clean_parts: "fold (clean_step (rooted p)) (parts p) [] = rev (parts p)"
proof -
  obtain ws n where o: "rev (parts p) = ws @ replicate n ''..''" "list_all plain_part ws" "rooted p \<longrightarrow> n = 0"
    using parts_out [of p] by (auto simp: clean_out_def)
  have "rev (rev (parts p)) = rev (ws @ replicate n ''..'')" by (simp only: o(1))
  then have p: "parts p = replicate n ''..'' @ rev ws" by simp
  have f: "fold (clean_step (rooted p)) (replicate n ''..'') [] = replicate n ''..''"
    using o(3) fold_dotdot [of n 0] by (cases "rooted p") simp_all
  have "list_all plain_part (rev ws)" using o(2) by (simp add: list_all_iff)
  then have "fold (clean_step r) (replicate n ''..'' @ rev ws) [] = ws @ fold (clean_step r) (replicate n ''..'') []" for r
    by (simp add: fold_clean_plain)
  then have "fold (clean_step (rooted p)) (replicate n ''..'' @ rev ws) [] = ws @ replicate n ''..''"
    by (simp only: f)
  then show ?thesis by (simp only: p o(1) flip: p)
qed

lemma parts_no_slash: "w \<in> set (parts p) \<Longrightarrow> CHR ''/'' \<notin> set w \<and> w \<noteq> []"
proof -
  obtain ws n where o: "rev (parts p) = ws @ replicate n ''..''" "list_all plain_part ws"
    using parts_out [of p] by (auto simp: clean_out_def)
  assume "w \<in> set (parts p)"
  then have "w \<in> set (rev (parts p))" by simp
  then have "w \<in> set (ws @ replicate n ''..'')" by (simp only: o(1))
  then consider "w \<in> set ws" | "w = ''..''" by (auto split: if_splits)
  then show ?thesis using o(2) by cases (simp_all add: list_all_iff plain_part_def)
qed

lemma rooted_join: "ws \<noteq> [] \<Longrightarrow> hd ws \<noteq> [] \<Longrightarrow> rooted (join_slash ws) = rooted (hd ws)"
  by (cases ws rule: join_slash.cases) (simp_all add: rooted_append)

lemma parts_Clean: "parts (Clean p) = parts p" and rooted_Clean: "rooted (Clean p) = rooted p"
proof -
  have ns: "\<forall>w \<in> set (parts p). CHR ''/'' \<notin> set w" using parts_no_slash by blast
  have r: "rooted (Clean p) = rooted p"
  proof (cases "rooted p \<or> parts p = []")
    case False
    then have "rooted (join_slash (parts p)) = rooted (hd (parts p))"
      using parts_no_slash [of "hd (parts p)" p] by (intro rooted_join) auto
    moreover have "\<not> rooted (hd (parts p))"
      using False parts_no_slash [of "hd (parts p)" p] hd_in_set [of "parts p"]
      by (cases "hd (parts p)") (auto simp: rooted_def)
    ultimately show ?thesis using False by (simp add: Clean_def)
  qed (auto simp: Clean_def rooted_def)
  then show "rooted (Clean p) = rooted p" .
  have e: "fold (clean_step (rooted p)) (split_slash (join_slash (parts p))) [] = rev (parts p)" if "parts p \<noteq> []"
    using that ns by (simp add: split_join fold_clean_parts)
  have "fold (clean_step (rooted p)) (split_slash (Clean p)) [] = rev (parts p)"
  proof (cases "parts p = []")
    case True then show ?thesis by (simp add: Clean_def clean_step_def)
  next
    case False
    then show ?thesis using e by (cases "rooted p") (simp_all add: Clean_def clean_step_def)
  qed
  then show "parts (Clean p) = parts p" unfolding parts_def [of "Clean p"] r by simp
qed

section \<open>Joining plain components\<close>

lemma parts_slash_plain:
  assumes "p \<noteq> []" "ws \<noteq> []" "list_all plain_part ws"
  shows "parts (p @ CHR ''/'' # join_slash ws) = parts p @ ws"
proof -
  have "rooted (p @ CHR ''/'' # join_slash ws) = rooted p" using assms(1) by (simp add: rooted_append)
  moreover have "split_slash (join_slash ws) = ws"
    using assms(2,3) by (intro split_join) (auto simp: list_all_iff plain_part_def)
  ultimately show ?thesis using assms(3) by (simp add: parts_def split_slash_append fold_clean_plain)
qed

lemma parts_Join:
  assumes "p \<noteq> []" "list_all plain_part ws"
  shows "parts (Join (p # ws)) = parts p @ ws"
proof (cases "ws = []")
  case False
  then show ?thesis using assms parts_slash_plain [of p ws] by (simp add: Join_def join_slash_Cons parts_Clean)
qed (use assms in \<open>simp add: Join_def parts_Clean\<close>)

lemma Clean_inject: "rooted p = rooted q \<Longrightarrow> parts p = parts q \<Longrightarrow> Clean p = Clean q"
  by (simp add: Clean_def)

end
