(* ===== verification/SessionManager.thy ===== *)
theory SessionManager
  imports Complex_Main Stores Paths "HOL-Library.AList"
begin

text \<open>
  The session manager (\<open>pkg/session/session.go\<close>, \<open>pkg/session/manager.go\<close>): one session per
  channel with its consumers, shared by viewers and recordings. Sessions live in a heap, because
  a goroutine keeps the pointer it looked up while the map changes under it. The operations are
  cut at the points where the code gives up a lock, waits, or acts on a flag it has read without
  one: \<open>proc\<close> is what a call still has to do, \<open>proc_step\<close> runs one such section, \<open>mgr_sect\<close> has
  the sections of all calls and the ends of pipelines, and \<open>mgr_step\<close> interleaves them, keeping
  the manager's lock while a dead session is replaced.
\<close>

section \<open>Sessions\<close>

definition ConsumerViewer :: string where "ConsumerViewer = ''viewer''"
definition ConsumerRecording :: string where "ConsumerRecording = ''recording''"

record Consumer =
  cn_ID :: ident
  cn_Type :: string
  cn_CreatedAt :: time

record VideoInfo =
  vi_Codec :: string
  vi_Profile :: string
  vi_PixFmt :: string
  vi_BitDepth :: int
  vi_Interlaced :: bool
  vi_FPS :: string
  vi_BitRate :: string

record MediaAudioTrack =
  at_Index :: int
  at_Language :: string
  at_Codec :: string
  at_SampleRate :: string
  at_Channels :: int
  at_BitRate :: string

text \<open>The options a session is started with; the encoder settings that only the pipeline reads
  are left out. Positions and durations (\<open>float64\<close>) are only stored and compared with zero.\<close>

record StartOpts =
  so_ChannelID :: ident
  so_StreamID :: ident
  so_StreamURL :: string
  so_StreamName :: string
  so_ChannelName :: string
  so_ProfileName :: string
  so_OutputVideoCodec :: string
  so_OutputAudioCodec :: string
  so_OutputContainer :: string
  so_OutputHWAccel :: string
  so_Delivery :: string
  so_UseWireGuard :: bool
  so_KnownDuration :: real
  so_SeekOffset :: real
  so_OutputDir :: string
  so_MetadataOnly :: bool

text \<open>\<open>done\<close> is a channel that a restart replaces: \<open>ss_gen\<close> numbers the current one and
  \<open>ss_closed\<close> the closed ones. \<open>ss_running\<close> counts the pipeline goroutines of the session.\<close>

record Session =
  ss_ID :: ident
  ss_ChannelID :: ident
  ss_StreamID :: ident
  ss_StreamURL :: string
  ss_StreamName :: string
  ss_ChannelName :: string
  ss_ProfileName :: string
  ss_OutputVideoCodec :: string
  ss_OutputAudioCodec :: string
  ss_OutputContainer :: string
  ss_OutputHWAccel :: string
  ss_Delivery :: string
  ss_UseWireGuard :: bool
  ss_FilePath :: string
  ss_TempDir :: string
  ss_OutputDir :: string
  ss_Duration :: real
  ss_SeekOffset :: real
  ss_Video :: "VideoInfo option"
  ss_AudioTracks :: "MediaAudioTrack list"
  ss_Recorded :: bool
  ss_watcher :: bool
  ss_startOpts :: StartOpts
  ss_consumers :: "(ident \<times> Consumer) list"
  ss_wasRecording :: bool
  ss_cancelled :: bool
  ss_stopPipeline :: bool
  ss_seekFunc :: bool
  ss_seekVersion :: u64
  ss_gen :: nat
  ss_closed :: "nat list"
  ss_running :: nat
  ss_err :: "error option"

definition addConsumer :: "Consumer \<Rightarrow> Session \<Rightarrow> Session" where
  "addConsumer c s = s\<lparr>ss_consumers := AList.update (cn_ID c) c (ss_consumers s),
     ss_wasRecording := (ss_wasRecording s \<or> cn_Type c = ConsumerRecording)\<rparr>"

definition removeConsumer :: "ident \<Rightarrow> Session \<Rightarrow> nat \<times> Session" where
  "removeConsumer i s = (let cs = AList.delete i (ss_consumers s) in (length cs, s\<lparr>ss_consumers := cs\<rparr>))"

definition consumerCount :: "Session \<Rightarrow> nat" where
  "consumerCount s = length (ss_consumers s)"

definition HasRecordingConsumer :: "Session \<Rightarrow> bool" where
  "HasRecordingConsumer s \<longleftrightarrow> list_ex (\<lambda>(i, c). cn_Type c = ConsumerRecording) (ss_consumers s)"

definition Record :: "Session \<Rightarrow> Session" where
  "Record s = s\<lparr>ss_Recorded := True\<rparr>"

definition isDone :: "Session \<Rightarrow> bool" where
  "isDone s \<longleftrightarrow> ss_gen s \<in> set (ss_closed s)"

definition markDone :: "Session \<Rightarrow> Session" where
  "markDone s = (if isDone s then s else s\<lparr>ss_closed := ss_gen s # ss_closed s\<rparr>)"

definition SetProbeInfo :: "VideoInfo option \<Rightarrow> MediaAudioTrack list \<Rightarrow> real \<Rightarrow> Session \<Rightarrow> Session" where
  "SetProbeInfo v as d s =
     (let s1 = (if v \<noteq> None then s\<lparr>ss_Video := v\<rparr> else s);
          s2 = (if as \<noteq> [] then s1\<lparr>ss_AudioTracks := as\<rparr> else s1)
      in if d > 0 then s2\<lparr>ss_Duration := d\<rparr> else s2)"

section \<open>The manager\<close>

datatype remover = Replaced | Cleaned | Stopped

text \<open>What the manager does outside its own memory, in order: starting a pipeline, calling the
  stop and seek functions the pipeline installed, the cleanup callback, closing and resetting the
  watcher, removing what a pipeline wrote (segments, probe and media files), writing the session's
  metadata and removing a directory.\<close>

datatype session_call =
    RunPipeline nat
  | StopFn nat
  | SeekFn nat real
  | OnCleanup ident
  | WatcherClose nat
  | WatcherReset nat
  | ClearOutput nat
  | WriteMeta ident ident
  | RemoveAll remover nat string

text \<open>What a call still has to do, cut at the locks and waits: the consumer whose session was
  looked up, the check after the last consumer left, \<open>stopAndCleanup\<close> before and after it
  unlinked the session, the wait for a pipeline, the steps of a restart and of the shutdown, the
  replacement of a dead session after it was taken out of the map, and a removal of a directory
  that the flags read before have allowed (with the sessions a shutdown still has to stop).\<close>

datatype proc =
    AddRecordingAt nat ident time
  | RecordAt nat
  | RemoveAt ident nat ident
  | CheckAt ident nat
  | CleanupAt ident nat
  | StopAt ident nat
  | WaitAt ident nat nat
  | SeekAt nat real
  | RestartAt nat real
  | ShutdownAt "nat list"
  | ShutdownWaitAt nat nat "nat list"
  | ShutdownCheckAt nat "nat list"
  | ReplaceAt nat
  | RemoveDirAt remover nat string "nat list"

record manager =
  m_heap :: "nat \<Rightarrow> Session option"
  m_next :: nat
  m_sessions :: "ident \<Rightarrow> nat option"
  m_procs :: "proc list"
  m_dirs :: "string set"
  m_calls :: "session_call list"

definition do_call :: "session_call \<Rightarrow> manager \<Rightarrow> manager" where
  "do_call c m = m\<lparr>m_calls := m_calls m @ [c]\<rparr>"

definition put_session :: "nat \<Rightarrow> Session \<Rightarrow> manager \<Rightarrow> manager" where
  "put_session a s m = m\<lparr>m_heap := (m_heap m)(a \<mapsto> s)\<rparr>"

text \<open>\<open>os.RemoveAll\<close> takes a directory and everything below it.\<close>

definition remove_all :: "remover \<Rightarrow> nat \<Rightarrow> string \<Rightarrow> manager \<Rightarrow> manager" where
  "remove_all r a d m = do_call (RemoveAll r a d)
     (m\<lparr>m_dirs := {e \<in> m_dirs m. \<not> prefix (parts d) (parts e)}\<rparr>)"

definition close_watcher :: "nat \<Rightarrow> Session \<Rightarrow> manager \<Rightarrow> manager" where
  "close_watcher a s m = (if ss_watcher s then do_call (WatcherClose a) m else m)"

text \<open>\<open>cleanupDoneSession\<close>: the session leaves the map and is cancelled; later the flag is read,
  and the directory is removed if it was not set. A section returns the sections that follow it.\<close>

definition replace_begin :: "ident \<Rightarrow> nat \<Rightarrow> Session \<Rightarrow> manager \<Rightarrow> manager" where
  "replace_begin ch a s m =
     put_session a (s\<lparr>ss_cancelled := True\<rparr>) (m\<lparr>m_sessions := (m_sessions m)(ch := None)\<rparr>)"

definition replace_check :: "nat \<Rightarrow> Session \<Rightarrow> manager \<Rightarrow> proc list \<times> manager" where
  "replace_check a s m = (if \<not> ss_Recorded s then [RemoveDirAt Replaced a (ss_TempDir s) []] else [],
     close_watcher a s m)"

definition cleanupDoneSession :: "ident \<Rightarrow> nat \<Rightarrow> Session \<Rightarrow> manager \<Rightarrow> manager" where
  "cleanupDoneSession ch a s m =
     (let (ps, m1) = replace_check a s (replace_begin ch a s m)
      in if ps \<noteq> [] then remove_all Replaced a (ss_TempDir s) m1 else m1)"

text \<open>Inputs of \<open>GetOrCreateWithConsumer\<close>: the clock, the identifiers \<open>uuid.New\<close> gives, the file
  name of \<open>media.SanitizeFilename\<close>, the directory the probe cache assigns (\<open>None\<close> without one),
  the outcome of \<open>os.MkdirAll\<close> and what the probe cache, if there is one, holds for a stream.\<close>

record session_in =
  si_opts :: StartOpts
  si_type :: string
  si_now :: time
  si_session :: ident
  si_consumer :: ident
  si_sanitize :: "string \<Rightarrow> time \<Rightarrow> string"
  si_active :: "(ident \<Rightarrow> string) option"
  si_mkdir :: "error option"
  si_probe :: "ident \<Rightarrow> (VideoInfo option \<times> MediaAudioTrack list \<times> real) option"

definition stream_key :: "StartOpts \<Rightarrow> ident" where
  "stream_key opts = (if so_StreamID opts = [] then so_ChannelID opts else so_StreamID opts)"

definition temp_dir :: "session_in \<Rightarrow> string" where
  "temp_dir i = (let d = (case si_active i of None \<Rightarrow> [] | Some f \<Rightarrow> f (stream_key (si_opts i)))
     in if d = [] then Join [so_OutputDir (si_opts i), stream_key (si_opts i), ''active''] else d)"

definition new_consumer :: "session_in \<Rightarrow> Consumer" where
  "new_consumer i = \<lparr>cn_ID = si_consumer i, cn_Type = si_type i, cn_CreatedAt = si_now i\<rparr>"

definition fresh_session :: "session_in \<Rightarrow> Session" where
  "fresh_session i = (let opts = si_opts i; dir = temp_dir i;
       ext = (if so_OutputContainer opts = ''mpegts'' then ''.ts'' else ''.mp4'')
     in \<lparr>ss_ID = si_session i, ss_ChannelID = so_ChannelID opts, ss_StreamID = so_StreamID opts,
         ss_StreamURL = so_StreamURL opts, ss_StreamName = so_StreamName opts,
         ss_ChannelName = so_ChannelName opts, ss_ProfileName = so_ProfileName opts,
         ss_OutputVideoCodec = so_OutputVideoCodec opts, ss_OutputAudioCodec = so_OutputAudioCodec opts,
         ss_OutputContainer = so_OutputContainer opts, ss_OutputHWAccel = so_OutputHWAccel opts,
         ss_Delivery = so_Delivery opts, ss_UseWireGuard = so_UseWireGuard opts,
         ss_FilePath = Join [dir, si_sanitize i (so_StreamName opts) (si_now i) @ ext],
         ss_TempDir = dir, ss_OutputDir = dir,
         ss_Duration = so_KnownDuration opts, ss_SeekOffset = so_SeekOffset opts,
         ss_Video = None, ss_AudioTracks = [], ss_Recorded = False, ss_watcher = False,
         ss_startOpts = opts, ss_consumers = [], ss_wasRecording = False, ss_cancelled = False,
         ss_stopPipeline = False, ss_seekFunc = False, ss_seekVersion = 0,
         ss_gen = 0, ss_closed = [], ss_running = 0, ss_err = None\<rparr>)"

definition new_session :: "session_in \<Rightarrow> Session" where
  "new_session i = (let s = addConsumer (new_consumer i) (fresh_session i); sid = so_StreamID (si_opts i)
     in if sid \<noteq> []
        then (case si_probe i sid of None \<Rightarrow> s | Some (v, as, d) \<Rightarrow> SetProbeInfo v as d s)
        else s)"

definition create_session :: "session_in \<Rightarrow> manager \<Rightarrow> (error + nat \<times> ident) \<times> manager" where
  "create_session i m =
     (case si_mkdir i of Some e \<Rightarrow> (Inl (''creating session dir: '' @ e), m)
      | None \<Rightarrow>
        let opts = si_opts i; a = m_next m; run = \<not> so_MetadataOnly opts;
            s = (new_session i)\<lparr>ss_running := (if run then 1 else 0)\<rparr>;
            m1 = m\<lparr>m_dirs := insert (temp_dir i) (m_dirs m), m_next := Suc a\<rparr>;
            m2 = (if si_active i \<noteq> None then do_call (WriteMeta (stream_key opts) (si_session i)) m1 else m1);
            m3 = put_session a s (m2\<lparr>m_sessions := (m_sessions m2)(so_ChannelID opts \<mapsto> a)\<rparr>)
        in (Inr (a, si_consumer i), if run then do_call (RunPipeline a) m3 else m3))"

definition GetOrCreateWithConsumer :: "session_in \<Rightarrow> manager \<Rightarrow> (error + nat \<times> ident) \<times> manager" where
  "GetOrCreateWithConsumer i m =
     (case m_sessions m (so_ChannelID (si_opts i)) of None \<Rightarrow> create_session i m
      | Some a \<Rightarrow> (case m_heap m a of None \<Rightarrow> create_session i m
        | Some s \<Rightarrow>
          if isDone s then create_session i (cleanupDoneSession (so_ChannelID (si_opts i)) a s m)
          else (Inr (a, si_consumer i), put_session a (addConsumer (new_consumer i) s) m)))"

section \<open>Calls that look a session up\<close>

definition AddRecordingConsumer :: "ident \<Rightarrow> time \<Rightarrow> ident \<Rightarrow> manager \<Rightarrow> ident \<times> proc list" where
  "AddRecordingConsumer cid now key m =
     (case m_sessions m key of None \<Rightarrow> ([], []) | Some a \<Rightarrow> (cid, [AddRecordingAt a cid now]))"

definition RemoveConsumer :: "ident \<Rightarrow> ident \<Rightarrow> manager \<Rightarrow> proc list" where
  "RemoveConsumer ch c m = (case m_sessions m ch of None \<Rightarrow> [] | Some a \<Rightarrow> [RemoveAt ch a c])"

definition RestartWithSeek :: "ident \<Rightarrow> real \<Rightarrow> manager \<Rightarrow> proc list" where
  "RestartWithSeek ch pos m = (case m_sessions m ch of None \<Rightarrow> [] | Some a \<Rightarrow> [SeekAt a pos])"

text \<open>\<open>keys\<close> is the order in which Go ranges over the map.\<close>

definition Shutdown :: "ident list \<Rightarrow> manager \<Rightarrow> proc list \<times> manager" where
  "Shutdown keys m = ([ShutdownAt (List.map_filter (m_sessions m) keys)], m\<lparr>m_sessions := Map.empty\<rparr>)"

section \<open>What the calls do next\<close>

definition StopPipeline :: "nat \<Rightarrow> Session \<Rightarrow> manager \<Rightarrow> manager" where
  "StopPipeline a s m = (let m1 = put_session a (s\<lparr>ss_stopPipeline := False\<rparr>) m
     in if ss_stopPipeline s then do_call (StopFn a) m1 else m1)"

definition restart :: "nat \<Rightarrow> real \<Rightarrow> Session \<Rightarrow> manager \<Rightarrow> manager" where
  "restart a pos s m =
     (let m1 = do_call (ClearOutput a) (if ss_watcher s then do_call (WatcherReset a) m else m);
          s1 = s\<lparr>ss_startOpts := (ss_startOpts s)\<lparr>so_KnownDuration := ss_Duration s, so_SeekOffset := pos\<rparr>,
                 ss_SeekOffset := pos, ss_cancelled := False, ss_gen := Suc (ss_gen s), ss_err := None,
                 ss_running := Suc (ss_running s)\<rparr>
      in do_call (RunPipeline a) (put_session a s1 m1))"

text \<open>One section of a call: the sections that follow and the new state, \<open>None\<close> while it waits.\<close>

definition step_add :: "nat \<Rightarrow> ident \<Rightarrow> time \<Rightarrow> Session \<Rightarrow> manager \<Rightarrow> manager" where
  "step_add a cid now s m = put_session a
     (addConsumer \<lparr>cn_ID = cid, cn_Type = ConsumerRecording, cn_CreatedAt = now\<rparr> s) m"

definition step_remove :: "ident \<Rightarrow> nat \<Rightarrow> ident \<Rightarrow> Session \<Rightarrow> manager \<Rightarrow> proc list \<times> manager" where
  "step_remove ch a c s m = (let (remaining, s') = removeConsumer c s
     in (if remaining = 0 then [CheckAt ch a] else [], put_session a s' m))"

definition step_unlink :: "ident \<Rightarrow> nat \<Rightarrow> manager \<Rightarrow> proc list \<times> manager" where
  "step_unlink ch a m = (if m_sessions m ch = Some a
     then ([StopAt ch a], m\<lparr>m_sessions := (m_sessions m)(ch := None)\<rparr>) else ([], m))"

definition finish_cleanup :: "ident \<Rightarrow> nat \<Rightarrow> Session \<Rightarrow> manager \<Rightarrow> proc list \<times> manager" where
  "finish_cleanup ch a s m =
     (if \<not> ss_Recorded s \<and> \<not> ss_wasRecording s then [RemoveDirAt Cleaned a (ss_TempDir s) []] else [],
      close_watcher a s (do_call (OnCleanup ch) m))"

text \<open>The shutdown reads the flag first and asks for recording consumers, under the session's lock,
  only if it is not set.\<close>

definition finish_shutdown :: "nat \<Rightarrow> nat list \<Rightarrow> Session \<Rightarrow> manager \<Rightarrow> proc list \<times> manager" where
  "finish_shutdown a as s m =
     ([if \<not> ss_Recorded s then ShutdownCheckAt a as else ShutdownAt as], close_watcher a s m)"

definition check_shutdown :: "nat \<Rightarrow> nat list \<Rightarrow> Session \<Rightarrow> proc" where
  "check_shutdown a as s =
     (if \<not> HasRecordingConsumer s then RemoveDirAt Stopped a (ss_TempDir s) as else ShutdownAt as)"

fun step_shutdown :: "nat list \<Rightarrow> manager \<Rightarrow> proc list \<times> manager" where
  "step_shutdown [] m = ([], m)"
| "step_shutdown (a # as) m = (case m_heap m a of None \<Rightarrow> ([ShutdownAt as], m)
    | Some s \<Rightarrow> ([ShutdownWaitAt a (ss_gen s) as],
        StopPipeline a (s\<lparr>ss_cancelled := True\<rparr>) m))"

definition step_seek :: "nat \<Rightarrow> real \<Rightarrow> Session \<Rightarrow> manager \<Rightarrow> proc list \<times> manager" where
  "step_seek a pos s m = (if ss_seekFunc s
     then ([], do_call (SeekFn a pos) (put_session a
       (s\<lparr>ss_SeekOffset := pos, ss_seekVersion := ss_seekVersion s + 1\<rparr>) m))
     else ([RestartAt a pos], StopPipeline a (s\<lparr>ss_cancelled := True\<rparr>) m))"

definition on_session :: "nat \<Rightarrow> (Session \<Rightarrow> manager \<Rightarrow> (proc list \<times> manager) option) \<Rightarrow> manager \<Rightarrow> (proc list \<times> manager) option" where
  "on_session a f m = (case m_heap m a of None \<Rightarrow> None | Some s \<Rightarrow> f s m)"

fun proc_step :: "proc \<Rightarrow> manager \<Rightarrow> (proc list \<times> manager) option" where
  "proc_step (AddRecordingAt a cid now) m = on_session a (\<lambda>s m. Some ([RecordAt a], step_add a cid now s m)) m"
| "proc_step (RecordAt a) m = on_session a (\<lambda>s m. Some ([], put_session a (Record s) m)) m"
| "proc_step (RemoveAt ch a c) m = on_session a (\<lambda>s m. Some (step_remove ch a c s m)) m"
| "proc_step (CheckAt ch a) m = on_session a (\<lambda>s m.
     Some (if HasRecordingConsumer s then [] else [CleanupAt ch a], m)) m"
| "proc_step (CleanupAt ch a) m = Some (step_unlink ch a m)"
| "proc_step (StopAt ch a) m = on_session a (\<lambda>s m.
     Some ([WaitAt ch a (ss_gen s)], put_session a (s\<lparr>ss_cancelled := True\<rparr>) m)) m"
| "proc_step (WaitAt ch a g) m = on_session a (\<lambda>s m.
     if g \<in> set (ss_closed s) then Some (finish_cleanup ch a s m) else None) m"
| "proc_step (SeekAt a pos) m = on_session a (\<lambda>s m. Some (step_seek a pos s m)) m"
| "proc_step (RestartAt a pos) m = on_session a (\<lambda>s m. Some ([], restart a pos s m)) m"
| "proc_step (ShutdownAt as) m = Some (step_shutdown as m)"
| "proc_step (ShutdownWaitAt a g as) m = on_session a (\<lambda>s m.
     if g \<in> set (ss_closed s) then Some (finish_shutdown a as s m) else None) m"
| "proc_step (ShutdownCheckAt a as) m = on_session a (\<lambda>s m. Some ([check_shutdown a as s], m)) m"
| "proc_step (ReplaceAt a) m = on_session a (\<lambda>s m.
     if isDone s then Some (replace_check a s m) else None) m"
| "proc_step (RemoveDirAt r a d as) m =
     Some (if r = Stopped then [ShutdownAt as] else [], remove_all r a d m)"

text \<open>A pipeline goroutine ends: it records its error and closes the session's current channel.\<close>

definition pipeline_end :: "nat \<Rightarrow> error option \<Rightarrow> Session \<Rightarrow> manager \<Rightarrow> manager" where
  "pipeline_end a e s m = put_session a (markDone
     (s\<lparr>ss_running := ss_running s - 1, ss_err := (case e of None \<Rightarrow> ss_err s | Some _ \<Rightarrow> e)\<rparr>)) m"

definition pipeline_install :: "nat \<Rightarrow> bool \<Rightarrow> bool \<Rightarrow> Session \<Rightarrow> manager \<Rightarrow> manager" where
  "pipeline_install a seek watch s m = put_session a
     (s\<lparr>ss_stopPipeline := True, ss_seekFunc := (ss_seekFunc s \<or> seek), ss_watcher := (ss_watcher s \<or> watch)\<rparr>) m"

section \<open>Interleavings\<close>

text \<open>The sections, by what they do with the lock of the manager (\<open>m.mu\<close>): not touch it, take it and
  give it back, take it and keep it while a dead session is replaced, or give it back after that.\<close>

datatype lock_use = Free | Locked | Taken session_in | Released session_in

fun takes_lock :: "proc \<Rightarrow> bool" where
  "takes_lock (CleanupAt ch a) = True"
| "takes_lock p = False"

inductive mgr_sect :: "lock_use \<Rightarrow> manager \<Rightarrow> manager \<Rightarrow> bool" where
  join: "m_sessions m (so_ChannelID (si_opts i)) = None \<or>
      (\<exists>a s. m_sessions m (so_ChannelID (si_opts i)) = Some a \<and> m_heap m a = Some s \<and> \<not> isDone s) \<Longrightarrow>
    GetOrCreateWithConsumer i m = (r, m') \<Longrightarrow> mgr_sect Locked m m'"
| replace: "m_sessions m (so_ChannelID (si_opts i)) = Some a \<Longrightarrow> m_heap m a = Some s \<Longrightarrow> isDone s \<Longrightarrow>
    m' = replace_begin (so_ChannelID (si_opts i)) a s m \<Longrightarrow>
    mgr_sect (Taken i) m (m'\<lparr>m_procs := m_procs m' @ [ReplaceAt a]\<rparr>)"
| replaced: "create_session i m = (r, m') \<Longrightarrow> mgr_sect (Released i) m m'"
| add_recording: "AddRecordingConsumer cid now key m = (r, ps) \<Longrightarrow>
    mgr_sect Locked m (m\<lparr>m_procs := m_procs m @ ps\<rparr>)"
| remove_consumer: "mgr_sect Locked m (m\<lparr>m_procs := m_procs m @ RemoveConsumer ch c m\<rparr>)"
| restart_seek: "mgr_sect Locked m (m\<lparr>m_procs := m_procs m @ RestartWithSeek ch pos m\<rparr>)"
| shutdown: "Shutdown keys m = (ps, m') \<Longrightarrow> mgr_sect Locked m (m'\<lparr>m_procs := m_procs m' @ ps\<rparr>)"
| run: "m_procs m = us @ p # vs \<Longrightarrow> proc_step p m = Some (ps, m') \<Longrightarrow>
    mgr_sect (if takes_lock p then Locked else Free) m (m'\<lparr>m_procs := us @ vs @ ps\<rparr>)"
| ends: "m_heap m a = Some s \<Longrightarrow> 0 < ss_running s \<Longrightarrow> mgr_sect Free m (pipeline_end a e s m)"
| installs: "m_heap m a = Some s \<Longrightarrow> 0 < ss_running s \<Longrightarrow> mgr_sect Free m (pipeline_install a seek watch s m)"

text \<open>A section between calls, or a whole replacement: while it has the lock only sections that do
  not need the lock run, among them its own, and the new session is created after those.\<close>

fun replacing :: "proc \<Rightarrow> bool" where
  "replacing (ReplaceAt a) = True"
| "replacing (RemoveDirAt r a d as) = (r = Replaced)"
| "replacing p = False"

inductive mgr_step :: "manager \<Rightarrow> manager \<Rightarrow> bool" where
  free: "mgr_sect Free m n \<Longrightarrow> mgr_step m n"
| locked: "mgr_sect Locked m n \<Longrightarrow> mgr_step m n"
| replacement: "mgr_sect (Taken i) m m1 \<Longrightarrow> (mgr_sect Free)\<^sup>*\<^sup>* m1 m2 \<Longrightarrow> \<not> list_ex replacing (m_procs m2) \<Longrightarrow>
    mgr_sect (Released i) m2 n \<Longrightarrow> mgr_step m n"

definition init_manager :: "string set \<Rightarrow> manager" where
  "init_manager dirs = \<lparr>m_heap = Map.empty, m_next = 0, m_sessions = Map.empty, m_procs = [],
     m_dirs = dirs, m_calls = []\<rparr>"

inductive mgr_reach :: "manager \<Rightarrow> bool" where
  init: "mgr_reach (init_manager dirs)"
| step: "mgr_reach m \<Longrightarrow> mgr_step m m' \<Longrightarrow> mgr_reach m'"

text \<open>All states between sections, those inside a replacement included; here the lock is not kept,
  so what holds in them holds in more interleavings than the code has.\<close>

definition any_sect :: "manager \<Rightarrow> manager \<Rightarrow> bool" where
  "any_sect m n \<longleftrightarrow> (\<exists>l. mgr_sect l m n)"

inductive sect_reach :: "manager \<Rightarrow> bool" where
  init: "sect_reach (init_manager dirs)"
| step: "sect_reach m \<Longrightarrow> any_sect m m' \<Longrightarrow> sect_reach m'"

lemma step_sects: "mgr_step m n \<Longrightarrow> any_sect\<^sup>*\<^sup>* m n"
proof (induction rule: mgr_step.induct)
  case (replacement i m m1 m2 n)
  have "any_sect\<^sup>*\<^sup>* m1 m2"
    using replacement(2) by (rule rtranclp_mono [THEN predicate2D, rotated]) (auto simp: any_sect_def)
  moreover have "any_sect m m1" "any_sect m2 n" using replacement(1,4) by (auto simp: any_sect_def)
  ultimately show ?case by (meson converse_rtranclp_into_rtranclp rtranclp.rtrancl_into_rtrancl)
qed (auto simp: any_sect_def)

lemma steps_sects: "mgr_step\<^sup>*\<^sup>* m n \<Longrightarrow> any_sect\<^sup>*\<^sup>* m n"
  by (induction rule: rtranclp_induct) (auto dest: step_sects intro: rtranclp_trans)

lemma sects_reach: "any_sect\<^sup>*\<^sup>* m n \<Longrightarrow> sect_reach m \<Longrightarrow> sect_reach n"
  by (induction rule: rtranclp_induct) (auto intro: sect_reach.step)

lemma reach_sect: "mgr_reach m \<Longrightarrow> sect_reach m"
  by (induction rule: mgr_reach.induct) (auto intro: sect_reach.init dest: step_sects sects_reach)

section \<open>Frames\<close>

text \<open>The helpers change the parts of the manager their names say and nothing else.\<close>

lemma do_call_frame [simp]:
  "m_heap (do_call c m) = m_heap m" "m_next (do_call c m) = m_next m"
  "m_sessions (do_call c m) = m_sessions m" "m_procs (do_call c m) = m_procs m"
  "m_dirs (do_call c m) = m_dirs m" "m_calls (do_call c m) = m_calls m @ [c]"
  by (simp_all add: do_call_def)

lemma put_session_frame [simp]:
  "m_heap (put_session a s m) = (m_heap m)(a \<mapsto> s)" "m_next (put_session a s m) = m_next m"
  "m_sessions (put_session a s m) = m_sessions m" "m_procs (put_session a s m) = m_procs m"
  "m_dirs (put_session a s m) = m_dirs m" "m_calls (put_session a s m) = m_calls m"
  by (simp_all add: put_session_def)

lemma remove_all_frame [simp]:
  "m_heap (remove_all r a d m) = m_heap m" "m_next (remove_all r a d m) = m_next m"
  "m_sessions (remove_all r a d m) = m_sessions m" "m_procs (remove_all r a d m) = m_procs m"
  "m_dirs (remove_all r a d m) = {e \<in> m_dirs m. \<not> prefix (parts d) (parts e)}"
  "m_calls (remove_all r a d m) = m_calls m @ [RemoveAll r a d]"
  by (simp_all add: remove_all_def)

lemma close_watcher_frame [simp]:
  "m_heap (close_watcher a s m) = m_heap m" "m_next (close_watcher a s m) = m_next m"
  "m_sessions (close_watcher a s m) = m_sessions m" "m_procs (close_watcher a s m) = m_procs m"
  "m_dirs (close_watcher a s m) = m_dirs m"
  "m_calls (close_watcher a s m) = m_calls m @ (if ss_watcher s then [WatcherClose a] else [])"
  by (simp_all add: close_watcher_def)

lemma StopPipeline_frame [simp]:
  "m_heap (StopPipeline a s m) = (m_heap m)(a \<mapsto> s\<lparr>ss_stopPipeline := False\<rparr>)"
  "m_next (StopPipeline a s m) = m_next m" "m_sessions (StopPipeline a s m) = m_sessions m"
  "m_procs (StopPipeline a s m) = m_procs m" "m_dirs (StopPipeline a s m) = m_dirs m"
  "m_calls (StopPipeline a s m) = m_calls m @ (if ss_stopPipeline s then [StopFn a] else [])"
  by (simp_all add: StopPipeline_def Let_def)

lemma replace_begin_frame [simp]:
  "m_heap (replace_begin ch a s m) = (m_heap m)(a \<mapsto> s\<lparr>ss_cancelled := True\<rparr>)"
  "m_next (replace_begin ch a s m) = m_next m" "m_procs (replace_begin ch a s m) = m_procs m"
  "m_sessions (replace_begin ch a s m) = (m_sessions m)(ch := None)"
  "m_calls (replace_begin ch a s m) = m_calls m" "m_dirs (replace_begin ch a s m) = m_dirs m"
  by (simp_all add: replace_begin_def)

lemma cleanupDoneSession_frame [simp]:
  "m_heap (cleanupDoneSession ch a s m) = (m_heap m)(a \<mapsto> s\<lparr>ss_cancelled := True\<rparr>)"
  "m_next (cleanupDoneSession ch a s m) = m_next m"
  "m_sessions (cleanupDoneSession ch a s m) = (m_sessions m)(ch := None)"
  "m_procs (cleanupDoneSession ch a s m) = m_procs m"
  "m_calls (cleanupDoneSession ch a s m) = m_calls m @ (if ss_watcher s then [WatcherClose a] else [])
     @ (if ss_Recorded s then [] else [RemoveAll Replaced a (ss_TempDir s)])"
  by (simp_all add: cleanupDoneSession_def replace_check_def)

section \<open>How a session may change\<close>

definition session_ok :: "Session \<Rightarrow> bool" where
  "session_ok s \<longleftrightarrow> distinct (map fst (ss_consumers s)) \<and> (HasRecordingConsumer s \<longrightarrow> ss_wasRecording s)
     \<and> (ss_Recorded s \<longrightarrow> ss_wasRecording s)"

text \<open>A session keeps its name and directory, stays recorded, stays marked as once recorded, keeps
  its closed channels and its consistency.\<close>

definition session_le :: "Session \<Rightarrow> Session \<Rightarrow> bool" where
  "session_le s t \<longleftrightarrow> ss_ChannelID t = ss_ChannelID s \<and> ss_TempDir t = ss_TempDir s
     \<and> (ss_Recorded s \<longrightarrow> ss_Recorded t) \<and> (ss_wasRecording s \<longrightarrow> ss_wasRecording t)
     \<and> set (ss_closed s) \<subseteq> set (ss_closed t) \<and> (session_ok s \<longrightarrow> session_ok t)"

lemma session_le_refl [simp]: "session_le s s"
  by (simp add: session_le_def)

lemma session_le_trans: "session_le s t \<Longrightarrow> session_le t u \<Longrightarrow> session_le s u"
  by (auto simp: session_le_def)

lemma AList_update_set: "x \<in> set (AList.update k v al) \<Longrightarrow> x = (k, v) \<or> x \<in> set al"
  by (induction al) (auto split: if_splits)

lemma addConsumer_le: "session_le s (addConsumer c s)"
proof -
  have "session_ok (addConsumer c s)" if "session_ok s"
    using that AList_update_set unfolding session_ok_def addConsumer_def HasRecordingConsumer_def list_ex_iff
    by (fastforce simp: distinct_update)
  then show ?thesis by (simp add: session_le_def) (simp add: addConsumer_def)
qed

lemma removeConsumer_le: "removeConsumer i s = (n, t) \<Longrightarrow> session_le s t"
  by (auto simp: removeConsumer_def Let_def session_le_def session_ok_def HasRecordingConsumer_def list_ex_iff
      AList.delete_eq intro: distinct_map_filter)

lemma Record_le: "ss_wasRecording s \<Longrightarrow> session_le s (Record s)"
  by (auto simp: session_le_def Record_def session_ok_def HasRecordingConsumer_def)

lemma markDone_le: "session_le s (markDone s)"
  by (auto simp: session_le_def markDone_def session_ok_def HasRecordingConsumer_def)

lemma session_le_fields [simp]:
  "session_le s (t\<lparr>ss_cancelled := b\<rparr>) = session_le s t"
  "session_le s (t\<lparr>ss_stopPipeline := b\<rparr>) = session_le s t"
  "session_le s (t\<lparr>ss_seekFunc := b\<rparr>) = session_le s t"
  "session_le s (t\<lparr>ss_watcher := b\<rparr>) = session_le s t"
  "session_le s (t\<lparr>ss_seekVersion := v\<rparr>) = session_le s t"
  "session_le s (t\<lparr>ss_SeekOffset := p\<rparr>) = session_le s t"
  "session_le s (t\<lparr>ss_running := n\<rparr>) = session_le s t"
  "session_le s (t\<lparr>ss_err := e\<rparr>) = session_le s t"
  "session_le s (t\<lparr>ss_gen := n\<rparr>) = session_le s t"
  "session_le s (t\<lparr>ss_startOpts := opts\<rparr>) = session_le s t"
  "session_le s (t\<lparr>ss_Video := vi\<rparr>) = session_le s t"
  "session_le s (t\<lparr>ss_AudioTracks := ats\<rparr>) = session_le s t"
  "session_le s (t\<lparr>ss_Duration := p\<rparr>) = session_le s t"
  by (simp_all add: session_le_def session_ok_def HasRecordingConsumer_def)

lemma SetProbeInfo_le [simp]: "session_le s (SetProbeInfo v as d t) = session_le s t"
  by (simp add: SetProbeInfo_def Let_def)

lemma new_session_le: "session_le (fresh_session i) (new_session i)"
  by (simp add: new_session_def Let_def addConsumer_le split: option.splits)

lemma fresh_session_ok: "session_ok (fresh_session i)"
  by (simp add: fresh_session_def session_ok_def HasRecordingConsumer_def Let_def)

lemma new_session_ok: "session_ok (new_session i)"
  using new_session_le [of i] fresh_session_ok [of i] by (simp add: session_le_def)


section \<open>The invariant\<close>

text \<open>The sessions a pending call refers to, and those it has taken out of the map.\<close>

fun proc_sessions :: "proc \<Rightarrow> nat list" where
  "proc_sessions (AddRecordingAt a cid now) = [a]"
| "proc_sessions (RecordAt a) = [a]"
| "proc_sessions (RemoveAt ch a c) = [a]"
| "proc_sessions (CheckAt ch a) = [a]"
| "proc_sessions (CleanupAt ch a) = [a]"
| "proc_sessions (StopAt ch a) = [a]"
| "proc_sessions (WaitAt ch a g) = [a]"
| "proc_sessions (SeekAt a pos) = [a]"
| "proc_sessions (RestartAt a pos) = [a]"
| "proc_sessions (ShutdownAt as) = as"
| "proc_sessions (ShutdownWaitAt a g as) = a # as"
| "proc_sessions (ShutdownCheckAt a as) = a # as"
| "proc_sessions (ReplaceAt a) = [a]"
| "proc_sessions (RemoveDirAt r a d as) = a # as"

fun proc_unlinked :: "proc \<Rightarrow> nat list" where
  "proc_unlinked (StopAt ch a) = [a]"
| "proc_unlinked (WaitAt ch a g) = [a]"
| "proc_unlinked (ShutdownAt as) = as"
| "proc_unlinked (ShutdownWaitAt a g as) = a # as"
| "proc_unlinked (ShutdownCheckAt a as) = a # as"
| "proc_unlinked (ReplaceAt a) = [a]"
| "proc_unlinked (RemoveDirAt r a d as) = a # as"
| "proc_unlinked p = []"

text \<open>What a pending call has seen of a session, and what stays so.\<close>

fun proc_seen :: "proc \<Rightarrow> nat \<Rightarrow> Session \<Rightarrow> bool" where
  "proc_seen (RecordAt b) a s = (a = b \<longrightarrow> ss_wasRecording s)"
| "proc_seen (ShutdownCheckAt b as) a s = (a = b \<longrightarrow> ss_closed s \<noteq> [])"
| "proc_seen (RemoveDirAt r b d as) a s = (a = b \<longrightarrow> ss_closed s \<noteq> [] \<and> d = ss_TempDir s)"
| "proc_seen p a s = True"

lemma proc_seen_le: "proc_seen p a s \<Longrightarrow> session_le s t \<Longrightarrow> proc_seen p a t"
  by (cases p) (auto simp: session_le_def)

definition unlinked :: "manager \<Rightarrow> nat \<Rightarrow> bool" where
  "unlinked m a \<longleftrightarrow> (\<forall>ch. m_sessions m ch \<noteq> Some a)"

definition map_ok :: "manager \<Rightarrow> bool" where
  "map_ok m \<longleftrightarrow> (\<forall>ch a. m_sessions m ch = Some a \<longrightarrow> (\<exists>s. m_heap m a = Some s \<and> ss_ChannelID s = ch))
     \<and> (\<forall>a s. m_heap m a = Some s \<longrightarrow> a < m_next m \<and> session_ok s)"

definition proc_ok :: "manager \<Rightarrow> proc \<Rightarrow> bool" where
  "proc_ok m p \<longleftrightarrow> (\<forall>a \<in> set (proc_sessions p). m_heap m a \<noteq> None) \<and> (\<forall>a \<in> set (proc_unlinked p). unlinked m a)
     \<and> (\<forall>a s. m_heap m a = Some s \<longrightarrow> proc_seen p a s)"

lemma proc_seen_other: "a \<notin> set (proc_sessions p) \<Longrightarrow> proc_seen p a s"
  by (cases p) auto

definition mgr_ok :: "manager \<Rightarrow> bool" where
  "mgr_ok m \<longleftrightarrow> map_ok m \<and> list_all (proc_ok m) (m_procs m)"

text \<open>How the manager may change: sessions only as \<open>session_le\<close> allows, and a session that is
  allocated but out of the map stays out of it.\<close>

definition evolves :: "manager \<Rightarrow> manager \<Rightarrow> bool" where
  "evolves m n \<longleftrightarrow> (\<forall>a s. m_heap m a = Some s \<longrightarrow> (\<exists>t. m_heap n a = Some t \<and> session_le s t))
     \<and> (\<forall>a. m_heap m a \<noteq> None \<longrightarrow> unlinked m a \<longrightarrow> unlinked n a)"

text \<open>A directory is removed by a pending removal; the three places that decide on one, and the
  shutdown's first read of the flag, find the session out of the map and not recorded.\<close>

fun removal_ok :: "manager \<Rightarrow> session_call \<Rightarrow> bool" where
  "removal_ok m (RemoveAll r a d) = (\<exists>as. RemoveDirAt r a d as \<in> set (m_procs m))"
| "removal_ok m c = True"

definition may_remove :: "remover \<Rightarrow> Session \<Rightarrow> bool" where
  "may_remove r s \<longleftrightarrow> (case r of Replaced \<Rightarrow> isDone s \<and> \<not> ss_Recorded s
     | Cleaned \<Rightarrow> \<not> ss_Recorded s \<and> \<not> ss_wasRecording s | Stopped \<Rightarrow> \<not> HasRecordingConsumer s)"

fun decided :: "manager \<Rightarrow> proc \<Rightarrow> bool" where
  "decided m (RemoveDirAt r a d as) = (\<exists>s. m_heap m a = Some s \<and> d = ss_TempDir s \<and> ss_closed s \<noteq> []
     \<and> unlinked m a \<and> may_remove r s \<and> (r = Stopped \<longrightarrow> ShutdownCheckAt a as \<in> set (m_procs m)))"
| "decided m (ShutdownCheckAt a as) = (\<exists>s. m_heap m a = Some s \<and> ss_closed s \<noteq> [] \<and> unlinked m a \<and> \<not> ss_Recorded s)"
| "decided m p = True"

definition good_change :: "manager \<Rightarrow> manager \<Rightarrow> bool" where
  "good_change m n \<longleftrightarrow> map_ok n \<and> evolves m n
     \<and> (\<exists>cs. m_calls n = m_calls m @ cs \<and> list_all (removal_ok m) cs)"

lemma evolves_refl [simp]: "evolves m m"
  by (auto simp: evolves_def)

lemma evolves_trans: "evolves m n \<Longrightarrow> evolves n k \<Longrightarrow> evolves m k"
  by (auto simp: evolves_def) (metis session_le_trans, metis)

lemma evolves_procs [simp]:
  "evolves m (n\<lparr>m_procs := ps\<rparr>) = evolves m n" "map_ok (n\<lparr>m_procs := ps\<rparr>) = map_ok n"
  "proc_ok (n\<lparr>m_procs := ps\<rparr>) = proc_ok n" "unlinked (n\<lparr>m_procs := ps\<rparr>) = unlinked n"
  by (simp_all add: evolves_def map_ok_def proc_ok_def unlinked_def fun_eq_iff)

lemma proc_ok_evolves: "proc_ok m p \<Longrightarrow> evolves m n \<Longrightarrow> proc_ok n p"
  unfolding proc_ok_def evolves_def
proof (intro conjI ballI allI impI; elim conjE)
  fix a assume "\<forall>a\<in>set (proc_sessions p). m_heap m a \<noteq> None" "a \<in> set (proc_sessions p)"
    "\<forall>a s. m_heap m a = Some s \<longrightarrow> (\<exists>t. m_heap n a = Some t \<and> session_le s t)"
  then show "m_heap n a \<noteq> None" by fastforce
next
  fix a assume a: "a \<in> set (proc_unlinked p)" "\<forall>a\<in>set (proc_unlinked p). unlinked m a"
    "\<forall>a\<in>set (proc_sessions p). m_heap m a \<noteq> None"
    and e: "\<forall>a. m_heap m a \<noteq> None \<longrightarrow> unlinked m a \<longrightarrow> unlinked n a"
  have "a \<in> set (proc_sessions p)" using a(1) by (cases p) auto
  then show "unlinked n a" using a e by blast
next
  fix a t assume t: "m_heap n a = Some t" and s: "\<forall>a s. m_heap m a = Some s \<longrightarrow> proc_seen p a s"
    and h: "\<forall>a\<in>set (proc_sessions p). m_heap m a \<noteq> None"
    and e: "\<forall>a s. m_heap m a = Some s \<longrightarrow> (\<exists>t. m_heap n a = Some t \<and> session_le s t)"
  show "proc_seen p a t"
  proof (cases "m_heap m a")
    case None
    then show ?thesis using h proc_seen_other by blast
  next
    case (Some s)
    then have "session_le s t" using t e by force
    then show ?thesis using s Some proc_seen_le by blast
  qed
qed

lemma procs_ok_evolves: "list_all (proc_ok m) ps \<Longrightarrow> evolves m n \<Longrightarrow> list_all (proc_ok n) ps"
  by (auto simp: list_all_iff intro: proc_ok_evolves)

lemma map_ok_channel: "map_ok m \<Longrightarrow> m_sessions m ch = Some a \<Longrightarrow> m_heap m a = Some s \<Longrightarrow> ss_ChannelID s = ch"
  unfolding map_ok_def by force

lemma map_ok_heap: "map_ok m \<Longrightarrow> m_sessions m ch = Some a \<Longrightarrow> \<exists>s. m_heap m a = Some s"
  unfolding map_ok_def by force

text \<open>Changing one session in a permitted way.\<close>

lemma evolves_put:
  assumes "m_heap m a = Some s" "session_le s t" "m_heap n = (m_heap m)(a \<mapsto> t)" "m_sessions n = m_sessions m"
  shows "evolves m n"
  using assms by (auto simp: evolves_def unlinked_def)

lemma map_ok_put:
  assumes "map_ok m" "m_heap m a = Some s" "session_le s t" "m_heap n = (m_heap m)(a \<mapsto> t)"
    "m_sessions n = m_sessions m" "m_next n = m_next m"
  shows "map_ok n"
proof -
  have "ss_ChannelID t = ss_ChannelID s" "session_ok s \<longrightarrow> session_ok t" using assms(3) by (simp_all add: session_le_def)
  moreover have "\<exists>s. m_heap m b = Some s \<and> ss_ChannelID s = ch" if "m_sessions m ch = Some b" for ch b
    using assms(1) that by (simp add: map_ok_def)
  moreover have "b < m_next m \<and> session_ok u" if "m_heap m b = Some u" for b u
    using assms(1) that by (simp add: map_ok_def)
  ultimately show ?thesis using assms(2) unfolding map_ok_def assms(4-6) by (simp add: fun_upd_def) force
qed

lemma good_put:
  assumes "map_ok m" "m_heap m a = Some s" "session_le s t" "m_heap n = (m_heap m)(a \<mapsto> t)"
    "m_sessions n = m_sessions m" "m_next n = m_next m"
    "m_calls n = m_calls m @ cs" "list_all (removal_ok m) cs"
  shows "good_change m n"
  unfolding good_change_def using assms evolves_put map_ok_put by blast

lemma map_ok_unlink:
  assumes "map_ok m" "m_heap n = m_heap m" "m_next n = m_next m" "m_sessions n \<subseteq>\<^sub>m m_sessions m"
  shows "map_ok n"
  using assms by (auto simp: map_ok_def map_le_def dom_def)

lemma evolves_unlink:
  assumes "m_heap n = m_heap m" "m_sessions n \<subseteq>\<^sub>m m_sessions m"
  shows "evolves m n"
  using assms by (fastforce simp: evolves_def unlinked_def map_le_def dom_def)


section \<open>Every step is a good change\<close>

definition no_removal :: "session_call \<Rightarrow> bool" where
  "no_removal c \<longleftrightarrow> (\<forall>r a d. c \<noteq> RemoveAll r a d)"

lemma removal_ok_no_removal: "list_all no_removal cs \<Longrightarrow> list_all (removal_ok m) cs"
proof -
  have "no_removal c \<Longrightarrow> removal_ok m c" for c by (cases c) (simp_all add: no_removal_def)
  then show "list_all no_removal cs \<Longrightarrow> list_all (removal_ok m) cs" by (simp add: list_all_iff)
qed

lemma good_trans:
  assumes "good_change m n" "map_ok k" "evolves n k" "m_calls k = m_calls n @ cs" "list_all no_removal cs"
  shows "good_change m k"
proof -
  obtain ds where ds: "m_calls n = m_calls m @ ds" "list_all (removal_ok m) ds" "map_ok n" "evolves m n"
    using assms(1) by (auto simp: good_change_def)
  have "m_calls k = m_calls m @ (ds @ cs)" "list_all (removal_ok m) (ds @ cs)"
    using ds assms(4) removal_ok_no_removal [OF assms(5)] by simp_all
  then show ?thesis unfolding good_change_def using assms(2,3) ds(4) evolves_trans by blast
qed

lemma good_refl: "map_ok m \<Longrightarrow> good_change m m"
  by (auto simp: good_change_def)

lemma new_session_fields [simp]: "ss_ChannelID (new_session i) = so_ChannelID (si_opts i)" "ss_TempDir (new_session i) = temp_dir i"
  using new_session_le [of i] by (simp_all add: session_le_def fresh_session_def Let_def)

lemma create_effect:
  assumes "create_session i m = (r, n)" "map_ok m"
  shows "map_ok n \<and> evolves m n \<and> (\<exists>cs. m_calls n = m_calls m @ cs \<and> list_all no_removal cs)"
proof (cases "si_mkdir i")
  case None
  let ?a = "m_next m" and ?ch = "so_ChannelID (si_opts i)"
  let ?s = "(new_session i)\<lparr>ss_running := (if \<not> so_MetadataOnly (si_opts i) then 1 else 0)\<rparr>"
  have n: "m_heap n = (m_heap m)(?a \<mapsto> ?s)" "m_sessions n = (m_sessions m)(?ch \<mapsto> ?a)" "m_next n = Suc ?a"
    and c: "\<exists>cs. m_calls n = m_calls m @ cs \<and> list_all no_removal cs"
    using assms(1) None by (auto simp: create_session_def Let_def no_removal_def)
  have fresh: "m_heap m ?a = None" using assms(2) by (cases "m_heap m ?a") (auto simp: map_ok_def)
  have s: "session_ok ?s" using new_session_ok [of i] by (simp add: session_ok_def HasRecordingConsumer_def)
  have "map_ok n"
    using assms(2) fresh s unfolding map_ok_def n by (auto simp: less_Suc_eq)
  moreover have "evolves m n" using fresh unfolding evolves_def unlinked_def n by auto
  ultimately show ?thesis using c by blast
next
  case (Some e)
  then have "n = m" using assms(1) by (simp add: create_session_def)
  then show ?thesis using assms(2) by simp
qed

lemma good_join:
  assumes "map_ok m" "GetOrCreateWithConsumer i m = (r, n)"
    and "m_sessions m (so_ChannelID (si_opts i)) = None \<or>
      (\<exists>a s. m_sessions m (so_ChannelID (si_opts i)) = Some a \<and> m_heap m a = Some s \<and> \<not> isDone s)"
  shows "good_change m n"
  using assms(3)
proof (elim disjE exE conjE)
  assume "m_sessions m (so_ChannelID (si_opts i)) = None"
  then have "create_session i m = (r, n)" using assms(2) by (simp add: GetOrCreateWithConsumer_def)
  from create_effect [OF this assms(1)] show ?thesis
    using good_trans [OF good_refl [OF assms(1)]] by blast
next
  fix a s assume s: "m_sessions m (so_ChannelID (si_opts i)) = Some a" "m_heap m a = Some s" "\<not> isDone s"
  then have "n = put_session a (addConsumer (new_consumer i) s) m"
    using assms(2) by (simp add: GetOrCreateWithConsumer_def)
  then show ?thesis by (intro good_put [OF assms(1) s(2) addConsumer_le, of _ _ "[]"]) simp_all
qed

lemma good_replace_begin:
  assumes "map_ok m" "m_sessions m ch = Some a" "m_heap m a = Some s"
  shows "good_change m (replace_begin ch a s m) \<and> proc_ok (replace_begin ch a s m) (ReplaceAt a)" (is "good_change m ?n \<and> _")
proof -
  let ?m1 = "m\<lparr>m_sessions := (m_sessions m)(ch := None)\<rparr>"
  have le: "m_sessions ?m1 \<subseteq>\<^sub>m m_sessions m" by (simp add: map_le_def)
  have 1: "map_ok ?m1" "evolves m ?m1" using assms(1) le map_ok_unlink evolves_unlink by auto
  have 2: "map_ok ?n" by (rule map_ok_put [OF 1(1), of a s]) (simp_all add: assms(3))
  have 3: "evolves ?m1 ?n" by (rule evolves_put [of _ a s]) (simp_all add: assms(3))
  have "unlinked ?n a"
    using assms map_ok_channel [OF assms(1) _ assms(3)] by (auto simp: unlinked_def)
  then show ?thesis unfolding good_change_def proc_ok_def using 1 2 3 evolves_trans by auto
qed

lemma put_good_procs:
  assumes "map_ok m" "m_heap m a = Some s" "session_le s t" "m_heap n = (m_heap m)(a \<mapsto> t)"
    "m_sessions n = m_sessions m" "m_next n = m_next m" "m_calls n = m_calls m @ cs" "list_all no_removal cs"
    "set (concat (map proc_sessions ps)) \<subseteq> {a}" "set (concat (map proc_unlinked ps)) \<subseteq> {b. unlinked m b}"
    "list_all (\<lambda>p. proc_seen p a t) ps"
  shows "good_change m n \<and> list_all (proc_ok n) ps"
proof
  show "good_change m n" using assms(1-8) good_put removal_ok_no_removal by blast
  show "list_all (proc_ok n) ps"
    unfolding list_all_iff proc_ok_def
  proof (intro ballI conjI allI impI)
    fix p b assume "p \<in> set ps" "b \<in> set (proc_sessions p)"
    then show "m_heap n b \<noteq> None" using assms(4,9) by auto
  next
    fix p b assume "p \<in> set ps" "b \<in> set (proc_unlinked p)"
    then show "unlinked n b" using assms(5,10) by (auto simp: unlinked_def)
  next
    fix p b u assume p: "p \<in> set ps" "m_heap n b = Some u"
    show "proc_seen p b u"
    proof (cases "b = a")
      case True
      then show ?thesis using p assms(4,11) by (auto simp: list_all_iff)
    next
      case False
      then have "b \<notin> set (proc_sessions p)" using p(1) assms(9) by auto
      then show ?thesis by (rule proc_seen_other)
    qed
  qed
qed

text \<open>A section that only does calls.\<close>

lemma same_good_procs:
  assumes "mgr_ok m" "p \<in> set (m_procs m)" "m_heap n = m_heap m" "m_sessions n = m_sessions m" "m_next n = m_next m"
    "m_calls n = m_calls m @ cs" "list_all (removal_ok m) cs"
    "\<And>q. q \<in> set ps \<Longrightarrow> set (proc_sessions q) \<subseteq> set (proc_sessions p)"
    "\<And>q b. q \<in> set ps \<Longrightarrow> b \<in> set (proc_unlinked q) \<Longrightarrow> b \<in> set (proc_unlinked p)"
    "\<And>q b s. q \<in> set ps \<Longrightarrow> m_heap m b = Some s \<Longrightarrow> proc_seen p b s \<Longrightarrow> proc_seen q b s"
  shows "good_change m n \<and> list_all (proc_ok n) ps"
proof
  have ok: "map_ok m" "proc_ok m p" using assms(1,2) by (simp_all add: mgr_ok_def list_all_iff)
  then show "good_change m n"
    unfolding good_change_def using assms(3-7) by (auto simp: map_ok_def evolves_def unlinked_def)
  show "list_all (proc_ok n) ps"
    unfolding list_all_iff proc_ok_def
  proof (intro ballI conjI allI impI)
    fix q b assume "q \<in> set ps" "b \<in> set (proc_sessions q)"
    then show "m_heap n b \<noteq> None" using assms(3,8) ok(2) by (auto simp: proc_ok_def)
  next
    fix q b assume "q \<in> set ps" "b \<in> set (proc_unlinked q)"
    then show "unlinked n b" using assms(4,9) ok(2) by (auto simp: proc_ok_def unlinked_def)
  next
    fix q b s assume "q \<in> set ps" "m_heap n b = Some s"
    then show "proc_seen q b s" using assms(3,10) ok(2) by (auto simp: proc_ok_def)
  qed
qed

lemma on_session_Some:
  "on_session a f m = Some r \<longleftrightarrow> (\<exists>s. m_heap m a = Some s \<and> f s m = Some r)"
  by (auto simp: on_session_def split: option.splits)

text \<open>The three decisions.\<close>

lemma finish_cleanup_good:
  assumes "mgr_ok m" "WaitAt ch a g \<in> set (m_procs m)" "m_heap m a = Some s" "g \<in> set (ss_closed s)"
    "finish_cleanup ch a s m = (ps, n)"
  shows "good_change m n \<and> list_all (proc_ok n) ps"
proof (rule same_good_procs [OF assms(1,2)])
  show "m_calls n = m_calls m @ OnCleanup ch # (if ss_watcher s then [WatcherClose a] else [])"
    using assms(5) by (auto simp: finish_cleanup_def)
qed (use assms in \<open>auto simp: finish_cleanup_def split: if_splits\<close>)

lemma finish_shutdown_good:
  assumes "mgr_ok m" "ShutdownWaitAt a g as \<in> set (m_procs m)" "m_heap m a = Some s" "g \<in> set (ss_closed s)"
    "finish_shutdown a as s m = (ps, n)"
  shows "good_change m n \<and> list_all (proc_ok n) ps"
proof (rule same_good_procs [OF assms(1,2)])
  show "m_calls n = m_calls m @ (if ss_watcher s then [WatcherClose a] else [])"
    using assms(5) by (auto simp: finish_shutdown_def)
qed (use assms in \<open>auto simp: finish_shutdown_def split: if_splits\<close>)

lemma check_shutdown_good:
  assumes "mgr_ok m" "ShutdownCheckAt a as \<in> set (m_procs m)" "m_heap m a = Some s"
  shows "good_change m m \<and> list_all (proc_ok m) [check_shutdown a as s]"
  by (rule same_good_procs [OF assms(1,2), where cs = "[]"])
     (use assms in \<open>auto simp: check_shutdown_def split: if_splits\<close>)

lemma replace_check_good:
  assumes "mgr_ok m" "ReplaceAt a \<in> set (m_procs m)" "m_heap m a = Some s" "isDone s"
    "replace_check a s m = (ps, n)"
  shows "good_change m n \<and> list_all (proc_ok n) ps"
proof (rule same_good_procs [OF assms(1,2)])
  show "m_calls n = m_calls m @ (if ss_watcher s then [WatcherClose a] else [])"
    using assms(5) by (auto simp: replace_check_def)
qed (use assms in \<open>auto simp: replace_check_def isDone_def split: if_splits\<close>)

lemma remove_dir_good:
  assumes "mgr_ok m" "RemoveDirAt r a d as \<in> set (m_procs m)"
  shows "good_change m (remove_all r a d m) \<and>
    list_all (proc_ok (remove_all r a d m)) (if r = Stopped then [ShutdownAt as] else [])"
proof (rule same_good_procs [OF assms])
  show "m_calls (remove_all r a d m) = m_calls m @ [RemoveAll r a d]" by simp
qed (use assms(2) in \<open>auto split: if_splits\<close>)

lemma good_unlink:
  assumes "mgr_ok m" "m_heap m a = Some s" "step_unlink ch a m = (ps, n)"
  shows "good_change m n \<and> list_all (proc_ok n) ps"
proof (cases "m_sessions m ch = Some a")
  case True
  have n: "n = m\<lparr>m_sessions := (m_sessions m)(ch := None)\<rparr>" "ps = [StopAt ch a]"
    using assms(3) True by (simp_all add: step_unlink_def)
  have ok: "map_ok m" using assms(1) by (simp add: mgr_ok_def)
  have le: "m_sessions n \<subseteq>\<^sub>m m_sessions m" by (simp add: n map_le_def)
  have "map_ok n" "evolves m n" using map_ok_unlink [OF ok _ _ le] evolves_unlink [OF _ le] n by simp_all
  moreover have "unlinked n a"
    using ok True assms(2) map_ok_channel [OF ok _ assms(2)] by (auto simp: unlinked_def n)
  ultimately show ?thesis using assms(2) by (simp add: good_change_def n proc_ok_def)
next
  case False
  then show ?thesis using assms by (auto simp: step_unlink_def mgr_ok_def good_refl)
qed

text \<open>The sections of the calls, one by one.\<close>

lemma step_remove_good:
  assumes "map_ok m" "m_heap m a = Some s" "step_remove ch a c s m = (ps, n)"
  shows "good_change m n \<and> list_all (proc_ok n) ps"
proof -
  obtain k t where t: "removeConsumer c s = (k, t)" by force
  then have "ps = (if k = 0 then [CheckAt ch a] else [])" "n = put_session a t m"
    using assms(3) by (simp_all add: step_remove_def)
  then show ?thesis by (intro put_good_procs [OF assms(1,2) removeConsumer_le [OF t], of _ "[]"]) simp_all
qed

lemma step_seek_good:
  assumes "map_ok m" "m_heap m a = Some s" "step_seek a pos s m = (ps, n)"
  shows "good_change m n \<and> list_all (proc_ok n) ps"
proof (cases "ss_seekFunc s")
  case True
  show ?thesis by (rule put_good_procs [OF assms(1,2), of "s\<lparr>ss_SeekOffset := pos, ss_seekVersion := ss_seekVersion s + 1\<rparr>" _ "[SeekFn a pos]"])
      (use True assms in \<open>auto simp: step_seek_def no_removal_def\<close>)
next
  case False
  show ?thesis by (rule put_good_procs [OF assms(1,2), of "s\<lparr>ss_cancelled := True, ss_stopPipeline := False\<rparr>" _
        "if ss_stopPipeline s then [StopFn a] else []"])
      (use False assms in \<open>auto simp: step_seek_def no_removal_def\<close>)
qed

lemma restart_good: "map_ok m \<Longrightarrow> m_heap m a = Some s \<Longrightarrow> good_change m (restart a pos s m)"
  unfolding restart_def Let_def
  by (rule good_put [where a = a and s = s and cs = "(if ss_watcher s then [WatcherReset a] else []) @ [ClearOutput a, RunPipeline a]"])
    auto

lemma step_shutdown_good:
  assumes "map_ok m" "proc_ok m (ShutdownAt as)" "step_shutdown as m = (ps, n)"
  shows "good_change m n \<and> list_all (proc_ok n) ps"
proof (cases as)
  case Nil then show ?thesis using assms by (simp add: good_refl)
next
  case (Cons a bs)
  then obtain s where s: "m_heap m a = Some s" using assms(2) by (auto simp: proc_ok_def)
  have n: "n = StopPipeline a (s\<lparr>ss_cancelled := True\<rparr>) m" "ps = [ShutdownWaitAt a (ss_gen s) bs]"
    using assms(3) Cons s by auto
  have g: "good_change m n"
    by (rule good_put [OF assms(1) s, of "s\<lparr>ss_cancelled := True, ss_stopPipeline := False\<rparr>" _ "if ss_stopPipeline s then [StopFn a] else []"])
      (simp_all add: n)
  then have "proc_ok n (ShutdownAt as)" using assms(2) proc_ok_evolves by (simp add: good_change_def)
  then show ?thesis using g Cons by (simp add: n(2) proc_ok_def)
qed

lemma step_add_good:
  "map_ok m \<Longrightarrow> m_heap m a = Some s \<Longrightarrow> good_change m (step_add a cid now s m) \<and> list_all (proc_ok (step_add a cid now s m)) [RecordAt a]"
  unfolding step_add_def
  by (rule put_good_procs [where s = s and cs = "[]",
        OF _ _ addConsumer_le [of s "\<lparr>cn_ID = cid, cn_Type = ConsumerRecording, cn_CreatedAt = now\<rparr>"]])
     (simp_all add: addConsumer_def)

lemma record_good:
  assumes "map_ok m" "proc_ok m (RecordAt a)" "m_heap m a = Some s"
  shows "good_change m (put_session a (Record s) m)"
  by (rule good_put [OF assms(1,3) Record_le, of _ "[]"]) (use assms(2,3) in \<open>simp_all add: proc_ok_def\<close>)

lemma step_stop_good:
  assumes "map_ok m" "proc_ok m (StopAt ch a)" "m_heap m a = Some s"
  shows "good_change m (put_session a (s\<lparr>ss_cancelled := True\<rparr>) m)
    \<and> list_all (proc_ok (put_session a (s\<lparr>ss_cancelled := True\<rparr>) m)) [WaitAt ch a (ss_gen s)]"
  by (rule put_good_procs [OF assms(1,3), of "s\<lparr>ss_cancelled := True\<rparr>" _ "[]"])
    (use assms(2) in \<open>simp_all add: proc_ok_def\<close>)

lemmas section_good = step_add_good step_remove_good good_unlink step_seek_good restart_good
  step_shutdown_good step_stop_good good_refl

lemma proc_step_good:
  assumes "mgr_ok m" "p \<in> set (m_procs m)" "proc_step p m = Some (ps, n)"
  shows "good_change m n \<and> list_all (proc_ok n) ps"
proof -
  have ok: "map_ok m" "proc_ok m p" using assms(1,2) by (simp_all add: mgr_ok_def list_all_iff)
  show ?thesis
  proof (cases p)
    case (RecordAt a)
    then show ?thesis using ok assms record_good [of m a] by (auto simp: on_session_Some)
  next
    case (CleanupAt ch a)
    then show ?thesis using ok assms section_good(3) [of m a] by (auto simp: proc_ok_def)
  next
    case (WaitAt ch a g)
    then show ?thesis using assms finish_cleanup_good by (auto simp: on_session_Some split: if_splits)
  next
    case (StopAt ch a)
    then show ?thesis using ok assms step_stop_good by (auto simp: on_session_Some)
  next
    case (CheckAt ch a)
    then show ?thesis using ok assms by (auto simp: on_session_Some good_refl proc_ok_def)
  next
    case (ShutdownWaitAt a g as)
    then show ?thesis using assms finish_shutdown_good by (auto simp: on_session_Some split: if_splits)
  next
    case (ShutdownCheckAt a as)
    then show ?thesis using assms check_shutdown_good by (auto simp: on_session_Some)
  next
    case (ReplaceAt a)
    then show ?thesis using assms replace_check_good by (auto simp: on_session_Some split: if_splits)
  next
    case (RemoveDirAt r a d as)
    then show ?thesis using assms remove_dir_good by auto
  qed (use ok assms section_good in \<open>auto simp: on_session_Some\<close>)
qed

text \<open>What a section has decided when it leaves a removal to be done.\<close>

lemma step_shutdown_decided: "step_shutdown as m = (ps, n) \<Longrightarrow> list_all (decided m) ps"
  by (cases as) (auto split: option.splits)

lemma proc_step_decided:
  assumes "mgr_ok m" "p \<in> set (m_procs m)" "proc_step p m = Some (ps, n)"
  shows "list_all (decided m) ps"
proof -
  have ok: "proc_ok m p" using assms(1,2) by (simp add: mgr_ok_def list_all_iff)
  show ?thesis
  proof (cases p)
    case (WaitAt ch a g)
    then show ?thesis using ok assms(3)
      by (auto simp: on_session_Some finish_cleanup_def may_remove_def proc_ok_def split: if_splits)
  next
    case (ShutdownWaitAt a g as)
    then show ?thesis using ok assms(3)
      by (auto simp: on_session_Some finish_shutdown_def proc_ok_def split: if_splits)
  next
    case (ShutdownCheckAt a as)
    then show ?thesis using ok assms(2,3)
      by (auto simp: on_session_Some check_shutdown_def may_remove_def proc_ok_def)
  next
    case (ReplaceAt a)
    then show ?thesis using ok assms(3)
      by (auto simp: on_session_Some replace_check_def may_remove_def proc_ok_def isDone_def split: if_splits)
  next
    case (ShutdownAt as)
    then show ?thesis using assms(3) step_shutdown_decided by simp
  qed (use assms(3) in \<open>auto simp: on_session_Some step_remove_def step_unlink_def step_seek_def case_prod_beta split: if_splits\<close>)
qed

section \<open>Reachable states\<close>

lemma good_mgr_ok: "good_change m n \<Longrightarrow> list_all (proc_ok m) ps \<Longrightarrow> list_all (proc_ok n) qs \<Longrightarrow> mgr_ok (n\<lparr>m_procs := ps @ qs\<rparr>)"
  using procs_ok_evolves [of m ps n] by (simp add: mgr_ok_def good_change_def)

lemma good_procs [simp]: "good_change m (n\<lparr>m_procs := ps\<rparr>) = good_change m n"
  by (simp add: good_change_def)

lemma lookup_procs:
  assumes "map_ok m" "m_sessions m ch = Some a"
  shows "m_heap m a \<noteq> None"
  using map_ok_heap [OF assms] by auto

lemma good_shutdown:
  assumes "map_ok m" "Shutdown keys m = (ps, n)"
  shows "good_change m n \<and> list_all (proc_ok n) ps"
proof -
  have n: "n = m\<lparr>m_sessions := Map.empty\<rparr>" "ps = [ShutdownAt (List.map_filter (m_sessions m) keys)]"
    using assms(2) by (simp_all add: Shutdown_def)
  have le: "m_sessions n \<subseteq>\<^sub>m m_sessions m" by (simp add: n map_le_def)
  have "map_ok n" "evolves m n" using map_ok_unlink [OF assms(1) _ _ le] evolves_unlink [OF _ le] n by simp_all
  moreover have "list_all (proc_ok n) ps"
    using lookup_procs [OF assms(1)] by (auto simp: n proc_ok_def unlinked_def List.map_filter_def)
  ultimately show ?thesis by (simp add: good_change_def n(1))
qed

lemma mgr_sect_good:
  assumes "mgr_sect l m n" "mgr_ok m"
  shows "good_change m n \<and> mgr_ok n"
  using assms
proof (induction rule: mgr_sect.induct)
  case (join m i r n)
  then have g: "good_change m n" using good_join by (auto simp: mgr_ok_def)
  have "m_procs n = m_procs m"
    using join(1,2) by (auto simp: GetOrCreateWithConsumer_def create_session_def Let_def split: option.splits if_splits)
  then show ?case using g join(3) good_mgr_ok [OF g, of "m_procs m" "[]"] by (simp add: mgr_ok_def)
next
  case (replace m i a s n)
  then have g: "good_change m n" "proc_ok n (ReplaceAt a)" using good_replace_begin by (auto simp: mgr_ok_def)
  have "m_procs n = m_procs m" by (simp add: replace(4))
  then show ?case using replace(5) g good_mgr_ok [OF g(1), of "m_procs m" "[ReplaceAt a]"] by (simp add: mgr_ok_def)
next
  case (replaced i m r n)
  from create_effect [OF replaced(1)] replaced(2)
  have g: "good_change m n" using good_trans [OF good_refl] by (auto simp: mgr_ok_def)
  have "m_procs n = m_procs m"
    using replaced(1) by (auto simp: create_session_def Let_def split: option.splits if_splits)
  then show ?case using g replaced(2) good_mgr_ok [OF g, of "m_procs m" "[]"] by (simp add: mgr_ok_def)
next
  case (add_recording cid now key m r ps)
  have "list_all (proc_ok m) ps" using add_recording lookup_procs [of m key]
    by (auto simp: AddRecordingConsumer_def mgr_ok_def proc_ok_def split: option.splits)
  then show ?case using add_recording(2) good_mgr_ok [OF good_refl] by (auto simp: mgr_ok_def good_refl)
next
  case (remove_consumer m ch c)
  have "list_all (proc_ok m) (RemoveConsumer ch c m)" using remove_consumer lookup_procs [of m ch]
    by (auto simp: RemoveConsumer_def mgr_ok_def proc_ok_def split: option.splits)
  then show ?case using remove_consumer by (auto simp: mgr_ok_def good_refl)
next
  case (restart_seek m ch pos)
  have "list_all (proc_ok m) (RestartWithSeek ch pos m)" using restart_seek lookup_procs [of m ch]
    by (auto simp: RestartWithSeek_def mgr_ok_def proc_ok_def split: option.splits)
  then show ?case using restart_seek by (auto simp: mgr_ok_def good_refl)
next
  case (shutdown keys m ps n)
  then have g: "good_change m n" "list_all (proc_ok n) ps" using good_shutdown by (auto simp: mgr_ok_def)
  have "m_procs n = m_procs m" using shutdown(1) by (auto simp: Shutdown_def)
  then show ?case using shutdown(2) g good_mgr_ok [OF g(1) _ g(2), of "m_procs m"] by (simp add: mgr_ok_def)
next
  case (run m us p vs ps n)
  then have g: "good_change m n" "list_all (proc_ok n) ps" using proc_step_good [of m p ps n] by simp_all
  have "list_all (proc_ok m) (us @ vs)" using run(1,3) by (simp add: mgr_ok_def)
  then show ?case using good_mgr_ok [OF g(1) _ g(2), of "us @ vs"] g(1) by simp
next
  case (ends m a s e)
  then have g: "good_change m (pipeline_end a e s m)" unfolding pipeline_end_def
    by (intro good_put [where a = a and s = s and cs = "[]"]) (auto simp: mgr_ok_def intro: session_le_trans [OF _ markDone_le])
  then show ?case using good_mgr_ok [OF g, of "m_procs m" "[]"] ends(3) by (simp add: mgr_ok_def pipeline_end_def)
next
  case (installs m a s seek watch)
  then have g: "good_change m (pipeline_install a seek watch s m)" unfolding pipeline_install_def
    by (intro good_put [where a = a and s = s and cs = "[]"]) (auto simp: mgr_ok_def)
  then show ?case using good_mgr_ok [OF g, of "m_procs m" "[]"] installs(3) by (simp add: mgr_ok_def pipeline_install_def)
qed

lemma mgr_sect_decided:
  assumes "mgr_sect l m n" "mgr_ok m"
  shows "\<forall>p \<in> set (m_procs n) - set (m_procs m). decided m p"
  using assms
proof (induction rule: mgr_sect.induct)
  case (run m us p vs ps n)
  then have "list_all (decided m) ps" using proc_step_decided [of m p] by simp
  then show ?case using run(1) by (auto simp: list_all_iff)
qed (auto simp: GetOrCreateWithConsumer_def create_session_def AddRecordingConsumer_def RemoveConsumer_def
    RestartWithSeek_def Shutdown_def pipeline_end_def pipeline_install_def Let_def split: option.splits if_splits)

lemma sect_reach_ok: "sect_reach m \<Longrightarrow> mgr_ok m"
proof (induction rule: sect_reach.induct)
  case (init dirs) show ?case by (simp add: mgr_ok_def map_ok_def init_manager_def)
qed (auto simp: any_sect_def dest: mgr_sect_good)

lemma mgr_reach_ok: "mgr_reach m \<Longrightarrow> mgr_ok m"
  by (rule sect_reach_ok [OF reach_sect])

text \<open>A session that is recorded, and whose flag no pending call has read before, is never removed.\<close>

definition unseen :: "nat \<Rightarrow> manager \<Rightarrow> bool" where
  "unseen a m \<longleftrightarrow> (\<forall>r d as. RemoveDirAt r a d as \<notin> set (m_procs m)) \<and> (\<forall>as. ShutdownCheckAt a as \<notin> set (m_procs m))"

lemma recorded_stays:
  "any_sect\<^sup>*\<^sup>* m n \<Longrightarrow> mgr_ok m \<Longrightarrow> m_heap m a = Some s \<Longrightarrow> ss_Recorded s \<Longrightarrow> unseen a m \<Longrightarrow>
     mgr_ok n \<and> unseen a n \<and> (\<exists>t. m_heap n a = Some t \<and> ss_Recorded t) \<and>
     (\<exists>cs. m_calls n = m_calls m @ cs \<and> (\<forall>r d. RemoveAll r a d \<notin> set cs))"
proof (induction rule: rtranclp_induct)
  case (step n k)
  then obtain t cs where n: "mgr_ok n" "unseen a n" "m_heap n a = Some t" "ss_Recorded t"
    "m_calls n = m_calls m @ cs" "\<forall>r d. RemoveAll r a d \<notin> set cs" by blast
  from step(2) obtain l where l: "mgr_sect l n k" by (auto simp: any_sect_def)
  from mgr_sect_good [OF l n(1)] obtain ds where g: "mgr_ok k" "evolves n k" "m_calls k = m_calls n @ ds"
    "list_all (removal_ok n) ds" by (auto simp: good_change_def)
  from g(2) n(3,4) have t: "\<exists>u. m_heap k a = Some u \<and> ss_Recorded u"
    unfolding evolves_def session_le_def by blast
  have "RemoveAll r a d \<notin> set ds" for r d
  proof
    assume "RemoveAll r a d \<in> set ds"
    with g(4) have "removal_ok n (RemoveAll r a d)" unfolding list_all_iff by blast
    with n(2) show False by (auto simp: unseen_def)
  qed
  moreover have "unseen a k"
  proof -
    have "RemoveDirAt r a d as \<notin> set (m_procs k)" "ShutdownCheckAt a as \<notin> set (m_procs k)" for r d as
    proof -
      have dec: "decided n p" if "p \<in> set (m_procs k)" "p \<notin> set (m_procs n)" for p
        using mgr_sect_decided [OF l n(1)] that by blast
      show "ShutdownCheckAt a as \<notin> set (m_procs k)"
        using dec [of "ShutdownCheckAt a as"] n(2-4) by (auto simp: unseen_def)
      show "RemoveDirAt r a d as \<notin> set (m_procs k)"
        using dec [of "RemoveDirAt r a d as"] n(2-4) by (cases r) (auto simp: unseen_def may_remove_def)
    qed
    then show ?thesis by (simp add: unseen_def)
  qed
  ultimately show ?case using n g t by (intro conjI exI [of _ "cs @ ds"]) auto
qed auto

text \<open>The sequential function is a run of its sections.\<close>

lemma run_free:
  assumes "m_procs m = ps @ [p]" "proc_step p m = Some (qs, n)" "\<not> takes_lock p"
  shows "mgr_sect Free m (n\<lparr>m_procs := ps @ qs\<rparr>)"
  using mgr_sect.run [of m ps p "[]" qs n] assms by simp

text \<open>Between calls nobody is replacing a session.\<close>

lemma step_shutdown_replacing: "step_shutdown as m = (ps, n) \<Longrightarrow> \<not> list_ex replacing ps"
  by (cases as) (auto split: option.splits)

lemma proc_step_replacing:
  "proc_step p m = Some (ps, n) \<Longrightarrow> \<not> replacing p \<Longrightarrow> \<not> list_ex replacing ps"
proof (cases p)
  case (ShutdownAt as)
  then show "proc_step p m = Some (ps, n) \<Longrightarrow> \<not> list_ex replacing ps" using step_shutdown_replacing by simp
qed (auto simp: on_session_Some step_remove_def step_unlink_def step_seek_def finish_cleanup_def finish_shutdown_def
    check_shutdown_def replace_check_def case_prod_beta split: if_splits)

lemma sect_replacing:
  "mgr_sect l m n \<Longrightarrow> (\<forall>i. l \<noteq> Taken i) \<Longrightarrow> \<not> list_ex replacing (m_procs m) \<Longrightarrow> \<not> list_ex replacing (m_procs n)"
proof (induction rule: mgr_sect.induct)
  case (run m us p vs ps n)
  then show ?case using proc_step_replacing [of p m ps n] by auto
qed (auto simp: GetOrCreateWithConsumer_def create_session_def AddRecordingConsumer_def RemoveConsumer_def
    RestartWithSeek_def Shutdown_def pipeline_end_def pipeline_install_def Let_def split: option.splits if_splits)

lemma no_replacing: "mgr_reach m \<Longrightarrow> \<not> list_ex replacing (m_procs m)"
proof (induction rule: mgr_reach.induct)
  case (init dirs)
  show ?case by (simp add: init_manager_def)
next
  case (step m n)
  from step(2,3) show ?case
    by (induction rule: mgr_step.induct) (auto dest: sect_replacing)
qed

lemma step_get_or_create:
  assumes "mgr_reach m" "GetOrCreateWithConsumer i m = (r, n)"
  shows "mgr_step m n"
proof (cases "m_sessions m (so_ChannelID (si_opts i))")
  case None
  then show ?thesis using mgr_step.locked [OF mgr_sect.join [OF _ assms(2)]] by simp
next
  case (Some a)
  let ?ch = "so_ChannelID (si_opts i)"
  have ok: "map_ok m" using mgr_reach_ok [OF assms(1)] by (simp add: mgr_ok_def)
  then obtain s where s: "m_heap m a = Some s" using Some map_ok_heap by blast
  show ?thesis
  proof (cases "isDone s")
    case False
    then show ?thesis using mgr_step.locked [OF mgr_sect.join [OF _ assms(2)]] Some s by simp
  next
    case True
    let ?s = "s\<lparr>ss_cancelled := True\<rparr>" and ?b = "replace_begin ?ch a s m"
    let ?m1 = "?b\<lparr>m_procs := m_procs m @ [ReplaceAt a]\<rparr>"
    let ?rs = "if \<not> ss_Recorded s then [RemoveDirAt Replaced a (ss_TempDir s) []] else []"
    let ?w = "close_watcher a s ?b"
    have 1: "mgr_sect (Taken i) m ?m1"
      using mgr_sect.replace [OF Some s True refl] by simp
    have "mgr_sect Free ?m1 (close_watcher a ?s ?m1\<lparr>m_procs := m_procs m @ ?rs\<rparr>)"
      using run_free [of ?m1 "m_procs m" "ReplaceAt a" ?rs "close_watcher a ?s ?m1"] True
      by (auto simp: on_session_def replace_check_def isDone_def)
    moreover have "close_watcher a ?s ?m1\<lparr>m_procs := m_procs m @ ?rs\<rparr> = ?w\<lparr>m_procs := m_procs m @ ?rs\<rparr>"
      by (simp add: close_watcher_def do_call_def)
    ultimately have 2: "mgr_sect Free ?m1 (?w\<lparr>m_procs := m_procs m @ ?rs\<rparr>)" by (simp only:)
    have 3: "(mgr_sect Free)\<^sup>*\<^sup>* (?w\<lparr>m_procs := m_procs m @ ?rs\<rparr>) ((cleanupDoneSession ?ch a s m)\<lparr>m_procs := m_procs m\<rparr>)"
    proof (cases "ss_Recorded s")
      case True
      then show ?thesis by (simp add: cleanupDoneSession_def replace_check_def)
    next
      case False
      then have "mgr_sect Free (?w\<lparr>m_procs := m_procs m @ ?rs\<rparr>)
          ((remove_all Replaced a (ss_TempDir s) ?w)\<lparr>m_procs := m_procs m\<rparr>)"
        using run_free [of "?w\<lparr>m_procs := m_procs m @ ?rs\<rparr>" "m_procs m" "RemoveDirAt Replaced a (ss_TempDir s) []" "[]"]
        by (simp add: remove_all_def do_call_def)
      then show ?thesis using False by (simp add: cleanupDoneSession_def replace_check_def r_into_rtranclp)
    qed
    have same: "(cleanupDoneSession ?ch a s m)\<lparr>m_procs := m_procs m\<rparr> = cleanupDoneSession ?ch a s m"
      using cleanupDoneSession_frame(4) by (metis manager.surjective manager.update_convs(4))
    have 4: "mgr_sect (Released i) (cleanupDoneSession ?ch a s m) n"
      using mgr_sect.replaced [of i _ r n] assms(2) Some s True by (simp add: GetOrCreateWithConsumer_def)
    show ?thesis
      using mgr_step.replacement [OF 1 converse_rtranclp_into_rtranclp [OF 2 3 [unfolded same]] _ 4]
        no_replacing [OF assms(1)] by simp
  qed
qed

text \<open>The sections between calls, as steps.\<close>

lemma step_run:
  "m_procs m = us @ p # vs \<Longrightarrow> proc_step p m = Some (ps, n) \<Longrightarrow> mgr_step m (n\<lparr>m_procs := us @ vs @ ps\<rparr>)"
  using mgr_sect.run [of m us p vs ps n] by (cases "takes_lock p") (auto intro: mgr_step.free mgr_step.locked)

lemmas step_ends = mgr_step.free [OF mgr_sect.ends]
lemmas step_remove_consumer = mgr_step.locked [OF mgr_sect.remove_consumer]
lemmas step_add_recording = mgr_step.locked [OF mgr_sect.add_recording]

section \<open>Reading a session\<close>

text \<open>The accessors of the manager; a channel without a session counts as done.\<close>

definition Manager_Get :: "ident \<Rightarrow> manager \<Rightarrow> Session option" where
  "Manager_Get ch m = Option.bind (m_sessions m ch) (m_heap m)"

definition Manager_ConsumerCount :: "ident \<Rightarrow> manager \<Rightarrow> nat" where
  "Manager_ConsumerCount ch m = (case Manager_Get ch m of None \<Rightarrow> 0 | Some s \<Rightarrow> consumerCount s)"

definition Manager_IsDone :: "ident \<Rightarrow> manager \<Rightarrow> bool" where
  "Manager_IsDone ch m = (case Manager_Get ch m of None \<Rightarrow> True | Some s \<Rightarrow> isDone s)"

definition Manager_GetError :: "ident \<Rightarrow> manager \<Rightarrow> error option" where
  "Manager_GetError ch m = (case Manager_Get ch m of None \<Rightarrow> None | Some s \<Rightarrow> ss_err s)"

end
