(* ===== verification/SessionRuns.thy ===== *)
theory SessionRuns
  imports SessionManager
begin

text \<open>
  What runs of the session manager guarantee: the safety of removals in every reachable state, the
  result of \<open>GetOrCreateWithConsumer\<close>, the cleanup after the last consumer, and four races of the
  code (a viewer that joins a session about to be stopped, a new session whose directory an older
  cleanup removes, a recording attached between the check of a cleanup and its removal, and a
  recording replaced after its pipeline died).
\<close>

section \<open>Concrete runs\<close>

text \<open>A viewer and a recorder of the channel \<open>c1\<close>, and the states they reach.\<close>

definition example_opts :: StartOpts where
  "example_opts = \<lparr>so_ChannelID = ''c1'', so_StreamID = ''s1'', so_StreamURL = ''http://h/1'', so_StreamName = ''One'',
     so_ChannelName = ''One'', so_ProfileName = ''p'', so_OutputVideoCodec = ''copy'', so_OutputAudioCodec = ''copy'',
     so_OutputContainer = ''mp4'', so_OutputHWAccel = ''none'', so_Delivery = ''mse'', so_UseWireGuard = False,
     so_KnownDuration = 0, so_SeekOffset = 0, so_OutputDir = ''/rec'', so_MetadataOnly = False\<rparr>"

definition example_in :: "string \<Rightarrow> ident \<Rightarrow> session_in" where
  "example_in ty cid = \<lparr>si_opts = example_opts, si_type = ty, si_now = 0, si_session = ''sess'', si_consumer = cid,
     si_sanitize = (\<lambda>n t. n), si_active = None, si_mkdir = None, si_probe = (\<lambda>s. None)\<rparr>"

definition run_last :: "manager \<Rightarrow> manager" where
  "run_last m = (case m_procs m of [] \<Rightarrow> m | ps \<Rightarrow>
     (case proc_step (last ps) m of None \<Rightarrow> m | Some (qs, n) \<Rightarrow> n\<lparr>m_procs := butlast ps @ qs\<rparr>))"

lemma run_last_reach: "mgr_reach m \<Longrightarrow> mgr_reach (run_last m)"
proof -
  assume r: "mgr_reach m"
  show ?thesis
  proof (cases "m_procs m = [] \<or> proc_step (last (m_procs m)) m = None")
    case True then show ?thesis using r by (auto simp: run_last_def split: list.splits)
  next
    case False
    then obtain qs n where st: "proc_step (last (m_procs m)) m = Some (qs, n)" by auto
    have "m_procs m = butlast (m_procs m) @ last (m_procs m) # []" using False by simp
    then have "mgr_step m (n\<lparr>m_procs := butlast (m_procs m) @ [] @ qs\<rparr>)" using st by (rule step_run)
    then show ?thesis using r False st by (auto simp: run_last_def split: list.splits intro: mgr_reach.step)
  qed
qed

definition session_at :: "nat \<Rightarrow> manager \<Rightarrow> Session" where
  "session_at a m = the (m_heap m a)"

definition ex_started :: "string \<Rightarrow> manager" where
  "ex_started ty = snd (GetOrCreateWithConsumer (example_in ty ''v1'') (init_manager {}))"

definition ex_ended :: "manager \<Rightarrow> manager" where
  "ex_ended m = pipeline_end 0 None (session_at 0 m) m"

definition ex_leaving :: "manager \<Rightarrow> manager" where
  "ex_leaving m = run_last (run_last (m\<lparr>m_procs := m_procs m @ RemoveConsumer ''c1'' ''v1'' m\<rparr>))"

lemma example_dir: "temp_dir (example_in ty cid) = ''/rec/s1/active''"
proof -
  have "Join [''/rec'', ''s1'', ''active''] = ''/rec/s1/active''" by code_simp
  then show ?thesis by (simp add: temp_dir_def example_in_def example_opts_def stream_key_def)
qed

lemma ex_started_reach: "mgr_reach (ex_started ty)"
  unfolding ex_started_def
  by (rule mgr_reach.step [OF mgr_reach.init step_get_or_create [OF mgr_reach.init]]) (rule surjective_pairing)

lemma ex_leaving_reach: "mgr_reach m \<Longrightarrow> mgr_reach (ex_leaving m)"
  unfolding ex_leaving_def by (intro run_last_reach) (rule mgr_reach.step [OF _ step_remove_consumer])

lemma ex_ended_reach: "mgr_reach m \<Longrightarrow> m_heap m 0 = Some s \<Longrightarrow> 0 < ss_running s \<Longrightarrow> mgr_reach (ex_ended m)"
  unfolding ex_ended_def session_at_def by (rule mgr_reach.step, assumption) (auto intro: step_ends)

lemma ex_started_eq:
  "m_heap (ex_started ty) = [0 \<mapsto> (new_session (example_in ty ''v1''))\<lparr>ss_running := 1\<rparr>]"
  "m_sessions (ex_started ty) = [''c1'' \<mapsto> 0]" "m_procs (ex_started ty) = []" "m_next (ex_started ty) = 1"
  "m_dirs (ex_started ty) = {''/rec/s1/active''}" "m_calls (ex_started ty) = [RunPipeline 0]"
proof -
  have i: "si_opts (example_in ty ''v1'') = example_opts" "so_ChannelID example_opts = ''c1''"
    "si_mkdir (example_in ty ''v1'') = None" "si_active (example_in ty ''v1'') = None" "\<not> so_MetadataOnly example_opts"
    by (simp_all add: example_in_def example_opts_def)
  note d = ex_started_def GetOrCreateWithConsumer_def create_session_def init_manager_def Let_def example_dir i
  show "m_heap (ex_started ty) = [0 \<mapsto> (new_session (example_in ty ''v1''))\<lparr>ss_running := 1\<rparr>]" by (simp add: d)
  show "m_sessions (ex_started ty) = [''c1'' \<mapsto> 0]" by (simp add: d)
  show "m_procs (ex_started ty) = []" by (simp add: d)
  show "m_next (ex_started ty) = 1" by (simp add: d)
  show "m_dirs (ex_started ty) = {''/rec/s1/active''}" by (simp add: d)
  show "m_calls (ex_started ty) = [RunPipeline 0]" by (simp add: d)
qed

lemma ex_session:
  "ss_consumers (new_session (example_in ty ''v1'')) = [(''v1'', \<lparr>cn_ID = ''v1'', cn_Type = ty, cn_CreatedAt = 0\<rparr>)]"
  "ss_wasRecording (new_session (example_in ty ''v1'')) = (ty = ConsumerRecording)"
  "\<not> ss_Recorded (new_session (example_in ty ''v1''))" "ss_gen (new_session (example_in ty ''v1'')) = 0"
  "ss_closed (new_session (example_in ty ''v1'')) = []" "ss_running (new_session (example_in ty ''v1'')) = 0"
  by (simp_all add: new_session_def fresh_session_def example_in_def example_opts_def addConsumer_def new_consumer_def Let_def)

section \<open>What the manager guarantees\<close>

text \<open>C20: In every reachable state of the session manager, under every interleaving of calls,
  cleanup goroutines and pipeline ends, the map leads from a channel to a session of that channel
  (so no session serves two channels), the consumers of a session have distinct identifiers, and a
  session with a recording consumer, or one marked as recorded, is also marked as once recorded.\<close>

theorem session_map_sound:
  assumes "mgr_reach m" "m_sessions m ch = Some a"
  shows "\<exists>s. m_heap m a = Some s \<and> ss_ChannelID s = ch \<and> distinct (map fst (ss_consumers s))
    \<and> (HasRecordingConsumer s \<or> ss_Recorded s \<longrightarrow> ss_wasRecording s)
    \<and> (\<forall>ch'. m_sessions m ch' = Some a \<longrightarrow> ch' = ch)"
proof -
  have ok: "map_ok m" using mgr_reach_ok [OF assms(1)] by (simp add: mgr_ok_def)
  then obtain s where s: "m_heap m a = Some s" using assms(2) map_ok_heap by blast
  then have "session_ok s" using ok by (simp add: map_ok_def)
  then show ?thesis using s map_ok_channel [OF ok _ s] assms(2) by (auto simp: session_ok_def)
qed



section \<open>Joining and leaving\<close>

lemma GetOrCreate_live:
  assumes "m_sessions m (so_ChannelID (si_opts i)) = Some a" "m_heap m a = Some s" "\<not> isDone s"
  shows "GetOrCreateWithConsumer i m = (Inr (a, si_consumer i), put_session a (addConsumer (new_consumer i) s) m)"
  using assms by (simp add: GetOrCreateWithConsumer_def)

lemma addConsumer_lookup: "map_of (ss_consumers (addConsumer c s)) (cn_ID c) = Some c"
  by (simp add: addConsumer_def update_conv')

lemma new_session_consumers: "ss_consumers (new_session i) = [(si_consumer i, new_consumer i)]"
  by (simp add: new_session_def SetProbeInfo_def fresh_session_def addConsumer_def new_consumer_def Let_def split: option.splits)

lemma new_session_open: "\<not> isDone ((new_session i)\<lparr>ss_running := k\<rparr>)"
  by (simp add: isDone_def new_session_def SetProbeInfo_def fresh_session_def addConsumer_def Let_def split: option.splits)

lemma create_calls: "create_session i m = (r, n) \<Longrightarrow> \<exists>cs. m_calls n = m_calls m @ cs"
  by (auto simp: create_session_def Let_def split: option.splits)

lemma create_spec:
  assumes "create_session i m = (r, n)"
  shows "case r of
      Inl e \<Rightarrow> (\<exists>x. si_mkdir i = Some x \<and> e = ''creating session dir: '' @ x) \<and> n = m
    | Inr (a, c) \<Rightarrow> a = m_next m \<and> c = si_consumer i \<and> m_sessions n = (m_sessions m)(so_ChannelID (si_opts i) \<mapsto> a)
        \<and> (\<exists>s. m_heap n a = Some s \<and> \<not> isDone s \<and> ss_consumers s = [(c, new_consumer i)]
            \<and> ss_running s = (if so_MetadataOnly (si_opts i) then 0 else 1) \<and> ss_TempDir s \<in> m_dirs n)"
  using assms new_session_open [where i = i] new_session_consumers [of i]
  by (auto simp: create_session_def Let_def split: option.splits)

text \<open>\<open>GetOrCreateWithConsumer\<close>, from any reachable state: it fails only when the session
  directory cannot be made, and then the channel has no session; otherwise the channel's session is
  not done and has the new consumer, it is the old session with its other consumers kept when that
  one was still running, and a fresh session with a running pipeline and an existing directory
  otherwise. The sessions of the other channels stay.\<close>

theorem GetOrCreate_spec:
  assumes "mgr_reach m" "GetOrCreateWithConsumer i m = (r, n)"
  defines "ch \<equiv> so_ChannelID (si_opts i)"
  shows "case r of
      Inl e \<Rightarrow> si_mkdir i \<noteq> None \<and> m_sessions n = (m_sessions m)(ch := None)
    | Inr (a, c) \<Rightarrow> c = si_consumer i \<and> m_sessions n = (m_sessions m)(ch \<mapsto> a)
        \<and> (\<exists>s. m_heap n a = Some s \<and> \<not> isDone s \<and> map_of (ss_consumers s) c = Some (new_consumer i)
            \<and> (if a = m_next m then ss_consumers s = [(c, new_consumer i)] \<and> ss_TempDir s \<in> m_dirs n
                 \<and> ss_running s = (if so_MetadataOnly (si_opts i) then 0 else 1)
               else \<exists>old. m_sessions m ch = Some a \<and> m_heap m a = Some old \<and> \<not> isDone old
                 \<and> s = addConsumer (new_consumer i) old))"
proof -
  have ok: "map_ok m" using mgr_reach_ok [OF assms(1)] by (simp add: mgr_ok_def)
  consider (none) "m_sessions m ch = None" | (dead) a s where "m_sessions m ch = Some a" "m_heap m a = Some s" "isDone s"
    | (live) a s where "m_sessions m ch = Some a" "m_heap m a = Some s" "\<not> isDone s"
    using map_ok_heap [OF ok] by (cases "m_sessions m ch") blast+
  then show ?thesis
  proof cases
    case none
    then have "create_session i m = (r, n)" using assms(2) by (simp add: GetOrCreateWithConsumer_def ch_def)
    from create_spec [OF this] show ?thesis using none by (auto simp: ch_def fun_upd_idem split: sum.splits)
  next
    case (dead a s)
    then have "create_session i (cleanupDoneSession ch a s m) = (r, n)"
      using assms(2) by (simp add: GetOrCreateWithConsumer_def ch_def)
    from create_spec [OF this] show ?thesis by (auto simp: ch_def split: sum.splits)
  next
    case (live a s)
    then have "r = Inr (a, si_consumer i)" "n = put_session a (addConsumer (new_consumer i) s) m"
      using GetOrCreate_live [of m i a s] assms(2) by (simp_all add: ch_def)
    moreover have "a \<noteq> m_next m" using ok live(2) by (auto simp: map_ok_def)
    moreover have "\<not> isDone (addConsumer (new_consumer i) s)" using live(3) by (simp add: isDone_def addConsumer_def)
    ultimately show ?thesis using live addConsumer_lookup [of "new_consumer i" s]
      by (auto simp: fun_upd_idem new_consumer_def)
  qed
qed

text \<open>The sections of one call run to its end, other pending calls waiting.\<close>

lemma run_section:
  assumes "m_procs m = ps @ [p]" "proc_step p m = Some (qs, n)"
  shows "mgr_step m (n\<lparr>m_procs := ps @ qs\<rparr>)"
  using step_run [of m ps p "[]" qs n] assms by simp

lemma put_session_swap [simp]:
  "put_session a t (m\<lparr>m_sessions := f\<rparr>) = (put_session a t m)\<lparr>m_sessions := f\<rparr>"
  "put_session a t (m\<lparr>m_procs := ps\<rparr>) = (put_session a t m)\<lparr>m_procs := ps\<rparr>"
  "put_session a t (put_session a s m) = put_session a t m"
  by (cases m; simp add: put_session_def)+

lemma put_session_same: "m_heap m a = Some t \<Longrightarrow> put_session a t m = m"
  by (cases m) (auto simp: put_session_def)

lemma delete_last_consumer: "map fst cs = [c] \<Longrightarrow> AList.delete c cs = []"
  by (cases cs) (auto simp: AList.delete_eq)

text \<open>The session after the last consumer left, and the state after the cleanup's wait.\<close>

definition drained :: "Session \<Rightarrow> Session" where
  "drained s = s\<lparr>ss_consumers := [], ss_cancelled := True\<rparr>"

lemma leave_steps:
  assumes "m_sessions m ch = Some a" "m_heap m a = Some s" "map fst (ss_consumers s) = [c]"
  defines "n \<equiv> (put_session a (drained s) m)\<lparr>m_sessions := (m_sessions m)(ch := None)\<rparr>"
  shows "mgr_step\<^sup>*\<^sup>* m (n\<lparr>m_procs := m_procs m @ [WaitAt ch a (ss_gen s)]\<rparr>)"
proof -
  let ?s = "s\<lparr>ss_consumers := []\<rparr>"
  let ?m = "\<lambda>ps. m\<lparr>m_procs := m_procs m @ ps\<rparr>"
  let ?k = "\<lambda>ps. (put_session a ?s m)\<lparr>m_procs := m_procs m @ ps\<rparr>"
  let ?u = "\<lambda>ps. (put_session a ?s m)\<lparr>m_sessions := (m_sessions m)(ch := None), m_procs := m_procs m @ ps\<rparr>"
  have rec: "\<not> HasRecordingConsumer ?s" by (simp add: HasRecordingConsumer_def)
  have 1: "mgr_step m (?m [RemoveAt ch a c])"
    using step_remove_consumer [of m ch c] assms(1) by (simp add: RemoveConsumer_def)
  have "mgr_step (?m [RemoveAt ch a c]) (?k [CheckAt ch a])"
    using run_section [of "?m [RemoveAt ch a c]" "m_procs m" "RemoveAt ch a c"] assms(2,3)
    by (simp add: on_session_def step_remove_def removeConsumer_def delete_last_consumer Let_def)
  moreover have "mgr_step (?k [CheckAt ch a]) (?k [CleanupAt ch a])"
    using run_section [of "?k [CheckAt ch a]" "m_procs m" "CheckAt ch a"] rec by (simp add: on_session_def)
  moreover have "mgr_step (?k [CleanupAt ch a]) (?u [StopAt ch a])"
    using run_section [of "?k [CleanupAt ch a]" "m_procs m" "CleanupAt ch a"] assms(1)
    by (simp add: step_unlink_def)
  moreover have "mgr_step (?u [StopAt ch a]) (n\<lparr>m_procs := m_procs m @ [WaitAt ch a (ss_gen s)]\<rparr>)"
    using run_section [of "?u [StopAt ch a]" "m_procs m" "StopAt ch a"]
    by (simp add: on_session_def n_def drained_def)
  ultimately show ?thesis using 1 by (meson converse_rtranclp_into_rtranclp rtranclp.rtrancl_refl)
qed

text \<open>What is left of a cleanup once the pipeline has ended.\<close>

definition cleaned :: "ident \<Rightarrow> nat \<Rightarrow> Session \<Rightarrow> manager \<Rightarrow> manager" where
  "cleaned ch a s m = (let m1 = close_watcher a s (do_call (OnCleanup ch) m)
     in if ss_wasRecording s then m1 else remove_all Cleaned a (ss_TempDir s) m1)"

lemma finish_steps:
  assumes "m_procs m = ps @ [WaitAt ch a g]" "m_heap m a = Some s" "g \<in> set (ss_closed s)"
    "ss_Recorded s \<longrightarrow> ss_wasRecording s"
  shows "mgr_step\<^sup>*\<^sup>* m ((cleaned ch a s m)\<lparr>m_procs := ps\<rparr>)"
proof -
  let ?w = "close_watcher a s (do_call (OnCleanup ch) m)"
  let ?q = "if \<not> ss_Recorded s \<and> \<not> ss_wasRecording s then [RemoveDirAt Cleaned a (ss_TempDir s) []] else []"
  have 1: "mgr_step m (?w\<lparr>m_procs := ps @ ?q\<rparr>)"
    using run_section [OF assms(1), of ?q ?w] assms(2,3) by (simp add: on_session_def finish_cleanup_def)
  show ?thesis
  proof (cases "ss_wasRecording s")
    case True
    then show ?thesis using 1 by (simp add: cleaned_def r_into_rtranclp)
  next
    case False
    then have q: "?q = [RemoveDirAt Cleaned a (ss_TempDir s) []]" using assms(4) by simp
    have "mgr_step (?w\<lparr>m_procs := ps @ ?q\<rparr>) ((cleaned ch a s m)\<lparr>m_procs := ps\<rparr>)"
      using run_section [of "?w\<lparr>m_procs := ps @ ?q\<rparr>" ps "RemoveDirAt Cleaned a (ss_TempDir s) []" "[]"] False q
      by (simp add: cleaned_def remove_all_def do_call_def)
    with 1 show ?thesis by (meson converse_rtranclp_into_rtranclp r_into_rtranclp)
  qed
qed

text \<open>C27: When the last consumer of a session leaves, the call and the goroutine it starts can
  always run to their end: the session leaves the map, its context is cancelled, and after its
  pipeline has ended (it is running, or has ended before) the cleanup callback runs and the
  directory is removed exactly when no recording was ever attached to the session.\<close>

theorem last_consumer_cleanup:
  assumes "mgr_reach m" "m_sessions m ch = Some a" "m_heap m a = Some s" "map fst (ss_consumers s) = [c]"
    "0 < ss_running s \<or> isDone s"
  shows "\<exists>n t cs. mgr_step\<^sup>*\<^sup>* m n \<and> m_procs n = m_procs m \<and> m_sessions n = (m_sessions m)(ch := None)
    \<and> m_heap n a = Some t \<and> ss_consumers t = [] \<and> ss_cancelled t \<and> isDone t
    \<and> m_calls n = m_calls m @ [OnCleanup ch] @ cs
    \<and> (RemoveAll Cleaned a (ss_TempDir s) \<in> set cs \<longleftrightarrow> \<not> ss_wasRecording s)
    \<and> (ss_TempDir s \<in> m_dirs n \<longrightarrow> ss_wasRecording s)"
proof -
  let ?n = "(put_session a (drained s) m)
    \<lparr>m_sessions := (m_sessions m)(ch := None), m_procs := m_procs m @ [WaitAt ch a (ss_gen s)]\<rparr>"
  define t where "t = (if isDone s then drained s else markDone ((drained s)\<lparr>ss_running := ss_running s - 1\<rparr>))"
  let ?k = "put_session a t ?n"
  have rw: "ss_Recorded s \<longrightarrow> ss_wasRecording s"
    using mgr_reach_ok [OF assms(1)] assms(3) by (simp add: mgr_ok_def map_ok_def session_ok_def)
  have same: "?k = ?n" if "isDone s" using that by (intro put_session_same) (simp add: t_def)
  have t: "isDone t" "ss_consumers t = []" "ss_cancelled t" "ss_TempDir t = ss_TempDir s"
    "ss_wasRecording t = ss_wasRecording s" "ss_Recorded t = ss_Recorded s" "ss_gen s \<in> set (ss_closed t)"
    by (auto simp: t_def drained_def markDone_def isDone_def)
  have "mgr_step\<^sup>*\<^sup>* ?n ?k"
  proof (cases "isDone s")
    case True then show ?thesis using same by simp
  next
    case False
    then have "mgr_step ?n (pipeline_end a None (drained s) ?n)"
      using assms(5) by (intro step_ends) (auto simp: drained_def)
    moreover have "pipeline_end a None (drained s) ?n = ?k"
      using False by (simp add: pipeline_end_def t_def drained_def)
    ultimately show ?thesis by auto
  qed
  moreover have "mgr_step\<^sup>*\<^sup>* ?k ((cleaned ch a t ?k)\<lparr>m_procs := m_procs m\<rparr>)" (is "mgr_step\<^sup>*\<^sup>* _ ?f")
    using finish_steps [of ?k "m_procs m" ch a "ss_gen s" t] t(5-7) rw by simp
  ultimately have "mgr_step\<^sup>*\<^sup>* m ?f"
    using leave_steps [OF assms(2-4)] by (meson rtranclp_trans)
  then show ?thesis using t rw
    by (intro exI [of _ ?f] exI [of _ t] exI [of _ "(if ss_watcher t then [WatcherClose a] else [])
        @ (if ss_wasRecording s then [] else [RemoveAll Cleaned a (ss_TempDir s)])"])
      (auto simp: cleaned_def Let_def)
qed

section \<open>Four races\<close>

text \<open>A viewer that joins between the last \<open>RemoveConsumer\<close> and the cleanup goroutine it started
  is attached to the running session and reported as successful; the goroutine then unlinks and
  cancels the session all the same, because it only compares pointers and does not look at the
  consumers again.\<close>

theorem late_viewer_loses_session:
  assumes "mgr_reach m" "m_procs m = ps @ [CleanupAt ch a]" "m_sessions m ch = Some a" "m_heap m a = Some s"
    "\<not> isDone s" "so_ChannelID (si_opts i) = ch"
  shows "\<exists>n k t. GetOrCreateWithConsumer i m = (Inr (a, si_consumer i), n) \<and> mgr_step\<^sup>*\<^sup>* n k
    \<and> m_sessions k ch = None \<and> m_heap k a = Some t \<and> ss_cancelled t
    \<and> map_of (ss_consumers t) (si_consumer i) = Some (new_consumer i)"
proof -
  define s1 where "s1 = addConsumer (new_consumer i) s"
  let ?n = "put_session a s1 m"
  let ?u = "?n\<lparr>m_sessions := (m_sessions m)(ch := None), m_procs := ps @ [StopAt ch a]\<rparr>"
  let ?k = "put_session a (s1\<lparr>ss_cancelled := True\<rparr>) m\<lparr>m_sessions := (m_sessions m)(ch := None), m_procs := ps @ [WaitAt ch a (ss_gen s1)]\<rparr>"
  have "mgr_step ?n ?u"
    using run_section [of ?n ps "CleanupAt ch a"] assms(2,3) by (simp add: step_unlink_def)
  moreover have "mgr_step ?u ?k" using run_section [of ?u ps "StopAt ch a"] by (simp add: on_session_def)
  ultimately have "mgr_step\<^sup>*\<^sup>* ?n ?k" by (meson converse_rtranclp_into_rtranclp rtranclp.rtrancl_refl)
  then show ?thesis
    using GetOrCreate_live [of m i a s] assms addConsumer_lookup [of "new_consumer i" s]
    by (intro exI [of _ ?n] exI [of _ ?k] exI [of _ "s1\<lparr>ss_cancelled := True\<rparr>"]) (simp add: s1_def new_consumer_def)
qed

text \<open>The directory of a session is named after its stream, so a session that is created for the
  channel while the cleanup of the previous one still waits for its pipeline uses the same
  directory; the cleanup then removes it although the new session is in the map and running.\<close>

theorem new_session_loses_directory:
  assumes "mgr_reach m" "m_procs m = ps @ [WaitAt ch a g]" "m_heap m a = Some s" "g \<in> set (ss_closed s)"
    "\<not> ss_wasRecording s" "m_sessions m ch = None" "so_ChannelID (si_opts i) = ch" "si_mkdir i = None"
    "temp_dir i = ss_TempDir s"
  shows "\<exists>n b k t. GetOrCreateWithConsumer i m = (Inr (b, si_consumer i), n) \<and> mgr_step\<^sup>*\<^sup>* n k
    \<and> m_sessions k ch = Some b \<and> m_heap k b = Some t \<and> \<not> isDone t \<and> ss_TempDir t \<notin> m_dirs k"
proof -
  obtain r n where c: "create_session i m = (r, n)" by force
  have g: "GetOrCreateWithConsumer i m = (r, n)" using c assms(6,7) by (simp add: GetOrCreateWithConsumer_def)
  have r: "r = Inr (m_next m, si_consumer i)" using c assms(8) by (auto simp: create_session_def Let_def)
  define t where "t = (new_session i)\<lparr>ss_running := (if so_MetadataOnly (si_opts i) then 0 else 1)\<rparr>"
  have ok: "map_ok m" "mgr_ok m" using mgr_reach_ok [OF assms(1)] by (simp_all add: mgr_ok_def)
  have ne: "a < m_next m" "session_ok s" using ok(1) assms(3) by (auto simp: map_ok_def)
  have n: "m_heap n = (m_heap m)(m_next m \<mapsto> t)" "m_sessions n = (m_sessions m)(ch \<mapsto> m_next m)" "m_procs n = m_procs m"
    using c assms(7,8) by (auto simp: create_session_def Let_def t_def)
  let ?k = "(cleaned ch a s n)\<lparr>m_procs := ps\<rparr>"
  have "\<not> ss_Recorded s" using ne(2) assms(5) by (simp add: session_ok_def)
  then have "mgr_step\<^sup>*\<^sup>* n ?k"
    using finish_steps [of n ps ch a g s] assms(2-4) ne(1) n by simp
  then show ?thesis using g r n assms(5,9) new_session_open [where i = i]
    by (intro exI [of _ n] exI [of _ "m_next m"] exI [of _ ?k] exI [of _ t]) (simp add: cleaned_def Let_def t_def)
qed

text \<open>The flags are read without the session's lock and the directory is removed after that: a
  recording that looked the session up before the cleanup took it out of the map, and is attached
  between the two, is told that it runs and loses its directory.\<close>

theorem late_recording_loses_directory:
  assumes "mgr_reach m" "m_procs m = [AddRecordingAt a cid now, WaitAt ch a g]" "m_heap m a = Some s"
    "g \<in> set (ss_closed s)" "\<not> ss_wasRecording s"
  shows "\<exists>n t. mgr_step\<^sup>*\<^sup>* m n \<and> m_procs n = [] \<and> m_heap n a = Some t \<and> ss_Recorded t \<and> HasRecordingConsumer t
    \<and> ss_TempDir t \<notin> m_dirs n"
proof -
  let ?c = "\<lparr>cn_ID = cid, cn_Type = ConsumerRecording, cn_CreatedAt = now\<rparr>"
  let ?w = "close_watcher a s (do_call (OnCleanup ch) m)" and ?d = "RemoveDirAt Cleaned a (ss_TempDir s) []"
  let ?t = "addConsumer ?c s"
  have "session_ok s" using mgr_reach_ok [OF assms(1)] assms(3) by (simp add: mgr_ok_def map_ok_def)
  then have ns: "\<not> ss_Recorded s" using assms(5) by (simp add: session_ok_def)
  have 1: "mgr_step m (?w\<lparr>m_procs := [AddRecordingAt a cid now, ?d]\<rparr>)"
    using run_section [of m "[AddRecordingAt a cid now]" "WaitAt ch a g" "[?d]" ?w] assms(2-5) ns
    by (simp add: on_session_def finish_cleanup_def)
  have 2: "mgr_step (?w\<lparr>m_procs := [AddRecordingAt a cid now, ?d]\<rparr>) (put_session a ?t ?w\<lparr>m_procs := [?d, RecordAt a]\<rparr>)"
    using step_run [of "?w\<lparr>m_procs := [AddRecordingAt a cid now, ?d]\<rparr>" "[]" "AddRecordingAt a cid now" "[?d]"] assms(3)
    by (simp add: on_session_def step_add_def)
  have 3: "mgr_step (put_session a ?t ?w\<lparr>m_procs := [?d, RecordAt a]\<rparr>) (put_session a (Record ?t) ?w\<lparr>m_procs := [?d]\<rparr>)"
    using step_run [of "put_session a ?t ?w\<lparr>m_procs := [?d, RecordAt a]\<rparr>" "[?d]" "RecordAt a" "[]"]
    by (simp add: on_session_def)
  have 4: "mgr_step (put_session a (Record ?t) ?w\<lparr>m_procs := [?d]\<rparr>)
      ((remove_all Cleaned a (ss_TempDir s) (put_session a (Record ?t) ?w))\<lparr>m_procs := []\<rparr>)" (is "mgr_step _ ?n")
    using step_run [of "put_session a (Record ?t) ?w\<lparr>m_procs := [?d]\<rparr>" "[]" ?d "[]"]
    by (simp add: remove_all_def do_call_def)
  have "mgr_step\<^sup>*\<^sup>* m ?n" using 1 2 3 4 by (meson converse_rtranclp_into_rtranclp r_into_rtranclp)
  moreover have "(cid, ?c) \<in> set (ss_consumers ?t)"
    using map_of_SomeD [OF addConsumer_lookup [of ?c s]] by simp
  then have "HasRecordingConsumer (Record ?t)"
    by (force simp: HasRecordingConsumer_def list_ex_iff Record_def)
  ultimately show ?thesis
    by (intro exI [of _ ?n] exI [of _ "Record ?t"]) (simp add: Record_def addConsumer_def)
qed

text \<open>A session that was started by a recording and whose pipeline has ended is replaced by the
  next consumer of the channel, and its directory is removed with what was recorded:
  \<open>cleanupDoneSession\<close> only looks at \<open>Recorded\<close>, which the recording that started the session never
  sets, and not at the attached recording consumer.\<close>

theorem dead_recording_is_removed:
  assumes "mgr_reach m" "m_sessions m ch = Some a" "m_heap m a = Some s" "isDone s" "\<not> ss_Recorded s"
    "HasRecordingConsumer s" "so_ChannelID (si_opts i) = ch" "GetOrCreateWithConsumer i m = (r, n)"
  shows "\<exists>cs. m_calls n = m_calls m @ cs \<and> RemoveAll Replaced a (ss_TempDir s) \<in> set cs"
proof -
  have c: "create_session i (cleanupDoneSession ch a s m) = (r, n)"
    using assms by (simp add: GetOrCreateWithConsumer_def)
  from create_calls [OF c] show ?thesis using assms(5) by auto
qed

section \<open>The theorems on concrete runs\<close>

definition ex_waiting :: manager where
  "ex_waiting = ex_ended (run_last (run_last (ex_leaving (ex_started ConsumerViewer))))"

definition ex_session0 :: "string \<Rightarrow> Session" where
  "ex_session0 ty = (new_session (example_in ty ''v1''))\<lparr>ss_running := 1\<rparr>"

lemma ex_session0_fields [simp]:
  "ss_consumers (ex_session0 ty) = [(''v1'', \<lparr>cn_ID = ''v1'', cn_Type = ty, cn_CreatedAt = 0\<rparr>)]"
  "ss_wasRecording (ex_session0 ty) = (ty = ConsumerRecording)" "\<not> ss_Recorded (ex_session0 ty)"
  "ss_gen (ex_session0 ty) = 0" "ss_closed (ex_session0 ty) = []" "ss_running (ex_session0 ty) = 1"
  "ss_TempDir (ex_session0 ty) = ''/rec/s1/active''" "ss_ChannelID (ex_session0 ty) = ''c1''"
  using ex_session [of ty] new_session_fields [of "example_in ty ''v1''"] example_dir [of ty "''v1''"]
  by (simp_all add: ex_session0_def example_in_def example_opts_def)

lemma ex_started_state:
  "ex_started ty = \<lparr>m_heap = [0 \<mapsto> ex_session0 ty], m_next = 1, m_sessions = [''c1'' \<mapsto> 0], m_procs = [],
     m_dirs = {''/rec/s1/active''}, m_calls = [RunPipeline 0]\<rparr>"
  using ex_started_eq [of ty] by (cases "ex_started ty") (simp add: ex_session0_def)

lemma ex_leaving_state:
  "ex_leaving (ex_started ConsumerViewer) = \<lparr>m_heap = [0 \<mapsto> (ex_session0 ConsumerViewer)\<lparr>ss_consumers := []\<rparr>],
     m_next = 1, m_sessions = [''c1'' \<mapsto> 0], m_procs = [CleanupAt ''c1'' 0],
     m_dirs = {''/rec/s1/active''}, m_calls = [RunPipeline 0]\<rparr>"
  by (simp add: ex_leaving_def ex_started_state RemoveConsumer_def run_last_def on_session_def step_remove_def
      removeConsumer_def Let_def HasRecordingConsumer_def put_session_def)

lemma ex_waiting_state:
  "ex_waiting = \<lparr>m_heap = [0 \<mapsto> (ex_session0 ConsumerViewer)\<lparr>ss_consumers := [], ss_cancelled := True, ss_running := 0,
       ss_closed := [0]\<rparr>],
     m_next = 1, m_sessions = Map.empty, m_procs = [WaitAt ''c1'' 0 0],
     m_dirs = {''/rec/s1/active''}, m_calls = [RunPipeline 0]\<rparr>"
  by (simp add: ex_waiting_def ex_leaving_state run_last_def on_session_def step_unlink_def ex_ended_def session_at_def
      pipeline_end_def markDone_def isDone_def put_session_def)

lemma ex_waiting_reach: "mgr_reach ex_waiting"
proof -
  let ?m = "run_last (run_last (ex_leaving (ex_started ConsumerViewer)))"
  have "mgr_reach ?m" by (intro run_last_reach ex_leaving_reach ex_started_reach)
  moreover have "m_heap ?m 0 = Some ((ex_session0 ConsumerViewer)\<lparr>ss_consumers := [], ss_cancelled := True\<rparr>)"
    by (simp add: ex_leaving_state run_last_def on_session_def step_unlink_def put_session_def)
  ultimately show ?thesis unfolding ex_waiting_def by (rule ex_ended_reach) simp
qed

lemma ex_dead_state:
  "ex_ended (ex_started ty) = \<lparr>m_heap = [0 \<mapsto> (ex_session0 ty)\<lparr>ss_running := 0, ss_closed := [0]\<rparr>], m_next = 1,
     m_sessions = [''c1'' \<mapsto> 0], m_procs = [], m_dirs = {''/rec/s1/active''}, m_calls = [RunPipeline 0]\<rparr>"
  by (simp add: ex_ended_def session_at_def ex_started_state pipeline_end_def markDone_def isDone_def put_session_def)

lemma ex_dead_reach: "mgr_reach (ex_ended (ex_started ty))"
  by (rule ex_ended_reach [OF ex_started_reach, of _ "ex_session0 ty"]) (simp_all add: ex_started_state)

lemma example_in_fields [simp]: "so_ChannelID (si_opts (example_in ty c)) = ''c1''" "si_mkdir (example_in ty c) = None"
  "si_consumer (example_in ty c) = c"
  by (simp_all add: example_in_def example_opts_def)

theorem session_map_sound_witness:
  "\<exists>s. m_heap (ex_started ConsumerViewer) 0 = Some s \<and> ss_ChannelID s = ''c1'' \<and> distinct (map fst (ss_consumers s))"
proof -
  have "m_sessions (ex_started ConsumerViewer) ''c1'' = Some 0" by (simp add: ex_started_state)
  from session_map_sound [OF ex_started_reach this] show ?thesis by blast
qed

theorem late_viewer_loses_session_witness:
  "\<exists>n k t. GetOrCreateWithConsumer (example_in ConsumerViewer ''v2'') (ex_leaving (ex_started ConsumerViewer)) = (Inr (0, ''v2''), n)
    \<and> mgr_step\<^sup>*\<^sup>* n k \<and> m_sessions k ''c1'' = None \<and> m_heap k 0 = Some t \<and> ss_cancelled t
    \<and> map_of (ss_consumers t) ''v2'' = Some (new_consumer (example_in ConsumerViewer ''v2''))"
  using late_viewer_loses_session [OF ex_leaving_reach [OF ex_started_reach], of ConsumerViewer "[]" "''c1''" 0 _
      "example_in ConsumerViewer ''v2''"]
  by (simp add: ex_leaving_state isDone_def)

theorem new_session_loses_directory_witness:
  "\<exists>n b k t. GetOrCreateWithConsumer (example_in ConsumerViewer ''v2'') ex_waiting = (Inr (b, ''v2''), n) \<and> mgr_step\<^sup>*\<^sup>* n k
    \<and> m_sessions k ''c1'' = Some b \<and> m_heap k b = Some t \<and> \<not> isDone t \<and> ss_TempDir t \<notin> m_dirs k"
  using new_session_loses_directory [OF ex_waiting_reach, of "[]" "''c1''" 0 0 _ "example_in ConsumerViewer ''v2''"]
  by (simp add: ex_waiting_state example_dir ConsumerViewer_def ConsumerRecording_def)

theorem dead_recording_is_removed_witness:
  "\<exists>cs. m_calls (snd (GetOrCreateWithConsumer (example_in ConsumerViewer ''v2'') (ex_ended (ex_started ConsumerRecording))))
      = m_calls (ex_ended (ex_started ConsumerRecording)) @ cs \<and> RemoveAll Replaced 0 ''/rec/s1/active'' \<in> set cs"
proof -
  let ?s = "(ex_session0 ConsumerRecording)\<lparr>ss_running := 0, ss_closed := [0]\<rparr>"
  have "m_sessions (ex_ended (ex_started ConsumerRecording)) ''c1'' = Some 0"
    "m_heap (ex_ended (ex_started ConsumerRecording)) 0 = Some ?s" "isDone ?s" "\<not> ss_Recorded ?s" "HasRecordingConsumer ?s"
    by (simp_all add: ex_dead_state isDone_def HasRecordingConsumer_def)
  from dead_recording_is_removed [OF ex_dead_reach this example_in_fields(1) surjective_pairing] show ?thesis by simp
qed







text \<open>A recording that looked the session up while the last viewer left.\<close>

definition ex_asking :: manager where
  "ex_asking = (ex_started ConsumerViewer)\<lparr>m_procs := [AddRecordingAt 0 ''r1'' 0]\<rparr>"

definition ex_late :: manager where
  "ex_late = ex_ended (run_last (run_last (ex_leaving ex_asking)))"

lemma ex_asking_reach: "mgr_reach ex_asking"
proof -
  have "mgr_step (ex_started ConsumerViewer) ((ex_started ConsumerViewer)\<lparr>m_procs := m_procs (ex_started ConsumerViewer) @ [AddRecordingAt 0 ''r1'' 0]\<rparr>)"
    by (rule step_add_recording [of "''r1''" 0 "''c1''" _ "''r1''"]) (simp add: AddRecordingConsumer_def ex_started_state)
  then show ?thesis using mgr_reach.step [OF ex_started_reach] by (simp add: ex_started_state ex_asking_def)
qed

lemma ex_late_leaving:
  "run_last (run_last (ex_leaving ex_asking)) = \<lparr>m_heap = [0 \<mapsto> (ex_session0 ConsumerViewer)\<lparr>ss_consumers := [], ss_cancelled := True\<rparr>],
     m_next = 1, m_sessions = Map.empty, m_procs = [AddRecordingAt 0 ''r1'' 0, WaitAt ''c1'' 0 0],
     m_dirs = {''/rec/s1/active''}, m_calls = [RunPipeline 0]\<rparr>"
  by (simp add: ex_asking_def ex_leaving_def ex_started_state RemoveConsumer_def run_last_def on_session_def step_remove_def
      removeConsumer_def Let_def HasRecordingConsumer_def put_session_def step_unlink_def)

theorem late_recording_loses_directory_witness:
  "\<exists>n t. mgr_step\<^sup>*\<^sup>* ex_late n \<and> m_heap n 0 = Some t \<and> ss_Recorded t \<and> HasRecordingConsumer t \<and> ss_TempDir t \<notin> m_dirs n"
proof -
  let ?m = "run_last (run_last (ex_leaving ex_asking))"
  have "mgr_reach ?m" by (intro run_last_reach ex_leaving_reach ex_asking_reach)
  then have r: "mgr_reach ex_late"
    unfolding ex_late_def
    by (rule ex_ended_reach [of _ "(ex_session0 ConsumerViewer)\<lparr>ss_consumers := [], ss_cancelled := True\<rparr>"])
       (simp_all add: ex_late_leaving)
  let ?s = "markDone ((ex_session0 ConsumerViewer)\<lparr>ss_consumers := [], ss_cancelled := True, ss_running := 0\<rparr>)"
  have "m_procs ex_late = [AddRecordingAt 0 ''r1'' 0, WaitAt ''c1'' 0 0]" "m_heap ex_late 0 = Some ?s"
    by (simp_all add: ex_late_def ex_late_leaving ex_ended_def session_at_def pipeline_end_def)
  moreover have "0 \<in> set (ss_closed ?s)" "\<not> ss_wasRecording ?s"
    by (simp_all add: markDone_def isDone_def ConsumerViewer_def ConsumerRecording_def)
  ultimately show ?thesis using late_recording_loses_directory [OF r] by blast
qed

theorem GetOrCreate_spec_witness:
  "\<exists>a n s. GetOrCreateWithConsumer (example_in ConsumerViewer ''v2'') (ex_started ConsumerViewer) = (Inr (a, ''v2''), n)
    \<and> m_heap n a = Some s \<and> map_of (ss_consumers s) ''v2'' = Some (new_consumer (example_in ConsumerViewer ''v2''))"
proof -
  obtain r n where n: "GetOrCreateWithConsumer (example_in ConsumerViewer ''v2'') (ex_started ConsumerViewer) = (r, n)" by force
  from GetOrCreate_spec [OF ex_started_reach n] n show ?thesis by (auto split: sum.splits)
qed

theorem last_consumer_cleanup_witness:
  "\<exists>n t. mgr_step\<^sup>*\<^sup>* (ex_started ConsumerViewer) n \<and> m_sessions n = Map.empty \<and> m_heap n 0 = Some t \<and> isDone t
    \<and> ''/rec/s1/active'' \<notin> m_dirs n"
proof -
  have e: "m_sessions (ex_started ConsumerViewer) ''c1'' = Some 0" "m_heap (ex_started ConsumerViewer) 0 = Some (ex_session0 ConsumerViewer)"
    "(m_sessions (ex_started ConsumerViewer))(''c1'' := None) = Map.empty"
    by (simp_all add: ex_started_state)
  have "map fst (ss_consumers (ex_session0 ConsumerViewer)) = [''v1'']" "0 < ss_running (ex_session0 ConsumerViewer) \<or> isDone (ex_session0 ConsumerViewer)"
    by simp_all
  from last_consumer_cleanup [OF ex_started_reach e(1,2) this] show ?thesis
    unfolding e(3) by (auto simp: ConsumerViewer_def ConsumerRecording_def)
qed

end
