(* ===== verification/Bytes.thy ===== *)
theory Bytes
  imports Prelude "HOL-Library.Monad_Syntax"
begin

text \<open>
  Byte slices: \<open>encoding/binary\<close>'s big-endian numbers, slice expressions with Go's bounds checks, and
  the hexadecimal forms of \<open>fmt\<close>.
\<close>

section \<open>Big-endian numbers\<close>

fun put_be :: "nat \<Rightarrow> nat \<Rightarrow> byte list" where
  "put_be 0 n = []"
| "put_be (Suc k) n = put_be k (n div 256) @ [of_nat n]"

definition get_be :: "byte list \<Rightarrow> nat" where
  "get_be bs = foldl (\<lambda>a b. a * 256 + unat b) 0 bs"

lemma get_be_append: "get_be (xs @ [b]) = get_be xs * 256 + unat b"
  by (simp add: get_be_def)

lemma length_put_be [simp]: "length (put_be k n) = k"
  by (induction k arbitrary: n) simp_all

lemma be_roundtrip: "n < 256 ^ k \<Longrightarrow> get_be (put_be k n) = n"
proof (induction k arbitrary: n)
  case 0 then show ?case by (simp add: get_be_def)
next
  case (Suc k)
  then have "n div 256 < 256 ^ k" by (simp add: less_mult_imp_div_less mult.commute)
  then show ?case using Suc.IH by (simp add: get_be_append unat_of_nat)
qed

lemma get_be_bound: "get_be bs < 256 ^ length bs"
proof (induction bs rule: rev_induct)
  case (snoc b bs)
  have "unat b < 256" using unsigned_less [of b] by simp
  with snoc show ?case by (simp add: get_be_append)
qed (simp add: get_be_def)

lemma get_be_foldl: "foldl (\<lambda>a b. a * 256 + unat b) n bs = n * 256 ^ length bs + get_be bs"
proof (induction bs rule: rev_induct)
  case (snoc b bs)
  then show ?case by (simp add: get_be_append algebra_simps)
qed (simp add: get_be_def)

lemma put_get_be: "put_be (length bs) (get_be bs) = bs"
proof (induction bs rule: rev_induct)
  case (snoc b bs)
  have "unat b < 256" using unsigned_less [of b] by simp
  then have "(get_be bs * 256 + unat b) div 256 = get_be bs" by simp
  have z: "(256 :: byte) = 0" by (rule unsigned_word_eqI) simp
  moreover have "(of_nat (get_be bs * 256 + unat b) :: byte) = b" by (simp add: z)
  ultimately show ?case using snoc \<open>unat b < 256\<close> by (simp add: get_be_append)
qed (simp add: get_be_def)

section \<open>Slice expressions\<close>

text \<open>\<open>xs[i:j]\<close>; \<open>None\<close> is the panic.\<close>

definition cut :: "'a list \<Rightarrow> nat \<Rightarrow> nat \<Rightarrow> 'a list option" where
  "cut xs i j = (if i \<le> j \<and> j \<le> length xs then Some (take (j - i) (drop i xs)) else None)"

lemma cut_in [simp]: "i \<le> j \<Longrightarrow> j \<le> length xs \<Longrightarrow> cut xs i j = Some (take (j - i) (drop i xs))"
  by (simp add: cut_def)

lemma cut_mid: "cut (as @ bs @ cs) (length as) (length as + length bs) = Some bs"
  by (simp add: cut_def)

section \<open>Hexadecimal\<close>

definition hex_digit :: "nat \<Rightarrow> char" where
  "hex_digit n = (if n < 10 then chr (48 + n) else chr (55 + n))"

definition hex_lower :: "nat \<Rightarrow> char" where
  "hex_lower n = (if n < 10 then chr (48 + n) else chr (87 + n))"

text \<open>\<open>%02X\<close> of a byte\<close>

definition hex2 :: "byte \<Rightarrow> string" where
  "hex2 b = [hex_digit (unat b div 16), hex_digit (unat b mod 16)]"

definition hex_val :: "char \<Rightarrow> nat" where
  "hex_val c = (let n = of_char c :: nat in if n < 65 then n - 48 else n - 55)"

lemma hex_val_upper: "n < 16 \<Longrightarrow> hex_val (hex_digit n) = n"
  by (auto simp: hex_val_def hex_digit_def chr_def)

lemma hex2_inj: "hex2 a = hex2 b \<Longrightarrow> a = b"
proof -
  assume e: "hex2 a = hex2 b"
  have lt: "unat a < 256" "unat b < 256" using unsigned_less [of a] unsigned_less [of b] by simp_all
  from e have "hex_val (hex_digit (unat a div 16)) = hex_val (hex_digit (unat b div 16))"
    "hex_val (hex_digit (unat a mod 16)) = hex_val (hex_digit (unat b mod 16))" by (simp_all add: hex2_def)
  then have "unat a div 16 = unat b div 16" "unat a mod 16 = unat b mod 16" using lt by (simp_all add: hex_val_upper)
  then have "unat a = unat b" by (metis div_mult_mod_eq)
  then show "a = b" by (rule unsigned_word_eqI)
qed

end
