(* ===== verification/StreamStore.thy ===== *)
theory StreamStore
  imports Complex_Main Stores "HOL-Library.AList"
begin

text \<open>
  The streams (\<open>models.Stream\<close>), the contract of \<open>store.StreamStore\<close> as a locale, and the plain
  in-memory store \<open>pkg/store/stream.go\<close>. A Go map is an association list with distinct keys in the
  order a range over the map visits it; the abstraction of every stream store is the map from
  identifiers to streams. Durations (\<open>float64\<close>) are rationals that are only stored and compared
  with zero.
\<close>

section \<open>Streams\<close>

record StreamTrack =
  tr_PID :: u16
  tr_Type :: string
  tr_Category :: string
  tr_Language :: string
  tr_AudioType :: byte
  tr_Label :: string

record Stream =
  st_ID :: ident
  st_M3UAccountID :: ident
  st_SatIPSourceID :: ident
  st_HDHRSourceID :: ident
  st_Name :: string
  st_URL :: string
  st_Group :: string
  st_Logo :: string
  st_TvgID :: string
  st_TvgName :: string
  st_ContentHash :: string
  st_VODType :: string
  st_VODSeries :: string
  st_VODCollection :: string
  st_VODSeason :: int
  st_VODSeasonName :: string
  st_VODEpisode :: int
  st_VODYear :: int
  st_VODVCodec :: string
  st_VODACodec :: string
  st_VODRes :: string
  st_VODAudio :: string
  st_VODDuration :: rat
  st_TMDBID :: int
  st_TMDBManual :: bool
  st_CacheType :: string
  st_CacheKey :: int
  st_Language :: string
  st_UseWireGuard :: bool
  st_IsActive :: bool
  st_Tracks :: "StreamTrack list"
  st_CreatedAt :: time
  st_UpdatedAt :: time

record StreamSummary =
  sm_ID :: ident
  sm_M3UAccountID :: ident
  sm_SatIPSourceID :: ident
  sm_HDHRSourceID :: ident
  sm_Name :: string
  sm_Group :: string
  sm_Logo :: string
  sm_VODType :: string
  sm_VODSeries :: string
  sm_VODSeason :: int
  sm_VODSeasonName :: string
  sm_VODEpisode :: int
  sm_VODYear :: int
  sm_TMDBID :: int

text \<open>The three kinds of sources a stream can come from; the stores have one copy of each operation
  per kind.\<close>

datatype source_kind = M3U | SatIP | HDHR

fun source_of :: "source_kind \<Rightarrow> Stream \<Rightarrow> ident" where
  "source_of M3U st = st_M3UAccountID st"
| "source_of SatIP st = st_SatIPSourceID st"
| "source_of HDHR st = st_HDHRSourceID st"

text \<open>What an upsert keeps of the stream it replaces.\<close>

definition keep_tmdb :: "Stream \<Rightarrow> Stream \<Rightarrow> Stream" where
  "keep_tmdb old st = (if st_TMDBID old > 0
     then st\<lparr>st_TMDBID := st_TMDBID old, st_TMDBManual := st_TMDBManual old\<rparr> else st)"

definition keep_cache :: "Stream \<Rightarrow> Stream \<Rightarrow> Stream" where
  "keep_cache old st = (if st_CacheType st = [] \<and> st_CacheType old \<noteq> [] then st\<lparr>st_CacheType := st_CacheType old\<rparr> else st)"

definition keep_language :: "Stream \<Rightarrow> Stream \<Rightarrow> Stream" where
  "keep_language old st = (if st_Language st = [] \<and> st_Language old \<noteq> [] then st\<lparr>st_Language := st_Language old\<rparr> else st)"

definition keep_vodtype :: "Stream \<Rightarrow> Stream \<Rightarrow> Stream" where
  "keep_vodtype old st = (if st_VODType st = [] \<and> st_VODType old \<noteq> [] then st\<lparr>st_VODType := st_VODType old\<rparr> else st)"

definition merge_existing :: "Stream \<Rightarrow> Stream \<Rightarrow> Stream" where
  "merge_existing old st = keep_vodtype old (keep_language old (keep_cache old (keep_tmdb old
     (st\<lparr>st_CreatedAt := st_CreatedAt old\<rparr>))))"

definition merged :: "time \<Rightarrow> Stream option \<Rightarrow> Stream \<Rightarrow> Stream" where
  "merged now old st = (case old of None \<Rightarrow> st\<lparr>st_CreatedAt := now\<rparr> | Some x \<Rightarrow> merge_existing x st)\<lparr>st_UpdatedAt := now\<rparr>"

definition put_probe :: "rat \<Rightarrow> string \<Rightarrow> string \<Rightarrow> Stream \<Rightarrow> Stream" where
  "put_probe d vc ac st =
     (let s1 = (if d > 0 \<and> st_VODDuration st = 0 then st\<lparr>st_VODDuration := d\<rparr> else st);
          s2 = (if vc \<noteq> [] \<and> st_VODVCodec s1 = [] then s1\<lparr>st_VODVCodec := vc\<rparr> else s1)
      in if ac \<noteq> [] \<and> st_VODACodec s2 = [] then s2\<lparr>st_VODACodec := ac\<rparr> else s2)"

definition stream_missing :: "ident \<Rightarrow> error" where
  "stream_missing i = ''stream not found: '' @ i"

section \<open>The contract\<close>

type_synonym stream_map = "ident \<Rightarrow> Stream option"

definition upsert1 :: "time \<Rightarrow> Stream \<Rightarrow> stream_map \<Rightarrow> stream_map" where
  "upsert1 now st m = m(st_ID st \<mapsto> merged now (m (st_ID st)) st)"

definition drop_streams :: "(Stream \<Rightarrow> bool) \<Rightarrow> stream_map \<Rightarrow> stream_map" where
  "drop_streams p m = (\<lambda>i. case m i of None \<Rightarrow> None | Some st \<Rightarrow> if p st then None else Some st)"

definition keyed :: "stream_map \<Rightarrow> bool" where
  "keyed m \<longleftrightarrow> (\<forall>i st. m i = Some st \<longrightarrow> st_ID st = i)"

text \<open>Identifiers of streams and sources are hashes and uuids: not empty, short, and without the
  separators of index keys. Names, groups and types are short enough for a key (the database takes
  keys of up to 32768 bytes).\<close>

definition plain_id :: "string \<Rightarrow> bool" where
  "plain_id i \<longleftrightarrow> i \<noteq> [] \<and> CHR ''/'' \<notin> set i \<and> CHR 0x00 \<notin> set i \<and> length i \<le> 1000"

definition stream_ok :: "Stream \<Rightarrow> bool" where
  "stream_ok st \<longleftrightarrow> plain_id (st_ID st)
     \<and> list_all (\<lambda>k. source_of k st = [] \<or> plain_id (source_of k st)) [M3U, SatIP, HDHR]
     \<and> length (st_Group st) \<le> 30000 \<and> length (st_Name st) \<le> 30000 \<and> length (st_VODType st) \<le> 30000"

text \<open>The streams a store holds, the streams of a source, the stale ones and the orphans.\<close>

locale stream_store =
  fixes invar :: "'s \<Rightarrow> bool"
    and abs :: "'s \<Rightarrow> stream_map"
    and get :: "ident \<Rightarrow> 's \<Rightarrow> error + Stream"
    and upsert :: "time \<Rightarrow> Stream list \<Rightarrow> 's \<Rightarrow> 's"
    and delete :: "ident \<Rightarrow> 's \<Rightarrow> 's"
    and list_by :: "source_kind \<Rightarrow> ident \<Rightarrow> 's \<Rightarrow> Stream list"
    and delete_by :: "source_kind \<Rightarrow> ident \<Rightarrow> 's \<Rightarrow> 's"
    and delete_stale :: "source_kind \<Rightarrow> ident \<Rightarrow> ident list \<Rightarrow> 's \<Rightarrow> ident list \<times> 's"
    and delete_orphans :: "source_kind \<Rightarrow> ident list \<Rightarrow> 's \<Rightarrow> ident list \<times> 's"
  assumes keyed_abs: "invar s \<Longrightarrow> keyed (abs s)"
    and get_abs: "invar s \<Longrightarrow> get i s = not_found (stream_missing i) (abs s i)"
    and upsert_invar: "invar s \<Longrightarrow> list_all stream_ok sts \<Longrightarrow> invar (upsert now sts s)"
    and upsert_abs: "invar s \<Longrightarrow> list_all stream_ok sts \<Longrightarrow> abs (upsert now sts s) = fold (upsert1 now) sts (abs s)"
    and delete_invar: "invar s \<Longrightarrow> invar (delete i s)"
    and delete_abs: "invar s \<Longrightarrow> abs (delete i s) = (abs s)(i := None)"
    and list_by_abs: "invar s \<Longrightarrow> plain_id src \<Longrightarrow> set (list_by k src s) = {st \<in> ran (abs s). source_of k st = src}"
    and delete_by_invar: "invar s \<Longrightarrow> invar (delete_by k src s)"
    and delete_by_abs: "invar s \<Longrightarrow> plain_id src \<Longrightarrow> abs (delete_by k src s) = drop_streams (\<lambda>st. source_of k st = src) (abs s)"
    and stale_invar: "invar s \<Longrightarrow> invar (snd (delete_stale k src keep s))"
    and stale_abs: "invar s \<Longrightarrow> plain_id src \<Longrightarrow> abs (snd (delete_stale k src keep s))
      = drop_streams (\<lambda>st. source_of k st = src \<and> st_ID st \<notin> set keep) (abs s)"
    and stale_ids: "invar s \<Longrightarrow> plain_id src \<Longrightarrow> set (fst (delete_stale k src keep s))
      = {i. \<exists>st. abs s i = Some st \<and> source_of k st = src \<and> i \<notin> set keep}"
    and orphans_invar: "invar s \<Longrightarrow> invar (snd (delete_orphans k known s))"
    and orphans_abs: "invar s \<Longrightarrow> abs (snd (delete_orphans k known s))
      = drop_streams (\<lambda>st. source_of k st \<noteq> [] \<and> source_of k st \<notin> set known) (abs s)"
    and orphans_ids: "invar s \<Longrightarrow> set (fst (delete_orphans k known s))
      = {i. \<exists>st. abs s i = Some st \<and> source_of k st \<noteq> [] \<and> source_of k st \<notin> set known}"

section \<open>Facts about the abstract map\<close>

lemma keep_fields [simp]:
  "st_ID (keep_tmdb old st) = st_ID st" "st_ID (keep_cache old st) = st_ID st"
  "st_ID (keep_language old st) = st_ID st" "st_ID (keep_vodtype old st) = st_ID st"
  "st_CreatedAt (keep_tmdb old st) = st_CreatedAt st" "st_CreatedAt (keep_cache old st) = st_CreatedAt st"
  "st_CreatedAt (keep_language old st) = st_CreatedAt st" "st_CreatedAt (keep_vodtype old st) = st_CreatedAt st"
  "st_TMDBID (keep_cache old st) = st_TMDBID st" "st_TMDBID (keep_language old st) = st_TMDBID st"
  "st_TMDBID (keep_vodtype old st) = st_TMDBID st" "st_TMDBManual (keep_cache old st) = st_TMDBManual st"
  "st_TMDBManual (keep_language old st) = st_TMDBManual st" "st_TMDBManual (keep_vodtype old st) = st_TMDBManual st"
  by (simp_all add: keep_tmdb_def keep_cache_def keep_language_def keep_vodtype_def)

lemma keep_source [simp]:
  "source_of k (keep_tmdb old st) = source_of k st" "source_of k (keep_cache old st) = source_of k st"
  "source_of k (keep_language old st) = source_of k st" "source_of k (keep_vodtype old st) = source_of k st"
  "source_of k (st\<lparr>st_CreatedAt := c\<rparr>) = source_of k st" "source_of k (st\<lparr>st_UpdatedAt := c\<rparr>) = source_of k st"
  by (cases k; simp add: keep_tmdb_def keep_cache_def keep_language_def keep_vodtype_def)+

lemma merge_existing_fields [simp]:
  "st_ID (merge_existing old st) = st_ID st" "source_of k (merge_existing old st) = source_of k st"
  "st_CreatedAt (merge_existing old st) = st_CreatedAt old"
  by (simp_all add: merge_existing_def)

lemma merged_fields [simp]:
  "st_ID (merged now old st) = st_ID st" "source_of k (merged now old st) = source_of k st"
  "st_UpdatedAt (merged now old st) = now"
  by (simp_all add: merged_def split: option.splits)

lemma merged_created: "st_CreatedAt (merged now old st) = (case old of None \<Rightarrow> now | Some x \<Rightarrow> st_CreatedAt x)"
  by (simp add: merged_def split: option.splits)

lemma merged_tmdb: "st_TMDBID old > 0 \<Longrightarrow> st_TMDBID (merged now (Some old) st) = st_TMDBID old
    \<and> st_TMDBManual (merged now (Some old) st) = st_TMDBManual old"
  by (simp add: merged_def merge_existing_def keep_tmdb_def)

lemma upsert1_same [simp]: "upsert1 now st m (st_ID st) = Some (merged now (m (st_ID st)) st)"
  by (simp add: upsert1_def)

lemma upsert1_other: "i \<noteq> st_ID st \<Longrightarrow> upsert1 now st m i = m i"
  by (simp add: upsert1_def)

lemma keyed_upsert1: "keyed m \<Longrightarrow> keyed (upsert1 now st m)"
  by (simp add: keyed_def upsert1_def)

lemma keyed_fold: "keyed m \<Longrightarrow> keyed (fold (upsert1 now) sts m)"
  by (induction sts arbitrary: m) (simp_all add: keyed_upsert1)

lemma keyed_drop: "keyed m \<Longrightarrow> keyed (drop_streams p m)"
  by (simp add: keyed_def drop_streams_def split: option.splits)

lemma drop_streams_Some: "drop_streams p m i = Some st \<longleftrightarrow> m i = Some st \<and> \<not> p st"
  by (auto simp: drop_streams_def split: option.splits)

lemma keyed_delete: "keyed m \<Longrightarrow> keyed (m(i := None))"
  by (simp add: keyed_def)

lemma fold_upsert_other: "i \<notin> st_ID ` set sts \<Longrightarrow> fold (upsert1 now) sts m i = m i"
  by (induction sts arbitrary: m) (simp_all add: upsert1_other)

lemma fold_upsert_Some:
  "i \<in> st_ID ` set sts \<Longrightarrow> \<exists>st \<in> set sts. \<exists>old. st_ID st = i \<and> fold (upsert1 now) sts m i = Some (merged now old st)"
proof (induction sts arbitrary: m)
  case (Cons st sts)
  show ?case
  proof (cases "i \<in> st_ID ` set sts")
    case True then show ?thesis using Cons.IH [of "upsert1 now st m"] by auto
  next
    case False then show ?thesis using Cons.prems by (auto simp: fold_upsert_other)
  qed
qed simp

lemma fold_upsert_distinct:
  "distinct (map st_ID sts) \<Longrightarrow> st \<in> set sts \<Longrightarrow> fold (upsert1 now) sts m (st_ID st) = Some (merged now (m (st_ID st)) st)"
proof (induction sts arbitrary: m)
  case (Cons s sts)
  show ?case
  proof (cases "st = s")
    case True then show ?thesis using Cons.prems by (simp add: fold_upsert_other)
  next
    case False
    then have "st_ID st \<noteq> st_ID s" using Cons.prems by (force simp: image_iff)
    then show ?thesis using Cons False by (auto simp: upsert1_other)
  qed
qed simp

section \<open>What every stream store gives its clients\<close>

context stream_store
begin

text \<open>A refresh of a source: the fetched streams are upserted, then the source's streams that were
  not fetched are deleted.\<close>

definition refreshed :: "source_kind \<Rightarrow> ident \<Rightarrow> time \<Rightarrow> Stream list \<Rightarrow> 's \<Rightarrow> 's" where
  "refreshed k src now sts s = snd (delete_stale k src (map st_ID sts) (upsert now sts s))"

lemma refreshed_invar: "invar s \<Longrightarrow> list_all stream_ok sts \<Longrightarrow> invar (refreshed k src now sts s)"
  by (simp add: refreshed_def stale_invar upsert_invar)

lemma refreshed_abs:
  assumes "invar s" "list_all stream_ok sts" "plain_id src"
  shows "abs (refreshed k src now sts s)
    = drop_streams (\<lambda>st. source_of k st = src \<and> st_ID st \<notin> st_ID ` set sts) (fold (upsert1 now) sts (abs s))"
  using assms by (simp add: refreshed_def stale_abs upsert_abs upsert_invar)

text \<open>Afterwards the source has exactly the fetched streams, each with the creation time and the
  metadata match of the stream it replaced, and the streams of other sources that were not
  fetched are untouched.\<close>

lemma refreshed_exact:
  assumes "invar s" "list_all stream_ok sts" "plain_id src" "distinct (map st_ID sts)"
    "\<forall>st \<in> set sts. source_of k st = src"
  shows "{st \<in> ran (abs (refreshed k src now sts s)). source_of k st = src}
      = {merged now (abs s (st_ID st)) st | st. st \<in> set sts}" (is "?L = ?R")
proof
  note a = refreshed_abs [OF assms(1-3)]
  show "?L \<subseteq> ?R"
  proof
    fix x assume "x \<in> ?L"
    then obtain i where i: "fold (upsert1 now) sts (abs s) i = Some x" "source_of k x = src" "st_ID x \<in> st_ID ` set sts"
      by (auto simp: a ran_def drop_streams_Some)
    have "st_ID x = i" using i(1) keyed_fold [OF keyed_abs [OF assms(1)]] by (simp add: keyed_def)
    then obtain st where st: "st \<in> set sts" "i = st_ID st" using i(3) by auto
    then show "x \<in> ?R" using fold_upsert_distinct [OF assms(4) st(1)] i(1) by auto
  qed
  show "?R \<subseteq> ?L"
  proof
    fix x assume "x \<in> ?R"
    then obtain st where st: "st \<in> set sts" "x = merged now (abs s (st_ID st)) st" by auto
    then have "abs (refreshed k src now sts s) (st_ID st) = Some x"
      using fold_upsert_distinct [OF assms(4) st(1)] by (auto simp: a drop_streams_Some)
    then show "x \<in> ?L" using st assms(5) by (auto simp: ran_def)
  qed
qed

lemma refreshed_others:
  assumes "invar s" "list_all stream_ok sts" "plain_id src" "i \<notin> st_ID ` set sts"
    "abs s i = Some st" "source_of k st \<noteq> src"
  shows "abs (refreshed k src now sts s) i = Some st"
  using assms by (simp add: refreshed_abs drop_streams_Some fold_upsert_other)

text \<open>Deleting the orphans leaves no stream of an unknown source.\<close>

lemma orphans_gone:
  "invar s \<Longrightarrow> st \<in> ran (abs (snd (delete_orphans k known s))) \<Longrightarrow> source_of k st = [] \<or> source_of k st \<in> set known"
  by (auto simp: orphans_abs ran_def drop_streams_Some)

lemma get_after_upsert:
  "invar s \<Longrightarrow> stream_ok st \<Longrightarrow> get (st_ID st) (upsert now [st] s) = Inr (merged now (abs s (st_ID st)) st)"
  using upsert_invar [of s "[st]"] upsert_abs [of s "[st]"] by (simp add: get_abs upsert1_def)

end


section \<open>The in-memory store (\<open>store/stream.go\<close>)\<close>

record StreamStoreImpl =
  pm_items :: "(ident \<times> Stream) list"
  pm_rev :: u64

definition created_before :: "Stream \<Rightarrow> Stream \<Rightarrow> bool" where
  "created_before a b \<longleftrightarrow> st_CreatedAt a < st_CreatedAt b"

definition stream_name_less :: "Stream \<Rightarrow> Stream \<Rightarrow> bool" where
  "stream_name_less a b \<longleftrightarrow> lexordp (\<lambda>x y. (of_char x :: nat) < of_char y) (st_Name a) (st_Name b)"

definition StreamStore_List :: "StreamStoreImpl \<Rightarrow> Stream list" where
  "StreamStore_List s = sort_slice created_before (map snd (pm_items s))"

text \<open>This summary leaves out the HDHomeRun source and the metadata match.\<close>

definition plain_summary :: "Stream \<Rightarrow> StreamSummary" where
  "plain_summary st = \<lparr>sm_ID = st_ID st, sm_M3UAccountID = st_M3UAccountID st, sm_SatIPSourceID = st_SatIPSourceID st,
     sm_HDHRSourceID = [], sm_Name = st_Name st, sm_Group = st_Group st, sm_Logo = st_Logo st, sm_VODType = st_VODType st,
     sm_VODSeries = st_VODSeries st, sm_VODSeason = st_VODSeason st, sm_VODSeasonName = st_VODSeasonName st,
     sm_VODEpisode = st_VODEpisode st, sm_VODYear = st_VODYear st, sm_TMDBID = 0\<rparr>"

definition StreamStore_ListSummaries :: "StreamStoreImpl \<Rightarrow> StreamSummary list" where
  "StreamStore_ListSummaries s = map plain_summary (sort_slice stream_name_less (map snd (pm_items s)))"

definition items_where :: "(Stream \<Rightarrow> bool) \<Rightarrow> StreamStoreImpl \<Rightarrow> Stream list" where
  "items_where p s = filter p (map snd (pm_items s))"

definition StreamStore_ListByAccountID :: "ident \<Rightarrow> StreamStoreImpl \<Rightarrow> Stream list" where
  "StreamStore_ListByAccountID a s = sort_slice created_before (items_where (\<lambda>st. st_M3UAccountID st = a) s)"

definition StreamStore_ListBySatIPSourceID :: "ident \<Rightarrow> StreamStoreImpl \<Rightarrow> Stream list" where
  "StreamStore_ListBySatIPSourceID a s = sort_slice created_before (items_where (\<lambda>st. st_SatIPSourceID st = a) s)"

definition StreamStore_ListByHDHRSourceID :: "ident \<Rightarrow> StreamStoreImpl \<Rightarrow> Stream list" where
  "StreamStore_ListByHDHRSourceID a s = sort_slice created_before (items_where (\<lambda>st. st_HDHRSourceID st = a) s)"

definition StreamStore_ListByVODType :: "string \<Rightarrow> StreamStoreImpl \<Rightarrow> Stream list" where
  "StreamStore_ListByVODType ty s = sort_slice stream_name_less (items_where (\<lambda>st. st_VODType st = ty) s)"

definition StreamStore_GetByID :: "ident \<Rightarrow> StreamStoreImpl \<Rightarrow> error + Stream" where
  "StreamStore_GetByID i s = not_found (stream_missing i) (map_of (pm_items s) i)"

definition bump_rev :: "StreamStoreImpl \<Rightarrow> StreamStoreImpl" where
  "bump_rev s = s\<lparr>pm_rev := pm_rev s + 1\<rparr>"

definition put_stream :: "time \<Rightarrow> Stream \<Rightarrow> (ident \<times> Stream) list \<Rightarrow> (ident \<times> Stream) list" where
  "put_stream now st xs = AList.update (st_ID st) (merged now (map_of xs (st_ID st)) st) xs"

definition StreamStore_BulkUpsert :: "time \<Rightarrow> Stream list \<Rightarrow> StreamStoreImpl \<Rightarrow> StreamStoreImpl" where
  "StreamStore_BulkUpsert now sts s = bump_rev (s\<lparr>pm_items := fold (put_stream now) sts (pm_items s)\<rparr>)"

text \<open>The deletions by a condition: the identifiers deleted, and a new revision if there are any.\<close>

definition delete_where :: "(ident \<Rightarrow> Stream \<Rightarrow> bool) \<Rightarrow> StreamStoreImpl \<Rightarrow> ident list \<times> StreamStoreImpl" where
  "delete_where p s =
     (let gone = map fst (filter (\<lambda>(i, st). p i st) (pm_items s));
          s' = s\<lparr>pm_items := filter (\<lambda>(i, st). \<not> p i st) (pm_items s)\<rparr>
      in (gone, if gone \<noteq> [] then bump_rev s' else s'))"

definition StreamStore_DeleteStaleByAccountID where
  "StreamStore_DeleteStaleByAccountID a keep = delete_where (\<lambda>i st. st_M3UAccountID st = a \<and> i \<notin> set keep)"

definition StreamStore_DeleteStaleBySatIPSourceID where
  "StreamStore_DeleteStaleBySatIPSourceID a keep = delete_where (\<lambda>i st. st_SatIPSourceID st = a \<and> i \<notin> set keep)"

definition StreamStore_DeleteStaleByHDHRSourceID where
  "StreamStore_DeleteStaleByHDHRSourceID a keep = delete_where (\<lambda>i st. st_HDHRSourceID st = a \<and> i \<notin> set keep)"

definition StreamStore_DeleteOrphanedM3UStreams where
  "StreamStore_DeleteOrphanedM3UStreams known = delete_where (\<lambda>i st. st_M3UAccountID st \<noteq> [] \<and> st_M3UAccountID st \<notin> set known)"

definition StreamStore_DeleteOrphanedSatIPStreams where
  "StreamStore_DeleteOrphanedSatIPStreams known = delete_where (\<lambda>i st. st_SatIPSourceID st \<noteq> [] \<and> st_SatIPSourceID st \<notin> set known)"

definition StreamStore_DeleteOrphanedHDHRStreams where
  "StreamStore_DeleteOrphanedHDHRStreams known = delete_where (\<lambda>i st. st_HDHRSourceID st \<noteq> [] \<and> st_HDHRSourceID st \<notin> set known)"

text \<open>The deletions of a whole source always make a new revision.\<close>

definition delete_all_where :: "(Stream \<Rightarrow> bool) \<Rightarrow> StreamStoreImpl \<Rightarrow> StreamStoreImpl" where
  "delete_all_where p s = bump_rev (s\<lparr>pm_items := filter (\<lambda>(i, st). \<not> p st) (pm_items s)\<rparr>)"

definition StreamStore_DeleteByAccountID where
  "StreamStore_DeleteByAccountID a = delete_all_where (\<lambda>st. st_M3UAccountID st = a)"

definition StreamStore_DeleteBySatIPSourceID where
  "StreamStore_DeleteBySatIPSourceID a = delete_all_where (\<lambda>st. st_SatIPSourceID st = a)"

definition StreamStore_DeleteByHDHRSourceID where
  "StreamStore_DeleteByHDHRSourceID a = delete_all_where (\<lambda>st. st_HDHRSourceID st = a)"

definition StreamStore_Delete :: "ident \<Rightarrow> StreamStoreImpl \<Rightarrow> StreamStoreImpl" where
  "StreamStore_Delete i s = bump_rev (s\<lparr>pm_items := AList.delete i (pm_items s)\<rparr>)"

definition change_items :: "(Stream \<Rightarrow> Stream) \<Rightarrow> StreamStoreImpl \<Rightarrow> StreamStoreImpl" where
  "change_items f s = s\<lparr>pm_items := map (\<lambda>(i, st). (i, f st)) (pm_items s)\<rparr>"

definition StreamStore_UpdateWireGuardByAccountID :: "ident \<Rightarrow> bool \<Rightarrow> StreamStoreImpl \<Rightarrow> StreamStoreImpl" where
  "StreamStore_UpdateWireGuardByAccountID a b =
     change_items (\<lambda>st. if st_M3UAccountID st = a then st\<lparr>st_UseWireGuard := b\<rparr> else st)"

definition StreamStore_ClearAutoTMDBByAccountID :: "ident \<Rightarrow> StreamStoreImpl \<Rightarrow> StreamStoreImpl" where
  "StreamStore_ClearAutoTMDBByAccountID a =
     change_items (\<lambda>st. if st_M3UAccountID st = a \<and> st_TMDBID st > 0 \<and> \<not> st_TMDBManual st then st\<lparr>st_TMDBID := 0\<rparr> else st)"

definition change_item :: "time \<Rightarrow> ident \<Rightarrow> (Stream \<Rightarrow> Stream) \<Rightarrow> StreamStoreImpl \<Rightarrow> error option \<times> StreamStoreImpl" where
  "change_item now i f s = (case map_of (pm_items s) i of None \<Rightarrow> (Some (stream_missing i), s)
     | Some st \<Rightarrow> (None, s\<lparr>pm_items := AList.update i ((f st)\<lparr>st_UpdatedAt := now\<rparr>) (pm_items s)\<rparr>))"

definition StreamStore_UpdateTMDBID :: "time \<Rightarrow> ident \<Rightarrow> int \<Rightarrow> StreamStoreImpl \<Rightarrow> error option \<times> StreamStoreImpl" where
  "StreamStore_UpdateTMDBID now i t = change_item now i (\<lambda>st. st\<lparr>st_TMDBID := t\<rparr>)"

definition StreamStore_SetTMDBManual :: "time \<Rightarrow> ident \<Rightarrow> int \<Rightarrow> StreamStoreImpl \<Rightarrow> error option \<times> StreamStoreImpl" where
  "StreamStore_SetTMDBManual now i t = change_item now i (\<lambda>st. st\<lparr>st_TMDBID := t, st_TMDBManual := True\<rparr>)"

definition StreamStore_UpdateStreamProbeData where
  "StreamStore_UpdateStreamProbeData now i d vc ac = change_item now i (put_probe d vc ac)"

definition StreamStore_Clear :: "StreamStoreImpl \<Rightarrow> StreamStoreImpl" where
  "StreamStore_Clear s = bump_rev (s\<lparr>pm_items := []\<rparr>)"

text \<open>\<open>Save\<close> writes a snapshot; the file is replaced by a rename, so a failed write leaves the old
  one. \<open>Load\<close> takes the file, if there is one.\<close>

definition StreamStore_Save :: "error option \<Rightarrow> StreamStoreImpl \<Rightarrow> (ident \<times> Stream) list option \<Rightarrow> error option \<times> (ident \<times> Stream) list option" where
  "StreamStore_Save w s file = (case w of Some e \<Rightarrow> (Some (''saving stream store: '' @ e), file) | None \<Rightarrow> (None, Some (pm_items s)))"

definition StreamStore_Load :: "error + (ident \<times> Stream) list option \<Rightarrow> StreamStoreImpl \<Rightarrow> error option \<times> StreamStoreImpl" where
  "StreamStore_Load r s = (case r of Inl e \<Rightarrow> (Some (''loading stream store: '' @ e), s)
     | Inr None \<Rightarrow> (None, s) | Inr (Some xs) \<Rightarrow> (None, bump_rev (s\<lparr>pm_items := xs\<rparr>)))"

section \<open>The in-memory store keeps the contract\<close>

definition plain_invar :: "StreamStoreImpl \<Rightarrow> bool" where
  "plain_invar s \<longleftrightarrow> distinct (map fst (pm_items s)) \<and> keyed (map_of (pm_items s))"

definition plain_abs :: "StreamStoreImpl \<Rightarrow> stream_map" where
  "plain_abs s = map_of (pm_items s)"

fun plain_list_by :: "source_kind \<Rightarrow> ident \<Rightarrow> StreamStoreImpl \<Rightarrow> Stream list" where
  "plain_list_by M3U = StreamStore_ListByAccountID"
| "plain_list_by SatIP = StreamStore_ListBySatIPSourceID"
| "plain_list_by HDHR = StreamStore_ListByHDHRSourceID"

fun plain_delete_by :: "source_kind \<Rightarrow> ident \<Rightarrow> StreamStoreImpl \<Rightarrow> StreamStoreImpl" where
  "plain_delete_by M3U = StreamStore_DeleteByAccountID"
| "plain_delete_by SatIP = StreamStore_DeleteBySatIPSourceID"
| "plain_delete_by HDHR = StreamStore_DeleteByHDHRSourceID"

fun plain_delete_stale :: "source_kind \<Rightarrow> ident \<Rightarrow> ident list \<Rightarrow> StreamStoreImpl \<Rightarrow> ident list \<times> StreamStoreImpl" where
  "plain_delete_stale M3U = StreamStore_DeleteStaleByAccountID"
| "plain_delete_stale SatIP = StreamStore_DeleteStaleBySatIPSourceID"
| "plain_delete_stale HDHR = StreamStore_DeleteStaleByHDHRSourceID"

fun plain_delete_orphans :: "source_kind \<Rightarrow> ident list \<Rightarrow> StreamStoreImpl \<Rightarrow> ident list \<times> StreamStoreImpl" where
  "plain_delete_orphans M3U = StreamStore_DeleteOrphanedM3UStreams"
| "plain_delete_orphans SatIP = StreamStore_DeleteOrphanedSatIPStreams"
| "plain_delete_orphans HDHR = StreamStore_DeleteOrphanedHDHRStreams"

lemma plain_list_by_eq: "plain_list_by k src s = sort_slice created_before (items_where (\<lambda>st. source_of k st = src) s)"
  by (cases k) (simp_all add: StreamStore_ListByAccountID_def StreamStore_ListBySatIPSourceID_def StreamStore_ListByHDHRSourceID_def)

lemma plain_delete_by_eq: "plain_delete_by k src = delete_all_where (\<lambda>st. source_of k st = src)"
  by (cases k) (simp_all add: StreamStore_DeleteByAccountID_def StreamStore_DeleteBySatIPSourceID_def StreamStore_DeleteByHDHRSourceID_def)

lemma plain_delete_stale_eq: "plain_delete_stale k src keep = delete_where (\<lambda>i st. source_of k st = src \<and> i \<notin> set keep)"
  by (cases k) (simp_all add: StreamStore_DeleteStaleByAccountID_def StreamStore_DeleteStaleBySatIPSourceID_def StreamStore_DeleteStaleByHDHRSourceID_def)

lemma plain_delete_orphans_eq:
  "plain_delete_orphans k known = delete_where (\<lambda>i st. source_of k st \<noteq> [] \<and> source_of k st \<notin> set known)"
  by (cases k) (simp_all add: StreamStore_DeleteOrphanedM3UStreams_def StreamStore_DeleteOrphanedSatIPStreams_def StreamStore_DeleteOrphanedHDHRStreams_def)

lemma bump_items [simp]: "pm_items (bump_rev s) = pm_items s"
  by (simp add: bump_rev_def)

lemma put_stream_distinct: "distinct (map fst xs) \<Longrightarrow> distinct (map fst (put_stream now st xs))"
  by (simp add: put_stream_def distinct_update)

lemma put_stream_map: "map_of (put_stream now st xs) = upsert1 now st (map_of xs)"
  by (simp add: put_stream_def upsert1_def update_conv')

lemma fold_put_stream:
  "distinct (map fst xs) \<Longrightarrow> distinct (map fst (fold (put_stream now) sts xs))
     \<and> map_of (fold (put_stream now) sts xs) = fold (upsert1 now) sts (map_of xs)"
  by (induction sts arbitrary: xs) (simp_all add: put_stream_distinct put_stream_map)

lemma map_of_filter_keyed:
  assumes "distinct (map fst xs)"
  shows "map_of (filter (\<lambda>(i, st). \<not> p i st) xs) i = (case map_of xs i of None \<Rightarrow> None | Some st \<Rightarrow> if p i st then None else Some st)"
  using assms by (induction xs) (auto split: option.splits simp: map_of_eq_None_iff image_iff)

lemma delete_where_abs:
  "plain_invar s \<Longrightarrow> plain_invar (snd (delete_where p s)) \<and> plain_abs (snd (delete_where p s))
     = (\<lambda>i. case plain_abs s i of None \<Rightarrow> None | Some st \<Rightarrow> if p i st then None else Some st)"
  by (auto simp: delete_where_def Let_def plain_invar_def plain_abs_def keyed_def map_of_filter_keyed fun_eq_iff
      split: option.splits if_splits intro: distinct_map_filter)

lemma delete_where_ids:
  "plain_invar s \<Longrightarrow> set (fst (delete_where p s)) = {i. \<exists>st. plain_abs s i = Some st \<and> p i st}"
  by (force simp: delete_where_def Let_def plain_invar_def plain_abs_def)

lemma ran_plain: "plain_invar s \<Longrightarrow> ran (plain_abs s) = snd ` set (pm_items s)"
  by (simp add: plain_invar_def plain_abs_def ran_distinct)

interpretation plain: stream_store plain_invar plain_abs StreamStore_GetByID StreamStore_BulkUpsert StreamStore_Delete
  plain_list_by plain_delete_by plain_delete_stale plain_delete_orphans
proof
  fix s :: StreamStoreImpl and sts :: "Stream list" and now :: time
  assume s: "plain_invar s"
  show "plain_invar (StreamStore_BulkUpsert now sts s)"
    using s fold_put_stream [of "pm_items s"] by (simp add: plain_invar_def StreamStore_BulkUpsert_def keyed_fold)
  show "plain_abs (StreamStore_BulkUpsert now sts s) = fold (upsert1 now) sts (plain_abs s)"
    using s fold_put_stream [of "pm_items s"] by (simp add: plain_invar_def plain_abs_def StreamStore_BulkUpsert_def)
next
  fix s :: StreamStoreImpl and i
  assume s: "plain_invar s"
  show "plain_invar (StreamStore_Delete i s)"
    using s by (simp add: plain_invar_def StreamStore_Delete_def distinct_delete delete_conv' keyed_delete)
  show "plain_abs (StreamStore_Delete i s) = (plain_abs s)(i := None)"
    by (simp add: plain_abs_def StreamStore_Delete_def delete_conv')
next
  fix s :: StreamStoreImpl and k src
  assume s: "plain_invar s"
  have d: "plain_invar (plain_delete_by k src s) \<and> plain_abs (plain_delete_by k src s) = drop_streams (\<lambda>st. source_of k st = src) (plain_abs s)"
    using s map_of_filter_keyed [of "pm_items s" "\<lambda>i st. source_of k st = src"]
    by (auto simp: plain_delete_by_eq delete_all_where_def plain_invar_def plain_abs_def keyed_def drop_streams_def fun_eq_iff
        split: option.splits if_splits intro: distinct_map_filter)
  then show "plain_invar (plain_delete_by k src s)"
    and "plain_abs (plain_delete_by k src s) = drop_streams (\<lambda>st. source_of k st = src) (plain_abs s)" by simp_all
  show "set (plain_list_by k src s) = {st \<in> ran (plain_abs s). source_of k st = src}"
    using s by (auto simp: plain_list_by_eq items_where_def ran_plain)
next
  fix s :: StreamStoreImpl and k src keep
  assume s: "plain_invar s"
  have k: "i = st_ID st" if "plain_abs s i = Some st" for i st
    using s that by (simp add: plain_invar_def plain_abs_def keyed_def)
  show "plain_invar (snd (plain_delete_stale k src keep s))" by (simp add: plain_delete_stale_eq delete_where_abs s)
  show "plain_abs (snd (plain_delete_stale k src keep s))
    = drop_streams (\<lambda>st. source_of k st = src \<and> st_ID st \<notin> set keep) (plain_abs s)"
    using k by (auto simp: plain_delete_stale_eq delete_where_abs s drop_streams_def fun_eq_iff split: option.splits)
  show "set (fst (plain_delete_stale k src keep s)) = {i. \<exists>st. plain_abs s i = Some st \<and> source_of k st = src \<and> i \<notin> set keep}"
    by (simp add: plain_delete_stale_eq delete_where_ids s)
next
  fix s :: StreamStoreImpl and k known
  assume s: "plain_invar s"
  show "plain_invar (snd (plain_delete_orphans k known s))" by (simp add: plain_delete_orphans_eq delete_where_abs s)
  show "plain_abs (snd (plain_delete_orphans k known s))
    = drop_streams (\<lambda>st. source_of k st \<noteq> [] \<and> source_of k st \<notin> set known) (plain_abs s)"
    by (auto simp: plain_delete_orphans_eq delete_where_abs s drop_streams_def fun_eq_iff split: option.splits)
  show "set (fst (plain_delete_orphans k known s)) = {i. \<exists>st. plain_abs s i = Some st \<and> source_of k st \<noteq> [] \<and> source_of k st \<notin> set known}"
    by (simp add: plain_delete_orphans_eq delete_where_ids s)
qed (simp_all add: plain_invar_def plain_abs_def StreamStore_GetByID_def)


section \<open>Changing one stream, and runs of operations\<close>

text \<open>The updates of a single stream that the stores offer, the operations of a run, and what they
  do to the abstract map.\<close>

datatype field_update = SetTMDB int | SetManual int | SetProbe rat string string

fun apply_update :: "field_update \<Rightarrow> Stream \<Rightarrow> Stream" where
  "apply_update (SetTMDB t) st = st\<lparr>st_TMDBID := t\<rparr>"
| "apply_update (SetManual t) st = st\<lparr>st_TMDBID := t, st_TMDBManual := True\<rparr>"
| "apply_update (SetProbe d vc ac) st = put_probe d vc ac st"

definition update1 :: "time \<Rightarrow> ident \<Rightarrow> field_update \<Rightarrow> stream_map \<Rightarrow> stream_map" where
  "update1 now i u m = (case m i of None \<Rightarrow> m | Some st \<Rightarrow> m(i \<mapsto> (apply_update u st)\<lparr>st_UpdatedAt := now\<rparr>))"

datatype stream_op =
    Upsert time "Stream list"
  | Remove ident
  | RemoveSource source_kind ident
  | RemoveStale source_kind ident "ident list"
  | RemoveOrphans source_kind "ident list"
  | UpdateField time ident field_update
  | ClearAll

fun op_ok :: "stream_op \<Rightarrow> bool" where
  "op_ok (Upsert now sts) = list_all stream_ok sts"
| "op_ok (RemoveSource k src) = plain_id src"
| "op_ok (RemoveStale k src keep) = plain_id src"
| "op_ok op = True"

fun abs_op :: "stream_op \<Rightarrow> stream_map \<Rightarrow> stream_map" where
  "abs_op (Upsert now sts) m = fold (upsert1 now) sts m"
| "abs_op (Remove i) m = m(i := None)"
| "abs_op (RemoveSource k src) m = drop_streams (\<lambda>st. source_of k st = src) m"
| "abs_op (RemoveStale k src keep) m = drop_streams (\<lambda>st. source_of k st = src \<and> st_ID st \<notin> set keep) m"
| "abs_op (RemoveOrphans k known) m = drop_streams (\<lambda>st. source_of k st \<noteq> [] \<and> source_of k st \<notin> set known) m"
| "abs_op (UpdateField now i u) m = update1 now i u m"
| "abs_op ClearAll m = Map.empty"

locale updatable_streams = stream_store +
  fixes update :: "time \<Rightarrow> ident \<Rightarrow> field_update \<Rightarrow> 'a \<Rightarrow> error option \<times> 'a"
    and clear :: "'a \<Rightarrow> 'a"
  assumes update_error: "invar s \<Longrightarrow> fst (update now i u s) = (if abs s i = None then Some (stream_missing i) else None)"
    and update_invar: "invar s \<Longrightarrow> invar (snd (update now i u s))"
    and update_abs: "invar s \<Longrightarrow> abs (snd (update now i u s)) = update1 now i u (abs s)"
    and clear_invar: "invar s \<Longrightarrow> invar (clear s)"
    and clear_abs: "invar s \<Longrightarrow> abs (clear s) = Map.empty"
begin

fun exec :: "stream_op \<Rightarrow> 'a \<Rightarrow> 'a" where
  "exec (Upsert now sts) s = upsert now sts s"
| "exec (Remove i) s = delete i s"
| "exec (RemoveSource k src) s = delete_by k src s"
| "exec (RemoveStale k src keep) s = snd (delete_stale k src keep s)"
| "exec (RemoveOrphans k known) s = snd (delete_orphans k known s)"
| "exec (UpdateField now i u) s = snd (update now i u s)"
| "exec ClearAll s = clear s"

lemma exec_abs: "invar s \<Longrightarrow> op_ok op \<Longrightarrow> invar (exec op s) \<and> abs (exec op s) = abs_op op (abs s)"
  by (cases op) (simp_all add: upsert_invar upsert_abs delete_invar delete_abs delete_by_invar delete_by_abs stale_invar
      stale_abs orphans_invar orphans_abs update_invar update_abs clear_invar clear_abs)

lemma run_abs: "invar s \<Longrightarrow> list_all op_ok ops \<Longrightarrow> invar (fold exec ops s) \<and> abs (fold exec ops s) = fold abs_op ops (abs s)"
  by (induction ops arbitrary: s) (simp_all add: exec_abs)

end

lemma apply_update_ID [simp]: "st_ID (apply_update u st) = st_ID st"
  by (cases u) (simp_all add: put_probe_def Let_def)

lemma keyed_update1: "keyed m \<Longrightarrow> keyed (update1 now i u m)"
  by (simp add: keyed_def update1_def split: option.splits)

fun plain_update :: "time \<Rightarrow> ident \<Rightarrow> field_update \<Rightarrow> StreamStoreImpl \<Rightarrow> error option \<times> StreamStoreImpl" where
  "plain_update now i (SetTMDB t) s = StreamStore_UpdateTMDBID now i t s"
| "plain_update now i (SetManual t) s = StreamStore_SetTMDBManual now i t s"
| "plain_update now i (SetProbe d vc ac) s = StreamStore_UpdateStreamProbeData now i d vc ac s"

lemma plain_update_eq: "plain_update now i u s = change_item now i (apply_update u) s"
  by (cases u) (simp_all add: StreamStore_UpdateTMDBID_def StreamStore_SetTMDBManual_def StreamStore_UpdateStreamProbeData_def fun_eq_iff
      change_item_def cong: option.case_cong)

interpretation plain: updatable_streams plain_invar plain_abs StreamStore_GetByID StreamStore_BulkUpsert StreamStore_Delete
  plain_list_by plain_delete_by plain_delete_stale plain_delete_orphans plain_update StreamStore_Clear
proof
  fix s :: StreamStoreImpl and now i u
  assume s: "plain_invar s"
  show "fst (plain_update now i u s) = (if plain_abs s i = None then Some (stream_missing i) else None)"
    by (simp add: plain_update_eq change_item_def plain_abs_def split: option.splits)
  show "plain_abs (snd (plain_update now i u s)) = update1 now i u (plain_abs s)"
    by (simp add: plain_update_eq change_item_def plain_abs_def update1_def update_conv' split: option.splits)
  show "plain_invar (snd (plain_update now i u s))"
    using s keyed_update1 [of "map_of (pm_items s)" now i u]
    by (cases "map_of (pm_items s) i")
      (auto simp: plain_update_eq change_item_def plain_invar_def distinct_update update_conv' update1_def)
  show "plain_invar (StreamStore_Clear s)" "plain_abs (StreamStore_Clear s) = Map.empty"
    by (simp_all add: plain_invar_def plain_abs_def StreamStore_Clear_def keyed_def)
qed

end
