(* ===== verification/IndexedStreams.thy ===== *)
theory IndexedStreams
  imports StreamStore "HOL-Library.Countable"
begin

text \<open>
  The indexed stream store (\<open>pkg/store/stream_indexed.go\<close>): streams are appended as length-prefixed
  JSON records to a data file kept in memory, an index maps identifiers to offsets and repeats the
  fields that are searched, and \<open>Save\<close> compacts the file. The store refines the in-memory store, and
  \<open>Load\<close> reads back what \<open>Save\<close> wrote. \<open>json.Marshal\<close> and \<open>json.Unmarshal\<close> of a stream are a field of
  the state; what is used of them is that unmarshalling undoes marshalling (\<open>json_ok\<close>).
\<close>

section \<open>Data\<close>

record json_codec =
  jc_marshal :: "Stream \<Rightarrow> byte list"
  jc_unmarshal :: "byte list \<Rightarrow> error + Stream"

definition json_ok :: "json_codec \<Rightarrow> bool" where
  "json_ok c \<longleftrightarrow> (\<forall>st. jc_unmarshal c (jc_marshal c st) = Inr st \<and> jc_marshal c st \<noteq> [])"

record StreamIndex =
  ix_ID :: ident
  ix_Name :: string
  ix_Group :: string
  ix_M3UAccountID :: ident
  ix_SatIPSourceID :: ident
  ix_HDHRSourceID :: ident
  ix_VODType :: string
  ix_VODSeries :: string
  ix_VODCollection :: string
  ix_VODSeason :: int
  ix_VODSeasonName :: string
  ix_VODEpisode :: int
  ix_VODYear :: int
  ix_TMDBID :: int
  ix_TMDBManual :: bool
  ix_CacheType :: string
  ix_CacheKey :: int
  ix_Language :: string
  ix_UseWireGuard :: bool
  ix_IsActive :: bool
  ix_Logo :: string
  ix_CreatedAt :: time
  ix_UpdatedAt :: time
  ix_offset :: nat
  ix_length :: nat

record IndexedStreamStore =
  is_index :: "(ident \<times> StreamIndex) list"
  is_data :: "byte list"
  is_rev :: u64
  is_json :: json_codec

definition indexFromStream :: "Stream \<Rightarrow> StreamIndex" where
  "indexFromStream st = \<lparr>ix_ID = st_ID st, ix_Name = st_Name st, ix_Group = st_Group st, ix_M3UAccountID = st_M3UAccountID st,
     ix_SatIPSourceID = st_SatIPSourceID st, ix_HDHRSourceID = st_HDHRSourceID st, ix_VODType = st_VODType st,
     ix_VODSeries = st_VODSeries st, ix_VODCollection = st_VODCollection st, ix_VODSeason = st_VODSeason st,
     ix_VODSeasonName = st_VODSeasonName st, ix_VODEpisode = st_VODEpisode st, ix_VODYear = st_VODYear st,
     ix_TMDBID = st_TMDBID st, ix_TMDBManual = st_TMDBManual st, ix_CacheType = st_CacheType st, ix_CacheKey = st_CacheKey st,
     ix_Language = st_Language st, ix_UseWireGuard = st_UseWireGuard st, ix_IsActive = st_IsActive st, ix_Logo = st_Logo st,
     ix_CreatedAt = st_CreatedAt st, ix_UpdatedAt = st_UpdatedAt st, ix_offset = 0, ix_length = 0\<rparr>"

definition summaryFromIndex :: "StreamIndex \<Rightarrow> StreamSummary" where
  "summaryFromIndex x = \<lparr>sm_ID = ix_ID x, sm_M3UAccountID = ix_M3UAccountID x, sm_SatIPSourceID = ix_SatIPSourceID x,
     sm_HDHRSourceID = ix_HDHRSourceID x, sm_Name = ix_Name x, sm_Group = ix_Group x, sm_Logo = ix_Logo x,
     sm_VODType = ix_VODType x, sm_VODSeries = ix_VODSeries x, sm_VODSeason = ix_VODSeason x,
     sm_VODSeasonName = ix_VODSeasonName x, sm_VODEpisode = ix_VODEpisode x, sm_VODYear = ix_VODYear x, sm_TMDBID = ix_TMDBID x\<rparr>"

fun ix_source_of :: "source_kind \<Rightarrow> StreamIndex \<Rightarrow> ident" where
  "ix_source_of M3U x = ix_M3UAccountID x"
| "ix_source_of SatIP x = ix_SatIPSourceID x"
| "ix_source_of HDHR x = ix_HDHRSourceID x"

section \<open>Records in the data file\<close>

definition readStream :: "json_codec \<Rightarrow> byte list \<Rightarrow> StreamIndex \<Rightarrow> error + Stream" where
  "readStream c d x = (if ix_length x = 0 \<or> length d < ix_offset x + ix_length x then Inl (''invalid offset for '' @ ix_ID x)
     else jc_unmarshal c (take (ix_length x) (drop (ix_offset x) d)))"

text \<open>The length of a record, little endian in 32 bits, and how \<open>Load\<close> reads it.\<close>

definition put_le32 :: "nat \<Rightarrow> byte list" where
  "put_le32 n = [of_nat n, of_nat (n div 256), of_nat (n div 65536), of_nat (n div 16777216)]"

definition get_le32 :: "byte list \<Rightarrow> nat" where
  "get_le32 b = unat (b ! 0) + 256 * unat (b ! 1) + 65536 * unat (b ! 2) + 16777216 * unat (b ! 3)"

definition appendStream :: "Stream \<Rightarrow> IndexedStreamStore \<Rightarrow> StreamIndex \<times> IndexedStreamStore" where
  "appendStream st s = (let d = jc_marshal (is_json s) st
     in ((indexFromStream st)\<lparr>ix_offset := length (is_data s) + 4, ix_length := length d\<rparr>,
         s\<lparr>is_data := is_data s @ put_le32 (length d) @ d\<rparr>))"

definition append_put :: "ident \<Rightarrow> Stream \<Rightarrow> IndexedStreamStore \<Rightarrow> IndexedStreamStore" where
  "append_put i st s = (let (x, s') = appendStream st s in s'\<lparr>is_index := AList.update i x (is_index s')\<rparr>)"

section \<open>Reading\<close>

definition read_all :: "IndexedStreamStore \<Rightarrow> StreamIndex list \<Rightarrow> Stream list" where
  "read_all s xs = List.map_filter (\<lambda>x. case readStream (is_json s) (is_data s) x of Inl e \<Rightarrow> None | Inr st \<Rightarrow> Some st) xs"

definition ix_created_before :: "StreamIndex \<Rightarrow> StreamIndex \<Rightarrow> bool" where
  "ix_created_before a b \<longleftrightarrow> ix_CreatedAt a < ix_CreatedAt b"

definition ix_name_less :: "StreamIndex \<Rightarrow> StreamIndex \<Rightarrow> bool" where
  "ix_name_less a b \<longleftrightarrow> lexordp (\<lambda>x y. (of_char x :: nat) < of_char y) (ix_Name a) (ix_Name b)"

definition indices :: "(StreamIndex \<Rightarrow> bool) \<Rightarrow> IndexedStreamStore \<Rightarrow> StreamIndex list" where
  "indices p s = filter p (map snd (is_index s))"

definition Indexed_List :: "IndexedStreamStore \<Rightarrow> Stream list" where
  "Indexed_List s = read_all s (sort_slice ix_created_before (indices (\<lambda>x. True) s))"

definition Indexed_ListSummaries :: "IndexedStreamStore \<Rightarrow> StreamSummary list" where
  "Indexed_ListSummaries s = map summaryFromIndex (sort_slice ix_name_less (indices (\<lambda>x. True) s))"

definition Indexed_ListByAccountID :: "ident \<Rightarrow> IndexedStreamStore \<Rightarrow> Stream list" where
  "Indexed_ListByAccountID a s = read_all s (sort_slice ix_created_before (indices (\<lambda>x. ix_M3UAccountID x = a) s))"

definition Indexed_ListBySatIPSourceID :: "ident \<Rightarrow> IndexedStreamStore \<Rightarrow> Stream list" where
  "Indexed_ListBySatIPSourceID a s = read_all s (sort_slice ix_created_before (indices (\<lambda>x. ix_SatIPSourceID x = a) s))"

definition Indexed_ListByHDHRSourceID :: "ident \<Rightarrow> IndexedStreamStore \<Rightarrow> Stream list" where
  "Indexed_ListByHDHRSourceID a s = read_all s (sort_slice ix_created_before (indices (\<lambda>x. ix_HDHRSourceID x = a) s))"

definition Indexed_ListByVODType :: "string \<Rightarrow> IndexedStreamStore \<Rightarrow> Stream list" where
  "Indexed_ListByVODType ty s = read_all s (sort_slice ix_name_less (indices (\<lambda>x. ix_VODType x = ty) s))"

definition Indexed_GetByID :: "ident \<Rightarrow> IndexedStreamStore \<Rightarrow> error + Stream" where
  "Indexed_GetByID i s = (case map_of (is_index s) i of None \<Rightarrow> Inl (stream_missing i)
     | Some x \<Rightarrow> (case readStream (is_json s) (is_data s) x of Inl e \<Rightarrow> Inl (stream_missing i) | Inr st \<Rightarrow> Inr st))"

section \<open>Changing\<close>

definition ix_bump :: "IndexedStreamStore \<Rightarrow> IndexedStreamStore" where
  "ix_bump s = s\<lparr>is_rev := is_rev s + 1\<rparr>"

text \<open>What an upsert keeps is read from the index entry.\<close>

definition ix_keep :: "StreamIndex \<Rightarrow> Stream \<Rightarrow> Stream" where
  "ix_keep x st =
     (let s1 = st\<lparr>st_CreatedAt := ix_CreatedAt x\<rparr>;
          s2 = (if ix_TMDBID x > 0 then s1\<lparr>st_TMDBID := ix_TMDBID x, st_TMDBManual := ix_TMDBManual x\<rparr> else s1);
          s3 = (if st_CacheType s2 = [] \<and> ix_CacheType x \<noteq> [] then s2\<lparr>st_CacheType := ix_CacheType x\<rparr> else s2);
          s4 = (if st_Language s3 = [] \<and> ix_Language x \<noteq> [] then s3\<lparr>st_Language := ix_Language x\<rparr> else s3)
      in if st_VODType s4 = [] \<and> ix_VODType x \<noteq> [] then s4\<lparr>st_VODType := ix_VODType x\<rparr> else s4)"

definition ix_upsert :: "time \<Rightarrow> Stream \<Rightarrow> IndexedStreamStore \<Rightarrow> IndexedStreamStore" where
  "ix_upsert now st s =
     (let st' = (case map_of (is_index s) (st_ID st) of None \<Rightarrow> st\<lparr>st_CreatedAt := now\<rparr> | Some x \<Rightarrow> ix_keep x st)\<lparr>st_UpdatedAt := now\<rparr>
      in append_put (st_ID st) st' s)"

definition Indexed_BulkUpsert :: "time \<Rightarrow> Stream list \<Rightarrow> IndexedStreamStore \<Rightarrow> IndexedStreamStore" where
  "Indexed_BulkUpsert now sts s = ix_bump (fold (ix_upsert now) sts s)"

definition ix_delete_where :: "(ident \<Rightarrow> StreamIndex \<Rightarrow> bool) \<Rightarrow> IndexedStreamStore \<Rightarrow> ident list \<times> IndexedStreamStore" where
  "ix_delete_where p s =
     (let gone = map fst (filter (\<lambda>(i, x). p i x) (is_index s));
          s' = s\<lparr>is_index := filter (\<lambda>(i, x). \<not> p i x) (is_index s)\<rparr>
      in (gone, if gone \<noteq> [] then ix_bump s' else s'))"

definition Indexed_DeleteStaleByAccountID where
  "Indexed_DeleteStaleByAccountID a keep = ix_delete_where (\<lambda>i x. ix_M3UAccountID x = a \<and> i \<notin> set keep)"

definition Indexed_DeleteStaleBySatIPSourceID where
  "Indexed_DeleteStaleBySatIPSourceID a keep = ix_delete_where (\<lambda>i x. ix_SatIPSourceID x = a \<and> i \<notin> set keep)"

definition Indexed_DeleteStaleByHDHRSourceID where
  "Indexed_DeleteStaleByHDHRSourceID a keep = ix_delete_where (\<lambda>i x. ix_HDHRSourceID x = a \<and> i \<notin> set keep)"

definition Indexed_DeleteOrphanedM3UStreams where
  "Indexed_DeleteOrphanedM3UStreams known = ix_delete_where (\<lambda>i x. ix_M3UAccountID x \<noteq> [] \<and> ix_M3UAccountID x \<notin> set known)"

definition Indexed_DeleteOrphanedSatIPStreams where
  "Indexed_DeleteOrphanedSatIPStreams known = ix_delete_where (\<lambda>i x. ix_SatIPSourceID x \<noteq> [] \<and> ix_SatIPSourceID x \<notin> set known)"

definition Indexed_DeleteOrphanedHDHRStreams where
  "Indexed_DeleteOrphanedHDHRStreams known = ix_delete_where (\<lambda>i x. ix_HDHRSourceID x \<noteq> [] \<and> ix_HDHRSourceID x \<notin> set known)"

definition ix_delete_all_where :: "(StreamIndex \<Rightarrow> bool) \<Rightarrow> IndexedStreamStore \<Rightarrow> IndexedStreamStore" where
  "ix_delete_all_where p s = ix_bump (s\<lparr>is_index := filter (\<lambda>(i, x). \<not> p x) (is_index s)\<rparr>)"

definition Indexed_DeleteByAccountID where
  "Indexed_DeleteByAccountID a = ix_delete_all_where (\<lambda>x. ix_M3UAccountID x = a)"

definition Indexed_DeleteBySatIPSourceID where
  "Indexed_DeleteBySatIPSourceID a = ix_delete_all_where (\<lambda>x. ix_SatIPSourceID x = a)"

definition Indexed_DeleteByHDHRSourceID where
  "Indexed_DeleteByHDHRSourceID a = ix_delete_all_where (\<lambda>x. ix_HDHRSourceID x = a)"

definition Indexed_Delete :: "ident \<Rightarrow> IndexedStreamStore \<Rightarrow> IndexedStreamStore" where
  "Indexed_Delete i s = ix_bump (s\<lparr>is_index := AList.delete i (is_index s)\<rparr>)"

definition ix_updateStreamField :: "time \<Rightarrow> ident \<Rightarrow> (Stream \<Rightarrow> Stream) \<Rightarrow> IndexedStreamStore \<Rightarrow> error option \<times> IndexedStreamStore" where
  "ix_updateStreamField now i f s = (case map_of (is_index s) i of None \<Rightarrow> (Some (stream_missing i), s)
     | Some x \<Rightarrow> (case readStream (is_json s) (is_data s) x of Inl e \<Rightarrow> (Some e, s)
       | Inr st \<Rightarrow> (None, append_put i ((f st)\<lparr>st_UpdatedAt := now\<rparr>) s)))"

text \<open>An update of one stream first changes the index entry (\<open>g\<close>) and then the record; errors of the
  second part are dropped.\<close>

definition ix_change :: "time \<Rightarrow> ident \<Rightarrow> (StreamIndex \<Rightarrow> StreamIndex) \<Rightarrow> (Stream \<Rightarrow> Stream) \<Rightarrow> IndexedStreamStore \<Rightarrow> error option \<times> IndexedStreamStore" where
  "ix_change now i g f s = (case map_of (is_index s) i of None \<Rightarrow> (Some (stream_missing i), s)
     | Some x \<Rightarrow> (None, snd (ix_updateStreamField now i f (s\<lparr>is_index := AList.update i (g x) (is_index s)\<rparr>))))"

definition Indexed_UpdateTMDBID :: "time \<Rightarrow> ident \<Rightarrow> int \<Rightarrow> IndexedStreamStore \<Rightarrow> error option \<times> IndexedStreamStore" where
  "Indexed_UpdateTMDBID now i t = ix_change now i (\<lambda>x. x\<lparr>ix_TMDBID := t, ix_UpdatedAt := now\<rparr>) (\<lambda>st. st\<lparr>st_TMDBID := t\<rparr>)"

definition Indexed_SetTMDBManual :: "time \<Rightarrow> ident \<Rightarrow> int \<Rightarrow> IndexedStreamStore \<Rightarrow> error option \<times> IndexedStreamStore" where
  "Indexed_SetTMDBManual now i t = ix_change now i (\<lambda>x. x\<lparr>ix_TMDBID := t, ix_TMDBManual := True, ix_UpdatedAt := now\<rparr>)
     (\<lambda>st. st\<lparr>st_TMDBID := t, st_TMDBManual := True\<rparr>)"

definition Indexed_UpdateStreamProbeData where
  "Indexed_UpdateStreamProbeData now i d vc ac = ix_change now i (\<lambda>x. x) (put_probe d vc ac)"

fun ix_change_all :: "time \<Rightarrow> (StreamIndex \<Rightarrow> bool) \<Rightarrow> (StreamIndex \<Rightarrow> StreamIndex) \<Rightarrow> (Stream \<Rightarrow> Stream) \<Rightarrow> (ident \<times> StreamIndex) list
    \<Rightarrow> IndexedStreamStore \<Rightarrow> IndexedStreamStore" where
  "ix_change_all now p g f [] s = s"
| "ix_change_all now p g f ((i, x) # xs) s =
     ix_change_all now p g f xs (if p x then snd (ix_change now i (\<lambda>_. g x) f s) else s)"

definition Indexed_ClearAutoTMDBByAccountID :: "time \<Rightarrow> ident \<Rightarrow> IndexedStreamStore \<Rightarrow> IndexedStreamStore" where
  "Indexed_ClearAutoTMDBByAccountID now a s =
     ix_change_all now (\<lambda>x. ix_M3UAccountID x = a \<and> ix_TMDBID x > 0 \<and> \<not> ix_TMDBManual x)
       (\<lambda>x. x\<lparr>ix_TMDBID := 0\<rparr>) (\<lambda>st. st\<lparr>st_TMDBID := 0\<rparr>) (is_index s) s"

definition Indexed_UpdateWireGuardByAccountID :: "time \<Rightarrow> ident \<Rightarrow> bool \<Rightarrow> IndexedStreamStore \<Rightarrow> IndexedStreamStore" where
  "Indexed_UpdateWireGuardByAccountID now a b s =
     ix_change_all now (\<lambda>x. ix_M3UAccountID x = a)
       (\<lambda>x. x\<lparr>ix_UseWireGuard := b\<rparr>) (\<lambda>st. st\<lparr>st_UseWireGuard := b\<rparr>) (is_index s) s"

definition Indexed_Clear :: "IndexedStreamStore \<Rightarrow> IndexedStreamStore" where
  "Indexed_Clear s = ix_bump (s\<lparr>is_index := [], is_data := []\<rparr>)"

section \<open>The file\<close>

text \<open>\<open>Save\<close> writes the live records into a new buffer and moves the index entries there; an entry
  whose record cannot be read keeps its old offset.\<close>

fun compact :: "json_codec \<Rightarrow> byte list \<Rightarrow> (ident \<times> StreamIndex) list \<Rightarrow> byte list \<Rightarrow> (ident \<times> StreamIndex) list \<times> byte list" where
  "compact c d [] buf = ([], buf)"
| "compact c d ((i, x) # xs) buf =
     (case readStream c d x of
        Inl e \<Rightarrow> (let (ys, b) = compact c d xs buf in ((i, x) # ys, b))
      | Inr st \<Rightarrow> (let w = jc_marshal c st;
           (ys, b) = compact c d xs (buf @ put_le32 (length w) @ w)
         in ((i, x\<lparr>ix_offset := length buf + 4, ix_length := length w\<rparr>) # ys, b)))"

text \<open>The result of writing the file and renaming it; the file changes only when both succeed.\<close>

definition Indexed_Save :: "error option \<Rightarrow> IndexedStreamStore \<Rightarrow> byte list option \<Rightarrow> error option \<times> IndexedStreamStore \<times> byte list option" where
  "Indexed_Save w s file = (let (ys, b) = compact (is_json s) (is_data s) (is_index s) [];
       s' = s\<lparr>is_index := ys, is_data := b\<rparr>
     in (case w of Some e \<Rightarrow> (Some e, s', file) | None \<Rightarrow> (None, s', Some b)))"

text \<open>\<open>Load\<close> walks over the records; a record that does not unmarshal is skipped, a truncated one ends
  the walk.\<close>

function load_loop :: "json_codec \<Rightarrow> byte list \<Rightarrow> nat \<Rightarrow> (ident \<times> StreamIndex) list \<Rightarrow> (ident \<times> StreamIndex) list" where
  "load_loop c d off ixs =
     (if off + 4 \<le> length d then
        let n = get_le32 (take 4 (drop off d)); rec_start = off + 4
        in if rec_start + n > length d then ixs
           else load_loop c d (rec_start + n)
             (case jc_unmarshal c (take n (drop rec_start d)) of Inl e \<Rightarrow> ixs
              | Inr st \<Rightarrow> AList.update (st_ID st) ((indexFromStream st)\<lparr>ix_offset := rec_start, ix_length := n\<rparr>) ixs)
      else ixs)"
  by pat_completeness auto
termination by (relation "measure (\<lambda>(c, d, off, ixs). length d - off)") auto

definition migrate :: "Stream list \<Rightarrow> IndexedStreamStore \<Rightarrow> IndexedStreamStore" where
  "migrate legacy s = fold (\<lambda>st. append_put (st_ID st) st) legacy (s\<lparr>is_index := [], is_data := []\<rparr>)"

text \<open>Without a data file the streams of the old format (\<open>None\<close>: none, or not readable) are taken over
  and saved.\<close>

definition Indexed_Load :: "byte list option \<Rightarrow> Stream list option \<Rightarrow> error option \<Rightarrow> IndexedStreamStore \<Rightarrow> IndexedStreamStore \<times> byte list option" where
  "Indexed_Load file legacy w s = (case file of
       Some d \<Rightarrow> (s\<lparr>is_data := d, is_index := load_loop (is_json s) d 0 []\<rparr>, file)
     | None \<Rightarrow> (case legacy of None \<Rightarrow> (s, None)
         | Some sts \<Rightarrow> snd (Indexed_Save w (migrate sts s) None)))"


declare load_loop.simps [simp del]

section \<open>The index and the records agree\<close>

definition entry_ok :: "json_codec \<Rightarrow> byte list \<Rightarrow> ident \<Rightarrow> StreamIndex \<Rightarrow> Stream \<Rightarrow> bool" where
  "entry_ok c d i x st \<longleftrightarrow> readStream c d x = Inr st \<and> st_ID st = i
     \<and> x = (indexFromStream st)\<lparr>ix_offset := ix_offset x, ix_length := ix_length x\<rparr>"

definition ix_invar :: "IndexedStreamStore \<Rightarrow> bool" where
  "ix_invar s \<longleftrightarrow> json_ok (is_json s) \<and> distinct (map fst (is_index s))
     \<and> (\<forall>(i, x) \<in> set (is_index s). \<exists>st. entry_ok (is_json s) (is_data s) i x st)"

definition ix_abs :: "IndexedStreamStore \<Rightarrow> stream_map" where
  "ix_abs s i = (case map_of (is_index s) i of None \<Rightarrow> None
     | Some x \<Rightarrow> (case readStream (is_json s) (is_data s) x of Inl e \<Rightarrow> None | Inr st \<Rightarrow> Some st))"

lemma read_append: "readStream c d x = Inr st \<Longrightarrow> readStream c (d @ e) x = Inr st"
  by (auto simp: readStream_def split: if_splits)

lemma entry_append: "entry_ok c d i x st \<Longrightarrow> entry_ok c (d @ e) i x st"
  by (simp add: entry_ok_def read_append)

lemma entry_fields:
  assumes "entry_ok c d i x st"
  shows "ix_source_of k x = source_of k st" "ix_ID x = i" "ix_CreatedAt x = st_CreatedAt st" "ix_VODType x = st_VODType st"
    "ix_TMDBID x = st_TMDBID st" "ix_TMDBManual x = st_TMDBManual st" "ix_CacheType x = st_CacheType st" "ix_Language x = st_Language st"
proof -
  obtain off n where "x = (indexFromStream st)\<lparr>ix_offset := off, ix_length := n\<rparr>" "st_ID st = i"
    using assms by (auto simp: entry_ok_def)
  then show "ix_source_of k x = source_of k st" "ix_ID x = i" "ix_CreatedAt x = st_CreatedAt st" "ix_VODType x = st_VODType st"
    "ix_TMDBID x = st_TMDBID st" "ix_TMDBManual x = st_TMDBManual st" "ix_CacheType x = st_CacheType st" "ix_Language x = st_Language st"
    by (cases k; simp add: indexFromStream_def)+
qed

lemma ix_entry: "ix_invar s \<Longrightarrow> map_of (is_index s) i = Some x \<Longrightarrow> \<exists>st. entry_ok (is_json s) (is_data s) i x st \<and> ix_abs s i = Some st"
  unfolding ix_invar_def ix_abs_def by (fastforce dest: map_of_SomeD simp: entry_ok_def)

lemma ix_abs_Some:
  assumes "ix_invar s"
  shows "ix_abs s i = Some st \<longleftrightarrow> (\<exists>x. map_of (is_index s) i = Some x \<and> entry_ok (is_json s) (is_data s) i x st)"
  using ix_entry [OF assms, of i] by (cases "map_of (is_index s) i") (auto simp: ix_abs_def entry_ok_def)

lemma keyed_ix: "ix_invar s \<Longrightarrow> keyed (ix_abs s)"
  by (auto simp: keyed_def ix_abs_Some entry_ok_def)

lemma new_entry:
  fixes st c
  defines "w \<equiv> jc_marshal c st"
  assumes "json_ok c"
  shows "entry_ok c (d @ put_le32 n @ w) (st_ID st) ((indexFromStream st)\<lparr>ix_offset := length d + 4, ix_length := length w\<rparr>) st"
  using assms by (simp add: entry_ok_def readStream_def json_ok_def put_le32_def)

lemma AList_update_Ball:
  "\<forall>(i, x) \<in> set xs. P i x \<Longrightarrow> P k v \<Longrightarrow> \<forall>(i, x) \<in> set (AList.update k v xs). P i x"
  by (induction xs) auto

lemma append_put_ok:
  assumes "ix_invar s" "st_ID st = i"
  shows "ix_invar (append_put i st s) \<and> ix_abs (append_put i st s) = (ix_abs s)(i \<mapsto> st)"
proof -
  let ?c = "is_json s"
  let ?w = "jc_marshal ?c st"
  let ?d = "is_data s @ put_le32 (length ?w) @ ?w"
  let ?x = "(indexFromStream st)\<lparr>ix_offset := length (is_data s) + 4, ix_length := length ?w\<rparr>"
  have s': "append_put i st s = s\<lparr>is_data := ?d, is_index := AList.update i ?x (is_index s)\<rparr>"
    by (simp add: append_put_def appendStream_def Let_def)
  have x: "entry_ok ?c ?d i ?x st" using new_entry assms by (auto simp: ix_invar_def)
  have "\<forall>(j, y) \<in> set (is_index s). \<exists>t. entry_ok ?c ?d j y t"
    using assms(1) entry_append [of ?c "is_data s"] unfolding ix_invar_def by fast
  then have "\<forall>(j, y) \<in> set (AList.update i ?x (is_index s)). \<exists>t. entry_ok ?c ?d j y t"
    using x by (intro AList_update_Ball) blast+
  then have inv: "ix_invar (append_put i st s)"
    using assms(1) unfolding s' ix_invar_def by (simp add: distinct_update)
  have "ix_abs (append_put i st s) j = ((ix_abs s)(i \<mapsto> st)) j" for j
  proof (cases "j = i")
    case True then show ?thesis using x by (simp add: s' ix_abs_def update_conv' entry_ok_def)
  next
    case False
    then have m: "map_of (is_index (append_put i st s)) j = map_of (is_index s) j" by (simp add: s' update_conv')
    show ?thesis
    proof (cases "map_of (is_index s) j")
      case None then show ?thesis using False m by (simp add: ix_abs_def)
    next
      case (Some y)
      then obtain t where "readStream ?c (is_data s) y = Inr t" using ix_entry [OF assms(1)] by (auto simp: entry_ok_def)
      then show ?thesis using False m Some read_append by (simp add: ix_abs_def s')
    qed
  qed
  then show ?thesis using inv by blast
qed

lemma ix_keep_eq: "entry_ok c d i x old \<Longrightarrow> ix_keep x st = merge_existing old st"
  by (simp only: ix_keep_def merge_existing_def keep_tmdb_def keep_cache_def keep_language_def keep_vodtype_def Let_def entry_fields)

lemma ix_upsert_ok:
  assumes "ix_invar s"
  shows "ix_invar (ix_upsert now st s) \<and> ix_abs (ix_upsert now st s) = upsert1 now st (ix_abs s)"
proof -
  have "ix_upsert now st s = append_put (st_ID st) (merged now (ix_abs s (st_ID st)) st) s"
  proof (cases "map_of (is_index s) (st_ID st)")
    case None then show ?thesis by (simp add: ix_upsert_def merged_def ix_abs_def)
  next
    case (Some x)
    then obtain old where "entry_ok (is_json s) (is_data s) (st_ID st) x old" "ix_abs s (st_ID st) = Some old"
      using ix_entry [OF assms] by blast
    then show ?thesis using Some ix_keep_eq by (simp add: ix_upsert_def merged_def)
  qed
  then show ?thesis
    using append_put_ok [OF assms, of "merged now (ix_abs s (st_ID st)) st" "st_ID st"] by (simp add: upsert1_def)
qed

lemma ix_bump_simps [simp]: "ix_invar (ix_bump s) = ix_invar s" "ix_abs (ix_bump s) = ix_abs s"
  by (simp_all add: ix_bump_def ix_invar_def ix_abs_def fun_eq_iff split: option.split)

lemma fold_ix_upsert:
  "ix_invar s \<Longrightarrow> ix_invar (fold (ix_upsert now) sts s) \<and> ix_abs (fold (ix_upsert now) sts s) = fold (upsert1 now) sts (ix_abs s)"
  by (induction sts arbitrary: s) (simp_all add: ix_upsert_ok)

text \<open>Dropping index entries by a condition that the streams share.\<close>

lemma ix_filter:
  assumes "ix_invar s" "\<And>i x st. entry_ok (is_json s) (is_data s) i x st \<Longrightarrow> p i x = q i st"
  shows "ix_invar (s\<lparr>is_index := filter (\<lambda>(i, x). \<not> p i x) (is_index s)\<rparr>)"
    "ix_abs (s\<lparr>is_index := filter (\<lambda>(i, x). \<not> p i x) (is_index s)\<rparr>)
      = (\<lambda>i. case ix_abs s i of None \<Rightarrow> None | Some st \<Rightarrow> if q i st then None else Some st)"
proof -
  have d: "distinct (map fst (is_index s))" using assms(1) by (simp add: ix_invar_def)
  show "ix_invar (s\<lparr>is_index := filter (\<lambda>(i, x). \<not> p i x) (is_index s)\<rparr>)"
    using assms(1) by (auto simp: ix_invar_def intro: distinct_map_filter)
  show "ix_abs (s\<lparr>is_index := filter (\<lambda>(i, x). \<not> p i x) (is_index s)\<rparr>)
      = (\<lambda>i. case ix_abs s i of None \<Rightarrow> None | Some st \<Rightarrow> if q i st then None else Some st)" (is "?l = ?r")
  proof
    fix i show "?l i = ?r i"
    proof (cases "map_of (is_index s) i")
      case None then show ?thesis by (simp add: ix_abs_def map_of_filter_keyed [OF d])
    next
      case (Some x)
      then obtain st where st: "entry_ok (is_json s) (is_data s) i x st" using ix_entry [OF assms(1)] by blast
      from assms(2) [OF this] show ?thesis using Some st
        by (simp add: ix_abs_def map_of_filter_keyed [OF d] entry_ok_def)
    qed
  qed
qed

lemma ix_filter_ids:
  assumes "ix_invar s" "\<And>i x st. entry_ok (is_json s) (is_data s) i x st \<Longrightarrow> p i x = q i st"
  shows "set (map fst (filter (\<lambda>(i, x). p i x) (is_index s))) = {i. \<exists>st. ix_abs s i = Some st \<and> q i st}"
proof -
  have d: "distinct (map fst (is_index s))" using assms(1) by (simp add: ix_invar_def)
  have "i \<in> set (map fst (filter (\<lambda>(i, x). p i x) (is_index s))) \<longleftrightarrow> (\<exists>x. map_of (is_index s) i = Some x \<and> p i x)" for i
    using d by force
  also have "\<dots> i \<longleftrightarrow> (\<exists>st. ix_abs s i = Some st \<and> q i st)" for i
    using ix_entry [OF assms(1)] assms(2) by (fastforce simp: ix_abs_Some [OF assms(1)])
  finally show ?thesis by blast
qed

lemma ix_delete_where_ok:
  assumes "ix_invar s" "\<And>i x st. entry_ok (is_json s) (is_data s) i x st \<Longrightarrow> p i x = q i st"
  shows "ix_invar (snd (ix_delete_where p s))"
    "ix_abs (snd (ix_delete_where p s)) = (\<lambda>i. case ix_abs s i of None \<Rightarrow> None | Some st \<Rightarrow> if q i st then None else Some st)"
    "set (fst (ix_delete_where p s)) = {i. \<exists>st. ix_abs s i = Some st \<and> q i st}"
  using ix_filter [OF assms] ix_filter_ids [OF assms] by (auto simp: ix_delete_where_def Let_def)


section \<open>The indexed store keeps the contract\<close>

fun ix_list_by :: "source_kind \<Rightarrow> ident \<Rightarrow> IndexedStreamStore \<Rightarrow> Stream list" where
  "ix_list_by M3U = Indexed_ListByAccountID"
| "ix_list_by SatIP = Indexed_ListBySatIPSourceID"
| "ix_list_by HDHR = Indexed_ListByHDHRSourceID"

fun ix_delete_by :: "source_kind \<Rightarrow> ident \<Rightarrow> IndexedStreamStore \<Rightarrow> IndexedStreamStore" where
  "ix_delete_by M3U = Indexed_DeleteByAccountID"
| "ix_delete_by SatIP = Indexed_DeleteBySatIPSourceID"
| "ix_delete_by HDHR = Indexed_DeleteByHDHRSourceID"

fun ix_delete_stale :: "source_kind \<Rightarrow> ident \<Rightarrow> ident list \<Rightarrow> IndexedStreamStore \<Rightarrow> ident list \<times> IndexedStreamStore" where
  "ix_delete_stale M3U = Indexed_DeleteStaleByAccountID"
| "ix_delete_stale SatIP = Indexed_DeleteStaleBySatIPSourceID"
| "ix_delete_stale HDHR = Indexed_DeleteStaleByHDHRSourceID"

fun ix_delete_orphans :: "source_kind \<Rightarrow> ident list \<Rightarrow> IndexedStreamStore \<Rightarrow> ident list \<times> IndexedStreamStore" where
  "ix_delete_orphans M3U = Indexed_DeleteOrphanedM3UStreams"
| "ix_delete_orphans SatIP = Indexed_DeleteOrphanedSatIPStreams"
| "ix_delete_orphans HDHR = Indexed_DeleteOrphanedHDHRStreams"

fun ix_update :: "time \<Rightarrow> ident \<Rightarrow> field_update \<Rightarrow> IndexedStreamStore \<Rightarrow> error option \<times> IndexedStreamStore" where
  "ix_update now i (SetTMDB t) s = Indexed_UpdateTMDBID now i t s"
| "ix_update now i (SetManual t) s = Indexed_SetTMDBManual now i t s"
| "ix_update now i (SetProbe d vc ac) s = Indexed_UpdateStreamProbeData now i d vc ac s"

lemma ix_list_by_eq:
  "ix_list_by k src s = read_all s (sort_slice ix_created_before (indices (\<lambda>x. ix_source_of k x = src) s))"
  by (cases k) (simp_all add: Indexed_ListByAccountID_def Indexed_ListBySatIPSourceID_def Indexed_ListByHDHRSourceID_def)

lemma ix_delete_by_eq: "ix_delete_by k src = ix_delete_all_where (\<lambda>x. ix_source_of k x = src)"
  by (cases k) (simp_all add: Indexed_DeleteByAccountID_def Indexed_DeleteBySatIPSourceID_def Indexed_DeleteByHDHRSourceID_def)

lemma ix_delete_stale_eq: "ix_delete_stale k src keep = ix_delete_where (\<lambda>i x. ix_source_of k x = src \<and> i \<notin> set keep)"
  by (cases k) (simp_all add: Indexed_DeleteStaleByAccountID_def Indexed_DeleteStaleBySatIPSourceID_def Indexed_DeleteStaleByHDHRSourceID_def)

lemma ix_delete_orphans_eq:
  "ix_delete_orphans k known = ix_delete_where (\<lambda>i x. ix_source_of k x \<noteq> [] \<and> ix_source_of k x \<notin> set known)"
  by (cases k) (simp_all add: Indexed_DeleteOrphanedM3UStreams_def Indexed_DeleteOrphanedSatIPStreams_def Indexed_DeleteOrphanedHDHRStreams_def)

lemma ix_change_eq:
  assumes "ix_invar s" "map_of (is_index s) i = Some x" "ix_abs s i = Some st"
    "ix_offset (g x) = ix_offset x" "ix_length (g x) = ix_length x"
  shows "ix_change now i g f s = (None, append_put i ((f st)\<lparr>st_UpdatedAt := now\<rparr>) s)"
proof -
  have "readStream (is_json s) (is_data s) x = Inr st" using assms(1-3) ix_entry [OF assms(1,2)] by (auto simp: entry_ok_def)
  then have "readStream (is_json s) (is_data s) (g x) = Inr st" using assms(4,5) by (simp add: readStream_def split: if_splits)
  then show ?thesis using assms(2)
    by (simp add: ix_change_def ix_updateStreamField_def update_conv' append_put_def appendStream_def Let_def)
qed

lemma ix_update_eq:
  assumes "ix_invar s"
  shows "ix_update now i u s = (case ix_abs s i of None \<Rightarrow> (Some (stream_missing i), s)
    | Some st \<Rightarrow> (None, append_put i ((apply_update u st)\<lparr>st_UpdatedAt := now\<rparr>) s))"
proof (cases "map_of (is_index s) i")
  case None
  then show ?thesis by (cases u) (simp_all add: ix_abs_def Indexed_UpdateTMDBID_def Indexed_SetTMDBManual_def
        Indexed_UpdateStreamProbeData_def ix_change_def)
next
  case (Some x)
  then obtain st where "ix_abs s i = Some st" using ix_entry [OF assms] by blast
  then show ?thesis using ix_change_eq [OF assms Some] by (cases u) (simp_all add: Indexed_UpdateTMDBID_def Indexed_SetTMDBManual_def
        Indexed_UpdateStreamProbeData_def)
qed

lemma read_all_set:
  assumes "ix_invar s" "set xs \<subseteq> snd ` set (is_index s)"
  shows "set (read_all s xs) = {st. \<exists>i x. x \<in> set xs \<and> map_of (is_index s) i = Some x \<and> entry_ok (is_json s) (is_data s) i x st}"
proof -
  have d: "distinct (map fst (is_index s))" using assms(1) by (simp add: ix_invar_def)
  have "\<exists>i. map_of (is_index s) i = Some x" if "x \<in> set xs" for x using assms(2) that d by force
  then show ?thesis using ix_entry [OF assms(1)]
    by (force simp: read_all_def List.map_filter_def entry_ok_def split: sum.splits)
qed

lemma ix_list_by_set:
  assumes "ix_invar s"
  shows "set (ix_list_by k src s) = {st \<in> ran (ix_abs s). source_of k st = src}"
proof -
  let ?xs = "indices (\<lambda>x. ix_source_of k x = src) s"
  have "set (ix_list_by k src s) = {st. \<exists>i x. x \<in> set ?xs \<and> map_of (is_index s) i = Some x \<and> entry_ok (is_json s) (is_data s) i x st}"
    unfolding ix_list_by_eq by (subst read_all_set [OF assms]) (auto simp: indices_def)
  also have "\<dots> = {st. \<exists>i x. map_of (is_index s) i = Some x \<and> entry_ok (is_json s) (is_data s) i x st \<and> source_of k st = src}"
    using entry_fields(1) by (auto simp: indices_def image_iff dest: map_of_SomeD) (metis map_of_SomeD snd_conv)+
  finally show ?thesis by (auto simp: ran_def ix_abs_Some [OF assms])
qed

interpretation ix: updatable_streams ix_invar ix_abs Indexed_GetByID Indexed_BulkUpsert Indexed_Delete
  ix_list_by ix_delete_by ix_delete_stale ix_delete_orphans ix_update Indexed_Clear
proof
  fix s :: IndexedStreamStore and k src
  assume s: "ix_invar s"
  have p: "(ix_source_of k x = src) = (source_of k st = src)" if "entry_ok (is_json s) (is_data s) i x st" for i x st
    using entry_fields(1) [OF that] by simp
  show "ix_invar (ix_delete_by k src s)" "ix_abs (ix_delete_by k src s) = drop_streams (\<lambda>st. source_of k st = src) (ix_abs s)"
    using ix_filter [OF s p] by (simp_all add: ix_delete_by_eq ix_delete_all_where_def drop_streams_def)
  show "set (ix_list_by k src s) = {st \<in> ran (ix_abs s). source_of k st = src}"
    by (rule ix_list_by_set [OF s])
next
  fix s :: IndexedStreamStore and k src keep
  assume s: "ix_invar s"
  have p: "(ix_source_of k x = src \<and> i \<notin> set keep) = (source_of k st = src \<and> i \<notin> set keep)"
    if "entry_ok (is_json s) (is_data s) i x st" for i x st using entry_fields(1) [OF that] by simp
  note d = ix_delete_where_ok [OF s p]
  show "ix_invar (snd (ix_delete_stale k src keep s))" using d(1) by (simp add: ix_delete_stale_eq)
  show "set (fst (ix_delete_stale k src keep s)) = {i. \<exists>st. ix_abs s i = Some st \<and> source_of k st = src \<and> i \<notin> set keep}"
    using d(3) by (simp add: ix_delete_stale_eq)
  show "ix_abs (snd (ix_delete_stale k src keep s)) = drop_streams (\<lambda>st. source_of k st = src \<and> st_ID st \<notin> set keep) (ix_abs s)"
    using d(2) keyed_ix [OF s] by (auto simp: ix_delete_stale_eq drop_streams_def keyed_def fun_eq_iff split: option.splits)
next
  fix s :: IndexedStreamStore and k known
  assume s: "ix_invar s"
  have p: "(ix_source_of k x \<noteq> [] \<and> ix_source_of k x \<notin> set known) = (source_of k st \<noteq> [] \<and> source_of k st \<notin> set known)"
    if "entry_ok (is_json s) (is_data s) i x st" for i x st using entry_fields(1) [OF that] by simp
  note d = ix_delete_where_ok [OF s p]
  show "ix_invar (snd (ix_delete_orphans k known s))" using d(1) by (simp add: ix_delete_orphans_eq)
  show "set (fst (ix_delete_orphans k known s)) = {i. \<exists>st. ix_abs s i = Some st \<and> source_of k st \<noteq> [] \<and> source_of k st \<notin> set known}"
    using d(3) by (simp add: ix_delete_orphans_eq)
  show "ix_abs (snd (ix_delete_orphans k known s)) = drop_streams (\<lambda>st. source_of k st \<noteq> [] \<and> source_of k st \<notin> set known) (ix_abs s)"
    using d(2) by (simp add: ix_delete_orphans_eq drop_streams_def)
next
  fix s :: IndexedStreamStore and i
  assume s: "ix_invar s"
  have e: "AList.delete i (is_index s) = filter (\<lambda>(j, x). \<not> j = i) (is_index s)" by (auto simp: AList.delete_eq intro: filter_cong)
  show "ix_invar (Indexed_Delete i s)" "ix_abs (Indexed_Delete i s) = (ix_abs s)(i := None)"
    using ix_filter [OF s, of "\<lambda>j x. j = i" "\<lambda>j st. j = i"] by (auto simp: Indexed_Delete_def e fun_eq_iff split: option.splits)
  show "Indexed_GetByID i s = not_found (stream_missing i) (ix_abs s i)"
    using ix_entry [OF s, of i] by (auto simp: Indexed_GetByID_def ix_abs_def entry_ok_def split: option.splits)
  show "keyed (ix_abs s)" by (rule keyed_ix [OF s])
  show "ix_invar (Indexed_Clear s)" "ix_abs (Indexed_Clear s) = Map.empty"
    using s by (simp_all add: Indexed_Clear_def ix_bump_def ix_invar_def ix_abs_def fun_eq_iff)
next
  fix s :: IndexedStreamStore and sts :: "Stream list" and now
  assume s: "ix_invar s"
  show "ix_invar (Indexed_BulkUpsert now sts s)" "ix_abs (Indexed_BulkUpsert now sts s) = fold (upsert1 now) sts (ix_abs s)"
    using fold_ix_upsert [OF s] by (simp_all add: Indexed_BulkUpsert_def)
next
  fix s :: IndexedStreamStore and now i u
  assume s: "ix_invar s"
  show "fst (ix_update now i u s) = (if ix_abs s i = None then Some (stream_missing i) else None)"
    by (simp add: ix_update_eq [OF s] split: option.splits)
  have k: "st_ID st = i" if "ix_abs s i = Some st" for st using keyed_ix [OF s] that by (simp add: keyed_def)
  show "ix_invar (snd (ix_update now i u s))" "ix_abs (snd (ix_update now i u s)) = update1 now i u (ix_abs s)"
    using k append_put_ok [OF s, of _ i] s by (simp_all add: ix_update_eq [OF s] update1_def split: option.splits)
qed


section \<open>Saving and loading\<close>

lemma le32_roundtrip: "n < 2 ^ 32 \<Longrightarrow> get_le32 (take 4 (put_le32 n @ r)) = n"
proof -
  assume n: "n < 2 ^ 32"
  have b: "unat (of_nat k :: byte) = k mod 256" for k by (simp add: unat_of_nat)
  have "n mod 256 + 256 * (n div 256 mod 256) + 65536 * (n div 65536 mod 256) + 16777216 * (n div 16777216 mod 256) = n mod 2 ^ 32"
    using mod_mult2_eq [of n 256 256] mod_mult2_eq [of n 65536 256] mod_mult2_eq [of n 16777216 256] by simp
  then show ?thesis using n by (simp add: get_le32_def put_le32_def b)
qed

definition enc :: "json_codec \<Rightarrow> Stream \<Rightarrow> byte list" where
  "enc c st = put_le32 (length (jc_marshal c st)) @ jc_marshal c st"

definition placed_at :: "json_codec \<Rightarrow> nat \<Rightarrow> Stream \<Rightarrow> StreamIndex" where
  "placed_at c n st = (indexFromStream st)\<lparr>ix_offset := n + 4, ix_length := length (jc_marshal c st)\<rparr>"

fun placed :: "json_codec \<Rightarrow> nat \<Rightarrow> Stream list \<Rightarrow> (ident \<times> StreamIndex) list" where
  "placed c n [] = []"
| "placed c n (st # sts) = (st_ID st, placed_at c n st) # placed c (n + length (enc c st)) sts"

lemma map_fst_placed [simp]: "map fst (placed c n sts) = map st_ID sts"
  by (induction sts arbitrary: n) simp_all

lemma compact_spec:
  assumes "\<forall>(i, x) \<in> set xs. \<exists>st. entry_ok c d i x st"
  shows "\<exists>sts. map st_ID sts = map fst xs \<and> list_all2 (\<lambda>(i, x) st. entry_ok c d i x st) xs sts
    \<and> compact c d xs buf = (placed c (length buf) sts, buf @ concat (map (enc c) sts))"
  using assms
proof (induction xs arbitrary: buf)
  case (Cons p xs)
  obtain i x where p: "p = (i, x)" by force
  obtain st where st: "entry_ok c d i x st" using Cons.prems p by auto
  let ?buf = "buf @ enc c st"
  obtain sts where sts: "map st_ID sts = map fst xs" "list_all2 (\<lambda>(i, x) st. entry_ok c d i x st) xs sts"
    "compact c d xs ?buf = (placed c (length ?buf) sts, ?buf @ concat (map (enc c) sts))"
    using Cons.IH [of ?buf] Cons.prems by auto
  have x: "x\<lparr>ix_offset := length buf + 4, ix_length := length (jc_marshal c st)\<rparr> = placed_at c (length buf) st"
  proof -
    have "x = (indexFromStream st)\<lparr>ix_offset := ix_offset x, ix_length := ix_length x\<rparr>" using st by (simp add: entry_ok_def)
    then show ?thesis unfolding placed_at_def by (cases x) (simp add: indexFromStream_def)
  qed
  show ?case using st sts x p
    by (intro exI [of _ "st # sts"]) (simp add: entry_ok_def enc_def [of c st] Let_def)
qed simp

lemma AList_update_new: "k \<notin> fst ` set xs \<Longrightarrow> AList.update k v xs = xs @ [(k, v)]"
  by (induction xs) auto

lemma load_placed:
  assumes "json_ok c" "\<forall>st \<in> set sts. length (jc_marshal c st) < 2 ^ 32"
    "distinct (map fst ixs @ map st_ID sts)"
  shows "load_loop c (buf @ concat (map (enc c) sts)) (length buf) ixs = ixs @ placed c (length buf) sts"
  using assms(2,3)
proof (induction sts arbitrary: buf ixs)
  case Nil
  then show ?case by (simp add: load_loop.simps)
next
  case (Cons st sts)
  let ?w = "jc_marshal c st" and ?r = "concat (map (enc c) sts)"
  let ?d = "buf @ concat (map (enc c) (st # sts))"
  let ?ixs = "ixs @ [(st_ID st, placed_at c (length buf) st)]"
  have len: "length (enc c st) = 4 + length ?w" by (simp add: enc_def put_le32_def)
  have n: "get_le32 (take 4 (drop (length buf) ?d)) = length ?w"
    using le32_roundtrip [of "length ?w" "?w @ ?r"] Cons.prems(1) by (simp add: enc_def [of c st])
  have w: "take (length ?w) (drop (length buf + 4) ?d) = ?w" by (simp add: enc_def [of c st] put_le32_def)
  have u: "jc_unmarshal c ?w = Inr st" using assms(1) by (simp add: json_ok_def)
  have new: "AList.update (st_ID st) (placed_at c (length buf) st) ixs = ?ixs"
    using Cons.prems(2) by (intro AList_update_new) auto
  have "load_loop c ?d (length buf) ixs = load_loop c ?d (length buf + 4 + length ?w) ?ixs"
    using n w u new len by (subst load_loop.simps) (simp add: Let_def placed_at_def)
  also have "\<dots> = load_loop c ((buf @ enc c st) @ ?r) (length (buf @ enc c st)) ?ixs" using len by (simp add: add.assoc)
  also have "\<dots> = ?ixs @ placed c (length (buf @ enc c st)) sts"
    using Cons.IH [where buf = "buf @ enc c st" and ixs = ?ixs] Cons.prems by auto
  finally show ?case by simp
qed

lemma placed_ok:
  "json_ok c \<Longrightarrow> \<forall>(i, x) \<in> set (placed c (length buf) sts). \<exists>st. entry_ok c (buf @ concat (map (enc c) sts) @ r) i x st"
proof (induction sts arbitrary: buf)
  case (Cons st sts)
  have "entry_ok c ((buf @ put_le32 (length (jc_marshal c st)) @ jc_marshal c st) @ concat (map (enc c) sts) @ r)
      (st_ID st) (placed_at c (length buf) st) st"
    unfolding placed_at_def by (intro entry_append new_entry Cons.prems)
  then show ?case using Cons.IH [OF Cons.prems, of "buf @ enc c st"] by (simp add: enc_def [of c st]) blast
qed simp

lemma placed_abs:
  assumes "json_ok c" "list_all2 (\<lambda>(i, x) st. entry_ok c d i x st) xs sts"
  shows "list_all2 (\<lambda>(i, x) (j, y). i = j \<and> readStream c d x = readStream c (buf @ concat (map (enc c) sts) @ r) y) xs (placed c (length buf) sts)"
  using assms(2)
proof (induction xs sts arbitrary: buf rule: list_all2_induct)
  case (Cons p xs st sts)
  obtain i x where p: "p = (i, x)" by force
  have "entry_ok c ((buf @ put_le32 (length (jc_marshal c st)) @ jc_marshal c st) @ concat (map (enc c) sts) @ r)
      (st_ID st) (placed_at c (length buf) st) st"
    unfolding placed_at_def by (intro entry_append new_entry assms(1))
  then show ?case using Cons.IH [of "buf @ enc c st"] Cons.hyps p by (simp add: entry_ok_def enc_def [of c st])
qed simp

lemma list_all2_right: "list_all2 P xs ys \<Longrightarrow> y \<in> set ys \<Longrightarrow> \<exists>x \<in> set xs. P x y"
  by (induction xs ys rule: list_all2_induct) auto

lemma map_of_list_all2:
  "list_all2 (\<lambda>(i, x) (j, y). i = j \<and> f x = g y) xs ys \<Longrightarrow> map_option f (map_of xs i) = map_option g (map_of ys i)"
  by (induction xs ys rule: list_all2_induct) auto

text \<open>C3: Saving the indexed store and loading the file again gives back the store: the compacted
  index and data, which hold exactly the streams the store held before, whatever old and deleted
  records the data file had accumulated (records are shorter than \<open>2\<^sup>3\<^sup>2\<close> bytes, the range of the
  length field).\<close>

theorem Indexed_Save_Load:
  assumes "ix_invar s" "\<forall>i st. ix_abs s i = Some st \<longrightarrow> length (jc_marshal (is_json s) st) < 2 ^ 32"
    "Indexed_Save None s file = (r, s', file')" "is_json s0 = is_json s"
  shows "r = None \<and> Indexed_Load file' legacy w s0 = (s'\<lparr>is_rev := is_rev s0\<rparr>, file') \<and> ix_abs s' = ix_abs s \<and> ix_invar s'"
proof -
  let ?c = "is_json s"
  have j: "json_ok ?c" and dk: "distinct (map fst (is_index s))"
    and e: "\<forall>(i, x) \<in> set (is_index s). \<exists>st. entry_ok ?c (is_data s) i x st" using assms(1) by (simp_all add: ix_invar_def)
  obtain sts where sts: "map st_ID sts = map fst (is_index s)" "list_all2 (\<lambda>(i, x) st. entry_ok ?c (is_data s) i x st) (is_index s) sts"
    "compact ?c (is_data s) (is_index s) [] = (placed ?c 0 sts, concat (map (enc ?c) sts))"
    using compact_spec [OF e, of "[]"] by auto
  have s': "s' = s\<lparr>is_index := placed ?c 0 sts, is_data := concat (map (enc ?c) sts)\<rparr>" "r = None" "file' = Some (concat (map (enc ?c) sts))"
    using assms(3) sts(3) by (simp_all add: Indexed_Save_def)
  have "length (jc_marshal ?c st) < 2 ^ 32" if st: "st \<in> set sts" for st
  proof -
    obtain i x where "(i, x) \<in> set (is_index s)" "entry_ok ?c (is_data s) i x st"
      using list_all2_right [OF sts(2) st] by auto
    then have "ix_abs s i = Some st" using dk by (simp add: ix_abs_Some [OF assms(1)])
    then show ?thesis using assms(2) by blast
  qed
  then have "load_loop ?c (concat (map (enc ?c) sts)) 0 [] = placed ?c 0 sts"
    using load_placed [OF j, of sts "[]" "[]"] dk sts(1) by simp
  then have "Indexed_Load file' legacy w s0 = (s'\<lparr>is_rev := is_rev s0\<rparr>, file')"
    using assms(4) by (cases s0; cases s) (simp add: Indexed_Load_def s')
  moreover have "ix_invar s'" using placed_ok [OF j, of "[]" sts "[]"] j dk sts(1) by (simp add: ix_invar_def s')
  moreover have "ix_abs s' = ix_abs s"
  proof
    fix i show "ix_abs s' i = ix_abs s i"
      using map_of_list_all2 [OF placed_abs [OF j sts(2), of "[]" "[]", simplified], of i]
      by (auto simp: ix_abs_def s' split: option.splits)
  qed
  ultimately show ?thesis using s'(2) by simp
qed


section \<open>A codec\<close>

text \<open>There is a codec with the required property: streams are countable, so they can be numbered.\<close>

definition track_fields :: "StreamTrack \<Rightarrow> nat \<times> string \<times> string \<times> string \<times> nat \<times> string" where
  "track_fields t = (unat (tr_PID t), tr_Type t, tr_Category t, tr_Language t, unat (tr_AudioType t), tr_Label t)"

definition stream_fields where
  "stream_fields st =
     ((st_ID st, st_M3UAccountID st, st_SatIPSourceID st, st_HDHRSourceID st, st_Name st, st_URL st, st_Group st, st_Logo st,
       st_TvgID st, st_TvgName st, st_ContentHash st),
      (st_VODType st, st_VODSeries st, st_VODCollection st, st_VODSeason st, st_VODSeasonName st, st_VODEpisode st, st_VODYear st,
       st_VODVCodec st, st_VODACodec st, st_VODRes st, st_VODAudio st),
      (st_VODDuration st, st_TMDBID st, st_TMDBManual st, st_CacheType st, st_CacheKey st, st_Language st, st_UseWireGuard st,
       st_IsActive st, map track_fields (st_Tracks st), st_CreatedAt st, st_UpdatedAt st))"

lemma track_fields_inj: "track_fields a = track_fields b \<Longrightarrow> a = b"
  by (cases a; cases b) (simp add: track_fields_def word_unat_eq_iff)

lemma stream_fields_inj:
  fixes a b :: Stream
  shows "stream_fields a = stream_fields b \<Longrightarrow> a = b"
proof -
  assume e: "stream_fields a = stream_fields b"
  then have "st_Tracks a = st_Tracks b"
    by (simp add: stream_fields_def) (metis (mono_tags, lifting) list.inj_map_strong track_fields_inj)
  then show ?thesis using e by (cases a; cases b) (simp add: stream_fields_def)
qed

definition numbering :: json_codec where
  "numbering = \<lparr>jc_marshal = (\<lambda>st. replicate (Suc (to_nat (stream_fields st))) 0),
     jc_unmarshal = (\<lambda>b. Inr (inv (\<lambda>st. to_nat (stream_fields st)) (length b - 1)))\<rparr>"

lemma numbering_ok: "json_ok numbering"
proof -
  have "inj (\<lambda>st :: Stream. to_nat (stream_fields st))" by (auto intro!: injI dest: stream_fields_inj)
  then have "inv (\<lambda>st :: Stream. to_nat (stream_fields st)) (to_nat (stream_fields st)) = st" for st :: Stream
    by (rule inv_f_f)
  then show ?thesis by (simp add: json_ok_def numbering_def)
qed

definition empty_indexed :: "json_codec \<Rightarrow> IndexedStreamStore" where
  "empty_indexed c = \<lparr>is_index = [], is_data = [], is_rev = 0, is_json = c\<rparr>"

definition empty_plain :: StreamStoreImpl where
  "empty_plain = \<lparr>pm_items = [], pm_rev = 0\<rparr>"

lemma empty_indexed_ok: "json_ok c \<Longrightarrow> ix_invar (empty_indexed c)" "ix_abs (empty_indexed c) = Map.empty"
  by (simp_all add: ix_invar_def empty_indexed_def ix_abs_def fun_eq_iff)

lemma empty_plain_ok: "plain_invar empty_plain" "plain_abs empty_plain = Map.empty"
  by (simp_all add: plain_invar_def empty_plain_def plain_abs_def keyed_def)


text \<open>A codec that writes the given stream in one byte, and the theorem on a store that was written
  twice.\<close>

definition short_codec :: "Stream \<Rightarrow> json_codec" where
  "short_codec st0 = \<lparr>jc_marshal = (\<lambda>st. if st = st0 then [1] else 0 # jc_marshal numbering st),
     jc_unmarshal = (\<lambda>b. if b = [1] then Inr st0 else jc_unmarshal numbering (tl b))\<rparr>"

lemma short_codec_ok: "json_ok (short_codec st0)"
  using numbering_ok by (auto simp: json_ok_def short_codec_def)

definition news_at :: "time \<Rightarrow> Stream" where
  "news_at t = \<lparr>st_ID = ''a'', st_M3UAccountID = ''acc'', st_SatIPSourceID = [], st_HDHRSourceID = [], st_Name = ''One'', st_URL = [],
     st_Group = ''News'', st_Logo = [], st_TvgID = [], st_TvgName = [], st_ContentHash = [], st_VODType = [], st_VODSeries = [],
     st_VODCollection = [], st_VODSeason = 0, st_VODSeasonName = [], st_VODEpisode = 0, st_VODYear = 0, st_VODVCodec = [],
     st_VODACodec = [], st_VODRes = [], st_VODAudio = [], st_VODDuration = 0, st_TMDBID = 0, st_TMDBManual = False,
     st_CacheType = [], st_CacheKey = 0, st_Language = [], st_UseWireGuard = False, st_IsActive = True, st_Tracks = [],
     st_CreatedAt = t, st_UpdatedAt = t\<rparr>"

definition written_twice :: IndexedStreamStore where
  "written_twice = Indexed_BulkUpsert 1 [news_at 0] (Indexed_BulkUpsert 1 [news_at 0] (empty_indexed (short_codec (news_at 1))))"

lemma written_twice_ok: "ix_invar written_twice \<and> ix_abs written_twice = [''a'' \<mapsto> news_at 1]"
proof -
  let ?e = "empty_indexed (short_codec (news_at 1))"
  have e: "ix_invar ?e" "ix_abs ?e = Map.empty" using empty_indexed_ok(1) [OF short_codec_ok] empty_indexed_ok(2) by simp_all
  have ok: "list_all stream_ok [news_at 0]" by (simp add: stream_ok_def news_at_def plain_id_def)
  have m: "merged 1 None (news_at 0) = news_at 1" "merged 1 (Some (news_at 1)) (news_at 0) = news_at 1" "st_ID (news_at 0) = ''a''"
    by (simp_all add: merged_def merge_existing_def keep_tmdb_def keep_cache_def keep_language_def keep_vodtype_def news_at_def)
  show ?thesis
    using ix.upsert_invar [OF ix.upsert_invar [OF e(1) ok] ok] ix.upsert_abs [OF ix.upsert_invar [OF e(1) ok] ok]
      ix.upsert_abs [OF e(1) ok]
    by (simp add: written_twice_def upsert1_def m e(2))
qed

lemma written_codec: "is_json written_twice = short_codec (news_at 1)"
  by (simp add: written_twice_def Indexed_BulkUpsert_def ix_bump_def ix_upsert_def append_put_def appendStream_def empty_indexed_def Let_def)

theorem Indexed_Save_Load_witness:
  "let (r, s', file') = Indexed_Save None written_twice None
   in ix_abs (fst (Indexed_Load file' None None (empty_indexed (short_codec (news_at 1))))) = [''a'' \<mapsto> news_at 1]"
proof -
  let ?s0 = "empty_indexed (short_codec (news_at 1))"
  obtain r s' file' where e: "Indexed_Save None written_twice None = (r, s', file')" by (metis prod_cases3)
  have l: "\<forall>i st. ix_abs written_twice i = Some st \<longrightarrow> length (jc_marshal (is_json written_twice) st) < 2 ^ 32"
    by (simp add: written_twice_ok written_codec) (simp add: short_codec_def)
  have c: "is_json ?s0 = is_json written_twice" by (simp add: written_codec empty_indexed_def)
  note t = Indexed_Save_Load [OF conjunct1 [OF written_twice_ok] l e c, of None None]
  have "ix_abs (s'\<lparr>is_rev := is_rev ?s0\<rparr>) = ix_abs s'" by (simp add: ix_abs_def fun_eq_iff cong: option.case_cong)
  then show ?thesis using t by (simp add: e written_twice_ok)
qed

end
