(* ===== verification/BoltStreams.thy ===== *)
theory BoltStreams
  imports Bytes StreamStore IndexedStreams "HOL-Library.List_Lexorder" "HOL-Library.Char_ord"
begin

text \<open>
  The stream store the server runs on (\<open>pkg/store/stream_bolt.go\<close>): a bbolt database with one bucket
  of JSON records and secondary indexes by source, type, group and name, kept in step by every
  operation. The buckets are a parameter (\<open>bucket_ops\<close>); what is used of them is \<open>bucket_ok\<close>: a bucket
  is a map whose cursor visits the keys in byte order. A transaction that fails to commit leaves
  the buckets as they were.
\<close>

section \<open>Buckets\<close>

record 'b bucket_ops =
  bo_get :: "'b \<Rightarrow> string \<Rightarrow> byte list option"
  bo_put :: "'b \<Rightarrow> string \<Rightarrow> byte list \<Rightarrow> 'b"
  bo_delete :: "'b \<Rightarrow> string \<Rightarrow> 'b"
  bo_keys :: "'b \<Rightarrow> string list"
  bo_empty :: 'b

definition key_fits :: "string \<Rightarrow> bool" where
  "key_fits k \<longleftrightarrow> k \<noteq> [] \<and> length k \<le> 32768"

definition bucket_ok :: "'b bucket_ops \<Rightarrow> bool" where
  "bucket_ok ops \<longleftrightarrow> (\<forall>k. bo_get ops (bo_empty ops) k = None)
     \<and> (\<forall>b k v. key_fits k \<longrightarrow> bo_get ops (bo_put ops b k v) = (bo_get ops b)(k \<mapsto> v))
     \<and> (\<forall>b k. bo_get ops (bo_delete ops b k) = (bo_get ops b)(k := None))
     \<and> (\<forall>b. sorted_wrt (<) (bo_keys ops b) \<and> set (bo_keys ops b) = dom (bo_get ops b))"

text \<open>A cursor loop from \<open>Seek(pfx)\<close> while the keys have the prefix.\<close>

definition cursor_scan :: "'b bucket_ops \<Rightarrow> 'b \<Rightarrow> string \<Rightarrow> string list" where
  "cursor_scan ops b pfx = takeWhile (\<lambda>k. HasPrefix k pfx) (dropWhile (\<lambda>k. k < pfx) (bo_keys ops b))"

definition suffixAfterSlash :: "string \<Rightarrow> string" where
  "suffixAfterSlash k = rev (takeWhile (\<lambda>c. c \<noteq> CHR ''/'') (rev k))"

definition prefixBeforeSlash :: "string \<Rightarrow> string" where
  "prefixBeforeSlash k = takeWhile (\<lambda>c. c \<noteq> CHR ''/'') k"

section \<open>The store\<close>

record 'b BoltStreamStore =
  bs_stream :: 'b
  bs_account :: 'b
  bs_satip :: 'b
  bs_hdhr :: 'b
  bs_vod :: 'b
  bs_group :: 'b
  bs_name :: 'b
  bs_tree :: 'b
  bs_meta :: 'b
  bs_rev :: u64
  bs_ops :: "'b bucket_ops"
  bs_json :: json_codec

definition decode :: "'b BoltStreamStore \<Rightarrow> ident \<Rightarrow> Stream option" where
  "decode s i = (case bo_get (bs_ops s) (bs_stream s) i of None \<Rightarrow> None
     | Some v \<Rightarrow> (case jc_unmarshal (bs_json s) v of Inl e \<Rightarrow> None | Inr st \<Rightarrow> Some st))"

text \<open>The outcome of committing a transaction; the in-memory revision is not rolled back.\<close>

definition commit :: "error option \<Rightarrow> 'b BoltStreamStore \<Rightarrow> 'b BoltStreamStore \<Rightarrow> error option \<times> 'b BoltStreamStore" where
  "commit e s s' = (case e of None \<Rightarrow> (None, s') | Some x \<Rightarrow> (Some x, s\<lparr>bs_rev := bs_rev s'\<rparr>))"

definition revision_key :: string where "revision_key = ''revision''"
definition stream_count_key :: string where "stream_count_key = ''stream_count''"

definition bumpRevision :: "'b BoltStreamStore \<Rightarrow> 'b BoltStreamStore" where
  "bumpRevision s = (let r = bs_rev s + 1
     in s\<lparr>bs_rev := r, bs_meta := bo_put (bs_ops s) (bs_meta s) revision_key (put_be 8 (unat r))\<rparr>)"

definition read_u64 :: "'b BoltStreamStore \<Rightarrow> string \<Rightarrow> nat" where
  "read_u64 s k = (case bo_get (bs_ops s) (bs_meta s) k of None \<Rightarrow> 0 | Some v \<Rightarrow> if length v = 8 then get_be v else 0)"

definition loadRevision :: "'b BoltStreamStore \<Rightarrow> 'b BoltStreamStore" where
  "loadRevision s = (case bo_get (bs_ops s) (bs_meta s) revision_key of
     Some v \<Rightarrow> if length v = 8 then s\<lparr>bs_rev := of_nat (get_be v)\<rparr> else s | None \<Rightarrow> s)"

definition setStreamCount :: "nat \<Rightarrow> 'b BoltStreamStore \<Rightarrow> 'b BoltStreamStore" where
  "setStreamCount n s = s\<lparr>bs_meta := bo_put (bs_ops s) (bs_meta s) stream_count_key (put_be 8 n)\<rparr>"

definition updateStreamCount :: "int \<Rightarrow> 'b BoltStreamStore \<Rightarrow> 'b BoltStreamStore" where
  "updateStreamCount delta s = (let count = read_u64 s stream_count_key
     in setStreamCount (if delta < 0 \<and> nat (- delta) > count then 0 else nat ((int count + delta) mod 2 ^ 64)) s)"

section \<open>Index entries\<close>

definition sourceKey :: "Stream \<Rightarrow> string" where
  "sourceKey st = (if st_SatIPSourceID st \<noteq> [] then ''satip:'' @ st_SatIPSourceID st
     else if st_HDHRSourceID st \<noteq> [] then ''hdhr:'' @ st_HDHRSourceID st else ''m3u:'' @ st_M3UAccountID st)"

text \<open>The key of a stream in each index, \<open>None\<close> where the code makes no entry.\<close>

definition slash_key :: "(Stream \<Rightarrow> string) \<Rightarrow> Stream \<Rightarrow> string option" where
  "slash_key f st = (if f st \<noteq> [] then Some (f st @ CHR ''/'' # st_ID st) else None)"

definition group_key :: "Stream \<Rightarrow> string option" where
  "group_key st = (if st_Group st \<noteq> [] then Some (sourceKey st @ CHR ''/'' # st_Group st @ CHR ''/'' # st_ID st) else None)"

definition name_key :: "Stream \<Rightarrow> string option" where
  "name_key st = Some (ToLower (st_Name st) @ CHR 0x00 # st_ID st)"

definition tree_key :: "Stream \<Rightarrow> string" where
  "tree_key st = sourceKey st @ CHR ''/'' # st_Group st"

definition add_key :: "'b bucket_ops \<Rightarrow> string option \<Rightarrow> 'b \<Rightarrow> 'b" where
  "add_key ops k b = (case k of None \<Rightarrow> b | Some x \<Rightarrow> bo_put ops b x [])"

definition remove_key :: "'b bucket_ops \<Rightarrow> string option \<Rightarrow> 'b \<Rightarrow> 'b" where
  "remove_key ops k b = (case k of None \<Rightarrow> b | Some x \<Rightarrow> bo_delete ops b x)"

definition incrementTreeCount :: "'b bucket_ops \<Rightarrow> string \<Rightarrow> 'b \<Rightarrow> 'b" where
  "incrementTreeCount ops k b =
     (let count = (case bo_get ops b k of None \<Rightarrow> 0 | Some v \<Rightarrow> if length v = 4 then get_be v else 0)
      in bo_put ops b k (put_be 4 ((count + 1) mod 2 ^ 32)))"

definition decrementTreeCount :: "'b bucket_ops \<Rightarrow> string \<Rightarrow> 'b \<Rightarrow> 'b" where
  "decrementTreeCount ops k b = (case bo_get ops b k of None \<Rightarrow> b
     | Some v \<Rightarrow> if length v = 4 then
         (if get_be v \<le> 1 then bo_delete ops b k else bo_put ops b k (put_be 4 (get_be v - 1))) else b)"

definition addIndexEntries :: "Stream \<Rightarrow> 'b BoltStreamStore \<Rightarrow> 'b BoltStreamStore" where
  "addIndexEntries st s = (let ops = bs_ops s in s\<lparr>
     bs_account := add_key ops (slash_key st_M3UAccountID st) (bs_account s),
     bs_satip := add_key ops (slash_key st_SatIPSourceID st) (bs_satip s),
     bs_hdhr := add_key ops (slash_key st_HDHRSourceID st) (bs_hdhr s),
     bs_vod := add_key ops (slash_key st_VODType st) (bs_vod s),
     bs_group := add_key ops (group_key st) (bs_group s),
     bs_name := add_key ops (name_key st) (bs_name s),
     bs_tree := (if st_Group st \<noteq> [] then incrementTreeCount ops (tree_key st) (bs_tree s) else bs_tree s)\<rparr>)"

definition removeIndexEntries :: "Stream \<Rightarrow> 'b BoltStreamStore \<Rightarrow> 'b BoltStreamStore" where
  "removeIndexEntries st s = (let ops = bs_ops s in s\<lparr>
     bs_account := remove_key ops (slash_key st_M3UAccountID st) (bs_account s),
     bs_satip := remove_key ops (slash_key st_SatIPSourceID st) (bs_satip s),
     bs_hdhr := remove_key ops (slash_key st_HDHRSourceID st) (bs_hdhr s),
     bs_vod := remove_key ops (slash_key st_VODType st) (bs_vod s),
     bs_group := remove_key ops (group_key st) (bs_group s),
     bs_name := remove_key ops (name_key st) (bs_name s),
     bs_tree := (if st_Group st \<noteq> [] then decrementTreeCount ops (tree_key st) (bs_tree s) else bs_tree s)\<rparr>)"

definition put_main :: "ident \<Rightarrow> Stream \<Rightarrow> 'b BoltStreamStore \<Rightarrow> 'b BoltStreamStore" where
  "put_main i st s = s\<lparr>bs_stream := bo_put (bs_ops s) (bs_stream s) i (jc_marshal (bs_json s) st)\<rparr>"

definition delete_main :: "ident \<Rightarrow> 'b BoltStreamStore \<Rightarrow> 'b BoltStreamStore" where
  "delete_main i s = s\<lparr>bs_stream := bo_delete (bs_ops s) (bs_stream s) i\<rparr>"

section \<open>Reading\<close>

definition Bolt_GetByID :: "ident \<Rightarrow> 'b BoltStreamStore \<Rightarrow> error + Stream" where
  "Bolt_GetByID i s = (case bo_get (bs_ops s) (bs_stream s) i of None \<Rightarrow> Inl (stream_missing i)
     | Some v \<Rightarrow> jc_unmarshal (bs_json s) v)"

definition decode_all :: "'b BoltStreamStore \<Rightarrow> ident list \<Rightarrow> Stream list" where
  "decode_all s xs = List.map_filter (decode s) xs"

definition Bolt_List :: "'b BoltStreamStore \<Rightarrow> Stream list" where
  "Bolt_List s = decode_all s (bo_keys (bs_ops s) (bs_stream s))"

definition streamToSummary :: "Stream \<Rightarrow> StreamSummary" where
  "streamToSummary st = \<lparr>sm_ID = st_ID st, sm_M3UAccountID = st_M3UAccountID st, sm_SatIPSourceID = st_SatIPSourceID st,
     sm_HDHRSourceID = st_HDHRSourceID st, sm_Name = st_Name st, sm_Group = st_Group st, sm_Logo = st_Logo st,
     sm_VODType = st_VODType st, sm_VODSeries = st_VODSeries st, sm_VODSeason = st_VODSeason st,
     sm_VODSeasonName = st_VODSeasonName st, sm_VODEpisode = st_VODEpisode st, sm_VODYear = st_VODYear st,
     sm_TMDBID = st_TMDBID st\<rparr>"

definition Bolt_ListSummaries :: "'b BoltStreamStore \<Rightarrow> StreamSummary list" where
  "Bolt_ListSummaries s = map streamToSummary (decode_all s (bo_keys (bs_ops s) (bs_stream s)))"

definition listByIndex :: "'b \<Rightarrow> string \<Rightarrow> 'b BoltStreamStore \<Rightarrow> Stream list" where
  "listByIndex b pfx s = decode_all s (map suffixAfterSlash (cursor_scan (bs_ops s) b pfx))"

definition Bolt_ListByAccountID :: "ident \<Rightarrow> 'b BoltStreamStore \<Rightarrow> Stream list" where
  "Bolt_ListByAccountID a s = listByIndex (bs_account s) (a @ ''/'') s"

definition Bolt_ListBySatIPSourceID :: "ident \<Rightarrow> 'b BoltStreamStore \<Rightarrow> Stream list" where
  "Bolt_ListBySatIPSourceID a s = listByIndex (bs_satip s) (a @ ''/'') s"

definition Bolt_ListByHDHRSourceID :: "ident \<Rightarrow> 'b BoltStreamStore \<Rightarrow> Stream list" where
  "Bolt_ListByHDHRSourceID a s = listByIndex (bs_hdhr s) (a @ ''/'') s"

definition Bolt_ListByVODType :: "string \<Rightarrow> 'b BoltStreamStore \<Rightarrow> Stream list" where
  "Bolt_ListByVODType ty s = listByIndex (bs_vod s) (ty @ ''/'') s"

definition Bolt_ListGroups :: "string \<Rightarrow> 'b BoltStreamStore \<Rightarrow> (string \<times> nat) list" where
  "Bolt_ListGroups sk s = map (\<lambda>k. (drop (length sk + 1) k,
       case bo_get (bs_ops s) (bs_tree s) k of None \<Rightarrow> 0 | Some v \<Rightarrow> if length v = 4 then get_be v else 0))
     (cursor_scan (bs_ops s) (bs_tree s) (sk @ ''/''))"

text \<open>A page of a group: the keys before \<open>offset\<close> are skipped, and at most \<open>limit\<close> streams are taken if
  \<open>limit\<close> is positive; every key counts for the total.\<close>

fun group_page :: "'b BoltStreamStore \<Rightarrow> nat \<Rightarrow> nat \<Rightarrow> int \<Rightarrow> string list \<Rightarrow> StreamSummary list \<Rightarrow> StreamSummary list" where
  "group_page s i offset limit [] acc = acc"
| "group_page s i offset limit (k # ks) acc =
     (if i < offset then group_page s (i + 1) offset limit ks acc
      else if limit > 0 \<and> int (length acc) \<ge> limit then group_page s (i + 1) offset limit ks acc
      else group_page s (i + 1) offset limit ks
        (case decode s (suffixAfterSlash k) of None \<Rightarrow> acc | Some st \<Rightarrow> acc @ [streamToSummary st]))"

definition Bolt_ListByGroup :: "string \<Rightarrow> string \<Rightarrow> nat \<Rightarrow> int \<Rightarrow> 'b BoltStreamStore \<Rightarrow> StreamSummary list \<times> nat" where
  "Bolt_ListByGroup sk g offset limit s =
     (let ks = cursor_scan (bs_ops s) (bs_group s) (sk @ CHR ''/'' # g @ ''/'')
      in (group_page s 0 offset limit ks [], length ks))"

text \<open>The part of a name key after the first NUL, \<open>None\<close> without one.\<close>

definition after_nul :: "string \<Rightarrow> string option" where
  "after_nul k = (case dropWhile (\<lambda>c. c \<noteq> CHR 0x00) k of [] \<Rightarrow> None | _ # r \<Rightarrow> Some r)"

fun search_loop :: "'b BoltStreamStore \<Rightarrow> string \<Rightarrow> int \<Rightarrow> string list \<Rightarrow> StreamSummary list \<Rightarrow> StreamSummary list" where
  "search_loop s q limit [] acc = acc"
| "search_loop s q limit (k # ks) acc =
     (if \<not> str_contains k q then search_loop s q limit ks acc
      else case after_nul k of None \<Rightarrow> search_loop s q limit ks acc
        | Some i \<Rightarrow> (let acc' = (case decode s i of None \<Rightarrow> acc | Some st \<Rightarrow> acc @ [streamToSummary st])
            in if int (length acc') \<ge> limit then acc' else search_loop s q limit ks acc'))"

definition Bolt_SearchByName :: "string \<Rightarrow> int \<Rightarrow> 'b BoltStreamStore \<Rightarrow> StreamSummary list" where
  "Bolt_SearchByName query limit s = search_loop s (ToLower query) limit (bo_keys (bs_ops s) (bs_name s)) []"

definition Bolt_StreamCount :: "'b BoltStreamStore \<Rightarrow> nat" where
  "Bolt_StreamCount s = length (bo_keys (bs_ops s) (bs_stream s))"

text \<open>\<open>Stats\<close> counts the runs of keys with the same part before the slash.\<close>

fun prefix_counts :: "string \<Rightarrow> string list \<Rightarrow> string \<Rightarrow> nat \<Rightarrow> (string \<Rightarrow> nat option) \<Rightarrow> (string \<Rightarrow> nat option)" where
  "prefix_counts pre [] lastp n m = (if lastp \<noteq> [] then m(pre @ lastp \<mapsto> n) else m)"
| "prefix_counts pre (k # ks) lastp n m =
     (let p = prefixBeforeSlash k
      in if p \<noteq> lastp then prefix_counts pre ks p 1 (if lastp \<noteq> [] then m(pre @ lastp \<mapsto> n) else m)
         else prefix_counts pre ks lastp (n + 1) m)"

record StreamStats =
  ss_Total :: nat
  ss_BySource :: "string \<Rightarrow> nat option"
  ss_ByVODType :: "string \<Rightarrow> nat option"

definition Bolt_Stats :: "'b BoltStreamStore \<Rightarrow> StreamStats" where
  "Bolt_Stats s = (let keys = bo_keys (bs_ops s);
       m1 = prefix_counts [] (keys (bs_account s)) [] 0 Map.empty;
       m2 = prefix_counts ''satip:'' (keys (bs_satip s)) [] 0 m1
     in \<lparr>ss_Total = length (keys (bs_stream s)), ss_BySource = prefix_counts ''hdhr:'' (keys (bs_hdhr s)) [] 0 m2,
         ss_ByVODType = prefix_counts [] (keys (bs_vod s)) [] 0 Map.empty\<rparr>)"


section \<open>Changing\<close>

text \<open>\<open>json.Marshal\<close> returns no bytes exactly when it fails, which it does for a \<open>float64\<close> that is not
  finite; the code then goes on to the next stream, with the old entries removed.\<close>

definition marshal_error :: error where "marshal_error = ''json: unsupported value: +Inf''"

definition bolt_upsert_one :: "time \<Rightarrow> Stream \<Rightarrow> 'b BoltStreamStore \<times> nat \<Rightarrow> 'b BoltStreamStore \<times> nat" where
  "bolt_upsert_one now st = (\<lambda>(s, added).
     let (s1, st1, added1) = (case bo_get (bs_ops s) (bs_stream s) (st_ID st) of
           None \<Rightarrow> (s, st\<lparr>st_CreatedAt := now\<rparr>, added + 1)
         | Some v \<Rightarrow> (case jc_unmarshal (bs_json s) v of Inl e \<Rightarrow> (s, st, added)
             | Inr old \<Rightarrow> (removeIndexEntries old s, merge_existing old st, added)));
         st2 = st1\<lparr>st_UpdatedAt := now\<rparr>
     in if jc_marshal (bs_json s) st2 = [] then (s1, added1)
        else (addIndexEntries st2 (put_main (st_ID st) st2 s1), added1))"

definition bulkUpsertBatch :: "time \<Rightarrow> Stream list \<Rightarrow> 'b BoltStreamStore \<Rightarrow> 'b BoltStreamStore" where
  "bulkUpsertBatch now sts s = (let (s1, added) = fold (bolt_upsert_one now) sts (s, 0)
     in bumpRevision (if added > 0 then updateStreamCount (int added) s1 else s1))"

text \<open>Batches of 5000 streams, one transaction each; the first that fails ends the loop.\<close>

function bolt_batches :: "(nat \<Rightarrow> error option) \<Rightarrow> nat \<Rightarrow> time \<Rightarrow> Stream list \<Rightarrow> 'b BoltStreamStore \<Rightarrow> error option \<times> 'b BoltStreamStore" where
  "bolt_batches tx n now sts s = (if sts = [] then (None, s)
     else case commit (tx n) s (bulkUpsertBatch now (take 5000 sts) s) of
         (Some e, s') \<Rightarrow> (Some e, s')
       | (None, s') \<Rightarrow> bolt_batches tx (n + 1) now (drop 5000 sts) s')"
  by pat_completeness auto
termination by (relation "measure (\<lambda>(tx, n, now, sts, s). length sts)") auto

definition Bolt_BulkUpsert :: "(nat \<Rightarrow> error option) \<Rightarrow> time \<Rightarrow> Stream list \<Rightarrow> 'b BoltStreamStore \<Rightarrow> error option \<times> 'b BoltStreamStore" where
  "Bolt_BulkUpsert tx now sts s = bolt_batches tx 0 now sts s"

text \<open>Deleting the streams behind a list of index keys, and the identifiers deleted.\<close>

definition bolt_drop :: "ident \<Rightarrow> ident list \<times> 'b BoltStreamStore \<Rightarrow> ident list \<times> 'b BoltStreamStore" where
  "bolt_drop i = (\<lambda>(del, s). case decode s i of None \<Rightarrow> (del, s)
     | Some st \<Rightarrow> (del @ [i], delete_main i (removeIndexEntries st s)))"

definition bolt_drop_keys :: "string list \<Rightarrow> 'b BoltStreamStore \<Rightarrow> ident list \<times> 'b BoltStreamStore" where
  "bolt_drop_keys ks s = fold bolt_drop (map suffixAfterSlash ks) ([], s)"

text \<open>The error of a deletion's transaction is dropped by the code, the identifiers are returned all
  the same.\<close>

definition deleteByIndex :: "error option \<Rightarrow> 'b \<Rightarrow> string \<Rightarrow> 'b BoltStreamStore \<Rightarrow> ident list \<times> 'b BoltStreamStore" where
  "deleteByIndex tx b pfx s = (let (del, s1) = bolt_drop_keys (cursor_scan (bs_ops s) b pfx) s
     in (del, snd (commit tx s (if del \<noteq> [] then bumpRevision s1 else s1))))"

definition deleted_counted :: "error option \<Rightarrow> string list \<Rightarrow> 'b BoltStreamStore \<Rightarrow> ident list \<times> 'b BoltStreamStore" where
  "deleted_counted tx ks s = (let (del, s1) = bolt_drop_keys ks s
     in (del, snd (commit tx s (if del \<noteq> [] then bumpRevision (updateStreamCount (- int (length del)) s1) else s1))))"

definition deleteStaleByIndex :: "error option \<Rightarrow> 'b \<Rightarrow> string \<Rightarrow> ident list \<Rightarrow> 'b BoltStreamStore \<Rightarrow> ident list \<times> 'b BoltStreamStore" where
  "deleteStaleByIndex tx b pfx keep s =
     deleted_counted tx (filter (\<lambda>k. suffixAfterSlash k \<notin> set keep) (cursor_scan (bs_ops s) b pfx)) s"

definition deleteOrphanedByIndex :: "error option \<Rightarrow> 'b \<Rightarrow> ident list \<Rightarrow> 'b BoltStreamStore \<Rightarrow> ident list \<times> 'b BoltStreamStore" where
  "deleteOrphanedByIndex tx b known s =
     deleted_counted tx (filter (\<lambda>k. prefixBeforeSlash k \<notin> set known) (bo_keys (bs_ops s) b)) s"

definition Bolt_DeleteByAccountID where
  "Bolt_DeleteByAccountID tx a s = snd (deleteByIndex tx (bs_account s) (a @ ''/'') s)"

definition Bolt_DeleteBySatIPSourceID where
  "Bolt_DeleteBySatIPSourceID tx a s = snd (deleteByIndex tx (bs_satip s) (a @ ''/'') s)"

definition Bolt_DeleteByHDHRSourceID where
  "Bolt_DeleteByHDHRSourceID tx a s = snd (deleteByIndex tx (bs_hdhr s) (a @ ''/'') s)"

definition Bolt_DeleteStaleByAccountID where
  "Bolt_DeleteStaleByAccountID tx a keep s = deleteStaleByIndex tx (bs_account s) (a @ ''/'') keep s"

definition Bolt_DeleteStaleBySatIPSourceID where
  "Bolt_DeleteStaleBySatIPSourceID tx a keep s = deleteStaleByIndex tx (bs_satip s) (a @ ''/'') keep s"

definition Bolt_DeleteStaleByHDHRSourceID where
  "Bolt_DeleteStaleByHDHRSourceID tx a keep s = deleteStaleByIndex tx (bs_hdhr s) (a @ ''/'') keep s"

definition Bolt_DeleteOrphanedM3UStreams where
  "Bolt_DeleteOrphanedM3UStreams tx known s = deleteOrphanedByIndex tx (bs_account s) known s"

definition Bolt_DeleteOrphanedSatIPStreams where
  "Bolt_DeleteOrphanedSatIPStreams tx known s = deleteOrphanedByIndex tx (bs_satip s) known s"

definition Bolt_DeleteOrphanedHDHRStreams where
  "Bolt_DeleteOrphanedHDHRStreams tx known s = deleteOrphanedByIndex tx (bs_hdhr s) known s"

definition Bolt_Delete :: "error option \<Rightarrow> ident \<Rightarrow> 'b BoltStreamStore \<Rightarrow> error option \<times> 'b BoltStreamStore" where
  "Bolt_Delete tx i s = (case bo_get (bs_ops s) (bs_stream s) i of None \<Rightarrow> commit tx s s
     | Some v \<Rightarrow> (let s1 = (case decode s i of None \<Rightarrow> s | Some st \<Rightarrow> removeIndexEntries st s)
         in commit tx s (bumpRevision (updateStreamCount (- 1) (delete_main i s1)))))"

definition bolt_updateStreamField :: "error option \<Rightarrow> time \<Rightarrow> ident \<Rightarrow> (Stream \<Rightarrow> Stream) \<Rightarrow> 'b BoltStreamStore \<Rightarrow> error option \<times> 'b BoltStreamStore" where
  "bolt_updateStreamField tx now i f s = (case bo_get (bs_ops s) (bs_stream s) i of None \<Rightarrow> (Some (stream_missing i), s)
     | Some v \<Rightarrow> (case jc_unmarshal (bs_json s) v of Inl e \<Rightarrow> (Some e, s)
       | Inr st \<Rightarrow>
           if jc_marshal (bs_json s) ((f st)\<lparr>st_UpdatedAt := now\<rparr>) = [] then (Some marshal_error, s)
           else commit tx s (bumpRevision (put_main i ((f st)\<lparr>st_UpdatedAt := now\<rparr>) s))))"

definition Bolt_UpdateTMDBID where
  "Bolt_UpdateTMDBID tx now i t = bolt_updateStreamField tx now i (\<lambda>st. st\<lparr>st_TMDBID := t\<rparr>)"

definition Bolt_SetTMDBManual where
  "Bolt_SetTMDBManual tx now i t = bolt_updateStreamField tx now i (\<lambda>st. st\<lparr>st_TMDBID := t, st_TMDBManual := True\<rparr>)"

definition Bolt_UpdateStreamProbeData where
  "Bolt_UpdateStreamProbeData tx now i d vc ac = bolt_updateStreamField tx now i (put_probe d vc ac)"

text \<open>Changing the streams of an account that satisfy a condition.\<close>

definition change_stream :: "time \<Rightarrow> (Stream \<Rightarrow> bool) \<Rightarrow> (Stream \<Rightarrow> Stream) \<Rightarrow> ident \<Rightarrow> 'b BoltStreamStore \<Rightarrow> 'b BoltStreamStore" where
  "change_stream now p f i s = (case decode s i of None \<Rightarrow> s
     | Some st \<Rightarrow> if p st \<and> jc_marshal (bs_json s) ((f st)\<lparr>st_UpdatedAt := now\<rparr>) \<noteq> []
         then put_main i ((f st)\<lparr>st_UpdatedAt := now\<rparr>) s else s)"

definition change_account :: "time \<Rightarrow> ident \<Rightarrow> (Stream \<Rightarrow> bool) \<Rightarrow> (Stream \<Rightarrow> Stream) \<Rightarrow> 'b BoltStreamStore \<Rightarrow> 'b BoltStreamStore" where
  "change_account now a p f s =
     fold (change_stream now p f) (map suffixAfterSlash (cursor_scan (bs_ops s) (bs_account s) (a @ ''/''))) s"

definition Bolt_ClearAutoTMDBByAccountID where
  "Bolt_ClearAutoTMDBByAccountID tx now a s = commit tx s (bumpRevision
     (change_account now a (\<lambda>st. st_TMDBID st > 0 \<and> \<not> st_TMDBManual st) (\<lambda>st. st\<lparr>st_TMDBID := 0\<rparr>) s))"

definition Bolt_UpdateWireGuardByAccountID where
  "Bolt_UpdateWireGuardByAccountID tx now a b s = commit tx s
     (change_account now a (\<lambda>st. True) (\<lambda>st. st\<lparr>st_UseWireGuard := b\<rparr>) s)"

definition Bolt_Clear :: "error option \<Rightarrow> 'b BoltStreamStore \<Rightarrow> error option \<times> 'b BoltStreamStore" where
  "Bolt_Clear tx s = (let e = bo_empty (bs_ops s) in commit tx s (bumpRevision (s\<lparr>bs_stream := e, bs_account := e,
     bs_satip := e, bs_hdhr := e, bs_vod := e, bs_group := e, bs_name := e, bs_tree := e\<rparr>)))"

text \<open>\<open>rebuildIndexes\<close> reads the records and then runs one transaction per bucket to empty it, one per
  batch of 5000 streams to add their entries and one for the count; the error of each is dropped
  and the next one runs. \<open>tx\<close> gives their outcomes in that order. \<open>Load\<close> rebuilds when streams are
  counted but the tree is empty.\<close>

definition attempt :: "error option \<Rightarrow> ('b BoltStreamStore \<Rightarrow> 'b BoltStreamStore) \<Rightarrow> 'b BoltStreamStore \<Rightarrow> 'b BoltStreamStore" where
  "attempt e f s = snd (commit e s (f s))"

definition clear_indexes :: "(nat \<Rightarrow> error option) \<Rightarrow> 'b BoltStreamStore \<Rightarrow> 'b BoltStreamStore" where
  "clear_indexes tx s =
     (let e = bo_empty (bs_ops s);
          s = attempt (tx 0) (\<lambda>s. s\<lparr>bs_account := e\<rparr>) s;
          s = attempt (tx 1) (\<lambda>s. s\<lparr>bs_satip := e\<rparr>) s;
          s = attempt (tx 2) (\<lambda>s. s\<lparr>bs_hdhr := e\<rparr>) s;
          s = attempt (tx 3) (\<lambda>s. s\<lparr>bs_vod := e\<rparr>) s;
          s = attempt (tx 4) (\<lambda>s. s\<lparr>bs_group := e\<rparr>) s;
          s = attempt (tx 5) (\<lambda>s. s\<lparr>bs_name := e\<rparr>) s
      in attempt (tx 6) (\<lambda>s. s\<lparr>bs_tree := e\<rparr>) s)"

function index_batches :: "(nat \<Rightarrow> error option) \<Rightarrow> nat \<Rightarrow> Stream list \<Rightarrow> 'b BoltStreamStore \<Rightarrow> nat \<times> 'b BoltStreamStore" where
  "index_batches tx n sts s = (if sts = [] then (n, s)
     else index_batches tx (n + 1) (drop 5000 sts) (attempt (tx n) (fold addIndexEntries (take 5000 sts)) s))"
  by pat_completeness auto
termination by (relation "measure (\<lambda>(tx, n, sts, s). length sts)") auto

definition rebuildIndexes :: "(nat \<Rightarrow> error option) \<Rightarrow> 'b BoltStreamStore \<Rightarrow> 'b BoltStreamStore" where
  "rebuildIndexes tx s =
     (let sts = Bolt_List s; (n, s1) = index_batches tx 7 sts (clear_indexes tx s)
      in attempt (tx n) (setStreamCount (length sts)) s1)"

definition Bolt_Load :: "(nat \<Rightarrow> error option) \<Rightarrow> 'b BoltStreamStore \<Rightarrow> 'b BoltStreamStore" where
  "Bolt_Load tx s = (let s1 = loadRevision s
     in if read_u64 s1 stream_count_key > 0 \<and> bo_keys (bs_ops s1) (bs_tree s1) = [] then rebuildIndexes tx s1 else s1)"

section \<open>Facts about keys and numbers\<close>

lemma suffix_slash [simp]: "CHR ''/'' \<notin> set i \<Longrightarrow> suffixAfterSlash (a @ CHR ''/'' # i) = i"
  by (simp add: suffixAfterSlash_def, subst takeWhile_append2) auto

lemma prefix_slash [simp]: "CHR ''/'' \<notin> set a \<Longrightarrow> prefixBeforeSlash (a @ CHR ''/'' # i) = a"
  by (simp add: prefixBeforeSlash_def, subst takeWhile_append2) auto

lemma slash_split:
  "CHR ''/'' \<notin> set i \<Longrightarrow> CHR ''/'' \<notin> set j \<Longrightarrow> a @ CHR ''/'' # i = b @ CHR ''/'' # j \<longleftrightarrow> a = b \<and> i = j"
  using suffix_slash [of i a] suffix_slash [of j b] by (metis append_same_eq)

lemma prefix_slash_iff:
  assumes "CHR ''/'' \<notin> set a" "CHR ''/'' \<notin> set b" "CHR ''/'' \<notin> set i"
  shows "HasPrefix (b @ CHR ''/'' # i) (a @ ''/'') \<longleftrightarrow> b = a"
proof
  assume "HasPrefix (b @ CHR ''/'' # i) (a @ ''/'')"
  then obtain r where "b @ CHR ''/'' # i = a @ CHR ''/'' # r" by (auto simp: HasPrefix_def prefix_def)
  then have "prefixBeforeSlash (b @ CHR ''/'' # i) = prefixBeforeSlash (a @ CHR ''/'' # r)" by simp
  then show "b = a" using assms by simp
qed (auto simp: HasPrefix_def prefix_def)

text \<open>In a sorted list the keys with a prefix are contiguous and start at the first key that is not
  less than the prefix.\<close>

lemma less_string_Cons: "((x :: char) # xs < y # ys) = (x < y \<or> x = y \<and> xs < ys)"
  by (auto simp: list_less_def)

lemma prefix_not_less: "prefix p k \<Longrightarrow> \<not> k < (p :: string)"
proof (induction p arbitrary: k)
  case Nil then show ?case by (simp add: list_less_def)
next
  case (Cons c p)
  then obtain k' where "k = c # k'" "prefix p k'" by (cases k) auto
  then show ?case using Cons.IH by (simp add: less_string_Cons)
qed

lemma prefix_between: "\<not> k < (p :: string) \<Longrightarrow> k < k' \<Longrightarrow> prefix p k' \<Longrightarrow> prefix p k"
proof (induction p arbitrary: k k')
  case (Cons c p)
  then obtain r' where k': "k' = c # r'" "prefix p r'" by (cases k') auto
  show ?case
  proof (cases k)
    case Nil then show ?thesis using Cons.prems(1) by (simp add: list_less_def)
  next
    case (Cons d r)
    then show ?thesis using Cons.prems Cons.IH [of r r'] k' by (auto simp: less_string_Cons)
  qed
qed simp

lemma scan_filter:
  assumes "sorted_wrt (<) ks"
  shows "takeWhile (\<lambda>k. prefix p k) (dropWhile (\<lambda>k. k < p) ks) = filter (\<lambda>k. prefix p k) (ks :: string list)"
  using assms
proof (induction ks)
  case (Cons k ks)
  show ?case
  proof (cases "k < p")
    case True then show ?thesis using Cons prefix_not_less [of p k] by auto
  next
    case False
    show ?thesis
    proof (cases "prefix p k")
      case True
      have "takeWhile (\<lambda>k. prefix p k) ks = filter (\<lambda>k. prefix p k) ks"
      proof -
        have "\<forall>x \<in> set ks. \<not> x < p" using Cons.prems True prefix_not_less by (auto dest: less_trans)
        then have "dropWhile (\<lambda>k. k < p) ks = ks" by (cases ks) auto
        then show ?thesis using Cons by simp
      qed
      then show ?thesis using True False by simp
    next
      case np: False
      then have "\<forall>x \<in> set ks. \<not> prefix p x" using Cons.prems False prefix_between by auto
      then show ?thesis using False np by (simp add: filter_False)
    qed
  qed
qed simp

lemma scan_set: "bucket_ok ops \<Longrightarrow> set (cursor_scan ops b p) = {k \<in> dom (bo_get ops b). HasPrefix k p}"
  by (simp add: cursor_scan_def HasPrefix_def scan_filter bucket_ok_def)

lemma bucket_laws:
  assumes "bucket_ok ops"
  shows "bo_get ops (bo_empty ops) = Map.empty" "key_fits k \<Longrightarrow> bo_get ops (bo_put ops b k v) = (bo_get ops b)(k \<mapsto> v)"
    "bo_get ops (bo_delete ops b k) = (bo_get ops b)(k := None)" "set (bo_keys ops b) = dom (bo_get ops b)"
    "sorted_wrt (<) (bo_keys ops b)"
  using assms by (auto simp: bucket_ok_def fun_eq_iff)


section \<open>The buckets agree with the map\<close>

definition idx_ok :: "'b bucket_ops \<Rightarrow> (Stream \<Rightarrow> string option) \<Rightarrow> 'b \<Rightarrow> stream_map \<Rightarrow> bool" where
  "idx_ok ops key b m \<longleftrightarrow> dom (bo_get ops b) = {k. \<exists>st \<in> ran m. key st = Some k}"

text \<open>What an index key must be: short enough, and the key of one stream only.\<close>

definition good_key :: "(Stream \<Rightarrow> string option) \<Rightarrow> bool" where
  "good_key key \<longleftrightarrow> (\<forall>st k. stream_ok st \<longrightarrow> key st = Some k \<longrightarrow> key_fits k)
     \<and> (\<forall>st st' k. stream_ok st \<longrightarrow> stream_ok st' \<longrightarrow> key st = Some k \<longrightarrow> key st' = Some k \<longrightarrow> st_ID st = st_ID st')"

definition all_ok :: "stream_map \<Rightarrow> bool" where
  "all_ok m \<longleftrightarrow> keyed m \<and> (\<forall>st \<in> ran m. stream_ok st)"

lemma all_okD: "all_ok m \<Longrightarrow> m i = Some st \<Longrightarrow> st_ID st = i \<and> stream_ok st"
  by (auto simp: all_ok_def keyed_def ran_def)

lemma all_ok_ran: "all_ok m \<Longrightarrow> st \<in> ran m \<Longrightarrow> m (st_ID st) = Some st \<and> stream_ok st"
  by (auto simp: all_ok_def keyed_def ran_def)

lemma all_ok_upd: "all_ok m \<Longrightarrow> st_ID st = i \<Longrightarrow> stream_ok st \<Longrightarrow> all_ok (m(i \<mapsto> st))"
  by (auto simp: all_ok_def keyed_def ran_def)

lemma all_ok_del: "all_ok m \<Longrightarrow> all_ok (m(i := None))"
  by (auto simp: all_ok_def keyed_def ran_def)

lemma ran_del: "all_ok m \<Longrightarrow> ran (m(i := None)) = {st \<in> ran m. st_ID st \<noteq> i}"
  by (auto simp: all_ok_def keyed_def ran_def)

lemma ran_put: "all_ok m \<Longrightarrow> ran (m(i \<mapsto> st)) = insert st {st' \<in> ran m. st_ID st' \<noteq> i}"
  by (auto simp: all_ok_def keyed_def ran_def)

text \<open>The range of a map with one stream replaced or removed, around the rest \<open>R\<close>.\<close>

lemma ran_around:
  assumes "all_ok m" "m i = Some st"
  obtains R where "ran m = insert st R" "ran (m(i := None)) = R" "\<And>st'. ran (m(i \<mapsto> st')) = insert st' R"
    "\<And>x. x \<in> R \<Longrightarrow> stream_ok x \<and> st_ID x \<noteq> st_ID st"
proof -
  let ?R = "ran (m(i := None))"
  have "m = (m(i := None))(i \<mapsto> st)" using assms(2) by auto
  then have "ran m = insert st ?R" by (metis fun_upd_same ran_map_upd)
  moreover have "ran (m(i \<mapsto> st')) = insert st' ?R" for st' by (metis fun_upd_same fun_upd_upd ran_map_upd)
  moreover have "stream_ok x \<and> st_ID x \<noteq> st_ID st" if "x \<in> ?R" for x
    using that all_okD [OF assms] all_ok_ran [OF assms(1), of x] unfolding ran_del [OF assms(1)] by simp
  ultimately show ?thesis using that by blast
qed

lemma idx_remove:
  assumes "bucket_ok ops" "good_key key" "all_ok m" "idx_ok ops key b m" "m i = Some st"
  shows "idx_ok ops key (remove_key ops (key st) b) (m(i := None))"
proof -
  obtain R where R: "ran m = insert st R" "ran (m(i := None)) = R" "\<And>x. x \<in> R \<Longrightarrow> stream_ok x \<and> st_ID x \<noteq> st_ID st"
    using ran_around [OF assms(3,5)] by metis
  have ok: "stream_ok st" using all_okD [OF assms(3,5)] by simp
  have n: "key x \<noteq> Some k" if "x \<in> R" "key st = Some k" for x k
    using assms(2) R(3) [OF that(1)] ok that(2) unfolding good_key_def by blast
  have d: "dom (bo_get ops b) = {k. \<exists>x \<in> insert st R. key x = Some k}" using assms(4) by (simp add: idx_ok_def R)
  show ?thesis
    unfolding idx_ok_def R(2) remove_key_def
    by (cases "key st") (use d n in \<open>auto simp: bucket_laws [OF assms(1)]\<close>)
qed

lemma idx_add:
  assumes "bucket_ok ops" "good_key key" "idx_ok ops key b m" "m i = None" "stream_ok st"
  shows "idx_ok ops key (add_key ops (key st) b) (m(i \<mapsto> st))"
proof -
  have r: "ran (m(i \<mapsto> st)) = insert st (ran m)" using assms(4) by (rule ran_map_upd)
  show ?thesis
  proof (cases "key st")
    case None then show ?thesis using assms(3) by (auto simp: idx_ok_def add_key_def r)
  next
    case (Some k)
    then have "key_fits k" using assms(2,5) by (auto simp: good_key_def)
    then show ?thesis using assms(3) Some by (auto simp: idx_ok_def add_key_def r bucket_laws [OF assms(1)])
  qed
qed

lemma idx_same:
  assumes "idx_ok ops key b m" "m i = Some st" "all_ok m" "key st' = key st"
  shows "idx_ok ops key b (m(i \<mapsto> st'))"
proof -
  obtain R where R: "ran m = insert st R" "\<And>st'. ran (m(i \<mapsto> st')) = insert st' R" using ran_around [OF assms(3,2)] by metis
  show ?thesis using assms(1,4) by (simp add: idx_ok_def R)
qed

text \<open>The keys of the indexes are good.\<close>

lemma plain_length: "plain_id i \<Longrightarrow> length i \<le> 1000"
  by (simp add: plain_id_def)

lemma source_length: "stream_ok st \<Longrightarrow> length (source_of k st) \<le> 1000"
  by (cases k) (auto simp: stream_ok_def plain_id_def)

lemma sourceKey_length: "stream_ok st \<Longrightarrow> length (sourceKey st) \<le> 1006"
  using source_length [of st M3U] source_length [of st SatIP] source_length [of st HDHR] by (simp add: sourceKey_def)

lemma ok_ID: "stream_ok st \<Longrightarrow> plain_id (st_ID st)"
  by (simp add: stream_ok_def)

lemma slash_key_ID: "stream_ok st \<Longrightarrow> slash_key f st = Some k \<Longrightarrow> suffixAfterSlash k = st_ID st"
  by (auto simp: slash_key_def stream_ok_def plain_id_def split: if_splits)

lemma good_slash:
  assumes "\<And>st. stream_ok st \<Longrightarrow> length (f st) \<le> 30000"
  shows "good_key (slash_key f)"
  unfolding good_key_def
proof (intro conjI allI impI)
  fix st k assume "stream_ok st" "slash_key f st = Some k"
  then show "key_fits k" using assms [of st] plain_length [OF ok_ID, of st]
    by (auto simp: slash_key_def key_fits_def split: if_splits)
next
  fix st st' k assume "stream_ok st" "stream_ok st'" "slash_key f st = Some k" "slash_key f st' = Some k"
  then show "st_ID st = st_ID st'" using slash_key_ID by metis
qed

lemma good_source: "good_key (slash_key (source_of k))"
  by (rule good_slash) (use source_length [of _ k] in fastforce)

lemma good_vod: "good_key (slash_key st_VODType)"
  by (rule good_slash) (simp add: stream_ok_def)

lemma good_group: "good_key group_key"
  unfolding good_key_def
proof (intro conjI allI impI)
  fix st k assume a: "stream_ok st" "group_key st = Some k"
  then show "key_fits k" using sourceKey_length [of st] plain_length [OF ok_ID, of st]
    by (auto simp: group_key_def key_fits_def stream_ok_def split: if_splits)
next
  fix st st' k assume a: "stream_ok st" "stream_ok st'" "group_key st = Some k" "group_key st' = Some k"
  have s: "suffixAfterSlash (sourceKey x @ CHR ''/'' # st_Group x @ CHR ''/'' # st_ID x) = st_ID x" if "stream_ok x" for x
    using that suffix_slash [of "st_ID x" "sourceKey x @ CHR ''/'' # st_Group x"] by (simp add: stream_ok_def plain_id_def)
  show "st_ID st = st_ID st'" using s [OF a(1)] s [OF a(2)] a(3,4) by (simp add: group_key_def split: if_splits)
qed

lemma good_name: "good_key name_key"
  unfolding good_key_def
proof (intro conjI allI impI)
  fix st k assume "stream_ok st" "name_key st = Some k"
  then show "key_fits k" using plain_length [OF ok_ID, of st]
    by (auto simp: name_key_def key_fits_def stream_ok_def ToLower_def)
next
  fix st st' k assume a: "stream_ok st" "stream_ok st'" "name_key st = Some k" "name_key st' = Some k"
  have s: "rev (takeWhile (\<lambda>c. c \<noteq> CHR 0x00) (rev (n @ CHR 0x00 # st_ID x))) = st_ID x" if "stream_ok x" for x n
    using that by (simp add: stream_ok_def plain_id_def, subst takeWhile_append2) auto
  show "st_ID st = st_ID st'" using a s [OF a(1), of "ToLower (st_Name st)"] s [OF a(2), of "ToLower (st_Name st')"]
    by (simp add: name_key_def)
qed


section \<open>The invariant of the store\<close>

definition main_ok :: "'b BoltStreamStore \<Rightarrow> stream_map \<Rightarrow> bool" where
  "main_ok s m \<longleftrightarrow> decode s = m \<and> dom (bo_get (bs_ops s) (bs_stream s)) = dom m"

definition indexes_ok :: "'b BoltStreamStore \<Rightarrow> stream_map \<Rightarrow> bool" where
  "indexes_ok s m \<longleftrightarrow> idx_ok (bs_ops s) (slash_key (source_of M3U)) (bs_account s) m
     \<and> idx_ok (bs_ops s) (slash_key (source_of SatIP)) (bs_satip s) m
     \<and> idx_ok (bs_ops s) (slash_key (source_of HDHR)) (bs_hdhr s) m
     \<and> idx_ok (bs_ops s) (slash_key st_VODType) (bs_vod s) m
     \<and> idx_ok (bs_ops s) group_key (bs_group s) m
     \<and> idx_ok (bs_ops s) name_key (bs_name s) m"

definition libs_ok :: "'b BoltStreamStore \<Rightarrow> bool" where
  "libs_ok s \<longleftrightarrow> bucket_ok (bs_ops s) \<and> json_ok (bs_json s)"

definition bolt_rep :: "'b BoltStreamStore \<Rightarrow> stream_map \<Rightarrow> bool" where
  "bolt_rep s m \<longleftrightarrow> libs_ok s \<and> main_ok s m \<and> all_ok m \<and> indexes_ok s m"

lemma source_fun: "source_of M3U = st_M3UAccountID" "source_of SatIP = st_SatIPSourceID" "source_of HDHR = st_HDHRSourceID"
  by (simp_all add: fun_eq_iff)

lemma main_get:
  "main_ok s m \<Longrightarrow> bo_get (bs_ops s) (bs_stream s) i = None \<longleftrightarrow> m i = None"
  by (auto simp: main_ok_def)

lemma main_Some:
  assumes "main_ok s m" "bo_get (bs_ops s) (bs_stream s) i = Some v"
  obtains st where "jc_unmarshal (bs_json s) v = Inr st" "m i = Some st"
proof -
  have "decode s i = m i" "m i \<noteq> None" using assms by (auto simp: main_ok_def)
  then show ?thesis using that assms(2) by (auto simp: decode_def split: option.splits sum.splits)
qed

lemma indexes_remove:
  assumes "libs_ok s" "all_ok m" "indexes_ok s m" "m i = Some st"
  shows "indexes_ok (removeIndexEntries st s) (m(i := None))"
proof -
  have b: "bucket_ok (bs_ops s)" using assms(1) by (simp add: libs_ok_def)
  note r = idx_remove [OF b _ assms(2) _ assms(4)]
  show ?thesis
    using r [OF good_source] r [OF good_vod] r [OF good_group] r [OF good_name] assms(3)
    by (simp add: indexes_ok_def removeIndexEntries_def Let_def flip: source_fun)
qed

lemma indexes_add:
  assumes "libs_ok s" "indexes_ok s m" "m i = None" "stream_ok st"
  shows "indexes_ok (addIndexEntries st s) (m(i \<mapsto> st))"
proof -
  have b: "bucket_ok (bs_ops s)" using assms(1) by (simp add: libs_ok_def)
  note r = idx_add [where m = m and i = i, OF b _ _ assms(3,4)]
  show ?thesis
    using r [OF good_source] r [OF good_vod] r [OF good_group] r [OF good_name] assms(2)
    by (simp add: indexes_ok_def addIndexEntries_def Let_def flip: source_fun)
qed

text \<open>The parts of the state an operation leaves alone.\<close>

definition same_main :: "'b BoltStreamStore \<Rightarrow> 'b BoltStreamStore \<Rightarrow> bool" where
  "same_main s s' \<longleftrightarrow> bs_stream s' = bs_stream s \<and> bs_ops s' = bs_ops s \<and> bs_json s' = bs_json s"

definition same_indexes :: "'b BoltStreamStore \<Rightarrow> 'b BoltStreamStore \<Rightarrow> bool" where
  "same_indexes s s' \<longleftrightarrow> bs_ops s' = bs_ops s \<and> bs_json s' = bs_json s \<and> bs_account s' = bs_account s \<and> bs_satip s' = bs_satip s \<and> bs_hdhr s' = bs_hdhr s
     \<and> bs_vod s' = bs_vod s \<and> bs_group s' = bs_group s \<and> bs_name s' = bs_name s"

lemma same_main_entries [simp]: "same_main s (removeIndexEntries st s)" "same_main s (addIndexEntries st s)"
  by (simp_all add: same_main_def removeIndexEntries_def addIndexEntries_def Let_def)

lemma same_meta [simp]:
  "same_main s (bumpRevision s)" "same_indexes s (bumpRevision s)"
  "same_main s (setStreamCount n s)" "same_indexes s (setStreamCount n s)"
  "same_main s (updateStreamCount d s)" "same_indexes s (updateStreamCount d s)"
  by (simp_all add: same_main_def same_indexes_def bumpRevision_def setStreamCount_def updateStreamCount_def Let_def)

lemma same_put [simp]: "same_indexes s (put_main i st s)" "same_indexes s (delete_main i s)"
  by (simp_all add: same_indexes_def put_main_def delete_main_def)

lemma same_libs: "same_main s s' \<Longrightarrow> libs_ok s' = libs_ok s" "same_indexes s s' \<Longrightarrow> libs_ok s' = libs_ok s"
  by (simp_all add: same_main_def same_indexes_def libs_ok_def)

lemma same_main_ok: "same_main s s' \<Longrightarrow> main_ok s' m = main_ok s m"
  by (simp add: same_main_def main_ok_def decode_def fun_eq_iff cong: option.case_cong)

lemma same_indexes_ok: "same_indexes s s' \<Longrightarrow> indexes_ok s' m = indexes_ok s m"
  by (simp add: same_indexes_def indexes_ok_def)

lemma same_rep: "same_main s s' \<Longrightarrow> same_indexes s s' \<Longrightarrow> bolt_rep s' m = bolt_rep s m"
  by (simp add: bolt_rep_def same_libs same_main_ok same_indexes_ok)

lemma meta_rep [simp]:
  "bolt_rep (bumpRevision s) m = bolt_rep s m" "bolt_rep (setStreamCount n s) m = bolt_rep s m"
  "bolt_rep (updateStreamCount d s) m = bolt_rep s m"
  by (rule same_rep; simp)+

lemma put_simps [simp]:
  "libs_ok (put_main i st s) = libs_ok s" "indexes_ok (put_main i st s) m = indexes_ok s m"
  "libs_ok (delete_main i s) = libs_ok s" "indexes_ok (delete_main i s) m = indexes_ok s m"
  "libs_ok (addIndexEntries st s) = libs_ok s" "main_ok (addIndexEntries st s) m = main_ok s m"
  "libs_ok (removeIndexEntries st s) = libs_ok s" "main_ok (removeIndexEntries st s) m = main_ok s m"
  by (rule same_libs same_indexes_ok same_main_ok, simp)+

lemma put_main_ok:
  assumes "libs_ok s" "main_ok s m" "plain_id i"
  shows "main_ok (put_main i st s) (m(i \<mapsto> st))"
proof -
  have "key_fits i" using assms(3) by (auto simp: plain_id_def key_fits_def)
  moreover have "bucket_ok (bs_ops s)" "json_ok (bs_json s)" using assms(1) by (simp_all add: libs_ok_def)
  ultimately show ?thesis using assms(2)
    by (auto simp: main_ok_def put_main_def decode_def bucket_laws json_ok_def fun_eq_iff cong: option.case_cong)
qed

lemma delete_main_ok: "libs_ok s \<Longrightarrow> main_ok s m \<Longrightarrow> main_ok (delete_main i s) (m(i := None))"
  by (auto simp: main_ok_def delete_main_def decode_def bucket_laws libs_ok_def fun_eq_iff cong: option.case_cong)

lemma merged_ok: "stream_ok st \<Longrightarrow> (\<And>o'. old = Some o' \<Longrightarrow> stream_ok o') \<Longrightarrow> stream_ok (merged now old st)"
proof -
  assume a: "stream_ok st" "\<And>o'. old = Some o' \<Longrightarrow> stream_ok o'"
  have g: "st_Group (merged now old st) = st_Group st \<and> st_Name (merged now old st) = st_Name st"
    by (simp add: merged_def merge_existing_def keep_tmdb_def keep_cache_def keep_language_def keep_vodtype_def split: option.split)
  have "length (st_VODType (merged now old st)) \<le> 30000"
    using a by (auto simp: merged_def merge_existing_def keep_tmdb_def keep_cache_def keep_language_def keep_vodtype_def stream_ok_def split: option.split)
  then show ?thesis using a(1) g by (simp add: stream_ok_def del: source_of.simps)
qed

text \<open>One stream upserted: the old entries out, the new record and entries in.\<close>

lemma upsert_one_rep:
  assumes "bolt_rep s m" "stream_ok st"
  shows "bolt_rep (fst (bolt_upsert_one now st (s, n))) (upsert1 now st m)"
proof -
  let ?i = "st_ID st"
  have a: "libs_ok s" "main_ok s m" "all_ok m" "indexes_ok s m" using assms(1) by (simp_all add: bolt_rep_def)
  define x where "x = merged now (m ?i) st"
  have ne: "jc_marshal (bs_json s) y \<noteq> []" for y using a(1) by (simp add: libs_ok_def json_ok_def)
  have xok: "stream_ok x" unfolding x_def using merged_ok [OF assms(2)] all_okD [OF a(3)] by blast
  obtain s1 where s1: "fst (bolt_upsert_one now st (s, n)) = addIndexEntries x (put_main ?i x s1)"
    "same_main s s1" "indexes_ok s1 (m(?i := None))"
  proof (cases "m ?i")
    case None
    then have g: "bo_get (bs_ops s) (bs_stream s) ?i = None" using main_get [OF a(2)] by simp
    have "m(?i := None) = m" using None by auto
    then show ?thesis using that [of s] g a(4) None ne by (simp add: bolt_upsert_one_def x_def merged_def same_main_def Let_def)
  next
    case (Some old)
    then obtain v where v: "bo_get (bs_ops s) (bs_stream s) ?i = Some v" using main_get [OF a(2), of ?i] by (cases "bo_get (bs_ops s) (bs_stream s) ?i") auto
    have u: "jc_unmarshal (bs_json s) v = Inr old" by (rule main_Some [OF a(2) v]) (use Some in simp)
    show ?thesis using that [of "removeIndexEntries old s"] indexes_remove [OF a(1,3,4) Some] v u Some ne
      by (simp add: bolt_upsert_one_def x_def merged_def Let_def)
  qed
  have "libs_ok s1" "main_ok s1 m" using a same_libs(1) [OF s1(2)] same_main_ok [OF s1(2)] by simp_all
  then have p: "libs_ok (put_main ?i x s1)" "main_ok (put_main ?i x s1) (m(?i \<mapsto> x))" "indexes_ok (put_main ?i x s1) (m(?i := None))"
    using put_main_ok [of s1 m ?i x] ok_ID [OF assms(2)] s1(3) by simp_all
  have "indexes_ok (addIndexEntries x (put_main ?i x s1)) ((m(?i := None))(?i \<mapsto> x))" by (rule indexes_add [OF p(1,3) _ xok]) simp
  moreover have "all_ok (m(?i \<mapsto> x))" by (rule all_ok_upd [OF a(3) _ xok]) (simp add: x_def)
  moreover have "upsert1 now st m = m(?i \<mapsto> x)" by (simp add: upsert1_def x_def)
  ultimately show ?thesis using p(1,2) by (simp add: s1(1) bolt_rep_def)
qed


lemma upsert_fold_rep:
  "bolt_rep s m \<Longrightarrow> list_all stream_ok sts \<Longrightarrow> bolt_rep (fst (fold (bolt_upsert_one now) sts (s, n))) (fold (upsert1 now) sts m)"
proof (induction sts arbitrary: s n m)
  case (Cons st sts)
  obtain s1 n1 where e: "bolt_upsert_one now st (s, n) = (s1, n1)" by (meson surj_pair)
  then show ?case using Cons.IH [of s1 "upsert1 now st m" n1] upsert_one_rep [OF Cons.prems(1), of st now n] Cons.prems(2) by simp
qed simp

lemma bulkUpsertBatch_rep:
  assumes "bolt_rep s m" "list_all stream_ok sts"
  shows "bolt_rep (bulkUpsertBatch now sts s) (fold (upsert1 now) sts m)"
proof -
  obtain s1 n where "fold (bolt_upsert_one now) sts (s, 0) = (s1, n)" by (meson surj_pair)
  then show ?thesis using upsert_fold_rep [OF assms, of now 0] by (simp add: bulkUpsertBatch_def)
qed

declare bolt_batches.simps [simp del]

lemma bolt_batches_rep:
  "bolt_rep s m \<Longrightarrow> list_all stream_ok sts \<Longrightarrow>
     fst (bolt_batches (\<lambda>_. None) n now sts s) = None \<and> bolt_rep (snd (bolt_batches (\<lambda>_. None) n now sts s)) (fold (upsert1 now) sts m)"
proof (induction "length sts" arbitrary: n sts s m rule: less_induct)
  case less
  show ?case
  proof (cases "sts = []")
    case True then show ?thesis using less.prems by (simp add: bolt_batches.simps)
  next
    case False
    define s1 where "s1 = bulkUpsertBatch now (take 5000 sts) s"
    have l: "list_all stream_ok (take 5000 sts)" "list_all stream_ok (drop 5000 sts)"
      using less.prems(2) by (auto simp: list_all_iff dest: in_set_takeD in_set_dropD)
    have "bolt_rep s1 (fold (upsert1 now) (take 5000 sts) m)" unfolding s1_def by (rule bulkUpsertBatch_rep [OF less.prems(1) l(1)])
    note ih = less.hyps [OF _ this l(2), of "n + 1"]
    have "fold (upsert1 now) (drop 5000 sts) (fold (upsert1 now) (take 5000 sts) m) = fold (upsert1 now) sts m"
      by (metis append_take_drop_id comp_apply fold_append)
    then show ?thesis using ih False
      by (subst (1 2) bolt_batches.simps) (simp add: commit_def flip: s1_def)
  qed
qed

text \<open>Streams dropped one by one.\<close>

definition without :: "ident set \<Rightarrow> stream_map \<Rightarrow> stream_map" where
  "without X m = (\<lambda>i. if i \<in> X then None else m i)"

lemma remove_rep:
  assumes "bolt_rep s m" "m i = Some st"
  shows "bolt_rep (delete_main i (removeIndexEntries st s)) (m(i := None))"
  using assms indexes_remove [of s m i st] delete_main_ok [of "removeIndexEntries st s" m i] all_ok_del [of m i]
  by (simp add: bolt_rep_def)

lemma bolt_drop_rep:
  assumes "bolt_rep s m"
  shows "fst (bolt_drop i (del, s)) = (if m i = None then del else del @ [i])
    \<and> bolt_rep (snd (bolt_drop i (del, s))) (m(i := None))"
proof -
  have d: "decode s i = m i" using assms by (simp add: bolt_rep_def main_ok_def)
  show ?thesis
  proof (cases "m i")
    case None
    then have "m(i := None) = m" by auto
    then show ?thesis using d None assms by (simp add: bolt_drop_def)
  next
    case (Some st) then show ?thesis using d remove_rep [OF assms Some] by (simp add: bolt_drop_def)
  qed
qed

lemma bolt_drop_fold:
  "bolt_rep s m \<Longrightarrow> set (fst (fold bolt_drop is (del, s))) = set del \<union> (set is \<inter> dom m)
     \<and> bolt_rep (snd (fold bolt_drop is (del, s))) (without (set is) m)"
proof (induction "is" arbitrary: s m del)
  case Nil
  have "without {} m = m" by (simp add: without_def)
  then show ?case using Nil by simp
next
  case (Cons i "is")
  obtain d1 s1 where e: "bolt_drop i (del, s) = (d1, s1)" by (meson surj_pair)
  have r: "d1 = (if m i = None then del else del @ [i])" "bolt_rep s1 (m(i := None))"
    using bolt_drop_rep [OF Cons.prems, of i del] e by simp_all
  have w: "without (set is) (m(i := None)) = without (set (i # is)) m" by (auto simp: without_def)
  have d: "dom (m(i := None)) = dom m - {i}" by simp
  have "set d1 \<union> (set is \<inter> (dom m - {i})) = set del \<union> (set (i # is) \<inter> dom m)" using r(1) by (auto simp: domIff split: if_splits)
  then show ?case using Cons.IH [OF r(2), of d1] unfolding w d by (simp add: e)
qed

lemma bolt_drop_keys_rep:
  assumes "bolt_rep s m"
  obtains del s1 where "bolt_drop_keys ks s = (del, s1)" "set del = suffixAfterSlash ` set ks \<inter> dom m"
    "bolt_rep s1 (without (suffixAfterSlash ` set ks) m)"
  using bolt_drop_fold [OF assms, of "map suffixAfterSlash ks" "[]"] that
  by (cases "bolt_drop_keys ks s") (simp add: bolt_drop_keys_def)

text \<open>The bucket of a source kind, and the streams behind its keys.\<close>

fun bs_source :: "source_kind \<Rightarrow> 'b BoltStreamStore \<Rightarrow> 'b" where
  "bs_source M3U s = bs_account s"
| "bs_source SatIP s = bs_satip s"
| "bs_source HDHR s = bs_hdhr s"

lemma source_keys:
  assumes "bolt_rep s m"
  shows "dom (bo_get (bs_ops s) (bs_source k s)) = {source_of k st @ CHR ''/'' # st_ID st | st. st \<in> ran m \<and> source_of k st \<noteq> []}"
proof -
  have "idx_ok (bs_ops s) (slash_key (source_of k)) (bs_source k s) m"
    using assms by (cases k) (simp_all add: bolt_rep_def indexes_ok_def)
  then show ?thesis unfolding idx_ok_def slash_key_def by (auto split: if_splits)
qed

lemma key_parts:
  assumes "stream_ok st" "source_of k st \<noteq> []"
  shows "suffixAfterSlash (source_of k st @ CHR ''/'' # st_ID st) = st_ID st"
    "prefixBeforeSlash (source_of k st @ CHR ''/'' # st_ID st) = source_of k st"
    "plain_id src \<Longrightarrow> HasPrefix (source_of k st @ CHR ''/'' # st_ID st) (src @ ''/'') \<longleftrightarrow> source_of k st = src"
  using assms prefix_slash_iff [of src "source_of k st" "st_ID st"]
  by (cases k; auto simp: stream_ok_def plain_id_def)+

lemma rep_ran: "bolt_rep s m \<Longrightarrow> st \<in> ran m \<Longrightarrow> m (st_ID st) = Some st \<and> stream_ok st"
  using all_ok_ran by (auto simp: bolt_rep_def)

lemma rep_bucket: "bolt_rep s m \<Longrightarrow> bucket_ok (bs_ops s)"
  by (simp add: bolt_rep_def libs_ok_def)

lemma rep_keyed: "bolt_rep s m \<Longrightarrow> m i = Some st \<Longrightarrow> st_ID st = i"
  using all_okD by (auto simp: bolt_rep_def)

lemma source_scan:
  assumes "bolt_rep s m" "plain_id src"
  shows "set (cursor_scan (bs_ops s) (bs_source k s) (src @ ''/'')) = {src @ CHR ''/'' # st_ID st | st. st \<in> ran m \<and> source_of k st = src}"
proof -
  have ne: "src \<noteq> []" using assms(2) by (simp add: plain_id_def)
  show ?thesis
    unfolding scan_set [OF rep_bucket [OF assms(1)]] source_keys [OF assms(1)]
    using key_parts(3) [OF _ _ assms(2)] rep_ran [OF assms(1)] ne by auto
qed

lemma source_ids:
  assumes "bolt_rep s m" "plain_id src"
  shows "suffixAfterSlash ` set (cursor_scan (bs_ops s) (bs_source k s) (src @ ''/'')) = {i. \<exists>st. m i = Some st \<and> source_of k st = src}"
proof -
  have s: "suffixAfterSlash (src @ CHR ''/'' # st_ID st) = st_ID st" if "st \<in> ran m" for st
    using rep_ran [OF assms(1) that] by (simp add: stream_ok_def plain_id_def)
  have "suffixAfterSlash ` set (cursor_scan (bs_ops s) (bs_source k s) (src @ ''/'')) = st_ID ` {st \<in> ran m. source_of k st = src}"
    unfolding source_scan [OF assms] using s by force
  also have "\<dots> = {i. \<exists>st. m i = Some st \<and> source_of k st = src}"
    using rep_ran [OF assms(1)] rep_keyed [OF assms(1)] by (force simp: ran_def)
  finally show ?thesis .
qed

end
