(* ===== verification/BoltLaws.thy ===== *)
theory BoltLaws
  imports BoltStreams
begin

text \<open>
  The database store of \<open>BoltStreams\<close> keeps the contract of the stream stores: every operation, on
  transactions that commit, preserves the agreement of records and indexes and does to the map of
  streams what the in-memory store does. From this the three stores are equivalent.
\<close>

lemma without_drop:
  assumes "\<And>i. i \<in> X \<and> m i \<noteq> None \<longleftrightarrow> (\<exists>st. m i = Some st \<and> p st)"
  shows "without X m = drop_streams p m"
proof
  fix i show "without X m i = drop_streams p m i"
    using assms [of i] by (cases "m i") (auto simp: without_def drop_streams_def)
qed

section \<open>The operations by source kind\<close>

definition bolt_invar :: "'b BoltStreamStore \<Rightarrow> bool" where
  "bolt_invar s \<longleftrightarrow> bolt_rep s (decode s)"

lemma rep_decode: "bolt_rep s m \<Longrightarrow> decode s = m"
  by (simp add: bolt_rep_def main_ok_def)

lemma rep_invar: "bolt_rep s m \<Longrightarrow> bolt_invar s \<and> decode s = m"
  using rep_decode by (auto simp: bolt_invar_def)

definition bolt_upsert :: "time \<Rightarrow> Stream list \<Rightarrow> 'b BoltStreamStore \<Rightarrow> 'b BoltStreamStore" where
  "bolt_upsert now sts s = snd (Bolt_BulkUpsert (\<lambda>_. None) now sts s)"

definition bolt_delete :: "ident \<Rightarrow> 'b BoltStreamStore \<Rightarrow> 'b BoltStreamStore" where
  "bolt_delete i s = snd (Bolt_Delete None i s)"

fun bolt_list_by :: "source_kind \<Rightarrow> ident \<Rightarrow> 'b BoltStreamStore \<Rightarrow> Stream list" where
  "bolt_list_by M3U = Bolt_ListByAccountID"
| "bolt_list_by SatIP = Bolt_ListBySatIPSourceID"
| "bolt_list_by HDHR = Bolt_ListByHDHRSourceID"

fun bolt_delete_by :: "source_kind \<Rightarrow> ident \<Rightarrow> 'b BoltStreamStore \<Rightarrow> 'b BoltStreamStore" where
  "bolt_delete_by M3U = Bolt_DeleteByAccountID None"
| "bolt_delete_by SatIP = Bolt_DeleteBySatIPSourceID None"
| "bolt_delete_by HDHR = Bolt_DeleteByHDHRSourceID None"

fun bolt_delete_stale :: "source_kind \<Rightarrow> ident \<Rightarrow> ident list \<Rightarrow> 'b BoltStreamStore \<Rightarrow> ident list \<times> 'b BoltStreamStore" where
  "bolt_delete_stale M3U = Bolt_DeleteStaleByAccountID None"
| "bolt_delete_stale SatIP = Bolt_DeleteStaleBySatIPSourceID None"
| "bolt_delete_stale HDHR = Bolt_DeleteStaleByHDHRSourceID None"

fun bolt_delete_orphans :: "source_kind \<Rightarrow> ident list \<Rightarrow> 'b BoltStreamStore \<Rightarrow> ident list \<times> 'b BoltStreamStore" where
  "bolt_delete_orphans M3U = Bolt_DeleteOrphanedM3UStreams None"
| "bolt_delete_orphans SatIP = Bolt_DeleteOrphanedSatIPStreams None"
| "bolt_delete_orphans HDHR = Bolt_DeleteOrphanedHDHRStreams None"

lemma bolt_list_by_eq: "bolt_list_by k src s = listByIndex (bs_source k s) (src @ ''/'') s"
  by (cases k) (simp_all add: Bolt_ListByAccountID_def Bolt_ListBySatIPSourceID_def Bolt_ListByHDHRSourceID_def)

lemma bolt_delete_by_eq: "bolt_delete_by k src s = snd (deleteByIndex None (bs_source k s) (src @ ''/'') s)"
  by (cases k) (simp_all add: Bolt_DeleteByAccountID_def Bolt_DeleteBySatIPSourceID_def Bolt_DeleteByHDHRSourceID_def)

lemma bolt_delete_stale_eq: "bolt_delete_stale k src keep s = deleteStaleByIndex None (bs_source k s) (src @ ''/'') keep s"
  by (cases k) (simp_all add: Bolt_DeleteStaleByAccountID_def Bolt_DeleteStaleBySatIPSourceID_def Bolt_DeleteStaleByHDHRSourceID_def)

lemma bolt_delete_orphans_eq: "bolt_delete_orphans k known s = deleteOrphanedByIndex None (bs_source k s) known s"
  by (cases k) (simp_all add: Bolt_DeleteOrphanedM3UStreams_def Bolt_DeleteOrphanedSatIPStreams_def Bolt_DeleteOrphanedHDHRStreams_def)

lemma commit_None [simp]: "commit None s s' = (None, s')"
  by (simp add: commit_def)

lemma decode_all_set: "set (decode_all s xs) = {st. \<exists>i \<in> set xs. decode s i = Some st}"
  by (induction xs) (auto simp: decode_all_def List.map_filter_simps split: option.split)

lemma list_by_rep:
  assumes "bolt_rep s m" "plain_id src"
  shows "set (bolt_list_by k src s) = {st \<in> ran m. source_of k st = src}"
proof -
  have "set (bolt_list_by k src s) = {st. \<exists>i \<in> {i. \<exists>st. m i = Some st \<and> source_of k st = src}. m i = Some st}"
    unfolding bolt_list_by_eq listByIndex_def decode_all_set set_map source_ids [OF assms] rep_decode [OF assms(1)] ..
  also have "\<dots> = {st \<in> ran m. source_of k st = src}" by (auto simp: ran_def)
  finally show ?thesis .
qed

lemma delete_by_rep:
  assumes "bolt_rep s m"
  shows "\<exists>X. bolt_rep (bolt_delete_by k src s) (without X m) \<and> (plain_id src \<longrightarrow> X = {i. \<exists>st. m i = Some st \<and> source_of k st = src})"
proof -
  let ?ks = "cursor_scan (bs_ops s) (bs_source k s) (src @ ''/'')"
  obtain del s1 where d: "bolt_drop_keys ?ks s = (del, s1)" "bolt_rep s1 (without (suffixAfterSlash ` set ?ks) m)"
    by (rule bolt_drop_keys_rep [OF assms])
  show ?thesis
    by (rule exI [of _ "suffixAfterSlash ` set ?ks"])
      (use d source_ids [OF assms] in \<open>simp add: bolt_delete_by_eq deleteByIndex_def Let_def\<close>)
qed

lemma counted_rep:
  assumes "bolt_rep s m"
  shows "set (fst (deleted_counted None ks s)) = suffixAfterSlash ` set ks \<inter> dom m
    \<and> bolt_rep (snd (deleted_counted None ks s)) (without (suffixAfterSlash ` set ks) m)"
proof -
  obtain del s1 where "bolt_drop_keys ks s = (del, s1)" "set del = suffixAfterSlash ` set ks \<inter> dom m"
    "bolt_rep s1 (without (suffixAfterSlash ` set ks) m)"
    by (rule bolt_drop_keys_rep [OF assms])
  then show ?thesis by (simp add: deleted_counted_def Let_def)
qed

lemma stale_keys:
  "suffixAfterSlash ` set (filter (\<lambda>k. suffixAfterSlash k \<notin> set keep) ks) = suffixAfterSlash ` set ks - set keep"
  by auto

lemma orphan_keys:
  assumes "bolt_rep s m"
  shows "suffixAfterSlash ` set (filter (\<lambda>k. prefixBeforeSlash k \<notin> set known) (bo_keys (bs_ops s) (bs_source k s)))
    = {i. \<exists>st. m i = Some st \<and> source_of k st \<noteq> [] \<and> source_of k st \<notin> set known}"
proof -
  have "set (bo_keys (bs_ops s) (bs_source k s)) = {source_of k st @ CHR ''/'' # st_ID st | st. st \<in> ran m \<and> source_of k st \<noteq> []}"
    unfolding bucket_laws(4) [OF rep_bucket [OF assms]] source_keys [OF assms] ..
  moreover have "{x \<in> {source_of k st @ CHR ''/'' # st_ID st | st. st \<in> ran m \<and> source_of k st \<noteq> []}. prefixBeforeSlash x \<notin> set known}
      = (\<lambda>st. source_of k st @ CHR ''/'' # st_ID st) ` {st \<in> ran m. source_of k st \<noteq> [] \<and> source_of k st \<notin> set known}"
    using key_parts(2) rep_ran [OF assms] by auto
  moreover have "suffixAfterSlash (source_of k st @ CHR ''/'' # st_ID st) = st_ID st"
    if "st \<in> {st \<in> ran m. source_of k st \<noteq> [] \<and> source_of k st \<notin> set known}" for st
    using key_parts(1) rep_ran [OF assms] that by auto
  ultimately have "suffixAfterSlash ` set (filter (\<lambda>k. prefixBeforeSlash k \<notin> set known) (bo_keys (bs_ops s) (bs_source k s)))
      = st_ID ` {st \<in> ran m. source_of k st \<noteq> [] \<and> source_of k st \<notin> set known}"
    by (simp add: image_image)
  also have "\<dots> = {i. \<exists>st. m i = Some st \<and> source_of k st \<noteq> [] \<and> source_of k st \<notin> set known}"
    using rep_ran [OF assms] rep_keyed [OF assms] by (force simp: ran_def)
  finally show ?thesis .
qed

lemma delete_rep:
  assumes "bolt_rep s m"
  shows "bolt_rep (bolt_delete i s) (m(i := None))"
proof (cases "m i")
  case None
  then have "bo_get (bs_ops s) (bs_stream s) i = None" "m(i := None) = m" using assms main_get [of s m i] by (auto simp: bolt_rep_def)
  then show ?thesis using assms by (simp add: bolt_delete_def Bolt_Delete_def)
next
  case (Some st)
  then obtain v where "bo_get (bs_ops s) (bs_stream s) i = Some v" using assms main_get [of s m i] by (auto simp: bolt_rep_def)
  then show ?thesis using remove_rep [OF assms Some] Some
    by (simp add: bolt_delete_def Bolt_Delete_def rep_decode [OF assms] Let_def)
qed

lemma change_rep:
  assumes "bolt_rep s m" "m i = Some st" "st_ID st' = st_ID st" "\<And>k. source_of k st' = source_of k st"
    "st_Group st' = st_Group st" "st_Name st' = st_Name st" "st_VODType st' = st_VODType st"
  shows "bolt_rep (put_main i st' s) (m(i \<mapsto> st'))"
proof -
  have a: "libs_ok s" "main_ok s m" "all_ok m" "indexes_ok s m" using assms(1) by (simp_all add: bolt_rep_def)
  have i: "st_ID st = i" "stream_ok st" using all_okD [OF a(3) assms(2)] by simp_all
  have ok: "stream_ok st'" using i assms(3-7) by (simp add: stream_ok_def del: source_of.simps)
  have src: "st_M3UAccountID st' = st_M3UAccountID st" "st_SatIPSourceID st' = st_SatIPSourceID st"
    "st_HDHRSourceID st' = st_HDHRSourceID st"
    using assms(4) [of M3U] assms(4) [of SatIP] assms(4) [of HDHR] by simp_all
  have "sourceKey st' = sourceKey st" by (simp only: sourceKey_def src)
  then have keys: "slash_key (source_of k) st' = slash_key (source_of k) st" "slash_key st_VODType st' = slash_key st_VODType st"
    "group_key st' = group_key st" "name_key st' = name_key st" for k
    by (simp_all only: slash_key_def group_key_def name_key_def assms(3-7))
  have "indexes_ok s (m(i \<mapsto> st'))"
    unfolding indexes_ok_def
    by (intro conjI idx_same [OF _ assms(2) a(3)] keys) (use a(4) in \<open>simp_all only: indexes_ok_def\<close>)
  then show ?thesis
    using put_main_ok [OF a(1,2), of i st'] ok_ID [OF i(2)] i all_ok_upd [OF a(3) _ ok, of i] a(1) assms(3)
    by (simp add: bolt_rep_def)
qed

lemma update_keeps [simp]:
  "source_of k (apply_update u st) = source_of k st" "st_Group (apply_update u st) = st_Group st"
  "st_Name (apply_update u st) = st_Name st" "st_VODType (apply_update u st) = st_VODType st"
  by (cases k; cases u; simp add: put_probe_def Let_def)+

fun bolt_update :: "time \<Rightarrow> ident \<Rightarrow> field_update \<Rightarrow> 'b BoltStreamStore \<Rightarrow> error option \<times> 'b BoltStreamStore" where
  "bolt_update now i (SetTMDB t) s = Bolt_UpdateTMDBID None now i t s"
| "bolt_update now i (SetManual t) s = Bolt_SetTMDBManual None now i t s"
| "bolt_update now i (SetProbe d vc ac) s = Bolt_UpdateStreamProbeData None now i d vc ac s"

lemma bolt_update_eq: "bolt_update now i u s = bolt_updateStreamField None now i (apply_update u) s"
proof -
  have "put_probe d vc ac = apply_update (SetProbe d vc ac)" for d vc ac by (rule ext) simp
  moreover have "(\<lambda>st. st\<lparr>st_TMDBID := t\<rparr>) = apply_update (SetTMDB t)" for t by (rule ext) simp
  moreover have "(\<lambda>st. st\<lparr>st_TMDBID := t, st_TMDBManual := True\<rparr>) = apply_update (SetManual t)" for t by (rule ext) simp
  ultimately show ?thesis
    by (cases u) (simp_all only: bolt_update.simps Bolt_UpdateTMDBID_def Bolt_SetTMDBManual_def Bolt_UpdateStreamProbeData_def)
qed

lemma update_rep:
  assumes "bolt_rep s m"
  shows "fst (bolt_update now i u s) = (if m i = None then Some (stream_missing i) else None)
    \<and> bolt_rep (snd (bolt_update now i u s)) (update1 now i u m)"
proof -
  have a: "main_ok s m" using assms by (simp add: bolt_rep_def)
  show ?thesis
  proof (cases "m i")
    case None
    then show ?thesis using assms main_get [OF a, of i] by (simp add: bolt_update_eq bolt_updateStreamField_def update1_def)
  next
    case (Some st)
    then obtain v where v: "bo_get (bs_ops s) (bs_stream s) i = Some v" using main_get [OF a, of i] by auto
    have u: "jc_unmarshal (bs_json s) v = Inr st" by (rule main_Some [OF a v]) (use Some in simp)
    have "bolt_rep (put_main i ((apply_update u st)\<lparr>st_UpdatedAt := now\<rparr>) s) (m(i \<mapsto> (apply_update u st)\<lparr>st_UpdatedAt := now\<rparr>))"
      by (rule change_rep [OF assms Some]) simp_all
    moreover have "jc_marshal (bs_json s) x \<noteq> []" for x using assms by (simp add: bolt_rep_def libs_ok_def json_ok_def)
    ultimately show ?thesis using Some v u by (simp add: bolt_update_eq bolt_updateStreamField_def update1_def)
  qed
qed

definition bolt_clear :: "'b BoltStreamStore \<Rightarrow> 'b BoltStreamStore" where
  "bolt_clear s = snd (Bolt_Clear None s)"

lemma clear_rep: "libs_ok s \<Longrightarrow> bolt_rep (bolt_clear s) Map.empty"
  unfolding bolt_clear_def Bolt_Clear_def Let_def commit_None snd_conv meta_rep
  by (simp add: bolt_rep_def libs_ok_def main_ok_def indexes_ok_def idx_ok_def all_ok_def keyed_def decode_def bucket_laws fun_eq_iff)


section \<open>The contract\<close>

lemma get_rep: "bolt_rep s m \<Longrightarrow> Bolt_GetByID i s = not_found (stream_missing i) (m i)"
proof -
  assume r: "bolt_rep s m"
  then have a: "main_ok s m" by (simp add: bolt_rep_def)
  show ?thesis
  proof (cases "bo_get (bs_ops s) (bs_stream s) i")
    case None then show ?thesis using main_get [OF a, of i] by (simp add: Bolt_GetByID_def not_found_def)
  next
    case (Some v)
    obtain st where "jc_unmarshal (bs_json s) v = Inr st" "m i = Some st" by (rule main_Some [OF a Some])
    then show ?thesis using Some by (simp add: Bolt_GetByID_def not_found_def)
  qed
qed

lemma upsert_rep: "bolt_rep s m \<Longrightarrow> list_all stream_ok sts \<Longrightarrow> bolt_rep (bolt_upsert now sts s) (fold (upsert1 now) sts m)"
  by (simp add: bolt_upsert_def Bolt_BulkUpsert_def bolt_batches_rep)

interpretation bolt: updatable_streams bolt_invar decode Bolt_GetByID bolt_upsert bolt_delete
  bolt_list_by bolt_delete_by bolt_delete_stale bolt_delete_orphans bolt_update bolt_clear
proof
  fix s :: "'b BoltStreamStore" and sts now i u k src keep known
  assume "bolt_invar s"
  then have r: "bolt_rep s (decode s)" by (simp add: bolt_invar_def)
  then show "keyed (decode s)" by (simp add: bolt_rep_def all_ok_def)
  show "Bolt_GetByID i s = not_found (stream_missing i) (decode s i)" by (rule get_rep [OF r])
  show "bolt_invar (bolt_upsert now sts s)" "decode (bolt_upsert now sts s) = fold (upsert1 now) sts (decode s)"
    if "list_all stream_ok sts" using rep_invar [OF upsert_rep [OF r that, of now]] by simp_all
  show "bolt_invar (bolt_delete i s)" "decode (bolt_delete i s) = (decode s)(i := None)"
    using rep_invar [OF delete_rep [OF r, of i]] by simp_all
  show "set (bolt_list_by k src s) = {st \<in> ran (decode s). source_of k st = src}" if "plain_id src"
    by (rule list_by_rep [OF r that])
  obtain X where X: "bolt_rep (bolt_delete_by k src s) (without X (decode s))"
    "plain_id src \<longrightarrow> X = {i. \<exists>st. decode s i = Some st \<and> source_of k st = src}"
    using delete_by_rep [OF r] by blast
  show "bolt_invar (bolt_delete_by k src s)" using rep_invar [OF X(1)] by simp
  show "decode (bolt_delete_by k src s) = drop_streams (\<lambda>st. source_of k st = src) (decode s)" if "plain_id src"
    using rep_invar [OF X(1)] X(2) that without_drop [of X "decode s" "\<lambda>st. source_of k st = src"] by auto
  let ?ks = "cursor_scan (bs_ops s) (bs_source k s) (src @ ''/'')"
  note st = counted_rep [OF r, of "filter (\<lambda>x. suffixAfterSlash x \<notin> set keep) ?ks", unfolded stale_keys,
      folded deleteStaleByIndex_def, folded bolt_delete_stale_eq]
  show "bolt_invar (snd (bolt_delete_stale k src keep s))" using rep_invar st by blast
  show "decode (snd (bolt_delete_stale k src keep s)) = drop_streams (\<lambda>st. source_of k st = src \<and> st_ID st \<notin> set keep) (decode s)"
    if "plain_id src"
  proof -
    have "without (suffixAfterSlash ` set ?ks - set keep) (decode s) = drop_streams (\<lambda>st. source_of k st = src \<and> st_ID st \<notin> set keep) (decode s)"
      by (rule without_drop) (use rep_keyed [OF r] in \<open>auto simp: source_ids [OF r that]\<close>)
    then show ?thesis using rep_invar st by metis
  qed
  show "set (fst (bolt_delete_stale k src keep s)) = {i. \<exists>st. decode s i = Some st \<and> source_of k st = src \<and> i \<notin> set keep}"
    if "plain_id src" using st source_ids [OF r that] by auto
  note os = counted_rep [OF r, of "filter (\<lambda>x. prefixBeforeSlash x \<notin> set known) (bo_keys (bs_ops s) (bs_source k s))",
      unfolded orphan_keys [OF r], folded deleteOrphanedByIndex_def, folded bolt_delete_orphans_eq]
  show "bolt_invar (snd (bolt_delete_orphans k known s))" using rep_invar os by blast
  show "decode (snd (bolt_delete_orphans k known s))
    = drop_streams (\<lambda>st. source_of k st \<noteq> [] \<and> source_of k st \<notin> set known) (decode s)"
    using rep_invar [OF conjunct2 [OF os]] without_drop [of "{i. \<exists>st. decode s i = Some st \<and> source_of k st \<noteq> [] \<and> source_of k st \<notin> set known}"
        "decode s" "\<lambda>st. source_of k st \<noteq> [] \<and> source_of k st \<notin> set known"] by auto
  show "set (fst (bolt_delete_orphans k known s)) = {i. \<exists>st. decode s i = Some st \<and> source_of k st \<noteq> [] \<and> source_of k st \<notin> set known}"
    using os by auto
  show "fst (bolt_update now i u s) = (if decode s i = None then Some (stream_missing i) else None)"
    "bolt_invar (snd (bolt_update now i u s))" "decode (snd (bolt_update now i u s)) = update1 now i u (decode s)"
    using update_rep [OF r, of now i u] rep_invar by blast+
  have "libs_ok s" using r by (simp add: bolt_rep_def)
  then show "bolt_invar (bolt_clear s)" "decode (bolt_clear s) = Map.empty" using rep_invar [OF clear_rep] by blast+
qed

section \<open>Transactions that may fail\<close>

lemma rev_rep: "bolt_rep (s\<lparr>bs_rev := r\<rparr>) m = bolt_rep s m"
  by (rule same_rep) (simp_all add: same_main_def same_indexes_def)

text \<open>A bulk upsert stores a prefix of the streams, all of them when it succeeds.\<close>

lemma batches_any:
  "bolt_rep s m \<Longrightarrow> list_all stream_ok sts \<Longrightarrow> \<exists>k. bolt_rep (snd (bolt_batches tx n now sts s)) (fold (upsert1 now) (take k sts) m)
     \<and> (fst (bolt_batches tx n now sts s) = None \<longrightarrow> take k sts = sts)"
proof (induction "length sts" arbitrary: n sts s m rule: less_induct)
  case less
  show ?case
  proof (cases "sts = []")
    case True then show ?thesis using less.prems by (simp add: bolt_batches.simps)
  next
    case False
    define s1 where "s1 = bulkUpsertBatch now (take 5000 sts) s"
    have l: "list_all stream_ok (take 5000 sts)" "list_all stream_ok (drop 5000 sts)"
      using less.prems(2) by (auto simp: list_all_iff dest: in_set_takeD in_set_dropD)
    have r: "bolt_rep s1 (fold (upsert1 now) (take 5000 sts) m)" unfolding s1_def by (rule bulkUpsertBatch_rep [OF less.prems(1) l(1)])
    show ?thesis
    proof (cases "tx n")
      case (Some x)
      then have "bolt_batches tx n now sts s = (Some x, s\<lparr>bs_rev := bs_rev s1\<rparr>)"
        using False by (subst bolt_batches.simps) (simp add: commit_def flip: s1_def)
      then show ?thesis using less.prems(1) by (intro exI [of _ 0]) (simp add: rev_rep)
    next
      case None
      then have e: "bolt_batches tx n now sts s = bolt_batches tx (n + 1) now (drop 5000 sts) s1"
        using False by (subst bolt_batches.simps) (simp add: commit_def flip: s1_def)
      have "length (drop 5000 sts) < length sts" using False by simp
      then obtain k where k: "bolt_rep (snd (bolt_batches tx (n + 1) now (drop 5000 sts) s1)) (fold (upsert1 now) (take k (drop 5000 sts)) (fold (upsert1 now) (take 5000 sts) m))"
        "fst (bolt_batches tx (n + 1) now (drop 5000 sts) s1) = None \<longrightarrow> take k (drop 5000 sts) = drop 5000 sts"
        using less.hyps [OF _ r l(2)] by blast
      have "take (5000 + k) sts = take 5000 sts @ take k (drop 5000 sts)" by (simp add: take_add)
      then show ?thesis unfolding e using k by (intro exI [of _ "5000 + k"]) (auto simp: fold_append)
    qed
  qed
qed

lemma upsert_any:
  assumes "bolt_rep s m" "list_all stream_ok sts"
  obtains k where "bolt_rep (snd (Bolt_BulkUpsert tx now sts s)) (fold (upsert1 now) (take k sts) m)"
    "fst (Bolt_BulkUpsert tx now sts s) = None \<Longrightarrow> take k sts = sts"
  using batches_any [OF assms] unfolding Bolt_BulkUpsert_def by blast

lemma counted_any:
  "fst (deleted_counted tx ks s) = fst (deleted_counted None ks s)"
  "snd (deleted_counted tx ks s) = (case tx of None \<Rightarrow> snd (deleted_counted None ks s) | Some x \<Rightarrow> s\<lparr>bs_rev := bs_rev (snd (deleted_counted None ks s))\<rparr>)"
  by (cases "bolt_drop_keys ks s"; cases tx; simp add: deleted_counted_def commit_def)+

text \<open>Changes of streams that keep the fields the indexes are made of.\<close>

definition keeps_keys :: "(Stream \<Rightarrow> Stream) \<Rightarrow> bool" where
  "keeps_keys f \<longleftrightarrow> (\<forall>st. st_ID (f st) = st_ID st \<and> (\<forall>k. source_of k (f st) = source_of k st) \<and> st_Group (f st) = st_Group st
     \<and> st_Name (f st) = st_Name st \<and> st_VODType (f st) = st_VODType st)"

definition same_accounts :: "stream_map \<Rightarrow> stream_map \<Rightarrow> bool" where
  "same_accounts m m' \<longleftrightarrow> (\<forall>i. map_option st_M3UAccountID (m i) = map_option st_M3UAccountID (m' i))"

lemma same_accounts_refl [simp]: "same_accounts m m"
  by (simp add: same_accounts_def)

lemma same_accounts_trans: "same_accounts m n \<Longrightarrow> same_accounts n k \<Longrightarrow> same_accounts m k"
  by (simp add: same_accounts_def)

lemma change_stream_rep:
  assumes "bolt_rep s m" "keeps_keys f"
  shows "\<exists>m'. bolt_rep (change_stream now p f i s) m' \<and> same_accounts m' m"
proof (cases "m i")
  case None
  then show ?thesis using assms(1) by (auto simp: change_stream_def rep_decode [OF assms(1)])
next
  case (Some st)
  have f: "source_of k (f x) = source_of k x" for k x using assms(2) by (simp add: keeps_keys_def)
  have rep: "bolt_rep (put_main i ((f st)\<lparr>st_UpdatedAt := now\<rparr>) s) (m(i \<mapsto> (f st)\<lparr>st_UpdatedAt := now\<rparr>))"
  proof (rule change_rep [OF assms(1) Some])
    show "source_of k ((f st)\<lparr>st_UpdatedAt := now\<rparr>) = source_of k st" for k using f [of k st] by (cases k) simp_all
  qed (use assms(2) in \<open>simp_all add: keeps_keys_def\<close>)
  moreover have "same_accounts (m(i \<mapsto> (f st)\<lparr>st_UpdatedAt := now\<rparr>)) m" using f [of M3U st] Some by (auto simp: same_accounts_def)
  ultimately show ?thesis using assms(1) Some by (cases "p st") (auto simp: change_stream_def rep_decode [OF assms(1)])
qed

lemma change_account_rep:
  assumes "bolt_rep s m" "keeps_keys f"
  shows "\<exists>m'. bolt_rep (change_account now a p f s) m' \<and> same_accounts m' m"
proof -
  have "\<exists>m'. bolt_rep (fold (change_stream now p f) xs s) m' \<and> same_accounts m' m" if "bolt_rep s m" for xs s m
    using that
  proof (induction xs arbitrary: s m)
    case (Cons x xs)
    obtain m1 where "bolt_rep (change_stream now p f x s) m1" "same_accounts m1 m" using change_stream_rep [OF Cons.prems assms(2)] by blast
    with Cons.IH [OF this(1)] show ?case using same_accounts_trans by fastforce
  qed auto
  then show ?thesis using assms(1) by (simp add: change_account_def)
qed

lemma commit_rep:
  assumes "bolt_rep s m" "bolt_rep s' m'"
  shows "bolt_rep (snd (commit tx s s')) (if tx = None then m' else m)"
  using assms by (simp add: commit_def rev_rep split: option.split)

end
