(* ===== verification/StreamRuns.thy ===== *)
theory StreamRuns
  imports BoltLaws "HOL-Library.RBT"
begin

text \<open>
  Runs of operations on the three stream stores: they hold the same streams after the same
  operations. For the database store also what is left when a transaction fails, the refresh of a
  source, and the rebuilding of the indexes.
\<close>

section \<open>The same operations on the three stores\<close>

fun plain_exec :: "stream_op \<Rightarrow> StreamStoreImpl \<Rightarrow> StreamStoreImpl" where
  "plain_exec (Upsert now sts) s = StreamStore_BulkUpsert now sts s"
| "plain_exec (Remove i) s = StreamStore_Delete i s"
| "plain_exec (RemoveSource k src) s = plain_delete_by k src s"
| "plain_exec (RemoveStale k src keep) s = snd (plain_delete_stale k src keep s)"
| "plain_exec (RemoveOrphans k known) s = snd (plain_delete_orphans k known s)"
| "plain_exec (UpdateField now i u) s = snd (plain_update now i u s)"
| "plain_exec ClearAll s = StreamStore_Clear s"

fun ix_exec :: "stream_op \<Rightarrow> IndexedStreamStore \<Rightarrow> IndexedStreamStore" where
  "ix_exec (Upsert now sts) s = Indexed_BulkUpsert now sts s"
| "ix_exec (Remove i) s = Indexed_Delete i s"
| "ix_exec (RemoveSource k src) s = ix_delete_by k src s"
| "ix_exec (RemoveStale k src keep) s = snd (ix_delete_stale k src keep s)"
| "ix_exec (RemoveOrphans k known) s = snd (ix_delete_orphans k known s)"
| "ix_exec (UpdateField now i u) s = snd (ix_update now i u s)"
| "ix_exec ClearAll s = Indexed_Clear s"

fun bolt_exec :: "stream_op \<Rightarrow> 'b BoltStreamStore \<Rightarrow> 'b BoltStreamStore" where
  "bolt_exec (Upsert now sts) s = snd (Bolt_BulkUpsert (\<lambda>_. None) now sts s)"
| "bolt_exec (Remove i) s = snd (Bolt_Delete None i s)"
| "bolt_exec (RemoveSource k src) s = bolt_delete_by k src s"
| "bolt_exec (RemoveStale k src keep) s = snd (bolt_delete_stale k src keep s)"
| "bolt_exec (RemoveOrphans k known) s = snd (bolt_delete_orphans k known s)"
| "bolt_exec (UpdateField now i u) s = snd (bolt_update now i u s)"
| "bolt_exec ClearAll s = snd (Bolt_Clear None s)"

lemma exec_eqs: "plain.exec = plain_exec" "ix.exec = ix_exec" "bolt.exec = bolt_exec"
proof -
  show "plain.exec = plain_exec" by (rule ext, rule ext) (case_tac x; simp)
  show "ix.exec = ix_exec" by (rule ext, rule ext) (case_tac x; simp)
  show "bolt.exec = bolt_exec" by (rule ext, rule ext) (case_tac x; simp add: bolt_upsert_def bolt_delete_def bolt_clear_def)
qed

definition empty_bolt :: "'b bucket_ops \<Rightarrow> json_codec \<Rightarrow> 'b BoltStreamStore" where
  "empty_bolt ops c = (let e = bo_empty ops in \<lparr>bs_stream = e, bs_account = e, bs_satip = e, bs_hdhr = e, bs_vod = e, bs_group = e,
     bs_name = e, bs_tree = e, bs_meta = e, bs_rev = 0, bs_ops = ops, bs_json = c\<rparr>)"

lemma empty_bolt_rep: "bucket_ok ops \<Longrightarrow> json_ok c \<Longrightarrow> bolt_rep (empty_bolt ops c) Map.empty"
  by (simp add: empty_bolt_def Let_def bolt_rep_def libs_ok_def main_ok_def indexes_ok_def idx_ok_def
      all_ok_def keyed_def decode_def bucket_laws fun_eq_iff)

lemma bolt_run:
  assumes "bucket_ok bops" "json_ok c" "list_all op_ok ops"
  shows "bolt_rep (fold bolt_exec ops (empty_bolt bops c)) (fold abs_op ops Map.empty)"
proof -
  note e = rep_invar [OF empty_bolt_rep [OF assms(1,2)]]
  show ?thesis using bolt.run_abs [of "empty_bolt bops c" ops] e assms(3) by (auto simp: exec_eqs bolt_invar_def)
qed


text \<open>Turning WireGuard on for an account stamps its streams in the database store and not in the
  in-memory store.\<close>

lemma wireguard_fold:
  fixes now b
  defines "g \<equiv> \<lambda>st. st\<lparr>st_UseWireGuard := b, st_UpdatedAt := now\<rparr>"
  shows "bolt_rep s m \<Longrightarrow>
    bolt_rep (fold (change_stream now (\<lambda>st. True) (\<lambda>st. st\<lparr>st_UseWireGuard := b\<rparr>)) xs s)
      (\<lambda>i. if i \<in> set xs then map_option g (m i) else m i)"
proof (induction xs arbitrary: s m)
  case (Cons x xs)
  let ?f = "change_stream now (\<lambda>st. True) (\<lambda>st. st\<lparr>st_UseWireGuard := b\<rparr>)"
  have idem: "g (g st) = g st" for st by (simp add: g_def)
  have 1: "bolt_rep (?f x s) (m(x := map_option g (m x)))"
  proof (cases "m x")
    case None
    then have "m(x := None) = m" by auto
    with None Cons.prems show ?thesis by (simp add: change_stream_def rep_decode [OF Cons.prems])
  next
    case (Some st)
    have "jc_marshal (bs_json s) y \<noteq> []" for y using Cons.prems by (simp add: bolt_rep_def libs_ok_def json_ok_def)
    moreover have "bolt_rep (put_main x (g st) s) (m(x \<mapsto> g st))"
    proof (rule change_rep [OF Cons.prems Some])
      show "source_of k (g st) = source_of k st" for k by (cases k) (simp_all add: g_def)
    qed (simp_all add: g_def)
    ultimately show ?thesis using Some by (simp add: change_stream_def rep_decode [OF Cons.prems] g_def)
  qed
  have "(\<lambda>i. if i \<in> set xs then map_option g ((m(x := map_option g (m x))) i) else (m(x := map_option g (m x))) i)
      = (\<lambda>i. if i \<in> set (x # xs) then map_option g (m i) else m i)"
    by (auto simp: fun_eq_iff option.map_comp comp_def idem)
  then show ?case using Cons.IH [OF 1] by simp
qed simp

theorem wireguard_times_differ:
  assumes "bolt_rep s m" "plain_id a" "m i = Some st" "st_M3UAccountID st = a"
  shows "Bolt_GetByID i (snd (Bolt_UpdateWireGuardByAccountID None now a b s)) = Inr (st\<lparr>st_UseWireGuard := b, st_UpdatedAt := now\<rparr>)
    \<and> StreamStore_GetByID i (StreamStore_UpdateWireGuardByAccountID a b \<lparr>pm_items = [(i, st)], pm_rev = 0\<rparr>)
      = Inr (st\<lparr>st_UseWireGuard := b\<rparr>)"
proof
  let ?ids = "map suffixAfterSlash (cursor_scan (bs_ops s) (bs_account s) (a @ ''/''))"
  have "i \<in> set ?ids" using source_ids [OF assms(1,2), of M3U] assms(3,4) by auto
  with wireguard_fold [OF assms(1), where b = b and now = now and xs = ?ids]
  show "Bolt_GetByID i (snd (Bolt_UpdateWireGuardByAccountID None now a b s)) = Inr (st\<lparr>st_UseWireGuard := b, st_UpdatedAt := now\<rparr>)"
    using assms(3) by (auto simp: Bolt_UpdateWireGuardByAccountID_def change_account_def not_found_def dest!: get_rep [of _ _ i])
  show "StreamStore_GetByID i (StreamStore_UpdateWireGuardByAccountID a b \<lparr>pm_items = [(i, st)], pm_rev = 0\<rparr>)
      = Inr (st\<lparr>st_UseWireGuard := b\<rparr>)"
    using assms(4) by (simp add: StreamStore_GetByID_def StreamStore_UpdateWireGuardByAccountID_def change_items_def not_found_def)
qed

text \<open>Buckets as red-black trees.\<close>

definition rbt_buckets :: "(string, byte list) rbt bucket_ops" where
  "rbt_buckets = \<lparr>bo_get = RBT.lookup, bo_put = (\<lambda>b k v. RBT.insert k v b), bo_delete = (\<lambda>b k. RBT.delete k b),
     bo_keys = RBT.keys, bo_empty = RBT.empty\<rparr>"

lemma rbt_buckets_ok: "bucket_ok rbt_buckets"
proof -
  have "sorted_wrt (<) (RBT.keys b)" for b :: "(string, byte list) rbt"
    using RBT.sorted_keys [of b] RBT.distinct_keys [of b] by (simp add: strict_sorted_iff)
  then show ?thesis by (simp add: bucket_ok_def rbt_buckets_def RBT.lookup_keys fun_eq_iff restrict_complement_singleton_eq)
qed

definition sample :: "ident \<Rightarrow> Stream" where
  "sample i = \<lparr>st_ID = i, st_M3UAccountID = ''acc'', st_SatIPSourceID = [], st_HDHRSourceID = [], st_Name = ''One'', st_URL = [],
     st_Group = ''News'', st_Logo = [], st_TvgID = [], st_TvgName = [], st_ContentHash = [], st_VODType = [], st_VODSeries = [],
     st_VODCollection = [], st_VODSeason = 0, st_VODSeasonName = [], st_VODEpisode = 0, st_VODYear = 0, st_VODVCodec = [],
     st_VODACodec = [], st_VODRes = [], st_VODAudio = [], st_VODDuration = 0, st_TMDBID = 0, st_TMDBManual = False,
     st_CacheType = [], st_CacheKey = 0, st_Language = [], st_UseWireGuard = False, st_IsActive = True, st_Tracks = [],
     st_CreatedAt = 0, st_UpdatedAt = 0\<rparr>"

definition sample_run :: "stream_op list" where
  "sample_run = [Upsert 1 [sample ''a'', sample ''b''], UpdateField 2 ''a'' (SetManual 7), RemoveStale M3U ''acc'' [''a'']]"

lemma sample_ok: "stream_ok (sample ''a'')" "stream_ok (sample ''b'')"
  by (simp_all add: stream_ok_def sample_def plain_id_def)

lemma sample_run_ok: "list_all op_ok sample_run"
  by (simp add: sample_run_def sample_ok plain_id_def)



section \<open>Invariant, failures and recovery of the database store\<close>




lemma some_rep: "bolt_rep s m \<Longrightarrow> \<exists>m'. bolt_rep s m'"
  by blast











section \<open>Rebuilding the indexes\<close>

definition put_all :: "Stream list \<Rightarrow> stream_map \<Rightarrow> stream_map" where
  "put_all sts m = fold (\<lambda>st m. m(st_ID st \<mapsto> st)) sts m"


lemma add_fold:
  assumes "libs_ok s" "main_ok s m'" "indexes_ok s m" "distinct (map st_ID sts)" "\<forall>st \<in> set sts. stream_ok st \<and> m (st_ID st) = None"
  shows "libs_ok (fold addIndexEntries sts s) \<and> main_ok (fold addIndexEntries sts s) m' \<and> indexes_ok (fold addIndexEntries sts s) (put_all sts m)"
  using assms
proof (induction sts arbitrary: s m)
  case (Cons st sts)
  have "indexes_ok (addIndexEntries st s) (m(st_ID st \<mapsto> st))" using Cons.prems by (intro indexes_add) auto
  moreover have "\<forall>x \<in> set sts. stream_ok x \<and> (m(st_ID st \<mapsto> st)) (st_ID x) = None" using Cons.prems by (auto simp: rev_image_eqI)
  moreover have "put_all (st # sts) m = put_all sts (m(st_ID st \<mapsto> st))" by (simp add: put_all_def)
  ultimately show ?case using Cons.IH [of "addIndexEntries st s" "m(st_ID st \<mapsto> st)"] Cons.prems(1,2,4)
    by (simp del: fun_upd_apply)
qed (simp add: put_all_def)

lemma Bolt_List_keys:
  assumes "libs_ok s" "main_ok s m" "keyed m"
  shows "map st_ID (Bolt_List s) = bo_keys (bs_ops s) (bs_stream s)" "set (Bolt_List s) = ran m"
proof -
  have b: "set (bo_keys (bs_ops s) (bs_stream s)) = dom m" using assms by (simp add: libs_ok_def bucket_laws main_ok_def)
  have "map st_ID (decode_all s ks) = ks" if "set ks \<subseteq> dom m" for ks
    using that
  proof (induction ks)
    case (Cons i ks)
    then obtain st where "decode s i = Some st" "st_ID st = i" using assms(2,3) by (auto simp: main_ok_def keyed_def)
    then show ?case using Cons by (simp add: decode_all_def List.map_filter_simps)
  qed (simp add: decode_all_def List.map_filter_simps)
  then show "map st_ID (Bolt_List s) = bo_keys (bs_ops s) (bs_stream s)" by (simp add: Bolt_List_def b)
  have "decode s = m" using assms(2) by (simp add: main_ok_def)
  then show "set (Bolt_List s) = ran m" unfolding Bolt_List_def decode_all_set b by (auto simp: ran_def)
qed

lemma put_be_mod: "put_be j n = put_be j (n mod 256 ^ j)"
proof (induction j arbitrary: n)
  case (Suc j)
  have m: "n mod 256 ^ Suc j = 256 * (n div 256 mod 256 ^ j) + n mod 256" using mod_mult2_eq [of n 256 "256 ^ j"] by simp
  have "(of_nat (n mod 256 ^ Suc j) :: byte) = of_nat n" unfolding m word_of_nat_eq_iff take_bit_eq_mod by simp
  moreover have "n mod 256 ^ Suc j div 256 = n div 256 mod 256 ^ j" unfolding m by simp
  ultimately show ?case using Suc.IH [of "n div 256"] by simp
qed simp

lemma be_mod: "get_be (put_be k n) = n mod 256 ^ k"
  using put_be_mod [of k n] be_roundtrip [of "n mod 256 ^ k" k] by simp


text \<open>The streams of the batches whose transactions commit.\<close>

function committed :: "(nat \<Rightarrow> error option) \<Rightarrow> nat \<Rightarrow> Stream list \<Rightarrow> Stream list" where
  "committed tx n sts = (if sts = [] then []
     else (if tx n = None then take 5000 sts else []) @ committed tx (n + 1) (drop 5000 sts))"
  by pat_completeness auto
termination by (relation "measure (\<lambda>(tx, n, sts). length sts)") auto

declare committed.simps [simp del]
declare index_batches.simps [simp del]

lemma committed_set: "set (committed tx n sts) \<subseteq> set sts"
proof (induction "length sts" arbitrary: n sts rule: less_induct)
  case less
  show ?case
  proof (cases "sts = []")
    case False
    then have "set (committed tx (n + 1) (drop 5000 sts)) \<subseteq> set (drop 5000 sts)" using less by simp
    then show ?thesis using False by (subst committed.simps) (auto dest: in_set_takeD in_set_dropD)
  qed (simp add: committed.simps)
qed


lemma attempt_None: "attempt None f s = f s"
  by (simp add: attempt_def)

lemma attempt_same:
  "bs_stream (attempt e f s) = (if e = None then bs_stream (f s) else bs_stream s)"
  "bs_ops (attempt e f s) = (if e = None then bs_ops (f s) else bs_ops s)"
  "bs_json (attempt e f s) = (if e = None then bs_json (f s) else bs_json s)"
  by (simp_all add: attempt_def commit_def split: option.split)

lemma attempt_main: "same_main s (f s) \<Longrightarrow> same_main s (attempt e f s)"
  by (auto simp: same_main_def attempt_same)

lemma same_main_trans: "same_main s t \<Longrightarrow> same_main t u \<Longrightarrow> same_main s u"
  by (simp add: same_main_def)

lemma add_entries_main: "same_main s (fold addIndexEntries sts s)"
proof (induction sts arbitrary: s)
  case (Cons st sts)
  then show ?case using same_main_trans [OF same_main_entries(2) Cons.IH] by simp
qed (simp add: same_main_def)

lemma index_batches_main: "same_main s (snd (index_batches tx n sts s))"
proof (induction "length sts" arbitrary: n sts s rule: less_induct)
  case less
  show ?case
  proof (cases "sts = []")
    case True then show ?thesis by (simp add: index_batches.simps same_main_def)
  next
    case False
    then have "same_main (attempt (tx n) (fold addIndexEntries (take 5000 sts)) s) (snd (index_batches tx n sts s))"
      using less [of "drop 5000 sts"] by (subst index_batches.simps) simp
    from same_main_trans [OF attempt_main [OF add_entries_main] this] show ?thesis .
  qed
qed

lemma clear_main: "same_main s (clear_indexes tx s)"
  unfolding clear_indexes_def Let_def
  by (simp add: same_main_def attempt_same)

text \<open>Records are never touched by a rebuild.\<close>

lemma rebuild_main: "same_main s (rebuildIndexes tx s)"
proof -
  obtain n s1 where b: "index_batches tx 7 (Bolt_List s) (clear_indexes tx s) = (n, s1)" by (meson surj_pair)
  have "same_main s s1"
    using same_main_trans [OF clear_main index_batches_main, of s tx 7 "Bolt_List s" tx] b by simp
  moreover have "same_main s1 (attempt (tx n) (setStreamCount (length (Bolt_List s))) s1)"
    by (rule attempt_main) simp
  ultimately show ?thesis using same_main_trans by (fastforce simp: rebuildIndexes_def b)
qed

text \<open>The tree counts the streams of each group, modulo the width of its counters.\<close>

definition group_count :: "Stream list \<Rightarrow> string \<Rightarrow> nat" where
  "group_count sts k = length (filter (\<lambda>st. st_Group st \<noteq> [] \<and> tree_key st = k) sts)"

definition tree_ok :: "'b BoltStreamStore \<Rightarrow> Stream list \<Rightarrow> bool" where
  "tree_ok s sts \<longleftrightarrow> (\<forall>k. bo_get (bs_ops s) (bs_tree s) k =
     (if group_count sts k = 0 then None else Some (put_be 4 (group_count sts k mod 2 ^ 32))))"

lemma tree_key_fits: "stream_ok st \<Longrightarrow> key_fits (tree_key st)"
  using sourceKey_length [of st] by (auto simp: tree_key_def key_fits_def stream_ok_def)

lemma tree_add:
  assumes "libs_ok s" "tree_ok s sts" "stream_ok st"
  shows "tree_ok (addIndexEntries st s) (sts @ [st])"
proof (cases "st_Group st = []")
  case True
  then show ?thesis using assms(2) by (simp add: tree_ok_def addIndexEntries_def group_count_def Let_def)
next
  case False
  let ?n = "group_count sts (tree_key st)"
  have ops: "bs_ops (addIndexEntries st s) = bs_ops s" by (simp add: addIndexEntries_def Let_def)
  have b: "bucket_ok (bs_ops s)" using assms(1) by (simp add: libs_ok_def)
  have old: "bo_get (bs_ops s) (bs_tree s) (tree_key st) = (if ?n = 0 then None else Some (put_be 4 (?n mod 2 ^ 32)))"
    using assms(2) by (simp add: tree_ok_def)
  have "get_be (put_be 4 (?n mod 2 ^ 32)) = ?n mod 2 ^ 32" using be_mod [of 4 "?n mod 2 ^ 32"] by simp
  then have "bs_tree (addIndexEntries st s) = bo_put (bs_ops s) (bs_tree s) (tree_key st) (put_be 4 (Suc ?n mod 2 ^ 32))"
    using False old by (simp add: addIndexEntries_def incrementTreeCount_def Let_def mod_Suc_eq)
  then show ?thesis
    using assms(2) False bucket_laws(2) [OF b tree_key_fits [OF assms(3)]]
    by (simp add: tree_ok_def ops group_count_def)
qed

lemma tree_fold:
  "libs_ok s \<Longrightarrow> tree_ok s xs \<Longrightarrow> \<forall>st \<in> set sts. stream_ok st \<Longrightarrow> tree_ok (fold addIndexEntries sts s) (xs @ sts)"
proof (induction sts arbitrary: s xs)
  case (Cons st sts)
  then have "tree_ok (addIndexEntries st s) (xs @ [st])" "libs_ok (addIndexEntries st s)" using tree_add [of s xs st] by simp_all
  from Cons.IH [OF this(2,1)] Cons.prems(3) show ?case by simp
qed simp

lemma attempt_fail: "e \<noteq> None \<Longrightarrow> attempt e f s = s\<lparr>bs_rev := bs_rev (f s)\<rparr>"
  by (auto simp: attempt_def commit_def)

lemma fail_indexes: "e \<noteq> None \<Longrightarrow> libs_ok (attempt e f s) = libs_ok s \<and> main_ok (attempt e f s) m' = main_ok s m'
    \<and> indexes_ok (attempt e f s) m = indexes_ok s m \<and> tree_ok (attempt e f s) xs = tree_ok s xs"
  using same_libs(1) [of s "attempt e f s"] same_main_ok [of s "attempt e f s"] same_indexes_ok [of s "attempt e f s"]
  by (simp add: attempt_fail same_main_def same_indexes_def tree_ok_def)

lemma put_all_append: "put_all (xs @ ys) m = put_all ys (put_all xs m)"
  by (simp add: put_all_def)

lemma put_all_other: "i \<notin> st_ID ` set sts \<Longrightarrow> put_all sts m i = m i"
  by (induction sts arbitrary: m) (auto simp: put_all_def)

text \<open>Adding the entries batch by batch: what is indexed afterwards are the committed batches.\<close>

lemma index_batches_ok:
  "libs_ok s \<Longrightarrow> main_ok s m' \<Longrightarrow> indexes_ok s m \<Longrightarrow> tree_ok s xs \<Longrightarrow> distinct (map st_ID sts) \<Longrightarrow>
   \<forall>st \<in> set sts. stream_ok st \<and> m (st_ID st) = None \<Longrightarrow>
   libs_ok (snd (index_batches tx n sts s)) \<and> main_ok (snd (index_batches tx n sts s)) m'
     \<and> indexes_ok (snd (index_batches tx n sts s)) (put_all (committed tx n sts) m)
     \<and> tree_ok (snd (index_batches tx n sts s)) (xs @ committed tx n sts)"
proof (induction "length sts" arbitrary: n sts s m xs rule: less_induct)
  case less
  show ?case
  proof (cases "sts = []")
    case True then show ?thesis using less.prems by (simp add: index_batches.simps committed.simps put_all_def)
  next
    case False
    let ?a = "take 5000 sts" and ?b = "drop 5000 sts" and ?c = "if tx n = None then take 5000 sts else []"
    let ?s = "attempt (tx n) (fold addIndexEntries ?a) s"
    have split: "distinct (map st_ID ?a)" "distinct (map st_ID ?b)" "st_ID ` set ?a \<inter> st_ID ` set ?b = {}"
      using less.prems(5) by (metis append_take_drop_id distinct_append map_append set_map)+
    have ok: "\<forall>st \<in> set ?a. stream_ok st \<and> m (st_ID st) = None" "\<forall>st \<in> set ?b. stream_ok st"
      using less.prems(6) by (auto dest: in_set_takeD in_set_dropD)
    have s: "libs_ok ?s \<and> main_ok ?s m' \<and> indexes_ok ?s (put_all ?c m) \<and> tree_ok ?s (xs @ ?c)"
    proof (cases "tx n")
      case None
      then show ?thesis using add_fold [OF less.prems(1-3) split(1) ok(1)] tree_fold [OF less.prems(1,4), of ?a] ok(1)
        by (simp add: attempt_None)
    next
      case (Some e)
      then show ?thesis using fail_indexes [of "tx n" "fold addIndexEntries ?a" s m' m xs] less.prems(1-4) by (simp add: put_all_def)
    qed
    have "\<forall>st \<in> set ?b. stream_ok st \<and> put_all ?c m (st_ID st) = None"
    proof
      fix st assume st: "st \<in> set ?b"
      then have "st_ID st \<notin> st_ID ` set ?c" using split(3) by (auto split: if_splits)
      then show "stream_ok st \<and> put_all ?c m (st_ID st) = None"
        using ok(2) less.prems(6) st put_all_other in_set_dropD by metis
    qed
    from less.hyps [OF _ _ _ _ _ split(2) this, of ?s "xs @ ?c" "n + 1"] s False show ?thesis
      by (subst (1 2 3 4) index_batches.simps, subst (1 2) committed.simps) (simp add: put_all_append)
  qed
qed

lemma count_part: "indexes_ok (attempt e (setStreamCount n) s) m = indexes_ok s m \<and> tree_ok (attempt e (setStreamCount n) s) xs = tree_ok s xs"
proof (cases e)
  case None
  have "same_indexes s (setStreamCount n s)" by simp
  from same_indexes_ok [OF this] have "indexes_ok (setStreamCount n s) m = indexes_ok s m" .
  moreover have "tree_ok (setStreamCount n s) xs = tree_ok s xs" by (simp add: tree_ok_def setStreamCount_def)
  ultimately show ?thesis using None by (simp only: attempt_None)
next
  case (Some x)
  then show ?thesis using fail_indexes [of e "setStreamCount n" s "Map.empty" m xs] by simp
qed

lemma rebuild_ok:
  assumes "libs_ok s" "dom (bo_get (bs_ops s) (bs_stream s)) = dom (decode s)" "all_ok (decode s)" "\<forall>j<7. tx j = None"
  shows "indexes_ok (rebuildIndexes tx s) (put_all (committed tx 7 (Bolt_List s)) Map.empty)
    \<and> tree_ok (rebuildIndexes tx s) (committed tx 7 (Bolt_List s))"
proof -
  have b: "bucket_ok (bs_ops s)" using assms(1) by (simp add: libs_ok_def)
  have m: "main_ok s (decode s)" using assms(2) by (simp add: main_ok_def)
  have k: "keyed (decode s)" using assms(3) by (simp add: all_ok_def)
  note l = Bolt_List_keys [OF assms(1) m k]
  have d: "distinct (map st_ID (Bolt_List s))" unfolding l(1) using bucket_laws(5) [OF b] by (simp add: strict_sorted_iff)
  have c: "clear_indexes tx s = s\<lparr>bs_account := bo_empty (bs_ops s), bs_satip := bo_empty (bs_ops s), bs_hdhr := bo_empty (bs_ops s),
      bs_vod := bo_empty (bs_ops s), bs_group := bo_empty (bs_ops s), bs_name := bo_empty (bs_ops s), bs_tree := bo_empty (bs_ops s)\<rparr>"
    using assms(4) by (simp add: clear_indexes_def attempt_None Let_def)
  have a: "libs_ok (clear_indexes tx s)" "main_ok (clear_indexes tx s) (decode s)"
    using same_libs(1) [OF clear_main] same_main_ok [OF clear_main] assms(1) m by blast+
  have i: "indexes_ok (clear_indexes tx s) Map.empty" "tree_ok (clear_indexes tx s) []"
    by (simp_all add: c indexes_ok_def idx_ok_def tree_ok_def group_count_def bucket_laws [OF b])
  have ok: "\<forall>st \<in> set (Bolt_List s). stream_ok st \<and> Map.empty (st_ID st) = None" using assms(3) by (simp add: l(2) all_ok_def)
  note r = index_batches_ok [OF a i d ok, of tx 7]
  obtain n s1 where "index_batches tx 7 (Bolt_List s) (clear_indexes tx s) = (n, s1)" by (meson surj_pair)
  with r show ?thesis by (simp add: rebuildIndexes_def count_part)
qed





text \<open>A rebuild that was interrupted after one stream with a group is never completed: the tree is no
  longer empty, so \<open>Load\<close> does not rebuild again, and the streams of the batches that failed stay
  out of the indexes.\<close>

theorem interrupted_rebuild_stays:
  assumes "libs_ok s" "dom (bo_get (bs_ops s) (bs_stream s)) = dom (decode s)" "all_ok (decode s)" "\<forall>j<7. tx j = None"
    and "st \<in> set (committed tx 7 (Bolt_List s))" "st_Group st \<noteq> []"
  shows "Bolt_Load tx' (rebuildIndexes tx s) = loadRevision (rebuildIndexes tx s)"
proof -
  let ?r = "rebuildIndexes tx s"
  have b: "bucket_ok (bs_ops ?r)" using same_libs(1) [OF rebuild_main] assms(1) by (auto simp: libs_ok_def)
  have "group_count (committed tx 7 (Bolt_List s)) (tree_key st) \<noteq> 0"
    using assms(5,6) by (auto simp: group_count_def filter_empty_conv)
  then have "bo_get (bs_ops ?r) (bs_tree ?r) (tree_key st) \<noteq> None"
    using rebuild_ok [OF assms(1-4)] by (simp add: tree_ok_def)
  then have "bo_keys (bs_ops ?r) (bs_tree ?r) \<noteq> []" using bucket_laws(4) [OF b, of "bs_tree ?r"] by fastforce
  moreover have "bs_ops (loadRevision ?r) = bs_ops ?r" "bs_tree (loadRevision ?r) = bs_tree ?r"
    by (simp_all add: loadRevision_def split: option.split)
  ultimately show ?thesis by (simp add: Bolt_Load_def Let_def)
qed







lemma bolt_batches_fail:
  assumes "bolt_rep s m" "list_all stream_ok sts" "\<forall>j<k. tx (n + j) = None" "tx (n + k) = Some e" "5000 * k < length sts"
  shows "fst (bolt_batches tx n now sts s) = Some e \<and> bolt_rep (snd (bolt_batches tx n now sts s)) (fold (upsert1 now) (take (5000 * k) sts) m)"
  using assms
proof (induction k arbitrary: n sts s m)
  case 0
  have "bolt_rep (s\<lparr>bs_rev := r\<rparr>) m = bolt_rep s m" for r
    by (rule same_rep) (simp_all add: same_main_def same_indexes_def)
  then show ?case using 0 by (subst (1 2) bolt_batches.simps) (auto simp: commit_def)
next
  case (Suc k)
  define s1 where "s1 = bulkUpsertBatch now (take 5000 sts) s"
  have l: "list_all stream_ok (take 5000 sts)" "list_all stream_ok (drop 5000 sts)"
    using Suc.prems(2) by (auto simp: list_all_iff dest: in_set_takeD in_set_dropD)
  have r: "bolt_rep s1 (fold (upsert1 now) (take 5000 sts) m)" unfolding s1_def by (rule bulkUpsertBatch_rep [OF Suc.prems(1) l(1)])
  have t: "\<forall>j<k. tx (n + 1 + j) = None" "tx (n + 1 + k) = Some e" "tx n = None"
    using Suc.prems(3,4) by (auto dest: spec [of _ "Suc _"])
  have "take 5000 sts @ take (5000 * k) (drop 5000 sts) = take (5000 * Suc k) sts" by (simp add: take_add)
  then have f: "fold (upsert1 now) (take (5000 * k) (drop 5000 sts)) (fold (upsert1 now) (take 5000 sts) m)
      = fold (upsert1 now) (take (5000 * Suc k) sts) m" by (metis comp_apply fold_append)
  have "5000 * k < length (drop 5000 sts)" "sts \<noteq> []" using Suc.prems(5) by auto
  then show ?case using Suc.IH [OF r l(2) t(1,2)] f t(3)
    by (subst (1 2) bolt_batches.simps) (simp add: commit_def flip: s1_def)
qed

text \<open>C29: A bulk upsert whose transaction \<open>k\<close> fails reports the failure and leaves exactly the streams of
  the batches before it, with the indexes in agreement.\<close>

theorem BulkUpsert_failure:
  assumes "bolt_invar s" "list_all stream_ok sts" "\<forall>j<k. tx j = None" "tx k = Some e" "5000 * k < length sts"
  shows "fst (Bolt_BulkUpsert tx now sts s) = Some e \<and> bolt_invar (snd (Bolt_BulkUpsert tx now sts s))
    \<and> decode (snd (Bolt_BulkUpsert tx now sts s)) = fold (upsert1 now) (take (5000 * k) sts) (decode s)"
proof -
  have "bolt_rep s (decode s)" "\<forall>j<k. tx (0 + j) = None" "tx (0 + k) = Some e" using assms by (simp_all add: bolt_invar_def)
  note f = bolt_batches_fail [OF this(1) assms(2) this(2,3) assms(5), of now]
  show ?thesis unfolding Bolt_BulkUpsert_def using conjunct1 [OF f] rep_invar [OF conjunct2 [OF f]] by blast
qed

definition many :: "Stream list" where
  "many = replicate 5001 (sample ''a'')"

theorem BulkUpsert_failure_witness:
  "decode (snd (Bolt_BulkUpsert (\<lambda>n. if n = 1 then Some ''full'' else None) 1 many (empty_bolt rbt_buckets numbering)))
     = fold (upsert1 1) (take (5000 * 1) many) (decode (empty_bolt rbt_buckets numbering))"
proof -
  have i: "bolt_invar (empty_bolt rbt_buckets numbering)" using rep_invar [OF empty_bolt_rep [OF rbt_buckets_ok numbering_ok]] by blast
  have s: "list_all stream_ok many" "5000 * 1 < length many" by (simp_all add: list_all_iff sample_ok many_def)
  show ?thesis
    by (rule BulkUpsert_failure [OF i s(1) _ _ s(2), THEN conjunct2, THEN conjunct2]) simp_all
qed

section \<open>Groups\<close>

lemma group_scan:
  assumes "bolt_rep s m"
  shows "set (cursor_scan (bs_ops s) (bs_group s) p) = {k. HasPrefix k p \<and> (\<exists>st \<in> ran m. group_key st = Some k)}"
  using assms by (auto simp: scan_set [OF rep_bucket [OF assms]] bolt_rep_def indexes_ok_def idx_ok_def)

text \<open>A group whose name continues with a slash is counted for its parent.\<close>

theorem ListByGroup_counts_subgroups:
  assumes "bolt_invar s" "decode s i = Some st" "sourceKey st = sk" "st_Group st = g @ CHR ''/'' # h"
  shows "snd (Bolt_ListByGroup sk g offset limit s) > 0"
proof -
  have r: "bolt_rep s (decode s)" using assms(1) by (simp add: bolt_invar_def)
  have "sk @ CHR ''/'' # (g @ CHR ''/'' # h) @ CHR ''/'' # st_ID st \<in> set (cursor_scan (bs_ops s) (bs_group s) (sk @ CHR ''/'' # g @ ''/''))"
    unfolding group_scan [OF r] using assms(2-4) by (auto simp: group_key_def HasPrefix_def prefix_def ran_def)
  then have "cursor_scan (bs_ops s) (bs_group s) (sk @ CHR ''/'' # g @ ''/'') \<noteq> []" by auto
  then show ?thesis by (simp add: Bolt_ListByGroup_def Let_def)
qed

text \<open>Deleting the streams of a source leaves the stored number of streams as it was.\<close>

lemma drop_meta: "bs_meta (snd (fold bolt_drop is (d, s))) = bs_meta s \<and> bs_ops (snd (fold bolt_drop is (d, s))) = bs_ops s"
proof (induction "is" arbitrary: d s)
  case (Cons i "is")
  obtain d1 s1 where e: "bolt_drop i (d, s) = (d1, s1)" by (meson surj_pair)
  then have "bs_meta s1 = bs_meta s \<and> bs_ops s1 = bs_ops s"
    by (auto simp: bolt_drop_def delete_main_def removeIndexEntries_def Let_def split: option.splits)
  then show ?case using Cons.IH [of d1 s1] e by simp
qed simp

theorem delete_source_keeps_count:
  assumes "bucket_ok (bs_ops s)"
  shows "read_u64 (bolt_delete_by k src s) stream_count_key = read_u64 s stream_count_key"
proof -
  let ?ks = "cursor_scan (bs_ops s) (bs_source k s) (src @ ''/'')"
  obtain del s1 where d: "bolt_drop_keys ?ks s = (del, s1)" by (meson surj_pair)
  then have m: "bs_meta s1 = bs_meta s" "bs_ops s1 = bs_ops s" using drop_meta [of "map suffixAfterSlash ?ks" "[]" s] by (simp_all add: bolt_drop_keys_def)
  have "read_u64 (bumpRevision s1) stream_count_key = read_u64 s stream_count_key"
    using assms by (simp add: read_u64_def bumpRevision_def Let_def m bucket_laws key_fits_def revision_key_def stream_count_key_def)
  then show ?thesis using d m by (simp add: bolt_delete_by_eq deleteByIndex_def Let_def) (simp add: read_u64_def)
qed


section \<open>Statistics\<close>

fun contig :: "string list \<Rightarrow> bool" where
  "contig [] = True"
| "contig (x # xs) \<longleftrightarrow> contig xs \<and> (x \<in> set xs \<longrightarrow> hd xs = x)"

lemma prefix_counts_spec:
  assumes "contig (l # map prefixBeforeSlash ks)" "[] \<notin> prefixBeforeSlash ` set ks" "q \<noteq> []"
  shows "prefix_counts pre ks l n m (pre @ q) = (if q = l then Some (n + length (filter (\<lambda>k. prefixBeforeSlash k = q) ks))
    else if q \<in> prefixBeforeSlash ` set ks then Some (length (filter (\<lambda>k. prefixBeforeSlash k = q) ks)) else m (pre @ q))"
  using assms
proof (induction ks arbitrary: l n m)
  case (Cons k ks)
  show ?case
  proof (cases "prefixBeforeSlash k = l")
    case True
    then have "contig (l # map prefixBeforeSlash ks)" using Cons.prems(1) by auto
    then show ?thesis using Cons.IH [of l "n + 1" m] Cons.prems True by auto
  next
    case False
    then have "l \<notin> prefixBeforeSlash ` set ks" "contig (prefixBeforeSlash k # map prefixBeforeSlash ks)" using Cons.prems(1) by auto
    moreover have "filter (\<lambda>x. prefixBeforeSlash x = l) ks = []" if "l \<notin> prefixBeforeSlash ` set ks"
      using that by (auto simp: filter_empty_conv)
    ultimately show ?thesis
      using Cons.IH [of "prefixBeforeSlash k" 1 "if l \<noteq> [] then m(pre @ l \<mapsto> n) else m"] Cons.prems(2,3) False by (auto simp: Let_def)
  qed
qed simp

lemma prefix_counts_other:
  "(\<And>x. q \<noteq> pre @ x) \<Longrightarrow> prefix_counts pre ks l n m q = m q"
  by (induction ks arbitrary: l n m) (simp_all add: Let_def)

lemma sorted_contig:
  assumes "sorted_wrt (<) ks" "\<forall>k \<in> set ks. HasPrefix k (prefixBeforeSlash k @ ''/'')"
  shows "contig (map prefixBeforeSlash ks)"
  using assms
proof (induction ks)
  case (Cons k ks)
  let ?p = "prefixBeforeSlash k"
  have "prefixBeforeSlash (hd ks) = ?p" if a: "?p \<in> prefixBeforeSlash ` set ks"
  proof -
    obtain k1 r where ks: "ks = k1 # r" using a by (cases ks) auto
    obtain k2 where k2: "k2 \<in> set ks" "prefixBeforeSlash k2 = ?p" using a by auto
    have lt: "k < k1" "k2 = k1 \<or> k1 < k2" using Cons.prems(1) k2(1) ks by auto
    have px: "prefix (?p @ ''/'') k" "prefix (?p @ ''/'') k2" using Cons.prems(2) k2 by (auto simp: HasPrefix_def)
    then have "\<not> k1 < ?p @ ''/''" using prefix_not_less lt(1) less_trans by blast
    then have "prefix (?p @ ''/'') k1" using prefix_between px(2) lt(2) by blast
    then obtain z where "k1 = ?p @ CHR ''/'' # z" by (auto simp: prefix_def)
    moreover have "CHR ''/'' \<notin> set ?p" by (auto simp: prefixBeforeSlash_def dest: set_takeWhileD)
    ultimately show ?thesis using ks by simp
  qed
  then show ?case using Cons by (cases ks) auto
qed simp

lemma source_count:
  assumes "bolt_rep s m" "plain_id src" "st \<in> ran m" "source_of k st = src"
  shows "prefix_counts pre (bo_keys (bs_ops s) (bs_source k s)) [] 0 f (pre @ src) = Some (card {st \<in> ran m. source_of k st = src})"
proof -
  let ?ks = "bo_keys (bs_ops s) (bs_source k s)"
  note b = rep_bucket [OF assms(1)]
  have ks: "set ?ks = {source_of k st @ CHR ''/'' # st_ID st | st. st \<in> ran m \<and> source_of k st \<noteq> []}"
    unfolding bucket_laws(4) [OF b] source_keys [OF assms(1)] ..
  have pk: "prefixBeforeSlash (source_of k x @ CHR ''/'' # st_ID x) = source_of k x" if "x \<in> ran m" "source_of k x \<noteq> []" for x
    using key_parts(2) rep_ran [OF assms(1) that(1)] that(2) by blast
  have ne: "src \<noteq> []" "[] \<notin> prefixBeforeSlash ` set ?ks" using assms(2) pk by (auto simp: plain_id_def ks)
  have srt: "sorted_wrt (<) ?ks" by (rule bucket_laws(5) [OF b])
  have "contig (map prefixBeforeSlash ?ks)"
    by (rule sorted_contig [OF srt]) (use pk in \<open>auto simp: ks HasPrefix_def prefix_def\<close>)
  then have c: "contig ([] # map prefixBeforeSlash ?ks)" using ne(2) by simp
  have f: "set (filter (\<lambda>x. prefixBeforeSlash x = src) ?ks) = (\<lambda>st. src @ CHR ''/'' # st_ID st) ` {st \<in> ran m. source_of k st = src}"
    using pk ne(1) by (force simp: ks)
  have "inj_on (\<lambda>st. src @ CHR ''/'' # st_ID st) {st \<in> ran m. source_of k st = src}"
    using rep_ran [OF assms(1)] by (intro inj_onI) (metis (no_types, lifting) append_same_eq list.inject mem_Collect_eq option.inject same_append_eq)
  then have n: "length (filter (\<lambda>x. prefixBeforeSlash x = src) ?ks) = card {st \<in> ran m. source_of k st = src}"
    using srt by (metis (no_types, lifting) card_image distinct_card distinct_filter f strict_sorted_iff)
  have "src @ CHR ''/'' # st_ID st \<in> set ?ks" using assms(3,4) ne(1) by (auto simp: ks)
  then have "src \<in> prefixBeforeSlash ` set ?ks" using pk [OF assms(3)] assms(4) ne(1) by force
  then show ?thesis using prefix_counts_spec [OF c ne(2,1), of pre 0 f] ne(1) n by simp
qed

fun stats_name :: "source_kind \<Rightarrow> ident \<Rightarrow> string" where
  "stats_name M3U src = src"
| "stats_name SatIP src = ''satip:'' @ src"
| "stats_name HDHR src = ''hdhr:'' @ src"

text \<open>C40: The statistics give for every source that has streams their exact number, and the total.\<close>

theorem Stats_counts:
  assumes "bolt_invar s" "st \<in> ran (decode s)" "source_of k st = src" "plain_id src" "CHR '':'' \<notin> set src"
  shows "ss_BySource (Bolt_Stats s) (stats_name k src) = Some (card {st \<in> ran (decode s). source_of k st = src})
    \<and> ss_Total (Bolt_Stats s) = card (dom (decode s))"
proof -
  have r: "bolt_rep s (decode s)" using assms(1) by (simp add: bolt_invar_def)
  note b = rep_bucket [OF r]
  have "card (set (bo_keys (bs_ops s) (bs_stream s))) = length (bo_keys (bs_ops s) (bs_stream s))"
    by (rule distinct_card) (use bucket_laws(5) [OF b] in \<open>simp add: strict_sorted_iff\<close>)
  then have t: "ss_Total (Bolt_Stats s) = card (dom (decode s))"
    using r by (simp add: Bolt_Stats_def Let_def bucket_laws(4) [OF b] bolt_rep_def main_ok_def)
  note c = source_count [OF r assms(4,2,3)]
  have o: "prefix_counts ''hdhr:'' ks l n f (''satip:'' @ src) = f (''satip:'' @ src)" "prefix_counts ''hdhr:'' ks l n f src = f src"
    "prefix_counts ''satip:'' ks l n f src = f src" for ks l n f
    using assms(5) by (auto intro!: prefix_counts_other)
  show ?thesis
  proof (cases k)
    case M3U then show ?thesis using t c [of "[]" Map.empty] by (simp add: Bolt_Stats_def Let_def o)
  next
    case SatIP
    show ?thesis using t c [of "''satip:''"] o(1) unfolding SatIP by (simp add: Bolt_Stats_def Let_def del: append_Cons)
  next
    case HDHR
    show ?thesis using t c [of "''hdhr:''"] unfolding HDHR by (simp add: Bolt_Stats_def Let_def del: append_Cons)
  qed
qed


theorem Stats_counts_witness:
  "ss_BySource (Bolt_Stats (fold bolt_exec sample_run (empty_bolt rbt_buckets numbering))) ''acc'' = Some 1"
proof -
  let ?s = "fold bolt_exec sample_run (empty_bolt rbt_buckets numbering)"
  note r = bolt_run [OF rbt_buckets_ok numbering_ok sample_run_ok]
  have "decode ?s = fold abs_op sample_run Map.empty" by (rule rep_decode [OF r])
  also have "\<dots> = [''a'' \<mapsto> (sample ''a'')\<lparr>st_CreatedAt := 1, st_UpdatedAt := 2, st_TMDBID := 7, st_TMDBManual := True\<rparr>]"
    by (auto simp: sample_run_def upsert1_def merged_def sample_def update1_def drop_streams_def fun_eq_iff)
  finally have d: "decode ?s = [''a'' \<mapsto> (sample ''a'')\<lparr>st_CreatedAt := 1, st_UpdatedAt := 2, st_TMDBID := 7, st_TMDBManual := True\<rparr>]" .
  then have ran: "ran (decode ?s) = {(sample ''a'')\<lparr>st_CreatedAt := 1, st_UpdatedAt := 2, st_TMDBID := 7, st_TMDBManual := True\<rparr>}" by simp
  have "{st \<in> ran (decode ?s). source_of M3U st = ''acc''} = ran (decode ?s)" by (auto simp: ran sample_def)
  moreover have "bolt_invar ?s" using rep_invar [OF r] by blast
  ultimately show ?thesis
    using Stats_counts [of ?s "(sample ''a'')\<lparr>st_CreatedAt := 1, st_UpdatedAt := 2, st_TMDBID := 7, st_TMDBManual := True\<rparr>" M3U "''acc''"]
    by (simp add: ran plain_id_def) (simp add: sample_def)
qed

end
