(* ===== verification/SourceStores.thy ===== *)
theory SourceStores
  imports Stores
begin

text \<open>
  The stores of the places streams and guides come from: M3U accounts
  (\<open>pkg/store/m3u_account.go\<close>), guide sources (\<open>epg_source.go\<close>), SAT>IP and HDHomeRun sources
  (\<open>satip_source.go\<close>, \<open>hdhr_source.go\<close>) and the virtual HDHomeRun devices (\<open>hdhr_device.go\<close>). Each keeps
  a slice and writes it to a JSON file.
\<close>

section \<open>Shared loops\<close>

text \<open>The first record that matches is changed and the file is written, or there is an error; the
  SAT>IP and HDHomeRun sources write the file in both cases.\<close>

definition change_first :: "env \<Rightarrow> error \<Rightarrow> ('r \<Rightarrow> bool) \<Rightarrow> ('r \<Rightarrow> 'r) \<Rightarrow> 'r list \<Rightarrow> error option \<times> 'r list" where
  "change_first e missing p f s = (case update_first p f s of None \<Rightarrow> (Some missing, s) | Some s' \<Rightarrow> (e_save e, s'))"

definition touch_first :: "env \<Rightarrow> ('r \<Rightarrow> bool) \<Rightarrow> ('r \<Rightarrow> 'r) \<Rightarrow> 'r list \<Rightarrow> error option \<times> 'r list" where
  "touch_first e p f s = (e_save e, case update_first p f s of None \<Rightarrow> s | Some s' \<Rightarrow> s')"

definition cut_first :: "env \<Rightarrow> ('r \<Rightarrow> bool) \<Rightarrow> 'r list \<Rightarrow> error option \<times> 'r list" where
  "cut_first e p s = (case delete_first p s of None \<Rightarrow> (None, s) | Some s' \<Rightarrow> (e_save e, s'))"

section \<open>M3U accounts\<close>

record M3UAccount =
  ma_ID :: ident
  ma_Name :: string
  ma_URL :: string
  ma_Type :: string
  ma_Username :: string
  ma_Password :: string
  ma_MaxStreams :: int
  ma_IsEnabled :: bool
  ma_LastRefreshed :: "time option"
  ma_StreamCount :: int
  ma_RefreshInterval :: int
  ma_LastError :: string
  ma_UseWireGuard :: bool
  ma_UseXtreamMetadata :: bool
  ma_SourceProfileID :: ident
  ma_TLSEnrolled :: bool
  ma_ETag :: string
  ma_CreatedAt :: time
  ma_UpdatedAt :: time

type_synonym accounts = "M3UAccount list"

definition account_missing :: error where "account_missing = ''m3u account not found''"

definition M3UStore_Load :: "M3UAccount json_file \<Rightarrow> accounts \<Rightarrow> error option \<times> accounts" where
  "M3UStore_Load = load_slice"

definition account_entry :: "env \<Rightarrow> M3UAccount \<Rightarrow> M3UAccount" where
  "account_entry e a = a\<lparr>ma_ID := or_uuid e (ma_ID a), ma_CreatedAt := e_now e, ma_UpdatedAt := e_now e\<rparr>"

definition M3UStore_Create :: "env \<Rightarrow> M3UAccount \<Rightarrow> accounts \<Rightarrow> error option \<times> accounts" where
  "M3UStore_Create e a s = (e_save e, s @ [account_entry e a])"

definition M3UStore_GetByID :: "ident \<Rightarrow> accounts \<Rightarrow> error + M3UAccount" where
  "M3UStore_GetByID i s = not_found account_missing (find (\<lambda>a. ma_ID a = i) s)"

definition M3UStore_List :: "accounts \<Rightarrow> accounts" where
  "M3UStore_List s = s"

definition account_put :: "env \<Rightarrow> M3UAccount \<Rightarrow> M3UAccount \<Rightarrow> M3UAccount" where
  "account_put e a old = a\<lparr>ma_UpdatedAt := e_now e, ma_CreatedAt := ma_CreatedAt old\<rparr>"

definition M3UStore_Update :: "env \<Rightarrow> M3UAccount \<Rightarrow> accounts \<Rightarrow> error option \<times> accounts" where
  "M3UStore_Update e a s = change_first e account_missing (\<lambda>x. ma_ID x = ma_ID a) (account_put e a) s"

definition M3UStore_Delete :: "env \<Rightarrow> ident \<Rightarrow> accounts \<Rightarrow> error option \<times> accounts" where
  "M3UStore_Delete e i s = cut_first e (\<lambda>a. ma_ID a = i) s"

definition account_field :: "env \<Rightarrow> ident \<Rightarrow> (M3UAccount \<Rightarrow> M3UAccount) \<Rightarrow> accounts \<Rightarrow> error option \<times> accounts" where
  "account_field e i f s = change_first e account_missing (\<lambda>a. ma_ID a = i) (\<lambda>a. (f a)\<lparr>ma_UpdatedAt := e_now e\<rparr>) s"

definition M3UStore_UpdateLastRefreshed :: "env \<Rightarrow> ident \<Rightarrow> time \<Rightarrow> accounts \<Rightarrow> error option \<times> accounts" where
  "M3UStore_UpdateLastRefreshed e i t s = account_field e i (\<lambda>a. a\<lparr>ma_LastRefreshed := Some t\<rparr>) s"

definition M3UStore_UpdateLastError :: "env \<Rightarrow> ident \<Rightarrow> string \<Rightarrow> accounts \<Rightarrow> error option \<times> accounts" where
  "M3UStore_UpdateLastError e i lastError s = account_field e i (\<lambda>a. a\<lparr>ma_LastError := lastError\<rparr>) s"

definition M3UStore_UpdateStreamCount :: "env \<Rightarrow> ident \<Rightarrow> int \<Rightarrow> accounts \<Rightarrow> error option \<times> accounts" where
  "M3UStore_UpdateStreamCount e i n s = account_field e i (\<lambda>a. a\<lparr>ma_StreamCount := n\<rparr>) s"

definition M3UStore_UpdateETag :: "env \<Rightarrow> ident \<Rightarrow> string \<Rightarrow> accounts \<Rightarrow> error option \<times> accounts" where
  "M3UStore_UpdateETag e i etag s = account_field e i (\<lambda>a. a\<lparr>ma_ETag := etag\<rparr>) s"

definition M3UStore_ClearAndSave :: "env \<Rightarrow> accounts \<Rightarrow> error option \<times> accounts" where
  "M3UStore_ClearAndSave e s = (e_save e, [])"

section \<open>Guide sources\<close>

record EPGSource =
  es_ID :: ident
  es_Name :: string
  es_URL :: string
  es_IsEnabled :: bool
  es_UseWireGuard :: bool
  es_LastRefreshed :: "time option"
  es_ChannelCount :: int
  es_ProgramCount :: int
  es_LastError :: string
  es_ETag :: string
  es_CreatedAt :: time
  es_UpdatedAt :: time

type_synonym epg_sources = "EPGSource list"

definition epg_source_missing :: error where "epg_source_missing = ''epg source not found''"

definition EPGSourceStore_Load :: "EPGSource json_file \<Rightarrow> epg_sources \<Rightarrow> error option \<times> epg_sources" where
  "EPGSourceStore_Load = load_slice"

definition epg_source_entry :: "env \<Rightarrow> EPGSource \<Rightarrow> EPGSource" where
  "epg_source_entry e a = a\<lparr>es_ID := or_uuid e (es_ID a), es_CreatedAt := e_now e, es_UpdatedAt := e_now e\<rparr>"

definition EPGSourceStore_Create :: "env \<Rightarrow> EPGSource \<Rightarrow> epg_sources \<Rightarrow> error option \<times> epg_sources" where
  "EPGSourceStore_Create e a s = (e_save e, s @ [epg_source_entry e a])"

definition EPGSourceStore_GetByID :: "ident \<Rightarrow> epg_sources \<Rightarrow> error + EPGSource" where
  "EPGSourceStore_GetByID i s = not_found epg_source_missing (find (\<lambda>a. es_ID a = i) s)"

definition EPGSourceStore_List :: "epg_sources \<Rightarrow> epg_sources" where
  "EPGSourceStore_List s = s"

definition epg_source_put :: "env \<Rightarrow> EPGSource \<Rightarrow> EPGSource \<Rightarrow> EPGSource" where
  "epg_source_put e a old = a\<lparr>es_UpdatedAt := e_now e, es_CreatedAt := es_CreatedAt old\<rparr>"

definition EPGSourceStore_Update :: "env \<Rightarrow> EPGSource \<Rightarrow> epg_sources \<Rightarrow> error option \<times> epg_sources" where
  "EPGSourceStore_Update e a s = change_first e epg_source_missing (\<lambda>x. es_ID x = es_ID a) (epg_source_put e a) s"

definition EPGSourceStore_Delete :: "env \<Rightarrow> ident \<Rightarrow> epg_sources \<Rightarrow> error option \<times> epg_sources" where
  "EPGSourceStore_Delete e i s = cut_first e (\<lambda>a. es_ID a = i) s"

definition epg_source_field :: "env \<Rightarrow> ident \<Rightarrow> (EPGSource \<Rightarrow> EPGSource) \<Rightarrow> epg_sources \<Rightarrow> error option \<times> epg_sources" where
  "epg_source_field e i f s = change_first e epg_source_missing (\<lambda>a. es_ID a = i) (\<lambda>a. (f a)\<lparr>es_UpdatedAt := e_now e\<rparr>) s"

definition EPGSourceStore_UpdateLastRefreshed :: "env \<Rightarrow> ident \<Rightarrow> time \<Rightarrow> epg_sources \<Rightarrow> error option \<times> epg_sources" where
  "EPGSourceStore_UpdateLastRefreshed e i t s = epg_source_field e i (\<lambda>a. a\<lparr>es_LastRefreshed := Some t\<rparr>) s"

definition EPGSourceStore_UpdateLastError :: "env \<Rightarrow> ident \<Rightarrow> string \<Rightarrow> epg_sources \<Rightarrow> error option \<times> epg_sources" where
  "EPGSourceStore_UpdateLastError e i lastError s = epg_source_field e i (\<lambda>a. a\<lparr>es_LastError := lastError\<rparr>) s"

definition EPGSourceStore_UpdateETag :: "env \<Rightarrow> ident \<Rightarrow> string \<Rightarrow> epg_sources \<Rightarrow> error option \<times> epg_sources" where
  "EPGSourceStore_UpdateETag e i etag s = epg_source_field e i (\<lambda>a. a\<lparr>es_ETag := etag\<rparr>) s"

definition EPGSourceStore_ClearAndSave :: "env \<Rightarrow> epg_sources \<Rightarrow> error option \<times> epg_sources" where
  "EPGSourceStore_ClearAndSave e s = (e_save e, [])"

section \<open>SAT>IP sources\<close>

record SatIPSource =
  sa_ID :: ident
  sa_Name :: string
  sa_Host :: string
  sa_HTTPPort :: int
  sa_IsEnabled :: bool
  sa_TransmitterFile :: string
  sa_LastScanned :: "time option"
  sa_StreamCount :: int
  sa_LastError :: string
  sa_SourceProfileID :: ident
  sa_CreatedAt :: time
  sa_UpdatedAt :: time

type_synonym satip_sources = "SatIPSource list"

definition satip_missing :: "ident \<Rightarrow> error" where "satip_missing i = ''satip source not found: '' @ i"

fun load_wrapped :: "string \<Rightarrow> string \<Rightarrow> 'r json_file \<Rightarrow> 'r list \<Rightarrow> error option \<times> 'r list" where
  "load_wrapped rd ps NotExist s = (None, s)"
| "load_wrapped rd ps (Unreadable e) s = (Some (rd @ e), s)"
| "load_wrapped rd ps (Contents xs) s = (None, xs)"
| "load_wrapped rd ps (Malformed e xs) s = (Some (ps @ e), s)"

definition SatIPStore_Load :: "SatIPSource json_file \<Rightarrow> satip_sources \<Rightarrow> error option \<times> satip_sources" where
  "SatIPStore_Load = load_wrapped ''reading satip sources file: '' ''parsing satip sources file: ''"

definition quoted :: "string \<Rightarrow> string" where
  "quoted n = CHR 0x22 # n @ [CHR 0x22]"

text \<open>The quotation \<open>%q\<close> of a name in an error message is written for names without characters to
  escape.\<close>

definition satip_entry :: "env \<Rightarrow> SatIPSource \<Rightarrow> SatIPSource" where
  "satip_entry e a = a\<lparr>sa_ID := e_uuid e 0, sa_CreatedAt := e_now e, sa_UpdatedAt := e_now e\<rparr>"

definition satip_refused :: "SatIPSource \<Rightarrow> satip_sources \<Rightarrow> error option" where
  "satip_refused a s = (if list_ex (\<lambda>x. sa_Name x = sa_Name a) s
     then Some (''satip source with name '' @ quoted (sa_Name a) @ '' already exists'') else None)"

definition SatIPStore_Create :: "env \<Rightarrow> SatIPSource \<Rightarrow> satip_sources \<Rightarrow> error option \<times> satip_sources" where
  "SatIPStore_Create e a s = (case satip_refused a s of Some x \<Rightarrow> (Some x, s) | None \<Rightarrow> (e_save e, s @ [satip_entry e a]))"

definition SatIPStore_GetByID :: "ident \<Rightarrow> satip_sources \<Rightarrow> error + SatIPSource" where
  "SatIPStore_GetByID i s = not_found (satip_missing i) (find (\<lambda>a. sa_ID a = i) s)"

definition SatIPStore_List :: "satip_sources \<Rightarrow> satip_sources" where
  "SatIPStore_List s = s"

definition satip_put :: "env \<Rightarrow> SatIPSource \<Rightarrow> SatIPSource \<Rightarrow> SatIPSource" where
  "satip_put e a old = a\<lparr>sa_UpdatedAt := e_now e, sa_CreatedAt := sa_CreatedAt old\<rparr>"

definition SatIPStore_Update :: "env \<Rightarrow> SatIPSource \<Rightarrow> satip_sources \<Rightarrow> error option \<times> satip_sources" where
  "SatIPStore_Update e a s = change_first e (satip_missing (sa_ID a)) (\<lambda>x. sa_ID x = sa_ID a) (satip_put e a) s"

definition SatIPStore_Delete :: "env \<Rightarrow> ident \<Rightarrow> satip_sources \<Rightarrow> error option \<times> satip_sources" where
  "SatIPStore_Delete e i s = (e_save e, filter (\<lambda>a. sa_ID a \<noteq> i) s)"

definition satip_field :: "env \<Rightarrow> ident \<Rightarrow> (SatIPSource \<Rightarrow> SatIPSource) \<Rightarrow> satip_sources \<Rightarrow> error option \<times> satip_sources" where
  "satip_field e i f s = touch_first e (\<lambda>a. sa_ID a = i) (\<lambda>a. (f a)\<lparr>sa_UpdatedAt := e_now e\<rparr>) s"

definition SatIPStore_UpdateLastScanned :: "env \<Rightarrow> ident \<Rightarrow> time \<Rightarrow> satip_sources \<Rightarrow> error option \<times> satip_sources" where
  "SatIPStore_UpdateLastScanned e i t s = satip_field e i (\<lambda>a. a\<lparr>sa_LastScanned := Some t\<rparr>) s"

definition SatIPStore_UpdateLastError :: "env \<Rightarrow> ident \<Rightarrow> string \<Rightarrow> satip_sources \<Rightarrow> error option \<times> satip_sources" where
  "SatIPStore_UpdateLastError e i lastError s = satip_field e i (\<lambda>a. a\<lparr>sa_LastError := lastError\<rparr>) s"

definition SatIPStore_UpdateStreamCount :: "env \<Rightarrow> ident \<Rightarrow> int \<Rightarrow> satip_sources \<Rightarrow> error option \<times> satip_sources" where
  "SatIPStore_UpdateStreamCount e i n s = satip_field e i (\<lambda>a. a\<lparr>sa_StreamCount := n\<rparr>) s"

section \<open>HDHomeRun sources\<close>

record HDHRTuner =
  tn_Host :: string
  tn_DeviceID :: string
  tn_DeviceModel :: string
  tn_FirmwareVersion :: string
  tn_TunerCount :: int

record HDHRSource =
  hs_ID :: ident
  hs_Name :: string
  hs_Devices :: "HDHRTuner list"
  hs_IsEnabled :: bool
  hs_TunerCount :: int
  hs_LastScanned :: "time option"
  hs_StreamCount :: int
  hs_LastError :: string
  hs_SourceProfileID :: ident
  hs_CreatedAt :: time
  hs_UpdatedAt :: time

type_synonym hdhr_sources = "HDHRSource list"

definition hdhr_missing :: "ident \<Rightarrow> error" where "hdhr_missing i = ''hdhr source not found: '' @ i"

definition HDHRSourceStore_Load :: "HDHRSource json_file \<Rightarrow> hdhr_sources \<Rightarrow> error option \<times> hdhr_sources" where
  "HDHRSourceStore_Load = load_wrapped ''reading hdhr sources file: '' ''parsing hdhr sources file: ''"

definition hdhr_entry :: "env \<Rightarrow> HDHRSource \<Rightarrow> HDHRSource" where
  "hdhr_entry e a = a\<lparr>hs_ID := e_uuid e 0, hs_CreatedAt := e_now e, hs_UpdatedAt := e_now e\<rparr>"

definition hdhr_refused :: "HDHRSource \<Rightarrow> hdhr_sources \<Rightarrow> error option" where
  "hdhr_refused a s = (if list_ex (\<lambda>x. hs_Name x = hs_Name a) s
     then Some (''hdhr source with name '' @ quoted (hs_Name a) @ '' already exists'') else None)"

definition HDHRSourceStore_Create :: "env \<Rightarrow> HDHRSource \<Rightarrow> hdhr_sources \<Rightarrow> error option \<times> hdhr_sources" where
  "HDHRSourceStore_Create e a s = (case hdhr_refused a s of Some x \<Rightarrow> (Some x, s) | None \<Rightarrow> (e_save e, s @ [hdhr_entry e a]))"

definition HDHRSourceStore_GetByID :: "ident \<Rightarrow> hdhr_sources \<Rightarrow> error + HDHRSource" where
  "HDHRSourceStore_GetByID i s = not_found (hdhr_missing i) (find (\<lambda>a. hs_ID a = i) s)"

definition HDHRSourceStore_List :: "hdhr_sources \<Rightarrow> hdhr_sources" where
  "HDHRSourceStore_List s = s"

definition hdhr_put :: "env \<Rightarrow> HDHRSource \<Rightarrow> HDHRSource \<Rightarrow> HDHRSource" where
  "hdhr_put e a old = a\<lparr>hs_UpdatedAt := e_now e, hs_CreatedAt := hs_CreatedAt old\<rparr>"

definition HDHRSourceStore_Update :: "env \<Rightarrow> HDHRSource \<Rightarrow> hdhr_sources \<Rightarrow> error option \<times> hdhr_sources" where
  "HDHRSourceStore_Update e a s = change_first e (hdhr_missing (hs_ID a)) (\<lambda>x. hs_ID x = hs_ID a) (hdhr_put e a) s"

definition HDHRSourceStore_Delete :: "env \<Rightarrow> ident \<Rightarrow> hdhr_sources \<Rightarrow> error option \<times> hdhr_sources" where
  "HDHRSourceStore_Delete e i s = (e_save e, filter (\<lambda>a. hs_ID a \<noteq> i) s)"

definition hdhr_field :: "env \<Rightarrow> ident \<Rightarrow> (HDHRSource \<Rightarrow> HDHRSource) \<Rightarrow> hdhr_sources \<Rightarrow> error option \<times> hdhr_sources" where
  "hdhr_field e i f s = touch_first e (\<lambda>a. hs_ID a = i) (\<lambda>a. (f a)\<lparr>hs_UpdatedAt := e_now e\<rparr>) s"

definition HDHRSourceStore_UpdateLastScanned :: "env \<Rightarrow> ident \<Rightarrow> time \<Rightarrow> hdhr_sources \<Rightarrow> error option \<times> hdhr_sources" where
  "HDHRSourceStore_UpdateLastScanned e i t s = hdhr_field e i (\<lambda>a. a\<lparr>hs_LastScanned := Some t\<rparr>) s"

definition HDHRSourceStore_UpdateLastError :: "env \<Rightarrow> ident \<Rightarrow> string \<Rightarrow> hdhr_sources \<Rightarrow> error option \<times> hdhr_sources" where
  "HDHRSourceStore_UpdateLastError e i lastError s = hdhr_field e i (\<lambda>a. a\<lparr>hs_LastError := lastError\<rparr>) s"

definition HDHRSourceStore_UpdateStreamCount :: "env \<Rightarrow> ident \<Rightarrow> int \<Rightarrow> hdhr_sources \<Rightarrow> error option \<times> hdhr_sources" where
  "HDHRSourceStore_UpdateStreamCount e i n s = hdhr_field e i (\<lambda>a. a\<lparr>hs_StreamCount := n\<rparr>) s"

section \<open>Virtual HDHomeRun devices\<close>

record HDHRDevice =
  hd_ID :: ident
  hd_Name :: string
  hd_DeviceID :: string
  hd_DeviceAuth :: string
  hd_FirmwareVersion :: string
  hd_TunerCount :: int
  hd_Port :: int
  hd_ChannelGroupIDs :: "ident list"
  hd_IsEnabled :: bool
  hd_CreatedAt :: time
  hd_UpdatedAt :: time

type_synonym hdhr_devices = "HDHRDevice list"

definition device_missing :: error where "device_missing = ''hdhr device not found''"

definition HDHRDeviceStore_Load :: "HDHRDevice json_file \<Rightarrow> hdhr_devices \<Rightarrow> error option \<times> hdhr_devices" where
  "HDHRDeviceStore_Load = load_slice"

definition device_entry :: "env \<Rightarrow> HDHRDevice \<Rightarrow> HDHRDevice" where
  "device_entry e a = a\<lparr>hd_ID := or_uuid e (hd_ID a), hd_CreatedAt := e_now e, hd_UpdatedAt := e_now e\<rparr>"

definition HDHRDeviceStore_Create :: "env \<Rightarrow> HDHRDevice \<Rightarrow> hdhr_devices \<Rightarrow> error option \<times> hdhr_devices" where
  "HDHRDeviceStore_Create e a s = (e_save e, s @ [device_entry e a])"

definition HDHRDeviceStore_GetByID :: "ident \<Rightarrow> hdhr_devices \<Rightarrow> error + HDHRDevice" where
  "HDHRDeviceStore_GetByID i s = not_found device_missing (find (\<lambda>a. hd_ID a = i) s)"

definition HDHRDeviceStore_GetByDeviceID :: "string \<Rightarrow> hdhr_devices \<Rightarrow> error + HDHRDevice" where
  "HDHRDeviceStore_GetByDeviceID d s = not_found device_missing (find (\<lambda>a. hd_DeviceID a = d) s)"

definition HDHRDeviceStore_List :: "hdhr_devices \<Rightarrow> hdhr_devices" where
  "HDHRDeviceStore_List s = s"

definition device_put :: "env \<Rightarrow> HDHRDevice \<Rightarrow> HDHRDevice \<Rightarrow> HDHRDevice" where
  "device_put e a old = a\<lparr>hd_UpdatedAt := e_now e, hd_CreatedAt := hd_CreatedAt old\<rparr>"

definition HDHRDeviceStore_Update :: "env \<Rightarrow> HDHRDevice \<Rightarrow> hdhr_devices \<Rightarrow> error option \<times> hdhr_devices" where
  "HDHRDeviceStore_Update e a s = change_first e device_missing (\<lambda>x. hd_ID x = hd_ID a) (device_put e a) s"

definition HDHRDeviceStore_Delete :: "env \<Rightarrow> ident \<Rightarrow> hdhr_devices \<Rightarrow> error option \<times> hdhr_devices" where
  "HDHRDeviceStore_Delete e i s = cut_first e (\<lambda>a. hd_ID a = i) s"

definition HDHRDeviceStore_NextAvailablePort :: "hdhr_devices \<Rightarrow> int" where
  "HDHRDeviceStore_NextAvailablePort s = foldl (\<lambda>m d. if hd_Port d \<ge> m then hd_Port d + 1 else m) 5003 s"

definition HDHRDeviceStore_SetChannelGroups :: "env \<Rightarrow> ident \<Rightarrow> ident list \<Rightarrow> hdhr_devices \<Rightarrow> error option \<times> hdhr_devices" where
  "HDHRDeviceStore_SetChannelGroups e i groupIDs s =
     change_first e device_missing (\<lambda>a. hd_ID a = i) (\<lambda>a. a\<lparr>hd_ChannelGroupIDs := groupIDs\<rparr>) s"

definition HDHRDeviceStore_ClearAndSave :: "env \<Rightarrow> hdhr_devices \<Rightarrow> error option \<times> hdhr_devices" where
  "HDHRDeviceStore_ClearAndSave e s = (e_save e, [])"


section \<open>The stores satisfy their contracts\<close>

lemmas store_loops = change_first_def touch_first_def cut_first_def

interpretation account: creating_store ma_ID "\<lambda>a. a" account_missing M3UStore_GetByID M3UStore_Delete
  account_entry "\<lambda>_ _. None" M3UStore_Create
  by unfold_locales
     (simp_all add: M3UStore_GetByID_def M3UStore_Delete_def M3UStore_Create_def store_loops option.map_ident)

interpretation account: updatable_store ma_ID "\<lambda>a. a" account_missing M3UStore_GetByID M3UStore_Delete
  account_put ma_ID M3UStore_Update
  by unfold_locales (simp_all add: M3UStore_Update_def account_put_def [abs_def] store_loops)

text \<open>The setters of single fields: what is set (\<open>f\<close>) keeps the identifier.\<close>

definition field_put :: "(M3UAccount \<Rightarrow> M3UAccount) \<Rightarrow> env \<Rightarrow> ident \<Rightarrow> M3UAccount \<Rightarrow> M3UAccount" where
  "field_put f e i a = (f a)\<lparr>ma_UpdatedAt := e_now e\<rparr>"

lemma account_field_law:
  "(\<And>a. ma_ID (f a) = ma_ID a) \<Longrightarrow> update_law ma_ID account_missing (field_put f) (\<lambda>i. i) (\<lambda>e i. account_field e i f)"
  by unfold_locales (simp_all add: account_field_def field_put_def [abs_def] store_loops)

interpretation account_refreshed: update_law ma_ID account_missing "field_put (\<lambda>a. a\<lparr>ma_LastRefreshed := Some t\<rparr>)" "\<lambda>i. i"
  "\<lambda>e i. M3UStore_UpdateLastRefreshed e i t" for t
  unfolding M3UStore_UpdateLastRefreshed_def [abs_def] by (rule account_field_law) simp

interpretation account_error: update_law ma_ID account_missing "field_put (\<lambda>a. a\<lparr>ma_LastError := x\<rparr>)" "\<lambda>i. i"
  "\<lambda>e i. M3UStore_UpdateLastError e i x" for x
  unfolding M3UStore_UpdateLastError_def [abs_def] by (rule account_field_law) simp

interpretation account_count: update_law ma_ID account_missing "field_put (\<lambda>a. a\<lparr>ma_StreamCount := n\<rparr>)" "\<lambda>i. i"
  "\<lambda>e i. M3UStore_UpdateStreamCount e i n" for n
  unfolding M3UStore_UpdateStreamCount_def [abs_def] by (rule account_field_law) simp

interpretation account_etag: update_law ma_ID account_missing "field_put (\<lambda>a. a\<lparr>ma_ETag := t\<rparr>)" "\<lambda>i. i"
  "\<lambda>e i. M3UStore_UpdateETag e i t" for t
  unfolding M3UStore_UpdateETag_def [abs_def] by (rule account_field_law) simp

interpretation epg_source: creating_store es_ID "\<lambda>a. a" epg_source_missing EPGSourceStore_GetByID EPGSourceStore_Delete
  epg_source_entry "\<lambda>_ _. None" EPGSourceStore_Create
  by unfold_locales
     (simp_all add: EPGSourceStore_GetByID_def EPGSourceStore_Delete_def EPGSourceStore_Create_def store_loops option.map_ident)

interpretation epg_source: updatable_store es_ID "\<lambda>a. a" epg_source_missing EPGSourceStore_GetByID EPGSourceStore_Delete
  epg_source_put es_ID EPGSourceStore_Update
  by unfold_locales (simp_all add: EPGSourceStore_Update_def epg_source_put_def [abs_def] store_loops)

text \<open>The setters of single fields of a guide source.\<close>

definition epg_field_put :: "(EPGSource \<Rightarrow> EPGSource) \<Rightarrow> env \<Rightarrow> ident \<Rightarrow> EPGSource \<Rightarrow> EPGSource" where
  "epg_field_put f e i a = (f a)\<lparr>es_UpdatedAt := e_now e\<rparr>"

lemma epg_field_law:
  "(\<And>a. es_ID (f a) = es_ID a) \<Longrightarrow> update_law es_ID epg_source_missing (epg_field_put f) (\<lambda>i. i) (\<lambda>e i. epg_source_field e i f)"
  by unfold_locales (simp_all add: epg_source_field_def epg_field_put_def [abs_def] store_loops)

interpretation epg_refreshed: update_law es_ID epg_source_missing "epg_field_put (\<lambda>a. a\<lparr>es_LastRefreshed := Some t\<rparr>)" "\<lambda>i. i"
  "\<lambda>e i. EPGSourceStore_UpdateLastRefreshed e i t" for t
  unfolding EPGSourceStore_UpdateLastRefreshed_def [abs_def] by (rule epg_field_law) simp

interpretation epg_error: update_law es_ID epg_source_missing "epg_field_put (\<lambda>a. a\<lparr>es_LastError := x\<rparr>)" "\<lambda>i. i"
  "\<lambda>e i. EPGSourceStore_UpdateLastError e i x" for x
  unfolding EPGSourceStore_UpdateLastError_def [abs_def] by (rule epg_field_law) simp

interpretation epg_etag: update_law es_ID epg_source_missing "epg_field_put (\<lambda>a. a\<lparr>es_ETag := t\<rparr>)" "\<lambda>i. i"
  "\<lambda>e i. EPGSourceStore_UpdateETag e i t" for t
  unfolding EPGSourceStore_UpdateETag_def [abs_def] by (rule epg_field_law) simp

interpretation device: creating_store hd_ID "\<lambda>a. a" device_missing HDHRDeviceStore_GetByID HDHRDeviceStore_Delete
  device_entry "\<lambda>_ _. None" HDHRDeviceStore_Create
  by unfold_locales
     (simp_all add: HDHRDeviceStore_GetByID_def HDHRDeviceStore_Delete_def HDHRDeviceStore_Create_def store_loops option.map_ident)

interpretation device: updatable_store hd_ID "\<lambda>a. a" device_missing HDHRDeviceStore_GetByID HDHRDeviceStore_Delete
  device_put hd_ID HDHRDeviceStore_Update
  by unfold_locales (simp_all add: HDHRDeviceStore_Update_def device_put_def [abs_def] store_loops)

text \<open>SAT>IP and HDHomeRun sources: names are checked when a source is created, and deleting
  removes every record with the identifier.\<close>

locale named_sources =
  fixes key :: "'r \<Rightarrow> ident"
    and name :: "'r \<Rightarrow> string"
    and entry :: "env \<Rightarrow> 'r \<Rightarrow> 'r"
    and get :: "ident \<Rightarrow> 'r list \<Rightarrow> error + 'r"
    and create :: "env \<Rightarrow> 'r \<Rightarrow> 'r list \<Rightarrow> error option \<times> 'r list"
    and delete :: "env \<Rightarrow> ident \<Rightarrow> 'r list \<Rightarrow> error option \<times> 'r list"
    and missing :: "ident \<Rightarrow> error"
  assumes get_find: "get i s = not_found (missing i) (find (\<lambda>r. key r = i) s)"
    and create_name: "name r \<in> name ` set s \<Longrightarrow> \<exists>x. create e r s = (Some x, s)"
    and create_new: "name r \<notin> name ` set s \<Longrightarrow> create e r s = (e_save e, s @ [entry e r])"
    and entry_name: "name (entry e r) = name r"
    and delete_all: "delete e i s = (e_save e, filter (\<lambda>r. key r \<noteq> i) s)"
begin

lemma create_names: "distinct (map name s) \<Longrightarrow> distinct (map name (snd (create e r s)))"
  using create_name [of r s e] create_new [of r s e] by (cases "name r \<in> name ` set s") (auto simp: entry_name)

lemma delete_names: "distinct (map name s) \<Longrightarrow> distinct (map name (snd (delete e i s)))"
  by (simp add: delete_all distinct_map_filter)

lemma get_deleted: "get i (snd (delete e i s)) = Inl (missing i)"
proof -
  have "find (\<lambda>r. key r = i) (filter (\<lambda>r. key r \<noteq> i) s) = None" by (simp add: find_None_iff)
  then show ?thesis by (simp add: get_find delete_all)
qed

lemma get_delete_other: "j \<noteq> i \<Longrightarrow> get j (snd (delete e i s)) = get j s"
proof -
  assume "j \<noteq> i"
  then have "find (\<lambda>r. key r = j) (filter (\<lambda>r. key r \<noteq> i) s) = find (\<lambda>r. key r = j) s" by (induction s) auto
  then show ?thesis by (simp add: get_find delete_all)
qed

end

interpretation satip: named_sources sa_ID sa_Name satip_entry SatIPStore_GetByID SatIPStore_Create SatIPStore_Delete satip_missing
  by unfold_locales
     (auto simp: SatIPStore_GetByID_def SatIPStore_Create_def SatIPStore_Delete_def satip_entry_def satip_refused_def list_ex_iff rev_image_eqI)

interpretation hdhr: named_sources hs_ID hs_Name hdhr_entry HDHRSourceStore_GetByID HDHRSourceStore_Create HDHRSourceStore_Delete hdhr_missing
  by unfold_locales
     (auto simp: HDHRSourceStore_GetByID_def HDHRSourceStore_Create_def HDHRSourceStore_Delete_def hdhr_entry_def hdhr_refused_def list_ex_iff rev_image_eqI)

text \<open>A setter of the SAT>IP or HDHomeRun store on an unknown identifier reports success.\<close>

theorem source_setters_silent:
  assumes "i \<notin> sa_ID ` set s" "i \<notin> hs_ID ` set h"
  shows "SatIPStore_UpdateStreamCount e i n s = (e_save e, s) \<and> HDHRSourceStore_UpdateStreamCount e i n h = (e_save e, h)"
  using assms by (simp add: SatIPStore_UpdateStreamCount_def satip_field_def HDHRSourceStore_UpdateStreamCount_def hdhr_field_def
      touch_first_def find_key_None)

section \<open>Ports\<close>

text \<open>The port offered to a new device is at least 5003 and above the port of every device.\<close>

theorem NextAvailablePort_free:
  "HDHRDeviceStore_NextAvailablePort s \<ge> 5003 \<and> (\<forall>d \<in> set s. hd_Port d < HDHRDeviceStore_NextAvailablePort s)"
proof -
  have "m \<le> foldl (\<lambda>m d. if hd_Port d \<ge> m then hd_Port d + 1 else m) m s
      \<and> (\<forall>d \<in> set s. hd_Port d < foldl (\<lambda>m d. if hd_Port d \<ge> m then hd_Port d + 1 else m) m s)" for m
  proof (induction s arbitrary: m)
    case (Cons d s)
    show ?case using Cons.IH [of "if hd_Port d \<ge> m then hd_Port d + 1 else m"] by (auto split: if_splits)
  qed simp
  then show ?thesis by (simp add: HDHRDeviceStore_NextAvailablePort_def)
qed

end
