(* ===== verification/M3u.thy ===== *)
theory M3u
  imports Prelude
begin

text \<open>
  The playlist parser (\<open>pkg/m3u/parser.go\<close>) and the readers of names in \<open>pkg/service/m3u.go\<close>. Strings
  are the bytes of Go's strings; the separators are ASCII, so scanning bytes finds them where Go does.
\<close>

section \<open>Lines\<close>

record Entry =
  en_Name :: string
  en_URL :: string
  en_Group :: string
  en_Logo :: string
  en_TvgID :: string
  en_TvgName :: string
  en_TVPType :: string
  en_TVPSeries :: string
  en_TVPCollection :: string
  en_TVPSeason :: string
  en_TVPEpisode :: string
  en_TVPVCodec :: string
  en_TVPACodec :: string
  en_TVPRes :: string
  en_TVPAudio :: string
  en_TVPDur :: string
  en_TVPContainer :: string
  en_TVPAudioTracks :: string
  en_TVPID :: string
  en_TVPTags :: string
  en_TVPSeasonName :: string

definition empty_entry :: Entry where
  "empty_entry = \<lparr>en_Name = [], en_URL = [], en_Group = [], en_Logo = [], en_TvgID = [], en_TvgName = [], en_TVPType = [],
     en_TVPSeries = [], en_TVPCollection = [], en_TVPSeason = [], en_TVPEpisode = [], en_TVPVCodec = [], en_TVPACodec = [],
     en_TVPRes = [], en_TVPAudio = [], en_TVPDur = [], en_TVPContainer = [], en_TVPAudioTracks = [], en_TVPID = [],
     en_TVPTags = [], en_TVPSeasonName = []\<rparr>"

text \<open>\<open>bufio.Scanner\<close> with a buffer of 10 MB: the lines without their newline (a carriage return before it
  is dropped, and trimmed below in any case); a line that does not fit ends the scan with an error.
  \<open>rerr\<close> is the error of the reader after the data, \<open>None\<close> at the end of the file.\<close>

definition nl :: char where "nl = CHR 0x0A"

function split_lines :: "string \<Rightarrow> string list" where
  "split_lines s = (if s = [] then []
     else takeWhile (\<lambda>c. c \<noteq> nl) s # split_lines (drop 1 (dropWhile (\<lambda>c. c \<noteq> nl) s)))"
  by pat_completeness auto
termination
proof (relation "measure length", simp, clarsimp)
  fix s :: string assume "s \<noteq> []"
  then show "length (dropWhile (\<lambda>c. c \<noteq> nl) s) - Suc 0 < length s"
    using length_dropWhile_le [of "\<lambda>c. c \<noteq> nl" s] by (cases s) (auto simp: less_Suc_eq_le)
qed

declare split_lines.simps [simp del]

definition max_token :: nat where "max_token = 10 * 1024 * 1024"

definition too_long :: error where "too_long = ''bufio.Scanner: token too long''"

definition scan_lines_max :: "nat \<Rightarrow> string \<Rightarrow> error option \<Rightarrow> string list \<times> error option" where
  "scan_lines_max n data rerr = (let ls = split_lines data
     in if list_all (\<lambda>l. length l < n) ls then (ls, rerr)
        else (takeWhile (\<lambda>l. length l < n) ls, Some too_long))"

definition scan_lines :: "string \<Rightarrow> error option \<Rightarrow> string list \<times> error option" where
  "scan_lines = scan_lines_max max_token"

section \<open>Attributes\<close>

definition extractAttr :: "string \<Rightarrow> string \<Rightarrow> string" where
  "extractAttr line attr = (let key = attr @ ''='' @ [CHR 0x22]
     in case str_index line key of None \<Rightarrow> []
      | Some i \<Rightarrow> (let r = drop (i + length key) line
          in case str_index r [CHR 0x22] of None \<Rightarrow> [] | Some j \<Rightarrow> take j r))"

definition parseExtInf :: "string \<Rightarrow> Entry \<Rightarrow> Entry" where
  "parseExtInf line en = (let e1 = en\<lparr>
       en_TvgID := extractAttr line ''tvg-id'', en_TvgName := extractAttr line ''tvg-name'',
       en_Logo := extractAttr line ''tvg-logo'', en_Group := extractAttr line ''group-title'',
       en_TVPType := extractAttr line ''tvp-type'', en_TVPSeries := extractAttr line ''tvp-series'',
       en_TVPCollection := extractAttr line ''tvp-collection'', en_TVPSeason := extractAttr line ''tvp-season'',
       en_TVPEpisode := extractAttr line ''tvp-episode'', en_TVPVCodec := extractAttr line ''tvp-vcodec'',
       en_TVPACodec := extractAttr line ''tvp-acodec'', en_TVPRes := extractAttr line ''tvp-resolution'',
       en_TVPAudio := extractAttr line ''tvp-audio'', en_TVPDur := extractAttr line ''tvp-duration'',
       en_TVPContainer := extractAttr line ''tvp-container'', en_TVPAudioTracks := extractAttr line ''tvp-audio-tracks'',
       en_TVPID := extractAttr line ''tvp-id'', en_TVPTags := extractAttr line ''tvp-tags'',
       en_TVPSeasonName := extractAttr line ''tvp-season-name''\<rparr>
     in case str_last_index line '','' of None \<Rightarrow> e1 | Some i \<Rightarrow> e1\<lparr>en_Name := TrimSpace (drop (i + 1) line)\<rparr>)"

section \<open>Entries\<close>

fun parse_lines :: "string list \<Rightarrow> Entry option \<Rightarrow> Entry list" where
  "parse_lines [] cur = []"
| "parse_lines (raw # ls) cur = (let line = TrimSpace raw
     in if line = [] \<or> line = ''#EXTM3U'' then parse_lines ls cur
        else if HasPrefix line ''#EXTINF:'' then parse_lines ls (Some (parseExtInf line empty_entry))
        else case cur of
            Some en \<Rightarrow> if \<not> HasPrefix line ''#'' then en\<lparr>en_URL := line\<rparr> # parse_lines ls None else parse_lines ls cur
          | None \<Rightarrow> parse_lines ls cur)"

definition Parse :: "string \<Rightarrow> error option \<Rightarrow> Entry list \<times> error option" where
  "Parse data rerr = (let (ls, err) = scan_lines data rerr in (parse_lines ls None, err))"

section \<open>Reading names\<close>

definition is_upper :: "char \<Rightarrow> bool" where
  "is_upper c \<longleftrightarrow> 65 \<le> (of_char c :: nat) \<and> (of_char c :: nat) \<le> 90"

definition extractLanguage :: "string \<Rightarrow> string \<times> string" where
  "extractLanguage name = (case str_index name '':'' of None \<Rightarrow> (name, [])
     | Some i \<Rightarrow> if 2 \<le> i \<and> i \<le> 6 then
         (let p = TrimSpace (take i name)
          in if length p \<ge> 2 \<and> list_all (\<lambda>c. is_upper c \<or> c = CHR ''-'') p \<and> hd p \<noteq> CHR ''-''
             then (TrimSpace (drop (i + 1) name), p) else (name, []))
       else (name, []))"

definition extractLangFromCategory :: "string \<Rightarrow> string" where
  "extractLangFromCategory c = (if length c \<ge> 2 \<and> is_upper (c ! 0) \<and> is_upper (c ! 1)
     \<and> (length c = 2 \<or> c ! 2 = CHR '' '' \<or> c ! 2 = CHR ''-'' \<or> c ! 2 = CHR '':'') then take 2 c else [])"

text \<open>\<open>fmt.Sscanf(s, "%d", &n)\<close> on a string: leading spaces are skipped, a sign and decimal digits are
  read (an underscore may stand between digits only with a base prefix, which \<open>%d\<close> does not take);
  \<open>None\<close> without digits or out of the 64 bits.\<close>

definition is_digit :: "char \<Rightarrow> bool" where
  "is_digit c \<longleftrightarrow> 48 \<le> (of_char c :: nat) \<and> (of_char c :: nat) \<le> 57"

definition digits_val :: "string \<Rightarrow> int" where
  "digits_val ds = foldl (\<lambda>a c. a * 10 + (int (of_char c) - 48)) 0 ds"

definition scan_d :: "string \<Rightarrow> int option" where
  "scan_d s = (let t = dropWhile (\<lambda>c. c = CHR '' '' \<or> c = CHR 0x09 \<or> c = CHR 0x0D) s;
       neg = (t \<noteq> [] \<and> hd t = CHR ''-'');
       u = (if t \<noteq> [] \<and> (hd t = CHR ''-'' \<or> hd t = CHR ''+'') then tl t else t);
       ds = takeWhile is_digit u;
       v = (if neg then - digits_val ds else digits_val ds)
     in if ds = [] \<or> v < - (2 ^ 63) \<or> v \<ge> 2 ^ 63 then None else Some v)"

text \<open>The year in parentheses nearest to the end of a name, the loop from the last character down.\<close>

fun year_loop :: "string \<Rightarrow> nat \<Rightarrow> int" where
  "year_loop name 0 = 0"
| "year_loop name (Suc i) =
     (if Suc i < 5 then 0
      else if name ! Suc i = CHR '')'' \<and> name ! (Suc i - 5) = CHR ''('' then
        (case scan_d (take 4 (drop (Suc i - 4) name)) of
           Some y \<Rightarrow> if 1900 \<le> y \<and> y \<le> 2099 then y else year_loop name i
         | None \<Rightarrow> year_loop name i)
      else year_loop name i)"

definition extractYearFromName :: "string \<Rightarrow> int" where
  "extractYearFromName name = year_loop name (length name - 1)"


section \<open>Finding an attribute\<close>

text \<open>A line cut at its double quotes into segments; the attribute is the segment after the first one
  that ends with the key.\<close>

definition qt :: char where "qt = CHR 0x22"

fun quote_join :: "string list \<Rightarrow> string" where
  "quote_join [] = []"
| "quote_join [s] = s"
| "quote_join (s # ss) = s @ qt # quote_join ss"

fun attr_of :: "string \<Rightarrow> string list \<Rightarrow> string" where
  "attr_of k (s # v # w # ss) = (if suffix k s then v else attr_of k (v # w # ss))"
| "attr_of k ss = []"

lemma prefix_quote: "qt \<notin> set a \<Longrightarrow> qt \<notin> set s \<Longrightarrow> prefix (a @ [qt]) (s @ qt # r) \<longleftrightarrow> a = s"
  by (induction a arbitrary: s) (case_tac s; auto)+

lemma prefix_no_quote: "qt \<notin> set s \<Longrightarrow> \<not> prefix (a @ [qt]) s"
  by (auto simp: prefix_def)

lemma str_index_segment:
  assumes "qt \<notin> set a" "qt \<notin> set s"
  shows "str_index (s @ qt # r) (a @ [qt]) =
    (if suffix a s then Some (length s - length a) else map_option (\<lambda>i. length s + 1 + i) (str_index r (a @ [qt])))"
  using assms(2)
proof (induction s)
  case Nil
  then show ?case using prefix_quote [OF assms(1), of "[]" r] by (cases "str_index r (a @ [qt])") auto
next
  case (Cons c s)
  have p: "prefix (a @ [qt]) ((c # s) @ qt # r) \<longleftrightarrow> a = c # s" by (rule prefix_quote [OF assms(1) Cons.prems])
  show ?case
  proof (cases "a = c # s")
    case True then show ?thesis using p by simp
  next
    case False
    then have "suffix a (c # s) \<longleftrightarrow> suffix a s" by (auto simp: suffix_Cons)
    moreover have "suffix a s \<Longrightarrow> length a \<le> length s" by (simp add: suffix_length_le)
    ultimately show ?thesis using False p Cons by (cases "str_index r (a @ [qt])") (auto simp: Suc_diff_le)
  qed
qed

lemma str_index_none: "qt \<notin> set s \<Longrightarrow> str_index s (a @ [qt]) = None"
proof (induction s)
  case (Cons c s)
  then show ?case using prefix_no_quote [of "c # s" a] by simp
qed simp

lemma str_index_quote: "qt \<notin> set v \<Longrightarrow> str_index (v @ qt # r) [qt] = Some (length v)"
  using str_index_segment [of "[]" v r] by simp

lemma str_index_no_quote: "qt \<notin> set v \<Longrightarrow> str_index v [qt] = None"
  using str_index_none [of v "[]"] by simp

definition attr_text :: "string \<Rightarrow> string \<Rightarrow> string" where
  "attr_text key line = (case str_index line key of None \<Rightarrow> []
      | Some i \<Rightarrow> (let r = drop (i + length key) line in case str_index r [qt] of None \<Rightarrow> [] | Some j \<Rightarrow> take j r))"

lemma extractAttr_text: "extractAttr line attr = attr_text (attr @ ''='' @ [qt]) line"
  by (simp add: extractAttr_def attr_text_def qt_def Let_def cong: option.case_cong)

lemma attr_text_segments:
  assumes "qt \<notin> set k" "\<forall>s \<in> set ss. qt \<notin> set s"
  shows "attr_text (k @ [qt]) (quote_join ss) = attr_of k ss"
  using assms(2)
proof (induction ss rule: quote_join.induct)
  case (2 s)
  then show ?case by (simp add: attr_text_def str_index_none)
next
  case (3 s v ss)
  have q: "qt \<notin> set s" "qt \<notin> set v" using "3.prems" by simp_all
  show ?case
  proof (cases "suffix k s")
    case True
    then obtain u where u: "s = u @ k" by (auto simp: suffix_def)
    have i: "str_index (quote_join (s # v # ss)) (k @ [qt]) = Some (length u)"
      using str_index_segment [OF assms(1) q(1)] True u by simp
    have d: "drop (length u + length (k @ [qt])) (quote_join (s # v # ss)) = quote_join (v # ss)" by (simp add: u)
    show ?thesis
    proof (cases ss)
      case Nil then show ?thesis using i d str_index_no_quote [OF q(2)] by (simp add: attr_text_def Let_def del: quote_join.simps(3)) 
    next
      case (Cons w ss')
      then have "str_index (quote_join (v # ss)) [qt] = Some (length v)" using str_index_quote [OF q(2)] by simp
      then show ?thesis using i d True Cons by (simp add: attr_text_def Let_def del: quote_join.simps(3)) simp
    qed
  next
    case False
    have "str_index (quote_join (s # v # ss)) (k @ [qt]) = map_option (\<lambda>i. length s + 1 + i) (str_index (quote_join (v # ss)) (k @ [qt]))"
      using str_index_segment [OF assms(1) q(1), of "quote_join (v # ss)"] False by (simp del: add_Suc)
    then have "attr_text (k @ [qt]) (quote_join (s # v # ss)) = attr_text (k @ [qt]) (quote_join (v # ss))"
      by (simp add: attr_text_def split: option.split)
    also have "\<dots> = attr_of k (v # ss)" using "3.IH" "3.prems" by simp
    also have "\<dots> = attr_of k (s # v # ss)" using False by (cases ss) simp_all
    finally show ?thesis .
  qed
qed (simp add: attr_text_def)

lemma extractAttr_segments:
  "qt \<notin> set attr \<Longrightarrow> \<forall>s \<in> set ss. qt \<notin> set s \<Longrightarrow> extractAttr (quote_join ss) attr = attr_of (attr @ ''='') ss"
  using attr_text_segments [of "attr @ ''=''" ss] by (simp add: extractAttr_text qt_def)

end
