(* ===== verification/Logos.thy ===== *)
theory Logos
  imports Bytes ChannelStore SourceStores
begin

text \<open>
  Logos: the store (\<open>pkg/store/logo.go\<close>), the addresses under which the server hands them out
  (\<open>Resolve\<close> in \<open>pkg/logocache\<close>, with the query escaping of \<open>net/url\<close>) and the choice of a channel's
  logo (\<open>pkg/service/logo.go\<close>). The fetching of images into the cache is I/O and left out.
\<close>

section \<open>Query escaping\<close>

definition unreserved :: "char \<Rightarrow> bool" where
  "unreserved c \<longleftrightarrow> (let n = of_char c :: nat
     in 48 \<le> n \<and> n \<le> 57 \<or> 65 \<le> n \<and> n \<le> 90 \<or> 97 \<le> n \<and> n \<le> 122 \<or> c \<in> {CHR ''-'', CHR ''_'', CHR ''.'', CHR ''~''})"

definition escape_char :: "char \<Rightarrow> string" where
  "escape_char c = (if unreserved c then [c] else if c = CHR '' '' then ''+''
     else (let n = of_char c :: nat in [CHR ''%'', hex_digit (n div 16), hex_digit (n mod 16)]))"

definition QueryEscape :: "string \<Rightarrow> string" where
  "QueryEscape s = concat (map escape_char s)"

definition unhex :: "char \<Rightarrow> nat option" where
  "unhex c = (let n = of_char c :: nat
     in if 48 \<le> n \<and> n \<le> 57 then Some (n - 48) else if 97 \<le> n \<and> n \<le> 102 then Some (n - 87)
        else if 65 \<le> n \<and> n \<le> 70 then Some (n - 55) else None)"

fun QueryUnescape :: "string \<Rightarrow> string option" where
  "QueryUnescape [] = Some []"
| "QueryUnescape (c # s) =
     (if c = CHR ''%'' then
        (case s of a # b # r \<Rightarrow> (case (unhex a, unhex b) of
             (Some x, Some y) \<Rightarrow> map_option (Cons (chr (x * 16 + y))) (QueryUnescape r) | _ \<Rightarrow> None)
         | _ \<Rightarrow> None)
      else map_option (Cons (if c = CHR ''+'' then CHR '' '' else c)) (QueryUnescape s))"

lemma unhex_digit [simp]: "n < 16 \<Longrightarrow> unhex (hex_digit n) = Some n"
  by (simp add: unhex_def hex_digit_def chr_def)

lemma chr_byte [simp]: "chr (of_char c) = c"
  by (simp add: chr_def)

lemma unescape_char: "QueryUnescape (escape_char c @ s) = map_option (Cons c) (QueryUnescape s)"
proof (cases "unreserved c")
  case True
  then have "c \<noteq> CHR ''%''" "c \<noteq> CHR ''+''" by (auto simp: unreserved_def Let_def)
  then show ?thesis using True by (simp add: escape_char_def)
next
  case False
  have n: "(of_char c :: nat) div 16 < 16" using nat_of_char_less_256 [of c] by (simp add: div_less_iff_less_mult)
  show ?thesis using False n by (simp add: escape_char_def Let_def)
qed

lemma QueryUnescape_Escape: "QueryUnescape (QueryEscape s) = Some s"
  by (induction s) (simp_all add: QueryEscape_def unescape_char)

section \<open>Addresses\<close>

text \<open>The placeholder image, a \<open>data:\<close> address; the quotes of the SVG are written \<open>~\<close> below.\<close>

definition Placeholder :: string where
  "Placeholder = map (\<lambda>c. if c = CHR ''~'' then CHR 0x27 else c)
     (''data:image/svg+xml,%3Csvg xmlns=~http://www.w3.org/2000/svg~ width=~200~ height=~200~ viewBox=~0 0 200 200~%3E''
      @ ''%3Crect width=~200~ height=~200~ rx=~20~ fill=~%23374151~/%3E%3Ctext x=~100~ y=~115~ font-family=~sans-serif~''
      @ '' font-size=~80~ fill=~%239CA3AF~ text-anchor=~middle~%3ETV%3C/text%3E%3C/svg%3E'')"

definition logo_prefix :: string where "logo_prefix = ''/logo?url=''"

definition cache_Resolve :: "string \<Rightarrow> string" where
  "cache_Resolve u = (if u = [] then Placeholder
     else if HasPrefix u ''/'' \<or> HasPrefix u ''data:'' then u
     else if HasPrefix u ''http://'' \<or> HasPrefix u ''https://'' then logo_prefix @ QueryEscape u
     else Placeholder)"

definition normalizeLogoURL :: "string \<Rightarrow> string" where
  "normalizeLogoURL raw = (if HasPrefix raw logo_prefix
     then (case QueryUnescape (TrimPrefix raw logo_prefix) of Some d \<Rightarrow> d | None \<Rightarrow> raw) else raw)"

section \<open>The store\<close>

record Logo =
  lg_ID :: ident
  lg_Name :: string
  lg_URL :: string
  lg_CreatedAt :: time

type_synonym logos = "Logo list"

definition logo_missing :: error where "logo_missing = ''logo not found''"

definition LogoStore_Load :: "Logo json_file \<Rightarrow> logos \<Rightarrow> error option \<times> logos" where
  "LogoStore_Load = load_slice"

text \<open>\<open>Create\<close> also tells the caller the identifier, that of the logo with the same address if there is
  one.\<close>

definition LogoStore_Create :: "env \<Rightarrow> Logo \<Rightarrow> logos \<Rightarrow> error option \<times> ident \<times> logos" where
  "LogoStore_Create e l s = (let l1 = l\<lparr>lg_URL := normalizeLogoURL (lg_URL l)\<rparr>
     in case find (\<lambda>x. lg_URL x = lg_URL l1) s of
         Some x \<Rightarrow> (None, lg_ID x, s)
       | None \<Rightarrow> (let l2 = l1\<lparr>lg_ID := or_uuid e (lg_ID l1)\<rparr> in (e_save e, lg_ID l2, s @ [l2])))"

definition LogoStore_GetByID :: "ident \<Rightarrow> logos \<Rightarrow> error + Logo" where
  "LogoStore_GetByID i s = not_found logo_missing (find (\<lambda>l. lg_ID l = i) s)"

definition LogoStore_GetByURL :: "string \<Rightarrow> logos \<Rightarrow> Logo option" where
  "LogoStore_GetByURL u s = find (\<lambda>l. lg_URL l = u) s"

definition LogoStore_List :: "logos \<Rightarrow> logos" where
  "LogoStore_List s = s"

definition logo_put :: "env \<Rightarrow> Logo \<Rightarrow> Logo \<Rightarrow> Logo" where
  "logo_put e l old = old\<lparr>lg_Name := lg_Name l, lg_URL := lg_URL l\<rparr>"

definition LogoStore_Update :: "env \<Rightarrow> Logo \<Rightarrow> logos \<Rightarrow> error option \<times> logos" where
  "LogoStore_Update e l s = change_first e logo_missing (\<lambda>x. lg_ID x = lg_ID l) (logo_put e l) s"

definition LogoStore_Delete :: "env \<Rightarrow> ident \<Rightarrow> logos \<Rightarrow> error option \<times> logos" where
  "LogoStore_Delete e i s = cut_first e (\<lambda>l. lg_ID l = i) s"

definition LogoStore_ClearAndSave :: "env \<Rightarrow> logos \<Rightarrow> error option \<times> logos" where
  "LogoStore_ClearAndSave e s = (e_save e, [])"

interpretation logo: updatable_store lg_ID "\<lambda>l. l" logo_missing LogoStore_GetByID LogoStore_Delete logo_put lg_ID LogoStore_Update
  by unfold_locales
     (simp_all add: LogoStore_GetByID_def LogoStore_Delete_def LogoStore_Update_def logo_put_def [abs_def] store_loops option.map_ident)

section \<open>The service\<close>

text \<open>The store and the revision counter; \<open>Prefetch\<close> of a created logo only fills the cache.\<close>

record logo_service =
  ls_logos :: logos
  ls_rev :: u64

definition Logo_change :: "(logos \<Rightarrow> error option \<times> logos) \<Rightarrow> logo_service \<Rightarrow> error option \<times> logo_service" where
  "Logo_change op s = (case op (ls_logos s) of (Some x, l) \<Rightarrow> (Some x, s\<lparr>ls_logos := l\<rparr>)
     | (None, l) \<Rightarrow> (None, s\<lparr>ls_logos := l, ls_rev := ls_rev s + 1\<rparr>))"

definition Logo_Create :: "env \<Rightarrow> Logo \<Rightarrow> logo_service \<Rightarrow> error option \<times> ident \<times> logo_service" where
  "Logo_Create e l s = (let (r, i, ls) = LogoStore_Create e l (ls_logos s);
       (r', s') = Logo_change (\<lambda>_. (r, ls)) s in (r', i, s'))"

definition Logo_Update :: "env \<Rightarrow> Logo \<Rightarrow> logo_service \<Rightarrow> error option \<times> logo_service" where
  "Logo_Update e l = Logo_change (LogoStore_Update e l)"

definition Logo_Delete :: "env \<Rightarrow> ident \<Rightarrow> logo_service \<Rightarrow> error option \<times> logo_service" where
  "Logo_Delete e i = Logo_change (LogoStore_Delete e i)"

text \<open>The logo of a channel: its chosen logo, its own address, the icon of its guide entry
  (\<open>icon_of\<close>, empty without one), or the placeholder.\<close>

definition real_logo :: "string \<Rightarrow> bool" where
  "real_logo u \<longleftrightarrow> u \<noteq> Placeholder \<and> \<not> HasPrefix u ''data:''"

definition ResolveChannel :: "(string \<Rightarrow> string) \<Rightarrow> logos \<Rightarrow> Channel \<Rightarrow> string" where
  "ResolveChannel icon_of s ch =
     (let chosen = (case ch_LogoID ch of None \<Rightarrow> None
            | Some i \<Rightarrow> (case LogoStore_GetByID i s of Inl e \<Rightarrow> None | Inr l \<Rightarrow> if real_logo (lg_URL l) then Some (lg_URL l) else None))
      in case chosen of Some u \<Rightarrow> cache_Resolve u
       | None \<Rightarrow> if ch_Logo ch \<noteq> [] \<and> real_logo (ch_Logo ch) then cache_Resolve (ch_Logo ch)
           else if ch_TvgID ch \<noteq> [] \<and> icon_of (ch_TvgID ch) \<noteq> [] then cache_Resolve (icon_of (ch_TvgID ch))
           else Placeholder)"

definition ResolveChannelLogos :: "(string \<Rightarrow> string) \<Rightarrow> logos \<Rightarrow> Channel list \<Rightarrow> Channel list" where
  "ResolveChannelLogos icon_of s chs = map (\<lambda>ch. ch\<lparr>ch_Logo := ResolveChannel icon_of s ch\<rparr>) chs"

section \<open>What it promises\<close>

text \<open>An address that a client saw through \<open>Resolve\<close> is stored as the original address, so a logo
  created from what the server shows is the logo it shows.\<close>

theorem normalize_Resolve:
  assumes "HasPrefix u ''http://'' \<or> HasPrefix u ''https://''"
  shows "normalizeLogoURL (cache_Resolve u) = u"
proof -
  have "u \<noteq> []" "\<not> HasPrefix u ''/''" "\<not> HasPrefix u ''data:''" using assms by (auto simp: HasPrefix_def prefix_def)
  then have "cache_Resolve u = logo_prefix @ QueryEscape u" using assms by (simp add: cache_Resolve_def)
  then show ?thesis by (simp add: normalizeLogoURL_def HasPrefix_def TrimPrefix_def QueryUnescape_Escape)
qed

theorem normalize_Resolve_witness:
  "cache_Resolve ''http://a/b c'' = ''/logo?url=http%3A%2F%2Fa%2Fb+c'' \<and> normalizeLogoURL (cache_Resolve ''http://a/b c'') = ''http://a/b c''"
  using normalize_Resolve [of "''http://a/b c''"] by (simp add: HasPrefix_def) code_simp

text \<open>Creating logos keeps their addresses distinct, and the identifier returned is that of the logo
  with the address.\<close>

theorem LogoStore_Create_dedups:
  assumes "distinct (map lg_URL s)" "LogoStore_Create e l s = (r, i, s')"
  shows "distinct (map lg_URL s') \<and> (\<exists>x \<in> set s'. lg_ID x = i \<and> lg_URL x = normalizeLogoURL (lg_URL l))
    \<and> (\<exists>ys. s' = s @ ys)"
proof (cases "find (\<lambda>x. lg_URL x = normalizeLogoURL (lg_URL l)) s")
  case None
  then have "normalizeLogoURL (lg_URL l) \<notin> lg_URL ` set s" by (auto simp: find_None_iff)
  then show ?thesis using assms None by (auto simp: LogoStore_Create_def Let_def)
next
  case (Some x)
  then show ?thesis using assms find_SomeD [OF Some] by (auto simp: LogoStore_Create_def Let_def)
qed

theorem LogoStore_Create_dedups_witness:
  "let l = \<lparr>lg_ID = [], lg_Name = ''n'', lg_URL = ''/logo?url=http%3A%2F%2Fa'', lg_CreatedAt = 0\<rparr>;
       s = [\<lparr>lg_ID = ''u7'', lg_Name = ''m'', lg_URL = ''http://a'', lg_CreatedAt = 0\<rparr>]
   in LogoStore_Create example_env l s = (None, ''u7'', s)
     \<and> (\<exists>x \<in> set s. lg_ID x = ''u7'' \<and> lg_URL x = normalizeLogoURL (lg_URL l))"
proof -
  let ?l = "\<lparr>lg_ID = [], lg_Name = ''n'', lg_URL = ''/logo?url=http%3A%2F%2Fa'', lg_CreatedAt = 0\<rparr>"
  let ?s = "[\<lparr>lg_ID = ''u7'', lg_Name = ''m'', lg_URL = ''http://a'', lg_CreatedAt = 0\<rparr>]"
  have c: "LogoStore_Create example_env ?l ?s = (None, ''u7'', ?s)" by code_simp
  have "distinct (map lg_URL ?s)" by simp
  from LogoStore_Create_dedups [OF this c] c show ?thesis unfolding Let_def by blast
qed

end
