(* ===== verification/EpgStore.thy ===== *)
theory EpgStore
  imports Stores "HOL-Library.AList"
begin

text \<open>
  The programme guide (\<open>pkg/store/epg.go\<close>): the guide channels of the sources and their programmes,
  with indexes by source, by guide channel and by channel identifier. Go maps are association lists
  in the order a range visits them. Of two sources with the same channel the later one wins.
\<close>

section \<open>Data\<close>

record EPGData =
  ed_ID :: ident
  ed_SourceID :: ident
  ed_ChannelID :: string
  ed_Name :: string
  ed_Icon :: string

record ProgramData =
  pd_ID :: ident
  pd_EPGDataID :: ident
  pd_Title :: string
  pd_Description :: string
  pd_Start :: time
  pd_Stop :: time
  pd_Category :: string
  pd_EpisodeNum :: string
  pd_Icon :: string
  pd_Subtitle :: string
  pd_Date :: string
  pd_Language :: string
  pd_IsNew :: bool
  pd_IsPreviouslyShown :: bool
  pd_Credits :: string
  pd_Rating :: string
  pd_RatingIcon :: string
  pd_StarRating :: string
  pd_SubCategories :: string
  pd_EpisodeNumSystem :: string

record GuideProgram =
  gp_ChannelID :: string
  gp_Title :: string
  gp_Description :: string
  gp_Start :: time
  gp_Stop :: time
  gp_Category :: string

record EPGStoreImpl =
  ep_data :: "(ident \<times> EPGData) list"
  ep_programs :: "(ident \<times> ProgramData) list"
  ep_bySource :: "(ident \<times> ident list) list"
  ep_progsBy :: "(ident \<times> ident list) list"
  ep_byChannel :: "(string \<times> ident) list"
  ep_rev :: u64

text \<open>Indexing a map of slices: the nil slice for a missing key.\<close>

definition slice_at :: "('k \<times> 'v list) list \<Rightarrow> 'k \<Rightarrow> 'v list" where
  "slice_at m k = (case map_of m k of None \<Rightarrow> [] | Some xs \<Rightarrow> xs)"

definition epg_bump :: "EPGStoreImpl \<Rightarrow> EPGStoreImpl" where
  "epg_bump s = s\<lparr>ep_rev := ep_rev s + 1\<rparr>"

section \<open>Reading\<close>

definition epg_name_less :: "EPGData \<Rightarrow> EPGData \<Rightarrow> bool" where
  "epg_name_less a b \<longleftrightarrow> ed_Name a < ed_Name b"

definition starts_before :: "ProgramData \<Rightarrow> ProgramData \<Rightarrow> bool" where
  "starts_before a b \<longleftrightarrow> pd_Start a < pd_Start b"

definition ListEPGData :: "EPGStoreImpl \<Rightarrow> EPGData list" where
  "ListEPGData s = sort_slice epg_name_less (map snd (ep_data s))"

definition EPG_ListBySourceID :: "ident \<Rightarrow> EPGStoreImpl \<Rightarrow> EPGData list" where
  "EPG_ListBySourceID src s = sort_slice epg_name_less (List.map_filter (map_of (ep_data s)) (slice_at (ep_bySource s) src))"

definition GetIconByChannelID :: "string \<Rightarrow> EPGStoreImpl \<Rightarrow> string" where
  "GetIconByChannelID c s = (case map_of (ep_byChannel s) c of None \<Rightarrow> []
     | Some i \<Rightarrow> (case map_of (ep_data s) i of None \<Rightarrow> [] | Some d \<Rightarrow> ed_Icon d))"

definition programs_of :: "EPGStoreImpl \<Rightarrow> ident \<Rightarrow> ProgramData list" where
  "programs_of s i = List.map_filter (map_of (ep_programs s)) (slice_at (ep_progsBy s) i)"

definition on_air :: "time \<Rightarrow> ProgramData \<Rightarrow> bool" where
  "on_air now p \<longleftrightarrow> \<not> pd_Start p > now \<and> pd_Stop p > now"

fun now_loop :: "time \<Rightarrow> ProgramData option \<Rightarrow> ProgramData list \<Rightarrow> ProgramData option" where
  "now_loop now best [] = best"
| "now_loop now best (p # ps) = now_loop now
     (if on_air now p \<and> (case best of None \<Rightarrow> True | Some b \<Rightarrow> pd_Start p > pd_Start b) then Some p else best) ps"

definition GetNowByChannelID :: "string \<Rightarrow> time \<Rightarrow> EPGStoreImpl \<Rightarrow> error + ProgramData" where
  "GetNowByChannelID c now s = (case map_of (ep_byChannel s) c of
       None \<Rightarrow> Inl (''no epg data for channel: '' @ c)
     | Some i \<Rightarrow> not_found (''no current program for channel: '' @ c) (now_loop now None (programs_of s i)))"

definition ListNowPlaying :: "time \<Rightarrow> EPGStoreImpl \<Rightarrow> (string \<times> string) list" where
  "ListNowPlaying now s = List.map_filter (\<lambda>(c, i). map_option (\<lambda>p. (c, pd_Title p)) (find (on_air now) (programs_of s i))) (ep_byChannel s)"

definition ListNowPlayingFull :: "time \<Rightarrow> EPGStoreImpl \<Rightarrow> (string \<times> GuideProgram) list" where
  "ListNowPlayingFull now s = List.map_filter (\<lambda>(c, i). map_option (\<lambda>p. (c, \<lparr>gp_ChannelID = c, gp_Title = pd_Title p,
       gp_Description = pd_Description p, gp_Start = pd_Start p, gp_Stop = pd_Stop p, gp_Category = pd_Category p\<rparr>))
     (find (on_air now) (programs_of s i))) (ep_byChannel s)"

definition guide_less :: "GuideProgram \<Rightarrow> GuideProgram \<Rightarrow> bool" where
  "guide_less a b = (if gp_ChannelID a \<noteq> gp_ChannelID b then gp_ChannelID a < gp_ChannelID b else gp_Start a < gp_Start b)"

definition ListForGuide :: "time \<Rightarrow> time \<Rightarrow> EPGStoreImpl \<Rightarrow> GuideProgram list" where
  "ListForGuide start stop s = sort_slice guide_less (concat (map (\<lambda>(c, i).
     map (\<lambda>p. \<lparr>gp_ChannelID = c, gp_Title = pd_Title p, gp_Description = pd_Description p, gp_Start = pd_Start p,
        gp_Stop = pd_Stop p, gp_Category = pd_Category p\<rparr>)
       (filter (\<lambda>p. pd_Start p < stop \<and> pd_Stop p > start) (programs_of s i))) (ep_byChannel s)))"

definition ListPrograms :: "ident \<Rightarrow> EPGStoreImpl \<Rightarrow> ProgramData list" where
  "ListPrograms i s = sort_slice starts_before (programs_of s i)"

definition ListProgramsByEPGDataIDs :: "ident list \<Rightarrow> EPGStoreImpl \<Rightarrow> ident \<Rightarrow> ProgramData list option" where
  "ListProgramsByEPGDataIDs is s = map_of (map (\<lambda>i. (i, ListPrograms i s)) is)"

section \<open>Changing\<close>

definition drop_programs :: "ident \<Rightarrow> EPGStoreImpl \<Rightarrow> EPGStoreImpl" where
  "drop_programs i s = s\<lparr>ep_programs := fold AList.delete (slice_at (ep_progsBy s) i) (ep_programs s),
     ep_progsBy := AList.delete i (ep_progsBy s)\<rparr>"

definition removeFromSourceIndex :: "ident \<Rightarrow> ident \<Rightarrow> EPGStoreImpl \<Rightarrow> EPGStoreImpl" where
  "removeFromSourceIndex src i s = (case delete_first (\<lambda>j. j = i) (slice_at (ep_bySource s) src) of None \<Rightarrow> s
     | Some xs \<Rightarrow> s\<lparr>ep_bySource := AList.update src xs (ep_bySource s)\<rparr>)"

definition put_epg :: "EPGData \<Rightarrow> EPGStoreImpl \<Rightarrow> EPGStoreImpl" where
  "put_epg d s = (let s1 = (case map_of (ep_byChannel s) (ed_ChannelID d) of None \<Rightarrow> s
        | Some old \<Rightarrow> (let s' = (case map_of (ep_data s) old of None \<Rightarrow> s
              | Some o' \<Rightarrow> drop_programs old (removeFromSourceIndex (ed_SourceID o') old s))
            in s'\<lparr>ep_data := AList.delete old (ep_data s')\<rparr>))
     in s1\<lparr>ep_data := AList.update (ed_ID d) d (ep_data s1),
          ep_bySource := AList.update (ed_SourceID d) (slice_at (ep_bySource s1) (ed_SourceID d) @ [ed_ID d]) (ep_bySource s1),
          ep_byChannel := AList.update (ed_ChannelID d) (ed_ID d) (ep_byChannel s1)\<rparr>)"

definition with_epg_id :: "env \<Rightarrow> nat \<times> EPGData \<Rightarrow> EPGData" where
  "with_epg_id e = (\<lambda>(n, d). if ed_ID d = [] then d\<lparr>ed_ID := e_uuid e n\<rparr> else d)"

definition BulkCreateEPGData :: "env \<Rightarrow> EPGData list \<Rightarrow> EPGStoreImpl \<Rightarrow> EPGStoreImpl" where
  "BulkCreateEPGData e ds s = epg_bump (fold put_epg (map (with_epg_id e) (enumerate 0 ds)) s)"

definition put_program :: "ProgramData \<Rightarrow> EPGStoreImpl \<Rightarrow> EPGStoreImpl" where
  "put_program p s = s\<lparr>ep_programs := AList.update (pd_ID p) p (ep_programs s),
     ep_progsBy := AList.update (pd_EPGDataID p) (slice_at (ep_progsBy s) (pd_EPGDataID p) @ [pd_ID p]) (ep_progsBy s)\<rparr>"

definition with_prog_id :: "env \<Rightarrow> nat \<times> ProgramData \<Rightarrow> ProgramData" where
  "with_prog_id e = (\<lambda>(n, p). if pd_ID p = [] then p\<lparr>pd_ID := e_uuid e n\<rparr> else p)"

definition BulkCreatePrograms :: "env \<Rightarrow> ProgramData list \<Rightarrow> EPGStoreImpl \<Rightarrow> EPGStoreImpl" where
  "BulkCreatePrograms e ps s = epg_bump (fold put_program (map (with_prog_id e) (enumerate 0 ps)) s)"

definition drop_epg :: "ident \<Rightarrow> EPGStoreImpl \<Rightarrow> EPGStoreImpl" where
  "drop_epg i s = (let s1 = (case map_of (ep_data s) i of None \<Rightarrow> s
        | Some d \<Rightarrow> s\<lparr>ep_byChannel := AList.delete (ed_ChannelID d) (ep_byChannel s)\<rparr>)
     in drop_programs i (s1\<lparr>ep_data := AList.delete i (ep_data s1)\<rparr>))"

definition DeleteBySourceID :: "ident \<Rightarrow> EPGStoreImpl \<Rightarrow> EPGStoreImpl" where
  "DeleteBySourceID src s = (let s1 = fold drop_epg (slice_at (ep_bySource s) src) s
     in epg_bump (s1\<lparr>ep_bySource := AList.delete src (ep_bySource s1)\<rparr>))"

fun delete_sources :: "ident list \<Rightarrow> nat \<Rightarrow> EPGStoreImpl \<Rightarrow> nat \<times> EPGStoreImpl" where
  "delete_sources [] n s = (n, s)"
| "delete_sources (src # srcs) n s = delete_sources srcs (n + length (slice_at (ep_bySource s) src)) (DeleteBySourceID src s)"

definition DeleteOrphanedEPGData :: "ident list \<Rightarrow> EPGStoreImpl \<Rightarrow> nat \<times> EPGStoreImpl" where
  "DeleteOrphanedEPGData known s = delete_sources (filter (\<lambda>src. src \<notin> set known) (map fst (ep_bySource s))) 0 s"

definition DeleteProgramsByEPGDataID :: "ident \<Rightarrow> EPGStoreImpl \<Rightarrow> EPGStoreImpl" where
  "DeleteProgramsByEPGDataID i s = epg_bump (drop_programs i s)"

definition EPG_Clear :: "EPGStoreImpl \<Rightarrow> EPGStoreImpl" where
  "EPG_Clear s = epg_bump (s\<lparr>ep_data := [], ep_programs := [], ep_bySource := [], ep_progsBy := [], ep_byChannel := []\<rparr>)"

section \<open>The file\<close>

type_synonym epg_file = "(ident \<times> EPGData) list \<times> (ident \<times> ProgramData) list"

definition EPG_Save :: "error option \<Rightarrow> EPGStoreImpl \<Rightarrow> epg_file option \<Rightarrow> error option \<times> epg_file option" where
  "EPG_Save w s file = (case w of Some e \<Rightarrow> (Some (''saving epg store: '' @ e), file)
     | None \<Rightarrow> (None, Some (ep_data s, ep_programs s)))"

text \<open>\<open>Load\<close> rebuilds the indexes while it ranges over the loaded maps.\<close>

definition index_epg :: "ident \<times> EPGData \<Rightarrow> EPGStoreImpl \<Rightarrow> EPGStoreImpl" where
  "index_epg = (\<lambda>(i, d) s. s\<lparr>ep_bySource := AList.update (ed_SourceID d) (slice_at (ep_bySource s) (ed_SourceID d) @ [i]) (ep_bySource s),
     ep_byChannel := AList.update (ed_ChannelID d) i (ep_byChannel s)\<rparr>)"

definition index_program :: "ident \<times> ProgramData \<Rightarrow> EPGStoreImpl \<Rightarrow> EPGStoreImpl" where
  "index_program = (\<lambda>(i, p) s. s\<lparr>ep_progsBy := AList.update (pd_EPGDataID p) (slice_at (ep_progsBy s) (pd_EPGDataID p) @ [i]) (ep_progsBy s)\<rparr>)"

definition EPG_Load :: "error + epg_file option \<Rightarrow> EPGStoreImpl \<Rightarrow> error option \<times> EPGStoreImpl" where
  "EPG_Load r s = (case r of Inl e \<Rightarrow> (Some (''loading epg store: '' @ e), s) | Inr None \<Rightarrow> (None, s)
     | Inr (Some (ds, ps)) \<Rightarrow> (None, epg_bump (fold index_program ps (fold index_epg ds
         (s\<lparr>ep_data := ds, ep_programs := ps, ep_bySource := [], ep_progsBy := [], ep_byChannel := []\<rparr>)))))"


section \<open>The indexes agree with the data\<close>

text \<open>The state as maps: entries, programmes, identifiers by source, programmes by entry, and the entry
  of a channel.\<close>

definition epg_maps :: "(ident \<Rightarrow> EPGData option) \<Rightarrow> (ident \<Rightarrow> ProgramData option) \<Rightarrow> (ident \<Rightarrow> ident list) \<Rightarrow> (ident \<Rightarrow> ident list)
    \<Rightarrow> (string \<Rightarrow> ident option) \<Rightarrow> bool" where
  "epg_maps D P S G C \<longleftrightarrow> (\<forall>i d. D i = Some d \<longrightarrow> ed_ID d = i \<and> C (ed_ChannelID d) = Some i)
     \<and> (\<forall>c i. C c = Some i \<longrightarrow> (\<exists>d. D i = Some d \<and> ed_ChannelID d = c))
     \<and> (\<forall>src i. i \<in> set (S src) \<longleftrightarrow> (\<exists>d. D i = Some d \<and> ed_SourceID d = src)) \<and> (\<forall>src. distinct (S src))
     \<and> (\<forall>i pid. pid \<in> set (G i) \<longleftrightarrow> (\<exists>p. P pid = Some p \<and> pd_EPGDataID p = i)) \<and> (\<forall>i. distinct (G i))
     \<and> (\<forall>pid p. P pid = Some p \<longrightarrow> pd_ID p = pid)"

definition keys_ok :: "EPGStoreImpl \<Rightarrow> bool" where
  "keys_ok s \<longleftrightarrow> distinct (map fst (ep_data s)) \<and> distinct (map fst (ep_programs s)) \<and> distinct (map fst (ep_byChannel s))
     \<and> distinct (map fst (ep_bySource s))"

definition epg_ok :: "EPGStoreImpl \<Rightarrow> bool" where
  "epg_ok s \<longleftrightarrow> keys_ok s \<and> epg_maps (map_of (ep_data s)) (map_of (ep_programs s)) (slice_at (ep_bySource s)) (slice_at (ep_progsBy s)) (map_of (ep_byChannel s))"

definition without_keys :: "ident set \<Rightarrow> (ident \<Rightarrow> 'v option) \<Rightarrow> ident \<Rightarrow> 'v option" where
  "without_keys X m = (\<lambda>k. if k \<in> X then None else m k)"

lemma maps_channel: "epg_maps D P S G C \<Longrightarrow> C c = Some i \<longleftrightarrow> (\<exists>d. D i = Some d \<and> ed_ChannelID d = c)"
  unfolding epg_maps_def by blast

lemma maps_source: "epg_maps D P S G C \<Longrightarrow> i \<in> set (S src) \<longleftrightarrow> (\<exists>d. D i = Some d \<and> ed_SourceID d = src)"
  unfolding epg_maps_def by blast

lemma maps_inj:
  assumes "epg_maps D P S G C" "D i = Some d" "D j = Some d'" "ed_ChannelID d = ed_ChannelID d'"
  shows "i = j"
proof -
  have "C (ed_ChannelID d') = Some i" "C (ed_ChannelID d') = Some j" using assms maps_channel [OF assms(1)] by auto
  then show ?thesis by simp
qed

text \<open>An entry taken out, and one put in.\<close>

lemma maps_drop_programs:
  "epg_maps D P S G C \<Longrightarrow> epg_maps D (without_keys (set (G i)) P) S (G(i := [])) C"
  by (auto simp: epg_maps_def without_keys_def)

lemma remove1_set: "distinct xs \<Longrightarrow> set (remove1 i xs) = set xs - {i}"
  by simp

lemma maps_drop_entry:
  assumes "epg_maps D P S G C" "D i = Some d"
  shows "epg_maps (D(i := None)) P (S(ed_SourceID d := remove1 i (S (ed_SourceID d)))) G (C(ed_ChannelID d := None))"
proof -
  have u: "ed_ChannelID d' \<noteq> ed_ChannelID d" if "D j = Some d'" "j \<noteq> i" for j d'
    using assms that unfolding epg_maps_def by (metis option.inject)
  have c: "c = ed_ChannelID d" if "C c = Some i" for c using assms that unfolding epg_maps_def by (metis option.inject)
  show ?thesis using assms u c unfolding epg_maps_def by (auto dest: c)
qed

lemma maps_put:
  assumes "epg_maps D P S G C" "D (ed_ID d) = None" "C (ed_ChannelID d) = None"
  shows "epg_maps (D(ed_ID d \<mapsto> d)) P (S(ed_SourceID d := S (ed_SourceID d) @ [ed_ID d])) G (C(ed_ChannelID d \<mapsto> ed_ID d))"
proof -
  have "ed_ChannelID d' \<noteq> ed_ChannelID d" if "D j = Some d'" for j d'
    using assms(1,3) that unfolding epg_maps_def by (metis option.distinct(1))
  moreover have "i \<noteq> ed_ID d" if "C c = Some i" for c i using assms(1,2) that unfolding epg_maps_def by fastforce
  ultimately show ?thesis using assms unfolding epg_maps_def by auto
qed

lemma maps_put_program:
  assumes "epg_maps D P S G C" "P (pd_ID p) = None"
  shows "epg_maps D (P(pd_ID p \<mapsto> p)) S (G(pd_EPGDataID p := G (pd_EPGDataID p) @ [pd_ID p])) C"
  using assms unfolding epg_maps_def by auto

text \<open>The operations on the association lists as operations on the maps.\<close>

lemma map_of_fold_delete: "map_of (fold AList.delete ks xs) = without_keys (set ks) (map_of xs)"
proof (induction ks arbitrary: xs)
  case (Cons k ks)
  then show ?case by (auto simp: without_keys_def delete_conv' fun_eq_iff)
qed (simp add: without_keys_def)

lemma distinct_fold_delete: "distinct (map fst xs) \<Longrightarrow> distinct (map fst (fold AList.delete ks xs))"
  by (induction ks arbitrary: xs) (simp_all add: distinct_delete)

lemma slice_update [simp]: "slice_at (AList.update k v m) = (slice_at m)(k := v)"
  by (auto simp: slice_at_def update_conv' fun_eq_iff)

lemma slice_delete [simp]: "slice_at (AList.delete k m) = (slice_at m)(k := [])"
  by (auto simp: slice_at_def delete_conv' fun_eq_iff)

lemma slice_Nil [simp]: "slice_at [] k = []"
  by (simp add: slice_at_def)

lemma delete_first_remove1: "delete_first (\<lambda>j. j = i) xs = (if i \<in> set xs then Some (remove1 i xs) else None)"
  by (induction xs) auto

lemma remove_source_slice [simp]:
  "slice_at (ep_bySource (removeFromSourceIndex src i s)) = (slice_at (ep_bySource s))(src := remove1 i (slice_at (ep_bySource s) src))"
  by (auto simp: removeFromSourceIndex_def delete_first_remove1 remove1_idem fun_eq_iff)

lemma remove_source_other [simp]:
  "ep_data (removeFromSourceIndex src i s) = ep_data s" "ep_programs (removeFromSourceIndex src i s) = ep_programs s"
  "ep_progsBy (removeFromSourceIndex src i s) = ep_progsBy s" "ep_byChannel (removeFromSourceIndex src i s) = ep_byChannel s"
  by (simp_all add: removeFromSourceIndex_def split: option.split)

lemma remove_source_keys: "distinct (map fst (ep_bySource s)) \<Longrightarrow> distinct (map fst (ep_bySource (removeFromSourceIndex src i s)))"
  by (simp add: removeFromSourceIndex_def distinct_update split: option.split)

lemma drop_programs_fields [simp]:
  "ep_data (drop_programs i s) = ep_data s" "ep_bySource (drop_programs i s) = ep_bySource s"
  "ep_byChannel (drop_programs i s) = ep_byChannel s"
  "map_of (ep_programs (drop_programs i s)) = without_keys (set (slice_at (ep_progsBy s) i)) (map_of (ep_programs s))"
  "slice_at (ep_progsBy (drop_programs i s)) = (slice_at (ep_progsBy s))(i := [])"
  by (simp_all add: drop_programs_def map_of_fold_delete)

lemma drop_programs_keys: "keys_ok s \<Longrightarrow> keys_ok (drop_programs i s)"
  by (simp add: keys_ok_def drop_programs_def distinct_fold_delete)

lemma epg_bump_ok [simp]: "epg_ok (epg_bump s) = epg_ok s"
  by (simp add: epg_ok_def keys_ok_def epg_bump_def)

lemma put_epg_ok:
  assumes "epg_ok s" "ed_ID d \<notin> dom (map_of (ep_data s))"
  shows "epg_ok (put_epg d s) \<and> dom (map_of (ep_data (put_epg d s))) \<subseteq> insert (ed_ID d) (dom (map_of (ep_data s)))"
proof -
  let ?D = "map_of (ep_data s)" and ?C = "map_of (ep_byChannel s)" and ?P = "map_of (ep_programs s)"
  let ?S = "slice_at (ep_bySource s)" and ?G = "slice_at (ep_progsBy s)"
  have m: "epg_maps ?D ?P ?S ?G ?C" and k: "keys_ok s" using assms(1) by (simp_all add: epg_ok_def)
  have D: "?D (ed_ID d) = None" using assms(2) by (auto simp: domIff)
  show ?thesis
  proof (cases "?C (ed_ChannelID d)")
    case None
    have "keys_ok (put_epg d s)" using k None by (simp add: put_epg_def Let_def keys_ok_def distinct_update)
    then show ?thesis using maps_put [OF m D None] None by (auto simp: epg_ok_def put_epg_def Let_def update_conv' split: if_splits)
  next
    case (Some old)
    then obtain o' where o': "?D old = Some o'" "ed_ChannelID o' = ed_ChannelID d" using m unfolding epg_maps_def by blast
    have "epg_maps (?D(old := None)) (without_keys (set (?G old)) ?P) (?S(ed_SourceID o' := remove1 old (?S (ed_SourceID o')))) (?G(old := []))
        (?C(ed_ChannelID d := None))"
      using maps_drop_entry [OF maps_drop_programs [OF m, of old] o'(1)] o'(2) by simp
    from maps_put [OF this, of d] have n: "epg_maps (?D(old := None, ed_ID d \<mapsto> d)) (without_keys (set (?G old)) ?P)
        (let S1 = ?S(ed_SourceID o' := remove1 old (?S (ed_SourceID o'))) in S1(ed_SourceID d := S1 (ed_SourceID d) @ [ed_ID d])) (?G(old := []))
        (?C(ed_ChannelID d \<mapsto> ed_ID d))" using D by (simp add: Let_def)
    let ?s1 = "drop_programs old (removeFromSourceIndex (ed_SourceID o') old s)"
    have k1: "keys_ok ?s1" using drop_programs_keys [of "removeFromSourceIndex (ed_SourceID o') old s" old] k remove_source_keys by (simp add: keys_ok_def)
    have e: "put_epg d s = ?s1\<lparr>ep_data := AList.update (ed_ID d) d (AList.delete old (ep_data ?s1)),
          ep_bySource := AList.update (ed_SourceID d) (slice_at (ep_bySource ?s1) (ed_SourceID d) @ [ed_ID d]) (ep_bySource ?s1),
          ep_byChannel := AList.update (ed_ChannelID d) (ed_ID d) (ep_byChannel ?s1)\<rparr>"
      using Some o' by (simp add: put_epg_def Let_def)
    have "keys_ok (put_epg d s)" using k1 by (simp add: e keys_ok_def distinct_update distinct_delete)
    then show ?thesis using n by (auto simp: e epg_ok_def update_conv' delete_conv' Let_def split: if_splits)
  qed
qed


lemma fold_put_epg_ok:
  "epg_ok s \<Longrightarrow> distinct (map ed_ID ds) \<Longrightarrow> \<forall>d \<in> set ds. ed_ID d \<notin> dom (map_of (ep_data s)) \<Longrightarrow> epg_ok (fold put_epg ds s)"
proof (induction ds arbitrary: s)
  case (Cons d ds)
  have p: "epg_ok (put_epg d s)" "dom (map_of (ep_data (put_epg d s))) \<subseteq> insert (ed_ID d) (dom (map_of (ep_data s)))"
    using put_epg_ok [OF Cons.prems(1)] Cons.prems(3) by auto
  have "\<forall>x \<in> set ds. ed_ID x \<notin> dom (map_of (ep_data (put_epg d s)))"
  proof
    fix x assume x: "x \<in> set ds"
    then have "ed_ID x \<noteq> ed_ID d" using Cons.prems(2) by (auto simp: rev_image_eqI)
    then show "ed_ID x \<notin> dom (map_of (ep_data (put_epg d s)))" using p(2) Cons.prems(3) x by auto
  qed
  then show ?case using Cons.IH [OF p(1)] Cons.prems(2) by simp
qed simp

lemma put_program_ok:
  assumes "epg_ok s" "pd_ID p \<notin> dom (map_of (ep_programs s))"
  shows "epg_ok (put_program p s)" "dom (map_of (ep_programs (put_program p s))) = insert (pd_ID p) (dom (map_of (ep_programs s)))"
proof -
  have "map_of (ep_programs s) (pd_ID p) = None" using assms(2) by (auto simp: domIff)
  then show "epg_ok (put_program p s)"
    using assms(1) maps_put_program by (simp add: epg_ok_def put_program_def update_conv' keys_ok_def distinct_update)
  show "dom (map_of (ep_programs (put_program p s))) = insert (pd_ID p) (dom (map_of (ep_programs s)))"
    by (simp add: put_program_def update_conv')
qed

lemma fold_put_program_ok:
  "epg_ok s \<Longrightarrow> distinct (map pd_ID ps) \<Longrightarrow> \<forall>p \<in> set ps. pd_ID p \<notin> dom (map_of (ep_programs s)) \<Longrightarrow> epg_ok (fold put_program ps s)"
proof (induction ps arbitrary: s)
  case (Cons p ps)
  have q: "epg_ok (put_program p s)" "dom (map_of (ep_programs (put_program p s))) = insert (pd_ID p) (dom (map_of (ep_programs s)))"
    using put_program_ok [OF Cons.prems(1)] Cons.prems(3) by auto
  then have "\<forall>x \<in> set ps. pd_ID x \<notin> dom (map_of (ep_programs (put_program p s)))"
    using Cons.prems(2,3) by (auto simp: rev_image_eqI)
  then show ?case using Cons.IH [OF q(1)] Cons.prems(2) by simp
qed simp

text \<open>Taking out the entries of a source one by one; their list in the source index is dropped at the end.\<close>

definition epg_ok_at :: "ident \<Rightarrow> ident list \<Rightarrow> EPGStoreImpl \<Rightarrow> bool" where
  "epg_ok_at src is s \<longleftrightarrow> keys_ok s \<and> epg_maps (map_of (ep_data s)) (map_of (ep_programs s)) ((slice_at (ep_bySource s))(src := is))
     (slice_at (ep_progsBy s)) (map_of (ep_byChannel s))"

lemma epg_ok_at_self: "epg_ok_at src (slice_at (ep_bySource s) src) s = epg_ok s"
  by (simp add: epg_ok_at_def epg_ok_def)

lemma drop_epg_at:
  assumes "epg_ok_at src (i # is) s"
  shows "epg_ok_at src is (drop_epg i s) \<and> ep_bySource (drop_epg i s) = ep_bySource s
    \<and> map_of (ep_data (drop_epg i s)) = (map_of (ep_data s))(i := None)"
proof -
  let ?D = "map_of (ep_data s)" and ?C = "map_of (ep_byChannel s)" and ?P = "map_of (ep_programs s)"
  let ?S = "slice_at (ep_bySource s)" and ?G = "slice_at (ep_progsBy s)"
  have m: "epg_maps ?D ?P (?S(src := i # is)) ?G ?C" and k: "keys_ok s" using assms by (simp_all add: epg_ok_at_def)
  have "i \<in> set ((?S(src := i # is)) src)" by simp
  then obtain d where d: "?D i = Some d" "ed_SourceID d = src" using m unfolding epg_maps_def by blast
  let ?s1 = "s\<lparr>ep_byChannel := AList.delete (ed_ChannelID d) (ep_byChannel s), ep_data := AList.delete i (ep_data s)\<rparr>"
  have e: "drop_epg i s = drop_programs i ?s1" using d by (simp add: drop_epg_def Let_def)
  have "keys_ok ?s1" using k by (simp add: keys_ok_def distinct_delete)
  then have "keys_ok (drop_epg i s)" unfolding e by (rule drop_programs_keys)
  moreover have "epg_maps (?D(i := None)) (without_keys (set (?G i)) ?P) (?S(src := is)) (?G(i := [])) (?C(ed_ChannelID d := None))"
    using maps_drop_entry [OF maps_drop_programs [OF m, of i] d(1)] d(2) by simp
  ultimately show ?thesis by (simp add: epg_ok_at_def e delete_conv')
qed

lemma fold_drop_epg:
  "epg_ok_at src is s \<Longrightarrow> epg_ok_at src [] (fold drop_epg is s) \<and> ep_bySource (fold drop_epg is s) = ep_bySource s
     \<and> map_of (ep_data (fold drop_epg is s)) = without_keys (set is) (map_of (ep_data s))"
proof (induction "is" arbitrary: s)
  case (Cons i "is")
  note d = drop_epg_at [OF Cons.prems]
  have "without_keys (set is) ((map_of (ep_data s))(i := None)) = without_keys (set (i # is)) (map_of (ep_data s))"
    by (auto simp: without_keys_def)
  then show ?case using Cons.IH [of "drop_epg i s"] d by (simp del: fun_upd_apply)
qed (simp add: without_keys_def)

lemma DeleteBySourceID_ok:
  assumes "epg_ok s"
  shows "epg_ok (DeleteBySourceID src s)"
    "map_of (ep_data (DeleteBySourceID src s)) = (\<lambda>i. case map_of (ep_data s) i of None \<Rightarrow> None | Some d \<Rightarrow> if ed_SourceID d = src then None else Some d)"
proof -
  let ?is = "slice_at (ep_bySource s) src"
  have f: "epg_ok_at src [] (fold drop_epg ?is s)" "map_of (ep_data (fold drop_epg ?is s)) = without_keys (set ?is) (map_of (ep_data s))"
    using fold_drop_epg [of src ?is s] assms by (simp_all add: epg_ok_at_self)
  show "epg_ok (DeleteBySourceID src s)"
    using f(1) unfolding DeleteBySourceID_def Let_def epg_bump_ok
    by (simp add: epg_ok_def epg_ok_at_def keys_ok_def distinct_delete)
  have "i \<in> set ?is \<longleftrightarrow> (\<exists>d. map_of (ep_data s) i = Some d \<and> ed_SourceID d = src)" for i
    using assms by (simp add: epg_ok_def epg_maps_def)
  then show "map_of (ep_data (DeleteBySourceID src s)) = (\<lambda>i. case map_of (ep_data s) i of None \<Rightarrow> None | Some d \<Rightarrow> if ed_SourceID d = src then None else Some d)"
    using f(2) by (auto simp: DeleteBySourceID_def Let_def epg_bump_def without_keys_def fun_eq_iff split: option.split)
qed

lemma delete_sources_ok: "epg_ok s \<Longrightarrow> epg_ok (snd (delete_sources srcs n s))"
  by (induction srcs arbitrary: n s) (simp_all add: DeleteBySourceID_ok)

section \<open>Loading\<close>

lemma index_epg_fold:
  fixes s :: EPGStoreImpl
  shows "slice_at (ep_bySource (fold index_epg ds s)) src = slice_at (ep_bySource s) src @ map fst (filter (\<lambda>(i, d). ed_SourceID d = src) ds)
   \<and> ep_data (fold index_epg ds s) = ep_data s \<and> ep_programs (fold index_epg ds s) = ep_programs s \<and> ep_progsBy (fold index_epg ds s) = ep_progsBy s
   \<and> (distinct (map fst (ep_bySource s)) \<and> distinct (map fst (ep_byChannel s)) \<longrightarrow>
        distinct (map fst (ep_bySource (fold index_epg ds s))) \<and> distinct (map fst (ep_byChannel (fold index_epg ds s))))"
proof (induction ds arbitrary: s)
  case (Cons x ds)
  obtain i d where x: "x = (i, d)" by (cases x)
  show ?case using Cons.IH [of "index_epg x s"] by (simp add: x index_epg_def distinct_update)
qed simp

lemma index_epg_channel:
  fixes s :: EPGStoreImpl
  assumes "distinct (map (\<lambda>(i, d). ed_ChannelID d) ds)"
  shows "map_of (ep_byChannel (fold index_epg ds s)) c = (case find (\<lambda>(i, d). ed_ChannelID d = c) ds of
     Some (i, d) \<Rightarrow> Some i | None \<Rightarrow> map_of (ep_byChannel s) c)"
  using assms
proof (induction ds arbitrary: s)
  case (Cons x ds)
  obtain i d where x: "x = (i, d)" by (cases x)
  have "find (\<lambda>(i, d). ed_ChannelID d = ed_ChannelID (snd x)) ds = None" using Cons.prems x by (force simp: find_None_iff)
  then show ?case using Cons.IH [of "index_epg x s"] Cons.prems by (auto simp: x index_epg_def update_conv' split: option.splits)
qed simp

lemma index_program_fold:
  fixes s :: EPGStoreImpl
  shows "slice_at (ep_progsBy (fold index_program ps s)) i = slice_at (ep_progsBy s) i @ map fst (filter (\<lambda>(k, p). pd_EPGDataID p = i) ps)
   \<and> ep_data (fold index_program ps s) = ep_data s \<and> ep_programs (fold index_program ps s) = ep_programs s
   \<and> ep_bySource (fold index_program ps s) = ep_bySource s \<and> ep_byChannel (fold index_program ps s) = ep_byChannel s"
proof (induction ps arbitrary: s)
  case (Cons x ps)
  obtain k p where x: "x = (k, p)" by (cases x)
  show ?case using Cons.IH [of "index_program x s"] by (simp add: x index_program_def)
qed simp

lemma Load_ok:
  assumes "epg_ok s"
  shows "epg_ok (snd (EPG_Load (Inr (Some (ep_data s, ep_programs s))) s0))"
proof -
  let ?D = "map_of (ep_data s)" and ?C = "map_of (ep_byChannel s)" and ?P = "map_of (ep_programs s)"
  let ?e = "s0\<lparr>ep_data := ep_data s, ep_programs := ep_programs s, ep_bySource := [], ep_progsBy := [], ep_byChannel := []\<rparr>"
  define l where "l = fold index_program (ep_programs s) (fold index_epg (ep_data s) ?e)"
  have m: "epg_maps ?D ?P (slice_at (ep_bySource s)) (slice_at (ep_progsBy s)) ?C" and k: "keys_ok s" using assms by (simp_all add: epg_ok_def)
  have dk: "distinct (map fst (ep_data s))" "distinct (map fst (ep_programs s))" using k by (simp_all add: keys_ok_def)
  have mem: "(i, d) \<in> set (ep_data s) \<longleftrightarrow> ?D i = Some d" "(j, p) \<in> set (ep_programs s) \<longleftrightarrow> ?P j = Some p" for i d j p using dk by simp_all
  have inj: "inj_on (\<lambda>(i, d). ed_ChannelID d) (set (ep_data s))"
  proof (rule inj_onI, clarify)
    fix i d j d' assume "(i, d) \<in> set (ep_data s)" "(j, d') \<in> set (ep_data s)" and c: "ed_ChannelID d = ed_ChannelID d'"
    then have "?D i = Some d" "?D j = Some d'" by (simp_all add: mem)
    then show "i = j \<and> d = d'" using maps_inj [OF m _ _ c, of i j] by simp
  qed
  have "distinct (ep_data s)" using dk(1) by (simp add: distinct_map)
  then have dc: "distinct (map (\<lambda>(i, d). ed_ChannelID d) (ep_data s))" using inj by (simp add: distinct_map)
  have c: "map_of (ep_byChannel l) = ?C"
  proof
    fix c show "map_of (ep_byChannel l) c = ?C c"
    proof (cases "find (\<lambda>(i, d). ed_ChannelID d = c) (ep_data s)")
      case None
      then have "\<nexists>i d. ?D i = Some d \<and> ed_ChannelID d = c" by (fastforce simp: find_None_iff simp flip: mem)
      then have "?C c = None" using maps_channel [OF m] by (metis option.exhaust)
      then show ?thesis using None by (simp add: l_def index_program_fold index_epg_channel [OF dc])
    next
      case (Some x)
      obtain i d where x: "x = (i, d)" by (cases x)
      have "?D i = Some d" "ed_ChannelID d = c" using find_SomeD [OF Some] x by (simp_all add: mem)
      then have "?C c = Some i" using maps_channel [OF m] by blast
      then show ?thesis using Some x by (simp add: l_def index_program_fold index_epg_channel [OF dc])
    qed
  qed
  have S: "slice_at (ep_bySource l) src = map fst (filter (\<lambda>(i, d). ed_SourceID d = src) (ep_data s))" for src
    by (simp add: l_def index_program_fold index_epg_fold)
  have G: "slice_at (ep_progsBy l) i = map fst (filter (\<lambda>(k, p). pd_EPGDataID p = i) (ep_programs s))" for i
    by (simp add: l_def index_program_fold index_epg_fold)
  have sets: "set (slice_at (ep_bySource l) src) = {i. \<exists>d. ?D i = Some d \<and> ed_SourceID d = src}"
    "set (slice_at (ep_progsBy l) i) = {k. \<exists>p. ?P k = Some p \<and> pd_EPGDataID p = i}" for src i
    unfolding S G by (force simp flip: mem)+
  have dist: "distinct (slice_at (ep_bySource l) src)" "distinct (slice_at (ep_progsBy l) i)" for src i
    unfolding S G using dk by (simp_all add: distinct_map_filter)
  have "epg_maps ?D ?P (slice_at (ep_bySource l)) (slice_at (ep_progsBy l)) ?C"
    using m unfolding epg_maps_def sets by (simp add: dist)
  moreover have "keys_ok l" using dk index_epg_fold [of "ep_data s" ?e] by (simp add: l_def keys_ok_def index_program_fold)
  moreover have fields: "ep_data l = ep_data s" "ep_programs l = ep_programs s" by (simp_all add: l_def index_program_fold index_epg_fold)
  ultimately have "epg_ok l" using fields by (simp add: epg_ok_def c)
  then show ?thesis by (simp add: EPG_Load_def l_def)
qed


section \<open>Runs\<close>

text \<open>The operations of the server; identifiers that \<open>uuid.New\<close> makes are not in use.\<close>

inductive epg_step :: "EPGStoreImpl \<Rightarrow> EPGStoreImpl \<Rightarrow> bool" where
  create: "distinct (map ed_ID ds') \<Longrightarrow> \<forall>d \<in> set ds'. ed_ID d \<notin> dom (map_of (ep_data s)) \<Longrightarrow>
     ds' = map (with_epg_id e) (enumerate 0 ds) \<Longrightarrow> epg_step s (BulkCreateEPGData e ds s)"
| programs: "distinct (map pd_ID ps') \<Longrightarrow> \<forall>p \<in> set ps'. pd_ID p \<notin> dom (map_of (ep_programs s)) \<Longrightarrow>
     ps' = map (with_prog_id e) (enumerate 0 ps) \<Longrightarrow> epg_step s (BulkCreatePrograms e ps s)"
| delete: "epg_step s (DeleteBySourceID src s)"
| orphans: "epg_step s (snd (DeleteOrphanedEPGData known s))"
| no_programs: "epg_step s (DeleteProgramsByEPGDataID i s)"
| clear: "epg_step s (EPG_Clear s)"
| restart: "EPG_Save None s file = (None, file') \<Longrightarrow> epg_step s (snd (EPG_Load (Inr file') s0))"

inductive epg_reach :: "EPGStoreImpl \<Rightarrow> bool" where
  start: "epg_reach \<lparr>ep_data = [], ep_programs = [], ep_bySource = [], ep_progsBy = [], ep_byChannel = [], ep_rev = r\<rparr>"
| more: "epg_reach s \<Longrightarrow> epg_step s s' \<Longrightarrow> epg_reach s'"

lemma epg_empty_ok: "epg_ok \<lparr>ep_data = [], ep_programs = [], ep_bySource = [], ep_progsBy = [], ep_byChannel = [], ep_rev = r\<rparr>"
  by (simp add: epg_ok_def keys_ok_def epg_maps_def)

lemma epg_step_ok: "epg_step s s' \<Longrightarrow> epg_ok s \<Longrightarrow> epg_ok s'"
proof (induction rule: epg_step.induct)
  case (create ds' s e ds)
  then show ?case using fold_put_epg_ok by (simp add: BulkCreateEPGData_def)
next
  case (programs ps' s e ps)
  then show ?case using fold_put_program_ok by (simp add: BulkCreatePrograms_def)
next
  case (orphans s known)
  then show ?case by (simp add: DeleteOrphanedEPGData_def delete_sources_ok)
next
  case (no_programs s i)
  then have "keys_ok (drop_programs i s)" by (simp add: drop_programs_keys epg_ok_def)
  then have "epg_ok (drop_programs i s)" using no_programs maps_drop_programs by (simp add: epg_ok_def)
  then show ?case by (simp add: DeleteProgramsByEPGDataID_def)
next
  case (clear s)
  show ?case unfolding EPG_Clear_def epg_bump_ok by (simp add: epg_ok_def keys_ok_def epg_maps_def)
next
  case (restart s f0 f1 s0)
  then have "f1 = Some (ep_data s, ep_programs s)" by (simp add: EPG_Save_def)
  then show ?case using Load_ok [OF restart.prems] by simp
qed (rule DeleteBySourceID_ok)

lemma epg_reach_ok: "epg_reach s \<Longrightarrow> epg_ok s"
  by (induction rule: epg_reach.induct) (auto simp: epg_empty_ok intro: epg_step_ok)

lemma map_filter_set: "set (List.map_filter g xs) = {y. \<exists>x \<in> set xs. g x = Some y}"
  by (induction xs) (auto simp: List.map_filter_simps split: option.split)

lemma programs_set: "epg_ok s \<Longrightarrow> set (programs_of s i) = {p \<in> ran (map_of (ep_programs s)). pd_EPGDataID p = i}"
  unfolding programs_of_def map_filter_set epg_ok_def epg_maps_def ran_def by fastforce

section \<open>A guide with two sources\<close>

definition guide_empty :: EPGStoreImpl where
  "guide_empty = \<lparr>ep_data = [], ep_programs = [], ep_bySource = [], ep_progsBy = [], ep_byChannel = [], ep_rev = 0\<rparr>"

definition guide_entry :: "ident \<Rightarrow> ident \<Rightarrow> string \<Rightarrow> EPGData" where
  "guide_entry i src c = \<lparr>ed_ID = i, ed_SourceID = src, ed_ChannelID = c, ed_Name = c, ed_Icon = ''i''\<rparr>"

definition guide_show :: "ident \<Rightarrow> ident \<Rightarrow> time \<Rightarrow> time \<Rightarrow> ProgramData" where
  "guide_show i d a b = \<lparr>pd_ID = i, pd_EPGDataID = d, pd_Title = ''t'', pd_Description = [], pd_Start = a, pd_Stop = b, pd_Category = [],
     pd_EpisodeNum = [], pd_Icon = [], pd_Subtitle = [], pd_Date = [], pd_Language = [], pd_IsNew = False, pd_IsPreviouslyShown = False,
     pd_Credits = [], pd_Rating = [], pd_RatingIcon = [], pd_StarRating = [], pd_SubCategories = [], pd_EpisodeNumSystem = []\<rparr>"

definition guide_two :: EPGStoreImpl where
  "guide_two = BulkCreatePrograms example_env [guide_show ''p'' ''d'' 0 10, guide_show ''q'' ''d'' 5 10]
     (BulkCreateEPGData example_env [guide_entry ''d'' ''s'' ''c'', guide_entry ''f'' ''t'' ''g''] guide_empty)"

lemma guide_two_reach: "epg_reach guide_two"
proof -
  have 0: "epg_reach guide_empty" unfolding guide_empty_def by (rule epg_reach.start)
  let ?ds = "[guide_entry ''d'' ''s'' ''c'', guide_entry ''f'' ''t'' ''g'']" and ?ps = "[guide_show ''p'' ''d'' 0 10, guide_show ''q'' ''d'' 5 10]"
  have 1: "epg_step guide_empty (BulkCreateEPGData example_env ?ds guide_empty)"
    by (rule epg_step.create [OF _ _ refl]) (simp_all add: guide_empty_def with_epg_id_def guide_entry_def)
  have 2: "epg_step (BulkCreateEPGData example_env ?ds guide_empty) guide_two" unfolding guide_two_def
    by (rule epg_step.programs [OF _ _ refl])
      (simp_all add: guide_empty_def with_prog_id_def with_epg_id_def guide_show_def guide_entry_def BulkCreateEPGData_def put_epg_def epg_bump_def)
  show ?thesis by (rule epg_reach.more [OF epg_reach.more [OF 0 1] 2])
qed

text \<open>C26: In every state the server reaches, restarts included, the indexes of the guide agree with its
  entries and programmes.\<close>

theorem epg_indexes_agree:
  assumes "epg_reach s"
  shows "(i \<in> set (slice_at (ep_bySource s) src) \<longleftrightarrow> (\<exists>d. map_of (ep_data s) i = Some d \<and> ed_SourceID d = src))
    \<and> (map_of (ep_byChannel s) c = Some i \<longleftrightarrow> (\<exists>d. map_of (ep_data s) i = Some d \<and> ed_ChannelID d = c))
    \<and> set (ListPrograms i s) = {p \<in> ran (map_of (ep_programs s)). pd_EPGDataID p = i}"
proof -
  have ok: "epg_ok s" by (rule epg_reach_ok [OF assms])
  then have m: "epg_maps (map_of (ep_data s)) (map_of (ep_programs s)) (slice_at (ep_bySource s)) (slice_at (ep_progsBy s)) (map_of (ep_byChannel s))"
    by (simp add: epg_ok_def)
  have "set (ListPrograms i s) = {p \<in> ran (map_of (ep_programs s)). pd_EPGDataID p = i}"
    by (simp add: ListPrograms_def programs_set [OF ok])
  moreover have "map_of (ep_byChannel s) c = Some i \<longleftrightarrow> (\<exists>d. map_of (ep_data s) i = Some d \<and> ed_ChannelID d = c)"
    by (rule maps_channel [OF m])
  ultimately show ?thesis using maps_source [OF m] by blast
qed

theorem epg_indexes_agree_witness:
  "''d'' \<in> set (slice_at (ep_bySource guide_two) ''s'') \<and> map_of (ep_byChannel guide_two) ''c'' = Some ''d''
    \<and> {p \<in> ran (map_of (ep_programs guide_two)). pd_EPGDataID p = ''d''} = {guide_show ''p'' ''d'' 0 10, guide_show ''q'' ''d'' 5 10}"
proof -
  have "map_of (ep_data guide_two) ''d'' = Some (guide_entry ''d'' ''s'' ''c'')" by code_simp
  moreover have "ListPrograms ''d'' guide_two = [guide_show ''p'' ''d'' 0 10, guide_show ''q'' ''d'' 5 10]" by code_simp
  ultimately show ?thesis using epg_indexes_agree [OF guide_two_reach, of "''d''" "''s''" "''c''"]
    by (simp add: guide_entry_def)
qed

text \<open>Deleting a source removes its entries and their programmes, and nothing else.\<close>

theorem DeleteBySourceID_exact:
  assumes "epg_reach s"
  shows "map_of (ep_data (DeleteBySourceID src s)) = (\<lambda>i. case map_of (ep_data s) i of None \<Rightarrow> None
      | Some d \<Rightarrow> if ed_SourceID d = src then None else Some d)
    \<and> (ed_SourceID d = src \<longrightarrow> map_of (ep_data s) i = Some d \<longrightarrow> GetIconByChannelID (ed_ChannelID d) (DeleteBySourceID src s) = [])"
proof -
  note d = DeleteBySourceID_ok [OF epg_reach_ok [OF assms], of src]
  have "map_of (ep_byChannel (DeleteBySourceID src s)) (ed_ChannelID d) = None"
    if "ed_SourceID d = src" "map_of (ep_data s) i = Some d"
  proof (rule ccontr)
    assume "map_of (ep_byChannel (DeleteBySourceID src s)) (ed_ChannelID d) \<noteq> None"
    then obtain j d' where j: "map_of (ep_data (DeleteBySourceID src s)) j = Some d'" "ed_ChannelID d' = ed_ChannelID d"
      using d(1) maps_channel unfolding epg_ok_def by blast
    then have "map_of (ep_data s) j = Some d'" "ed_SourceID d' \<noteq> src" by (auto simp: d(2) split: option.splits if_splits)
    moreover have "i = j" using epg_reach_ok [OF assms] maps_inj that(2) calculation(1) j(2) unfolding epg_ok_def by metis
    ultimately show False using that by simp
  qed
  then show ?thesis using d(2) by (simp add: GetIconByChannelID_def)
qed

theorem DeleteBySourceID_exact_witness:
  "map_of (ep_data (DeleteBySourceID ''s'' guide_two)) ''d'' = None
    \<and> map_of (ep_data (DeleteBySourceID ''s'' guide_two)) ''f'' = Some (guide_entry ''f'' ''t'' ''g'')
    \<and> GetIconByChannelID ''c'' (DeleteBySourceID ''s'' guide_two) = []"
proof -
  have d: "map_of (ep_data guide_two) ''d'' = Some (guide_entry ''d'' ''s'' ''c'')" by code_simp
  have f: "map_of (ep_data guide_two) ''f'' = Some (guide_entry ''f'' ''t'' ''g'')" by code_simp
  show ?thesis using DeleteBySourceID_exact [OF guide_two_reach, of "''s''" "guide_entry ''d'' ''s'' ''c''" "''d''"] d f
    by (simp add: guide_entry_def)
qed

lemma now_loop_best:
  "now_loop now best ps = Some p \<Longrightarrow> (best = Some p \<or> p \<in> set ps \<and> on_air now p) \<and> (\<forall>b. best = Some b \<longrightarrow> pd_Start p \<ge> pd_Start b)
     \<and> (\<forall>q \<in> set ps. on_air now q \<longrightarrow> pd_Start q \<le> pd_Start p)"
  by (induction ps arbitrary: best) (fastforce split: if_splits option.splits)+

lemma now_loop_None: "now_loop now best ps = None \<longleftrightarrow> best = None \<and> (\<forall>q \<in> set ps. \<not> on_air now q)"
  by (induction ps arbitrary: best) auto

text \<open>The current programme is one on air now, with the latest start among those.\<close>

theorem GetNowByChannelID_latest:
  assumes "epg_reach s" "map_of (ep_byChannel s) c = Some i"
  shows "(case GetNowByChannelID c now s of
      Inr p \<Rightarrow> p \<in> ran (map_of (ep_programs s)) \<and> pd_EPGDataID p = i \<and> on_air now p
        \<and> (\<forall>q \<in> ran (map_of (ep_programs s)). pd_EPGDataID q = i \<and> on_air now q \<longrightarrow> pd_Start q \<le> pd_Start p)
    | Inl e \<Rightarrow> \<forall>q \<in> ran (map_of (ep_programs s)). pd_EPGDataID q = i \<longrightarrow> \<not> on_air now q)"
proof -
  note programs_set [OF epg_reach_ok [OF assms(1)], of i]
  then show ?thesis using now_loop_best [of now None "programs_of s i"] now_loop_None [of now None "programs_of s i"]
    by (cases "now_loop now None (programs_of s i)") (auto simp: GetNowByChannelID_def assms(2))
qed

theorem GetNowByChannelID_latest_witness: "GetNowByChannelID ''c'' 7 guide_two = Inr (guide_show ''q'' ''d'' 5 10)
    \<and> guide_show ''q'' ''d'' 5 10 \<in> ran (map_of (ep_programs guide_two))"
proof -
  have c: "map_of (ep_byChannel guide_two) ''c'' = Some ''d''" by code_simp
  have n: "GetNowByChannelID ''c'' 7 guide_two = Inr (guide_show ''q'' ''d'' 5 10)" by code_simp
  show ?thesis using GetNowByChannelID_latest [OF guide_two_reach c, of 7] by (simp add: n)
qed

end
