(* ===== verification/Output.thy ===== *)
theory Output
  imports M3u Logos EpgStore ChannelGroupStore
begin

text \<open>
  The playlist and the guide that the server gives to its clients (\<open>pkg/service/output.go\<close>,
  \<open>pkg/service/stream_mode.go\<close>, \<open>pkg/xmlutil\<close>). The reads of the stores cannot fail, so the error
  branches that pass their errors on are not there. \<open>json.Unmarshal\<close> of the lists that a programme
  holds as JSON and the rendering of a time are parameters.
\<close>

section \<open>Escaping\<close>

text \<open>\<open>strings.ReplaceAll\<close> with a pattern of one byte.\<close>

definition ReplaceAll1 :: "char \<Rightarrow> string \<Rightarrow> string \<Rightarrow> string" where
  "ReplaceAll1 c r s = concat (map (\<lambda>x. if x = c then r else [x]) s)"

definition XmlEscape :: "string \<Rightarrow> string" where
  "XmlEscape s0 = (let s1 = ReplaceAll1 (CHR ''&'') ''&amp;'' s0;
       s2 = ReplaceAll1 (CHR ''<'') ''&lt;'' s1;
       s3 = ReplaceAll1 (CHR ''>'') ''&gt;'' s2;
       s4 = ReplaceAll1 (CHR 0x22) ''&quot;'' s3
     in ReplaceAll1 (CHR 0x27) ''&apos;'' s4)"

section \<open>The playlist\<close>

definition output_baseURL :: "string \<Rightarrow> int \<Rightarrow> string" where
  "output_baseURL host port = host @ '':'' @ show_int port"

definition channelEPGID :: "Channel \<Rightarrow> string" where
  "channelEPGID ch = (if ch_TvgID ch \<noteq> [] then ch_TvgID ch else ''tvproxy.'' @ ch_ID ch)"

definition ResolveChannelURL :: "ident \<Rightarrow> string \<Rightarrow> string" where
  "ResolveChannelURL i base = base @ ''/channel/'' @ i"

text \<open>What the service reads: the channels, the groups, the logos and the guide.\<close>

record output_service =
  os_channels :: channels
  os_groups :: groups
  os_logos :: logos
  os_epg :: EPGStoreImpl
  os_host :: string
  os_port :: int

text \<open>The filter over the enabled channels; \<open>None\<close> is the nil map.\<close>

definition shown :: "ident list option \<Rightarrow> Channel \<Rightarrow> bool" where
  "shown flt ch \<longleftrightarrow> ch_IsEnabled ch \<and> (case flt of None \<Rightarrow> True
     | Some gs \<Rightarrow> (case ch_ChannelGroupID ch of None \<Rightarrow> False | Some g \<Rightarrow> g \<in> set gs))"

definition group_names :: "groups \<Rightarrow> ident \<Rightarrow> string option" where
  "group_names gs = map_of (rev (map (\<lambda>g. (g_ID g, g_Name g)) gs))"

definition output_logo :: "output_service \<Rightarrow> Channel \<Rightarrow> string" where
  "output_logo s ch = ResolveChannel (\<lambda>c. GetIconByChannelID c (os_epg s)) (os_logos s) ch"

definition group_of :: "output_service \<Rightarrow> Channel \<Rightarrow> string option" where
  "group_of s ch = (case ch_ChannelGroupID ch of None \<Rightarrow> None | Some g \<Rightarrow> group_names (GroupStore_List (os_groups s)) g)"

definition attr_pair :: "string \<Rightarrow> string \<Rightarrow> string" where
  "attr_pair k v = '' '' @ k @ ''='' @ [CHR 0x22] @ v @ [CHR 0x22]"

definition m3u_entry :: "output_service \<Rightarrow> string \<Rightarrow> string \<Rightarrow> Channel \<Rightarrow> string" where
  "m3u_entry s base sfx ch = ''#EXTINF:-1'' @ attr_pair ''tvg-id'' (channelEPGID ch) @ attr_pair ''tvg-name'' (ch_Name ch)
     @ attr_pair ''tvg-logo'' (output_logo s ch)
     @ (case group_of s ch of None \<Rightarrow> [] | Some g \<Rightarrow> attr_pair ''group-title'' g)
     @ '','' @ ch_Name ch @ [nl] @ ResolveChannelURL (ch_ID ch) base @ sfx @ [nl]"

definition generateM3U :: "ident list option \<Rightarrow> string \<Rightarrow> string \<Rightarrow> output_service \<Rightarrow> string" where
  "generateM3U flt base sfx s = ''#EXTM3U'' @ [nl] @ concat (map (m3u_entry s base sfx) (filter (shown flt) (ChannelStore_List (os_channels s))))"

definition or_base :: "string \<Rightarrow> output_service \<Rightarrow> string" where
  "or_base base s = (if base = [] then output_baseURL (os_host s) (os_port s) else base)"

definition GenerateM3U :: "string \<Rightarrow> output_service \<Rightarrow> string" where
  "GenerateM3U base s = generateM3U None (or_base base s) [] s"

definition GenerateM3UWithExtension :: "string \<Rightarrow> string \<Rightarrow> output_service \<Rightarrow> string" where
  "GenerateM3UWithExtension base ext s = generateM3U None (or_base base s) ext s"

definition GenerateM3UForGroups :: "ident list \<Rightarrow> string \<Rightarrow> output_service \<Rightarrow> string" where
  "GenerateM3UForGroups gs base s = (if gs = [] then GenerateM3U base s else generateM3U (Some gs) base [] s)"

section \<open>The guide\<close>

definition xml_line :: "string \<Rightarrow> string \<Rightarrow> string \<Rightarrow> string" where
  "xml_line indent tag v = indent @ ''<'' @ tag @ ''>'' @ XmlEscape v @ ''</'' @ tag @ ''>'' @ [nl]"

definition icon_line :: "string \<Rightarrow> string \<Rightarrow> string" where
  "icon_line indent src = indent @ ''<icon src='' @ [qt] @ XmlEscape src @ [qt] @ '' />'' @ [nl]"

definition writeXMLChannel :: "string \<Rightarrow> string \<Rightarrow> string \<Rightarrow> string" where
  "writeXMLChannel i name icon = ''  <channel id='' @ [qt] @ XmlEscape i @ [qt] @ ''>'' @ [nl]
     @ xml_line ''    '' ''display-name'' name
     @ (if icon \<noteq> [] then icon_line ''    '' icon else []) @ ''  </channel>'' @ [nl]"

record guide_format =
  gf_time :: "time \<Rightarrow> string"
  gf_strings :: "string \<Rightarrow> string list option"
  gf_credits :: "string \<Rightarrow> (string list \<times> string list \<times> string list) option"

definition writeXMLCredits :: "guide_format \<Rightarrow> string \<Rightarrow> string" where
  "writeXMLCredits f js = (case gf_credits f js of None \<Rightarrow> []
     | Some (ds, as, ws) \<Rightarrow> if ds = [] \<and> as = [] \<and> ws = [] then []
         else ''    <credits>'' @ [nl] @ concat (map (xml_line ''      '' ''director'') ds)
           @ concat (map (xml_line ''      '' ''actor'') as) @ concat (map (xml_line ''      '' ''writer'') ws)
           @ ''    </credits>'' @ [nl])"

definition opt_line :: "string \<Rightarrow> string \<Rightarrow> string" where
  "opt_line tag v = (if v \<noteq> [] then xml_line ''    '' tag v else [])"

definition writeXMLProgramme :: "guide_format \<Rightarrow> string \<Rightarrow> ProgramData \<Rightarrow> string" where
  "writeXMLProgramme f c p =
     ''  <programme start='' @ [qt] @ gf_time f (pd_Start p) @ [qt] @ '' stop='' @ [qt] @ gf_time f (pd_Stop p) @ [qt]
       @ '' channel='' @ [qt] @ XmlEscape c @ [qt] @ ''>'' @ [nl]
     @ xml_line ''    '' ''title'' (pd_Title p)
     @ opt_line ''sub-title'' (pd_Subtitle p)
     @ opt_line ''desc'' (pd_Description p)
     @ opt_line ''date'' (pd_Date p)
     @ (if pd_Credits p \<noteq> [] then writeXMLCredits f (pd_Credits p) else [])
     @ opt_line ''category'' (pd_Category p)
     @ (if pd_SubCategories p \<noteq> [] then
          (case gf_strings f (pd_SubCategories p) of None \<Rightarrow> [] | Some cs \<Rightarrow> concat (map (xml_line ''    '' ''category'') cs)) else [])
     @ opt_line ''language'' (pd_Language p)
     @ (if pd_EpisodeNum p \<noteq> [] then
          ''    <episode-num system='' @ [qt] @ XmlEscape (if pd_EpisodeNumSystem p = [] then ''onscreen'' else pd_EpisodeNumSystem p) @ [qt]
            @ ''>'' @ XmlEscape (pd_EpisodeNum p) @ ''</episode-num>'' @ [nl] else [])
     @ (if pd_Icon p \<noteq> [] then icon_line ''    '' (pd_Icon p) else [])
     @ (if pd_Rating p \<noteq> [] then ''    <rating>'' @ [nl] @ xml_line ''      '' ''value'' (pd_Rating p)
          @ (if pd_RatingIcon p \<noteq> [] then icon_line ''      '' (pd_RatingIcon p) else []) @ ''    </rating>'' @ [nl] else [])
     @ (if pd_StarRating p \<noteq> [] then ''    <star-rating>'' @ [nl] @ xml_line ''      '' ''value'' (pd_StarRating p)
          @ ''    </star-rating>'' @ [nl] else [])
     @ (if pd_IsPreviouslyShown p then ''    <previously-shown />'' @ [nl] else [])
     @ (if pd_IsNew p then ''    <new />'' @ [nl] else [])
     @ ''  </programme>'' @ [nl]"

definition xml_head :: string where
  "xml_head = ''<?xml version='' @ [qt] @ ''1.0'' @ [qt] @ '' encoding='' @ [qt] @ ''UTF-8'' @ [qt] @ ''?>'' @ [nl]
     @ ''<!DOCTYPE tv SYSTEM '' @ [qt] @ ''xmltv.dtd'' @ [qt] @ ''>'' @ [nl]
     @ ''<tv generator-info-name='' @ [qt] @ ''tvproxy'' @ [qt] @ ''>'' @ [nl]"

definition enabledTvgIDs :: "Channel list \<Rightarrow> string set" where
  "enabledTvgIDs chs = set (map ch_TvgID (filter (\<lambda>ch. ch_TvgID ch \<noteq> []) chs))"

definition noEPGChannels :: "Channel list \<Rightarrow> Channel list" where
  "noEPGChannels chs = filter (\<lambda>ch. ch_TvgID ch = []) chs"

definition generateEPG :: "guide_format \<Rightarrow> ident list option \<Rightarrow> output_service \<Rightarrow> string" where
  "generateEPG f flt s = (let chs = filter (shown flt) (ChannelStore_List (os_channels s));
       es = filter (\<lambda>d. ed_ChannelID d \<in> enabledTvgIDs chs) (ListEPGData (os_epg s))
     in xml_head @ concat (map (\<lambda>d. writeXMLChannel (ed_ChannelID d) (ed_Name d) (ed_Icon d)) es)
       @ concat (map (\<lambda>ch. writeXMLChannel (channelEPGID ch) (ch_Name ch) (output_logo s ch)) (noEPGChannels chs))
       @ concat (map (\<lambda>d. concat (map (writeXMLProgramme f (ed_ChannelID d)) (ListPrograms (ed_ID d) (os_epg s)))) es)
       @ ''</tv>'' @ [nl])"

definition GenerateEPG :: "guide_format \<Rightarrow> output_service \<Rightarrow> string" where
  "GenerateEPG f s = generateEPG f None s"

definition GenerateEPGForGroups :: "guide_format \<Rightarrow> ident list \<Rightarrow> output_service \<Rightarrow> string" where
  "GenerateEPGForGroups f gs s = (if gs = [] then GenerateEPG f s else generateEPG f (Some gs) s)"


section \<open>Reading the playlist back\<close>

definition attr_keys :: "string list" where
  "attr_keys = [''tvg-id'', ''tvg-name'', ''tvg-logo'', ''group-title'', ''tvp-type'', ''tvp-series'', ''tvp-collection'', ''tvp-season'',
     ''tvp-episode'', ''tvp-vcodec'', ''tvp-acodec'', ''tvp-resolution'', ''tvp-audio'', ''tvp-duration'', ''tvp-container'',
     ''tvp-audio-tracks'', ''tvp-id'', ''tvp-tags'', ''tvp-season-name'']"




definition seg_id :: string where "seg_id = ''#EXTINF:-1 tvg-id=''"
definition seg_name :: string where "seg_name = '' tvg-name=''"
definition seg_logo :: string where "seg_logo = '' tvg-logo=''"
definition seg_group :: string where "seg_group = '' group-title=''"

definition entry_segments :: "output_service \<Rightarrow> Channel \<Rightarrow> string list" where
  "entry_segments s ch = [seg_id, channelEPGID ch, seg_name, ch_Name ch, seg_logo, output_logo s ch]
     @ (case group_of s ch of None \<Rightarrow> [] | Some g \<Rightarrow> [seg_group, g]) @ ['','' @ ch_Name ch]"

lemma m3u_entry_segments:
  "m3u_entry s base sfx ch = quote_join (entry_segments s ch) @ [nl] @ ResolveChannelURL (ch_ID ch) base @ sfx @ [nl]"
  by (simp add: m3u_entry_def entry_segments_def attr_pair_def qt_def seg_id_def seg_name_def seg_logo_def seg_group_def split: option.split)

lemma segment_ends:
  "\<forall>k \<in> set attr_keys. (suffix (k @ ''='') seg_id \<longleftrightarrow> k = ''tvg-id'') \<and> (suffix (k @ ''='') seg_name \<longleftrightarrow> k = ''tvg-name'')
     \<and> (suffix (k @ ''='') seg_logo \<longleftrightarrow> k = ''tvg-logo'') \<and> (suffix (k @ ''='') seg_group \<longleftrightarrow> k = ''group-title'')"
  unfolding attr_keys_def seg_id_def seg_name_def seg_logo_def seg_group_def suffix_to_prefix by simp

lemma attr_keys_no_quote: "k \<in> set attr_keys \<Longrightarrow> qt \<notin> set k"
  by (auto simp: attr_keys_def qt_def)















text \<open>A name with a double quote is cut at the quote.\<close>

theorem quoted_name_cut:
  assumes "ch_Name ch = a @ qt # b" "group_of s ch = None" "qt \<notin> set a" "qt \<notin> set b" "qt \<notin> set (channelEPGID ch)" "qt \<notin> set (output_logo s ch)"
    and "\<not> suffix ''tvg-name='' (channelEPGID ch)"
  shows "\<exists>line. m3u_entry s base sfx ch = line @ [nl] @ ResolveChannelURL (ch_ID ch) base @ sfx @ [nl] \<and> extractAttr line ''tvg-name'' = a"
proof -
  let ?ss = "[seg_id, channelEPGID ch, seg_name, a, b, seg_logo, output_logo s ch, '','' @ a, b]"
  have e: "quote_join (entry_segments s ch) = quote_join ?ss" using assms(1,2) by (simp add: entry_segments_def)
  have q: "\<forall>x \<in> set ?ss. qt \<notin> set x" using assms(3-6) by (simp add: seg_id_def seg_name_def seg_logo_def qt_def)
  have k: "''tvg-name'' \<in> set attr_keys" by (simp add: attr_keys_def)
  have "extractAttr (quote_join ?ss) ''tvg-name'' = a"
    unfolding extractAttr_segments [OF attr_keys_no_quote [OF k] q] using bspec [OF segment_ends k] assms(7) by simp
  then show ?thesis using e m3u_entry_segments [of s base sfx ch] by auto
qed

definition shop_channel :: Channel where
  "shop_channel = \<lparr>ch_ID = ''c1'', ch_UserID = ''u'', ch_Name = ''News,Live'', ch_LogoID = None, ch_Logo = ''http://l/a.png'', ch_TvgID = [],
     ch_ChannelGroupID = Some ''g'', ch_StreamProfileID = None, ch_FailCount = 0, ch_IsEnabled = True, ch_CreatedAt = 0, ch_UpdatedAt = 0\<rparr>"

definition shop_sport :: Channel where
  "shop_sport = shop_channel\<lparr>ch_ID := ''c2'', ch_Name := ''Sport'', ch_TvgID := ''c'', ch_ChannelGroupID := None\<rparr>"

definition shop :: output_service where
  "shop = \<lparr>os_channels = [\<lparr>ce_Channel = shop_channel, ce_StreamIDs = []\<rparr>,
       \<lparr>ce_Channel = shop_sport, ce_StreamIDs = []\<rparr>],
     os_groups = [\<lparr>g_ID = ''g'', g_UserID = ''u'', g_Name = ''All'', g_ImageURL = [], g_IsEnabled = True, g_JellyfinEnabled = False,
       g_JellyfinType = [], g_SortOrder = 0, g_CreatedAt = 0, g_UpdatedAt = 0\<rparr>],
     os_logos = [], os_epg = guide_two, os_host = ''http://h'', os_port = 80\<rparr>"

lemma shop_fields [simp]:
  "ch_ID shop_channel = ''c1''" "ch_Name shop_channel = ''News,Live''" "channelEPGID shop_channel = ''tvproxy.c1''"
  "ch_ID shop_sport = ''c2''" "ch_Name shop_sport = ''Sport''" "channelEPGID shop_sport = ''c''"
  by (simp_all add: shop_channel_def shop_sport_def channelEPGID_def)

lemma shop_reads [simp]:
  "filter (shown None) (ChannelStore_List (os_channels shop)) = [shop_channel, shop_sport]"
  "output_logo shop shop_channel = ''/logo?url=http%3A%2F%2Fl%2Fa.png''" "group_of shop shop_channel = Some ''All''"
  "output_logo shop shop_sport = ''/logo?url=http%3A%2F%2Fl%2Fa.png''" "group_of shop shop_sport = None"
  by code_simp+


end
