(* ===== verification/GuideXml.thy ===== *)
theory GuideXml
  imports Output
begin

text \<open>
  The guide that \<open>pkg/service/output.go\<close> writes is read back by a reader of XML tags: what was escaped is
  unescaped, every element is closed, and the elements are those of the stores.
\<close>

section \<open>Reading the guide back\<close>

lemma ReplaceAll1_append: "ReplaceAll1 c r (s @ t) = ReplaceAll1 c r s @ ReplaceAll1 c r t"
  by (simp add: ReplaceAll1_def)

definition esc_char :: "char \<Rightarrow> string" where
  "esc_char c = (if c = CHR ''&'' then ''&amp;'' else if c = CHR ''<'' then ''&lt;'' else if c = CHR ''>'' then ''&gt;''
     else if c = CHR 0x22 then ''&quot;'' else if c = CHR 0x27 then ''&apos;'' else [c])"

text \<open>The five passes are one substitution: none of them sees what an earlier one has written.\<close>

lemma XmlEscape_chars: "XmlEscape s = concat (map esc_char s)"
proof (induction s)
  case (Cons c s)
  have "XmlEscape (c # s) = XmlEscape [c] @ XmlEscape s"
    using ReplaceAll1_append [of _ _ "[c]" s] by (simp add: XmlEscape_def Let_def ReplaceAll1_append)
  moreover have "XmlEscape [c] = esc_char c" by (simp add: XmlEscape_def ReplaceAll1_def esc_char_def Let_def)
  ultimately show ?case using Cons by simp
qed (simp add: XmlEscape_def ReplaceAll1_def Let_def)

text \<open>A reader of the escapes, and of the tags of a document.\<close>

function xml_unescape :: "string \<Rightarrow> string" where
  "xml_unescape s = (if s = [] then []
     else if prefix ''&amp;'' s then CHR ''&'' # xml_unescape (drop 5 s)
     else if prefix ''&lt;'' s then CHR ''<'' # xml_unescape (drop 4 s)
     else if prefix ''&gt;'' s then CHR ''>'' # xml_unescape (drop 4 s)
     else if prefix ''&quot;'' s then CHR 0x22 # xml_unescape (drop 6 s)
     else if prefix ''&apos;'' s then CHR 0x27 # xml_unescape (drop 6 s)
     else hd s # xml_unescape (tl s))"
  by pat_completeness auto
termination by (relation "measure length") auto

declare xml_unescape.simps [simp del]

lemma xml_unescape_Nil [simp]: "xml_unescape [] = []"
  by (simp add: xml_unescape.simps)

lemma xml_unescape_char: "xml_unescape (esc_char c @ r) = c # xml_unescape r"
proof (cases "c = CHR ''&'' \<or> c = CHR ''<'' \<or> c = CHR ''>'' \<or> c = CHR 0x22 \<or> c = CHR 0x27")
  case True
  then show ?thesis by (elim disjE) (subst xml_unescape.simps, simp add: esc_char_def)+
next
  case False
  then show ?thesis by (subst xml_unescape.simps) (auto simp: esc_char_def)
qed

lemma unescape_escape: "xml_unescape (XmlEscape s @ r) = s @ xml_unescape r"
  by (induction s) (simp_all add: XmlEscape_chars xml_unescape_char)

lemma escape_clean: "c \<in> set (XmlEscape s) \<Longrightarrow> c \<noteq> CHR ''<'' \<and> c \<noteq> CHR ''>'' \<and> c \<noteq> qt"
  by (auto simp: XmlEscape_chars esc_char_def qt_def split: if_splits)

text \<open>The tags and texts of a document. A text runs to the next opening bracket, a tag to the next closing
  one; inside it the attributes stand between double quotes.\<close>

datatype xml_tok = Decl string | Open string "(string \<times> string) list" | Single string "(string \<times> string) list" | Close string | Chars string

fun scan_attrs :: "nat \<Rightarrow> string \<Rightarrow> ((string \<times> string) list \<times> bool) option" where
  "scan_attrs 0 s = None"
| "scan_attrs (Suc n) s = (if s = [] then Some ([], False) else if s = '' /'' then Some ([], True)
     else if hd s \<noteq> CHR '' '' then None
     else (let k = takeWhile (\<lambda>c. c \<noteq> CHR ''='') (tl s); r = drop 1 (dropWhile (\<lambda>c. c \<noteq> CHR ''='') (tl s))
       in if r = [] \<or> hd r \<noteq> qt then None
          else (let v = takeWhile (\<lambda>c. c \<noteq> qt) (tl r); r' = dropWhile (\<lambda>c. c \<noteq> qt) (tl r)
            in if r' = [] then None else map_option (\<lambda>(as, e). ((k, xml_unescape v) # as, e)) (scan_attrs n (tl r')))))"

definition scan_tag :: "string \<Rightarrow> xml_tok option" where
  "scan_tag raw = (if raw = [] then None else if hd raw = CHR ''?'' \<or> hd raw = CHR ''!'' then Some (Decl raw)
     else if hd raw = CHR ''/'' then Some (Close (tl raw))
     else (let n = takeWhile (\<lambda>c. c \<noteq> CHR '' '') raw
       in map_option (\<lambda>(as, e). if e then Single n as else Open n as) (scan_attrs (length raw) (drop (length n) raw))))"

function scan_xml :: "string \<Rightarrow> xml_tok list option" where
  "scan_xml s = (if s = [] then Some []
     else if hd s = CHR ''<'' then (case dropWhile (\<lambda>c. c \<noteq> CHR ''>'') s of [] \<Rightarrow> None
       | _ # r \<Rightarrow> (case scan_tag (takeWhile (\<lambda>c. c \<noteq> CHR ''>'') (tl s)) of None \<Rightarrow> None
           | Some t \<Rightarrow> map_option (Cons t) (scan_xml r)))
     else map_option (Cons (Chars (xml_unescape (takeWhile (\<lambda>c. c \<noteq> CHR ''<'') s)))) (scan_xml (dropWhile (\<lambda>c. c \<noteq> CHR ''<'') s)))"
  by pat_completeness auto
termination
proof (relation "measure length", simp, goal_cases)
  case (1 s x r t)
  then show ?case using length_dropWhile_le [of "\<lambda>c. c \<noteq> CHR ''>''" s] by simp
next
  case (2 s)
  then show ?case using length_dropWhile_le [of "\<lambda>c. c \<noteq> CHR ''<''" "tl s"] by (cases s) (auto simp: less_Suc_eq_le)
qed

declare scan_xml.simps [simp del]

text \<open>Writing tokens, and what is read back: neighbouring texts are one, empty ones none.\<close>

fun print_attrs :: "(string \<times> string) list \<Rightarrow> string" where
  "print_attrs [] = []"
| "print_attrs ((k, v) # as) = '' '' @ k @ ''='' @ [qt] @ XmlEscape v @ [qt] @ print_attrs as"

fun print_tok :: "xml_tok \<Rightarrow> string" where
  "print_tok (Decl d) = ''<'' @ d @ ''>''"
| "print_tok (Open n as) = ''<'' @ n @ print_attrs as @ ''>''"
| "print_tok (Single n as) = ''<'' @ n @ print_attrs as @ '' />''"
| "print_tok (Close n) = ''</'' @ n @ ''>''"
| "print_tok (Chars v) = XmlEscape v"

definition add_text :: "string \<Rightarrow> xml_tok list \<Rightarrow> xml_tok list" where
  "add_text v ts = (case ts of Chars w # r \<Rightarrow> Chars (v @ w) # r | _ \<Rightarrow> if v = [] then ts else Chars v # ts)"

fun merge_chars :: "xml_tok list \<Rightarrow> xml_tok list" where
  "merge_chars [] = []"
| "merge_chars (Chars v # ts) = add_text v (merge_chars ts)"
| "merge_chars (t # ts) = t # merge_chars ts"

definition xml_name :: "string \<Rightarrow> bool" where
  "xml_name n \<longleftrightarrow> n \<noteq> [] \<and> (\<forall>c \<in> set n. c \<noteq> CHR '' '' \<and> c \<noteq> CHR ''<'' \<and> c \<noteq> CHR ''>'' \<and> c \<noteq> CHR ''='' \<and> c \<noteq> qt \<and> c \<noteq> CHR ''/''
     \<and> c \<noteq> CHR ''?'' \<and> c \<noteq> CHR ''!'')"

fun good_tok :: "xml_tok \<Rightarrow> bool" where
  "good_tok (Decl d) = (d \<noteq> [] \<and> (hd d = CHR ''?'' \<or> hd d = CHR ''!'') \<and> CHR ''>'' \<notin> set d)"
| "good_tok (Open n as) = (xml_name n \<and> list_all (xml_name \<circ> fst) as)"
| "good_tok (Single n as) = (xml_name n \<and> list_all (xml_name \<circ> fst) as)"
| "good_tok (Close n) = xml_name n"
| "good_tok (Chars v) = True"

lemma takeWhile_stop: "\<forall>c \<in> set a. P c \<Longrightarrow> \<not> P x \<Longrightarrow> takeWhile P (a @ x # r) = a"
  by (induction a) auto

lemma dropWhile_stop: "\<forall>c \<in> set a. P c \<Longrightarrow> \<not> P x \<Longrightarrow> dropWhile P (a @ x # r) = x # r"
  by (induction a) auto

lemma scan_attrs_step:
  assumes "s \<noteq> ''/''" "takeWhile (\<lambda>c. c \<noteq> CHR ''='') s = k" "dropWhile (\<lambda>c. c \<noteq> CHR ''='') s = CHR ''='' # qt # w"
    "takeWhile (\<lambda>c. c \<noteq> qt) w = v" "dropWhile (\<lambda>c. c \<noteq> qt) w = qt # r"
  shows "scan_attrs (Suc m) (CHR '' '' # s) = map_option (\<lambda>(as, e). ((k, xml_unescape v) # as, e)) (scan_attrs m r)"
  using assms by (simp add: Let_def)

lemma scan_attrs_print:
  "length as < n \<Longrightarrow> list_all (xml_name \<circ> fst) as \<Longrightarrow> e = [] \<or> e = '' /'' \<Longrightarrow> scan_attrs n (print_attrs as @ e) = Some (as, e \<noteq> [])"
proof (induction as arbitrary: n)
  case Nil
  then show ?case by (cases n) auto
next
  case (Cons x as)
  obtain k v m where x: "x = (k, v)" and n: "n = Suc m" using Cons.prems(1) by (cases x, cases n) auto
  let ?r = "print_attrs as @ e"
  have "xml_name k" using Cons.prems(2) x by simp
  then have k: "\<forall>c \<in> set k. c \<noteq> CHR ''=''" and k0: "k \<noteq> []" unfolding xml_name_def by blast+
  have v: "\<forall>c \<in> set (XmlEscape v). c \<noteq> qt" using escape_clean by blast
  let ?w = "XmlEscape v @ qt # ?r" and ?s = "k @ CHR ''='' # qt # XmlEscape v @ qt # ?r"
  have p: "print_attrs (x # as) @ e = CHR '' '' # ?s" by (simp add: x)
  have "length ?s \<noteq> length ''/''" by simp
  then have "?s \<noteq> ''/''" by metis
  moreover have "takeWhile (\<lambda>c. c \<noteq> CHR ''='') ?s = k" "dropWhile (\<lambda>c. c \<noteq> CHR ''='') ?s = CHR ''='' # qt # ?w"
    "takeWhile (\<lambda>c. c \<noteq> qt) ?w = XmlEscape v" "dropWhile (\<lambda>c. c \<noteq> qt) ?w = qt # ?r"
    using k v takeWhile_stop [of k _ "CHR ''=''"] dropWhile_stop [of k _ "CHR ''=''"] takeWhile_stop [of "XmlEscape v" _ qt]
      dropWhile_stop [of "XmlEscape v" _ qt] by simp_all
  ultimately have "scan_attrs n (print_attrs (x # as) @ e)
      = map_option (\<lambda>(as, e). ((k, xml_unescape (XmlEscape v)) # as, e)) (scan_attrs m ?r)"
    unfolding n p by (rule scan_attrs_step)
  moreover have "scan_attrs m ?r = Some (as, e \<noteq> [])" using Cons n by simp
  ultimately show ?case using unescape_escape [of v "[]"] by (simp add: x)
qed

lemma print_attrs_length: "length as \<le> length (print_attrs as)"
  by (induction as rule: print_attrs.induct) auto

lemma scan_tag_open:
  assumes "xml_name n" "list_all (xml_name \<circ> fst) as" "e = [] \<or> e = '' /''"
  shows "scan_tag (n @ print_attrs as @ e) = Some (if e \<noteq> [] then Single n as else Open n as)"
proof -
  let ?raw = "n @ print_attrs as @ e"
  have h: "n \<noteq> []" "hd n \<noteq> CHR ''?''" "hd n \<noteq> CHR ''!''" "hd n \<noteq> CHR ''/''" and s: "\<forall>c \<in> set n. c \<noteq> CHR '' ''"
    using assms(1) by (cases n; auto simp: xml_name_def)+
  have "print_attrs as @ e = [] \<or> (\<exists>r. print_attrs as @ e = CHR '' '' # r)" using assms(3) by (cases as) auto
  then have t: "takeWhile (\<lambda>c. c \<noteq> CHR '' '') ?raw = n"
  proof
    assume "print_attrs as @ e = []" then show ?thesis using s by (simp add: takeWhile_eq_all_conv)
  next
    assume "\<exists>r. print_attrs as @ e = CHR '' '' # r" then show ?thesis using takeWhile_stop [OF s] by (elim exE) simp
  qed
  have "length as < length ?raw" using print_attrs_length [of as] h(1) by (cases n) auto
  from scan_attrs_print [OF this assms(2,3)]
  have "scan_attrs (length ?raw) (drop (length n) ?raw) = Some (as, e \<noteq> [])" by simp
  moreover have "?raw \<noteq> []" "hd ?raw = hd n" using h(1) by simp_all
  ultimately show ?thesis unfolding scan_tag_def Let_def t using h by (simp only: if_False simp_thms option.map) simp
qed


lemma scan_tag_not_chars: "scan_tag raw \<noteq> Some (Chars v)"
  by (auto simp: scan_tag_def Let_def split: if_splits prod.splits)

lemma scan_xml_Nil [simp]: "scan_xml [] = Some []"
  by (simp add: scan_xml.simps)

lemma scan_xml_tag:
  assumes "CHR ''>'' \<notin> set raw" "scan_tag raw = Some t"
  shows "scan_xml (CHR ''<'' # raw @ CHR ''>'' # r) = map_option (Cons t) (scan_xml r)"
proof -
  have n: "\<forall>c \<in> set raw. c \<noteq> CHR ''>''" using assms(1) by blast
  have "takeWhile (\<lambda>c. c \<noteq> CHR ''>'') (raw @ CHR ''>'' # r) = raw" "dropWhile (\<lambda>c. c \<noteq> CHR ''>'') (raw @ CHR ''>'' # r) = CHR ''>'' # r"
    using takeWhile_stop [OF n] dropWhile_stop [OF n] by simp_all
  then show ?thesis using assms(2) by (subst scan_xml.simps) simp
qed

lemma scan_xml_text:
  assumes "scan_xml X = Some ts"
  shows "scan_xml (XmlEscape v @ X) = Some (add_text v ts)"
proof (cases "v = []")
  case True
  then have "XmlEscape v @ X = X" by (simp add: XmlEscape_chars)
  then show ?thesis using assms True by (auto simp: add_text_def split: list.split xml_tok.split)
next
  case False
  then have ne: "XmlEscape v \<noteq> []" by (cases v) (auto simp: XmlEscape_chars esc_char_def)
  have cl: "\<forall>c \<in> set (XmlEscape v). c \<noteq> CHR ''<''" using escape_clean by blast
  then have hd: "hd (XmlEscape v @ X) \<noteq> CHR ''<''" using ne by (cases "XmlEscape v") auto
  have tw: "takeWhile (\<lambda>c. c \<noteq> CHR ''<'') (XmlEscape v @ X) = XmlEscape v @ takeWhile (\<lambda>c. c \<noteq> CHR ''<'') X"
    and dw: "dropWhile (\<lambda>c. c \<noteq> CHR ''<'') (XmlEscape v @ X) = dropWhile (\<lambda>c. c \<noteq> CHR ''<'') X"
    using cl by (simp_all add: takeWhile_append2 dropWhile_append2)
  have s: "scan_xml (XmlEscape v @ X) = map_option (Cons (Chars (v @ xml_unescape (takeWhile (\<lambda>c. c \<noteq> CHR ''<'') X))))
      (scan_xml (dropWhile (\<lambda>c. c \<noteq> CHR ''<'') X))"
    using ne hd by (subst scan_xml.simps) (simp add: tw dw unescape_escape)
  consider "X = []" | "X \<noteq> []" "hd X = CHR ''<''" | "X \<noteq> []" "hd X \<noteq> CHR ''<''" by blast
  then show ?thesis
  proof cases
    case 1 then show ?thesis using assms s False by (simp add: add_text_def)
  next
    case 2
    then have "takeWhile (\<lambda>c. c \<noteq> CHR ''<'') X = []" "dropWhile (\<lambda>c. c \<noteq> CHR ''<'') X = X" by (cases X; simp)+
    moreover have "\<nexists>w r. ts = Chars w # r"
      using assms 2 scan_tag_not_chars by (subst (asm) scan_xml.simps) (auto split: list.splits option.splits)
    ultimately show ?thesis using assms s False by (auto simp: add_text_def split: list.split xml_tok.split)
  next
    case 3
    then show ?thesis using assms s by (subst (asm) scan_xml.simps) (auto simp: add_text_def)
  qed
qed

lemma print_attrs_no_close: "list_all (xml_name \<circ> fst) as \<Longrightarrow> CHR ''>'' \<notin> set (print_attrs as)"
  by (induction as rule: print_attrs.induct) (auto simp: xml_name_def qt_def dest: escape_clean)

lemma scan_print: "list_all good_tok ts \<Longrightarrow> scan_xml (concat (map print_tok ts)) = Some (merge_chars ts)"
proof (induction ts)
  case (Cons t ts)
  let ?r = "concat (map print_tok ts)"
  have r: "scan_xml ?r = Some (merge_chars ts)" using Cons by simp
  have tag: "scan_xml (CHR ''<'' # raw @ CHR ''>'' # ?r) = Some (u # merge_chars ts)"
    if "CHR ''>'' \<notin> set raw" "scan_tag raw = Some u" for raw u using scan_xml_tag [OF that] r by simp
  show ?case
  proof (cases t)
    case (Decl d) then show ?thesis using Cons.prems tag [of d "Decl d"] by (auto simp: scan_tag_def)
  next
    case (Open n as)
    then have "xml_name n" "list_all (xml_name \<circ> fst) as" using Cons.prems by simp_all
    moreover then have "CHR ''>'' \<notin> set (n @ print_attrs as)" using print_attrs_no_close by (auto simp: xml_name_def)
    ultimately show ?thesis using tag [of "n @ print_attrs as" "Open n as"] scan_tag_open [of n as "[]"] Open by simp
  next
    case (Single n as)
    then have "xml_name n" "list_all (xml_name \<circ> fst) as" using Cons.prems by simp_all
    moreover then have "CHR ''>'' \<notin> set (n @ print_attrs as @ '' /'')" using print_attrs_no_close by (auto simp: xml_name_def)
    ultimately show ?thesis using tag [of "n @ print_attrs as @ '' /''" "Single n as"] scan_tag_open [of n as "'' /''"] Single by simp
  next
    case (Close n)
    then show ?thesis using Cons.prems tag [of "''/'' @ n" "Close n"] by (auto simp: scan_tag_def xml_name_def)
  next
    case (Chars v)
    then show ?thesis using scan_xml_text [OF r, of v] by simp
  qed
qed simp


section \<open>The tags of the guide\<close>

definition line_toks :: "string \<Rightarrow> string \<Rightarrow> string \<Rightarrow> xml_tok list" where
  "line_toks indent tag v = [Chars indent, Open tag [], Chars v, Close tag, Chars [nl]]"

definition icon_toks :: "string \<Rightarrow> string \<Rightarrow> xml_tok list" where
  "icon_toks indent src = [Chars indent, Single ''icon'' [(''src'', src)], Chars [nl]]"

definition opt_toks :: "string \<Rightarrow> string \<Rightarrow> xml_tok list" where
  "opt_toks tag v = (if v \<noteq> [] then line_toks ''    '' tag v else [])"

text \<open>An element on lines of its own.\<close>

definition block_toks :: "string \<Rightarrow> string \<Rightarrow> (string \<times> string) list \<Rightarrow> xml_tok list \<Rightarrow> xml_tok list" where
  "block_toks indent tag as ts = [Chars indent, Open tag as, Chars [nl]] @ ts @ [Chars indent, Close tag, Chars [nl]]"

definition channel_toks :: "string \<Rightarrow> string \<Rightarrow> string \<Rightarrow> xml_tok list" where
  "channel_toks i name icon = block_toks ''  '' ''channel'' [(''id'', i)]
     (line_toks ''    '' ''display-name'' name @ (if icon \<noteq> [] then icon_toks ''    '' icon else []))"

definition credit_toks :: "guide_format \<Rightarrow> string \<Rightarrow> xml_tok list" where
  "credit_toks f js = (case gf_credits f js of None \<Rightarrow> []
     | Some (ds, as, ws) \<Rightarrow> if ds = [] \<and> as = [] \<and> ws = [] then []
         else block_toks ''    '' ''credits'' [] (concat (map (line_toks ''      '' ''director'') ds)
           @ concat (map (line_toks ''      '' ''actor'') as) @ concat (map (line_toks ''      '' ''writer'') ws)))"

definition programme_attrs :: "guide_format \<Rightarrow> string \<Rightarrow> ProgramData \<Rightarrow> (string \<times> string) list" where
  "programme_attrs f c p = [(''start'', gf_time f (pd_Start p)), (''stop'', gf_time f (pd_Stop p)), (''channel'', c)]"

definition programme_toks :: "guide_format \<Rightarrow> string \<Rightarrow> ProgramData \<Rightarrow> xml_tok list" where
  "programme_toks f c p = block_toks ''  '' ''programme'' (programme_attrs f c p)
    (line_toks ''    '' ''title'' (pd_Title p) @ opt_toks ''sub-title'' (pd_Subtitle p) @ opt_toks ''desc'' (pd_Description p)
     @ opt_toks ''date'' (pd_Date p) @ (if pd_Credits p \<noteq> [] then credit_toks f (pd_Credits p) else [])
     @ opt_toks ''category'' (pd_Category p)
     @ (if pd_SubCategories p \<noteq> [] then
          (case gf_strings f (pd_SubCategories p) of None \<Rightarrow> [] | Some cs \<Rightarrow> concat (map (line_toks ''    '' ''category'') cs)) else [])
     @ opt_toks ''language'' (pd_Language p)
     @ (if pd_EpisodeNum p \<noteq> [] then [Chars ''    '',
          Open ''episode-num'' [(''system'', if pd_EpisodeNumSystem p = [] then ''onscreen'' else pd_EpisodeNumSystem p)],
          Chars (pd_EpisodeNum p), Close ''episode-num'', Chars [nl]] else [])
     @ (if pd_Icon p \<noteq> [] then icon_toks ''    '' (pd_Icon p) else [])
     @ (if pd_Rating p \<noteq> [] then block_toks ''    '' ''rating'' [] (line_toks ''      '' ''value'' (pd_Rating p)
          @ (if pd_RatingIcon p \<noteq> [] then icon_toks ''      '' (pd_RatingIcon p) else [])) else [])
     @ (if pd_StarRating p \<noteq> [] then block_toks ''    '' ''star-rating'' [] (line_toks ''      '' ''value'' (pd_StarRating p)) else [])
     @ (if pd_IsPreviouslyShown p then [Chars ''    '', Single ''previously-shown'' [], Chars [nl]] else [])
     @ (if pd_IsNew p then [Chars ''    '', Single ''new'' [], Chars [nl]] else []))"

definition guide_toks :: "guide_format \<Rightarrow> output_service \<Rightarrow> EPGData list \<Rightarrow> Channel list \<Rightarrow> xml_tok list" where
  "guide_toks f s es chs = [Decl (''?xml version='' @ [qt] @ ''1.0'' @ [qt] @ '' encoding='' @ [qt] @ ''UTF-8'' @ [qt] @ ''?''), Chars [nl],
      Decl (''!DOCTYPE tv SYSTEM '' @ [qt] @ ''xmltv.dtd'' @ [qt]), Chars [nl], Open ''tv'' [(''generator-info-name'', ''tvproxy'')], Chars [nl]]
     @ concat (map (\<lambda>d. channel_toks (ed_ChannelID d) (ed_Name d) (ed_Icon d)) es)
     @ concat (map (\<lambda>ch. channel_toks (channelEPGID ch) (ch_Name ch) (output_logo s ch)) chs)
     @ concat (map (\<lambda>d. concat (map (programme_toks f (ed_ChannelID d)) (ListPrograms (ed_ID d) (os_epg s)))) es)
     @ [Close ''tv'', Chars [nl]]"

abbreviation print_toks :: "xml_tok list \<Rightarrow> string" where
  "print_toks ts \<equiv> concat (map print_tok ts)"

lemma print_concat: "print_toks (concat (map g xs)) = concat (map (\<lambda>x. print_toks (g x)) xs)"
  by (induction xs) simp_all

lemma escape_plain: "XmlEscape [nl] = [nl]" "XmlEscape ''  '' = ''  ''" "XmlEscape ''    '' = ''    ''" "XmlEscape ''      '' = ''      ''"
    "XmlEscape ''tvproxy'' = ''tvproxy''"
  by (simp_all add: XmlEscape_chars esc_char_def nl_def)

lemma print_line:
  assumes "XmlEscape i = i"
  shows "print_toks (line_toks i tag v) = xml_line i tag v" "print_toks (icon_toks i v) = icon_line i v"
    "print_toks (block_toks i tag as ts) = i @ ''<'' @ tag @ print_attrs as @ ''>'' @ [nl] @ print_toks ts @ i @ ''</'' @ tag @ ''>'' @ [nl]"
  using assms by (simp_all add: line_toks_def icon_toks_def block_toks_def xml_line_def icon_line_def escape_plain)

lemmas print_lines = print_line [OF escape_plain(2)] print_line [OF escape_plain(3)] print_line [OF escape_plain(4)]

lemma print_opt: "print_toks (opt_toks tag v) = opt_line tag v"
  by (simp add: opt_toks_def opt_line_def print_lines)

lemma print_channel: "print_toks (channel_toks i n c) = writeXMLChannel i n c"
  by (simp add: channel_toks_def writeXMLChannel_def print_lines)

lemma print_credits: "print_toks (credit_toks f js) = writeXMLCredits f js"
  by (auto simp: credit_toks_def writeXMLCredits_def print_lines print_concat split: option.split)

lemma print_programme:
  assumes "\<forall>t. XmlEscape (gf_time f t) = gf_time f t"
  shows "print_toks (programme_toks f c p) = writeXMLProgramme f c p"
  by (simp add: programme_toks_def writeXMLProgramme_def print_lines print_opt print_credits print_concat programme_attrs_def assms
      escape_plain split: option.split)

lemma print_guide:
  assumes "\<forall>t. XmlEscape (gf_time f t) = gf_time f t"
  shows "generateEPG f flt s = (let chs = filter (shown flt) (ChannelStore_List (os_channels s))
    in print_toks (guide_toks f s (filter (\<lambda>d. ed_ChannelID d \<in> enabledTvgIDs chs) (ListEPGData (os_epg s))) (noEPGChannels chs)))"
  unfolding generateEPG_def guide_toks_def Let_def map_append concat_append print_concat print_channel print_programme [OF assms]
  by (simp add: xml_head_def escape_plain)

section \<open>Nesting\<close>

fun nested :: "string list \<Rightarrow> xml_tok list \<Rightarrow> bool" where
  "nested st [] = (st = [])"
| "nested st (Open n as # ts) = nested (n # st) ts"
| "nested st (Close n # ts) = (case st of [] \<Rightarrow> False | m # st' \<Rightarrow> m = n \<and> nested st' ts)"
| "nested st (_ # ts) = nested st ts"

text \<open>The attributes of the elements with a name, in their order.\<close>

definition elements :: "string \<Rightarrow> xml_tok list \<Rightarrow> (string \<times> string) list list" where
  "elements n ts = List.map_filter (\<lambda>t. case t of Open m as \<Rightarrow> if m = n then Some as else None | _ \<Rightarrow> None) ts"

lemma elements_simps [simp]:
  "elements n [] = []" "elements n (Chars v # ts) = elements n ts" "elements n (Decl v # ts) = elements n ts"
  "elements n (Single m as # ts) = elements n ts" "elements n (Close m # ts) = elements n ts"
  "elements n (Open m as # ts) = (if m = n then as # elements n ts else elements n ts)"
  "elements n (ts @ us) = elements n ts @ elements n us"
  by (simp_all add: elements_def List.map_filter_def)

lemma elements_concat: "elements n (concat (map g xs)) = concat (map (\<lambda>x. elements n (g x)) xs)"
  by (induction xs) simp_all

lemma add_text_cases: "(\<And>w r. ts = Chars w # r \<Longrightarrow> P (Chars (v @ w) # r)) \<Longrightarrow> P ts \<Longrightarrow> P (Chars v # ts) \<Longrightarrow> P (add_text v ts)"
  by (auto simp: add_text_def split: list.split xml_tok.split)


lemma merge_elements: "elements n (merge_chars ts) = elements n ts"
proof (induction ts rule: merge_chars.induct)
  case (2 v ts)
  show ?case unfolding merge_chars.simps by (rule add_text_cases) (use 2 in auto)
qed auto

text \<open>A piece of a document that closes what it opens, made of writable tags.\<close>

definition piece :: "xml_tok list \<Rightarrow> bool" where
  "piece ts \<longleftrightarrow> list_all good_tok ts \<and> (\<forall>st r. nested st (ts @ r) = nested st r)"

lemma piece_Nil: "piece []"
  by (simp add: piece_def)

lemma piece_append: "piece ts \<Longrightarrow> piece us \<Longrightarrow> piece (ts @ us)"
  by (simp add: piece_def)

lemma piece_concat: "\<forall>x \<in> set xs. piece (g x) \<Longrightarrow> piece (concat (map g xs))"
  by (induction xs) (simp_all add: piece_Nil piece_append)

lemma piece_if: "piece ts \<Longrightarrow> piece (if b then ts else [])"
  by (simp add: piece_Nil)

lemma piece_line: "xml_name tag \<Longrightarrow> piece (line_toks i tag v)"
  by (simp add: piece_def line_toks_def)

lemma piece_opt: "xml_name tag \<Longrightarrow> piece (opt_toks tag v)"
  by (simp add: opt_toks_def piece_Nil piece_line)

lemma piece_icon: "piece (icon_toks i v)"
  by (simp add: piece_def icon_toks_def xml_name_def qt_def)

lemma piece_block: "xml_name tag \<Longrightarrow> list_all (xml_name \<circ> fst) as \<Longrightarrow> piece ts \<Longrightarrow> piece (block_toks i tag as ts)"
  by (simp add: piece_def block_toks_def)

lemma guide_names:
  "xml_name ''display-name''" "xml_name ''channel''" "xml_name ''id''" "xml_name ''director''" "xml_name ''actor''" "xml_name ''writer''"
  "xml_name ''credits''" "xml_name ''start''" "xml_name ''stop''" "xml_name ''programme''" "xml_name ''title''" "xml_name ''sub-title''"
  "xml_name ''desc''" "xml_name ''date''" "xml_name ''category''" "xml_name ''language''" "xml_name ''episode-num''" "xml_name ''system''"
  "xml_name ''rating''" "xml_name ''value''" "xml_name ''star-rating''" "xml_name ''previously-shown''" "xml_name ''new''" "xml_name ''tv''"
  "xml_name ''generator-info-name''"
  by (simp_all add: xml_name_def qt_def)

lemmas piece_intros = piece_Nil piece_append piece_concat piece_if piece_line piece_opt piece_icon piece_block

lemma piece_channel: "piece (channel_toks i n c)"
  unfolding channel_toks_def by (intro piece_intros) (simp_all add: guide_names)

lemma piece_credits: "piece (credit_toks f js)"
  by (auto simp: credit_toks_def guide_names split: option.split intro!: piece_intros)

lemma piece_programme: "piece (programme_toks f c p)"
proof -
  have "piece [Chars ''    '', Open ''episode-num'' [(''system'', v)], Chars w, Close ''episode-num'', Chars [nl]]" for v w
    by (simp add: piece_def guide_names)
  moreover have "piece [Chars ''    '', Single ''previously-shown'' [], Chars [nl]]" "piece [Chars ''    '', Single ''new'' [], Chars [nl]]"
    by (simp_all add: piece_def guide_names)
  moreover have "piece (case gf_strings f x of None \<Rightarrow> [] | Some cs \<Rightarrow> concat (map (line_toks ''    '' ''category'') cs))" for x
    by (auto simp: guide_names split: option.split intro!: piece_intros)
  ultimately show ?thesis unfolding programme_toks_def
    by (intro piece_intros piece_credits) (simp_all add: guide_names programme_attrs_def)
qed

lemma elements_writers:
  "elements n (channel_toks i nm c) = (if n = ''channel'' then [[(''id'', i)]] else if n = ''display-name'' then [[]] else [])"
  "n \<in> {''channel'', ''programme''} \<Longrightarrow> elements n (programme_toks f c p) = (if n = ''programme'' then [programme_attrs f c p] else [])"
proof -
  have l: "elements m (line_toks i tag v) = (if tag = m then [[]] else [])" "elements m (icon_toks i v) = []"
    "elements m (opt_toks tag v) = (if tag = m \<and> v \<noteq> [] then [[]] else [])"
    "elements m (block_toks i tag as ts) = (if tag = m then as # elements m ts else elements m ts)" for m i tag v as ts
    by (simp_all add: line_toks_def icon_toks_def opt_toks_def block_toks_def)
  show "elements n (channel_toks i nm c) = (if n = ''channel'' then [[(''id'', i)]] else if n = ''display-name'' then [[]] else [])"
    by (simp add: channel_toks_def l)
  assume n: "n \<in> {''channel'', ''programme''}"
  then have k: "elements n (credit_toks f x) = []" for x by (auto simp: credit_toks_def l elements_concat split: option.split)
  have g: "elements n (case gf_strings f x of None \<Rightarrow> [] | Some cs \<Rightarrow> concat (map (line_toks ''    '' ''category'') cs)) = []" for x
    using n by (auto simp: l elements_concat split: option.split)
  have e: "elements n (if b then ts else us) = (if b then elements n ts else elements n us)" for b ts us by simp
  show "elements n (programme_toks f c p) = (if n = ''programme'' then [programme_attrs f c p] else [])"
    using n k g by (elim insertE emptyE) (simp_all add: programme_toks_def l e)
qed

lemma guide_document:
  "list_all good_tok (guide_toks f s es chs)" "nested [] (guide_toks f s es chs)"
  "elements ''channel'' (guide_toks f s es chs) = map (\<lambda>c. [(''id'', c)]) (map ed_ChannelID es @ map channelEPGID chs)"
  "elements ''programme'' (guide_toks f s es chs) = concat (map (\<lambda>d. map (programme_attrs f (ed_ChannelID d)) (ListPrograms (ed_ID d) (os_epg s))) es)"
proof -
  let ?b = "concat (map (\<lambda>d. channel_toks (ed_ChannelID d) (ed_Name d) (ed_Icon d)) es)
     @ concat (map (\<lambda>ch. channel_toks (channelEPGID ch) (ch_Name ch) (output_logo s ch)) chs)
     @ concat (map (\<lambda>d. concat (map (programme_toks f (ed_ChannelID d)) (ListPrograms (ed_ID d) (os_epg s)))) es)"
  have b: "piece ?b" by (intro piece_append piece_concat ballI piece_channel piece_programme)
  have n: "nested st (?b @ r) = nested st r" for st r using b by (simp only: piece_def)
  show "list_all good_tok (guide_toks f s es chs)"
    using b unfolding piece_def by (simp add: guide_toks_def guide_names qt_def)
  show "nested [] (guide_toks f s es chs)"
    using n [of "[''tv'']" "[Close ''tv'', Chars [nl]]"] by (simp add: guide_toks_def)
  show "elements ''channel'' (guide_toks f s es chs) = map (\<lambda>c. [(''id'', c)]) (map ed_ChannelID es @ map channelEPGID chs)"
    "elements ''programme'' (guide_toks f s es chs) = concat (map (\<lambda>d. map (programme_attrs f (ed_ChannelID d)) (ListPrograms (ed_ID d) (os_epg s))) es)"
    by (simp_all add: guide_toks_def elements_concat elements_writers comp_def)
qed



text \<open>A shown channel with a guide identifier for which no source has data gets no channel element at
  all, not even the plain one that a channel without an identifier gets.\<close>

theorem unknown_guide_id_left_out:
  fixes s :: output_service and flt :: "ident list option"
  assumes "\<forall>t. XmlEscape (gf_time f t) = gf_time f t" "ch \<in> set (filter (shown flt) (ChannelStore_List (os_channels s)))"
    "ch_TvgID ch \<noteq> []" "\<forall>d \<in> set (ListEPGData (os_epg s)). ed_ChannelID d \<noteq> ch_TvgID ch"
    "\<not> HasPrefix (ch_TvgID ch) ''tvproxy.''"
  shows "\<exists>ts. scan_xml (generateEPG f flt s) = Some ts \<and> [(''id'', channelEPGID ch)] \<notin> set (elements ''channel'' ts)"
proof -
  define chs where "chs = filter (shown flt) (ChannelStore_List (os_channels s))"
  define es where "es = filter (\<lambda>d. ed_ChannelID d \<in> enabledTvgIDs chs) (ListEPGData (os_epg s))"
  have "scan_xml (generateEPG f flt s) = Some (merge_chars (guide_toks f s es (noEPGChannels chs)))"
    using print_guide [OF assms(1)] scan_print [OF guide_document(1)] by (simp add: Let_def chs_def es_def)
  moreover have "channelEPGID c \<noteq> ch_TvgID ch" if "c \<in> set (noEPGChannels chs)" for c
  proof
    assume "channelEPGID c = ch_TvgID ch"
    then have "ch_TvgID ch = ''tvproxy.'' @ ch_ID c" using that by (simp add: noEPGChannels_def channelEPGID_def)
    then have "HasPrefix (ch_TvgID ch) ''tvproxy.''" by (simp add: HasPrefix_def)
    then show False using assms(5) by contradiction
  qed
  then have "ch_TvgID ch \<notin> channelEPGID ` set (noEPGChannels chs)" by (metis imageE)
  then have "[(''id'', channelEPGID ch)] \<notin> set (elements ''channel'' (guide_toks f s es (noEPGChannels chs)))"
    using assms(3,4) unfolding guide_document(3) by (auto simp: es_def channelEPGID_def [of ch])
  ultimately show ?thesis by (simp add: merge_elements)
qed

end
