(* ===== verification/Xtream.thy ===== *)
theory Xtream
  imports Complex_Main M3u "HOL-Library.AList"
begin

text \<open>
  The client of an Xtream server and the cache of its metadata (\<open>pkg/xtream/client.go\<close>, \<open>cache.go\<close>).
  Parameters: what a request answers, the decoding of its JSON, and the rendering of a rating. Request
  headers are left out; a body is the decompressed one. Go's maps are association lists.
\<close>

section \<open>The client\<close>

record XtreamClient =
  xc_baseURL :: string
  xc_username :: string
  xc_password :: string

text \<open>A JSON value of type \<open>any\<close>, as far as the client looks at it.\<close>

datatype json_any = JString string | JNumber rat | JOther

record XtreamStream =
  xs_Name :: string
  xs_StreamID :: int
  xs_StreamIcon :: json_any
  xs_EPGChannelID :: string
  xs_CategoryName :: string

record VODStream =
  xv_Name :: string
  xv_StreamID :: int
  xv_StreamIcon :: json_any
  xv_Rating :: json_any
  xv_IsAdult :: string
  xv_CategoryName :: string
  xv_ContainerExt :: string

record XtreamSeries =
  xr_Name :: string
  xr_SeriesID :: int
  xr_Cover :: string
  xr_Plot :: string
  xr_Cast :: string
  xr_Director :: string
  xr_Genre :: string
  xr_ReleaseDate :: string
  xr_Rating :: string
  xr_BackdropPath :: "string list"
  xr_YouTubeTrailer :: string
  xr_CategoryName :: string

fun icon_string :: "json_any \<Rightarrow> string" where
  "icon_string (JString s) = s"
| "icon_string _ = []"

fun RatingStr :: "(rat \<Rightarrow> string) \<Rightarrow> json_any \<Rightarrow> string" where
  "RatingStr fmt (JString s) = s"
| "RatingStr fmt (JNumber r) = (if r > 0 then fmt r else [])"
| "RatingStr fmt JOther = []"

text \<open>An answer to a request: none, or a status with the body or the error of opening it.\<close>

datatype http_answer = NoAnswer error | Answer int "error + string"

definition xtream_get :: "(string \<Rightarrow> http_answer) \<Rightarrow> (string \<Rightarrow> error + 'a) \<Rightarrow> string \<Rightarrow> error + 'a" where
  "xtream_get http decode url = (case http url of NoAnswer e \<Rightarrow> Inl e
     | Answer status body \<Rightarrow> if status \<noteq> 200 then Inl (''unexpected status: '' @ show_int status)
         else (case body of Inl e \<Rightarrow> Inl e | Inr b \<Rightarrow> decode b))"

definition wrap_error :: "string \<Rightarrow> error + 'a \<Rightarrow> error + 'a" where
  "wrap_error ctx r = (case r of Inl e \<Rightarrow> Inl (ctx @ e) | Inr x \<Rightarrow> Inr x)"

record xtream_json =
  xj_auth :: "string \<Rightarrow> error + unit"
  xj_live :: "string \<Rightarrow> error + XtreamStream list"
  xj_vod :: "string \<Rightarrow> error + VODStream list"
  xj_series :: "string \<Rightarrow> error + XtreamSeries list"

definition api_url :: "XtreamClient \<Rightarrow> string \<Rightarrow> string" where
  "api_url c action = xc_baseURL c @ ''/player_api.php?username='' @ xc_username c @ ''&password='' @ xc_password c @ action"

definition Authenticate_xtream :: "(string \<Rightarrow> http_answer) \<Rightarrow> xtream_json \<Rightarrow> XtreamClient \<Rightarrow> error + unit" where
  "Authenticate_xtream http js c = wrap_error ''authenticating: '' (xtream_get http (xj_auth js) (api_url c []))"

definition GetLiveStreams :: "(string \<Rightarrow> http_answer) \<Rightarrow> xtream_json \<Rightarrow> XtreamClient \<Rightarrow> error + XtreamStream list" where
  "GetLiveStreams http js c = wrap_error ''getting streams: '' (xtream_get http (xj_live js) (api_url c ''&action=get_live_streams''))"

definition GetVODStreams :: "(string \<Rightarrow> http_answer) \<Rightarrow> xtream_json \<Rightarrow> XtreamClient \<Rightarrow> error + VODStream list" where
  "GetVODStreams http js c = wrap_error ''getting vod streams: '' (xtream_get http (xj_vod js) (api_url c ''&action=get_vod_streams''))"

definition GetSeriesList :: "(string \<Rightarrow> http_answer) \<Rightarrow> xtream_json \<Rightarrow> XtreamClient \<Rightarrow> error + XtreamSeries list" where
  "GetSeriesList http js c = wrap_error ''getting series: '' (xtream_get http (xj_series js) (api_url c ''&action=get_series''))"

definition GetVODStreamURL :: "XtreamClient \<Rightarrow> int \<Rightarrow> string \<Rightarrow> string" where
  "GetVODStreamURL c i ext = xc_baseURL c @ ''/movie/'' @ xc_username c @ ''/'' @ xc_password c @ ''/'' @ show_int i @ ''.''
     @ (if ext = [] then ''mp4'' else ext)"

definition GetSeriesStreamURL :: "XtreamClient \<Rightarrow> int \<Rightarrow> string" where
  "GetSeriesStreamURL c i = xc_baseURL c @ ''/series/'' @ xc_username c @ ''/'' @ xc_password c @ ''/'' @ show_int i"

definition GetStreamURL :: "XtreamClient \<Rightarrow> int \<Rightarrow> string" where
  "GetStreamURL c i = xc_baseURL c @ ''/'' @ xc_username c @ ''/'' @ xc_password c @ ''/'' @ show_int i"

section \<open>The cache\<close>

record MovieMeta =
  mm_StreamID :: int
  mm_Name :: string
  mm_Plot :: string
  mm_Cast :: string
  mm_Director :: string
  mm_Genre :: string
  mm_ReleaseDate :: string
  mm_Rating :: string
  mm_PosterURL :: string
  mm_BackdropURL :: string
  mm_Duration :: int
  mm_VideoCodec :: string
  mm_AudioCodec :: string
  mm_Width :: int
  mm_Height :: int
  mm_Container :: string
  mm_IsAdult :: bool
  mm_CategoryName :: string
  mm_Trailer :: string

record SeasonMeta =
  sn_SeasonNumber :: int
  sn_Name :: string
  sn_AirDate :: string
  sn_EpisodeCount :: int
  sn_CoverURL :: string

record SeriesMeta =
  se_SeriesID :: int
  se_Name :: string
  se_Plot :: string
  se_Cast :: string
  se_Director :: string
  se_Genre :: string
  se_ReleaseDate :: string
  se_Rating :: string
  se_PosterURL :: string
  se_BackdropURL :: string
  se_Trailer :: string
  se_CategoryName :: string
  se_Seasons :: "SeasonMeta list"

record EpisodeMeta =
  em_ID :: int
  em_EpisodeNum :: int
  em_Season :: int
  em_Title :: string
  em_Plot :: string
  em_Duration :: int
  em_DurationStr :: string
  em_VideoCodec :: string
  em_AudioCodec :: string
  em_Width :: int
  em_Height :: int
  em_Container :: string
  em_CoverURL :: string

record XtreamCache =
  xk_movies :: "(int \<times> MovieMeta) list"
  xk_series :: "(int \<times> SeriesMeta) list"
  xk_nameIdx :: "(string \<times> SeriesMeta) list option"
  xk_episodes :: "(int \<times> EpisodeMeta) list"

definition GetMovie :: "int \<Rightarrow> XtreamCache \<Rightarrow> MovieMeta option" where
  "GetMovie i c = map_of (xk_movies c) i"

definition SetMovie :: "int \<Rightarrow> MovieMeta \<Rightarrow> XtreamCache \<Rightarrow> XtreamCache" where
  "SetMovie i m c = c\<lparr>xk_movies := AList.update i m (xk_movies c)\<rparr>"

definition GetSeries :: "int \<Rightarrow> XtreamCache \<Rightarrow> SeriesMeta option" where
  "GetSeries i c = map_of (xk_series c) i"

text \<open>The index by name, built when it is first needed: the name and, after a language code and a colon,
  the rest of the name; a later series of the range replaces an earlier one.\<close>

definition cleaned_name :: "string \<Rightarrow> string option" where
  "cleaned_name n = (case str_index n '':'' of None \<Rightarrow> None
     | Some i \<Rightarrow> if 2 \<le> i \<and> i \<le> 6 then Some (TrimSpace (drop (i + 1) n)) else None)"

definition index_series :: "int \<times> SeriesMeta \<Rightarrow> (string \<times> SeriesMeta) list \<Rightarrow> (string \<times> SeriesMeta) list" where
  "index_series = (\<lambda>(i, s) m. let m1 = AList.update (se_Name s) s m
     in case cleaned_name (se_Name s) of None \<Rightarrow> m1 | Some n \<Rightarrow> AList.update n s m1)"

definition FindSeriesByName :: "string \<Rightarrow> XtreamCache \<Rightarrow> SeriesMeta option \<times> XtreamCache" where
  "FindSeriesByName n c = (let idx = (case xk_nameIdx c of None \<Rightarrow> fold index_series (xk_series c) [] | Some m \<Rightarrow> m)
     in (map_of idx n, c\<lparr>xk_nameIdx := Some idx\<rparr>))"

definition SetSeries :: "int \<Rightarrow> SeriesMeta \<Rightarrow> XtreamCache \<Rightarrow> XtreamCache" where
  "SetSeries i s c = c\<lparr>xk_series := AList.update i s (xk_series c), xk_nameIdx := None\<rparr>"

definition GetEpisode :: "int \<Rightarrow> XtreamCache \<Rightarrow> EpisodeMeta option" where
  "GetEpisode i c = map_of (xk_episodes c) i"

definition SetEpisode :: "int \<Rightarrow> EpisodeMeta \<Rightarrow> XtreamCache \<Rightarrow> XtreamCache" where
  "SetEpisode i e c = c\<lparr>xk_episodes := AList.update i e (xk_episodes c)\<rparr>"

definition PosterURLs :: "XtreamCache \<Rightarrow> string list" where
  "PosterURLs c = concat (map (\<lambda>(i, m). (if mm_PosterURL m \<noteq> [] then [mm_PosterURL m] else [])
       @ (if mm_BackdropURL m \<noteq> [] then [mm_BackdropURL m] else [])) (xk_movies c))
     @ concat (map (\<lambda>(i, s). (if se_PosterURL s \<noteq> [] then [se_PosterURL s] else [])
       @ (if se_BackdropURL s \<noteq> [] then [se_BackdropURL s] else [])) (xk_series c))"

definition XtreamCache_Stats :: "XtreamCache \<Rightarrow> nat \<times> nat \<times> nat" where
  "XtreamCache_Stats c = (length (xk_movies c), length (xk_series c), length (xk_episodes c))"

section \<open>Finding a series\<close>

definition has_name :: "string \<Rightarrow> SeriesMeta \<Rightarrow> bool" where
  "has_name n s \<longleftrightarrow> se_Name s = n \<or> cleaned_name (se_Name s) = Some n"

text \<open>The index, when it is there, is the one of the series that are there.\<close>

definition index_current :: "XtreamCache \<Rightarrow> bool" where
  "index_current c \<longleftrightarrow> (case xk_nameIdx c of None \<Rightarrow> True | Some m \<Rightarrow> m = fold index_series (xk_series c) [])"

lemma index_lookup:
  "map_of (fold index_series xs m) n = (case find (\<lambda>(i, s). has_name n s) (rev xs) of Some (i, s) \<Rightarrow> Some s | None \<Rightarrow> map_of m n)"
proof (induction xs rule: rev_induct)
  case (snoc x xs)
  obtain i s where x: "x = (i, s)" by force
  have "map_of (index_series (i, s) m') n = (if has_name n s then Some s else map_of m' n)" for m'
    by (auto simp: index_series_def has_name_def update_conv' Let_def split: option.split)
  then show ?case using snoc by (simp add: x)
qed simp

lemma index_current_ops:
  "index_current c \<Longrightarrow> index_current (SetMovie i m c)" "index_current (SetSeries i s c)"
  "index_current c \<Longrightarrow> index_current (SetEpisode i e c)" "index_current c \<Longrightarrow> index_current (snd (FindSeriesByName n c))"
  by (simp_all add: index_current_def SetMovie_def SetSeries_def SetEpisode_def FindSeriesByName_def Let_def split: option.splits)

datatype cache_op = PutMovie int MovieMeta | PutSeries int SeriesMeta | PutEpisode int EpisodeMeta | Find string

fun cache_exec :: "cache_op \<Rightarrow> XtreamCache \<Rightarrow> XtreamCache" where
  "cache_exec (PutMovie i m) c = SetMovie i m c"
| "cache_exec (PutSeries i s) c = SetSeries i s c"
| "cache_exec (PutEpisode i e) c = SetEpisode i e c"
| "cache_exec (Find n) c = snd (FindSeriesByName n c)"

text \<open>C19: However lookups and changes are mixed, a lookup by name finds a series if and only if one of the
  series held now has the name, with or without its language code: the index built by an earlier
  lookup is never out of date.\<close>

theorem FindSeriesByName_current:
  fixes movies series episodes ops
  defines "c \<equiv> fold cache_exec ops \<lparr>xk_movies = movies, xk_series = series, xk_nameIdx = None, xk_episodes = episodes\<rparr>"
  shows "case fst (FindSeriesByName n c) of Some s \<Rightarrow> has_name n s \<and> s \<in> snd ` set (xk_series c)
    | None \<Rightarrow> (\<forall>s \<in> snd ` set (xk_series c). \<not> has_name n s)"
proof -
  have "index_current d \<Longrightarrow> index_current (fold cache_exec ops d)" for d
  proof (induction ops arbitrary: d)
    case (Cons op ops)
    then have "index_current (cache_exec op d)" by (cases op) (simp_all add: index_current_ops)
    then show ?case using Cons.IH by simp
  qed simp
  then have "index_current c" by (simp add: c_def index_current_def)
  then have f: "fst (FindSeriesByName n c) = map_option snd (find (\<lambda>(i, s). has_name n s) (rev (xk_series c)))"
    by (auto simp: FindSeriesByName_def index_current_def index_lookup Let_def split: option.splits)
  show ?thesis
  proof (cases "find (\<lambda>(i, s). has_name n s) (rev (xk_series c))")
    case None
    then have "\<forall>s \<in> snd ` set (xk_series c). \<not> has_name n s" by (auto simp: find_None_iff)
    then show ?thesis using f None by simp
  next
    case (Some x)
    then show ?thesis using f find_SomeD [OF Some] by (cases x) force
  qed
qed

definition english_series :: SeriesMeta where
  "english_series = \<lparr>se_SeriesID = 1, se_Name = ''EN:Show'', se_Plot = [], se_Cast = [], se_Director = [], se_Genre = [], se_ReleaseDate = [],
     se_Rating = [], se_PosterURL = [], se_BackdropURL = [], se_Trailer = [], se_CategoryName = [], se_Seasons = []\<rparr>"

theorem FindSeriesByName_current_witness:
  "fst (FindSeriesByName ''Show'' (fold cache_exec [Find ''Show'', PutSeries 1 english_series]
     \<lparr>xk_movies = [], xk_series = [], xk_nameIdx = None, xk_episodes = []\<rparr>)) = Some english_series"
proof -
  let ?c = "fold cache_exec [Find ''Show'', PutSeries 1 english_series] \<lparr>xk_movies = [], xk_series = [], xk_nameIdx = None, xk_episodes = []\<rparr>"
  have "str_index ''EN:Show'' '':'' = Some 2" by code_simp
  then have "has_name ''Show'' english_series"
    by (simp add: has_name_def cleaned_name_def english_series_def TrimSpace_plain plain_char_def)
  moreover have "xk_series ?c = [(1, english_series)]" by (simp add: FindSeriesByName_def SetSeries_def Let_def)
  ultimately show ?thesis
    using FindSeriesByName_current [of "[Find ''Show'', PutSeries 1 english_series]" "[]" "[]" "[]" "''Show''"]
    by (auto split: option.splits)
qed

end
