(* ===== verification/SmallStores.thy ===== *)
theory SmallStores
  imports SourceStores "HOL-Library.AList"
begin

text \<open>
  The small stores: source profiles (\<open>pkg/store/source_profile.go\<close>), WireGuard profiles
  (\<open>wireguard.go\<close>), settings (\<open>settings.go\<close>) and the favourites of the users (\<open>favorite.go\<close>). Go's
  maps are association lists in the order of a range; the zero time is 0.
\<close>

section \<open>Source profiles\<close>

record SourceProfile =
  sp_ID :: ident
  sp_Name :: string
  sp_Deinterlace :: bool
  sp_DeinterlaceMethod :: string
  sp_AudioLanguage :: string
  sp_RTSPLatency :: int
  sp_RTSPProtocols :: string
  sp_HTTPTimeoutSec :: int
  sp_HTTPUserAgent :: string
  sp_EncoderBitrateKbps :: int
  sp_CreatedAt :: time
  sp_UpdatedAt :: time

type_synonym source_profiles = "SourceProfile list"

definition source_profile_missing :: error where "source_profile_missing = ''source profile not found''"

text \<open>A profile literal with a timeout and Go's zero values.\<close>

definition timeout_profile :: "int \<Rightarrow> SourceProfile" where
  "timeout_profile t = \<lparr>sp_ID = [], sp_Name = [], sp_Deinterlace = False, sp_DeinterlaceMethod = [], sp_AudioLanguage = [],
     sp_RTSPLatency = 0, sp_RTSPProtocols = [], sp_HTTPTimeoutSec = t, sp_HTTPUserAgent = [], sp_EncoderBitrateKbps = 0,
     sp_CreatedAt = 0, sp_UpdatedAt = 0\<rparr>"

definition migrate_profile :: "SourceProfile \<Rightarrow> SourceProfile" where
  "migrate_profile p0 =
     (let p1 = (if sp_Name p0 = ''SAT>IP'' \<and> sp_RTSPProtocols p0 = [] then p0\<lparr>sp_RTSPProtocols := ''tcp''\<rparr> else p0);
          p2 = (if sp_Name p1 = ''IPTV'' \<and> sp_HTTPTimeoutSec p1 = 0 then p1\<lparr>sp_HTTPTimeoutSec := 30\<rparr> else p1);
          p3 = (if sp_Name p2 = ''HDHomeRun'' \<and> sp_HTTPTimeoutSec p2 = 0 then p2\<lparr>sp_HTTPTimeoutSec := 10\<rparr> else p2)
      in if sp_Name p3 = ''TVProxy-streams'' \<and> sp_HTTPTimeoutSec p3 = 0 then p3\<lparr>sp_HTTPTimeoutSec := 10\<rparr> else p3)"

text \<open>The state carries the number of identifiers drawn so far; the errors of the writes are dropped.\<close>

definition ensureProfile :: "env \<Rightarrow> string \<Rightarrow> SourceProfile \<Rightarrow> source_profiles \<times> nat \<Rightarrow> source_profiles \<times> nat" where
  "ensureProfile e name defaults = (\<lambda>(s, n). if \<exists>p \<in> set s. sp_Name p = name then (s, n)
     else (s @ [defaults\<lparr>sp_ID := e_uuid e n, sp_Name := name\<rparr>], n + 1))"

definition migrateDefaults :: "env \<Rightarrow> source_profiles \<Rightarrow> source_profiles" where
  "migrateDefaults e s = fst (ensureProfile e ''TVProxy-streams'' (timeout_profile 10)
     (ensureProfile e ''VOD'' (timeout_profile 30) (ensureProfile e ''HDHomeRun'' (timeout_profile 10) (map migrate_profile s, 0))))"

fun SourceProfileStore_Load :: "env \<Rightarrow> SourceProfile json_file \<Rightarrow> source_profiles \<Rightarrow> error option \<times> source_profiles" where
  "SourceProfileStore_Load e NotExist s = (None, [])"
| "SourceProfileStore_Load e (Unreadable x) s = (Some (''reading source profile store: '' @ x), s)"
| "SourceProfileStore_Load e (Malformed x ps) s = (Some (''parsing source profile store: '' @ x), s)"
| "SourceProfileStore_Load e (Contents ps) s = (None, migrateDefaults e ps)"

definition SourceProfileStore_List :: "source_profiles \<Rightarrow> source_profiles" where
  "SourceProfileStore_List s = s"

definition SourceProfileStore_GetByID :: "ident \<Rightarrow> source_profiles \<Rightarrow> error + SourceProfile" where
  "SourceProfileStore_GetByID i s = not_found source_profile_missing (find (\<lambda>p. sp_ID p = i) s)"

definition SourceProfileStore_GetByName :: "string \<Rightarrow> source_profiles \<Rightarrow> error + SourceProfile" where
  "SourceProfileStore_GetByName n s = not_found (''source profile '' @ quoted n @ '' not found'') (find (\<lambda>p. sp_Name p = n) s)"

definition SourceProfileStore_Create :: "env \<Rightarrow> SourceProfile \<Rightarrow> source_profiles \<Rightarrow> error option \<times> source_profiles" where
  "SourceProfileStore_Create e p s = (if \<exists>x \<in> set s. sp_Name x = sp_Name p then (Some ''source profile name already exists'', s)
     else (e_save e, s @ [p\<lparr>sp_ID := or_uuid e (sp_ID p)\<rparr>]))"

definition SourceProfileStore_Update :: "env \<Rightarrow> SourceProfile \<Rightarrow> source_profiles \<Rightarrow> error option \<times> source_profiles" where
  "SourceProfileStore_Update e p s = (case update_first (\<lambda>x. sp_ID x = sp_ID p) (\<lambda>x. p) s of
     None \<Rightarrow> (Some source_profile_missing, s) | Some s' \<Rightarrow> (e_save e, s'))"

definition SourceProfileStore_Delete :: "env \<Rightarrow> ident \<Rightarrow> source_profiles \<Rightarrow> error option \<times> source_profiles" where
  "SourceProfileStore_Delete e i s = (case delete_first (\<lambda>p. sp_ID p = i) s of None \<Rightarrow> (None, s) | Some s' \<Rightarrow> (e_save e, s'))"

definition SeedDefaults :: "env \<Rightarrow> source_profiles \<Rightarrow> source_profiles" where
  "SeedDefaults e s = (if s \<noteq> [] then s else
     [(timeout_profile 30)\<lparr>sp_ID := e_uuid e 0, sp_Name := ''IPTV''\<rparr>,
      (timeout_profile 0)\<lparr>sp_ID := e_uuid e 1, sp_Name := ''SAT>IP'', sp_Deinterlace := True, sp_DeinterlaceMethod := ''auto'', sp_RTSPProtocols := ''tcp''\<rparr>,
      (timeout_profile 10)\<lparr>sp_ID := e_uuid e 2, sp_Name := ''HDHomeRun''\<rparr>,
      (timeout_profile 30)\<lparr>sp_ID := e_uuid e 3, sp_Name := ''VOD''\<rparr>,
      (timeout_profile 10)\<lparr>sp_ID := e_uuid e 4, sp_Name := ''TVProxy-streams''\<rparr>])"

interpretation source_profile: updatable_store sp_ID "\<lambda>p. p" source_profile_missing SourceProfileStore_GetByID SourceProfileStore_Delete
  "\<lambda>e p _. p" sp_ID SourceProfileStore_Update
  by unfold_locales (simp_all add: SourceProfileStore_GetByID_def SourceProfileStore_Delete_def SourceProfileStore_Update_def option.map_ident)

section \<open>WireGuard profiles\<close>

record WireGuardProfile =
  wp_ID :: ident
  wp_Name :: string
  wp_PrivateKey :: string
  wp_Address :: string
  wp_DNS :: string
  wp_PeerPublicKey :: string
  wp_PeerEndpoint :: string
  wp_RouteHosts :: string
  wp_HealthcheckURL :: string
  wp_HealthcheckMethod :: string
  wp_HealthcheckInterval :: int
  wp_IsEnabled :: bool
  wp_Priority :: int
  wp_CreatedAt :: time
  wp_UpdatedAt :: time

type_synonym wg_profiles = "WireGuardProfile list"

fun WGStore_Load :: "WireGuardProfile json_file \<Rightarrow> wg_profiles \<Rightarrow> error option \<times> wg_profiles" where
  "WGStore_Load NotExist s = (None, [])"
| "WGStore_Load (Unreadable x) s = (Some x, s)"
| "WGStore_Load (Contents ps) s = (None, ps)"
| "WGStore_Load (Malformed x ps) s = (Some x, ps)"

definition wg_priority_less :: "WireGuardProfile \<Rightarrow> WireGuardProfile \<Rightarrow> bool" where
  "wg_priority_less a b \<longleftrightarrow> wp_Priority a < wp_Priority b"

definition WGStore_List :: "wg_profiles \<Rightarrow> wg_profiles" where
  "WGStore_List s = sort_slice wg_priority_less s"

text \<open>A missing profile is the nil pointer without an error.\<close>

definition WGStore_GetByID :: "ident \<Rightarrow> wg_profiles \<Rightarrow> WireGuardProfile option" where
  "WGStore_GetByID i s = find (\<lambda>p. wp_ID p = i) s"

definition with_healthcheck :: "WireGuardProfile \<Rightarrow> WireGuardProfile" where
  "with_healthcheck p = (let p1 = (if wp_HealthcheckMethod p = [] then p\<lparr>wp_HealthcheckMethod := ''HEAD''\<rparr> else p)
     in if wp_HealthcheckInterval p1 \<le> 0 then p1\<lparr>wp_HealthcheckInterval := 60\<rparr> else p1)"

definition WGStore_Create :: "env \<Rightarrow> WireGuardProfile \<Rightarrow> wg_profiles \<Rightarrow> error option \<times> wg_profiles" where
  "WGStore_Create e p s = (e_save e, s @ [with_healthcheck (p\<lparr>wp_ID := e_uuid e 0, wp_CreatedAt := e_now e, wp_UpdatedAt := e_now e\<rparr>)])"

definition wg_put :: "env \<Rightarrow> WireGuardProfile \<Rightarrow> WireGuardProfile \<Rightarrow> WireGuardProfile" where
  "wg_put e p old = with_healthcheck (p\<lparr>wp_CreatedAt := wp_CreatedAt old, wp_UpdatedAt := e_now e,
     wp_PrivateKey := (if wp_PrivateKey p = [] then wp_PrivateKey old else wp_PrivateKey p)\<rparr>)"

definition WGStore_Update :: "env \<Rightarrow> WireGuardProfile \<Rightarrow> wg_profiles \<Rightarrow> error option \<times> wg_profiles" where
  "WGStore_Update e p s = (case update_first (\<lambda>x. wp_ID x = wp_ID p) (wg_put e p) s of None \<Rightarrow> (None, s) | Some s' \<Rightarrow> (e_save e, s'))"

definition WGStore_Delete :: "env \<Rightarrow> ident \<Rightarrow> wg_profiles \<Rightarrow> error option \<times> wg_profiles" where
  "WGStore_Delete e i s = (case delete_first (\<lambda>p. wp_ID p = i) s of None \<Rightarrow> (None, s) | Some s' \<Rightarrow> (e_save e, s'))"

definition WGStore_ClearAndSave :: "env \<Rightarrow> wg_profiles \<Rightarrow> error option \<times> wg_profiles" where
  "WGStore_ClearAndSave e s = (e_save e, [])"

section \<open>Settings\<close>

type_synonym settings = "(string \<times> string) list"

text \<open>Loading decodes the file into the map that is there, so its keys are added to it.\<close>

fun SettingsStore_Load :: "(string \<times> string) json_file \<Rightarrow> settings \<Rightarrow> error option \<times> settings" where
  "SettingsStore_Load NotExist s = (None, s)"
| "SettingsStore_Load (Unreadable x) s = (Some (''reading settings: '' @ x), s)"
| "SettingsStore_Load (Contents kvs) s = (None, fold (\<lambda>(k, v). AList.update k v) kvs s)"
| "SettingsStore_Load (Malformed x kvs) s = (Some (''parsing settings: '' @ x), fold (\<lambda>(k, v). AList.update k v) kvs s)"

definition SettingsStore_Get :: "string \<Rightarrow> settings \<Rightarrow> error + string" where
  "SettingsStore_Get k s = not_found (''setting '' @ quoted k @ '' not found'') (map_of s k)"

definition SettingsStore_Set :: "env \<Rightarrow> string \<Rightarrow> string \<Rightarrow> settings \<Rightarrow> error option \<times> settings" where
  "SettingsStore_Set e k v s = (e_save e, AList.update k v s)"

definition SettingsStore_List :: "settings \<Rightarrow> settings" where
  "SettingsStore_List s = sort_slice (\<lambda>a b. fst a < fst b) s"

definition SettingsStore_Delete :: "env \<Rightarrow> string \<Rightarrow> settings \<Rightarrow> error option \<times> settings" where
  "SettingsStore_Delete e k s = (e_save e, AList.delete k s)"

definition SettingsStore_ClearAndSave :: "env \<Rightarrow> settings \<Rightarrow> error option \<times> settings" where
  "SettingsStore_ClearAndSave e s = (e_save e, [])"

section \<open>Favourites\<close>

text \<open>The cache of the lists read so far, and for each user what reading and decoding his file gives (\<open>None\<close>
  when it cannot be read).\<close>

record favorites =
  fv_cache :: "(ident \<times> ident list) list"
  fv_files :: "ident \<Rightarrow> ident list option"


definition fav_load :: "ident \<Rightarrow> favorites \<Rightarrow> ident list \<times> favorites" where
  "fav_load u s = (case map_of (fv_cache s) u of Some ids \<Rightarrow> (ids, s)
     | None \<Rightarrow> (let ids = (case fv_files s u of None \<Rightarrow> [] | Some ids \<Rightarrow> ids)
         in (ids, s\<lparr>fv_cache := AList.update u ids (fv_cache s)\<rparr>)))"




definition IsFavorite :: "ident \<Rightarrow> ident \<Rightarrow> favorites \<Rightarrow> bool \<times> favorites" where
  "IsFavorite u c s = (let (ids, s1) = fav_load u s in (c \<in> set ids, s1))"



section \<open>What the source profiles promise\<close>

lemma migrate_profile_name [simp]: "sp_Name (migrate_profile p) = sp_Name p" "sp_ID (migrate_profile p) = sp_ID p"
  by (simp_all add: migrate_profile_def Let_def)

lemma migrate_profile_by_name:
  "sp_Name p = ''SAT>IP'' \<Longrightarrow> migrate_profile p = (if sp_RTSPProtocols p = [] then p\<lparr>sp_RTSPProtocols := ''tcp''\<rparr> else p)"
  "sp_Name p = ''IPTV'' \<Longrightarrow> migrate_profile p = (if sp_HTTPTimeoutSec p = 0 then p\<lparr>sp_HTTPTimeoutSec := 30\<rparr> else p)"
  "sp_Name p = ''HDHomeRun'' \<Longrightarrow> migrate_profile p = (if sp_HTTPTimeoutSec p = 0 then p\<lparr>sp_HTTPTimeoutSec := 10\<rparr> else p)"
  "sp_Name p = ''TVProxy-streams'' \<Longrightarrow> migrate_profile p = (if sp_HTTPTimeoutSec p = 0 then p\<lparr>sp_HTTPTimeoutSec := 10\<rparr> else p)"
  "sp_Name p \<notin> {''SAT>IP'', ''IPTV'', ''HDHomeRun'', ''TVProxy-streams''} \<Longrightarrow> migrate_profile p = p"
  by (simp_all add: migrate_profile_def Let_def)

lemma migrate_profile_idem: "migrate_profile (migrate_profile p) = migrate_profile p"
proof -
  consider "sp_Name p = ''SAT>IP''" | "sp_Name p = ''IPTV''" | "sp_Name p = ''HDHomeRun''" | "sp_Name p = ''TVProxy-streams''"
    | "sp_Name p \<notin> {''SAT>IP'', ''IPTV'', ''HDHomeRun'', ''TVProxy-streams''}" by blast
  then show ?thesis by cases (simp_all add: migrate_profile_by_name)
qed

definition profile_names :: "source_profiles \<Rightarrow> string set" where
  "profile_names s = sp_Name ` set s"

lemma ensure_fst:
  assumes "\<forall>p \<in> set s. migrate_profile p = p" "name \<in> {''HDHomeRun'', ''VOD'', ''TVProxy-streams''}" "t \<noteq> 0"
  shows "(\<exists>xs. fst (ensureProfile e name (timeout_profile t) (s, n)) = s @ xs) \<and> name \<in> profile_names (fst (ensureProfile e name (timeout_profile t) (s, n)))
    \<and> (\<forall>p \<in> set (fst (ensureProfile e name (timeout_profile t) (s, n))). migrate_profile p = p)"
proof (cases "\<exists>p \<in> set s. sp_Name p = name")
  case True
  then show ?thesis using assms(1) by (auto simp: ensureProfile_def profile_names_def)
next
  case False
  let ?d = "(timeout_profile t)\<lparr>sp_ID := e_uuid e n, sp_Name := name\<rparr>"
  have "migrate_profile ?d = ?d" using assms(2,3)
    by (elim insertE emptyE) (simp_all add: migrate_profile_by_name timeout_profile_def)
  then show ?thesis using assms(1) False by (simp add: ensureProfile_def profile_names_def)
qed

lemma migrate_spec:
  "(\<exists>xs. migrateDefaults e ps = map migrate_profile ps @ xs) \<and> {''HDHomeRun'', ''VOD'', ''TVProxy-streams''} \<subseteq> profile_names (migrateDefaults e ps)
    \<and> (\<forall>p \<in> set (migrateDefaults e ps). migrate_profile p = p)"
proof -
  define a where "a = ensureProfile e ''HDHomeRun'' (timeout_profile 10) (map migrate_profile ps, 0)"
  define b where "b = ensureProfile e ''VOD'' (timeout_profile 30) a"
  have fixed: "\<forall>p \<in> set (map migrate_profile ps). migrate_profile p = p" by (simp add: migrate_profile_idem)
  have A: "\<exists>xs. fst a = map migrate_profile ps @ xs" "''HDHomeRun'' \<in> profile_names (fst a)" "\<forall>p \<in> set (fst a). migrate_profile p = p"
    using ensure_fst [OF fixed, of "''HDHomeRun''" 10 e 0] by (simp_all add: a_def)
  have B: "\<exists>xs. fst b = fst a @ xs" "''VOD'' \<in> profile_names (fst b)" "\<forall>p \<in> set (fst b). migrate_profile p = p"
    using ensure_fst [OF A(3), of "''VOD''" 30 e "snd a"] by (simp_all add: b_def)
  have m: "migrateDefaults e ps = fst (ensureProfile e ''TVProxy-streams'' (timeout_profile 10) (fst b, snd b))"
    by (simp add: migrateDefaults_def a_def b_def)
  have C: "\<exists>xs. migrateDefaults e ps = fst b @ xs" "''TVProxy-streams'' \<in> profile_names (migrateDefaults e ps)"
    "\<forall>p \<in> set (migrateDefaults e ps). migrate_profile p = p"
    using ensure_fst [OF B(3), of "''TVProxy-streams''" 10 e "snd b"] unfolding m by simp_all
  obtain xs ys zs where l: "fst a = map migrate_profile ps @ xs" "fst b = fst a @ ys" "migrateDefaults e ps = fst b @ zs"
    using A(1) B(1) C(1) by blast
  then have "profile_names (fst a) \<subseteq> profile_names (migrateDefaults e ps)" "profile_names (fst b) \<subseteq> profile_names (migrateDefaults e ps)"
    by (auto simp: profile_names_def)
  then have "{''HDHomeRun'', ''VOD'', ''TVProxy-streams''} \<subseteq> profile_names (migrateDefaults e ps)" using A(2) B(2) C(2) by blast
  moreover have "\<exists>us. migrateDefaults e ps = map migrate_profile ps @ us" using l by simp
  ultimately show ?thesis using C(3) by blast
qed

lemma ensure_known: "name \<in> profile_names s \<Longrightarrow> ensureProfile e name d (s, n) = (s, n)"
  by (auto simp: ensureProfile_def profile_names_def)

text \<open>Loading a file of source profiles keeps its profiles in their order, filling in missing defaults,
  and adds the built-in profiles that are missing; loading the result again changes nothing.\<close>

theorem source_profile_migration:
  assumes "SourceProfileStore_Load e (Contents ps) s = (r, s1)"
  shows "r = None \<and> (\<exists>xs. s1 = map migrate_profile ps @ xs) \<and> {''HDHomeRun'', ''VOD'', ''TVProxy-streams''} \<subseteq> profile_names s1
    \<and> SourceProfileStore_Load e' (Contents s1) s2 = (None, s1)"
proof -
  have s1: "s1 = migrateDefaults e ps" "r = None" using assms by simp_all
  note m = migrate_spec [of e ps, folded s1(1)]
  have "map migrate_profile s1 = s1" using m by (simp add: map_idI)
  moreover have "''HDHomeRun'' \<in> profile_names s1" "''VOD'' \<in> profile_names s1" "''TVProxy-streams'' \<in> profile_names s1" using m by auto
  ultimately have "migrateDefaults e' s1 = s1" by (simp add: migrateDefaults_def ensure_known)
  then show ?thesis using m s1(2) by simp
qed

theorem source_profile_migration_witness:
  "map sp_Name (snd (SourceProfileStore_Load example_env (Contents [(timeout_profile 0)\<lparr>sp_Name := ''VOD''\<rparr>]) [])) = [''VOD'', ''HDHomeRun'', ''TVProxy-streams'']
    \<and> SourceProfileStore_Load example_env (Contents (snd (SourceProfileStore_Load example_env (Contents [(timeout_profile 0)\<lparr>sp_Name := ''VOD''\<rparr>]) []))) []
      = (None, snd (SourceProfileStore_Load example_env (Contents [(timeout_profile 0)\<lparr>sp_Name := ''VOD''\<rparr>]) []))"
proof -
  let ?l = "SourceProfileStore_Load example_env (Contents [(timeout_profile 0)\<lparr>sp_Name := ''VOD''\<rparr>]) []"
  have "map sp_Name (snd ?l) = [''VOD'', ''HDHomeRun'', ''TVProxy-streams'']" by code_simp
  then show ?thesis using source_profile_migration [of example_env _ "[]" "fst ?l" "snd ?l" example_env "[]"] by simp
qed

section \<open>What the favourites promise\<close>













end
