(* ===== verification/M3uService.thy ===== *)
theory M3uService
  imports Xtream StreamRuns SmallStores ChannelStore
begin

text \<open>
  Playlist accounts (\<open>pkg/service/m3u.go\<close>, \<open>status.go\<close>, \<open>FetchConditional\<close> of
  \<open>pkg/httputil/headers.go\<close>): refreshing the streams of an account from its playlist or Xtream server,
  over the database stream store, the account store and the channel store. What the network answers, the
  outcome of every write, the clock, the stream identifier (a hash of the address) and the reading of a
  decimal number are inputs. Posters are prefetched and the database is synced without effect on the state.
\<close>

section \<open>State\<close>

record RefreshStatus =
  rs_State :: string
  rs_Message :: string
  rs_Total :: nat
  rs_Progress :: nat

definition no_status :: RefreshStatus where
  "no_status = \<lparr>rs_State = [], rs_Message = [], rs_Total = 0, rs_Progress = 0\<rparr>"

text \<open>What is given to the probe cache for a stream whose playlist entry names its codecs.\<close>

record SavedProbe =
  sv_Codec :: string
  sv_Duration :: rat
  sv_Audio :: "string list"

record 'b m3u_service =
  mv_accounts :: accounts
  mv_streams :: "'b BoltStreamStore"
  mv_channels :: channels
  mv_profiles :: source_profiles
  mv_xtream :: "XtreamCache option"
  mv_configDir :: string
  mv_wgClient :: bool
  mv_status :: "ident \<Rightarrow> RefreshStatus"
  mv_probes :: "(ident \<times> SavedProbe) list"

definition status_Set :: "ident \<Rightarrow> RefreshStatus \<Rightarrow> 'b m3u_service \<Rightarrow> 'b m3u_service" where
  "status_Set i st s = s\<lparr>mv_status := (mv_status s)(i := st)\<rparr>"

definition status_Get :: "ident \<Rightarrow> 'b m3u_service \<Rightarrow> RefreshStatus" where
  "status_Get i s = mv_status s i"

definition running :: "string \<Rightarrow> nat \<Rightarrow> nat \<Rightarrow> RefreshStatus" where
  "running msg n k = \<lparr>rs_State = ''running'', rs_Message = msg, rs_Total = n, rs_Progress = k\<rparr>"

section \<open>Inputs of a refresh\<close>

datatype http_route = ViaTLS | ViaWireGuard | Direct

text \<open>The answer to a conditional request: it cannot be made, it fails, or a status, the new entity tag and
  the decompressed body, which can end with an error of the reader.\<close>

datatype fetch_answer = BadRequest error | Failed error | Reply int string "error + (string \<times> error option)"

text \<open>The writes of the JSON files in the order of the calls: the entity tag, the channel mappings, the time
  of the refresh, the number of streams, the last error, and the account of a hard refresh.\<close>

record refresh_in =
  ri_etag_env :: env
  ri_map_env :: env
  ri_done_env :: env
  ri_count_env :: env
  ri_error_env :: env
  ri_hard_env :: env
  ri_hard_tx :: "error option"
  ri_hard_now :: time
  ri_tx :: "nat \<Rightarrow> error option"
  ri_stale_tx :: "error option"
  ri_now :: time
  ri_done :: time
  ri_fetch :: "http_route \<Rightarrow> string \<Rightarrow> string \<Rightarrow> fetch_answer"
  ri_tls :: "ident \<Rightarrow> bool"
  ri_xtream :: "http_route \<Rightarrow> string \<Rightarrow> http_answer"
  ri_json :: xtream_json
  ri_rating :: "rat \<Rightarrow> string"
  ri_stream_id :: "string \<Rightarrow> ident"
  ri_float :: "string \<Rightarrow> rat option"

section \<open>Requests\<close>

definition httpClientForAccount :: "refresh_in \<Rightarrow> M3UAccount \<Rightarrow> 'b m3u_service \<Rightarrow> http_route" where
  "httpClientForAccount e a s = (if ma_TLSEnrolled a \<and> mv_configDir s \<noteq> [] \<and> ri_tls e (ma_ID a) then ViaTLS
     else if ma_UseWireGuard a \<and> mv_wgClient s then ViaWireGuard else Direct)"

definition transportForAccount :: "refresh_in \<Rightarrow> M3UAccount \<Rightarrow> 'b m3u_service \<Rightarrow> http_route" where
  "transportForAccount e a s = (if ma_UseWireGuard a \<and> mv_wgClient s then ViaWireGuard else httpClientForAccount e a s)"

text \<open>\<open>Inr None\<close> is an unchanged resource.\<close>

definition FetchConditional :: "(string \<Rightarrow> string \<Rightarrow> fetch_answer) \<Rightarrow> string \<Rightarrow> string
    \<Rightarrow> error + ((string \<times> error option) \<times> string) option" where
  "FetchConditional http url etag = (case http url etag of
       BadRequest e \<Rightarrow> Inl (''creating request: '' @ e)
     | Failed e \<Rightarrow> Inl e
     | Reply status newETag body \<Rightarrow> if status = 304 then Inr None
         else if status \<noteq> 200 then Inl (''unexpected status code: '' @ show_int status)
         else (case body of Inl e \<Rightarrow> Inl e | Inr b \<Rightarrow> Inr (Some (b, newETag))))"

section \<open>Streams of a playlist\<close>

definition EqualFold :: "string \<Rightarrow> string \<Rightarrow> bool" where
  "EqualFold a b \<longleftrightarrow> ToLower a = ToLower b"

definition cacheTypeForAccount :: "M3UAccount \<Rightarrow> source_profiles \<Rightarrow> string" where
  "cacheTypeForAccount a ps = (if ma_Type a = ''xtream'' then ''xtream''
     else if ma_SourceProfileID a \<noteq> [] then
       (case SourceProfileStore_GetByID (ma_SourceProfileID a) ps of Inl e \<Rightarrow> []
        | Inr p \<Rightarrow> if EqualFold (sp_Name p) ''TVProxy-streams'' then ''local'' else [])
     else [])"

definition computeContentHash :: "string \<Rightarrow> string" where
  "computeContentHash url = url"

definition zero_stream :: Stream where
  "zero_stream = \<lparr>st_ID = [], st_M3UAccountID = [], st_SatIPSourceID = [], st_HDHRSourceID = [], st_Name = [], st_URL = [],
     st_Group = [], st_Logo = [], st_TvgID = [], st_TvgName = [], st_ContentHash = [], st_VODType = [], st_VODSeries = [],
     st_VODCollection = [], st_VODSeason = 0, st_VODSeasonName = [], st_VODEpisode = 0, st_VODYear = 0, st_VODVCodec = [],
     st_VODACodec = [], st_VODRes = [], st_VODAudio = [], st_VODDuration = 0, st_TMDBID = 0, st_TMDBManual = False,
     st_CacheType = [], st_CacheKey = 0, st_Language = [], st_UseWireGuard = False, st_IsActive = False, st_Tracks = [],
     st_CreatedAt = 0, st_UpdatedAt = 0\<rparr>"

text \<open>A number scanned into a field that is 0 before.\<close>

definition scanned :: "(string \<Rightarrow> 'n option) \<Rightarrow> 'n \<Rightarrow> string \<Rightarrow> 'n" where
  "scanned f z x = (if x \<noteq> [] then (case f x of None \<Rightarrow> z | Some n \<Rightarrow> n) else z)"

definition entry_stream :: "refresh_in \<Rightarrow> M3UAccount \<Rightarrow> string \<Rightarrow> Entry \<Rightarrow> Stream" where
  "entry_stream e a cacheType en =
     (let hash = computeContentHash (en_URL en);
          cache = (if cacheType = [] \<and> en_TVPType en \<noteq> [] then ''local'' else cacheType);
          st = zero_stream\<lparr>st_ID := ri_stream_id e hash, st_M3UAccountID := ma_ID a, st_Name := en_Name en, st_URL := en_URL en,
            st_Group := en_Group en, st_Logo := en_Logo en, st_TvgID := en_TvgID en, st_TvgName := en_TvgName en, st_ContentHash := hash,
            st_CacheType := cache, st_UseWireGuard := ma_UseWireGuard a, st_IsActive := True, st_VODType := en_TVPType en,
            st_VODSeries := en_TVPSeries en, st_VODCollection := en_TVPCollection en, st_VODVCodec := en_TVPVCodec en,
            st_VODACodec := en_TVPACodec en, st_VODRes := en_TVPRes en, st_VODAudio := en_TVPAudio en,
            st_VODSeason := scanned scan_d 0 (en_TVPSeason en), st_VODEpisode := scanned scan_d 0 (en_TVPEpisode en),
            st_VODDuration := scanned (ri_float e) 0 (en_TVPDur en), st_VODSeasonName := en_TVPSeasonName en,
            st_VODYear := extractYearFromName (en_Name en)\<rparr>
      in if cache \<noteq> ''local'' \<and> en_Group en \<noteq> [] then st\<lparr>st_Language := extractLangFromCategory (en_Group en)\<rparr> else st)"

definition entry_probe :: "refresh_in \<Rightarrow> Entry \<Rightarrow> (ident \<times> SavedProbe) option" where
  "entry_probe e en = (if en_TVPVCodec en \<noteq> [] then Some (ri_stream_id e (en_URL en), \<lparr>sv_Codec = ToLower (en_TVPVCodec en),
       sv_Duration = scanned (ri_float e) 0 (en_TVPDur en),
       sv_Audio = (if en_TVPACodec en \<noteq> [] then [ToLower (en_TVPACodec en)] else [])\<rparr>) else None)"

text \<open>The loops over what was fetched skip an item whose hash was seen.\<close>

fun first_by_hash :: "('a \<Rightarrow> string) \<Rightarrow> string list \<Rightarrow> 'a list \<Rightarrow> 'a list" where
  "first_by_hash h seen [] = []"
| "first_by_hash h seen (x # xs) = (if h x \<in> set seen then first_by_hash h seen xs else x # first_by_hash h (h x # seen) xs)"

definition upsertAndFinalize :: "refresh_in \<Rightarrow> M3UAccount \<Rightarrow> Stream list \<Rightarrow> ident list \<Rightarrow> 'b m3u_service \<Rightarrow> error option \<times> 'b m3u_service" where
  "upsertAndFinalize e a sts keep s =
     (let s0 = status_Set (ma_ID a) (running ''Saving streams...'' (length sts) (length sts)) s
      in case Bolt_BulkUpsert (ri_tx e) (ri_now e) sts (mv_streams s0) of
           (Some x, b) \<Rightarrow> (Some (''upserting streams: '' @ x), s0\<lparr>mv_streams := b\<rparr>)
         | (None, b) \<Rightarrow> (let (gone, b2) = Bolt_DeleteStaleByAccountID (ri_stale_tx e) (ma_ID a) keep b;
               s1 = s0\<lparr>mv_streams := b2\<rparr>;
               s2 = (if gone \<noteq> [] then s1\<lparr>mv_channels := snd (ChannelStore_RemoveStreamMappings (ri_map_env e) gone (mv_channels s1))\<rparr> else s1)
             in case M3UStore_UpdateLastRefreshed (ri_done_env e) (ma_ID a) (ri_done e) (mv_accounts s2) of
                  (Some x, as) \<Rightarrow> (Some (''updating last refreshed: '' @ x), s2\<lparr>mv_accounts := as\<rparr>)
                | (None, as) \<Rightarrow> (case M3UStore_UpdateStreamCount (ri_count_env e) (ma_ID a) (int (length sts)) as of
                      (Some x, as') \<Rightarrow> (Some (''updating stream count: '' @ x), s2\<lparr>mv_accounts := as'\<rparr>)
                    | (None, as') \<Rightarrow> (None, s2\<lparr>mv_accounts := as'\<rparr>))))"

definition refreshM3UAccount :: "refresh_in \<Rightarrow> M3UAccount \<Rightarrow> 'b m3u_service \<Rightarrow> error option \<times> 'b m3u_service" where
  "refreshM3UAccount e a s =
     (let s0 = status_Set (ma_ID a) (running ''Downloading playlist...'' 0 0) s
      in case FetchConditional (ri_fetch e (httpClientForAccount e a s0)) (ma_URL a) (ma_ETag a) of
           Inl x \<Rightarrow> (Some (''fetching m3u url: '' @ x), s0)
         | Inr None \<Rightarrow> (None, s0)
         | Inr (Some ((body, rerr), etag)) \<Rightarrow>
             (let s1 = (if etag \<noteq> ma_ETag a then s0\<lparr>mv_accounts := snd (M3UStore_UpdateETag (ri_etag_env e) (ma_ID a) etag (mv_accounts s0))\<rparr> else s0);
                  s2 = status_Set (ma_ID a) (running ''Parsing entries...'' 0 0) s1
              in case Parse body rerr of
                   (es, Some x) \<Rightarrow> (Some (''parsing m3u: '' @ x), s2)
                 | (es, None) \<Rightarrow>
                     (let s3 = status_Set (ma_ID a) (running ''Processing streams...'' (length es) 0) s2;
                          fresh = first_by_hash (\<lambda>en. computeContentHash (en_URL en)) [] es;
                          sts = map (entry_stream e a (cacheTypeForAccount a (mv_profiles s3))) fresh;
                          s4 = s3\<lparr>mv_probes := mv_probes s3 @ List.map_filter (entry_probe e) fresh\<rparr>
                      in upsertAndFinalize e a sts (map st_ID sts) s4)))"

section \<open>Streams of an Xtream server\<close>

datatype xtream_item = LiveItem XtreamStream | MovieItem VODStream | SeriesItem XtreamSeries

fun item_url :: "XtreamClient \<Rightarrow> xtream_item \<Rightarrow> string" where
  "item_url c (LiveItem x) = GetStreamURL c (xs_StreamID x)"
| "item_url c (MovieItem v) = GetVODStreamURL c (xv_StreamID v) (xv_ContainerExt v)"
| "item_url c (SeriesItem r) = ''xtream-series-'' @ show_int (xr_SeriesID r)"

fun item_stream :: "refresh_in \<Rightarrow> M3UAccount \<Rightarrow> XtreamClient \<Rightarrow> xtream_item \<Rightarrow> Stream" where
  "item_stream e a c (LiveItem x) = (let url = item_url c (LiveItem x); hash = computeContentHash url in
     zero_stream\<lparr>st_ID := ri_stream_id e hash, st_M3UAccountID := ma_ID a, st_Name := xs_Name x, st_URL := url,
       st_Group := xs_CategoryName x, st_Logo := icon_string (xs_StreamIcon x), st_TvgID := xs_EPGChannelID x, st_ContentHash := hash,
       st_UseWireGuard := ma_UseWireGuard a, st_IsActive := True\<rparr>)"
| "item_stream e a c (MovieItem v) = (let url = item_url c (MovieItem v); hash = computeContentHash url;
       (name, lang) = (case extractLanguage (xv_Name v) of (n, l) \<Rightarrow> if l = [] then (xv_Name v, extractLangFromCategory (xv_CategoryName v)) else (n, l)) in
     zero_stream\<lparr>st_ID := ri_stream_id e hash, st_M3UAccountID := ma_ID a, st_Name := name, st_URL := url,
       st_Group := xv_CategoryName v, st_Logo := icon_string (xv_StreamIcon v), st_ContentHash := hash, st_VODType := ''movie'',
       st_CacheType := ''xtream'', st_CacheKey := xv_StreamID v, st_Language := lang,
       st_UseWireGuard := ma_UseWireGuard a, st_IsActive := True\<rparr>)"
| "item_stream e a c (SeriesItem r) = (let hash = computeContentHash (item_url c (SeriesItem r));
       (name, l) = extractLanguage (xr_Name r); lang = (if l = [] then extractLangFromCategory (xr_CategoryName r) else l) in
     zero_stream\<lparr>st_ID := ri_stream_id e hash, st_M3UAccountID := ma_ID a, st_Name := name,
       st_URL := ma_URL a @ ''/series/'' @ ma_Username a @ ''/'' @ ma_Password a,
       st_Group := xr_CategoryName r, st_Logo := xr_Cover r, st_ContentHash := hash, st_VODType := ''series'', st_VODSeries := name,
       st_CacheType := ''xtream'', st_CacheKey := xr_SeriesID r, st_Language := lang,
       st_UseWireGuard := ma_UseWireGuard a, st_IsActive := True\<rparr>)"

definition movie_meta :: "refresh_in \<Rightarrow> VODStream \<Rightarrow> MovieMeta" where
  "movie_meta e v = \<lparr>mm_StreamID = xv_StreamID v, mm_Name = xv_Name v, mm_Plot = [], mm_Cast = [], mm_Director = [], mm_Genre = [],
     mm_ReleaseDate = [], mm_Rating = RatingStr (ri_rating e) (xv_Rating v), mm_PosterURL = icon_string (xv_StreamIcon v), mm_BackdropURL = [],
     mm_Duration = 0, mm_VideoCodec = [], mm_AudioCodec = [], mm_Width = 0, mm_Height = 0, mm_Container = xv_ContainerExt v,
     mm_IsAdult = (xv_IsAdult v = ''1''), mm_CategoryName = xv_CategoryName v, mm_Trailer = []\<rparr>"

definition series_meta :: "XtreamSeries \<Rightarrow> SeriesMeta" where
  "series_meta r = \<lparr>se_SeriesID = xr_SeriesID r, se_Name = xr_Name r, se_Plot = xr_Plot r, se_Cast = xr_Cast r, se_Director = xr_Director r,
     se_Genre = xr_Genre r, se_ReleaseDate = xr_ReleaseDate r, se_Rating = xr_Rating r, se_PosterURL = xr_Cover r,
     se_BackdropURL = (if xr_BackdropPath r \<noteq> [] then hd (xr_BackdropPath r) else []), se_Trailer = xr_YouTubeTrailer r,
     se_CategoryName = xr_CategoryName r, se_Seasons = []\<rparr>"

fun cache_item :: "refresh_in \<Rightarrow> xtream_item \<Rightarrow> XtreamCache \<Rightarrow> XtreamCache" where
  "cache_item e (LiveItem x) c = c"
| "cache_item e (MovieItem v) c = SetMovie (xv_StreamID v) (movie_meta e v) c"
| "cache_item e (SeriesItem r) c = SetSeries (xr_SeriesID r) (series_meta r) c"

definition or_empty :: "error + 'a list \<Rightarrow> 'a list" where
  "or_empty r = (case r of Inl e \<Rightarrow> [] | Inr xs \<Rightarrow> xs)"

text \<open>Failing to list the movies or the series is logged and counts as an empty list; failing to list the live
  streams ends the refresh.\<close>

definition refreshXtreamAccount :: "refresh_in \<Rightarrow> M3UAccount \<Rightarrow> 'b m3u_service \<Rightarrow> error option \<times> 'b m3u_service" where
  "refreshXtreamAccount e a s =
     (let c = \<lparr>xc_baseURL = ma_URL a, xc_username = ma_Username a, xc_password = ma_Password a\<rparr>;
          http = ri_xtream e (transportForAccount e a s); js = ri_json e
      in case Authenticate_xtream http js c of Inl x \<Rightarrow> (Some (''xtream authentication failed: '' @ x), s)
         | Inr _ \<Rightarrow> (case GetLiveStreams http js c of Inl x \<Rightarrow> (Some (''getting xtream live streams: '' @ x), s)
           | Inr live \<Rightarrow>
               (let items = map LiveItem live @ map MovieItem (or_empty (GetVODStreams http js c)) @ map SeriesItem (or_empty (GetSeriesList http js c));
                    fresh = first_by_hash (\<lambda>i. computeContentHash (item_url c i)) [] items;
                    sts = map (item_stream e a c) fresh;
                    s1 = s\<lparr>mv_xtream := map_option (fold (cache_item e) fresh) (mv_xtream s)\<rparr>
                in upsertAndFinalize e a sts (map st_ID sts) s1)))"

section \<open>Operations\<close>

definition refreshAccount :: "refresh_in \<Rightarrow> M3UAccount \<Rightarrow> 'b m3u_service \<Rightarrow> error option \<times> 'b m3u_service" where
  "refreshAccount e a s = (if ma_Type a = ''xtream'' then refreshXtreamAccount e a s else refreshM3UAccount e a s)"

definition set_last_error :: "refresh_in \<Rightarrow> ident \<Rightarrow> string \<Rightarrow> 'b m3u_service \<Rightarrow> 'b m3u_service" where
  "set_last_error e i x s = s\<lparr>mv_accounts := snd (M3UStore_UpdateLastError (ri_error_env e) i x (mv_accounts s))\<rparr>"

definition RefreshAccount :: "refresh_in \<Rightarrow> ident \<Rightarrow> 'b m3u_service \<Rightarrow> error option \<times> 'b m3u_service" where
  "RefreshAccount e i s = (case M3UStore_GetByID i (mv_accounts s) of Inl x \<Rightarrow> (Some (''getting account: '' @ x), s)
     | Inr a \<Rightarrow> (case refreshAccount e a (status_Set i (running ''Refreshing...'' 0 0) s) of
           (Some x, s1) \<Rightarrow> (Some x, status_Set i \<lparr>rs_State = ''error'', rs_Message = x, rs_Total = 0, rs_Progress = 0\<rparr> (set_last_error e (ma_ID a) x s1))
         | (None, s1) \<Rightarrow> (None, status_Set i \<lparr>rs_State = ''done'', rs_Message = ''Refresh complete'', rs_Total = 0, rs_Progress = 0\<rparr>
               (set_last_error e (ma_ID a) [] s1))))"

definition HardRefreshAccount :: "refresh_in \<Rightarrow> ident \<Rightarrow> 'b m3u_service \<Rightarrow> error option \<times> 'b m3u_service" where
  "HardRefreshAccount e i s = (let s0 = s\<lparr>mv_streams := snd (Bolt_ClearAutoTMDBByAccountID (ri_hard_tx e) (ri_hard_now e) i (mv_streams s))\<rparr>
     in case M3UStore_GetByID i (mv_accounts s0) of Inl x \<Rightarrow> (Some (''getting account: '' @ x), s0)
        | Inr a \<Rightarrow> RefreshAccount e i (s0\<lparr>mv_accounts := snd (M3UStore_Update (ri_hard_env e) (a\<lparr>ma_ETag := []\<rparr>) (mv_accounts s0))\<rparr>))"

text \<open>The \<open>n\<close>-th account of the list is refreshed with the \<open>n\<close>-th input.\<close>

fun refresh_all :: "(nat \<Rightarrow> refresh_in) \<Rightarrow> nat \<Rightarrow> M3UAccount list \<Rightarrow> error option \<Rightarrow> 'b m3u_service \<Rightarrow> error option \<times> 'b m3u_service" where
  "refresh_all e n [] lastErr s = (map_option (\<lambda>x. ''one or more accounts failed to refresh: '' @ x) lastErr, s)"
| "refresh_all e n (a # as) lastErr s = (if \<not> ma_IsEnabled a then refresh_all e (n + 1) as lastErr s
     else (case RefreshAccount (e n) (ma_ID a) s of (Some x, s1) \<Rightarrow> refresh_all e (n + 1) as (Some x) s1
       | (None, s1) \<Rightarrow> refresh_all e (n + 1) as lastErr s1))"

definition RefreshAllAccounts :: "(nat \<Rightarrow> refresh_in) \<Rightarrow> 'b m3u_service \<Rightarrow> error option \<times> 'b m3u_service" where
  "RefreshAllAccounts e s = refresh_all e 0 (M3UStore_List (mv_accounts s)) None s"

definition CreateAccount :: "env \<Rightarrow> M3UAccount \<Rightarrow> 'b m3u_service \<Rightarrow> error option \<times> 'b m3u_service" where
  "CreateAccount e a s = (case M3UStore_Create e a (mv_accounts s) of (r, as) \<Rightarrow> (map_option (\<lambda>x. ''creating m3u account: '' @ x) r, s\<lparr>mv_accounts := as\<rparr>))"

definition GetAccount :: "ident \<Rightarrow> 'b m3u_service \<Rightarrow> error + M3UAccount" where
  "GetAccount i s = wrap_error ''getting m3u account: '' (M3UStore_GetByID i (mv_accounts s))"

definition UpdateAccount :: "env \<Rightarrow> error option \<Rightarrow> time \<Rightarrow> M3UAccount \<Rightarrow> 'b m3u_service \<Rightarrow> error option \<times> 'b m3u_service" where
  "UpdateAccount e tx now a s = (case M3UStore_Update e a (mv_accounts s) of
       (Some x, as) \<Rightarrow> (Some (''updating m3u account: '' @ x), s\<lparr>mv_accounts := as\<rparr>)
     | (None, as) \<Rightarrow> (None, s\<lparr>mv_accounts := as,
         mv_streams := snd (Bolt_UpdateWireGuardByAccountID tx now (ma_ID a) (ma_UseWireGuard a) (mv_streams s))\<rparr>))"

definition DeleteAccount :: "env \<Rightarrow> error option \<Rightarrow> ident \<Rightarrow> 'b m3u_service \<Rightarrow> error option \<times> 'b m3u_service" where
  "DeleteAccount e tx i s = (let s1 = s\<lparr>mv_streams := Bolt_DeleteByAccountID tx i (mv_streams s)\<rparr>
     in case M3UStore_Delete e i (mv_accounts s1) of (r, as) \<Rightarrow> (map_option (\<lambda>x. ''deleting m3u account: '' @ x) r, s1\<lparr>mv_accounts := as\<rparr>))"

definition CleanupOrphanedStreams :: "env \<Rightarrow> error option \<Rightarrow> 'b m3u_service \<Rightarrow> 'b m3u_service" where
  "CleanupOrphanedStreams e tx s = (let (gone, b) = Bolt_DeleteOrphanedM3UStreams tx (map ma_ID (M3UStore_List (mv_accounts s))) (mv_streams s);
       s1 = s\<lparr>mv_streams := b\<rparr>
     in if gone = [] then s1 else s1\<lparr>mv_channels := snd (ChannelStore_RemoveStreamMappings e gone (mv_channels s1))\<rparr>)"

end
