(* ===== verification/M3uRefresh.thy ===== *)
theory M3uRefresh
  imports M3uService
begin

text \<open>
  What refreshing playlist accounts promises: the stream store keeps its invariant and channels never
  point to streams that are gone, whatever fails; a refresh that succeeds leaves exactly the streams of
  the playlist; and what happens when a download breaks off.
\<close>

section \<open>The parts of a refresh on the abstract map\<close>

text \<open>The stale streams of a source, and what is left when their transaction fails or commits.\<close>

definition stale_of :: "source_kind \<Rightarrow> ident \<Rightarrow> ident list \<Rightarrow> Stream \<Rightarrow> bool" where
  "stale_of k a keep st \<longleftrightarrow> source_of k st = a \<and> st_ID st \<notin> set keep"

lemma stale_of_any:
  assumes "bolt_rep s m" "plain_id a"
  shows "set (fst (deleteStaleByIndex tx (bs_source k s) (a @ ''/'') keep s)) = {i. \<exists>st. m i = Some st \<and> stale_of k a keep st}
    \<and> bolt_rep (snd (deleteStaleByIndex tx (bs_source k s) (a @ ''/'') keep s)) (if tx = None then drop_streams (stale_of k a keep) m else m)"
proof -
  let ?r = "deleteStaleByIndex tx (bs_source k s) (a @ ''/'') keep s" and ?q = "deleteStaleByIndex None (bs_source k s) (a @ ''/'') keep s"
  have q: "bolt_delete_stale k a keep s = ?q" by (rule bolt_delete_stale_eq)
  have i: "bolt_invar s" "decode s = m" using rep_invar [OF assms(1)] by simp_all
  have st: "st_ID st = j" if "m j = Some st" for j st using rep_keyed [OF assms(1) that] .
  have "set (fst ?q) = {i. \<exists>st. m i = Some st \<and> source_of k st = a \<and> i \<notin> set keep}"
    using bolt.stale_ids [OF i(1) assms(2), of k keep] by (simp add: i(2) q)
  then have f: "set (fst ?q) = {i. \<exists>st. m i = Some st \<and> stale_of k a keep st}" using st by (auto simp: stale_of_def)
  have "decode (snd ?q) = drop_streams (stale_of k a keep) m" "bolt_invar (snd ?q)"
    using bolt.stale_abs [OF i(1) assms(2), of k keep] bolt.stale_invar [OF i(1), of k a keep] by (simp_all add: i(2) q stale_of_def [abs_def])
  then have r0: "bolt_rep (snd ?q) (drop_streams (stale_of k a keep) m)" by (simp add: bolt_invar_def)
  have e: "fst ?r = fst ?q" "snd ?r = (case tx of None \<Rightarrow> snd ?q | Some x \<Rightarrow> s\<lparr>bs_rev := bs_rev (snd ?q)\<rparr>)"
    unfolding deleteStaleByIndex_def by (rule counted_any)+
  show ?thesis using f r0 assms(1) by (simp add: e rev_rep split: option.split)
qed

definition stale :: "ident \<Rightarrow> ident list \<Rightarrow> Stream \<Rightarrow> bool" where
  "stale a keep st \<longleftrightarrow> st_M3UAccountID st = a \<and> st_ID st \<notin> set keep"

lemma stale_any:
  assumes "bolt_rep s m" "plain_id a"
  shows "set (fst (Bolt_DeleteStaleByAccountID tx a keep s)) = {i. \<exists>st. m i = Some st \<and> stale a keep st}
    \<and> bolt_rep (snd (Bolt_DeleteStaleByAccountID tx a keep s)) (if tx = None then drop_streams (stale a keep) m else m)"
proof -
  have e: "stale a keep = stale_of M3U a keep" by (rule ext) (simp add: stale_of_def stale_def)
  show ?thesis unfolding e Bolt_DeleteStaleByAccountID_def using stale_of_any [OF assms, of tx M3U keep] by (simp only: bs_source.simps)
qed

lemma upsert_fold_dom: "dom (fold (upsert1 now) sts m) = dom m \<union> st_ID ` set sts"
  by (induction sts arbitrary: m) (auto simp: upsert1_def)

text \<open>The account a stream belongs to.\<close>

definition owner :: "stream_map \<Rightarrow> ident \<Rightarrow> ident option" where
  "owner m i = map_option st_M3UAccountID (m i)"

lemma owner_dom: "dom (owner m) = dom m"
  by (auto simp: owner_def dom_def)

lemma owner_upsert1: "owner (upsert1 now st m) i = (if st_ID st = i then Some (st_M3UAccountID st) else owner m i)"
  using merged_fields(2) [of M3U now "m (st_ID st)" st, unfolded source_of.simps] by (auto simp: owner_def upsert1_def)

text \<open>Streams of one account that are saved are its own, and the others keep their account.\<close>

lemma owner_after:
  "\<forall>st \<in> set sts. st_M3UAccountID st = a \<Longrightarrow> owner (fold (upsert1 now) sts m) i = (if i \<in> st_ID ` set sts then Some a else owner m i)"
  by (induction sts arbitrary: m) (auto simp: owner_upsert1)

lemma owner_drop_stale:
  assumes "keyed m"
  shows "owner (drop_streams (stale a keep) m) i = (if owner m i = Some a \<and> i \<notin> set keep then None else owner m i)"
  using assms by (auto simp: owner_def drop_streams_def stale_def keyed_def split: option.split)

section \<open>The state of the service\<close>

text \<open>The streams the channels are mapped to.\<close>

definition mapped :: "channels \<Rightarrow> ident set" where
  "mapped cs = (\<Union>c \<in> set cs. cs_StreamID ` set (ce_StreamIDs c))"

lemma mapped_removed: "mapped (snd (ChannelStore_RemoveStreamMappings e gone cs)) = mapped cs - set gone"
  by (auto simp: RemoveStreamMappings_spec mapped_def strip_mappings_def keeps_stream_def)

definition service_ok :: "'b m3u_service \<Rightarrow> bool" where
  "service_ok s \<longleftrightarrow> bolt_invar (mv_streams s) \<and> mapped (mv_channels s) \<subseteq> dom (decode (mv_streams s))"

definition owners :: "'b m3u_service \<Rightarrow> ident \<Rightarrow> ident option" where
  "owners s = owner (decode (mv_streams s))"

text \<open>What a refresh of account \<open>a\<close> may do to the streams: the ones of other accounts stay, and what is
  new or kept is reported by \<open>owners\<close>.\<close>

definition kept_others :: "ident \<Rightarrow> 'b m3u_service \<Rightarrow> 'b m3u_service \<Rightarrow> bool" where
  "kept_others a s s' \<longleftrightarrow> (\<forall>i b. owners s i = Some b \<and> b \<noteq> a \<longrightarrow> owners s' i = Some b \<or> owners s' i = Some a)"

lemma kept_others_refl: "mv_streams s' = mv_streams s \<Longrightarrow> kept_others a s s'"
  by (simp add: kept_others_def owners_def)

lemma service_ok_same: "mv_streams s' = mv_streams s \<Longrightarrow> mv_channels s' = mv_channels s \<Longrightarrow> service_ok s' = service_ok s"
  by (simp add: service_ok_def)

section \<open>Saving the fetched streams\<close>

lemma set_after: "mv_streams (status_Set i st s) = mv_streams s" "mv_channels (status_Set i st s) = mv_channels s"
  "mv_accounts (status_Set i st s) = mv_accounts s" "mv_profiles (status_Set i st s) = mv_profiles s"
  by (simp_all add: status_Set_def)

lemma upsertAndFinalize_ok:
  assumes s: "service_ok s" and a: "plain_id (ma_ID a)" and sts: "list_all stream_ok sts" "\<forall>st \<in> set sts. st_M3UAccountID st = ma_ID a"
  shows "service_ok (snd (upsertAndFinalize e a sts (map st_ID sts) s)) \<and> kept_others (ma_ID a) s (snd (upsertAndFinalize e a sts (map st_ID sts) s))"
proof -
  let ?s' = "snd (upsertAndFinalize e a sts (map st_ID sts) s)" and ?m = "decode (mv_streams s)"
  obtain x b where u: "Bolt_BulkUpsert (ri_tx e) (ri_now e) sts (mv_streams s) = (x, b)" by fastforce
  have r: "bolt_rep (mv_streams s) ?m" and c: "mapped (mv_channels s) \<subseteq> dom ?m" using s by (simp_all add: service_ok_def bolt_invar_def)
  obtain k where k: "bolt_rep b (fold (upsert1 (ri_now e)) (take k sts) ?m)" "x = None \<Longrightarrow> take k sts = sts"
    by (rule upsert_any [OF r sts(1), of "ri_tx e" "ri_now e"]) (simp add: u)
  have own: "owner (fold (upsert1 (ri_now e)) (take k sts) ?m) i = (if i \<in> st_ID ` set (take k sts) then Some (ma_ID a) else owner ?m i)" for i
    by (rule owner_after) (use sts(2) in \<open>auto dest: in_set_takeD\<close>)
  show ?thesis
  proof (cases x)
    case (Some y)
    then have e: "mv_streams ?s' = b" "mv_channels ?s' = mv_channels s" by (simp_all add: upsertAndFinalize_def set_after u)
    show ?thesis using rep_invar [OF k(1)] c own by (auto simp: service_ok_def kept_others_def owners_def e upsert_fold_dom)
  next
    case None
    define g b2 where gb: "g = fst (Bolt_DeleteStaleByAccountID (ri_stale_tx e) (ma_ID a) (map st_ID sts) b)"
      "b2 = snd (Bolt_DeleteStaleByAccountID (ri_stale_tx e) (ma_ID a) (map st_ID sts) b)"
    let ?M = "fold (upsert1 (ri_now e)) sts ?m"
    have rb: "bolt_rep b ?M" using k None by simp
    have e: "mv_streams ?s' = b2" "mapped (mv_channels ?s') = mapped (mv_channels s) - set g"
      unfolding upsertAndFinalize_def Let_def set_after u None option.case prod.case
      by (simp_all add: gb set_after mapped_removed case_prod_beta split: prod.split option.split)
    have st: "set g = {i. \<exists>st. ?M i = Some st \<and> stale (ma_ID a) (map st_ID sts) st}"
      "bolt_rep b2 (if ri_stale_tx e = None then drop_streams (stale (ma_ID a) (map st_ID sts)) ?M else ?M)"
      using stale_any [OF rb a] by (simp_all add: gb)
    have own2: "owner ?M i = (if i \<in> st_ID ` set sts then Some (ma_ID a) else owner ?m i)" for i using own k(2) None by simp
    have keyed: "keyed ?M" using rb by (simp add: keyed_def rep_keyed)
    have "mapped (mv_channels s) \<subseteq> dom ?M" using c by (auto simp: upsert_fold_dom)
    then have d: "mapped (mv_channels s) - set g \<subseteq> dom (decode b2)" unfolding rep_decode [OF st(2)] st(1)
      by (auto simp: drop_streams_def dom_def split: option.splits if_splits)
    have o2: "owner (decode b2) i \<in> {owner ?M i, if owner ?M i = Some (ma_ID a) \<and> i \<notin> st_ID ` set sts then None else owner ?M i}" for i
      unfolding rep_decode [OF st(2)] using keyed by (auto simp: owner_drop_stale)
    have "owner (decode b2) i \<in> {Some c, Some (ma_ID a)}" if "owner ?m i = Some c" "c \<noteq> ma_ID a" for i c
      using o2 [of i] own2 [of i] that by (auto split: if_splits)
    then show ?thesis using d rep_invar [OF st(2)] by (auto simp only: service_ok_def kept_others_def owners_def e insert_iff empty_iff)
  qed
qed

section \<open>Inputs\<close>

text \<open>The index keys of the database are bounded, so the names and groups that are fetched are; the
  identifiers of streams are hashes.\<close>

definition fits :: "Stream \<Rightarrow> bool" where
  "fits st \<longleftrightarrow> length (st_Group st) \<le> 30000 \<and> length (st_Name st) \<le> 30000 \<and> length (st_VODType st) \<le> 30000"

definition account_client :: "M3UAccount \<Rightarrow> XtreamClient" where
  "account_client a = \<lparr>xc_baseURL = ma_URL a, xc_username = ma_Username a, xc_password = ma_Password a\<rparr>"

definition xtream_items :: "(string \<Rightarrow> http_answer) \<Rightarrow> xtream_json \<Rightarrow> XtreamClient \<Rightarrow> xtream_item list" where
  "xtream_items http js c = map LiveItem (or_empty (GetLiveStreams http js c)) @ map MovieItem (or_empty (GetVODStreams http js c))
     @ map SeriesItem (or_empty (GetSeriesList http js c))"

definition inputs_ok :: "refresh_in \<Rightarrow> M3UAccount \<Rightarrow> bool" where
  "inputs_ok e a \<longleftrightarrow> (\<forall>x. plain_id (ri_stream_id e x))
     \<and> (\<forall>r u t status tag b err en c. ri_fetch e r u t = Reply status tag (Inr (b, err)) \<longrightarrow> en \<in> set (fst (Parse b err)) \<longrightarrow> fits (entry_stream e a c en))
     \<and> (\<forall>r. \<forall>it \<in> set (xtream_items (ri_xtream e r) (ri_json e) (account_client a)). fits (item_stream e a (account_client a) it))"

lemma entry_stream_fields:
  "st_ID (entry_stream e a c en) = ri_stream_id e (en_URL en)" "st_M3UAccountID (entry_stream e a c en) = ma_ID a"
  "st_SatIPSourceID (entry_stream e a c en) = []" "st_HDHRSourceID (entry_stream e a c en) = []" "st_URL (entry_stream e a c en) = en_URL en"
  "st_Name (entry_stream e a c en) = en_Name en" "st_Group (entry_stream e a c en) = en_Group en" "st_VODType (entry_stream e a c en) = en_TVPType en"
  by (simp_all add: entry_stream_def Let_def zero_stream_def computeContentHash_def)

lemma item_stream_fields:
  "st_ID (item_stream e a c it) = ri_stream_id e (item_url c it)" "st_M3UAccountID (item_stream e a c it) = ma_ID a"
  "st_SatIPSourceID (item_stream e a c it) = []" "st_HDHRSourceID (item_stream e a c it) = []"
  by (cases it; simp add: Let_def zero_stream_def computeContentHash_def split: prod.split)+

lemma first_by_hash_set: "set (first_by_hash h seen xs) \<subseteq> set xs"
  by (induction h seen xs rule: first_by_hash.induct) auto

lemma first_by_hash_images: "set seen \<union> h ` set (first_by_hash h seen xs) = set seen \<union> h ` set xs"
  by (induction h seen xs rule: first_by_hash.induct) auto

lemma first_by_hash_distinct: "distinct (map h (first_by_hash h seen xs)) \<and> set seen \<inter> h ` set (first_by_hash h seen xs) = {}"
  by (induction h seen xs rule: first_by_hash.induct) auto

lemma FetchConditional_Some:
  "FetchConditional http url etag = Inr (Some (b, t)) \<longleftrightarrow> http url etag = Reply 200 t (Inr b)"
  by (auto simp: FetchConditional_def split: fetch_answer.split sum.split)

lemma entries_ok:
  assumes "inputs_ok e a" "plain_id (ma_ID a)" "ri_fetch e r u t = Reply st tag (Inr (b, err))"
  shows "list_all stream_ok (map (entry_stream e a c) (first_by_hash h seen (fst (Parse b err))))"
proof -
  have "fits (entry_stream e a c en)" if "en \<in> set (fst (Parse b err))" for en
    using assms(1,3) that unfolding inputs_ok_def by blast
  then show ?thesis using assms(1,2) first_by_hash_set [of h seen "fst (Parse b err)"]
    by (auto simp: list_all_iff stream_ok_def fits_def entry_stream_fields inputs_ok_def)
qed

lemma items_ok:
  assumes "inputs_ok e a" "plain_id (ma_ID a)"
  shows "list_all stream_ok (map (item_stream e a (account_client a)) (first_by_hash h seen (xtream_items (ri_xtream e r) (ri_json e) (account_client a))))"
proof -
  have "fits (item_stream e a (account_client a) it)" if "it \<in> set (xtream_items (ri_xtream e r) (ri_json e) (account_client a))" for it
    using assms(1) that unfolding inputs_ok_def by blast
  then show ?thesis using assms first_by_hash_set [of h seen "xtream_items (ri_xtream e r) (ri_json e) (account_client a)"]
    by (auto simp: list_all_iff stream_ok_def fits_def item_stream_fields inputs_ok_def)
qed

lemma kept_others_same: "mv_streams s1 = mv_streams s \<Longrightarrow> kept_others a s1 s' = kept_others a s s'"
  by (simp add: kept_others_def owners_def)

text \<open>A refresh ends early with the streams and channels unchanged, or saves streams of the account.\<close>

definition saves :: "refresh_in \<Rightarrow> M3UAccount \<Rightarrow> 'b m3u_service \<Rightarrow> error option \<times> 'b m3u_service \<Rightarrow> bool" where
  "saves e a s r \<longleftrightarrow> (mv_streams (snd r) = mv_streams s \<and> mv_channels (snd r) = mv_channels s)
     \<or> (\<exists>sts s1. mv_streams s1 = mv_streams s \<and> mv_channels s1 = mv_channels s \<and> list_all stream_ok sts
          \<and> (\<forall>st \<in> set sts. st_M3UAccountID st = ma_ID a) \<and> r = upsertAndFinalize e a sts (map st_ID sts) s1)"

lemma saves_intro:
  "mv_streams s1 = mv_streams s \<Longrightarrow> mv_channels s1 = mv_channels s \<Longrightarrow> list_all stream_ok sts
    \<Longrightarrow> \<forall>st \<in> set sts. st_M3UAccountID st = ma_ID a \<Longrightarrow> saves e a s (upsertAndFinalize e a sts (map st_ID sts) s1)"
  unfolding saves_def by blast

lemma saves_ok:
  assumes "saves e a s r" "service_ok s" "plain_id (ma_ID a)"
  shows "service_ok (snd r) \<and> kept_others (ma_ID a) s (snd r)"
  using assms(1) unfolding saves_def
proof (elim disjE exE conjE)
  assume "mv_streams (snd r) = mv_streams s" "mv_channels (snd r) = mv_channels s"
  then show ?thesis using assms(2) service_ok_same [of "snd r" s] kept_others_refl [of "snd r" s] by simp
next
  fix sts s1
  assume h: "mv_streams s1 = mv_streams s" "mv_channels s1 = mv_channels s" "list_all stream_ok sts"
    "\<forall>st \<in> set sts. st_M3UAccountID st = ma_ID a" "r = upsertAndFinalize e a sts (map st_ID sts) s1"
  have "service_ok s1" using assms(2) service_ok_same [OF h(1,2)] by simp
  from upsertAndFinalize_ok [OF this assms(3) h(3,4)] show ?thesis
    by (simp add: h(5) kept_others_same [OF h(1)])
qed

lemma refreshM3UAccount_saves:
  assumes "plain_id (ma_ID a)" "inputs_ok e a"
  shows "saves e a s (refreshM3UAccount e a s)"
proof (cases "FetchConditional (ri_fetch e (httpClientForAccount e a (status_Set (ma_ID a) (running ''Downloading playlist...'' 0 0) s))) (ma_URL a) (ma_ETag a)")
  case (Inl x)
  then show ?thesis by (simp add: refreshM3UAccount_def saves_def set_after Let_def)
next
  case (Inr y)
  show ?thesis
  proof (cases y)
    case None
    then show ?thesis using Inr by (simp add: refreshM3UAccount_def saves_def set_after Let_def)
  next
    case (Some z)
    obtain b err t where z: "z = ((b, err), t)" by (metis prod.collapse)
    note f = Inr [unfolded Some z, unfolded FetchConditional_Some]
    show ?thesis
    proof (cases "snd (Parse b err)")
      case (Some x)
      then show ?thesis using Inr \<open>y = Some z\<close> z
        by (cases "Parse b err") (simp add: refreshM3UAccount_def saves_def set_after Let_def)
    next
      case None
      then obtain es where p: "Parse b err = (es, None)" by (metis prod.collapse)
      show ?thesis unfolding refreshM3UAccount_def Let_def Inr \<open>y = Some z\<close> z p sum.case option.case prod.case
        by (rule saves_intro) (use entries_ok [OF assms(2,1) f] in \<open>simp_all add: p set_after entry_stream_fields\<close>)
    qed
  qed
qed

lemma refreshXtreamAccount_saves:
  assumes "plain_id (ma_ID a)" "inputs_ok e a"
  shows "saves e a s (refreshXtreamAccount e a s)"
proof -
  let ?http = "ri_xtream e (transportForAccount e a s)"
  show ?thesis
  proof (cases "Authenticate_xtream ?http (ri_json e) (account_client a)")
    case (Inl x)
    then show ?thesis by (simp add: refreshXtreamAccount_def saves_def Let_def flip: account_client_def)
  next
    case auth: (Inr u)
    show ?thesis
    proof (cases "GetLiveStreams ?http (ri_json e) (account_client a)")
      case (Inl x)
      then show ?thesis using auth by (simp add: refreshXtreamAccount_def saves_def Let_def flip: account_client_def)
    next
      case (Inr live)
      then have l: "live = or_empty (GetLiveStreams ?http (ri_json e) (account_client a))" by (simp add: or_empty_def)
      show ?thesis unfolding refreshXtreamAccount_def Let_def account_client_def [symmetric] auth Inr sum.case
        unfolding l xtream_items_def [symmetric]
        by (rule saves_intro) (use items_ok [OF assms(2,1)] in \<open>simp_all add: item_stream_fields\<close>)
    qed
  qed
qed

section \<open>The operations\<close>

text \<open>The identifiers of the accounts.\<close>

definition ids :: "'b m3u_service \<Rightarrow> ident list" where
  "ids s = map ma_ID (mv_accounts s)"

lemmas account_keys = account.update_keys account_refreshed.update_keys account_error.update_keys account_count.update_keys account_etag.update_keys

lemma ids_simps:
  "ids (status_Set i st s) = ids s" "ids (s\<lparr>mv_accounts := as\<rparr>) = map ma_ID as" "ids (s\<lparr>mv_streams := b\<rparr>) = ids s"
  "ids (s\<lparr>mv_channels := c\<rparr>) = ids s" "ids (s\<lparr>mv_probes := p\<rparr>) = ids s" "ids (s\<lparr>mv_xtream := x\<rparr>) = ids s"
  "map ma_ID (mv_accounts s) = ids s"
  by (simp_all add: ids_def set_after)

lemma done_keys: "M3UStore_UpdateLastRefreshed e i t as = (r, as') \<Longrightarrow> map ma_ID as' = map ma_ID as"
  using account_refreshed.update_keys [of e i t as] by simp

lemma count_keys: "M3UStore_UpdateStreamCount e i n as = (r, as') \<Longrightarrow> map ma_ID as' = map ma_ID as"
  using account_count.update_keys [of e i n as] by simp

lemma upsertAndFinalize_ids: "ids (snd (upsertAndFinalize e a sts keep s)) = ids s"
proof -
  obtain x b where u: "Bolt_BulkUpsert (ri_tx e) (ri_now e) sts (mv_streams s) = (x, b)" by fastforce
  obtain g b2 where d: "Bolt_DeleteStaleByAccountID (ri_stale_tx e) (ma_ID a) keep b = (g, b2)" by fastforce
  obtain y as where l: "M3UStore_UpdateLastRefreshed (ri_done_env e) (ma_ID a) (ri_done e) (mv_accounts s) = (y, as)" by fastforce
  obtain z as' where c: "M3UStore_UpdateStreamCount (ri_count_env e) (ma_ID a) (int (length sts)) as = (z, as')" by fastforce
  show ?thesis
    by (cases x; cases y; cases z) (simp_all add: upsertAndFinalize_def Let_def set_after u d l c ids_simps done_keys [OF l] count_keys [OF c])
qed

lemma refreshM3UAccount_ids: "ids (snd (refreshM3UAccount e a s)) = ids s"
proof -
  let ?s0 = "status_Set (ma_ID a) (running ''Downloading playlist...'' 0 0) s"
  show ?thesis
    by (cases "FetchConditional (ri_fetch e (httpClientForAccount e a ?s0)) (ma_URL a) (ma_ETag a)")
       (auto simp: refreshM3UAccount_def Let_def ids_simps set_after account_keys upsertAndFinalize_ids split: option.split prod.split)
qed

lemma refreshXtreamAccount_ids: "ids (snd (refreshXtreamAccount e a s)) = ids s"
  by (simp add: refreshXtreamAccount_def Let_def upsertAndFinalize_ids ids_simps split: sum.split)

lemma refreshAccount_ids: "ids (snd (refreshAccount e a s)) = ids s"
  by (simp add: refreshAccount_def refreshM3UAccount_ids refreshXtreamAccount_ids)

lemma RefreshAccount_ids: "ids (snd (RefreshAccount e i s)) = ids s"
proof -
  have "ids (snd (refreshAccount e a (status_Set i st s))) = ids s" for a st by (simp add: refreshAccount_ids ids_simps)
  then have "refreshAccount e a (status_Set i st s) = (r, s1) \<Longrightarrow> ids s1 = ids s" for a st r s1 by (metis snd_conv)
  then show ?thesis by (auto simp: RefreshAccount_def set_last_error_def ids_simps account_keys split: sum.split prod.split option.split)
qed

text \<open>Whatever the network, the database and the files answer, refreshing an account keeps the database
  consistent and the channels mapped to streams that exist, and it deletes no stream of another account:
  one that the account lists too becomes its own.\<close>

lemma refreshAccount_ok:
  assumes "service_ok s" "plain_id (ma_ID a)" "inputs_ok e a"
  shows "service_ok (snd (refreshAccount e a s)) \<and> kept_others (ma_ID a) s (snd (refreshAccount e a s))"
  using saves_ok [OF refreshM3UAccount_saves [OF assms(2,3)] assms(1,2)] saves_ok [OF refreshXtreamAccount_saves [OF assms(2,3)] assms(1,2)]
  by (simp add: refreshAccount_def)

lemma RefreshAccount_streams:
  assumes "M3UStore_GetByID i (mv_accounts s) = Inr a"
  shows "mv_streams (snd (RefreshAccount e i s)) = mv_streams (snd (refreshAccount e a (status_Set i (running ''Refreshing...'' 0 0) s)))"
    "mv_channels (snd (RefreshAccount e i s)) = mv_channels (snd (refreshAccount e a (status_Set i (running ''Refreshing...'' 0 0) s)))"
  using assms by (simp_all add: RefreshAccount_def set_last_error_def set_after split: prod.split option.split)

lemma account_found: "M3UStore_GetByID i as = Inr a \<Longrightarrow> ma_ID a = i \<and> a \<in> set as"
  by (auto simp: M3UStore_GetByID_def not_found_def find_Some_iff split: option.splits)

lemma RefreshAccount_ok:
  assumes s: "service_ok s" and i: "plain_id i" and e: "\<And>a. inputs_ok e a"
  shows "service_ok (snd (RefreshAccount e i s)) \<and> kept_others i s (snd (RefreshAccount e i s))"
proof (cases "M3UStore_GetByID i (mv_accounts s)")
  case (Inl x)
  then show ?thesis using s by (simp add: RefreshAccount_def kept_others_refl)
next
  case (Inr a)
  let ?s1 = "status_Set i (running ''Refreshing...'' 0 0) s"
  have a: "ma_ID a = i" using account_found [OF Inr] by simp
  have same: "mv_streams ?s1 = mv_streams s" "mv_channels ?s1 = mv_channels s" by (simp_all add: set_after)
  have "service_ok ?s1" using s service_ok_same [OF same] by simp
  from refreshAccount_ok [OF this _ e [of a]] i a have r: "service_ok (snd (refreshAccount e a ?s1))" "kept_others i ?s1 (snd (refreshAccount e a ?s1))" by simp_all
  then show ?thesis using service_ok_same [OF RefreshAccount_streams [OF Inr]] r(2)
    by (simp add: kept_others_def owners_def RefreshAccount_streams [OF Inr] same)
qed

text \<open>Changing fields that no index uses.\<close>

lemma change_account_owner:
  assumes "bolt_rep s m" "keeps_keys f"
  shows "\<exists>m'. bolt_rep (change_account now a p f s) m' \<and> owner m' = owner m"
  using change_account_rep [OF assms, of now a p] by (auto simp: owner_def fun_eq_iff same_accounts_def)

lemma same_owners:
  assumes "service_ok s" "bolt_rep b m" "owner m = owner (decode (mv_streams s))"
  shows "service_ok (s\<lparr>mv_streams := b\<rparr>) \<and> owners (s\<lparr>mv_streams := b\<rparr>) = owners s"
proof -
  have "dom m = dom (decode (mv_streams s))" using assms(3) owner_dom by metis
  then show ?thesis using assms rep_invar [OF assms(2)] by (auto simp: service_ok_def owners_def)
qed

lemma source_kept: "source_of k (st\<lparr>st_TMDBID := t\<rparr>) = source_of k st" "source_of k (st\<lparr>st_UseWireGuard := b\<rparr>) = source_of k st"
  by (cases k; simp)+

lemma HardRefresh_start:
  assumes "service_ok s"
  shows "service_ok (s\<lparr>mv_streams := snd (Bolt_ClearAutoTMDBByAccountID tx now i (mv_streams s))\<rparr>)
    \<and> owners (s\<lparr>mv_streams := snd (Bolt_ClearAutoTMDBByAccountID tx now i (mv_streams s))\<rparr>) = owners s"
proof -
  let ?f = "\<lambda>st. st\<lparr>st_TMDBID := 0\<rparr>" and ?p = "\<lambda>st. st_TMDBID st > 0 \<and> \<not> st_TMDBManual st"
  have "keeps_keys ?f" by (simp add: keeps_keys_def source_kept)
  moreover have r: "bolt_rep (mv_streams s) (decode (mv_streams s))" using assms by (simp add: service_ok_def bolt_invar_def)
  ultimately obtain m' where m: "bolt_rep (change_account now i ?p ?f (mv_streams s)) m'" "owner m' = owner (decode (mv_streams s))"
    using change_account_owner by blast
  have "bolt_rep (snd (Bolt_ClearAutoTMDBByAccountID tx now i (mv_streams s))) (if tx = None then m' else decode (mv_streams s))"
    unfolding Bolt_ClearAutoTMDBByAccountID_def by (rule commit_rep [OF r]) (simp add: m(1))
  from same_owners [OF assms this] m(2) show ?thesis by (simp split: if_splits)
qed

lemma UpdateWireGuard_ok:
  assumes "service_ok s"
  shows "service_ok (s\<lparr>mv_streams := snd (Bolt_UpdateWireGuardByAccountID tx now i b (mv_streams s))\<rparr>)"
proof -
  let ?f = "\<lambda>st. st\<lparr>st_UseWireGuard := b\<rparr>"
  have "keeps_keys ?f" by (simp add: keeps_keys_def source_kept)
  moreover have r: "bolt_rep (mv_streams s) (decode (mv_streams s))" using assms by (simp add: service_ok_def bolt_invar_def)
  ultimately obtain m' where m: "bolt_rep (change_account now i (\<lambda>st. True) ?f (mv_streams s)) m'" "owner m' = owner (decode (mv_streams s))"
    using change_account_owner by blast
  have "bolt_rep (snd (Bolt_UpdateWireGuardByAccountID tx now i b (mv_streams s))) (if tx = None then m' else decode (mv_streams s))"
    unfolding Bolt_UpdateWireGuardByAccountID_def by (rule commit_rep [OF r m(1)])
  from same_owners [OF assms this] m(2) show ?thesis by (simp split: if_splits)
qed

lemma service_ok_accounts: "service_ok (s\<lparr>mv_accounts := as\<rparr>) = service_ok s" "owners (s\<lparr>mv_accounts := as\<rparr>) = owners s"
  by (simp_all add: service_ok_def owners_def)

lemma HardRefreshAccount_ok:
  assumes "service_ok s" "plain_id i" "\<And>a. inputs_ok e a"
  shows "service_ok (snd (HardRefreshAccount e i s)) \<and> ids (snd (HardRefreshAccount e i s)) = ids s"
proof -
  let ?s0 = "s\<lparr>mv_streams := snd (Bolt_ClearAutoTMDBByAccountID (ri_hard_tx e) (ri_hard_now e) i (mv_streams s))\<rparr>"
  have ok: "service_ok ?s0" using HardRefresh_start [OF assms(1)] by simp
  show ?thesis
  proof (cases "M3UStore_GetByID i (mv_accounts ?s0)")
    case (Inl x)
    then show ?thesis using ok by (simp add: HardRefreshAccount_def Let_def ids_simps)
  next
    case (Inr a)
    let ?s1 = "?s0\<lparr>mv_accounts := snd (M3UStore_Update (ri_hard_env e) (a\<lparr>ma_ETag := []\<rparr>) (mv_accounts ?s0))\<rparr>"
    have "service_ok ?s1" using ok by (simp only: service_ok_accounts)
    from RefreshAccount_ok [OF this assms(2,3)] Inr show ?thesis
      by (simp add: HardRefreshAccount_def Let_def RefreshAccount_ids ids_simps account_keys)
  qed
qed

lemma refresh_all_ok:
  "service_ok s \<Longrightarrow> list_all (plain_id \<circ> ma_ID) as \<Longrightarrow> (\<And>n a. inputs_ok (e n) a)
    \<Longrightarrow> service_ok (snd (refresh_all e n as r s)) \<and> ids (snd (refresh_all e n as r s)) = ids s"
proof (induction as arbitrary: n r s)
  case (Cons a as)
  obtain x s1 where x: "RefreshAccount (e n) (ma_ID a) s = (x, s1)" by fastforce
  have "service_ok s1" "ids s1 = ids s"
    using RefreshAccount_ok [OF Cons.prems(1), of "ma_ID a" "e n"] Cons.prems(2,3) RefreshAccount_ids [of "e n" "ma_ID a" s] by (simp_all add: x)
  with Cons show ?case by (cases x) (simp_all add: x)
qed simp

lemma CleanupOrphanedStreams_ok:
  assumes "service_ok s"
  shows "service_ok (CleanupOrphanedStreams e tx s)"
proof -
  let ?k = "map ma_ID (M3UStore_List (mv_accounts s))" and ?m = "decode (mv_streams s)" and ?s' = "CleanupOrphanedStreams e tx s"
  let ?r = "Bolt_DeleteOrphanedM3UStreams tx ?k (mv_streams s)" and ?q = "Bolt_DeleteOrphanedM3UStreams None ?k (mv_streams s)"
  have i: "bolt_invar (mv_streams s)" and c: "mapped (mv_channels s) \<subseteq> dom ?m" using assms by (simp_all add: service_ok_def)
  have g: "set (fst ?q) = {i. \<exists>st. ?m i = Some st \<and> st_M3UAccountID st \<noteq> [] \<and> st_M3UAccountID st \<notin> set ?k}"
    using bolt.orphans_ids [OF i, of M3U ?k] by simp
  have q: "decode (snd ?q) = drop_streams (\<lambda>st. st_M3UAccountID st \<noteq> [] \<and> st_M3UAccountID st \<notin> set ?k) ?m" "bolt_invar (snd ?q)"
    using bolt.orphans_abs [OF i, of M3U ?k] bolt.orphans_invar [OF i, of M3U ?k] by simp_all
  have e: "fst ?r = fst ?q" "snd ?r = (case tx of None \<Rightarrow> snd ?q | Some x \<Rightarrow> (mv_streams s)\<lparr>bs_rev := bs_rev (snd ?q)\<rparr>)"
    unfolding Bolt_DeleteOrphanedM3UStreams_def deleteOrphanedByIndex_def by (rule counted_any)+
  have "mv_streams ?s' = snd ?r" "mapped (mv_channels ?s') = mapped (mv_channels s) - set (fst ?q)"
    by (simp_all add: CleanupOrphanedStreams_def Let_def case_prod_beta mapped_removed e(1))
  moreover have "bolt_invar ((mv_streams s)\<lparr>bs_rev := r\<rparr>)" "decode ((mv_streams s)\<lparr>bs_rev := r\<rparr>) = ?m" for r
    using rep_invar [of "(mv_streams s)\<lparr>bs_rev := r\<rparr>" ?m] i by (simp_all add: rev_rep bolt_invar_def)
  moreover have "mapped (mv_channels s) - set (fst ?q) \<subseteq> dom (decode (snd ?q))"
    using c unfolding g q(1) by (auto simp: drop_streams_def dom_def split: option.splits if_splits)
  ultimately show ?thesis using q(2) c unfolding service_ok_def e(2) by (cases tx) auto
qed

section \<open>Any sequence of operations\<close>

datatype service_op = Refresh refresh_in ident | HardRefresh refresh_in ident | RefreshAll "nat \<Rightarrow> refresh_in"
  | NewAccount env M3UAccount | ChangeAccount env "error option" time M3UAccount | Cleanup env "error option"

fun service_exec :: "service_op \<Rightarrow> 'b m3u_service \<Rightarrow> 'b m3u_service" where
  "service_exec (Refresh e i) s = snd (RefreshAccount e i s)"
| "service_exec (HardRefresh e i) s = snd (HardRefreshAccount e i s)"
| "service_exec (RefreshAll e) s = snd (RefreshAllAccounts e s)"
| "service_exec (NewAccount e a) s = snd (CreateAccount e a s)"
| "service_exec (ChangeAccount e tx now a) s = snd (UpdateAccount e tx now a s)"
| "service_exec (Cleanup e tx) s = CleanupOrphanedStreams e tx s"

fun service_op_ok :: "service_op \<Rightarrow> bool" where
  "service_op_ok (Refresh e i) \<longleftrightarrow> plain_id i \<and> (\<forall>a. inputs_ok e a)"
| "service_op_ok (HardRefresh e i) \<longleftrightarrow> plain_id i \<and> (\<forall>a. inputs_ok e a)"
| "service_op_ok (RefreshAll e) \<longleftrightarrow> (\<forall>n a. inputs_ok (e n) a)"
| "service_op_ok (NewAccount e a) \<longleftrightarrow> plain_id (or_uuid e (ma_ID a))"
| "service_op_ok (ChangeAccount e tx now a) \<longleftrightarrow> True"
| "service_op_ok (Cleanup e tx) \<longleftrightarrow> True"

lemma service_exec_ok:
  assumes "service_op_ok p" "service_ok s" "list_all plain_id (ids s)"
  shows "service_ok (service_exec p s) \<and> list_all plain_id (ids (service_exec p s))"
proof (cases p)
  case (Refresh e i)
  then show ?thesis using assms RefreshAccount_ok [of s i e] by (simp add: RefreshAccount_ids)
next
  case (HardRefresh e i)
  then show ?thesis using assms HardRefreshAccount_ok [of s i e] by simp
next
  case (RefreshAll e)
  then show ?thesis using assms refresh_all_ok [of s "mv_accounts s" e 0 None]
    by (simp add: RefreshAllAccounts_def M3UStore_List_def ids_def list.pred_map)
next
  case (NewAccount e a)
  then show ?thesis using assms
    by (simp add: CreateAccount_def M3UStore_Create_def account_entry_def service_ok_accounts ids_def)
next
  case (ChangeAccount e tx now a)
  have k: "M3UStore_Update e a (mv_accounts s) = (r, as) \<Longrightarrow> map ma_ID as = ids s" for r as
    using account.update_keys [of e a "mv_accounts s"] by (simp add: ids_def)
  obtain r as where u: "M3UStore_Update e a (mv_accounts s) = (r, as)" by fastforce
  have "service_ok (s\<lparr>mv_accounts := as, mv_streams := snd (Bolt_UpdateWireGuardByAccountID tx now (ma_ID a) (ma_UseWireGuard a) (mv_streams s))\<rparr>)"
    using UpdateWireGuard_ok [of "s\<lparr>mv_accounts := as\<rparr>"] assms(2) by (simp add: service_ok_accounts)
  then show ?thesis using assms(2,3) ChangeAccount k [OF u]
    by (cases r) (simp_all add: UpdateAccount_def u service_ok_accounts ids_simps)
next
  case (Cleanup e tx)
  have "ids (CleanupOrphanedStreams e tx s) = ids s"
    by (simp add: CleanupOrphanedStreams_def Let_def ids_simps split: prod.split)
  then show ?thesis using assms CleanupOrphanedStreams_ok [of s e tx] Cleanup by simp
qed

text \<open>C5: However accounts are created, changed and refreshed, whatever the network answers and whichever
  writes fail, the database of streams stays consistent and every channel is mapped to streams that exist.\<close>

theorem channels_point_to_streams:
  assumes "service_ok s" "list_all plain_id (ids s)" "list_all service_op_ok ps"
  shows "bolt_invar (mv_streams (fold service_exec ps s))
    \<and> mapped (mv_channels (fold service_exec ps s)) \<subseteq> dom (decode (mv_streams (fold service_exec ps s)))"
proof -
  have "service_ok (fold service_exec ps s)" using assms
  proof (induction ps arbitrary: s)
    case (Cons p ps)
    then show ?case using service_exec_ok [of p s] by simp
  qed simp
  then show ?thesis by (simp add: service_ok_def)
qed

text \<open>C7: Refreshing an account never deletes a stream of another account: it stays, or the account lists it too
  and takes it over.\<close>

theorem refresh_keeps_other_accounts:
  assumes "service_ok s" "plain_id i" "\<forall>a. inputs_ok e a" "owners s j = Some b" "b \<noteq> i"
  shows "owners (snd (RefreshAccount e i s)) j \<in> {Some b, Some i}"
  using RefreshAccount_ok [OF assms(1,2), of e] assms(3-5) by (simp add: kept_others_def)

section \<open>What a refresh of a playlist gives\<close>

lemma upsert_done: "bolt_rep s m \<Longrightarrow> list_all stream_ok sts \<Longrightarrow>
  \<exists>b. Bolt_BulkUpsert (\<lambda>_. None) now sts s = (None, b) \<and> bolt_rep b (fold (upsert1 now) sts m)"
  using bolt_batches_rep [of s m sts 0 now] by (cases "Bolt_BulkUpsert (\<lambda>_. None) now sts s") (simp add: Bolt_BulkUpsert_def)

text \<open>Saving with every write succeeding: the account owns exactly the streams that were fetched.\<close>

lemma upsertAndFinalize_exact:
  assumes s: "service_ok s" and i: "plain_id (ma_ID a)" "ma_ID a \<in> set (ids s)" and sts: "list_all stream_ok sts" "\<forall>st \<in> set sts. st_M3UAccountID st = ma_ID a"
    and w: "ri_tx e = (\<lambda>_. None)" "ri_stale_tx e = None" "e_save (ri_done_env e) = None" "e_save (ri_count_env e) = None"
  shows "fst (upsertAndFinalize e a sts (map st_ID sts) s) = None
    \<and> (owners (snd (upsertAndFinalize e a sts (map st_ID sts) s)) j = Some (ma_ID a) \<longleftrightarrow> j \<in> st_ID ` set sts)"
proof -
  let ?m = "decode (mv_streams s)" and ?M = "fold (upsert1 (ri_now e)) sts (decode (mv_streams s))"
  have "bolt_rep (mv_streams s) ?m" using s by (simp add: service_ok_def bolt_invar_def)
  from upsert_done [OF this sts(1)] obtain b where u: "Bolt_BulkUpsert (\<lambda>_. None) (ri_now e) sts (mv_streams s) = (None, b)" and r: "bolt_rep b ?M" by blast
  obtain g b2 where d: "Bolt_DeleteStaleByAccountID None (ma_ID a) (map st_ID sts) b = (g, b2)" by fastforce
  have m: "decode b2 = drop_streams (stale (ma_ID a) (map st_ID sts)) ?M"
    using stale_any [OF r i(1), of None "map st_ID sts"] by (simp add: d rep_decode)
  have k: "keyed ?M" using r by (simp add: keyed_def rep_keyed)
  have mem: "ma_ID a \<in> ma_ID ` set (mv_accounts s)" using i(2) by (simp add: ids_def)
  obtain as where l: "M3UStore_UpdateLastRefreshed (ri_done_env e) (ma_ID a) (ri_done e) (mv_accounts s) = (None, as)"
    using account_refreshed.update_succeeds [of "ma_ID a" "mv_accounts s" "ri_done_env e" "ri_done e"] mem w(3)
    by (metis prod.collapse)
  have "ma_ID a \<in> ma_ID ` set as" using mem done_keys [OF l] by (metis list.set_map)
  then obtain as' where c: "M3UStore_UpdateStreamCount (ri_count_env e) (ma_ID a) (int (length sts)) as = (None, as')"
    using account_count.update_succeeds [of "ma_ID a" as "ri_count_env e"] w(4) by (metis prod.collapse)
  have o: "owner (decode b2) j = Some (ma_ID a) \<longleftrightarrow> j \<in> st_ID ` set sts"
    using owner_after [OF sts(2), of "ri_now e" ?m j] by (auto simp: m owner_drop_stale [OF k])
  show ?thesis using o
    by (simp add: upsertAndFinalize_def Let_def set_after w u d l c owners_def)
qed

lemma refreshM3UAccount_saved:
  assumes f: "\<And>r. FetchConditional (ri_fetch e r) (ma_URL a) (ma_ETag a) = Inr (Some ((b, err), tag))" and p: "Parse b err = (es, None)"
    and sts: "sts = map (entry_stream e a (cacheTypeForAccount a (mv_profiles s))) (first_by_hash (\<lambda>en. computeContentHash (en_URL en)) [] es)"
  obtains s1 where "refreshM3UAccount e a s = upsertAndFinalize e a sts (map st_ID sts) s1" "mv_streams s1 = mv_streams s"
    "mv_channels s1 = mv_channels s" "ids s1 = ids s"
proof -
  define s0 where "s0 = status_Set (ma_ID a) (running ''Downloading playlist...'' 0 0) s"
  define s1 where "s1 = (if tag \<noteq> ma_ETag a then s0\<lparr>mv_accounts := snd (M3UStore_UpdateETag (ri_etag_env e) (ma_ID a) tag (mv_accounts s0))\<rparr> else s0)"
  define s3 where "s3 = status_Set (ma_ID a) (running ''Processing streams...'' (length es) 0) (status_Set (ma_ID a) (running ''Parsing entries...'' 0 0) s1)"
  define s4 where "s4 = s3\<lparr>mv_probes := mv_probes s3 @ List.map_filter (entry_probe e) (first_by_hash (\<lambda>en. computeContentHash (en_URL en)) [] es)\<rparr>"
  have keep: "mv_streams s4 = mv_streams s" "mv_channels s4 = mv_channels s" "ids s4 = ids s" "mv_profiles s3 = mv_profiles s"
    by (simp_all add: s4_def s3_def s1_def s0_def set_after ids_simps account_keys)
  have "refreshM3UAccount e a s = upsertAndFinalize e a sts (map st_ID sts) s4"
    unfolding refreshM3UAccount_def s0_def [symmetric] Let_def f sum.case option.case prod.case s1_def [symmetric] p s3_def [symmetric] s4_def [symmetric]
      keep(4) sts [symmetric] ..
  with keep that show thesis by blast
qed

definition writes_succeed :: "refresh_in \<Rightarrow> bool" where
  "writes_succeed e \<longleftrightarrow> ri_tx e = (\<lambda>_. None) \<and> ri_stale_tx e = None \<and> e_save (ri_done_env e) = None \<and> e_save (ri_count_env e) = None"

lemma refresh_taken:
  assumes "service_ok s" "plain_id i" "\<forall>a. inputs_ok e a" "writes_succeed e"
    and a: "M3UStore_GetByID i (mv_accounts s) = Inr a" "ma_Type a \<noteq> ''xtream''"
    and f: "\<forall>r. ri_fetch e r (ma_URL a) (ma_ETag a) = Reply 200 tag (Inr body)" "Parse (fst body) (snd body) = (es, None)"
  shows "fst (RefreshAccount e i s) = None \<and> rs_State (status_Get i (snd (RefreshAccount e i s))) = ''done''
    \<and> {j. owners (snd (RefreshAccount e i s)) j = Some i} = ri_stream_id e ` en_URL ` set es"
proof -
  let ?s0 = "status_Set i (running ''Refreshing...'' 0 0) s"
  obtain b err where b: "body = (b, err)" by fastforce
  have i: "ma_ID a = i" "a \<in> set (mv_accounts s)" using account_found [OF a(1)] by simp_all
  have fetch: "FetchConditional (ri_fetch e r) (ma_URL a) (ma_ETag a) = Inr (Some ((b, err), tag))" for r
    unfolding FetchConditional_Some using f(1) b by simp
  define fresh where "fresh = first_by_hash (\<lambda>en. computeContentHash (en_URL en)) [] es"
  define sts where "sts = map (entry_stream e a (cacheTypeForAccount a (mv_profiles s))) fresh"
  have urls: "en_URL ` set fresh = en_URL ` set es"
    using first_by_hash_images [of "[]" "\<lambda>en. computeContentHash (en_URL en)" es] by (simp add: fresh_def computeContentHash_def)
  have st: "st_ID ` set sts = ri_stream_id e ` en_URL ` set es" unfolding urls [symmetric] sts_def by (simp add: image_image entry_stream_fields)
  have own: "\<forall>x \<in> set sts. st_M3UAccountID x = ma_ID a" by (simp add: sts_def entry_stream_fields)
  have ok: "list_all stream_ok sts" using entries_ok [of e a _ "ma_URL a" "ma_ETag a" 200 tag b err] assms(2,3) i(1) f b by (simp add: sts_def fresh_def)
  obtain s1 where s1: "refreshM3UAccount e a ?s0 = upsertAndFinalize e a sts (map st_ID sts) s1" "mv_streams s1 = mv_streams ?s0"
    "mv_channels s1 = mv_channels ?s0" "ids s1 = ids ?s0"
    using refreshM3UAccount_saved [OF fetch f(2) [unfolded b fst_conv snd_conv], of sts ?s0] by (auto simp: set_after sts_def fresh_def)
  then have s1: "refreshAccount e a ?s0 = upsertAndFinalize e a sts (map st_ID sts) s1" "mv_streams s1 = mv_streams s" "mv_channels s1 = mv_channels s" "ids s1 = ids s"
    using a(2) by (simp_all add: refreshAccount_def set_after ids_simps)
  have "service_ok s1" "plain_id (ma_ID a)" "ma_ID a \<in> set (ids s1)"
    using assms(1,2) service_ok_same [OF s1(2,3)] i unfolding s1(4) by (auto simp: ids_def [of s])
  from upsertAndFinalize_exact [OF this ok own] assms(4)
  have x: "fst (refreshAccount e a ?s0) = None" "owners (snd (refreshAccount e a ?s0)) j = Some i \<longleftrightarrow> j \<in> ri_stream_id e ` en_URL ` set es" for j
    by (simp_all add: writes_succeed_def s1(1) st i(1))
  have "owners (snd (RefreshAccount e i s)) = owners (snd (refreshAccount e a ?s0))" by (simp add: owners_def RefreshAccount_streams [OF a(1)])
  then show ?thesis using x a(1)
    by (cases "refreshAccount e a ?s0") (simp add: RefreshAccount_def status_Get_def status_Set_def)
qed

text \<open>C6: When the playlist of an account is fetched and read and the writes succeed, the refresh reports success
  and the account then owns exactly the streams of the addresses in the playlist: new ones are added, those
  that are gone are deleted.\<close>

theorem refresh_exact:
  assumes "service_ok s" "plain_id i" "\<forall>a. inputs_ok e a" "writes_succeed e"
    and a: "M3UStore_GetByID i (mv_accounts s) = Inr a" "ma_Type a \<noteq> ''xtream''"
    and f: "\<forall>r. ri_fetch e r (ma_URL a) (ma_ETag a) = Reply 200 tag (Inr body)" "Parse (fst body) (snd body) = (es, None)"
  shows "fst (RefreshAccount e i s) = None \<and> rs_State (status_Get i (snd (RefreshAccount e i s))) = ''done''
    \<and> {j. owners (snd (RefreshAccount e i s)) j = Some i} = ri_stream_id e ` en_URL ` set es"
  using refresh_taken [OF assms] .

text \<open>C8: A refresh that fails reports the same message to the caller, in the status that the interface polls
  and as the last error of the account; one that succeeds clears the last error.\<close>

theorem refresh_outcome_reported:
  assumes "M3UStore_GetByID i (mv_accounts s) = Inr a"
  shows "case RefreshAccount e i s of (r, s') \<Rightarrow>
    status_Get i s' = (case r of None \<Rightarrow> \<lparr>rs_State = ''done'', rs_Message = ''Refresh complete'', rs_Total = 0, rs_Progress = 0\<rparr>
      | Some x \<Rightarrow> \<lparr>rs_State = ''error'', rs_Message = x, rs_Total = 0, rs_Progress = 0\<rparr>)
    \<and> (\<exists>a'. M3UStore_GetByID i (mv_accounts s') = Inr a' \<and> ma_LastError a' = (case r of None \<Rightarrow> [] | Some x \<Rightarrow> x))"
proof -
  obtain r s1 where r: "refreshAccount e a (status_Set i (running ''Refreshing...'' 0 0) s) = (r, s1)" by fastforce
  have i: "ma_ID a = i" "a \<in> set (mv_accounts s)" using account_found [OF assms] by simp_all
  have "ids s1 = ids s" using refreshAccount_ids [of e a "status_Set i (running ''Refreshing...'' 0 0) s"] by (simp add: r ids_simps)
  then have "map ma_ID (mv_accounts s1) = map ma_ID (mv_accounts s)" by (simp add: ids_def)
  then have "i \<in> ma_ID ` set (mv_accounts s1)" using i by (metis imageI list.set_map)
  then obtain b where b: "find (\<lambda>x. ma_ID x = i) (mv_accounts s1) = Some b"
    by (cases "find (\<lambda>x. ma_ID x = i) (mv_accounts s1)") (auto simp: find_None_iff)
  have "M3UStore_GetByID i (snd (M3UStore_UpdateLastError env i x (mv_accounts s1))) = Inr ((b\<lparr>ma_LastError := x\<rparr>)\<lparr>ma_UpdatedAt := e_now env\<rparr>)" for env x
    unfolding M3UStore_GetByID_def account_error.update_find by (simp add: b not_found_def field_put_def)
  moreover have "snd (RefreshAccount e i s) = status_Set i (case r of None \<Rightarrow> \<lparr>rs_State = ''done'', rs_Message = ''Refresh complete'', rs_Total = 0, rs_Progress = 0\<rparr>
      | Some x \<Rightarrow> \<lparr>rs_State = ''error'', rs_Message = x, rs_Total = 0, rs_Progress = 0\<rparr>) (set_last_error e i (case r of None \<Rightarrow> [] | Some x \<Rightarrow> x) s1)"
    "fst (RefreshAccount e i s) = r"
    by (cases r; simp add: RefreshAccount_def assms r i(1))+
  ultimately show ?thesis by (simp add: case_prod_beta status_Get_def status_Set_def set_last_error_def)
qed

section \<open>Playlists that break off, shared addresses and deleted accounts\<close>

text \<open>The entity tag is stored before the playlist is read. When reading fails (the download breaks off) the
  error is reported, but at the next refresh the server answers that nothing has changed, and the refresh
  reports success and clears the error although the streams were never taken over.\<close>

theorem broken_download_hidden:
  assumes a: "M3UStore_GetByID i (mv_accounts s) = Inr a" "ma_Type a \<noteq> ''xtream''" "ma_ETag a \<noteq> tag"
    and f: "\<forall>r. ri_fetch e r (ma_URL a) (ma_ETag a) = Reply 200 tag (Inr (b, Some err))" "snd (Parse b (Some err)) = Some x"
    and f2: "\<forall>r. ri_fetch e2 r (ma_URL a) tag = Reply 304 tag body"
  shows "fst (RefreshAccount e i s) = Some (''parsing m3u: '' @ x)
    \<and> fst (RefreshAccount e2 i (snd (RefreshAccount e i s))) = None
    \<and> mv_streams (snd (RefreshAccount e2 i (snd (RefreshAccount e i s)))) = mv_streams s
    \<and> rs_State (status_Get i (snd (RefreshAccount e2 i (snd (RefreshAccount e i s))))) = ''done''"
proof -
  let ?s0 = "status_Set i (running ''Refreshing...'' 0 0) s" and ?msg = "''parsing m3u: '' @ x"
  have i: "ma_ID a = i" using account_found [OF a(1)] by simp
  obtain es where p: "Parse b (Some err) = (es, Some x)" using f(2) by (metis prod.collapse)
  have fetch: "FetchConditional (ri_fetch e r) (ma_URL a) (ma_ETag a) = Inr (Some ((b, Some err), tag))" for r
    unfolding FetchConditional_Some using f(1) by simp
  define s1 where "s1 = snd (refreshAccount e a ?s0)"
  have "refreshAccount e a ?s0 = (Some ?msg, s1)" and s1: "mv_streams s1 = mv_streams s"
    "mv_accounts s1 = snd (M3UStore_UpdateETag (ri_etag_env e) i tag (mv_accounts s))"
    using a p by (simp_all add: s1_def refreshAccount_def refreshM3UAccount_def Let_def fetch set_after i split: prod.split)
  then have r: "RefreshAccount e i s = (Some ?msg, status_Set i \<lparr>rs_State = ''error'', rs_Message = ?msg, rs_Total = 0, rs_Progress = 0\<rparr> (set_last_error e i ?msg s1))"
    by (simp add: RefreshAccount_def a i)
  define s2 where "s2 = snd (RefreshAccount e i s)"
  define a2 where "a2 = field_put (\<lambda>y. y\<lparr>ma_LastError := ?msg\<rparr>) (ri_error_env e) i (field_put (\<lambda>y. y\<lparr>ma_ETag := tag\<rparr>) (ri_etag_env e) i a)"
  have found: "find (\<lambda>y. ma_ID y = i) (mv_accounts s) = Some a" using a(1) by (simp add: M3UStore_GetByID_def not_found_def split: option.splits)
  have a2: "M3UStore_GetByID i (mv_accounts s2) = Inr a2" "ma_Type a2 = ma_Type a" "ma_ETag a2 = tag" "ma_URL a2 = ma_URL a" "ma_ID a2 = i" "mv_streams s2 = mv_streams s"
    by (simp_all add: s2_def r set_after set_last_error_def s1 M3UStore_GetByID_def account_error.update_find account_etag.update_find found not_found_def
        a2_def field_put_def i)
  have fetch2: "FetchConditional (ri_fetch e2 c) (ma_URL a) tag = Inr None" for c
    using f2 by (simp add: FetchConditional_def)
  let ?s2 = "status_Set i (running ''Refreshing...'' 0 0) s2"
  have "refreshAccount e2 a2 ?s2 = (None, status_Set i (running ''Downloading playlist...'' 0 0) ?s2)"
    using a(2) by (simp add: refreshAccount_def refreshM3UAccount_def Let_def fetch2 a2)
  then have r2: "RefreshAccount e2 i s2 = (None, status_Set i \<lparr>rs_State = ''done'', rs_Message = ''Refresh complete'', rs_Total = 0, rs_Progress = 0\<rparr>
      (set_last_error e2 i [] (status_Set i (running ''Downloading playlist...'' 0 0) ?s2)))"
    by (simp add: RefreshAccount_def a2)
  have "fst (RefreshAccount e i s) = Some ?msg" by (simp add: r)
  then show ?thesis unfolding s2_def [symmetric] r2 by (simp add: status_Get_def status_Set_def set_last_error_def a2)
qed

text \<open>A stream is identified by its address alone, so an address that two accounts list is one stream, of the
  account refreshed last.\<close>

theorem shared_address_moves:
  assumes "service_ok s" "plain_id i" "\<forall>a. inputs_ok e a" "writes_succeed e"
    and "M3UStore_GetByID i (mv_accounts s) = Inr a" "ma_Type a \<noteq> ''xtream''"
    and "\<forall>r. ri_fetch e r (ma_URL a) (ma_ETag a) = Reply 200 tag (Inr body)" "Parse (fst body) (snd body) = (es, None)"
    and "owners s j = Some b" "b \<noteq> i" "j \<in> ri_stream_id e ` en_URL ` set es"
  shows "owners (snd (RefreshAccount e i s)) j = Some i"
  using refresh_taken [OF assms(1-8)] assms(11) by blast

text \<open>Deleting an account deletes its streams but leaves the channels mapped to them.\<close>

theorem DeleteAccount_leaves_mappings:
  assumes "service_ok s" "plain_id i" "owners s j = Some i" "j \<in> mapped (mv_channels s)"
  shows "j \<in> mapped (mv_channels (snd (DeleteAccount e None i s))) \<and> owners (snd (DeleteAccount e None i s)) j = None"
proof -
  have v: "bolt_invar (mv_streams s)" using assms(1) by (simp add: service_ok_def)
  have "Bolt_DeleteByAccountID None i (mv_streams s) = bolt_delete_by M3U i (mv_streams s)" by (simp add: Bolt_DeleteByAccountID_def bolt_delete_by_eq)
  then have d: "decode (Bolt_DeleteByAccountID None i (mv_streams s)) = drop_streams (\<lambda>st. st_M3UAccountID st = i) (decode (mv_streams s))"
    using bolt.delete_by_abs [OF v assms(2), of M3U] by simp
  have "mv_streams (snd (DeleteAccount e None i s)) = Bolt_DeleteByAccountID None i (mv_streams s)" "mv_channels (snd (DeleteAccount e None i s)) = mv_channels s"
    by (simp_all add: DeleteAccount_def Let_def case_prod_beta)
  then show ?thesis using assms(3,4) by (auto simp: owners_def d owner_def drop_streams_def)
qed

section \<open>A service with two accounts\<close>

definition demo_account :: "ident \<Rightarrow> M3UAccount" where
  "demo_account i = \<lparr>ma_ID = i, ma_Name = ''A'', ma_URL = ''p'', ma_Type = ''m3u'', ma_Username = [], ma_Password = [], ma_MaxStreams = 1,
     ma_IsEnabled = True, ma_LastRefreshed = None, ma_StreamCount = 2, ma_RefreshInterval = 0, ma_LastError = ''timeout'', ma_UseWireGuard = False,
     ma_UseXtreamMetadata = False, ma_SourceProfileID = [], ma_TLSEnrolled = False, ma_ETag = [], ma_CreatedAt = 1, ma_UpdatedAt = 1\<rparr>"

definition demo_streams :: "Stream list" where
  "demo_streams = [sample ''a'', sample ''b'', (sample ''z'')\<lparr>st_M3UAccountID := ''other''\<rparr>]"

definition demo_service :: "(string, byte list) rbt m3u_service" where
  "demo_service = \<lparr>mv_accounts = [demo_account ''acc'', demo_account ''other''],
     mv_streams = snd (Bolt_BulkUpsert (\<lambda>_. None) 1 demo_streams (empty_bolt rbt_buckets numbering)), mv_channels = [], mv_profiles = [],
     mv_xtream = None, mv_configDir = [], mv_wgClient = False, mv_status = (\<lambda>_. no_status), mv_probes = []\<rparr>"

text \<open>The playlist has one entry, the stream \<open>a\<close>.\<close>

definition demo_list :: string where
  "demo_list = ''#EXTINF:-1,A'' @ [nl] @ ''u''"

definition demo_in :: refresh_in where
  "demo_in = \<lparr>ri_etag_env = example_env, ri_map_env = example_env, ri_done_env = example_env, ri_count_env = example_env, ri_error_env = example_env,
     ri_hard_env = example_env, ri_hard_tx = None, ri_hard_now = 2, ri_tx = (\<lambda>_. None), ri_stale_tx = None, ri_now = 2, ri_done = 2,
     ri_fetch = (\<lambda>r u t. Reply 200 ''v1'' (Inr (demo_list, None))), ri_tls = (\<lambda>_. False), ri_xtream = (\<lambda>r u. NoAnswer ''refused''),
     ri_json = \<lparr>xj_auth = (\<lambda>_. Inr ()), xj_live = (\<lambda>_. Inr []), xj_vod = (\<lambda>_. Inr []), xj_series = (\<lambda>_. Inr [])\<rparr>,
     ri_rating = (\<lambda>_. []), ri_stream_id = (\<lambda>u. ''a''), ri_float = (\<lambda>_. None)\<rparr>"

lemma demo_parse: "\<exists>en. Parse demo_list None = ([en], None) \<and> en_Name en = ''A'' \<and> en_Group en = [] \<and> en_TVPType en = [] \<and> en_URL en = ''u''"
proof -
  have "split_lines demo_list = [''#EXTINF:-1,A'', ''u'']" by code_simp
  then have "scan_lines demo_list None = ([''#EXTINF:-1,A'', ''u''], None)" by (simp add: scan_lines_def scan_lines_max_def max_token_def)
  then have "Parse demo_list None = ([(parseExtInf ''#EXTINF:-1,A'' empty_entry)\<lparr>en_URL := ''u''\<rparr>], None)"
    by (simp add: Parse_def TrimSpace_plain plain_char_def HasPrefix_def)
  moreover have "str_last_index ''#EXTINF:-1,A'' '','' = Some 10" "extractAttr ''#EXTINF:-1,A'' ''group-title'' = []"
    "extractAttr ''#EXTINF:-1,A'' ''tvp-type'' = []" by code_simp+
  ultimately show ?thesis by (simp add: parseExtInf_def TrimSpace_plain plain_char_def)
qed

lemma demo_inputs: "inputs_ok demo_in a"
proof -
  obtain en where en: "Parse demo_list None = ([en], None)" "en_Name en = ''A''" "en_Group en = []" "en_TVPType en = []" using demo_parse by blast
  have "xtream_items (ri_xtream demo_in r) (ri_json demo_in) (account_client a) = []" for r
    by (simp add: xtream_items_def GetLiveStreams_def GetVODStreams_def GetSeriesList_def wrap_error_def xtream_get_def or_empty_def demo_in_def)
  then show ?thesis unfolding inputs_ok_def
    by (simp add: demo_in_def plain_id_def en fits_def entry_stream_fields)
qed

lemma demo_rep: "bolt_rep (mv_streams demo_service) (fold (upsert1 1) demo_streams Map.empty)"
proof -
  have "list_all stream_ok demo_streams" by (simp add: demo_streams_def sample_ok) (simp add: stream_ok_def sample_def plain_id_def)
  then show ?thesis using bolt_batches_rep [OF empty_bolt_rep [OF rbt_buckets_ok numbering_ok], of demo_streams 0 1]
    by (simp add: demo_service_def Bolt_BulkUpsert_def)
qed

lemma demo_ok: "service_ok demo_service" "list_all plain_id (ids demo_service)" "owners demo_service ''z'' = Some ''other''"
  "M3UStore_GetByID ''acc'' (mv_accounts demo_service) = Inr (demo_account ''acc'')"
proof -
  show "service_ok demo_service" using rep_invar [OF demo_rep] by (simp add: service_ok_def demo_service_def mapped_def)
  show "list_all plain_id (ids demo_service)" by (simp add: ids_def demo_service_def demo_account_def plain_id_def)
  show "owners demo_service ''z'' = Some ''other''"
    by (simp add: owners_def rep_decode [OF demo_rep] demo_streams_def owner_upsert1) (simp add: sample_def)
  show "M3UStore_GetByID ''acc'' (mv_accounts demo_service) = Inr (demo_account ''acc'')"
    by (simp add: M3UStore_GetByID_def demo_service_def demo_account_def not_found_def)
qed

theorem channels_point_to_streams_witness:
  "bolt_invar (mv_streams (fold service_exec [Refresh demo_in ''acc'', Cleanup example_env None] demo_service))
    \<and> mapped (mv_channels (fold service_exec [Refresh demo_in ''acc'', Cleanup example_env None] demo_service))
       \<subseteq> dom (decode (mv_streams (fold service_exec [Refresh demo_in ''acc'', Cleanup example_env None] demo_service)))"
proof -
  have "\<forall>a. inputs_ok demo_in a" using demo_inputs by blast
  then have "list_all service_op_ok [Refresh demo_in ''acc'', Cleanup example_env None]" by (simp add: plain_id_def)
  from channels_point_to_streams [OF demo_ok(1,2) this] show ?thesis .
qed

theorem refresh_keeps_other_accounts_witness: "owners (snd (RefreshAccount demo_in ''acc'' demo_service)) ''z'' \<in> {Some ''other'', Some ''acc''}"
  by (rule refresh_keeps_other_accounts [OF demo_ok(1) _ allI [OF demo_inputs] demo_ok(3)]) (simp_all add: plain_id_def)

theorem refresh_exact_witness:
  "fst (RefreshAccount demo_in ''acc'' demo_service) = None \<and> {j. owners (snd (RefreshAccount demo_in ''acc'' demo_service)) j = Some ''acc''} = {''a''}"
proof -
  obtain en where en: "Parse demo_list None = ([en], None)" using demo_parse by blast
  have 0: "\<forall>a. inputs_ok demo_in a" using demo_inputs by blast
  have 1: "plain_id ''acc''" "writes_succeed demo_in" "ma_Type (demo_account ''acc'') \<noteq> ''xtream''"
    by (simp_all add: plain_id_def writes_succeed_def demo_in_def example_env_def demo_account_def)
  have 2: "\<forall>r. ri_fetch demo_in r (ma_URL (demo_account ''acc'')) (ma_ETag (demo_account ''acc'')) = Reply 200 ''v1'' (Inr (demo_list, None))"
    by (simp add: demo_in_def)
  have "ri_stream_id demo_in ` en_URL ` {en} = {''a''}" by (simp add: demo_in_def)
  then show ?thesis using refresh_exact [OF demo_ok(1) 1(1) 0 1(2) demo_ok(4) 1(3) 2, of "[en]"] en by simp
qed

theorem refresh_outcome_reported_witness:
  "status_Get ''acc'' (snd (RefreshAccount (demo_in\<lparr>ri_fetch := \<lambda>r u t. Failed ''timeout''\<rparr>) ''acc'' demo_service))
    = \<lparr>rs_State = ''error'', rs_Message = ''fetching m3u url: timeout'', rs_Total = 0, rs_Progress = 0\<rparr>"
proof -
  let ?e = "demo_in\<lparr>ri_fetch := \<lambda>r u t. Failed ''timeout''\<rparr>"
  have "fst (RefreshAccount ?e ''acc'' demo_service) = Some ''fetching m3u url: timeout''"
    by (simp add: RefreshAccount_def demo_ok(4) refreshAccount_def refreshM3UAccount_def Let_def FetchConditional_def) (simp add: demo_account_def)
  then show ?thesis using refresh_outcome_reported [OF demo_ok(4), of ?e] by (simp add: case_prod_beta)
qed

end
