(* ===== verification/EpgService.thy ===== *)
theory EpgService
  imports M3uService EpgStore
begin

text \<open>
  Guide sources (\<open>pkg/service/epg.go\<close>) and the reading of an XMLTV document
  (\<open>pkg/xmltv/parser.go\<close>). What \<open>encoding/xml\<close> decodes, the reading of a time, the JSON of a list,
  what the network answers, the clock and the outcome of the writes are inputs.
\<close>

section \<open>XMLTV documents\<close>

record xmlChannel =
  xch_ID :: string
  xch_DisplayName :: "string list"
  xch_Icon :: "string option"

record xmlCredits =
  xcr_Directors :: "string list"
  xcr_Actors :: "string list"
  xcr_Writers :: "string list"

record xmlProgramme =
  xpr_Start :: string
  xpr_Stop :: string
  xpr_Channel :: string
  xpr_Title :: "string list"
  xpr_SubTitle :: "string list"
  xpr_Desc :: "string list"
  xpr_Date :: string
  xpr_Category :: "string list"
  xpr_EpisodeNum :: "(string \<times> string) list"
  xpr_Icon :: "string option"
  xpr_Credits :: "xmlCredits option"
  xpr_Rating :: "(string \<times> string option) list"
  xpr_StarRating :: "string list"
  xpr_Language :: "string list"
  xpr_PreviouslyShown :: bool
  xpr_New :: bool

record xmlTV =
  xtv_Channels :: "xmlChannel list"
  xtv_Programmes :: "xmlProgramme list"

record XmltvChannel =
  tc_ID :: string
  tc_DisplayName :: string
  tc_Icon :: string

record Programme =
  tp_Channel :: string
  tp_Start :: time
  tp_Stop :: time
  tp_Title :: string
  tp_Description :: string
  tp_Category :: string
  tp_EpisodeNum :: string
  tp_Icon :: string
  tp_Subtitle :: string
  tp_Date :: string
  tp_Language :: string
  tp_IsNew :: bool
  tp_IsPreviouslyShown :: bool
  tp_Credits :: string
  tp_Rating :: string
  tp_RatingIcon :: string
  tp_StarRating :: string
  tp_SubCategories :: string
  tp_EpisodeNumSystem :: string

text \<open>The libraries: the decoder, \<open>time.Parse\<close> with the layout of XMLTV (\<open>None\<close> is an error),
  \<open>json.Marshal\<close>, and the zero time.\<close>

record xmltv_libs =
  xl_decode :: "string \<times> error option \<Rightarrow> error + xmlTV"
  xl_time :: "string \<Rightarrow> time option"
  xl_strings :: "string list \<Rightarrow> error + string"
  xl_credits :: "xmlCredits \<Rightarrow> error + string"
  xl_zero :: time

definition first_or :: "'a \<Rightarrow> 'a list \<Rightarrow> 'a" where
  "first_or z xs = (case xs of [] \<Rightarrow> z | x # _ \<Rightarrow> x)"

definition opt_or :: "'a \<Rightarrow> 'a option \<Rightarrow> 'a" where
  "opt_or z x = (case x of None \<Rightarrow> z | Some y \<Rightarrow> y)"

text \<open>A marshalled value, the empty string on an error.\<close>

definition marshalled :: "error + string \<Rightarrow> string" where
  "marshalled r = (case r of Inl e \<Rightarrow> [] | Inr s \<Rightarrow> s)"

definition xmltv_channel :: "xmlChannel \<Rightarrow> XmltvChannel" where
  "xmltv_channel c = \<lparr>tc_ID = xch_ID c, tc_DisplayName = first_or [] (xch_DisplayName c), tc_Icon = opt_or [] (xch_Icon c)\<rparr>"

definition xmltv_programme :: "xmltv_libs \<Rightarrow> xmlProgramme \<Rightarrow> Programme" where
  "xmltv_programme l p = \<lparr>tp_Channel = xpr_Channel p,
     tp_Start = opt_or (xl_zero l) (xl_time l (xpr_Start p)), tp_Stop = opt_or (xl_zero l) (xl_time l (xpr_Stop p)),
     tp_Title = first_or [] (xpr_Title p), tp_Description = first_or [] (xpr_Desc p), tp_Category = first_or [] (xpr_Category p),
     tp_EpisodeNum = snd (first_or ([], []) (xpr_EpisodeNum p)), tp_Icon = opt_or [] (xpr_Icon p), tp_Subtitle = first_or [] (xpr_SubTitle p),
     tp_Date = xpr_Date p, tp_Language = first_or [] (xpr_Language p), tp_IsNew = xpr_New p, tp_IsPreviouslyShown = xpr_PreviouslyShown p,
     tp_Credits = (case xpr_Credits p of None \<Rightarrow> []
       | Some c \<Rightarrow> if xcr_Directors c \<noteq> [] \<or> xcr_Actors c \<noteq> [] \<or> xcr_Writers c \<noteq> [] then marshalled (xl_credits l c) else []),
     tp_Rating = fst (first_or ([], None) (xpr_Rating p)), tp_RatingIcon = opt_or [] (snd (first_or ([], None) (xpr_Rating p))),
     tp_StarRating = first_or [] (xpr_StarRating p),
     tp_SubCategories = (if length (xpr_Category p) > 1 then marshalled (xl_strings l (tl (xpr_Category p))) else []),
     tp_EpisodeNumSystem = fst (first_or ([], []) (xpr_EpisodeNum p))\<rparr>"

definition xmltv_Parse :: "xmltv_libs \<Rightarrow> string \<times> error option \<Rightarrow> error + (XmltvChannel list \<times> Programme list)" where
  "xmltv_Parse l body = (case xl_decode l body of Inl e \<Rightarrow> Inl e
     | Inr raw \<Rightarrow> Inr (map xmltv_channel (xtv_Channels raw), map (xmltv_programme l) (xtv_Programmes raw)))"

section \<open>The service\<close>

record epg_service =
  ev_sources :: epg_sources
  ev_guide :: EPGStoreImpl
  ev_wgClient :: bool
  ev_batchSize :: "int option"
  ev_status :: "ident \<Rightarrow> RefreshStatus"

definition epg_set :: "ident \<Rightarrow> RefreshStatus \<Rightarrow> epg_service \<Rightarrow> epg_service" where
  "epg_set i st s = s\<lparr>ev_status := (ev_status s)(i := st)\<rparr>"

record epg_in =
  ei_etag_env :: env
  ei_data_env :: env
  ei_prog_env :: "nat \<Rightarrow> env"
  ei_done_env :: env
  ei_error_env :: env
  ei_now :: time
  ei_done :: time
  ei_fetch :: "http_route \<Rightarrow> string \<Rightarrow> string \<Rightarrow> fetch_answer"
  ei_libs :: xmltv_libs

definition shouldRefresh :: "time \<Rightarrow> EPGSource \<Rightarrow> bool" where
  "shouldRefresh now src = (if es_ETag src \<noteq> [] then True
     else case es_LastRefreshed src of None \<Rightarrow> True | Some t \<Rightarrow> now - t \<ge> 12 * 3600 * 1000000000)"

definition guide_channel :: "ident \<Rightarrow> XmltvChannel \<Rightarrow> EPGData" where
  "guide_channel src c = \<lparr>ed_ID = [], ed_SourceID = src, ed_ChannelID = tc_ID c, ed_Name = tc_DisplayName c, ed_Icon = tc_Icon c\<rparr>"

definition programme_of :: "ident \<Rightarrow> Programme \<Rightarrow> ProgramData" where
  "programme_of i p = \<lparr>pd_ID = [], pd_EPGDataID = i, pd_Title = tp_Title p, pd_Description = tp_Description p, pd_Start = tp_Start p,
     pd_Stop = tp_Stop p, pd_Category = tp_Category p, pd_EpisodeNum = tp_EpisodeNum p, pd_Icon = tp_Icon p, pd_Subtitle = tp_Subtitle p,
     pd_Date = tp_Date p, pd_Language = tp_Language p, pd_IsNew = tp_IsNew p, pd_IsPreviouslyShown = tp_IsPreviouslyShown p,
     pd_Credits = tp_Credits p, pd_Rating = tp_Rating p, pd_RatingIcon = tp_RatingIcon p, pd_StarRating = tp_StarRating p,
     pd_SubCategories = tp_SubCategories p, pd_EpisodeNumSystem = tp_EpisodeNumSystem p\<rparr>"

text \<open>\<open>BulkCreateEPGData\<close> writes the new identifiers into the slice; the last entry of a channel wins.\<close>

definition channelIDMap :: "EPGData list \<Rightarrow> string \<Rightarrow> ident option" where
  "channelIDMap ds = map_of (rev (map (\<lambda>d. (ed_ChannelID d, ed_ID d)) ds))"

definition feed_programs :: "(string \<Rightarrow> ident option) \<Rightarrow> Programme list \<Rightarrow> ProgramData list" where
  "feed_programs m ps = List.map_filter (\<lambda>p. map_option (\<lambda>i. programme_of i p) (m (tp_Channel p))) ps"

definition epg_batch_size :: "epg_service \<Rightarrow> nat" where
  "epg_batch_size s = (case ev_batchSize s of None \<Rightarrow> 5000 | Some n \<Rightarrow> if n > 0 then nat n else 5000)"

text \<open>The batches, the \<open>n\<close>-th with the identifiers of its own call.\<close>

function program_batches :: "(nat \<Rightarrow> env) \<Rightarrow> nat \<Rightarrow> nat \<Rightarrow> ProgramData list \<Rightarrow> EPGStoreImpl \<Rightarrow> EPGStoreImpl" where
  "program_batches e sz n ps s = (if ps = [] \<or> sz = 0 then s
     else program_batches e sz (n + 1) (drop sz ps) (BulkCreatePrograms (e n) (take sz ps) s))"
  by pat_completeness auto
termination
  by (relation "measure (\<lambda>(e, sz, n, ps, s). length ps)") auto

declare program_batches.simps [simp del]

definition refreshSource :: "epg_in \<Rightarrow> EPGSource \<Rightarrow> epg_service \<Rightarrow> error option \<times> epg_service" where
  "refreshSource e src s = (if \<not> shouldRefresh (ei_now e) src then (None, s)
     else case FetchConditional (ei_fetch e (if es_UseWireGuard src \<and> ev_wgClient s then ViaWireGuard else Direct)) (es_URL src) (es_ETag src) of
         Inl x \<Rightarrow> (Some (''fetching xmltv url: '' @ x), s)
       | Inr None \<Rightarrow> (None, s)
       | Inr (Some (body, etag)) \<Rightarrow>
           (let s1 = (if etag \<noteq> es_ETag src then s\<lparr>ev_sources := snd (EPGSourceStore_UpdateETag (ei_etag_env e) (es_ID src) etag (ev_sources s))\<rparr> else s)
            in case xmltv_Parse (ei_libs e) body of
                 Inl x \<Rightarrow> (Some (''parsing xmltv: '' @ x), s1)
               | Inr (chans, progs) \<Rightarrow> if chans = [] \<and> progs = [] then (None, s1)
                   else (let items = map (guide_channel (es_ID src)) chans;
                             g0 = fold (\<lambda>d. DeleteProgramsByEPGDataID (ed_ID d)) (EPG_ListBySourceID (es_ID src) (ev_guide s1)) (ev_guide s1);
                             g1 = DeleteBySourceID (es_ID src) g0;
                             g2 = BulkCreateEPGData (ei_data_env e) items g1;
                             saved = map (with_epg_id (ei_data_env e)) (enumerate 0 items);
                             programs = feed_programs (channelIDMap saved) progs;
                             g3 = program_batches (ei_prog_env e) (epg_batch_size s1) 0 programs g2;
                             s2 = s1\<lparr>ev_guide := g3\<rparr>;
                             src' = src\<lparr>es_LastRefreshed := Some (ei_done e), es_ChannelCount := int (length chans), es_ProgramCount := int (length programs)\<rparr>
                         in case EPGSourceStore_Update (ei_done_env e) src' (ev_sources s2) of
                              (Some x, ss) \<Rightarrow> (Some (''updating epg source: '' @ x), s2\<lparr>ev_sources := ss\<rparr>)
                            | (None, ss) \<Rightarrow> (None, s2\<lparr>ev_sources := ss\<rparr>))))"

definition epg_last_error :: "epg_in \<Rightarrow> ident \<Rightarrow> string \<Rightarrow> epg_service \<Rightarrow> epg_service" where
  "epg_last_error e i x s = s\<lparr>ev_sources := snd (EPGSourceStore_UpdateLastError (ei_error_env e) i x (ev_sources s))\<rparr>"

definition RefreshSource :: "epg_in \<Rightarrow> ident \<Rightarrow> epg_service \<Rightarrow> error option \<times> epg_service" where
  "RefreshSource e i s = (case EPGSourceStore_GetByID i (ev_sources s) of Inl x \<Rightarrow> (Some (''getting source: '' @ x), s)
     | Inr src \<Rightarrow> (case refreshSource e (src\<lparr>es_ETag := []\<rparr>) (epg_set i (running ''Refreshing...'' 0 0) s) of
           (Some x, s1) \<Rightarrow> (Some x, epg_set i \<lparr>rs_State = ''error'', rs_Message = x, rs_Total = 0, rs_Progress = 0\<rparr> (epg_last_error e (es_ID src) x s1))
         | (None, s1) \<Rightarrow> (None, epg_set i \<lparr>rs_State = ''done'', rs_Message = ''Refresh complete'', rs_Total = 0, rs_Progress = 0\<rparr>
               (epg_last_error e (es_ID src) [] s1))))"

fun refresh_sources :: "(nat \<Rightarrow> epg_in) \<Rightarrow> nat \<Rightarrow> EPGSource list \<Rightarrow> error option \<Rightarrow> epg_service \<Rightarrow> error option \<times> epg_service" where
  "refresh_sources e n [] lastErr s = (map_option (\<lambda>x. ''one or more sources failed to refresh: '' @ x) lastErr, s)"
| "refresh_sources e n (src # srcs) lastErr s = (if \<not> es_IsEnabled src then refresh_sources e (n + 1) srcs lastErr s
     else (case RefreshSource (e n) (es_ID src) s of (Some x, s1) \<Rightarrow> refresh_sources e (n + 1) srcs (Some x) s1
       | (None, s1) \<Rightarrow> refresh_sources e (n + 1) srcs lastErr s1))"

definition RefreshAllSources :: "(nat \<Rightarrow> epg_in) \<Rightarrow> epg_service \<Rightarrow> error option \<times> epg_service" where
  "RefreshAllSources e s = refresh_sources e 0 (EPGSourceStore_List (ev_sources s)) None s"

definition CreateSource :: "env \<Rightarrow> EPGSource \<Rightarrow> epg_service \<Rightarrow> error option \<times> epg_service" where
  "CreateSource e a s = (case EPGSourceStore_Create e a (ev_sources s) of (r, ss) \<Rightarrow> (map_option (\<lambda>x. ''creating epg source: '' @ x) r, s\<lparr>ev_sources := ss\<rparr>))"

definition GetSource :: "ident \<Rightarrow> epg_service \<Rightarrow> error + EPGSource" where
  "GetSource i s = wrap_error ''getting epg source: '' (EPGSourceStore_GetByID i (ev_sources s))"

definition UpdateSource :: "env \<Rightarrow> EPGSource \<Rightarrow> epg_service \<Rightarrow> error option \<times> epg_service" where
  "UpdateSource e a s = (case EPGSourceStore_Update e a (ev_sources s) of (r, ss) \<Rightarrow> (map_option (\<lambda>x. ''updating epg source: '' @ x) r, s\<lparr>ev_sources := ss\<rparr>))"

definition DeleteSource :: "env \<Rightarrow> ident \<Rightarrow> epg_service \<Rightarrow> error option \<times> epg_service" where
  "DeleteSource e i s = (let g0 = fold (\<lambda>d. DeleteProgramsByEPGDataID (ed_ID d)) (EPG_ListBySourceID i (ev_guide s)) (ev_guide s);
       s1 = s\<lparr>ev_guide := DeleteBySourceID i g0\<rparr>
     in case EPGSourceStore_Delete e i (ev_sources s1) of (r, ss) \<Rightarrow> (map_option (\<lambda>x. ''deleting epg source: '' @ x) r, s1\<lparr>ev_sources := ss\<rparr>))"

definition CleanupOrphanedEPGData :: "epg_service \<Rightarrow> epg_service" where
  "CleanupOrphanedEPGData s = s\<lparr>ev_guide := snd (DeleteOrphanedEPGData (map es_ID (EPGSourceStore_List (ev_sources s))) (ev_guide s))\<rparr>"

section \<open>Entries put in\<close>

lemma put_epg_data:
  assumes "epg_ok s" "ed_ID d \<notin> dom (map_of (ep_data s))"
  shows "map_of (ep_data (put_epg d s)) = (\<lambda>i. if i = ed_ID d then Some d else case map_of (ep_data s) i of None \<Rightarrow> None
      | Some d' \<Rightarrow> if ed_ChannelID d' = ed_ChannelID d then None else Some d')"
proof -
  let ?D = "map_of (ep_data s)" and ?C = "map_of (ep_byChannel s)"
  have m: "epg_maps ?D (map_of (ep_programs s)) (slice_at (ep_bySource s)) (slice_at (ep_progsBy s)) ?C" using assms(1) by (simp add: epg_ok_def)
  show ?thesis
  proof (cases "?C (ed_ChannelID d)")
    case None
    then have "ed_ChannelID d' \<noteq> ed_ChannelID d" if "?D i = Some d'" for i d' using that maps_channel [OF m] by (metis option.distinct(1))
    then show ?thesis using None by (fastforce simp: put_epg_def Let_def update_conv' fun_eq_iff split: option.split)
  next
    case (Some old)
    then obtain o' where o': "?D old = Some o'" "ed_ChannelID o' = ed_ChannelID d" using maps_channel [OF m] by blast
    have only: "i = old" if "?D i = Some d'" "ed_ChannelID d' = ed_ChannelID d" for i d' using maps_inj [OF m that(1) o'(1)] that(2) o'(2) by simp
    have u: "(?D(old := None)) i = (case ?D i of None \<Rightarrow> None | Some d' \<Rightarrow> if ed_ChannelID d' = ed_ChannelID d then None else Some d')" for i
    proof (cases "?D i")
      case (Some d')
      show ?thesis
      proof (cases "ed_ChannelID d' = ed_ChannelID d")
        case True then show ?thesis using only [OF Some] Some by simp
      next
        case False then have "i \<noteq> old" using Some o' by auto
        then show ?thesis using False Some by simp
      qed
    qed simp
    have "map_of (ep_data (put_epg d s)) = (?D(old := None))(ed_ID d \<mapsto> d)"
      using Some o' by (simp add: put_epg_def Let_def update_conv' delete_conv' del: fun_upd_apply)
    then show ?thesis unfolding fun_upd_def [of _ "ed_ID d"] u by simp
  qed
qed

lemma put_epg_progs: "slice_at (ep_progsBy s) i = [] \<Longrightarrow> slice_at (ep_progsBy (put_epg d s)) i = []"
  by (auto simp: put_epg_def Let_def split: option.split)

lemma put_epg_progs_kept:
  assumes "epg_ok s" "map_of (ep_data s) i = Some d'" "ed_ChannelID d' \<noteq> ed_ChannelID d"
  shows "programs_of (put_epg d s) i = programs_of s i"
proof -
  let ?D = "map_of (ep_data s)" and ?C = "map_of (ep_byChannel s)" and ?G = "slice_at (ep_progsBy s)" and ?P = "map_of (ep_programs s)"
  have m: "epg_maps ?D ?P (slice_at (ep_bySource s)) ?G ?C" using assms(1) by (simp add: epg_ok_def)
  show ?thesis
  proof (cases "?C (ed_ChannelID d)")
    case None then show ?thesis by (simp add: put_epg_def Let_def programs_of_def)
  next
    case (Some old)
    then obtain o' where o': "?D old = Some o'" "ed_ChannelID o' = ed_ChannelID d" using maps_channel [OF m] by blast
    then have "i \<noteq> old" using assms(2,3) by auto
    then have "set (?G i) \<inter> set (?G old) = {}" using m unfolding epg_maps_def by fastforce
    then have "List.map_filter (without_keys (set (?G old)) ?P) xs = List.map_filter ?P xs" if "set xs \<subseteq> set (?G i)" for xs
      using that by (induction xs) (auto simp: List.map_filter_simps without_keys_def split: option.split)
    then show ?thesis using Some o' \<open>i \<noteq> old\<close> by (simp add: put_epg_def Let_def programs_of_def)
  qed
qed

text \<open>All entries of a feed: the new ones, and the others whose channel the feed does not have.\<close>

lemma fold_put_epg:
  assumes "epg_ok s" "distinct (map ed_ID ds)" "distinct (map ed_ChannelID ds)" "\<forall>d \<in> set ds. ed_ID d \<notin> dom (map_of (ep_data s))"
  shows "(map_of (ep_data (fold put_epg ds s)) i = Some d \<longleftrightarrow> d \<in> set ds \<and> ed_ID d = i
      \<or> map_of (ep_data s) i = Some d \<and> ed_ChannelID d \<notin> ed_ChannelID ` set ds)
    \<and> (slice_at (ep_progsBy s) j = [] \<longrightarrow> slice_at (ep_progsBy (fold put_epg ds s)) j = [])
    \<and> (\<forall>x. map_of (ep_data s) k = Some x \<longrightarrow> ed_ChannelID x \<notin> ed_ChannelID ` set ds \<longrightarrow> programs_of (fold put_epg ds s) k = programs_of s k)"
  using assms
proof (induction ds arbitrary: s)
  case (Cons y ds)
  have y: "ed_ID y \<notin> dom (map_of (ep_data s))" using Cons.prems(4) by simp
  have ok: "epg_ok (put_epg y s)" and sub: "dom (map_of (ep_data (put_epg y s))) \<subseteq> insert (ed_ID y) (dom (map_of (ep_data s)))"
    using put_epg_ok [OF Cons.prems(1) y] by simp_all
  have "ed_ID x \<noteq> ed_ID y" if "x \<in> set ds" for x using Cons.prems(2) that by (auto simp: rev_image_eqI)
  then have fr: "\<forall>d \<in> set ds. ed_ID d \<notin> dom (map_of (ep_data (put_epg y s)))" using sub Cons.prems(4) by auto
  have ch: "ed_ChannelID y \<notin> ed_ChannelID ` set ds" using Cons.prems(3) by simp
  note D = put_epg_data [OF Cons.prems(1) y]
  note IH = Cons.IH [OF ok _ _ fr]
  have a: "map_of (ep_data (fold put_epg ds (put_epg y s))) i = Some d \<longleftrightarrow> d \<in> set ds \<and> ed_ID d = i
      \<or> map_of (ep_data (put_epg y s)) i = Some d \<and> ed_ChannelID d \<notin> ed_ChannelID ` set ds"
    using IH Cons.prems(2,3) by simp
  have b: "map_of (ep_data (put_epg y s)) i = Some d \<longleftrightarrow> i = ed_ID y \<and> d = y \<or> map_of (ep_data s) i = Some d \<and> ed_ChannelID d \<noteq> ed_ChannelID y"
    using y unfolding D by (auto split: option.split if_splits)
  have c: "programs_of (fold put_epg ds (put_epg y s)) k = programs_of s k"
    if "map_of (ep_data s) k = Some x" "ed_ChannelID x \<notin> ed_ChannelID ` set (y # ds)" for x
  proof -
    have n: "ed_ChannelID x \<noteq> ed_ChannelID y" using that(2) by auto
    have "k \<noteq> ed_ID y" using y that(1) by auto
    then have "map_of (ep_data (put_epg y s)) k = Some x" using that(1) n by (simp add: D)
    then show ?thesis using IH Cons.prems(2,3) that(2) put_epg_progs_kept [OF Cons.prems(1) that(1) n] by simp
  qed
  have e: "slice_at (ep_progsBy s) j = [] \<longrightarrow> slice_at (ep_progsBy (fold put_epg ds (put_epg y s))) j = []"
    using IH Cons.prems(2,3) put_epg_progs by simp
  show ?case using a b c e ch by auto
qed simp

section \<open>Programmes put in\<close>

lemma put_program_list:
  assumes "epg_ok s" "pd_ID p \<notin> dom (map_of (ep_programs s))"
  shows "programs_of (put_program p s) i = programs_of s i @ (if pd_EPGDataID p = i then [p] else [])"
proof -
  let ?P = "map_of (ep_programs s)" and ?G = "slice_at (ep_progsBy s)"
  have m: "epg_maps (map_of (ep_data s)) ?P (slice_at (ep_bySource s)) ?G (map_of (ep_byChannel s))" using assms(1) by (simp add: epg_ok_def)
  have "pd_ID p \<notin> set (?G i)" using m assms(2) unfolding epg_maps_def by blast
  then have "List.map_filter (?P(pd_ID p \<mapsto> p)) xs = List.map_filter ?P xs" if "set xs \<subseteq> set (?G i)" for xs
    using that by (induction xs) (auto simp: List.map_filter_simps split: option.split)
  then have "List.map_filter (?P(pd_ID p \<mapsto> p)) (?G i) = List.map_filter ?P (?G i)" by simp
  moreover have "List.map_filter f (xs @ [y]) = List.map_filter f xs @ (case f y of None \<Rightarrow> [] | Some z \<Rightarrow> [z])" for f :: "ident \<Rightarrow> ProgramData option" and xs y
    by (simp add: List.map_filter_def split: option.split)
  ultimately show ?thesis by (simp add: programs_of_def put_program_def update_conv' del: fun_upd_apply) (simp add: fun_upd_same)
qed

definition without_id :: "ProgramData \<Rightarrow> ProgramData" where
  "without_id p = p\<lparr>pd_ID := []\<rparr>"

lemma fold_put_program:
  "epg_ok s \<Longrightarrow> distinct (map pd_ID ps) \<Longrightarrow> \<forall>p \<in> set ps. pd_ID p \<notin> dom (map_of (ep_programs s)) \<Longrightarrow>
     programs_of (fold put_program ps s) i = programs_of s i @ filter (\<lambda>p. pd_EPGDataID p = i) ps
     \<and> dom (map_of (ep_programs (fold put_program ps s))) = pd_ID ` set ps \<union> dom (map_of (ep_programs s))
     \<and> ep_data (fold put_program ps s) = ep_data s \<and> ep_byChannel (fold put_program ps s) = ep_byChannel s"
proof (induction ps arbitrary: s)
  case (Cons p ps)
  have q: "epg_ok (put_program p s)" "dom (map_of (ep_programs (put_program p s))) = insert (pd_ID p) (dom (map_of (ep_programs s)))"
    using put_program_ok [OF Cons.prems(1)] Cons.prems(3) by auto
  then have "\<forall>x \<in> set ps. pd_ID x \<notin> dom (map_of (ep_programs (put_program p s)))"
    using Cons.prems(2,3) by (auto simp: rev_image_eqI)
  from Cons.IH [OF q(1) _ this] show ?case
    using Cons.prems put_program_list [of s p i] q(2) by (auto simp: put_program_def)
qed simp

text \<open>The identifiers that the calls of \<open>uuid.New\<close> give are distinct, and new.\<close>

definition fresh_ids :: "(nat \<Rightarrow> env) \<Rightarrow> nat \<Rightarrow> ident set \<Rightarrow> bool" where
  "fresh_ids e n used \<longleftrightarrow> inj (\<lambda>(m, k). e_uuid (e m) k) \<and> (\<forall>m k. m \<ge> n \<longrightarrow> e_uuid (e m) k \<notin> used)"

lemma without_id_same: "pd_ID p = [] \<Longrightarrow> without_id (with_prog_id e (k, p)) = p"
  by (cases p) (simp add: without_id_def with_prog_id_def)

lemma with_prog_ids:
  "\<forall>p \<in> set ps. pd_ID p = [] \<Longrightarrow> map pd_ID (map (with_prog_id e) (enumerate k ps)) = map (e_uuid e) [k..<k + length ps]
    \<and> map without_id (map (with_prog_id e) (enumerate k ps)) = ps"
proof (induction ps arbitrary: k)
  case (Cons p ps)
  have u: "[k..<k + length (p # ps)] = k # [Suc k..<Suc k + length ps]" using upt_conv_Cons [of k "k + length (p # ps)"] by simp
  have i: "pd_ID (with_prog_id e (k, p)) = e_uuid e k" "without_id (with_prog_id e (k, p)) = p"
    using Cons.prems without_id_same [of p e k] by (simp_all add: with_prog_id_def)
  have l: "map (with_prog_id e) (enumerate k (p # ps)) = with_prog_id e (k, p) # map (with_prog_id e) (enumerate (Suc k) ps)" by simp
  have "\<forall>p \<in> set ps. pd_ID p = []" using Cons.prems by simp
  from Cons.IH [OF this, of "Suc k"] show ?case unfolding l u list.map i by blast
qed simp

lemma fresh_idsD: "fresh_ids e n U \<Longrightarrow> m \<ge> n \<Longrightarrow> e_uuid (e m) k \<notin> U"
  by (simp add: fresh_ids_def)

lemma filter_without_id: "map without_id (filter (\<lambda>p. pd_EPGDataID p = i) ps) = filter (\<lambda>p. pd_EPGDataID p = i) (map without_id ps)"
  by (induction ps) (simp_all add: without_id_def)

lemma bump_programs: "programs_of (epg_bump s) = programs_of s" "ep_programs (epg_bump s) = ep_programs s" "ep_data (epg_bump s) = ep_data s"
  "ep_byChannel (epg_bump s) = ep_byChannel s" "ep_progsBy (epg_bump s) = ep_progsBy s" "ep_bySource (epg_bump s) = ep_bySource s"
  by (simp_all add: epg_bump_def programs_of_def [abs_def])

lemma program_batch:
  assumes s: "epg_ok s" and ps: "\<forall>p \<in> set ps. pd_ID p = []" and e: "fresh_ids e n (dom (map_of (ep_programs s)))"
  defines "s' \<equiv> BulkCreatePrograms (e n) ps s"
  shows "epg_ok s'" "fresh_ids e (n + 1) (dom (map_of (ep_programs s')))" "ep_data s' = ep_data s" "ep_byChannel s' = ep_byChannel s"
    "map without_id (programs_of s' i) = map without_id (programs_of s i) @ filter (\<lambda>p. pd_EPGDataID p = i) ps"
proof -
  let ?ps = "map (with_prog_id (e n)) (enumerate 0 ps)"
  have w: "map pd_ID ?ps = map (e_uuid (e n)) [0..<length ps]" "map without_id ?ps = ps" using with_prog_ids [OF ps, of "e n" 0] by simp_all
  have inj: "(e_uuid (e m) k = e_uuid (e m') k') = (m = m' \<and> k = k')" for m k m' k'
    using e by (auto simp: fresh_ids_def inj_on_def)
  have d: "distinct (map pd_ID ?ps)" unfolding w(1) by (simp add: distinct_map inj_on_def inj)
  have ids: "pd_ID ` set ?ps = e_uuid (e n) ` {0..<length ps}" using w(1) by (metis list.set_map set_upt)
  have f: "\<forall>p \<in> set ?ps. pd_ID p \<notin> dom (map_of (ep_programs s))"
  proof
    fix p assume "p \<in> set ?ps"
    then obtain k where "pd_ID p = e_uuid (e n) k" using ids by blast
    then show "pd_ID p \<notin> dom (map_of (ep_programs s))" using fresh_idsD [OF e] by simp
  qed
  note r = fold_put_program [OF s d f]
  show "epg_ok s'" using fold_put_program_ok [OF s d f] by (simp add: s'_def BulkCreatePrograms_def)
  show "ep_data s' = ep_data s" "ep_byChannel s' = ep_byChannel s" using r by (simp_all add: s'_def BulkCreatePrograms_def bump_programs)
  show "map without_id (programs_of s' i) = map without_id (programs_of s i) @ filter (\<lambda>p. pd_EPGDataID p = i) ps"
    using r [of i] by (simp add: s'_def BulkCreatePrograms_def bump_programs filter_without_id w(2) del: map_map)
  have "dom (map_of (ep_programs s')) = e_uuid (e n) ` {0..<length ps} \<union> dom (map_of (ep_programs s))"
    using r ids by (simp add: s'_def BulkCreatePrograms_def bump_programs)
  then show "fresh_ids e (n + 1) (dom (map_of (ep_programs s')))" using e by (auto simp: fresh_ids_def inj)
qed

lemma program_batches_all:
  assumes "epg_ok s" "\<forall>p \<in> set ps. pd_ID p = []" "fresh_ids e n (dom (map_of (ep_programs s)))" "0 < sz"
  shows "epg_ok (program_batches e sz n ps s) \<and> ep_data (program_batches e sz n ps s) = ep_data s
    \<and> ep_byChannel (program_batches e sz n ps s) = ep_byChannel s
    \<and> map without_id (programs_of (program_batches e sz n ps s) i) = map without_id (programs_of s i) @ filter (\<lambda>p. pd_EPGDataID p = i) ps"
  using assms
proof (induction e sz n ps s rule: program_batches.induct)
  case (1 e sz n ps s)
  show ?case
  proof (cases "ps = []")
    case True then show ?thesis using 1(2) by (simp add: program_batches.simps)
  next
    case False
    have t: "\<forall>p \<in> set (take sz ps). pd_ID p = []" "\<forall>p \<in> set (drop sz ps). pd_ID p = []" using 1(3) by (auto dest: in_set_takeD in_set_dropD)
    note b = program_batch [OF 1(2) t(1) 1(4)]
    have u: "program_batches e sz n ps s = program_batches e sz (n + 1) (drop sz ps) (BulkCreatePrograms (e n) (take sz ps) s)"
      using False 1(5) by (subst program_batches.simps) simp
    have f: "filter P ps = filter P (take sz ps) @ filter P (drop sz ps)" for P by (metis append_take_drop_id filter_append)
    have "epg_ok (program_batches e sz n ps s) \<and> ep_data (program_batches e sz n ps s) = ep_data s \<and> ep_byChannel (program_batches e sz n ps s) = ep_byChannel s
      \<and> map without_id (programs_of (program_batches e sz n ps s) i)
          = (map without_id (programs_of s i) @ filter (\<lambda>p. pd_EPGDataID p = i) (take sz ps)) @ filter (\<lambda>p. pd_EPGDataID p = i) (drop sz ps)"
      unfolding u using 1(1) [OF _ b(1) t(2) b(2) 1(5)] False 1(5) b(3,4,5) by simp
    then show ?thesis unfolding f [of "\<lambda>p. pd_EPGDataID p = i"] by simp
  qed
qed

section \<open>Entries taken out\<close>

lemma programs_of_drop:
  assumes "epg_maps D (map_of (ep_programs s)) S (slice_at (ep_progsBy s)) C" "k \<noteq> i"
  shows "programs_of (drop_programs i s) k = programs_of s k"
proof -
  let ?P = "map_of (ep_programs s)" and ?G = "slice_at (ep_progsBy s)"
  have "set (?G k) \<inter> set (?G i) = {}" using assms unfolding epg_maps_def by fastforce
  then have "List.map_filter (without_keys (set (?G i)) ?P) xs = List.map_filter ?P xs" if "set xs \<subseteq> set (?G k)" for xs
    using that by (induction xs) (auto simp: List.map_filter_simps without_keys_def split: option.split)
  then show ?thesis using assms(2) by (simp add: programs_of_def)
qed

lemma drop_programs_ok: "epg_ok s \<Longrightarrow> epg_ok (drop_programs i s)"
  by (simp add: epg_ok_def drop_programs_keys maps_drop_programs)

lemma drop_programs_dom: "dom (map_of (ep_programs (drop_programs i s))) \<subseteq> dom (map_of (ep_programs s))"
  by (auto simp: without_keys_def split: if_splits)

text \<open>What a step that only takes programmes and entries out keeps: \<open>X\<close> are the entries it is about.\<close>

definition takes_out :: "ident set \<Rightarrow> EPGStoreImpl \<Rightarrow> EPGStoreImpl \<Rightarrow> bool" where
  "takes_out X s s' \<longleftrightarrow> dom (map_of (ep_programs s')) \<subseteq> dom (map_of (ep_programs s))
     \<and> (\<forall>k. slice_at (ep_progsBy s) k = [] \<longrightarrow> slice_at (ep_progsBy s') k = []) \<and> (\<forall>k. k \<notin> X \<longrightarrow> programs_of s' k = programs_of s k)"

lemma takes_out_refl: "takes_out X s s" by (simp add: takes_out_def)

lemma takes_out_trans: "takes_out X s s' \<Longrightarrow> takes_out X s' s'' \<Longrightarrow> takes_out X s s''"
  unfolding takes_out_def by (metis subset_trans)

lemma takes_out_drop:
  assumes "epg_maps D (map_of (ep_programs s)) S (slice_at (ep_progsBy s)) C" "i \<in> X"
  shows "takes_out X s (drop_programs i s)"
  unfolding takes_out_def
proof (intro conjI allI impI)
  fix k assume "k \<notin> X"
  then have "k \<noteq> i" using assms(2) by auto
  then show "programs_of (drop_programs i s) k = programs_of s k" by (rule programs_of_drop [OF assms(1)])
qed (auto simp: without_keys_def split: if_splits)

lemma delete_programs_fold:
  "epg_ok s \<Longrightarrow> ed_ID ` set ds \<subseteq> X \<Longrightarrow> epg_ok (fold (\<lambda>d. DeleteProgramsByEPGDataID (ed_ID d)) ds s)
    \<and> ep_data (fold (\<lambda>d. DeleteProgramsByEPGDataID (ed_ID d)) ds s) = ep_data s \<and> takes_out X s (fold (\<lambda>d. DeleteProgramsByEPGDataID (ed_ID d)) ds s)"
proof (induction ds arbitrary: s)
  case (Cons d ds)
  let ?s1 = "DeleteProgramsByEPGDataID (ed_ID d) s"
  have ok: "epg_ok ?s1" using Cons.prems(1) by (simp add: DeleteProgramsByEPGDataID_def drop_programs_ok)
  have "takes_out X s (drop_programs (ed_ID d) s)" using takes_out_drop Cons.prems unfolding epg_ok_def by fastforce
  then have t: "takes_out X s ?s1" by (simp add: DeleteProgramsByEPGDataID_def takes_out_def bump_programs)
  show ?case using Cons.IH [OF ok] Cons.prems(2) t takes_out_trans [OF t] by (simp add: DeleteProgramsByEPGDataID_def bump_programs)
qed (simp add: takes_out_refl)

lemma drop_epg_takes_out:
  assumes "epg_ok_at src (i # is) s" "i \<in> X"
  shows "takes_out X s (drop_epg i s)"
proof -
  define s1 where "s1 = (case map_of (ep_data s) i of None \<Rightarrow> s | Some d \<Rightarrow> s\<lparr>ep_byChannel := AList.delete (ed_ChannelID d) (ep_byChannel s)\<rparr>)
     \<lparr>ep_data := AList.delete i (ep_data (case map_of (ep_data s) i of None \<Rightarrow> s | Some d \<Rightarrow> s\<lparr>ep_byChannel := AList.delete (ed_ChannelID d) (ep_byChannel s)\<rparr>))\<rparr>"
  have e: "drop_epg i s = drop_programs i s1" by (simp add: drop_epg_def Let_def s1_def)
  have same: "ep_programs s1 = ep_programs s" "ep_progsBy s1 = ep_progsBy s" by (simp_all add: s1_def split: option.split)
  have "epg_maps (map_of (ep_data s)) (map_of (ep_programs s1)) ((slice_at (ep_bySource s))(src := i # is)) (slice_at (ep_progsBy s1)) (map_of (ep_byChannel s))"
    using assms(1) by (simp add: epg_ok_at_def same)
  from takes_out_drop [OF this assms(2)] show ?thesis unfolding e by (simp add: takes_out_def same programs_of_def)
qed

lemma fold_drop_takes_out: "epg_ok_at src is s \<Longrightarrow> set is \<subseteq> X \<Longrightarrow> takes_out X s (fold drop_epg is s)"
proof (induction "is" arbitrary: s)
  case (Cons i "is")
  then show ?case using drop_epg_at [OF Cons.prems(1)] drop_epg_takes_out [OF Cons.prems(1), of X] takes_out_trans by fastforce
qed (simp add: takes_out_refl)

lemma DeleteBySourceID_takes_out:
  assumes "epg_ok s"
  shows "takes_out {i. \<exists>d. map_of (ep_data s) i = Some d \<and> ed_SourceID d = src} s (DeleteBySourceID src s)"
proof -
  have "set (slice_at (ep_bySource s) src) = {i. \<exists>d. map_of (ep_data s) i = Some d \<and> ed_SourceID d = src}"
    using assms maps_source unfolding epg_ok_def by blast
  then have "takes_out {i. \<exists>d. map_of (ep_data s) i = Some d \<and> ed_SourceID d = src} s (fold drop_epg (slice_at (ep_bySource s) src) s)"
    using fold_drop_takes_out [of src "slice_at (ep_bySource s) src" s] assms by (simp add: epg_ok_at_self)
  then show ?thesis by (simp add: DeleteBySourceID_def Let_def takes_out_def bump_programs programs_of_def)
qed

section \<open>What a refresh gives\<close>

text \<open>The new entries of a feed and their place in the map from channels to entries.\<close>

lemma with_epg_ids:
  "\<forall>d \<in> set ds. ed_ID d = [] \<Longrightarrow> map ed_ID (map (with_epg_id e) (enumerate k ds)) = map (e_uuid e) [k..<k + length ds]
    \<and> map (\<lambda>d. d\<lparr>ed_ID := []\<rparr>) (map (with_epg_id e) (enumerate k ds)) = ds"
proof (induction ds arbitrary: k)
  case (Cons d ds)
  have u: "[k..<k + length (d # ds)] = k # [Suc k..<Suc k + length ds]" using upt_conv_Cons [of k "k + length (d # ds)"] by simp
  have i: "ed_ID (with_epg_id e (k, d)) = e_uuid e k" "(with_epg_id e (k, d))\<lparr>ed_ID := []\<rparr> = d"
    using Cons.prems by (cases d, simp add: with_epg_id_def)+
  have l: "map (with_epg_id e) (enumerate k (d # ds)) = with_epg_id e (k, d) # map (with_epg_id e) (enumerate (Suc k) ds)" by simp
  have "\<forall>d \<in> set ds. ed_ID d = []" using Cons.prems by simp
  from Cons.IH [OF this, of "Suc k"] show ?case unfolding l u list.map i by blast
qed simp

definition saved_entries :: "env \<Rightarrow> ident \<Rightarrow> XmltvChannel list \<Rightarrow> EPGData list" where
  "saved_entries e src chans = map (with_epg_id e) (enumerate 0 (map (guide_channel src) chans))"

lemma saved_entries_spec:
  assumes "inj (e_uuid e)"
  shows "map (\<lambda>d. d\<lparr>ed_ID := []\<rparr>) (saved_entries e src chans) = map (guide_channel src) chans"
    "distinct (map ed_ID (saved_entries e src chans))" "set (map ed_ID (saved_entries e src chans)) \<subseteq> range (e_uuid e)"
    "map ed_ChannelID (saved_entries e src chans) = map tc_ID chans" "\<forall>d \<in> set (saved_entries e src chans). ed_SourceID d = src"
proof -
  have z: "\<forall>d \<in> set (map (guide_channel src) chans). ed_ID d = []" by (simp add: guide_channel_def)
  note w = with_epg_ids [OF z, of e 0, folded saved_entries_def]
  show 1: "map (\<lambda>d. d\<lparr>ed_ID := []\<rparr>) (saved_entries e src chans) = map (guide_channel src) chans" using w by simp
  have "map ed_ID (saved_entries e src chans) = map (e_uuid e) [0..<length chans]" using w by simp
  then show "distinct (map ed_ID (saved_entries e src chans))" "set (map ed_ID (saved_entries e src chans)) \<subseteq> range (e_uuid e)"
    using assms by (auto simp: distinct_map inj_on_def inj_def simp del: upt_Suc)
  have f: "ed_ChannelID (d\<lparr>ed_ID := []\<rparr>) = ed_ChannelID d" "ed_SourceID (d\<lparr>ed_ID := []\<rparr>) = ed_SourceID d" for d by simp_all
  have "map ed_ChannelID (map (\<lambda>d. d\<lparr>ed_ID := []\<rparr>) (saved_entries e src chans)) = map tc_ID chans" unfolding 1 by (simp add: guide_channel_def)
  then show "map ed_ChannelID (saved_entries e src chans) = map tc_ID chans" by (simp add: comp_def)
  have "map ed_SourceID (map (\<lambda>d. d\<lparr>ed_ID := []\<rparr>) (saved_entries e src chans)) = map (\<lambda>_. src) chans" unfolding 1 by (simp add: guide_channel_def)
  then have "set (map ed_SourceID (saved_entries e src chans)) \<subseteq> {src}" by (auto simp: comp_def)
  then show "\<forall>d \<in> set (saved_entries e src chans). ed_SourceID d = src" by auto
qed

lemma channelIDMap_entry:
  "distinct (map ed_ChannelID ds) \<Longrightarrow> channelIDMap ds c = Some i \<longleftrightarrow> (\<exists>d \<in> set ds. ed_ChannelID d = c \<and> ed_ID d = i)"
  unfolding channelIDMap_def by (subst map_of_eq_Some_iff) (auto simp: rev_map [symmetric] comp_def)

lemma feed_programs_of:
  assumes "channelIDMap ds c = Some i" "\<And>c'. channelIDMap ds c' = Some i \<Longrightarrow> c' = c"
  shows "filter (\<lambda>p. pd_EPGDataID p = i) (feed_programs (channelIDMap ds) ps) = map (programme_of i) (filter (\<lambda>p. tp_Channel p = c) ps)"
  unfolding feed_programs_def
proof (induction ps)
  case (Cons p ps)
  show ?case
  proof (cases "channelIDMap ds (tp_Channel p)")
    case None
    then have "tp_Channel p \<noteq> c" using assms(1) by auto
    then show ?thesis using Cons.IH None by (simp add: List.map_filter_simps)
  next
    case (Some j)
    have "j = i \<longleftrightarrow> tp_Channel p = c" using assms(1) assms(2) [of "tp_Channel p"] Some by auto
    then show ?thesis using Cons.IH Some by (simp add: List.map_filter_simps programme_of_def)
  qed
qed (simp add: List.map_filter_simps)

text \<open>The guide that a refresh writes.\<close>

definition new_guide :: "epg_in \<Rightarrow> nat \<Rightarrow> ident \<Rightarrow> XmltvChannel list \<Rightarrow> Programme list \<Rightarrow> EPGStoreImpl \<Rightarrow> EPGStoreImpl" where
  "new_guide e sz src chans progs g =
     (let g0 = fold (\<lambda>d. DeleteProgramsByEPGDataID (ed_ID d)) (EPG_ListBySourceID src g) g;
          g1 = DeleteBySourceID src g0
      in program_batches (ei_prog_env e) sz 0 (feed_programs (channelIDMap (saved_entries (ei_data_env e) src chans)) progs)
           (BulkCreateEPGData (ei_data_env e) (map (guide_channel src) chans) g1))"

definition fresh_inputs :: "epg_in \<Rightarrow> EPGStoreImpl \<Rightarrow> bool" where
  "fresh_inputs e g \<longleftrightarrow> inj (e_uuid (ei_data_env e)) \<and> (\<forall>k. e_uuid (ei_data_env e) k \<notin> dom (map_of (ep_data g)) \<and> slice_at (ep_progsBy g) (e_uuid (ei_data_env e) k) = [])
     \<and> fresh_ids (ei_prog_env e) 0 (dom (map_of (ep_programs g)))"

lemma fresh_ids_mono: "fresh_ids e n U \<Longrightarrow> V \<subseteq> U \<Longrightarrow> fresh_ids e n V"
  by (auto simp: fresh_ids_def)

lemma put_epg_dom: "dom (map_of (ep_programs (put_epg d s))) \<subseteq> dom (map_of (ep_programs s))"
proof -
  have w: "dom (without_keys X m) \<subseteq> dom m" for X and m :: "ident \<Rightarrow> ProgramData option" by (auto simp: without_keys_def split: if_splits)
  show ?thesis
  proof (cases "map_of (ep_byChannel s) (ed_ChannelID d)")
    case None then show ?thesis by (simp add: put_epg_def)
  next
    case (Some old)
    show ?thesis
    proof (cases "map_of (ep_data s) old")
      case None
      then have "ep_programs (put_epg d s) = ep_programs s" using Some by (simp add: put_epg_def Let_def)
      then show ?thesis by (rule equalityD1 [OF arg_cong])
    next
      case (Some o')
      then have "map_of (ep_programs (put_epg d s)) = without_keys (set (slice_at (ep_progsBy s) old)) (map_of (ep_programs s))"
        using \<open>map_of (ep_byChannel s) (ed_ChannelID d) = Some old\<close> by (simp add: put_epg_def Let_def)
      then show ?thesis using w [of "set (slice_at (ep_progsBy s) old)" "map_of (ep_programs s)"] by (simp only:)
    qed
  qed
qed

lemma fold_put_epg_dom: "dom (map_of (ep_programs (fold put_epg ds s))) \<subseteq> dom (map_of (ep_programs s))"
proof (induction ds arbitrary: s)
  case (Cons d ds)
  have "fold put_epg (d # ds) s = fold put_epg ds (put_epg d s)" by simp
  then show ?case using subset_trans [OF Cons.IH put_epg_dom] by (simp only:)
qed simp

lemma listed_entries:
  assumes "epg_ok g"
  shows "ed_ID ` set (EPG_ListBySourceID src g) \<subseteq> {i. \<exists>d. map_of (ep_data g) i = Some d \<and> ed_SourceID d = src}"
proof
  fix i assume "i \<in> ed_ID ` set (EPG_ListBySourceID src g)"
  then obtain j d where d: "j \<in> set (slice_at (ep_bySource g) src)" "map_of (ep_data g) j = Some d" "ed_ID d = i"
    by (auto simp: EPG_ListBySourceID_def map_filter_set)
  then have "ed_ID d = j" "\<exists>d. map_of (ep_data g) j = Some d \<and> ed_SourceID d = src"
    using assms unfolding epg_ok_def epg_maps_def by blast+
  then show "i \<in> {i. \<exists>d. map_of (ep_data g) i = Some d \<and> ed_SourceID d = src}" using d by auto
qed

lemma cleared_guide:
  fixes src :: ident
  assumes "epg_ok g"
  defines "g1 \<equiv> DeleteBySourceID src (fold (\<lambda>d. DeleteProgramsByEPGDataID (ed_ID d)) (EPG_ListBySourceID src g) g)"
  shows "epg_ok g1" "map_of (ep_data g1) j = Some d \<longleftrightarrow> map_of (ep_data g) j = Some d \<and> ed_SourceID d \<noteq> src"
    "takes_out {i. \<exists>d. map_of (ep_data g) i = Some d \<and> ed_SourceID d = src} g g1"
proof -
  let ?X = "{i. \<exists>d. map_of (ep_data g) i = Some d \<and> ed_SourceID d = src}"
  let ?g0 = "fold (\<lambda>d. DeleteProgramsByEPGDataID (ed_ID d)) (EPG_ListBySourceID src g) g"
  have g0: "epg_ok ?g0" "ep_data ?g0 = ep_data g" "takes_out ?X g ?g0"
    using delete_programs_fold [OF assms(1) listed_entries [OF assms(1)]] by simp_all
  show "epg_ok g1" unfolding g1_def by (rule DeleteBySourceID_ok [OF g0(1)])
  show "map_of (ep_data g1) j = Some d \<longleftrightarrow> map_of (ep_data g) j = Some d \<and> ed_SourceID d \<noteq> src"
    unfolding g1_def DeleteBySourceID_ok(2) [OF g0(1)] g0(2) by (auto split: option.split)
  have "takes_out ?X ?g0 g1" using DeleteBySourceID_takes_out [OF g0(1), of src] by (simp add: g0(2) g1_def)
  then show "takes_out ?X g g1" using g0(3) takes_out_trans by blast
qed

lemma new_guide_spec:
  fixes src :: ident and progs :: "Programme list"
  assumes "epg_ok g" and fr: "fresh_inputs e g" and dist: "distinct (map tc_ID chans)" and sz: "0 < sz"
  defines "g' \<equiv> new_guide e sz src chans progs g" and "ds \<equiv> saved_entries (ei_data_env e) src chans"
  shows "epg_ok g'"
    and "map_of (ep_data g') j = Some d \<longleftrightarrow> d \<in> set ds \<and> ed_ID d = j
       \<or> map_of (ep_data g) j = Some d \<and> ed_SourceID d \<noteq> src \<and> ed_ChannelID d \<notin> tc_ID ` set chans"
    and "d \<in> set ds \<Longrightarrow> map without_id (programs_of g' (ed_ID d)) = map (programme_of (ed_ID d)) (filter (\<lambda>p. tp_Channel p = ed_ChannelID d) progs)"
    and "map_of (ep_data g) j = Some d \<Longrightarrow> ed_SourceID d \<noteq> src \<Longrightarrow> ed_ChannelID d \<notin> tc_ID ` set chans
       \<Longrightarrow> map without_id (programs_of g' j) = map without_id (programs_of g j)"
proof -
  let ?X = "{i. \<exists>d. map_of (ep_data g) i = Some d \<and> ed_SourceID d = src}" and ?e = "ei_data_env e"
  define g1 where "g1 = DeleteBySourceID src (fold (\<lambda>d. DeleteProgramsByEPGDataID (ed_ID d)) (EPG_ListBySourceID src g) g)"
  define g2 where "g2 = BulkCreateEPGData ?e (map (guide_channel src) chans) g1"
  define ps where "ps = feed_programs (channelIDMap ds) progs"
  have g': "g' = program_batches (ei_prog_env e) sz 0 ps g2" by (simp add: g'_def new_guide_def g1_def g2_def ps_def ds_def Let_def)
  have inj: "inj (e_uuid ?e)" and new: "\<And>k. e_uuid ?e k \<notin> dom (map_of (ep_data g))" "\<And>k. slice_at (ep_progsBy g) (e_uuid ?e k) = []"
    and pf: "fresh_ids (ei_prog_env e) 0 (dom (map_of (ep_programs g)))" using fr by (simp_all add: fresh_inputs_def)
  note sv = saved_entries_spec [OF inj, of src chans, folded ds_def]
  have g1: "epg_ok g1" "\<And>j d. map_of (ep_data g1) j = Some d \<longleftrightarrow> map_of (ep_data g) j = Some d \<and> ed_SourceID d \<noteq> src" "takes_out ?X g g1"
    using cleared_guide [OF assms(1), of src, folded g1_def] by simp_all
  have uuid: "\<exists>k. ed_ID x = e_uuid ?e k" if "x \<in> set ds" for x using sv(3) that by auto
  have fresh: "\<forall>x \<in> set ds. ed_ID x \<notin> dom (map_of (ep_data g1))"
  proof
    fix x assume "x \<in> set ds"
    then obtain k where "ed_ID x = e_uuid ?e k" using uuid by blast
    then show "ed_ID x \<notin> dom (map_of (ep_data g1))" using new(1) [of k] g1(2) [of "ed_ID x"] by (auto simp: dom_def)
  qed
  have dch: "distinct (map ed_ChannelID ds)" using sv(4) dist by simp
  have g2e: "g2 = epg_bump (fold put_epg ds g1)" by (simp add: g2_def BulkCreateEPGData_def ds_def saved_entries_def)
  note put = fold_put_epg [OF g1(1) sv(2) dch fresh]
  have ok2: "epg_ok g2" unfolding g2e epg_bump_ok by (rule fold_put_epg_ok [OF g1(1) sv(2) fresh])
  have chs: "ed_ChannelID ` set ds = tc_ID ` set chans" using sv(4) by (metis list.set_map)
  have pd: "\<forall>p \<in> set ps. pd_ID p = []" by (auto simp: ps_def feed_programs_def map_filter_set programme_of_def)
  have "dom (map_of (ep_programs g2)) \<subseteq> dom (map_of (ep_programs g))"
    using fold_put_epg_dom [of ds g1] g1(3) unfolding g2e by (auto simp: takes_out_def bump_programs simp del: domIff)
  note b = program_batches_all [OF ok2 pd fresh_ids_mono [OF pf this] sz, folded g']
  show "epg_ok g'" using b by simp
  have data: "map_of (ep_data g') j = Some d \<longleftrightarrow> d \<in> set ds \<and> ed_ID d = j \<or> map_of (ep_data g1) j = Some d \<and> ed_ChannelID d \<notin> ed_ChannelID ` set ds" for j d
    using b put [of j d] by (simp add: g2e bump_programs)
  then show "map_of (ep_data g') j = Some d \<longleftrightarrow> d \<in> set ds \<and> ed_ID d = j
       \<or> map_of (ep_data g) j = Some d \<and> ed_SourceID d \<noteq> src \<and> ed_ChannelID d \<notin> tc_ID ` set chans" unfolding chs g1(2) by blast
  show "map without_id (programs_of g' (ed_ID d)) = map (programme_of (ed_ID d)) (filter (\<lambda>p. tp_Channel p = ed_ChannelID d) progs)" if d: "d \<in> set ds"
  proof -
    obtain k where k: "ed_ID d = e_uuid ?e k" using uuid [OF d] by blast
    have "slice_at (ep_progsBy g1) (ed_ID d) = []" using new(2) [of k] g1(3) by (simp add: takes_out_def k)
    then have z: "programs_of g2 (ed_ID d) = []" using put by (simp add: g2e bump_programs programs_of_def List.map_filter_simps)
    have c: "channelIDMap ds (ed_ChannelID d) = Some (ed_ID d)" using channelIDMap_entry [OF dch] d by blast
    have only: "c' = ed_ChannelID d" if "channelIDMap ds c' = Some (ed_ID d)" for c'
      using that d sv(2) unfolding channelIDMap_entry [OF dch] by (metis distinct_map inj_on_def)
    have "map without_id (programs_of g' (ed_ID d)) = map without_id (programs_of g2 (ed_ID d)) @ filter (\<lambda>p. pd_EPGDataID p = ed_ID d) ps"
      using b [of "ed_ID d"] by blast
    also have "\<dots> = filter (\<lambda>p. pd_EPGDataID p = ed_ID d) (feed_programs (channelIDMap ds) progs)" by (simp add: z ps_def)
    finally show ?thesis using feed_programs_of [OF c only, of progs] by (simp only:)
  qed
  show "map without_id (programs_of g' j) = map without_id (programs_of g j)"
    if j: "map_of (ep_data g) j = Some d" "ed_SourceID d \<noteq> src" "ed_ChannelID d \<notin> tc_ID ` set chans"
  proof -
    have "pd_EPGDataID p \<noteq> j" if "p \<in> set ps" for p
    proof -
      obtain c i q where "channelIDMap ds c = Some i" "p = programme_of i q" using \<open>p \<in> set ps\<close> by (auto simp: ps_def feed_programs_def map_filter_set)
      then obtain x where "x \<in> set ds" "pd_EPGDataID p = ed_ID x" unfolding channelIDMap_entry [OF dch] by (auto simp: programme_of_def)
      then show ?thesis using uuid new(1) j(1) by (metis domI)
    qed
    then have f: "filter (\<lambda>p. pd_EPGDataID p = j) ps = []" by (simp add: filter_empty_conv)
    have "programs_of g2 j = programs_of g1 j" using put j g1(2) chs by (simp add: g2e bump_programs)
    also have "\<dots> = programs_of g j" using g1(3) j(1,2) by (auto simp: takes_out_def)
    finally show ?thesis using b [of j] f by simp
  qed
qed

lemma source_found: "EPGSourceStore_GetByID i ss = Inr a \<Longrightarrow> es_ID a = i \<and> a \<in> set ss"
  by (auto simp: EPGSourceStore_GetByID_def not_found_def find_Some_iff split: option.splits)

lemma epg_set_fields: "ev_guide (epg_set i st s) = ev_guide s" "ev_sources (epg_set i st s) = ev_sources s" "ev_batchSize (epg_set i st s) = ev_batchSize s"
  "ev_guide (epg_last_error e i x s) = ev_guide s"
  by (simp_all add: epg_set_def epg_last_error_def)

lemma epg_batch_pos: "0 < epg_batch_size s"
  by (simp add: epg_batch_size_def split: option.split)

text \<open>The source as it is written at the end of a refresh.\<close>

definition refreshed_source :: "epg_in \<Rightarrow> EPGSource \<Rightarrow> XmltvChannel list \<Rightarrow> ProgramData list \<Rightarrow> EPGSource" where
  "refreshed_source e src chans ps = src\<lparr>es_LastRefreshed := Some (ei_done e), es_ChannelCount := int (length chans), es_ProgramCount := int (length ps)\<rparr>"

lemma refreshSource_run:
  assumes "es_ID src \<in> es_ID ` set (ev_sources s)" "shouldRefresh (ei_now e) src" "\<forall>r. ei_fetch e r (es_URL src) (es_ETag src) = Reply 200 tag (Inr body)"
    "xmltv_Parse (ei_libs e) body = Inr (chans, progs)" "chans \<noteq> []" "e_save (ei_done_env e) = None"
  defines "ss \<equiv> (if tag \<noteq> es_ETag src then snd (EPGSourceStore_UpdateETag (ei_etag_env e) (es_ID src) tag (ev_sources s)) else ev_sources s)"
  shows "refreshSource e src s = (None, s\<lparr>ev_guide := new_guide e (epg_batch_size s) (es_ID src) chans progs (ev_guide s),
     ev_sources := snd (EPGSourceStore_Update (ei_done_env e)
       (refreshed_source e src chans (feed_programs (channelIDMap (saved_entries (ei_data_env e) (es_ID src) chans)) progs)) ss)\<rparr>)"
proof -
  have "map es_ID ss = map es_ID (ev_sources s)" by (simp add: ss_def epg_etag.update_keys)
  then have "es_ID src \<in> es_ID ` set ss" using assms(1) by (metis list.set_map)
  then have u: "fst (EPGSourceStore_Update (ei_done_env e) (refreshed_source e src chans ps) ss) = None" for ps
    using epg_source.update_succeeds [of "refreshed_source e src chans ps" ss "ei_done_env e"] assms(6) by (simp add: refreshed_source_def)
  have f: "FetchConditional (ei_fetch e r) (es_URL src) (es_ETag src) = Inr (Some (body, tag))" for r
    using assms(3) by (simp add: FetchConditional_def)
  have s1: "(if tag \<noteq> es_ETag src then s\<lparr>ev_sources := snd (EPGSourceStore_UpdateETag (ei_etag_env e) (es_ID src) tag (ev_sources s))\<rparr> else s) = s\<lparr>ev_sources := ss\<rparr>"
    by (simp add: ss_def)
  define ps where "ps = feed_programs (channelIDMap (saved_entries (ei_data_env e) (es_ID src) chans)) progs"
  obtain ss' where ss': "EPGSourceStore_Update (ei_done_env e) (refreshed_source e src chans ps) ss = (None, ss')" using u by (metis prod.collapse)
  have c: "\<not> (chans = [] \<and> progs = [])" "epg_batch_size (s\<lparr>ev_sources := ss\<rparr>) = epg_batch_size s" using assms(5) by (simp_all add: epg_batch_size_def)
  have "refreshSource e src s = (None, s\<lparr>ev_sources := ss'\<rparr>\<lparr>ev_guide := new_guide e (epg_batch_size s) (es_ID src) chans progs (ev_guide s)\<rparr>)"
    unfolding refreshSource_def f sum.case option.case prod.case s1 assms(4) Let_def saved_entries_def [symmetric] ps_def [symmetric] c(2)
      refreshed_source_def [symmetric] new_guide_def
    using assms(2,5) by (simp add: ss')
  then show ?thesis by (simp add: ps_def [symmetric] ss')
qed

lemma refresh_guide_parts:
  fixes e :: epg_in and s :: epg_service and i :: ident
  assumes "epg_ok (ev_guide s)" "EPGSourceStore_GetByID i (ev_sources s) = Inr src" "shouldRefresh (ei_now e) (src\<lparr>es_ETag := []\<rparr>)"
    "\<forall>r. ei_fetch e r (es_URL src) [] = Reply 200 tag (Inr body)" "xmltv_Parse (ei_libs e) body = Inr (chans, progs)" "chans \<noteq> []"
    "distinct (map tc_ID chans)" "fresh_inputs e (ev_guide s)" "e_save (ei_done_env e) = None"
  defines "g' \<equiv> ev_guide (snd (RefreshSource e i s))"
  shows "fst (RefreshSource e i s) = None \<and> epg_ok g'"
    and "\<forall>c \<in> set chans. \<exists>j. map_of (ep_byChannel g') (tc_ID c) = Some j \<and> map_of (ep_data g') j = Some ((guide_channel i c)\<lparr>ed_ID := j\<rparr>)
       \<and> map without_id (programs_of g' j) = map (programme_of j) (filter (\<lambda>p. tp_Channel p = tc_ID c) progs)"
    and "map_of (ep_data g') j = Some d \<and> ed_SourceID d = i \<longrightarrow> ed_ChannelID d \<in> tc_ID ` set chans"
    and "map_of (ep_data (ev_guide s)) j = Some d \<and> ed_SourceID d \<noteq> i \<and> ed_ChannelID d \<notin> tc_ID ` set chans
       \<longrightarrow> map_of (ep_data g') j = Some d \<and> map without_id (programs_of g' j) = map without_id (programs_of (ev_guide s) j)"
proof -
  let ?src = "src\<lparr>es_ETag := []\<rparr>" and ?s1 = "epg_set i (running ''Refreshing...'' 0 0) s" and ?ds = "saved_entries (ei_data_env e) i chans"
  have i: "es_ID src = i" "src \<in> set (ev_sources s)" using source_found [OF assms(2)] by simp_all
  have "es_ID ?src \<in> es_ID ` set (ev_sources ?s1)" using i by (auto simp: epg_set_fields)
  from refreshSource_run [OF this assms(3) _ assms(5,6,9)] assms(4)
  obtain ss where r: "refreshSource e ?src ?s1 = (None, ?s1\<lparr>ev_guide := new_guide e (epg_batch_size s) i chans progs (ev_guide s), ev_sources := ss\<rparr>)"
    by (force simp: i(1) epg_set_fields epg_batch_size_def)
  then have g': "g' = new_guide e (epg_batch_size s) i chans progs (ev_guide s)" and f: "fst (RefreshSource e i s) = None"
    by (simp_all add: g'_def RefreshSource_def assms(2) epg_set_fields)
  note sp = new_guide_spec [OF assms(1,8,7) epg_batch_pos [of s], where src = i and progs = progs, folded g']
  note sv = saved_entries_spec [of "ei_data_env e" i chans]
  have inj: "inj (e_uuid (ei_data_env e))" using assms(8) by (simp add: fresh_inputs_def)
  have chs: "ed_ChannelID ` set ?ds = tc_ID ` set chans" using sv(4) [OF inj] by (metis list.set_map)
  show "fst (RefreshSource e i s) = None \<and> epg_ok g'" using f sp(1) by simp
  show "\<forall>c \<in> set chans. \<exists>j. map_of (ep_byChannel g') (tc_ID c) = Some j \<and> map_of (ep_data g') j = Some ((guide_channel i c)\<lparr>ed_ID := j\<rparr>)
       \<and> map without_id (programs_of g' j) = map (programme_of j) (filter (\<lambda>p. tp_Channel p = tc_ID c) progs)"
  proof
    fix c assume "c \<in> set chans"
    then have "guide_channel i c \<in> (\<lambda>d. d\<lparr>ed_ID := []\<rparr>) ` set ?ds" using sv(1) [OF inj] by (metis image_eqI list.set_map)
    then obtain x where x: "x \<in> set ?ds" "x\<lparr>ed_ID := []\<rparr> = guide_channel i c" by auto
    have xe: "x = (guide_channel i c)\<lparr>ed_ID := ed_ID x\<rparr>" unfolding x(2) [symmetric] by simp
    then have ch: "ed_ChannelID x = tc_ID c" by (metis EPGData.simps(3,8) guide_channel_def x(2) EPGData.select_convs(3) EPGData.update_convs(1))
    have "map_of (ep_data g') (ed_ID x) = Some x" using sp(2) x(1) by blast
    moreover from this have "map_of (ep_byChannel g') (tc_ID c) = Some (ed_ID x)" using sp(1) maps_channel ch unfolding epg_ok_def by blast
    ultimately show "\<exists>j. map_of (ep_byChannel g') (tc_ID c) = Some j \<and> map_of (ep_data g') j = Some ((guide_channel i c)\<lparr>ed_ID := j\<rparr>)
       \<and> map without_id (programs_of g' j) = map (programme_of j) (filter (\<lambda>p. tp_Channel p = tc_ID c) progs)"
      using sp(3) [OF x(1)] xe unfolding ch by metis
  qed
  show "map_of (ep_data g') j = Some d \<and> ed_SourceID d = i \<longrightarrow> ed_ChannelID d \<in> tc_ID ` set chans" using sp(2) [of j d] chs by auto
  show "map_of (ep_data (ev_guide s)) j = Some d \<and> ed_SourceID d \<noteq> i \<and> ed_ChannelID d \<notin> tc_ID ` set chans
       \<longrightarrow> map_of (ep_data g') j = Some d \<and> map without_id (programs_of g' j) = map without_id (programs_of (ev_guide s) j)"
    using sp(2) [of j d] sp(4) [of j d] by blast
qed

text \<open>C9: A refresh that fetches and reads a guide replaces what the source had: each channel of the document gets
  an entry with the programmes the document lists for it, in their order; the source has no other entries, and the
  entries of other sources stay, except for the channels that the document has too.\<close>

theorem refresh_guide_exact:
  fixes e :: epg_in and s :: epg_service and i :: ident
  assumes "epg_ok (ev_guide s)" "EPGSourceStore_GetByID i (ev_sources s) = Inr src" "shouldRefresh (ei_now e) (src\<lparr>es_ETag := []\<rparr>)"
    "\<forall>r. ei_fetch e r (es_URL src) [] = Reply 200 tag (Inr body)" "xmltv_Parse (ei_libs e) body = Inr (chans, progs)" "chans \<noteq> []"
    "distinct (map tc_ID chans)" "fresh_inputs e (ev_guide s)" "e_save (ei_done_env e) = None"
  shows "let g = ev_guide s; g' = ev_guide (snd (RefreshSource e i s)) in fst (RefreshSource e i s) = None \<and> epg_ok g'
    \<and> (\<forall>c \<in> set chans. \<exists>j. map_of (ep_byChannel g') (tc_ID c) = Some j \<and> map_of (ep_data g') j = Some ((guide_channel i c)\<lparr>ed_ID := j\<rparr>)
         \<and> map without_id (programs_of g' j) = map (programme_of j) (filter (\<lambda>p. tp_Channel p = tc_ID c) progs))
    \<and> (\<forall>j d. map_of (ep_data g') j = Some d \<and> ed_SourceID d = i \<longrightarrow> ed_ChannelID d \<in> tc_ID ` set chans)
    \<and> (\<forall>j d. map_of (ep_data g) j = Some d \<and> ed_SourceID d \<noteq> i \<and> ed_ChannelID d \<notin> tc_ID ` set chans
         \<longrightarrow> map_of (ep_data g') j = Some d \<and> map without_id (programs_of g' j) = map without_id (programs_of g j))"
  unfolding Let_def using refresh_guide_parts [OF assms] by blast

section \<open>Refreshes that do nothing, and the entity tag\<close>

text \<open>A refresh, even one asked for by hand, does nothing within twelve hours of the last successful one; it
  reports success and clears the error of a failure in between. (The log message says 24 hours.)\<close>

theorem recent_refresh_skipped:
  assumes "EPGSourceStore_GetByID i (ev_sources s) = Inr src" "es_LastRefreshed src = Some t" "ei_now e - t < 12 * 3600 * 1000000000"
  shows "fst (RefreshSource e i s) = None \<and> ev_guide (snd (RefreshSource e i s)) = ev_guide s
    \<and> rs_State (ev_status (snd (RefreshSource e i s)) i) = ''done''
    \<and> (\<exists>src'. EPGSourceStore_GetByID i (ev_sources (snd (RefreshSource e i s))) = Inr src' \<and> es_LastError src' = [])"
proof -
  have "\<not> shouldRefresh (ei_now e) (src\<lparr>es_ETag := []\<rparr>)" using assms(2,3) by (simp add: shouldRefresh_def)
  then have r: "RefreshSource e i s = (None, epg_set i \<lparr>rs_State = ''done'', rs_Message = ''Refresh complete'', rs_Total = 0, rs_Progress = 0\<rparr>
      (epg_last_error e i [] (epg_set i (running ''Refreshing...'' 0 0) s)))"
    using source_found [OF assms(1)] by (simp add: RefreshSource_def assms(1) refreshSource_def)
  have found: "find (\<lambda>y. es_ID y = i) (ev_sources s) = Some src" using assms(1) by (simp add: EPGSourceStore_GetByID_def not_found_def split: option.splits)
  have "EPGSourceStore_GetByID i (ev_sources (snd (RefreshSource e i s))) = Inr ((src\<lparr>es_LastError := []\<rparr>)\<lparr>es_UpdatedAt := e_now (ei_error_env e)\<rparr>)"
    unfolding r EPGSourceStore_GetByID_def by (simp add: epg_set_fields epg_last_error_def epg_error.update_find found not_found_def epg_field_put_def)
  then show ?thesis by (simp add: r epg_set_fields) (simp add: epg_set_def)
qed

text \<open>The entity tag is stored when it arrives and overwritten with the empty one when the refresh ends, so a
  request is never conditional and \<open>shouldRefresh\<close> never sees a tag.\<close>

theorem stored_tag_dropped:
  assumes "EPGSourceStore_GetByID i (ev_sources s) = Inr src" "shouldRefresh (ei_now e) (src\<lparr>es_ETag := []\<rparr>)"
    "\<forall>r. ei_fetch e r (es_URL src) [] = Reply 200 tag (Inr body)" "xmltv_Parse (ei_libs e) body = Inr (chans, progs)" "chans \<noteq> []"
    "e_save (ei_done_env e) = None"
  shows "\<exists>src'. EPGSourceStore_GetByID i (ev_sources (snd (RefreshSource e i s))) = Inr src' \<and> es_ETag src' = []"
proof -
  let ?src = "src\<lparr>es_ETag := []\<rparr>" and ?s1 = "epg_set i (running ''Refreshing...'' 0 0) s"
  define ss where "ss = (if tag \<noteq> [] then snd (EPGSourceStore_UpdateETag (ei_etag_env e) i tag (ev_sources s)) else ev_sources s)"
  define fin where "fin = refreshed_source e ?src chans (feed_programs (channelIDMap (saved_entries (ei_data_env e) i chans)) progs)"
  have i: "es_ID src = i" "src \<in> set (ev_sources s)" using source_found [OF assms(1)] by simp_all
  have "es_ID ?src \<in> es_ID ` set (ev_sources ?s1)" using i by (auto simp: epg_set_fields)
  from refreshSource_run [OF this assms(2) _ assms(4-6), of tag] assms(3)
  have r: "ev_sources (snd (refreshSource e ?src ?s1)) = snd (EPGSourceStore_Update (ei_done_env e) fin ss)" "fst (refreshSource e ?src ?s1) = None"
    by (simp_all add: i(1) epg_set_fields ss_def fin_def)
  have "map es_ID ss = map es_ID (ev_sources s)" by (simp add: ss_def epg_etag.update_keys)
  then have "i \<in> es_ID ` set ss" using i by (metis imageI list.set_map)
  then obtain y where y: "find (\<lambda>x. es_ID x = i) ss = Some y" by (cases "find (\<lambda>x. es_ID x = i) ss") (auto simp: find_None_iff)
  have "ev_sources (snd (RefreshSource e i s)) = snd (EPGSourceStore_UpdateLastError (ei_error_env e) i [] (snd (EPGSourceStore_Update (ei_done_env e) fin ss)))"
    using r by (cases "refreshSource e ?src ?s1") (simp add: RefreshSource_def assms(1) epg_set_fields epg_last_error_def i(1))
  moreover have "es_ID fin = i" "es_ETag fin = []" by (simp_all add: fin_def refreshed_source_def i(1))
  ultimately show ?thesis
    by (simp add: EPGSourceStore_GetByID_def epg_error.update_find epg_source.update_find y not_found_def epg_field_put_def epg_source_put_def)
qed

section \<open>A guide that is refreshed\<close>

definition uuids :: "string \<Rightarrow> env" where
  "uuids p = \<lparr>e_now = 5, e_uuid = (\<lambda>k. p @ replicate (Suc k) (CHR ''x'')), e_save = None\<rparr>"

definition tv_source :: EPGSource where
  "tv_source = \<lparr>es_ID = ''s'', es_Name = ''S'', es_URL = ''u'', es_IsEnabled = True, es_UseWireGuard = False, es_LastRefreshed = None,
     es_ChannelCount = 0, es_ProgramCount = 0, es_LastError = [], es_ETag = [], es_CreatedAt = 0, es_UpdatedAt = 0\<rparr>"

definition tv_service :: epg_service where
  "tv_service = \<lparr>ev_sources = [tv_source], ev_guide = guide_two, ev_wgClient = False, ev_batchSize = None, ev_status = (\<lambda>_. no_status)\<rparr>"

definition tv_programme :: "string \<Rightarrow> string \<Rightarrow> xmlProgramme" where
  "tv_programme c t = \<lparr>xpr_Start = ''a'', xpr_Stop = ''b'', xpr_Channel = c, xpr_Title = [t], xpr_SubTitle = [], xpr_Desc = [], xpr_Date = [],
     xpr_Category = [], xpr_EpisodeNum = [], xpr_Icon = None, xpr_Credits = None, xpr_Rating = [], xpr_StarRating = [], xpr_Language = [],
     xpr_PreviouslyShown = False, xpr_New = True\<rparr>"

definition tv_libs :: xmltv_libs where
  "tv_libs = \<lparr>xl_decode = (\<lambda>_. Inr \<lparr>xtv_Channels = [\<lparr>xch_ID = ''c'', xch_DisplayName = [''Channel''], xch_Icon = None\<rparr>],
       xtv_Programmes = [tv_programme ''c'' ''One'', tv_programme ''unknown'' ''Other'', tv_programme ''c'' ''Two'']\<rparr>),
     xl_time = (\<lambda>t. if t = ''a'' then Some 1 else Some 2), xl_strings = (\<lambda>_. Inr []), xl_credits = (\<lambda>_. Inr []), xl_zero = 0\<rparr>"

definition tv_in :: epg_in where
  "tv_in = \<lparr>ei_etag_env = example_env, ei_data_env = uuids ''e'', ei_prog_env = (\<lambda>n. uuids (replicate n (CHR ''y''))), ei_done_env = example_env,
     ei_error_env = example_env, ei_now = 5, ei_done = 6, ei_fetch = (\<lambda>r u t. Reply 200 ''v'' (Inr ([], None))), ei_libs = tv_libs\<rparr>"

lemma replicate_pair: "replicate m (CHR ''y'') @ replicate (Suc k) (CHR ''x'') = replicate m' (CHR ''y'') @ replicate (Suc k') (CHR ''x'') \<longleftrightarrow> m = m' \<and> k = k'"
proof
  assume e: "replicate m (CHR ''y'') @ replicate (Suc k) (CHR ''x'') = replicate m' (CHR ''y'') @ replicate (Suc k') (CHR ''x'')"
  have "length (filter (\<lambda>c. c = CHR ''y'') (replicate m (CHR ''y'') @ replicate (Suc k) (CHR ''x''))) = m"
    "length (filter (\<lambda>c. c = CHR ''y'') (replicate m' (CHR ''y'') @ replicate (Suc k') (CHR ''x''))) = m'" by simp_all
  then have "m = m'" by (simp only: e)
  then show "m = m' \<and> k = k'" using arg_cong [OF e, of length] by simp
qed simp

lemma tv_fresh: "fresh_inputs tv_in guide_two"
proof -
  have d: "map fst (ep_data guide_two) = [''d'', ''f'']" "map fst (ep_programs guide_two) = [''p'', ''q'']" "map fst (ep_progsBy guide_two) = [''d'']" by code_simp+
  then have dom: "dom (map_of (ep_data guide_two)) = {''d'', ''f''}" "dom (map_of (ep_programs guide_two)) = {''p'', ''q''}" "dom (map_of (ep_progsBy guide_two)) = {''d''}"
    by (simp_all add: dom_map_of_conv_image_fst flip: set_map)
  have n: "replicate m (CHR ''y'') @ replicate (Suc k) (CHR ''x'') \<noteq> ''p''" "replicate m (CHR ''y'') @ replicate (Suc k) (CHR ''x'') \<noteq> ''q''" for m k
    by (cases m; simp)+
  have sl: "slice_at (ep_progsBy guide_two) k = []" if "k \<noteq> ''d''" for k
    using that dom(3) by (auto simp: slice_at_def split: option.split)
  show ?thesis using n sl
    by (auto simp: fresh_inputs_def fresh_ids_def tv_in_def uuids_def inj_def dom replicate_pair simp del: replicate_Suc)
qed

theorem refresh_guide_exact_witness:
  "\<exists>j. map_of (ep_byChannel (ev_guide (snd (RefreshSource tv_in ''s'' tv_service)))) ''c'' = Some j
    \<and> map (\<lambda>p. (pd_Title p, pd_Start p)) (programs_of (ev_guide (snd (RefreshSource tv_in ''s'' tv_service))) j) = [(''One'', 1), (''Two'', 1)]"
proof -
  let ?c = "\<lparr>tc_ID = ''c'', tc_DisplayName = ''Channel'', tc_Icon = []\<rparr>" and ?g = "ev_guide (snd (RefreshSource tv_in ''s'' tv_service))"
  have ok: "epg_ok (ev_guide tv_service)" using epg_reach_ok [OF guide_two_reach] by (simp add: tv_service_def)
  have get: "EPGSourceStore_GetByID ''s'' (ev_sources tv_service) = Inr tv_source" by (simp add: EPGSourceStore_GetByID_def tv_service_def tv_source_def not_found_def)
  have should: "shouldRefresh (ei_now tv_in) (tv_source\<lparr>es_ETag := []\<rparr>)" by (simp add: shouldRefresh_def tv_source_def)
  have fetch: "\<forall>r. ei_fetch tv_in r (es_URL tv_source) [] = Reply 200 ''v'' (Inr ([], None))" by (simp add: tv_in_def)
  define ps where "ps = map (xmltv_programme tv_libs) [tv_programme ''c'' ''One'', tv_programme ''unknown'' ''Other'', tv_programme ''c'' ''Two'']"
  have parse: "xmltv_Parse (ei_libs tv_in) ([], None) = Inr ([?c], ps)"
    by (simp add: xmltv_Parse_def tv_in_def tv_libs_def xmltv_channel_def first_or_def opt_or_def ps_def)
  have fresh: "fresh_inputs tv_in (ev_guide tv_service)" using tv_fresh by (simp add: tv_service_def)
  have w: "e_save (ei_done_env tv_in) = None" by (simp add: tv_in_def example_env_def)
  have p: "[?c] \<noteq> []" "distinct (map tc_ID [?c])" by simp_all
  note T = refresh_guide_exact [OF ok get should fetch parse p fresh w, unfolded Let_def, THEN conjunct2, THEN conjunct2, THEN conjunct1]
  obtain j where j: "map_of (ep_byChannel ?g) (tc_ID ?c) = Some j"
    "map without_id (programs_of ?g j) = map (programme_of j) (filter (\<lambda>p. tp_Channel p = tc_ID ?c) ps)"
    using bspec [OF T, of ?c] by (meson list.set_intros(1))
  have "map (\<lambda>p. (pd_Title p, pd_Start p)) (map without_id (programs_of ?g j)) = [(''One'', 1), (''Two'', 1)]"
    unfolding j(2) by (simp add: ps_def xmltv_programme_def tv_programme_def programme_of_def first_or_def opt_or_def tv_libs_def)
  then show ?thesis using j(1) by (intro exI [of _ j]) (simp add: without_id_def comp_def)
qed

end
