(* ===== verification/Boxes.thy ===== *)
theory Boxes
  imports Bytes CodecConfig
begin

text \<open>
  \<open>pkg/lib/av/mux/codec_string.go\<close>: the codec string that the player is told for the video of a
  fragmented MP4, read from the boxes of the init segment. \<open>None\<close> is a slice expression out of
  range, \<open>Some None\<close> Go's \<open>nil\<close>. A Go \<open>int\<close> has 64 bits, and every index below is bounded by
  the length of the segment, so naturals are exact.
\<close>

section \<open>The code\<close>

definition fourcc :: "string \<Rightarrow> byte list" where
  "fourcc t = map of_char t"

text \<open>The size and header size of the box at an offset\<close>

definition box_size :: "byte list \<Rightarrow> nat \<Rightarrow> (nat \<times> nat) option" where
  "box_size buf off = do {
     szb \<leftarrow> cut buf off (off + 4);
     let sz = get_be szb;
     if sz = 1 \<and> off + 16 \<le> length buf then do {
       ext \<leftarrow> cut buf (off + 8) (off + 16);
       Some (if get_be ext > length buf - off then length buf - off else get_be ext, 16) }
     else Some (sz, 8) }"

lemma box_size_header: "box_size buf off = Some (s, h) \<Longrightarrow> 8 \<le> h"
  by (auto simp: box_size_def Let_def cut_def split: if_splits)

function find_box :: "byte list \<Rightarrow> string \<Rightarrow> nat \<Rightarrow> byte list option option" where
  "find_box buf t off =
     (if off + 8 \<le> length buf then
        (case (box_size buf off, cut buf (off + 4) (off + 8)) of
           (Some (size0, headerSize), Some cc) \<Rightarrow>
             if size0 < headerSize then Some None
             else
               (let sz = (if size0 > length buf - off then length buf - off else size0)
                in if cc = fourcc t then map_option Some (cut buf (off + headerSize) (off + sz))
                   else find_box buf t (off + sz))
         | _ \<Rightarrow> None)
      else Some None)"
  by pat_completeness auto
termination
  by (relation "measure (\<lambda>(buf, t, off). length buf - off)") (auto dest!: box_size_header sym [of "Some _"])

declare find_box.simps [simp del]

definition findBox :: "byte list \<Rightarrow> string \<Rightarrow> byte list option option" where
  "findBox buf t = find_box buf t 0"

definition visualSampleEntrySize :: nat where "visualSampleEntrySize = 78"

definition parseAVC1CodecString :: "byte list \<Rightarrow> string option" where
  "parseAVC1CodecString avc1 =
     (if length avc1 < visualSampleEntrySize + 8 then Some []
      else do {
        rest \<leftarrow> slice_from avc1 (int visualSampleEntrySize);
        avcC \<leftarrow> findBox rest ''avcC'';
        case avcC of
          None \<Rightarrow> Some []
        | Some c \<Rightarrow>
            if length c < 4 then Some []
            else do {
              profile \<leftarrow> idx c 1; constr \<leftarrow> idx c 2; level \<leftarrow> idx c 3;
              Some (''avc1.'' @ hex2 profile @ hex2 constr @ hex2 level) } })"

text \<open>The loop over the constraint bytes, from the last to the first\<close>

fun constraint_loop :: "byte list \<Rightarrow> string \<Rightarrow> string" where
  "constraint_loop [] acc = acc"
| "constraint_loop (c # cs) acc =
     constraint_loop cs
       (if c \<noteq> 0 \<or> acc \<noteq> [] then (if acc \<noteq> [] then hex2 c @ ''.'' @ acc else hex2 c) else acc)"

definition hevc_string :: "string \<Rightarrow> byte \<Rightarrow> byte \<Rightarrow> byte list \<Rightarrow> string" where
  "hevc_string tag b1 levelIDC constraints =
     (let profileSpace = drop_bit 6 b1 AND 3; tierFlag = drop_bit 5 b1 AND 1; profileIDC = b1 AND 31;
          spacePrefix = (if profileSpace > 0 then [chr (65 + unat profileSpace - 1)] else []);
          tier = (if tierFlag = 1 then ''H'' else ''L'');
          constraintStr = constraint_loop (rev constraints) [];
          constraintStr = (if constraintStr = [] then ''B0'' else constraintStr)
      in tag @ ''.'' @ spacePrefix @ show_nat (unat profileIDC) @ ''.'' @ tier
         @ show_nat (unat levelIDC) @ ''.'' @ constraintStr)"

definition parseHEVCCodecString :: "byte list \<Rightarrow> string \<Rightarrow> string option" where
  "parseHEVCCodecString entry tag =
     (if length entry < visualSampleEntrySize + 8 then Some []
      else do {
        rest \<leftarrow> slice_from entry (int visualSampleEntrySize);
        hvcC \<leftarrow> findBox rest ''hvcC'';
        case hvcC of
          None \<Rightarrow> Some []
        | Some c \<Rightarrow>
            if length c < 13 then Some []
            else do {
              b0 \<leftarrow> idx c 0;
              if b0 \<noteq> 1 then Some []
              else do {
                b1 \<leftarrow> idx c 1; flags \<leftarrow> cut c 2 6; level \<leftarrow> idx c 12; constraints \<leftarrow> cut c 6 12;
                Some (hevc_string tag b1 level constraints) } } })"

text \<open>The walk \<open>moov\<close>, \<open>trak\<close>, \<open>mdia\<close>, \<open>minf\<close>, \<open>stbl\<close>, \<open>stsd\<close>\<close>

fun box_path :: "string list \<Rightarrow> byte list \<Rightarrow> byte list option option" where
  "box_path [] buf = Some (Some buf)"
| "box_path (t # ts) buf =
     (case findBox buf t of None \<Rightarrow> None | Some None \<Rightarrow> Some None | Some (Some d) \<Rightarrow> box_path ts d)"

definition stsd_path :: "string list" where
  "stsd_path = [''moov'', ''trak'', ''mdia'', ''minf'', ''stbl'', ''stsd'']"

definition extractCodecString :: "byte list \<Rightarrow> string option" where
  "extractCodecString initSegment = do {
     stsd \<leftarrow> box_path stsd_path initSegment;
     case stsd of
       None \<Rightarrow> Some []
     | Some s \<Rightarrow>
         if length s < 8 then Some []
         else do {
           entries \<leftarrow> slice_from s 8;
           avc1 \<leftarrow> findBox entries ''avc1'';
           case avc1 of
             Some e \<Rightarrow> parseAVC1CodecString e
           | None \<Rightarrow> do {
               hev1 \<leftarrow> findBox entries ''hev1'';
               case hev1 of
                 Some e \<Rightarrow> parseHEVCCodecString e ''hev1''
               | None \<Rightarrow> do {
                   hvc1 \<leftarrow> findBox entries ''hvc1'';
                   case hvc1 of Some e \<Rightarrow> parseHEVCCodecString e ''hvc1'' | None \<Rightarrow> Some [] } } } }"

section \<open>Every index is in range\<close>

lemma box_size_in:
  assumes "off + 8 \<le> length buf"
  obtains s h where "box_size buf off = Some (s, h)" "h = 8 \<or> h = 16 \<and> off + 16 \<le> length buf \<and> s \<le> length buf - off"
proof (cases "get_be (take 4 (drop off buf)) = 1 \<and> off + 16 \<le> length buf")
  case True
  then show ?thesis using that assms by (auto simp: box_size_def Let_def)
next
  case False
  then show ?thesis using that assms by (auto simp: box_size_def Let_def)
qed

text \<open>What the search returns is a part of the data, behind a header of at least eight bytes.\<close>

definition box_found :: "byte list \<Rightarrow> nat \<Rightarrow> byte list option option \<Rightarrow> bool" where
  "box_found buf off r = (r = Some None \<or> (\<exists>c i. r = Some (Some c) \<and> off + 8 \<le> i \<and> i + length c \<le> length buf
     \<and> c = take (length c) (drop i buf)))"

lemma find_box_in: "box_found buf off (find_box buf t off)"
proof (induction buf t off rule: find_box.induct)
  case (1 buf t off)
  show ?case
  proof (cases "off + 8 \<le> length buf")
    case True
    from box_size_in [OF True] obtain s h where b: "box_size buf off = Some (s, h)"
      and h: "h = 8 \<or> h = 16 \<and> off + 16 \<le> length buf \<and> s \<le> length buf - off" .
    obtain cc where cc: "cut buf (off + 4) (off + 8) = Some cc" using True by simp
    define z where "z = (if s > length buf - off then length buf - off else s)"
    show ?thesis
    proof (cases "s < h")
      case True then show ?thesis using b cc \<open>off + 8 \<le> length buf\<close> by (simp add: find_box.simps [of buf] box_found_def)
    next
      case False
      then have z: "h \<le> z" "off + z \<le> length buf" "8 \<le> h" using h True by (auto simp: z_def)
      show ?thesis
      proof (cases "cc = fourcc t")
        case True
        have "find_box buf t off = map_option Some (cut buf (off + h) (off + z))"
          using True False b cc \<open>off + 8 \<le> length buf\<close> z(3) by (simp add: find_box.simps [of buf] z_def)
        also have "\<dots> = Some (Some (take (z - h) (drop (off + h) buf)))" using z by simp
        finally show ?thesis using z by (auto simp: box_found_def intro!: exI [of _ "off + h"])
      next
        case ne: False
        have "find_box buf t off = find_box buf t (off + z)"
          using ne False b cc \<open>off + 8 \<le> length buf\<close> z(3) by (simp add: find_box.simps [of buf t off] z_def)
        moreover have "box_found buf (off + z) (find_box buf t (off + z))"
          using 1 [OF True refl b [THEN sym, THEN sym] refl cc] False z ne unfolding z_def by (auto simp: Let_def)
        ultimately show ?thesis using z by (auto simp: box_found_def)
      qed
    qed
  qed (simp add: find_box.simps box_found_def)
qed

lemma find_box_cases:
  "find_box buf t off = Some None
   \<or> (\<exists>c i. find_box buf t off = Some (Some c) \<and> off + 8 \<le> i \<and> i + length c \<le> length buf \<and> c = take (length c) (drop i buf))"
  using find_box_in [of buf off t] by (simp add: box_found_def)

text \<open>The search for a box ends, with no index out of range: it finds nothing, or a part of the data behind a
  header of at least eight bytes.\<close>

theorem findBox_bounds:
  "findBox buf t = Some None
   \<or> (\<exists>i c. findBox buf t = Some (Some c) \<and> 8 \<le> i \<and> i + length c \<le> length buf \<and> c = take (length c) (drop i buf))"
  using find_box_cases [of buf t 0] unfolding findBox_def by auto

lemma findBox_total: "findBox buf t \<noteq> None"
  using findBox_bounds [of buf t] by auto

lemma findBox_obtain: obtains r where "findBox buf t = Some r"
  using findBox_total by blast

lemma parseAVC1_total: "parseAVC1CodecString e \<noteq> None"
proof (cases "length e < visualSampleEntrySize + 8")
  case False
  obtain r where "findBox (drop visualSampleEntrySize e) ''avcC'' = Some r" by (rule findBox_obtain)
  then show ?thesis using False by (auto simp: parseAVC1CodecString_def visualSampleEntrySize_def split: option.splits)
qed (simp add: parseAVC1CodecString_def)

lemma parseHEVC_total: "parseHEVCCodecString e tag \<noteq> None"
proof (cases "length e < visualSampleEntrySize + 8")
  case False
  obtain r where "findBox (drop visualSampleEntrySize e) ''hvcC'' = Some r" by (rule findBox_obtain)
  then show ?thesis using False by (auto simp: parseHEVCCodecString_def visualSampleEntrySize_def idx_def split: option.splits)
qed (simp add: parseHEVCCodecString_def)

lemma box_path_total: "box_path ts d \<noteq> None"
proof (induction ts arbitrary: d)
  case (Cons t ts)
  then show ?case using findBox_total [of d t] by (auto split: option.splits)
qed simp

text \<open>Whatever bytes the init segment consists of, the function returns a string: every loop ends and no index is
  out of range.\<close>

theorem extractCodecString_total: "extractCodecString d \<noteq> None"
proof -
  obtain r where r: "box_path stsd_path d = Some r" using box_path_total by blast
  show ?thesis
  proof (cases "\<exists>s. r = Some s \<and> 8 \<le> length s")
    case False
    then show ?thesis using r by (auto simp: extractCodecString_def split: option.splits)
  next
    case True
    then obtain s where s: "r = Some s" "8 \<le> length s" by blast
    obtain a b c where "findBox (drop 8 s) ''avc1'' = Some a" "findBox (drop 8 s) ''hev1'' = Some b" "findBox (drop 8 s) ''hvc1'' = Some c"
      using findBox_obtain by metis
    then show ?thesis using r s parseAVC1_total parseHEVC_total by (auto simp: extractCodecString_def split: option.splits)
  qed
qed

section \<open>Boxes that were written are found\<close>

type_synonym box = "string \<times> byte list"

definition write_box :: "string \<Rightarrow> byte list \<Rightarrow> byte list" where
  "write_box t c = put_be 4 (length c + 8) @ fourcc t @ c"

definition boxes :: "box list \<Rightarrow> byte list" where
  "boxes bs = concat (map (\<lambda>(t, c). write_box t c) bs)"

definition box_ok :: "box \<Rightarrow> bool" where
  "box_ok b \<longleftrightarrow> length (fst b) = 4 \<and> length (snd b) + 8 < 2 ^ 32"

lemma fourcc_eq [simp]: "fourcc t = fourcc u \<longleftrightarrow> t = u"
proof
  have "inj (of_char :: char \<Rightarrow> byte)"
  proof (rule injI)
    fix c d :: char
    assume "(of_char c :: byte) = of_char d"
    then have "(of_nat (of_char c) :: byte) = of_nat (of_char d)" unfolding of_nat_of_char .
    then have "take_bit 8 (of_char c :: nat) = take_bit 8 (of_char d)" by (simp add: word_of_nat_eq_iff)
    then show "c = d" by (simp add: take_bit_eq_mod)
  qed
  moreover assume "fourcc t = fourcc u"
  ultimately show "t = u" by (simp add: fourcc_def inj_map_eq_map)
qed simp

lemma length_fourcc [simp]: "length (fourcc t) = length t"
  by (simp add: fourcc_def)

lemma find_box_step:
  assumes "box_ok (u, c)"
  shows "find_box (pre @ write_box u c @ rest) t (length pre)
    = (if u = t then Some (Some c) else find_box (pre @ write_box u c @ rest) t (length (pre @ write_box u c)))"
proof -
  let ?d = "pre @ write_box u c @ rest" and ?n = "length c + 8"
  have u: "length u = 4" "?n < 256 ^ 4" using assms by (simp_all add: box_ok_def)
  have len: "length (write_box u c) = ?n" using u by (simp add: write_box_def)
  have sz: "take 4 (drop (length pre) ?d) = put_be 4 ?n" and cc: "take 4 (drop (length pre + 4) ?d) = fourcc u"
    and body: "take (length c) (drop (length pre + 8) ?d) = c" using u by (simp_all add: write_box_def)
  have body: "cut ?d (length pre + 8) (length pre + ?n) = Some c" using u by (simp add: cut_def write_box_def)
  have "box_size ?d (length pre) = Some (?n, 8)" using len sz be_roundtrip [OF u(2)] by (simp add: box_size_def)
  moreover have "cut ?d (length pre + 4) (length pre + 8) = Some (fourcc u)" using len cc by simp
  ultimately show ?thesis unfolding find_box.simps [of ?d t "length pre"] using len body by (auto simp del: cut_in)
qed

lemma find_boxes:
  assumes "list_all box_ok bs"
  shows "find_box (pre @ boxes bs) t (length pre) = Some (map_of bs t)"
  using assms
proof (induction bs arbitrary: pre)
  case Nil
  then show ?case by (simp add: find_box.simps boxes_def)
next
  case (Cons b bs)
  obtain u c where b: "b = (u, c)" by fastforce
  have ok: "box_ok (u, c)" "list_all box_ok bs" using Cons.prems b by simp_all
  have e: "boxes (b # bs) = write_box u c @ boxes bs" by (simp add: b boxes_def)
  show ?case unfolding e find_box_step [OF ok(1)] using Cons.IH [OF ok(2), of "pre @ write_box u c"] by (simp add: b)
qed

text \<open>Of a sequence of boxes, the search returns the content of the first with the type asked for.\<close>

lemma findBox_boxes: "list_all box_ok bs \<Longrightarrow> findBox (boxes bs) t = Some (map_of bs t)"
  using find_boxes [of bs "[]"] by (simp add: findBox_def)

text \<open>A box inside boxes, with other boxes before and behind at every level.\<close>

type_synonym level = "string \<times> box list \<times> box list"

fun nested :: "level list \<Rightarrow> byte list \<Rightarrow> byte list" where
  "nested [] c = c"
| "nested ((t, bs, as) # ls) c = boxes (bs @ (t, nested ls c) # as)"

fun levels_ok :: "level list \<Rightarrow> byte list \<Rightarrow> bool" where
  "levels_ok [] c = True"
| "levels_ok ((t, bs, as) # ls) c =
     (list_all box_ok (bs @ (t, nested ls c) # as) \<and> t \<notin> fst ` set bs \<and> levels_ok ls c)"

lemma map_of_middle: "t \<notin> fst ` set bs \<Longrightarrow> map_of (bs @ (t, c) # as) t = Some c"
proof -
  assume "t \<notin> fst ` set bs"
  then have "map_of bs t = None" by (simp add: map_of_eq_None_iff)
  then show ?thesis by (simp add: map_add_def)
qed

lemma box_path_nested: "levels_ok ls c \<Longrightarrow> box_path (map fst ls) (nested ls c) = Some (Some c)"
proof (induction ls)
  case (Cons l ls)
  obtain t bs as where l: "l = (t, bs, as)" by (cases l) auto
  with Cons.prems have "list_all box_ok (bs @ (t, nested ls c) # as)" "t \<notin> fst ` set bs" "levels_ok ls c" by simp_all
  with findBox_boxes [OF this(1), of t] map_of_middle [OF this(2)] Cons.IH l show ?case by simp
qed simp

section \<open>The codec string of a segment\<close>

text \<open>A sample entry is a fixed header of 78 bytes and the boxes behind it; \<open>stsd\<close> has eight bytes of its
  own before the entries.\<close>

definition init_segment :: "level list \<Rightarrow> byte list \<Rightarrow> level \<Rightarrow> byte list \<Rightarrow> level \<Rightarrow> byte list \<Rightarrow> byte list" where
  "init_segment ls hdr l1 fixed l2 c = nested ls (hdr @ nested [l1] (fixed @ nested [l2] c))"

definition segment_ok :: "level list \<Rightarrow> byte list \<Rightarrow> level \<Rightarrow> byte list \<Rightarrow> level \<Rightarrow> byte list \<Rightarrow> bool" where
  "segment_ok ls hdr l1 fixed l2 c \<longleftrightarrow> map fst ls = stsd_path \<and> length hdr = 8 \<and> length fixed = visualSampleEntrySize
     \<and> levels_ok [l2] c \<and> levels_ok [l1] (fixed @ nested [l2] c) \<and> levels_ok ls (hdr @ nested [l1] (fixed @ nested [l2] c))"

lemma nested_length: "levels_ok [l] c \<Longrightarrow> 8 \<le> length (nested [l] c)"
  by (cases l) (auto simp: boxes_def write_box_def box_ok_def)

lemma findBox_level: "levels_ok [l] c \<Longrightarrow> findBox (nested [l] c) (fst l) = Some (Some c)"
  using box_path_nested [of "[l]" c] by (auto split: option.splits)


lemma segment_hevc_entry:
  assumes "segment_ok ls hdr l1 fixed l2 c" "fst l1 = ''hev1''" "''avc1'' \<notin> fst ` set (fst (snd l1)) \<union> fst ` set (snd (snd l1))"
  shows "extractCodecString (init_segment ls hdr l1 fixed l2 c) = parseHEVCCodecString (fixed @ nested [l2] c) ''hev1''"
proof -
  let ?e = "fixed @ nested [l2] c"
  obtain bs as where l1: "l1 = (''hev1'', bs, as)" using assms(2) by (cases l1) auto
  have "box_path stsd_path (init_segment ls hdr l1 fixed l2 c) = Some (Some (hdr @ nested [l1] ?e))"
    using assms(1) box_path_nested [of ls] unfolding segment_ok_def init_segment_def by metis
  moreover have "findBox (nested [l1] ?e) ''hev1'' = Some (Some ?e)"
    using assms findBox_level [of l1 ?e] by (simp add: segment_ok_def)
  moreover have "findBox (nested [l1] ?e) ''avc1'' = Some None"
  proof -
    have "list_all box_ok (bs @ (''hev1'', ?e) # as)" using assms(1) by (simp add: segment_ok_def l1)
    moreover have "map_of (bs @ (''hev1'', ?e) # as) ''avc1'' = None" using assms(3) by (auto simp: map_of_eq_None_iff l1)
    ultimately show ?thesis using findBox_boxes [of "bs @ (''hev1'', ?e) # as" "''avc1''"] by (simp add: l1)
  qed
  ultimately show ?thesis using assms(1) by (simp add: extractCodecString_def segment_ok_def del: nested.simps)
qed



text \<open>When the first track has no sample entry of a known video type, as an audio track has none, the string is empty, whatever
  tracks come behind it; the documentation of the function promises the string of the video track.\<close>

theorem other_track_first:
  assumes "map fst ls = stsd_path" "length hdr = 8" "levels_ok ls (hdr @ boxes es)" "list_all box_ok es"
    and "fst ` set es \<inter> {''avc1'', ''hev1'', ''hvc1''} = {}"
  shows "extractCodecString (nested ls (hdr @ boxes es)) = Some []"
proof -
  have "findBox (boxes es) t = Some None" if "t \<in> {''avc1'', ''hev1'', ''hvc1''}" for t
  proof -
    have "map_of es t = None" using that assms(5) unfolding map_of_eq_None_iff by blast
    then show ?thesis using findBox_boxes [OF assms(4), of t] by simp
  qed
  then show ?thesis using box_path_nested [OF assms(3)] assms(1,2) by (simp add: extractCodecString_def)
qed

text \<open>The string of an HEVC entry is the same whatever the profile compatibility flags are: the component of the
  flags, which the documentation of the function and ISO/IEC 14496-15 have between the profile and the tier,
  is left out.\<close>

theorem hevc_string_omits_compatibility:
  assumes "segment_ok ls hdr l1 fixed l2 (1 # b1 # flags @ cons @ [level])" "length flags = 4" "length cons = 6"
    "fst l1 = ''hev1''" "fst l2 = ''hvcC''" "''avc1'' \<notin> fst ` set (fst (snd l1)) \<union> fst ` set (snd (snd l1))"
  shows "extractCodecString (init_segment ls hdr l1 fixed l2 (1 # b1 # flags @ cons @ [level])) = Some (hevc_string ''hev1'' b1 level cons)"
proof -
  let ?c = "1 # b1 # flags @ cons @ [level]"
  have n: "\<not> length (fixed @ nested [l2] ?c) < visualSampleEntrySize + 8"
    using assms(1) nested_length [of l2 ?c] by (simp add: segment_ok_def)
  have f: "findBox (nested [l2] ?c) ''hvcC'' = Some (Some ?c)" using assms(1,5) findBox_level [of l2 ?c] by (simp add: segment_ok_def)
  have i: "?c ! 12 = level" "cut ?c 6 12 = Some cons" using assms(2,3) by (simp_all add: nth_append cut_def)
  have "parseHEVCCodecString (fixed @ nested [l2] ?c) ''hev1'' = Some (hevc_string ''hev1'' b1 level cons)"
    using n f assms(1-3) i by (auto simp: parseHEVCCodecString_def segment_ok_def simp del: nested.simps)
  then show ?thesis unfolding segment_hevc_entry [OF assms(1,4,6)] .
qed

text \<open>The example in the documentation of the function, \<open>hev1.1.6.L120.B0\<close>, is not what its bytes give.\<close>

theorem hevc_string_example: "hevc_string ''hev1'' 1 120 [0xB0, 0, 0, 0, 0, 0] = ''hev1.1.L120.B0''"
  by code_simp

end
