(* ===== verification/Dvb.thy ===== *)
theory Dvb
  imports Complex_Main Bytes M3u
begin

text \<open>
  The broadcast side of \<open>pkg/tvsatipscan\<close>: transponders and their addresses (\<open>types.go\<close>, \<open>seeds.go\<close>), the
  delivery system descriptors of a network information table (\<open>delivery.go\<close>) and the transmitter files of
  \<open>dvb-apps\<close> (\<open>scanfile.go\<close>). A \<open>float64\<close> is an exact rational: the quotients the code forms are of integers below
  \<open>2^53\<close>, and their rounding is left out. The formats \<open>%g\<close> and \<open>%.0f\<close> and \<open>strconv.ParseFloat\<close> are a parameter.
\<close>

section \<open>Transponders\<close>

record float_lib =
  fl_g :: "rat \<Rightarrow> string"
  fl_0f :: "rat \<Rightarrow> string"
  fl_Parse :: "string \<Rightarrow> rat option"

record Transponder =
  tp_FreqMHz :: rat
  tp_System :: string
  tp_Modulation :: string
  tp_BandwidthMHz :: int
  tp_SymbolRateKS :: int
  tp_Polarization :: string
  tp_PLPID :: int

definition zero_tp :: Transponder where
  "zero_tp = \<lparr>tp_FreqMHz = 0, tp_System = [], tp_Modulation = [], tp_BandwidthMHz = 0, tp_SymbolRateKS = 0,
     tp_Polarization = [], tp_PLPID = 0\<rparr>"

definition tp_RTSPURL :: "float_lib \<Rightarrow> Transponder \<Rightarrow> string \<Rightarrow> string \<Rightarrow> string" where
  "tp_RTSPURL fl t host pids0 =
     (let pids = (if pids0 = ''sdt'' then ''0,16,17'' else pids0); sys = tp_System t
      in ''rtsp://'' @ host @ ''/?freq='' @ fl_g fl (tp_FreqMHz t) @ ''&msys='' @ sys @ ''&mtype='' @ tp_Modulation t
         @ ''&pids='' @ pids
         @ (if sys \<in> {''dvbt'', ''dvbt2''} then
              ''&bw='' @ show_int (tp_BandwidthMHz t) @ (if sys = ''dvbt2'' then ''&plp='' @ show_int (tp_PLPID t) else [])
            else if sys \<in> {''dvbs'', ''dvbs2''} then
              ''&pol='' @ tp_Polarization t @ ''&sr='' @ show_int (tp_SymbolRateKS t)
            else if sys \<in> {''dvbc'', ''dvbc2''} then ''&sr='' @ show_int (tp_SymbolRateKS t)
            else []))"

definition muxKey :: "float_lib \<Rightarrow> Transponder \<Rightarrow> string" where
  "muxKey fl t =
     (if tp_System t = ''dvbt2'' then fl_0f fl (tp_FreqMHz t) @ ''/'' @ tp_System t @ ''/'' @ show_int (tp_PLPID t)
      else if tp_System t = ''dvbt'' then fl_0f fl (tp_FreqMHz t) @ ''/'' @ tp_System t
      else fl_g fl (tp_FreqMHz t) @ ''/'' @ tp_System t)"

record StreamComponent =
  sc_PID :: u16
  sc_StreamType :: byte
  sc_Language :: string
  sc_AudioType :: byte
  sc_Label :: string
  sc_Category :: string
  sc_TypeName :: string

record DvbChannel =
  dc_Name :: string
  dc_ServiceID :: u16
  dc_ServiceType :: byte
  dc_Encrypted :: bool
  dc_PMTPID :: u16
  dc_PCRPID :: u16
  dc_Streams :: "StreamComponent list"
  dc_Transponder :: Transponder

definition channel_RTSPURL :: "float_lib \<Rightarrow> DvbChannel \<Rightarrow> string \<Rightarrow> string" where
  "channel_RTSPURL fl ch host =
     (let pids = (if dc_Streams ch = [] then ''all''
          else ''0,'' @ show_nat (unat (dc_PMTPID ch)) @ concat (map (\<lambda>s. '','' @ show_nat (unat (sc_PID s))) (dc_Streams ch)))
      in tp_RTSPURL fl (dc_Transponder ch) host pids)"

section \<open>Names of services and streams\<close>

definition byteHex :: "byte \<Rightarrow> string" where
  "byteHex b = [hex_lower (unat b div 16), hex_lower (unat b mod 16)]"

definition serviceTypeName :: "(byte \<times> string) list" where
  "serviceTypeName = [(1, ''TV''), (2, ''Radio''), (4, ''NVOD-ref''), (0x11, ''HD-TV''), (0x16, ''SD-TV(AVC)''),
     (0x19, ''HD-TV(AVC)''), (0x1f, ''TV(HEVC)'')]"

definition serviceTypStr :: "byte \<Rightarrow> string" where
  "serviceTypStr t = (case map_of serviceTypeName t of Some s \<Rightarrow> s | None \<Rightarrow> ''0x'' @ byteHex t)"

definition streamTypeName :: "(byte \<times> string) list" where
  "streamTypeName = [(1, ''MPEG-1 Video''), (2, ''MPEG-2 Video''), (3, ''MPEG-1 Audio''), (4, ''MPEG-2 Audio''), (6, ''Private''),
     (0x0f, ''AAC Audio''), (0x11, ''AAC Audio (LATM)''), (0x1b, ''H.264 Video''), (0x24, ''H.265/HEVC Video''),
     (0x42, ''AVS Video''), (0x81, ''AC-3 Audio''), (0x87, ''E-AC-3 Audio'')]"

definition streamTypStr :: "byte \<Rightarrow> string" where
  "streamTypStr t = (case map_of streamTypeName t of Some s \<Rightarrow> s | None \<Rightarrow> ''0x'' @ byteHex t)"

definition streamCategory :: "byte \<Rightarrow> string" where
  "streamCategory t = (if t \<in> {1, 2, 0x1b, 0x24, 0x42} then ''video''
     else if t \<in> {3, 4, 0x0f, 0x11, 0x81, 0x87} then ''audio'' else [])"

text \<open>A text field of DVB: a first byte below \<open>0x20\<close> selects the character table and is dropped.\<close>

definition dvbString :: "string \<Rightarrow> string" where
  "dvbString b = (if b = [] then [] else TrimSpace (if (of_char (hd b) :: nat) < 0x20 then tl b else b))"

section \<open>Delivery system descriptors\<close>

definition be_u32 :: "byte list \<Rightarrow> u32" where
  "be_u32 bs = of_nat (get_be bs)"

definition bcdToUint32 :: "u32 \<Rightarrow> u32" where
  "bcdToUint32 bcd = drop_bit 28 bcd * 10000000 + (drop_bit 24 bcd AND 15) * 1000000 + (drop_bit 20 bcd AND 15) * 100000
     + (drop_bit 16 bcd AND 15) * 10000 + (drop_bit 12 bcd AND 15) * 1000 + (drop_bit 8 bcd AND 15) * 100
     + (drop_bit 4 bcd AND 15) * 10 + (bcd AND 15)"

text \<open>The outer option is the panic of an index out of range, the inner one Go's second result \<open>false\<close>.\<close>

definition parseTerrestrialDelivery :: "byte list \<Rightarrow> Transponder option option" where
  "parseTerrestrialDelivery b =
     (if length b < 11 then Some None
      else do {
        f \<leftarrow> cut b 0 4; b4 \<leftarrow> idx b 4; b5 \<leftarrow> idx b 5;
        bw \<leftarrow> idx [8, 7, 6, 5, 0, 0, 0, 0] (uint (drop_bit 5 b4 AND 7));
        m \<leftarrow> idx [''qpsk'', ''16qam'', ''64qam'', []] (uint (drop_bit 6 b5 AND 3));
        Some (Some (zero_tp\<lparr>tp_FreqMHz := of_nat (unat (of_nat (get_be f) * 10 :: u64)) / 1000000, tp_System := ''dvbt'',
          tp_Modulation := m, tp_BandwidthMHz := bw\<rparr>)) })"

definition parseSatelliteDelivery :: "byte list \<Rightarrow> Transponder option option" where
  "parseSatelliteDelivery b =
     (if length b < 11 then Some None
      else do {
        f \<leftarrow> cut b 0 4; b8 \<leftarrow> idx b 8; s \<leftarrow> cut b 7 11;
        let freqKHz = bcdToUint32 (be_u32 f) * 10;
        pol \<leftarrow> idx [''h'', ''v'', ''l'', ''r''] (uint (drop_bit 5 b8 AND 3));
        m \<leftarrow> idx [''auto'', ''qpsk'', ''8psk'', ''16qam''] (uint (b8 AND 3));
        Some (Some (zero_tp\<lparr>tp_FreqMHz := of_nat (unat freqKHz) / 1000,
          tp_System := (if drop_bit 2 b8 AND 1 = 1 then ''dvbs2'' else ''dvbs''), tp_Modulation := m,
          tp_SymbolRateKS := int (unat (bcdToUint32 (drop_bit 4 (be_u32 s))) div 10), tp_Polarization := pol\<rparr>)) })"

definition cable_modulation :: "(byte \<times> string) list" where
  "cable_modulation = [(1, ''16qam''), (2, ''32qam''), (3, ''64qam''), (4, ''128qam''), (5, ''256qam'')]"

definition parseCableDelivery :: "byte list \<Rightarrow> Transponder option option" where
  "parseCableDelivery b =
     (if length b < 11 then Some None
      else do {
        f \<leftarrow> cut b 0 4; b6 \<leftarrow> idx b 6; s \<leftarrow> cut b 7 11;
        let freqHz = bcdToUint32 (be_u32 f) * 100;
        Some (Some (zero_tp\<lparr>tp_FreqMHz := of_nat (unat freqHz) / 1000000, tp_System := ''dvbc'',
          tp_Modulation := (case map_of cable_modulation b6 of Some m \<Rightarrow> m | None \<Rightarrow> ''64qam''),
          tp_SymbolRateKS := int (unat (bcdToUint32 (drop_bit 4 (be_u32 s))) div 10)\<rparr>)) })"

definition parseT2Delivery :: "byte list \<Rightarrow> Transponder option option" where
  "parseT2Delivery b =
     (if length b < 11 then Some None
      else do {
        b3 \<leftarrow> idx b 3; b4 \<leftarrow> idx b 4;
        bw \<leftarrow> idx [8, 7, 6, 5, 10, 2, 0, 0, 0, 0, 0, 0, 0, 0, 0, 0] (uint (drop_bit 2 b3 AND 15));
        if b4 AND 1 \<noteq> 0 then Some None
        else do {
          f \<leftarrow> cut b 7 11;
          Some (Some (zero_tp\<lparr>tp_FreqMHz := of_nat (unat (of_nat (get_be f) * 10 :: u64)) / 1000000, tp_System := ''dvbt2'',
            tp_Modulation := ''256qam'', tp_BandwidthMHz := (if bw = 0 then 8 else bw)\<rparr>)) } })"

section \<open>Transmitter files\<close>

definition upper_char :: "char \<Rightarrow> char" where
  "upper_char c = (let n = of_char c :: nat in if 97 \<le> n \<and> n \<le> 122 then char_of (n - 32) else c)"

text \<open>\<open>strings.ToUpper\<close> on ASCII text.\<close>

definition ToUpper :: "string \<Rightarrow> string" where
  "ToUpper s = map upper_char s"

definition normaliseSystem :: "string \<Rightarrow> string" where
  "normaliseSystem s = (let u = ToUpper s in
     if u = ''DVBT'' then ''dvbt'' else if u = ''DVBT2'' then ''dvbt2'' else if u = ''DVBS'' then ''dvbs''
     else if u = ''DVBS2'' then ''dvbs2'' else if u \<in> {''DVBC_ANNEX_A'', ''DVBC_ANNEX_B'', ''DVBC''} then ''dvbc'' else [])"

definition normaliseModulation :: "string \<Rightarrow> string" where
  "normaliseModulation s = (let u = ToUpper s in
     if u \<in> {''QAM/256'', ''QAM256''} then ''256qam'' else if u \<in> {''QAM/64'', ''QAM64''} then ''64qam''
     else if u \<in> {''QAM/32'', ''QAM32''} then ''32qam'' else if u \<in> {''QAM/16'', ''QAM16''} then ''16qam''
     else if u = ''QPSK'' then ''qpsk'' else if u = ''8VSB'' then ''8vsb'' else [])"

definition normalisePolarization :: "string \<Rightarrow> string" where
  "normalisePolarization s = (let u = ToUpper s in
     if u \<in> {''HORIZONTAL'', ''H''} then ''h'' else if u \<in> {''VERTICAL'', ''V''} then ''v'' else [])"

text \<open>\<open>strconv.Atoi\<close>: a sign and decimal digits that fit 64 bits.\<close>

definition Atoi :: "string \<Rightarrow> int option" where
  "Atoi s = (let neg = (s \<noteq> [] \<and> hd s = CHR ''-'');
       u = (if s \<noteq> [] \<and> (hd s = CHR ''-'' \<or> hd s = CHR ''+'') then tl s else s);
       v = (if neg then - digits_val u else digits_val u)
     in if u = [] \<or> \<not> list_all is_digit u \<or> v < - (2 ^ 63) \<or> v \<ge> 2 ^ 63 then None else Some v)"

text \<open>\<open>int(f)\<close> of a \<open>float64\<close> in the range of the type truncates.\<close>

definition trunc :: "rat \<Rightarrow> int" where
  "trunc r = (if r < 0 then - \<lfloor>- r\<rfloor> else \<lfloor>r\<rfloor>)"

definition field_of :: "(string \<times> string) list \<Rightarrow> string \<Rightarrow> string" where
  "field_of fs k = (case map_of fs k of Some v \<Rightarrow> v | None \<Rightarrow> [])"

definition scaled_field :: "float_lib \<Rightarrow> (string \<times> string) list \<Rightarrow> string \<Rightarrow> rat \<Rightarrow> int" where
  "scaled_field fl fs k d = (case fl_Parse fl (field_of fs k) of Some v \<Rightarrow> trunc (v / d) | None \<Rightarrow> 0)"

definition or_else :: "'a list \<Rightarrow> 'a list \<Rightarrow> 'a list" where
  "or_else a b = (if a = [] then b else a)"

definition parseTransponderEntry :: "float_lib \<Rightarrow> (string \<times> string) list \<Rightarrow> Transponder option" where
  "parseTransponderEntry fl fs =
     (let sys = normaliseSystem (field_of fs ''DELIVERY_SYSTEM'') in
      if sys = [] then None
      else case fl_Parse fl (field_of fs ''FREQUENCY'') of
        None \<Rightarrow> None
      | Some f \<Rightarrow>
          let m = normaliseModulation (field_of fs ''MODULATION'');
              tp = zero_tp\<lparr>tp_System := sys, tp_Modulation := m\<rparr>
          in Some
            (if sys \<in> {''dvbt'', ''dvbt2''} then
               let bw = scaled_field fl fs ''BANDWIDTH_HZ'' 1000000
               in tp\<lparr>tp_FreqMHz := f / 1000000, tp_BandwidthMHz := (if bw = 0 then 8 else bw),
                    tp_Modulation := or_else m (if sys = ''dvbt2'' then ''256qam'' else ''64qam''),
                    tp_PLPID := (if sys = ''dvbt2'' then
                       (case Atoi (field_of fs ''STREAM_ID'') of Some i \<Rightarrow> if i \<ge> 0 then i else 0 | None \<Rightarrow> 0) else 0)\<rparr>
             else if sys \<in> {''dvbs'', ''dvbs2''} then
               tp\<lparr>tp_FreqMHz := f / 1000, tp_SymbolRateKS := scaled_field fl fs ''SYMBOL_RATE'' 1000,
                  tp_Polarization := normalisePolarization (field_of fs ''POLARIZATION''), tp_Modulation := or_else m ''qpsk''\<rparr>
             else if sys \<in> {''dvbc'', ''dvbc2''} then
               tp\<lparr>tp_FreqMHz := f / 1000000, tp_SymbolRateKS := scaled_field fl fs ''SYMBOL_RATE'' 1000,
                  tp_Modulation := or_else m ''256qam''\<rparr>
             else tp))"

record block_state =
  bl_tps :: "Transponder list"
  bl_current :: "(string \<times> string) list"
  bl_in :: bool

definition flush_block :: "float_lib \<Rightarrow> block_state \<Rightarrow> block_state" where
  "flush_block fl s =
     (if \<not> bl_in s \<or> bl_current s = [] then s
      else s\<lparr>bl_tps := bl_tps s @ (case parseTransponderEntry fl (bl_current s) of Some tp \<Rightarrow> [tp] | None \<Rightarrow> []),
             bl_current := [], bl_in := False\<rparr>)"

definition put_field :: "string \<Rightarrow> string \<Rightarrow> (string \<times> string) list \<Rightarrow> (string \<times> string) list" where
  "put_field k v fs = (k, v) # filter (\<lambda>p. fst p \<noteq> k) fs"

definition file_line :: "float_lib \<Rightarrow> string \<Rightarrow> block_state \<Rightarrow> block_state" where
  "file_line fl raw s =
     (let line = TrimSpace raw in
      if line = [] \<or> HasPrefix line ''#'' then s
      else if HasPrefix line ''['' then (flush_block fl s)\<lparr>bl_in := True\<rparr>
      else if bl_in s then
        (case str_index line ''='' of
           None \<Rightarrow> s
         | Some i \<Rightarrow> s\<lparr>bl_current := put_field (TrimSpace (take i line)) (TrimSpace (drop (Suc i) line)) (bl_current s)\<rparr>)
      else s)"

text \<open>The file is opened (\<open>Inl\<close> its error) and read by lines; \<open>bufio.Scanner\<close> takes lines of less than 64 KiB.\<close>

definition ParseTransmitterFile :: "float_lib \<Rightarrow> (string \<Rightarrow> error + (string \<times> error option)) \<Rightarrow> string \<Rightarrow> error + Transponder list" where
  "ParseTransmitterFile fl open_file path =
     (case open_file path of
        Inl e \<Rightarrow> Inl (''opening transmitter file '' @ path @ '': '' @ e)
      | Inr (content, rerr) \<Rightarrow>
          let (ls, err) = scan_lines_max 65536 content rerr;
              s = flush_block fl (fold (file_line fl) ls \<lparr>bl_tps = [], bl_current = [], bl_in = False\<rparr>)
          in case err of Some e \<Rightarrow> Inl (''reading transmitter file: '' @ e) | None \<Rightarrow> Inr (bl_tps s))"

section \<open>Binary coded decimals\<close>

fun to_bcd :: "nat \<Rightarrow> nat \<Rightarrow> nat" where
  "to_bcd 0 n = 0"
| "to_bcd (Suc k) n = 16 * to_bcd k (n div 10) + n mod 10"

fun from_bcd :: "nat \<Rightarrow> nat \<Rightarrow> nat" where
  "from_bcd 0 n = 0"
| "from_bcd (Suc k) n = 10 * from_bcd k (n div 16) + n mod 16"

lemma from_to_bcd: "n < 10 ^ k \<Longrightarrow> from_bcd k (to_bcd k n) = n"
proof (induction k arbitrary: n)
  case (Suc k)
  then have "n div 10 < 10 ^ k" by (simp add: less_mult_imp_div_less mult.commute)
  with Suc.IH [of "n div 10"] show ?case by simp
qed simp

lemma to_bcd_bound: "to_bcd k n < 16 ^ k"
proof (induction k arbitrary: n)
  case (Suc k)
  have "to_bcd k (n div 10) < 16 ^ k" "n mod 10 < 16" using Suc by (auto intro: less_trans [of _ 10])
  then have "to_bcd k (n div 10) + 1 \<le> 16 ^ k" by simp
  then have "16 * to_bcd k (n div 10) + 16 \<le> 16 * 16 ^ k" by simp
  with \<open>n mod 10 < 16\<close> show ?case by simp
qed simp

lemma from_bcd_bound: "9 * from_bcd k n \<le> 15 * (10 ^ k - 1)"
proof (induction k arbitrary: n)
  case (Suc k)
  have "9 * from_bcd (Suc k) n = 10 * (9 * from_bcd k (n div 16)) + 9 * (n mod 16)" by simp
  also have "\<dots> \<le> 10 * (15 * (10 ^ k - 1)) + 9 * 15" using Suc [of "n div 16"] mod_less_divisor [of 16 n] by linarith
  also have "\<dots> = 15 * (10 * (10 ^ k - 1) + 9)" by simp
  also have "10 * (10 ^ k - 1) + 9 = 10 ^ Suc k - (1 :: nat)" by (cases "10 ^ k :: nat") auto
  finally show ?case .
qed simp

lemma unat_drop: "unat (drop_bit k w) = unat w div 2 ^ k"
  by (subst unat_drop_bit_eq) (simp add: drop_bit_eq_div)

lemma nibble: "drop_bit k w AND 15 = (of_nat (unat w div 2 ^ k mod 16) :: u32)"
proof (rule unsigned_word_eqI)
  have "unat (drop_bit k w AND 15) = unat (drop_bit k w) AND unat (15 :: u32)" by (rule unsigned_and_eq)
  also have "\<dots> = unat w div 2 ^ k mod 16" using take_bit_eq_mask [of 4 "unat (drop_bit k w)"]
    by (simp add: unat_drop mask_eq_exp_minus_1 take_bit_eq_mod)
  finally show "unat (drop_bit k w AND 15) = unat (of_nat (unat w div 2 ^ k mod 16) :: u32)"
    by (simp add: unsigned_of_nat take_bit_eq_mod less_trans [OF mod_less_divisor])
qed

lemma top_nibble: "drop_bit 28 w = (of_nat (unat w div 2 ^ 28 mod 16) :: u32)"
proof (rule unsigned_word_eqI)
  have "unat w < 2 ^ 32" using unsigned_less [of w] by simp
  then have "unat w div 2 ^ 28 < 16" by simp
  then show "unat (drop_bit 28 w) = unat (of_nat (unat w div 2 ^ 28 mod 16) :: u32)"
    unfolding unsigned_of_nat unat_drop by (simp add: take_bit_eq_mod)
qed

text \<open>The arithmetic of \<open>bcdToUint32\<close> never wraps, whatever the nibbles are.\<close>

lemma from_bcd_sum: "from_bcd k n = (\<Sum>i<k. n div 16 ^ i mod 16 * 10 ^ i)"
proof (induction k arbitrary: n)
  case (Suc k)
  have "from_bcd (Suc k) n = n mod 16 + 10 * (\<Sum>i<k. n div 16 div 16 ^ i mod 16 * 10 ^ i)" using Suc by simp
  also have "\<dots> = n mod 16 + (\<Sum>i<k. n div 16 ^ Suc i mod 16 * 10 ^ Suc i)"
    by (simp add: sum_distrib_left div_mult2_eq ac_simps)
  finally show ?case by (simp add: sum.lessThan_Suc_shift del: sum.lessThan_Suc)
qed simp

lemma bcdToUint32_eq: "unat (bcdToUint32 w) = from_bcd 8 (unat w)"
proof -
  let ?u = "unat w"
  let ?d = "\<lambda>k. ?u div 2 ^ k mod 16"
  have "from_bcd 8 ?u = ?d 28 * 10000000 + ?d 24 * 1000000 + ?d 20 * 100000 + ?d 16 * 10000 + ?d 12 * 1000 + ?d 8 * 100 + ?d 4 * 10 + ?d 0"
    unfolding from_bcd_sum by (simp add: lessThan_nat_numeral)
  then have "bcdToUint32 w = of_nat (from_bcd 8 ?u)"
    unfolding bcdToUint32_def nibble top_nibble using nibble [of 0 w] by simp
  moreover have "from_bcd 8 (unat w) < 2 ^ 32" using from_bcd_bound [of 8 "unat w"] by simp
  ultimately show ?thesis unfolding unsigned_of_nat by (simp add: unsigned_of_nat take_bit_eq_mod)
qed

lemma be_u32_put: "n < 2 ^ 32 \<Longrightarrow> unat (be_u32 (put_be 4 n)) = n"
  using be_roundtrip [of n 4] by (simp add: be_u32_def unsigned_of_nat take_bit_eq_mod)

lemma bcd_read:
  assumes "n < 10 ^ 8"
  shows "unat (bcdToUint32 (be_u32 (put_be 4 (to_bcd 8 n)))) = n"
  using assms be_u32_put [of "to_bcd 8 n"] to_bcd_bound [of 8 n] by (simp add: bcdToUint32_eq from_to_bcd del: to_bcd.simps from_bcd.simps)

lemma to_bcd_widen: "n < 10 ^ k \<Longrightarrow> to_bcd (Suc k) n = to_bcd k n"
proof (induction k arbitrary: n)
  case (Suc k)
  then have "n div 10 < 10 ^ k" by (simp add: less_mult_imp_div_less mult.commute)
  from Suc.IH [OF this] show ?case by (simp del: to_bcd.simps add: to_bcd.simps(2) [of "Suc k"] to_bcd.simps(2) [of k])
qed simp

text \<open>A symbol rate of seven digits, with the code rate in the low four bits.\<close>

lemma symbol_rate_read:
  assumes "sr < 10 ^ 7" "fec < 16"
  shows "unat (bcdToUint32 (drop_bit 4 (be_u32 (put_be 4 (to_bcd 7 sr * 16 + fec))))) = sr"
proof -
  have b: "to_bcd 7 sr < 16 ^ 7" by (rule to_bcd_bound)
  have "unat (be_u32 (put_be 4 (to_bcd 7 sr * 16 + fec))) = to_bcd 7 sr * 16 + fec" using b assms(2) by (intro be_u32_put) simp
  then have "unat (drop_bit 4 (be_u32 (put_be 4 (to_bcd 7 sr * 16 + fec)))) = to_bcd 7 sr" using assms(2) by (simp add: unat_drop)
  moreover have "to_bcd 7 sr = to_bcd 8 sr" using to_bcd_widen [of sr 7] assms(1) by (simp del: to_bcd.simps)
  ultimately show ?thesis using from_to_bcd [of sr 8] assms(1) by (simp add: bcdToUint32_eq del: to_bcd.simps from_bcd.simps)
qed

section \<open>Reading the descriptors of EN 300 468\<close>

definition cable_descriptor :: "nat \<Rightarrow> byte \<Rightarrow> byte \<Rightarrow> byte \<Rightarrow> nat \<Rightarrow> nat \<Rightarrow> byte list" where
  "cable_descriptor f r0 r1 m sr fec = put_be 4 (to_bcd 8 f) @ [r0, r1, m] @ put_be 4 (to_bcd 7 sr * 16 + fec)"

definition satellite_descriptor :: "nat \<Rightarrow> byte \<Rightarrow> byte \<Rightarrow> byte \<Rightarrow> nat \<Rightarrow> nat \<Rightarrow> byte list" where
  "satellite_descriptor f o0 o1 flags sr fec = put_be 4 (to_bcd 8 f) @ [o0, o1, flags] @ put_be 4 (to_bcd 7 sr * 16 + fec)"

lemma idx_table: "uint (w :: byte) < int (length xs) \<Longrightarrow> idx xs (uint w) = Some (xs ! nat (uint w))"
  by simp

lemma bits_bound: "uint (w AND 7 :: byte) < 8" "uint (w AND 3 :: byte) < 4" "uint (w AND 15 :: byte) < 16"
proof -
  have "uint (w AND m) \<le> uint m" for m :: byte by (simp add: unsigned_and_eq AND_upper2)
  from this [of 7] this [of 3] this [of 15] show "uint (w AND 7 :: byte) < 8" "uint (w AND 3 :: byte) < 4" "uint (w AND 15 :: byte) < 16"
    by simp_all
qed

text \<open>C15: Whatever the bytes of a descriptor are, reading it never goes out of range: every index into the descriptor and
  every index into a table of names is within its bounds.\<close>

theorem delivery_bounds:
  "None \<notin> {parseTerrestrialDelivery b, parseSatelliteDelivery b, parseCableDelivery b, parseT2Delivery b}"
proof (cases "length b < 11")
  case False
  have t: "parseTerrestrialDelivery b \<noteq> None" using False bits_bound [of "drop_bit 5 (b ! 4)"] bits_bound [of "drop_bit 6 (b ! 5)"]
    by (simp add: parseTerrestrialDelivery_def)
  have s: "parseSatelliteDelivery b \<noteq> None" using False bits_bound [of "drop_bit 5 (b ! 8)"] bits_bound [of "b ! 8"]
    by (simp add: parseSatelliteDelivery_def Let_def)
  have c: "parseCableDelivery b \<noteq> None" using False by (simp add: parseCableDelivery_def Let_def)
  have "parseT2Delivery b \<noteq> None" using False bits_bound [of "drop_bit 2 (b ! 3)"]
    by (simp add: parseT2Delivery_def)
  with t s c show ?thesis by auto
qed (simp add: parseTerrestrialDelivery_def parseSatelliteDelivery_def parseCableDelivery_def parseT2Delivery_def)

text \<open>A cable descriptor is read with its frequency, symbol rate and modulation, up to the frequency at which the
  product in hertz leaves 32 bits (4294.9672 MHz).\<close>

theorem cable_descriptor_read:
  assumes "f < 42949673" "sr < 10 ^ 7" "fec < 16" "map_of cable_modulation m = Some name"
  shows "parseCableDelivery (cable_descriptor f r0 r1 m sr fec)
    = Some (Some (zero_tp\<lparr>tp_FreqMHz := of_nat f / 10000, tp_System := ''dvbc'', tp_Modulation := name, tp_SymbolRateKS := int (sr div 10)\<rparr>))"
proof -
  let ?d = "cable_descriptor f r0 r1 m sr fec"
  have p: "length ?d = 11" "take 4 ?d = put_be 4 (to_bcd 8 f)" "?d ! 6 = m" "take 4 (drop 7 ?d) = put_be 4 (to_bcd 7 sr * 16 + fec)"
    by (simp_all add: cable_descriptor_def nth_append)
  have u: "unat (bcdToUint32 (be_u32 (put_be 4 (to_bcd 8 f)))) = f" using assms(1) by (intro bcd_read) simp
  have "unat (bcdToUint32 (be_u32 (put_be 4 (to_bcd 8 f))) * 100) = f * 100"
    using assms(1) by (simp add: unat_word_ariths u)
  then have "rat_of_nat (unat (bcdToUint32 (be_u32 (put_be 4 (to_bcd 8 f))) * 100)) = of_nat (f * 100)" by (rule arg_cong)
  then show ?thesis using p symbol_rate_read [OF assms(2,3)] assms(4) by (simp add: parseCableDelivery_def Let_def)
qed

theorem cable_descriptor_read_witness:
  "parseCableDelivery (cable_descriptor 3460000 0 0 5 69000 0)
    = Some (Some (zero_tp\<lparr>tp_FreqMHz := of_nat 3460000 / 10000, tp_System := ''dvbc'', tp_Modulation := ''256qam'', tp_SymbolRateKS := int (69000 div 10)\<rparr>))"
  using cable_descriptor_read [of 3460000 69000 0 5 "''256qam''" 0 0] by (simp add: cable_modulation_def)

text \<open>The polarisation, the modulation system and the modulation of a satellite transponder, which the standard has in the
  byte before the symbol rate, are not read from there: that byte does not matter at all.\<close>

theorem satellite_flags_ignored:
  "parseSatelliteDelivery (satellite_descriptor f o0 o1 flags sr fec) = parseSatelliteDelivery (satellite_descriptor f o0 o1 flags' sr fec)"
  by (simp add: parseSatelliteDelivery_def satellite_descriptor_def nth_append cut_def)

lemma numeral_steps:
  "to_bcd (numeral m) n = 16 * to_bcd (pred_numeral m) (n div 10) + n mod 10"
  "put_be (numeral m) n = put_be (pred_numeral m) (n div 256) @ [of_nat n]"
  by (subst numeral_eq_Suc, simp only: to_bcd.simps) (subst numeral_eq_Suc, simp only: put_be.simps)

text \<open>A vertical DVB-S2 transponder at 11302 MHz with 27500 kS/s is read with circular polarisation.\<close>

theorem satellite_vertical_misread:
  "parseSatelliteDelivery (satellite_descriptor 1130200 0x02 0x82 0xA5 275000 3)
    = Some (Some (zero_tp\<lparr>tp_FreqMHz := 11302, tp_System := ''dvbs2'', tp_Modulation := ''qpsk'', tp_SymbolRateKS := 27500, tp_Polarization := ''r''\<rparr>))"
proof -
  let ?d = "satellite_descriptor 1130200 0x02 0x82 0xA5 275000 3"
  have d: "?d = [0x01, 0x13, 0x02, 0x00, 0x02, 0x82, 0xA5, 0x02, 0x75, 0x00, 0x03]"
    by (simp add: satellite_descriptor_def numeral_steps)
  have f: "bcdToUint32 (be_u32 [0x01, 0x13, 0x02, 0x00]) * 10 = 11302000"
    by (simp add: bcdToUint32_def be_u32_def get_be_def)
  have s: "bcdToUint32 (drop_bit 4 (be_u32 [0x02, 0x75, 0x00, 0x03])) = 275000"
    by (simp add: bcdToUint32_def be_u32_def get_be_def)
  show ?thesis unfolding d by (simp add: parseSatelliteDelivery_def Let_def f s idx_def)
qed

text \<open>The physical layer pipe of a DVB-T2 descriptor is its first byte, which is not read.\<close>

theorem t2_pipe_ignored: "parseT2Delivery (p # b) = parseT2Delivery (q # b)"
  by (simp add: parseT2Delivery_def idx_def cut_def)

section \<open>Transmitter files block by block\<close>

text \<open>A block is a header line and lines with the fields; comments and blank lines may stand anywhere.\<close>

definition noise_line :: "string \<Rightarrow> bool" where
  "noise_line raw \<longleftrightarrow> TrimSpace raw = [] \<or> HasPrefix (TrimSpace raw) ''#''"

definition header_line :: "string \<Rightarrow> bool" where
  "header_line raw \<longleftrightarrow> HasPrefix (TrimSpace raw) ''[''"

definition field_line :: "string \<Rightarrow> (string \<times> string) option" where
  "field_line raw = (let l = TrimSpace raw in if noise_line raw \<or> header_line raw then None
     else map_option (\<lambda>i. (TrimSpace (take i l), TrimSpace (drop (Suc i) l))) (str_index l ''=''))"

definition block_fields :: "string list \<Rightarrow> (string \<times> string) list" where
  "block_fields body = fold (\<lambda>raw fs. case field_line raw of Some (k, v) \<Rightarrow> put_field k v fs | None \<Rightarrow> fs) body []"

text \<open>The last value of a key counts.\<close>

lemma map_of_put_field: "map_of (put_field k v fs) = (map_of fs)(k \<mapsto> v)"
proof
  fix x
  have "map_of (filter (\<lambda>p. fst p \<noteq> k) fs) x = (if x = k then None else map_of fs x)" by (induction fs) auto
  then show "map_of (put_field k v fs) x = ((map_of fs)(k \<mapsto> v)) x" by (simp add: put_field_def)
qed

lemma body_step:
  assumes "\<not> header_line raw" "bl_in s"
  shows "file_line fl raw s = s\<lparr>bl_current := (case field_line raw of Some (k, v) \<Rightarrow> put_field k v (bl_current s) | None \<Rightarrow> bl_current s)\<rparr>"
  using assms by (auto simp: file_line_def field_line_def noise_line_def header_line_def Let_def split: option.splits)

lemma body_lines:
  assumes "\<forall>raw \<in> set body. \<not> header_line raw" "bl_in s"
  shows "fold (file_line fl) body s
    = s\<lparr>bl_current := fold (\<lambda>raw fs. case field_line raw of Some (k, v) \<Rightarrow> put_field k v fs | None \<Rightarrow> fs) body (bl_current s)\<rparr>"
  using assms
proof (induction body arbitrary: s)
  case (Cons raw body)
  have "file_line fl raw s = s\<lparr>bl_current := (case field_line raw of Some (k, v) \<Rightarrow> put_field k v (bl_current s) | None \<Rightarrow> bl_current s)\<rparr>"
    using Cons.prems by (intro body_step) auto
  then show ?case using Cons.IH Cons.prems by simp
qed simp

lemma header_step: "header_line raw \<Longrightarrow> file_line fl raw s = (flush_block fl s)\<lparr>bl_in := True\<rparr>"
  by (auto simp: file_line_def header_line_def HasPrefix_def prefix_def Let_def)

definition read_block :: "float_lib \<Rightarrow> string list \<Rightarrow> Transponder list" where
  "read_block fl body = (case parseTransponderEntry fl (block_fields body) of Some tp \<Rightarrow> [tp] | None \<Rightarrow> [])"

lemma block_lines:
  assumes "list_all (\<lambda>(h, body). header_line h \<and> list_all (\<lambda>raw. \<not> header_line raw) body \<and> block_fields body \<noteq> []) bs"
    and "bl_in s \<or> bl_current s = []"
  shows "bl_tps (flush_block fl (fold (file_line fl) (concat (map (\<lambda>(h, body). h # body) bs)) s))
    = bl_tps (flush_block fl s) @ concat (map (\<lambda>(h, body). read_block fl body) bs)"
  using assms
proof (induction bs arbitrary: s)
  case (Cons b bs)
  obtain h body where b: "b = (h, body)" by fastforce
  let ?s1 = "(flush_block fl s)\<lparr>bl_in := True\<rparr>"
  have h: "header_line h" "\<forall>raw \<in> set body. \<not> header_line raw" "block_fields body \<noteq> []" using Cons.prems by (auto simp: b list_all_iff)
  have c: "bl_current ?s1 = []" using Cons.prems(2) by (auto simp: flush_block_def)
  have "fold (file_line fl) (h # body) s = fold (file_line fl) body ?s1" by (simp add: header_step [OF h(1)])
  also have "\<dots> = ?s1\<lparr>bl_current := block_fields body\<rparr>"
    using body_lines [OF h(2), of ?s1 fl] c by (simp add: block_fields_def)
  finally have "fold (file_line fl) (h # body) s = ?s1\<lparr>bl_current := block_fields body\<rparr>" .
  then show ?case using Cons.IH [of "?s1\<lparr>bl_current := block_fields body\<rparr>"] Cons.prems h(3)
    by (simp add: b) (simp add: flush_block_def read_block_def split: option.splits)
qed simp

text \<open>A transmitter file of blocks gives the transponders of the blocks that describe one, in the order of the file,
  each read from the last value of every key.\<close>

theorem transmitter_file_exact:
  assumes "open_file path = Inr (content, None)"
    and "split_lines content = pre @ concat (map (\<lambda>(h, body). h # body) bs)"
    and "list_all (\<lambda>raw. \<not> header_line raw) pre" "list_all (\<lambda>l. length l < 65536) (split_lines content)"
    and "list_all (\<lambda>(h, body). header_line h \<and> list_all (\<lambda>raw. \<not> header_line raw) body \<and> block_fields body \<noteq> []) bs"
  shows "ParseTransmitterFile fl open_file path = Inr (concat (map (\<lambda>(h, body). read_block fl body) bs))"
proof -
  let ?s0 = "\<lparr>bl_tps = [], bl_current = [], bl_in = False\<rparr>"
  have "fold (file_line fl) pre ?s0 = ?s0" using assms(3)
    by (induction pre) (auto simp: file_line_def header_line_def Let_def)
  then have "bl_tps (flush_block fl (fold (file_line fl) (split_lines content) ?s0)) = concat (map (\<lambda>(h, body). read_block fl body) bs)"
    using block_lines [OF assms(5), of ?s0 fl] by (simp add: assms(2)) (simp add: flush_block_def)
  then show ?thesis using assms(1,4) by (simp add: ParseTransmitterFile_def scan_lines_max_def Let_def)
qed

end
