(* ===== verification/Rtsp.thy ===== *)
theory Rtsp
  imports Dvb
begin

text \<open>
  \<open>pkg/tvsatipscan/rtsp.go\<close> and \<open>signal.go\<close>: the RTSP side of a SAT>IP device. What the connection delivers is the list of
  its bytes (of its characters where the code reads lines), after which a read fails with \<open>io.EOF\<close>; deadlines and the
  sending side are left out.
\<close>

section \<open>Interleaved packets\<close>

definition EOF :: error where "EOF = ''EOF''"
definition unexpected_EOF :: error where "unexpected_EOF = ''unexpected EOF''"

text \<open>\<open>io.ReadFull\<close> of \<open>n\<close> bytes\<close>

definition read_full :: "nat \<Rightarrow> 'a list \<Rightarrow> error + ('a list \<times> 'a list)" where
  "read_full n s = (if n \<le> length s then Inr (take n s, drop n s) else if s = [] then Inl EOF else Inl unexpected_EOF)"

function readInterleaved :: "byte list \<Rightarrow> error + (byte list \<times> byte list)" where
  "readInterleaved s =
     (case s of
        [] \<Rightarrow> Inl EOF
      | b # s1 \<Rightarrow>
          if b \<noteq> 0x24 then readInterleaved s1
          else (case s1 of
            [] \<Rightarrow> Inl EOF
          | ch # s2 \<Rightarrow>
              (case read_full 2 s2 of
                 Inl e \<Rightarrow> Inl e
               | Inr (lenBuf, s3) \<Rightarrow>
                   (case read_full (get_be lenBuf) s3 of
                      Inl e \<Rightarrow> Inl e
                    | Inr (payload, s4) \<Rightarrow> if ch = 0 then Inr (payload, s4) else readInterleaved s4))))"
  by pat_completeness auto
termination
  by (relation "measure length") (auto simp: read_full_def split: if_splits)

declare readInterleaved.simps [simp del]

text \<open>The outer option is the panic of an index out of range.\<close>

definition stripRTPHeader :: "byte list \<Rightarrow> (error + byte list) option" where
  "stripRTPHeader pkt =
     (if length pkt < 12 then Some (Inl ''RTP packet too short'')
      else do {
        b0 \<leftarrow> idx pkt 0;
        let offset = 12 + unat (b0 AND 0x0f) * 4;
        r \<leftarrow> (if b0 AND 0x10 \<noteq> 0 then
                (if length pkt < offset + 4 then Some (Inl ''RTP extension header too short'')
                 else do { l \<leftarrow> cut pkt (offset + 2) (offset + 4); Some (Inr (offset + 4 + get_be l * 4)) })
              else Some (Inr offset));
        case r of
          Inl e \<Rightarrow> Some (Inl e)
        | Inr off \<Rightarrow>
            if off > length pkt then Some (Inl ''RTP header overruns packet'')
            else do { p \<leftarrow> cut pkt off (length pkt); Some (Inr p) } })"

section \<open>Responses\<close>

record rtspResponse =
  rr_status :: int
  rr_headers :: "(string \<times> string) list"
  rr_body :: string

text \<open>\<open>ReadString('\n')\<close>\<close>

definition read_line :: "string \<Rightarrow> (string \<times> string) option" where
  "read_line s = (if nl \<in> set s then Some (takeWhile (\<lambda>c. c \<noteq> nl) s @ [nl], drop 1 (dropWhile (\<lambda>c. c \<noteq> nl) s)) else None)"

lemma read_line_shorter: "read_line s = Some (l, r) \<Longrightarrow> length r < length s"
proof -
  assume "read_line s = Some (l, r)"
  then have "s \<noteq> []" "r = drop 1 (dropWhile (\<lambda>c. c \<noteq> nl) s)" by (auto simp: read_line_def split: if_splits)
  then show ?thesis using length_dropWhile_le [of "\<lambda>c. c \<noteq> nl" s] by (cases s) (auto simp: less_Suc_eq_le)
qed

function read_headers :: "string \<Rightarrow> (string \<times> string) list \<Rightarrow> error + ((string \<times> string) list \<times> string)" where
  "read_headers s hdrs =
     (case read_line s of
        None \<Rightarrow> Inl EOF
      | Some (raw, r) \<Rightarrow>
          (let line = TrimSpace raw in
           if line = [] then Inr (hdrs, r)
           else case str_index line '':'' of
               None \<Rightarrow> read_headers r hdrs
             | Some i \<Rightarrow> read_headers r (put_field (ToLower (TrimSpace (take i line))) (TrimSpace (drop (Suc i) line)) hdrs)))"
  by pat_completeness auto
termination
  by (relation "measure (\<lambda>(s, h). length s)") (auto dest!: read_line_shorter sym [of "Some _"])

declare read_headers.simps [simp del]

text \<open>The status is the second of the fields between spaces; \<open>Atoi\<close>'s error is ignored.\<close>

definition Atoi0 :: "string \<Rightarrow> int" where
  "Atoi0 s = (case Atoi s of Some n \<Rightarrow> n | None \<Rightarrow> 0)"

definition readResponse :: "string \<Rightarrow> error + (rtspResponse \<times> string)" where
  "readResponse s =
     (case read_line s of
        None \<Rightarrow> Inl EOF
      | Some (raw, r) \<Rightarrow>
          (let line = TrimSpace raw in
           case str_index line '' '' of
             None \<Rightarrow> Inl ''bad status line''
           | Some i \<Rightarrow>
               (let rest = drop (Suc i) line;
                    status = Atoi0 (case str_index rest '' '' of None \<Rightarrow> rest | Some j \<Rightarrow> take j rest)
                in case read_headers r [] of
                     Inl e \<Rightarrow> Inl e
                   | Inr (hdrs, r1) \<Rightarrow>
                       (let n = (case map_of hdrs ''content-length'' of Some cl \<Rightarrow> Atoi0 cl | None \<Rightarrow> 0)
                        in if n > 0 then
                             (case read_full (nat n) r1 of
                                Inl e \<Rightarrow> Inl e
                              | Inr (body, r2) \<Rightarrow> Inr (\<lparr>rr_status = status, rr_headers = hdrs, rr_body = body\<rparr>, r2))
                           else Inr (\<lparr>rr_status = status, rr_headers = hdrs, rr_body = []\<rparr>, r1)))))"

section \<open>The signal of a tuner\<close>

record SignalInfo =
  si_Lock :: bool
  si_Level :: int
  si_Quality :: int
  si_BER :: int
  si_FeID :: int
  si_FreqMHz :: rat
  si_BwMHz :: int
  si_Msys :: string
  si_Mtype :: string
  si_PLPID :: string
  si_T2ID :: string
  si_BitratKbps :: int
  si_Active :: bool
  si_Server :: string

definition zero_signal :: SignalInfo where
  "zero_signal = \<lparr>si_Lock = False, si_Level = 0, si_Quality = 0, si_BER = 0, si_FeID = 0, si_FreqMHz = 0, si_BwMHz = 0,
     si_Msys = [], si_Mtype = [], si_PLPID = [], si_T2ID = [], si_BitratKbps = 0, si_Active = False, si_Server = []\<rparr>"

text \<open>Go's \<open>/\<close> on \<open>int\<close> truncates towards zero.\<close>

definition quot :: "int \<Rightarrow> int \<Rightarrow> int" where
  "quot a b = sgn a * sgn b * (\<bar>a\<bar> div \<bar>b\<bar>)"

definition LevelPct :: "SignalInfo \<Rightarrow> int" where
  "LevelPct s = (if si_Level s = 0 then 0 else quot (si_Level s * 100) 255)"

definition QualityPct :: "SignalInfo \<Rightarrow> int" where
  "QualityPct s = (if si_Quality s = 0 then 0 else quot (si_Quality s * 100) 15)"

text \<open>\<open>strings.Split\<close> at one character\<close>

fun Split1 :: "char \<Rightarrow> string \<Rightarrow> string list" where
  "Split1 c [] = [[]]"
| "Split1 c (x # xs) = (if x = c then [] # Split1 c xs
     else (case Split1 c xs of [] \<Rightarrow> [[x]] | y # ys \<Rightarrow> (x # y) # ys))"

definition before :: "char \<Rightarrow> string \<Rightarrow> string" where
  "before c s = takeWhile (\<lambda>x. x \<noteq> c) s"

definition extractHost :: "string \<Rightarrow> string" where
  "extractHost u =
     (let u = TrimPrefix (TrimPrefix u ''rtsp://'') ''rtsps://'';
          host = before (CHR ''?'') (before (CHR ''/'') u)
      in if CHR '':'' \<in> set host then host else host @ '':554'')"

definition isModulationType :: "string \<Rightarrow> bool" where
  "isModulationType s \<longleftrightarrow> s \<in> {''qpsk'', ''8psk'', ''16apsk'', ''32apsk'', ''16qam'', ''32qam'', ''64qam'', ''128qam'', ''256qam'',
     ''8vsb'', ''16vsb''}"

definition looksLikePLP :: "string \<Rightarrow> bool" where
  "looksLikePLP s \<longleftrightarrow> Atoi s \<noteq> None"

definition tuner_extra :: "string \<Rightarrow> SignalInfo \<Rightarrow> SignalInfo" where
  "tuner_extra raw s = (let f = TrimSpace raw in
     if f = [] then s else if isModulationType f then s\<lparr>si_Mtype := f\<rparr>
     else if looksLikePLP f then s\<lparr>si_PLPID := f\<rparr> else s)"

definition tuner_fields :: "float_lib \<Rightarrow> string list \<Rightarrow> SignalInfo \<Rightarrow> SignalInfo" where
  "tuner_fields fl fs s =
     (let s = s\<lparr>si_FeID := Atoi0 (fs ! 0), si_Level := Atoi0 (fs ! 1), si_Lock := si_Lock s \<or> Atoi0 (fs ! 2) = 1,
            si_Quality := Atoi0 (fs ! 3)\<rparr>;
          s = (if length fs > 4 then (case fl_Parse fl (fs ! 4) of Some f \<Rightarrow> s\<lparr>si_FreqMHz := f\<rparr> | None \<Rightarrow> s) else s);
          s = (if length fs > 5 then s\<lparr>si_BwMHz := Atoi0 (fs ! 5)\<rparr> else s);
          s = (if length fs > 6 then s\<lparr>si_Msys := fs ! 6\<rparr> else s)
      in fold tuner_extra (drop 7 fs) s)"

text \<open>The state of the loop over the lines: the information and whether a tuner was found.\<close>

definition fmtp_param :: "float_lib \<Rightarrow> string \<Rightarrow> SignalInfo \<times> bool \<Rightarrow> SignalInfo \<times> bool" where
  "fmtp_param fl kv st =
     (if \<not> HasPrefix kv ''tuner='' then st
      else let fs = Split1 (CHR '','') (TrimPrefix kv ''tuner='')
        in if length fs < 4 then st else (tuner_fields fl fs (fst st), True))"

definition sdp_line :: "float_lib \<Rightarrow> string \<Rightarrow> SignalInfo \<times> bool \<Rightarrow> SignalInfo \<times> bool" where
  "sdp_line fl raw st =
     (let line = TrimSpace raw in
      if HasPrefix line ''b=AS:'' then
        (case Atoi (TrimPrefix line ''b=AS:'') of Some v \<Rightarrow> ((fst st)\<lparr>si_BitratKbps := v\<rparr>, snd st) | None \<Rightarrow> st)
      else if line = ''a=sendonly'' then ((fst st)\<lparr>si_Active := True\<rparr>, snd st)
      else if HasPrefix line ''a=fmtp:'' then
        (case str_index line '' '' of
           None \<Rightarrow> st
         | Some i \<Rightarrow> fold (fmtp_param fl) (Split1 (CHR '';'') (drop (Suc i) line)) st)
      else st)"

definition parseTunerSDP :: "float_lib \<Rightarrow> string \<Rightarrow> SignalInfo option" where
  "parseTunerSDP fl sdp =
     (let (info, found) = fold (sdp_line fl) (Split1 nl sdp) (zero_signal, False) in if found then Some info else None)"

text \<open>\<open>QuerySignal\<close> with the answer of the device to DESCRIBE; \<open>Inr None\<close> is Go's pair of two \<open>nil\<close>.\<close>

definition QuerySignal :: "float_lib \<Rightarrow> (string \<Rightarrow> error + rtspResponse) \<Rightarrow> string \<Rightarrow> error + SignalInfo option" where
  "QuerySignal fl describe rtspURL =
     (if extractHost rtspURL = [] then Inl (''cannot extract host from '' @ rtspURL)
      else case describe rtspURL of
        Inl e \<Rightarrow> Inl e
      | Inr resp \<Rightarrow>
          if rr_status resp \<noteq> 200 then Inl (''DESCRIBE returned '' @ show_int (rr_status resp))
          else Inr (case parseTunerSDP fl (rr_body resp) of
              None \<Rightarrow> None
            | Some info \<Rightarrow> Some (case map_of (rr_headers resp) ''server'' of Some sv \<Rightarrow> info\<lparr>si_Server := sv\<rparr> | None \<Rightarrow> info)))"

section \<open>Packets arrive as they were sent\<close>

definition interleaved :: "byte \<Rightarrow> byte list \<Rightarrow> byte list" where
  "interleaved ch p = [0x24, ch] @ put_be 2 (length p) @ p"

lemma readInterleaved_frame:
  "length p < 65536 \<Longrightarrow> readInterleaved (interleaved ch p @ s) = (if ch = 0 then Inr (p, s) else readInterleaved s)"
  using be_roundtrip [of "length p" 2]
  by (subst readInterleaved.simps) (simp add: interleaved_def read_full_def)

lemma readInterleaved_junk: "0x24 \<notin> set junk \<Longrightarrow> readInterleaved (junk @ s) = readInterleaved s"
  by (induction junk) (simp_all add: readInterleaved.simps [of "_ # _"])

text \<open>Of frames on several channels, with other bytes than a dollar sign between them, the packets of channel 0 are read
  one by one, in order and unchanged.\<close>

theorem readInterleaved_next:
  assumes "list_all (\<lambda>(junk, ch, p). 0x24 \<notin> set junk \<and> ch \<noteq> 0 \<and> length p < 65536) others"
    and "0x24 \<notin> set junk" "length p < 65536"
  shows "readInterleaved (concat (map (\<lambda>(junk, ch, p). junk @ interleaved ch p) others) @ junk @ interleaved 0 p @ rest) = Inr (p, rest)"
  using assms(1)
proof (induction others)
  case Nil
  then show ?case using assms(2,3) by (simp add: readInterleaved_junk readInterleaved_frame)
next
  case (Cons o1 others)
  then show ?case by (cases o1) (simp add: readInterleaved_junk readInterleaved_frame)
qed

theorem readInterleaved_next_witness:
  "readInterleaved (interleaved 1 [9, 0x24] @ [7] @ interleaved 0 [0x47, 1, 2] @ [5]) = Inr ([0x47, 1, 2], [5])"
  using readInterleaved_next [of "[([], 1, [9, 0x24])]" "[7]" "[0x47, 1, 2]" "[5]"] by simp

text \<open>No packet makes \<open>stripRTPHeader\<close> read out of range.\<close>

theorem stripRTPHeader_bounds: "stripRTPHeader pkt \<noteq> None"
proof (cases "length pkt < 12")
  case False
  then have "pkt \<noteq> []" by auto
  with False show ?thesis by (auto simp: stripRTPHeader_def Let_def idx_def split: sum.splits)
qed (simp add: stripRTPHeader_def)

text \<open>An RTP packet of RFC 3550 without padding: the fixed header, the contributing sources, and perhaps an extension.\<close>

definition rtp_packet :: "byte list \<Rightarrow> byte list list \<Rightarrow> (byte list \<times> byte list list) option \<Rightarrow> byte list \<Rightarrow> byte list" where
  "rtp_packet h csrc ext payload =
     ((0x80 OR (if ext = None then 0 else 0x10) OR of_nat (length csrc)) # h) @ concat csrc
     @ (case ext of None \<Rightarrow> [] | Some (profile, ws) \<Rightarrow> profile @ put_be 2 (length ws) @ concat ws) @ payload"

text \<open>The payload of such a packet is read back, whatever the contributing sources and the extension are.\<close>

lemma rtp_first_byte:
  assumes "n < 16" "x = 0 \<or> x = 0x10"
  shows "(0x80 OR x OR of_nat n :: byte) AND 0x0f = of_nat n" "(0x80 OR x OR of_nat n :: byte) AND 0x10 = x"
proof -
  let ?ns = "[0, 1, 2, 3, 4, 5, 6, 7, 8, 9, 10, 11, 12, 13, 14, 15] :: nat list"
  have "list_all (\<lambda>n. \<forall>x \<in> {0, 0x10}. (0x80 OR x OR of_nat n :: byte) AND 0x0f = of_nat n \<and> (0x80 OR x OR of_nat n :: byte) AND 0x10 = x) ?ns"
    by simp
  moreover have "set ?ns = set [0..<16]" by code_simp
  then have "n \<in> set ?ns" using assms(1) by simp
  ultimately show "(0x80 OR x OR of_nat n :: byte) AND 0x0f = of_nat n" "(0x80 OR x OR of_nat n :: byte) AND 0x10 = x"
    using assms(2) unfolding list_all_iff by blast+
qed

lemma strip_plain:
  assumes "unat (b AND 15) = k" "b AND 16 = 0" "length (b # t) = 12 + k * 4"
  shows "stripRTPHeader ((b # t) @ p) = Some (Inr p)"
proof -
  let ?s = "(b # t) @ p"
  have l: "length ?s = 12 + k * 4 + length p" and i: "idx ?s 0 = Some b" using assms(3) by (simp_all add: idx_def)
  have d: "drop (12 + k * 4) ?s = p" using assms(3) by (metis append_eq_conv_conj)
  show ?thesis using l d i assms(1,2) by (simp add: stripRTPHeader_def cut_def Let_def del: append.simps)
qed

lemma strip_extended:
  assumes "unat (b AND 15) = k" "b AND 16 \<noteq> 0" "length (b # t) = 14 + k * 4" "length l = 2" "get_be l = m" "length e = m * 4"
  shows "stripRTPHeader ((b # t) @ l @ e @ p) = Some (Inr p)"
proof -
  let ?s = "(b # t) @ l @ e @ p"
  have "?s = ((b # t) @ l @ e) @ p" "length ((b # t) @ l @ e) = 16 + k * 4 + m * 4" using assms(3-6) by simp_all
  then have d: "drop (16 + k * 4 + m * 4) ?s = p" by (metis append_eq_conv_conj)
  have l: "length ?s = 16 + k * 4 + m * 4 + length p" and i: "idx ?s 0 = Some b" using assms(3-6) by (simp_all add: idx_def)
  have "cut ?s (14 + k * 4) (14 + k * 4 + 2) = Some l" by (metis cut_mid assms(3,4))
  then have c: "cut ?s (14 + k * 4) (16 + k * 4) = Some l" by (simp add: add.commute)
  have "cut ?s (16 + k * 4 + m * 4) (length ?s) = Some p" using d l by (simp only: cut_def) simp
  then show ?thesis using l i c assms(1,2,5) by (simp only: stripRTPHeader_def Let_def) (simp add: ac_simps del: append.simps length_append)
qed

lemma length_concat_const: "\<forall>c \<in> set cs. length c = k \<Longrightarrow> length (concat cs) = length cs * k"
  by (induction cs) auto

theorem stripRTPHeader_payload:
  assumes "length h = 11" "length csrc < 16" "\<forall>c \<in> set csrc. length c = 4"
    and "case ext of None \<Rightarrow> True | Some (profile, ws) \<Rightarrow> length profile = 2 \<and> length ws < 65536 \<and> (\<forall>w \<in> set ws. length w = 4)"
  shows "stripRTPHeader (rtp_packet h csrc ext payload) = Some (Inr payload)"
proof -
  let ?x = "if ext = None then 0 else 0x10 :: byte"
  let ?b = "0x80 OR ?x OR of_nat (length csrc) :: byte"
  have b: "?b AND 0x0f = of_nat (length csrc)" "?b AND 0x10 = ?x" using rtp_first_byte [OF assms(2), of ?x] by auto
  have n: "unat (?b AND 0x0f) = length csrc" unfolding b using assms(2) by (simp add: unsigned_of_nat take_bit_eq_mod)
  have c: "length (concat csrc) = length csrc * 4" using assms(3) by (rule length_concat_const)
  show ?thesis
  proof (cases ext)
    case None
    then show ?thesis using strip_plain [OF n, of "h @ concat csrc" payload] b(2) c assms(1) by (simp add: rtp_packet_def)
  next
    case (Some e)
    obtain profile ws where e: "e = (profile, ws)" by fastforce
    have w: "length profile = 2" "length ws < 65536" "length (concat ws) = length ws * 4"
      using assms(4) Some e by (auto intro: length_concat_const)
    have l: "get_be (put_be 2 (length ws)) = length ws" using w(2) by (intro be_roundtrip) simp
    show ?thesis using strip_extended [OF n _ _ _ l, of "h @ concat csrc @ profile" "concat ws" payload] b(2) c w assms(1)
      by (simp add: rtp_packet_def Some e)
  qed
qed

theorem stripRTPHeader_payload_witness:
  "stripRTPHeader (rtp_packet (replicate 11 0) [[1, 2, 3, 4]] (Some ([5, 6], [[7, 8, 9, 10]])) [0x47, 1]) = Some (Inr [0x47, 1])"
  using stripRTPHeader_payload [of "replicate 11 0" "[[1, 2, 3, 4]]" "Some ([5, 6], [[7, 8, 9, 10]])" "[0x47, 1]"] by simp

section \<open>The transport stream of a session\<close>

lemma read_full_rest: "read_full n s = Inr (a, r) \<Longrightarrow> length r \<le> length s"
  by (auto simp: read_full_def split: if_splits)

lemma readInterleaved_shorter: "readInterleaved s = Inr (p, r) \<Longrightarrow> length r < length s"
proof (induction "length s" arbitrary: s rule: less_induct)
  case less
  obtain b s1 where s: "s = b # s1" using less.prems by (cases s) (simp_all add: readInterleaved.simps)
  show ?case
  proof (cases "b = 0x24")
    case False
    then have "readInterleaved s1 = Inr (p, r)" using less.prems by (simp add: s readInterleaved.simps [of "b # s1"])
    from less.hyps [OF _ this] show ?thesis by (simp add: s)
  next
    case True
    obtain ch s2 where s1: "s1 = ch # s2" using less.prems True by (cases s1) (simp_all add: s readInterleaved.simps)
    obtain lenBuf s3 where l: "read_full 2 s2 = Inr (lenBuf, s3)"
      using less.prems True by (simp add: s s1 readInterleaved.simps [of "36 # ch # s2"] split: sum.splits prod.splits)
    obtain q s4 where q: "read_full (get_be lenBuf) s3 = Inr (q, s4)"
      using less.prems True l by (simp add: s s1 readInterleaved.simps [of "36 # ch # s2"] split: sum.splits prod.splits)
    have len: "length s4 < length s" using read_full_rest [OF l] read_full_rest [OF q] by (simp add: s s1)
    have "(if ch = 0 then Inr (q, s4) else readInterleaved s4) = Inr (p, r)"
      using less.prems True l q by (simp add: s s1 readInterleaved.simps [of "36 # ch # s2"])
    then show ?thesis using len less.hyps [OF len] by (auto split: if_splits)
  qed
qed

text \<open>What the goroutine of \<open>scanTransponder\<close> writes into the pipe of the demultiplexer.\<close>

function ts_payloads :: "byte list \<Rightarrow> byte list list option" where
  "ts_payloads s =
     (case readInterleaved s of
        Inl e \<Rightarrow> Some []
      | Inr (pkt, r) \<Rightarrow>
          (case stripRTPHeader pkt of
             None \<Rightarrow> None
           | Some (Inl e) \<Rightarrow> ts_payloads r
           | Some (Inr payload) \<Rightarrow>
               if payload \<noteq> [] \<and> length payload mod 188 = 0 \<and> payload ! 0 = 0x47
               then map_option (Cons payload) (ts_payloads r) else ts_payloads r))"
  by pat_completeness auto
termination
  by (relation "measure length") (auto dest!: readInterleaved_shorter sym [of "Inr _"])

declare ts_payloads.simps [simp del]

text \<open>The two seconds after PLAY: each turn of the loop reads one packet and drops it. A turn ends when its packet is complete or
  when its deadline of 200 ms passes; \<open>n\<close> is the number of bytes that have arrived by then. A turn that its deadline ends has read all
  of them, also when they end inside a frame.\<close>

definition discard_packet :: "nat \<Rightarrow> byte list \<Rightarrow> byte list" where
  "discard_packet n s = (case readInterleaved (take n s) of Inl e \<Rightarrow> drop n s | Inr (pkt, r) \<Rightarrow> r @ drop n s)"

definition lock_wait :: "nat list \<Rightarrow> byte list \<Rightarrow> byte list" where
  "lock_wait ns s = fold discard_packet ns s"

text \<open>What the demultiplexer is given of the bytes that arrive after the answer to PLAY.\<close>

definition received_ts :: "nat list \<Rightarrow> byte list \<Rightarrow> byte list list option" where
  "received_ts ns s = ts_payloads (lock_wait ns s)"





















text \<open>A deadline that falls inside a frame makes the reader lose its place: it looks for the next dollar sign, and one in the rest of the
  frame is taken for the start of a frame. When the two bytes that follow it by two say that this frame is long, nothing of the next
  64 kilobytes arrives.\<close>

theorem deadline_inside_frame:
  assumes "drop n s = junk @ [0x24, ch, 0xff, 0xff] @ r" "0x24 \<notin> set junk" "length r < 65535" "readInterleaved (take n s) = Inl e"
  shows "received_ts [n] s = Some []"
proof -
  have "readInterleaved (drop n s) = Inl (if r = [] then EOF else unexpected_EOF)"
    using assms(1-3) by (simp add: readInterleaved_junk readInterleaved.simps [of "36 # _"] read_full_def get_be_def)
  then show ?thesis using assms(4) by (subst received_ts_def) (simp add: lock_wait_def discard_packet_def ts_payloads.simps)
qed

section \<open>Signal levels\<close>

text \<open>The percentages stay between 0 and 100 for the values a SAT>IP device may report.\<close>

theorem signal_percent_bounds:
  assumes "0 \<le> si_Level s" "si_Level s \<le> 255" "0 \<le> si_Quality s" "si_Quality s \<le> 15"
  shows "{LevelPct s, QualityPct s} \<subseteq> {0..100}"
  using assms by (auto simp: LevelPct_def QualityPct_def quot_def sgn_if)

end
