(* ===== verification/SatScan.thy ===== *)
theory SatScan
  imports Rtsp
begin

text \<open>
  The scan of a SAT>IP device, in \<open>pkg/tvsatipscan\<close>: the tables one transponder delivers and the channels made of them
  (\<open>probe.go\<close>), the search for transponders with a pool of workers (\<open>discover.go\<close>, \<open>seeds.go\<close>, \<open>satellites.go\<close>,
  \<open>caps.go\<close>) and the result (\<open>scanner.go\<close>). The demultiplexer is a library: the tables it hands out, in the order in
  which it does, are the input. The order in which the workers finish is open: the pool is a step relation.
\<close>

section \<open>Tables\<close>

record sdt_service =
  sv_ServiceID :: u16
  sv_HasFreeCSAMode :: bool
  sv_Descriptors :: "(string \<times> byte) list"  \<comment> \<open>name and type of each service descriptor\<close>

datatype transport_descriptor =
    Unknown byte "byte list"
  | Extension byte "byte list option"
  | OtherDescriptor

record nit_table =
  nt_NetworkID :: u16
  nt_Names :: "string option list"  \<comment> \<open>the network descriptors; a name where it is one\<close>
  nt_Streams :: "transport_descriptor list list"

datatype es_descriptor =
    Language string byte
  | Component string
  | Subtitling "string list"
  | Teletext
  | OtherES

record es_entry =
  en_PID :: u16
  en_Type :: byte
  en_Descriptors :: "es_descriptor list"

record pmt_table =
  pt_ProgramNumber :: u16
  pt_PCRPID :: u16
  pt_Streams :: "es_entry list"

text \<open>What \<open>NextData\<close> returns: the tables, and the first packet's start flag and payload.\<close>

record demux_data =
  dd_PAT :: "(u16 \<times> u16) list option"
  dd_SDT :: "sdt_service list option"
  dd_NIT :: "nit_table option"
  dd_PMT :: "pmt_table option"
  dd_First :: "(bool \<times> byte list) option"

text \<open>The section number and the last section number, behind the pointer field\<close>

definition section_numbers :: "(bool \<times> byte list) option \<Rightarrow> (byte \<times> byte) option" where
  "section_numbers p = (case p of
      Some (True, payload) \<Rightarrow>
        if length payload \<ge> 9 then
          (let base = 1 + unat (payload ! 0)
           in if base + 7 < length payload then Some (payload ! (base + 6), payload ! (base + 7)) else None)
        else None
    | _ \<Rightarrow> None)"

record scan_state =
  ss_programs :: "(u16 \<times> u16) list"
  ss_services :: "(u16 \<times> string) list"
  ss_types :: "(u16 \<times> byte) list"
  ss_encrypted :: "u16 set"
  ss_pmt :: "(u16 \<times> pmt_table) list"
  ss_collected :: "u16 set"  \<comment> \<open>the PIDs for which \<open>pmtPending\<close> is true\<close>
  ss_patDone :: bool
  ss_nitDone :: bool
  ss_sdtReceived :: bool
  ss_sdtSections :: "byte set"
  ss_sdtLast :: byte
  ss_nitSections :: "byte set"
  ss_nitLast :: byte
  ss_nitMuxes :: "Transponder list"
  ss_networkID :: u16
  ss_networkName :: string

definition put_map :: "'k \<Rightarrow> 'v \<Rightarrow> ('k \<times> 'v) list \<Rightarrow> ('k \<times> 'v) list" where
  "put_map k v m = (k, v) # filter (\<lambda>p. fst p \<noteq> k) m"

definition str_at :: "(u16 \<times> string) list \<Rightarrow> u16 \<Rightarrow> string" where
  "str_at m k = (case map_of m k of Some s \<Rightarrow> s | None \<Rightarrow> [])"

definition on_PAT :: "demux_data \<Rightarrow> scan_state \<Rightarrow> scan_state" where
  "on_PAT d s = (case dd_PAT d of
      Some ps \<Rightarrow>
        if ss_patDone s then s
        else s\<lparr>ss_programs := fold (\<lambda>(n, pid) m. if n \<noteq> 0 then put_map n pid m else m) ps (ss_programs s), ss_patDone := True\<rparr>
    | None \<Rightarrow> s)"

definition name_service :: "u16 \<Rightarrow> string \<times> byte \<Rightarrow> scan_state \<Rightarrow> scan_state" where
  "name_service i x s = (if str_at (ss_services s) i = []
     then s\<lparr>ss_services := put_map i (dvbString (fst x)) (ss_services s), ss_types := put_map i (snd x) (ss_types s)\<rparr> else s)"

definition on_service :: "sdt_service \<Rightarrow> scan_state \<Rightarrow> scan_state" where
  "on_service v s =
     (let i = sv_ServiceID v;
          s = (if sv_HasFreeCSAMode v then s\<lparr>ss_encrypted := insert i (ss_encrypted s)\<rparr> else s)
      in fold (name_service i) (sv_Descriptors v) s)"

definition on_SDT :: "demux_data \<Rightarrow> scan_state \<Rightarrow> scan_state" where
  "on_SDT d s = (case dd_SDT d of
      Some vs \<Rightarrow>
        if ss_patDone s \<and> (\<exists>v \<in> set vs. map_of (ss_programs s) (sv_ServiceID v) \<noteq> None) then
          (let s = (case section_numbers (dd_First d) of
                 Some (n, l) \<Rightarrow> s\<lparr>ss_sdtLast := l, ss_sdtSections := insert n (ss_sdtSections s)\<rparr> | None \<Rightarrow> s);
               s = fold on_service vs s;
               allNamed = (\<forall>p \<in> set (ss_programs s). str_at (ss_services s) (fst p) \<noteq> []);
               allSections = (card (ss_sdtSections s) > unat (ss_sdtLast s))
           in if allNamed \<or> allSections then s\<lparr>ss_sdtReceived := True\<rparr> else s)
        else s
    | None \<Rightarrow> s)"

definition delivery_mux :: "transport_descriptor \<Rightarrow> Transponder option option" where
  "delivery_mux td = (case td of
      Unknown tag b \<Rightarrow>
        if tag = 0x5a then parseTerrestrialDelivery b else if tag = 0x43 then parseSatelliteDelivery b
        else if tag = 0x44 then parseCableDelivery b else Some None
    | Extension tag (Some b) \<Rightarrow> if tag = 0x04 then parseT2Delivery b else Some None
    | _ \<Rightarrow> Some None)"

text \<open>\<open>nitMuxSeen\<close> holds the keys of the transponders of the list.\<close>

definition add_mux :: "float_lib \<Rightarrow> transport_descriptor \<Rightarrow> Transponder list \<Rightarrow> Transponder list" where
  "add_mux fl td ms = (case delivery_mux td of
      Some (Some m) \<Rightarrow> if muxKey fl m \<in> muxKey fl ` set ms then ms else ms @ [m]
    | _ \<Rightarrow> ms)"

definition on_NIT :: "float_lib \<Rightarrow> demux_data \<Rightarrow> scan_state \<Rightarrow> scan_state" where
  "on_NIT fl d s = (case dd_NIT d of
      None \<Rightarrow> s
    | Some n \<Rightarrow>
        (let s = (if ss_networkID s = 0
               then s\<lparr>ss_networkID := nt_NetworkID n,
                      ss_networkName := (case find (\<lambda>x. x \<noteq> None) (nt_Names n) of Some (Some x) \<Rightarrow> dvbString x | _ \<Rightarrow> ss_networkName s)\<rparr>
               else s)
         in if nt_NetworkID n \<noteq> ss_networkID s then s
            else
              (let s = (case section_numbers (dd_First d) of
                     Some (k, l) \<Rightarrow>
                       (let s = s\<lparr>ss_nitLast := l, ss_nitSections := insert k (ss_nitSections s)\<rparr>
                        in if card (ss_nitSections s) > unat l then s\<lparr>ss_nitDone := True\<rparr> else s)
                   | None \<Rightarrow> s)
               in s\<lparr>ss_nitMuxes := fold (add_mux fl) (concat (nt_Streams n)) (ss_nitMuxes s)\<rparr>)))"

definition on_PMT :: "demux_data \<Rightarrow> scan_state \<Rightarrow> scan_state" where
  "on_PMT d s = (case dd_PMT d of
      None \<Rightarrow> s
    | Some t \<Rightarrow>
        (case map_of (ss_programs s) (pt_ProgramNumber t) of
           Some pid \<Rightarrow>
             if pid \<notin> ss_collected s
             then s\<lparr>ss_pmt := put_map (pt_ProgramNumber t) t (ss_pmt s), ss_collected := insert pid (ss_collected s)\<rparr> else s
         | None \<Rightarrow> s))"

definition on_data :: "float_lib \<Rightarrow> demux_data \<Rightarrow> scan_state \<Rightarrow> scan_state" where
  "on_data fl d s = on_PMT d (on_NIT fl d (on_SDT d (on_PAT d s)))"

definition scan_finished :: "string \<Rightarrow> scan_state \<Rightarrow> bool" where
  "scan_finished pids s =
     (if pids = ''0'' then ss_patDone s
      else if pids = ''0,16,17'' then ss_patDone s \<and> ss_nitDone s
      else ss_patDone s \<and> ss_sdtReceived s \<and> (\<forall>p \<in> set (ss_programs s). snd p \<in> ss_collected s))"

fun scan_loop :: "float_lib \<Rightarrow> string \<Rightarrow> demux_data list \<Rightarrow> scan_state \<Rightarrow> scan_state" where
  "scan_loop fl pids [] s = s"
| "scan_loop fl pids (d # ds) s =
     (let s1 = on_data fl d s in if scan_finished pids s1 then s1 else scan_loop fl pids ds s1)"

definition scan_start :: scan_state where
  "scan_start = \<lparr>ss_programs = [], ss_services = [], ss_types = [], ss_encrypted = {}, ss_pmt = [], ss_collected = {},
     ss_patDone = False, ss_nitDone = False, ss_sdtReceived = False, ss_sdtSections = {}, ss_sdtLast = 0,
     ss_nitSections = {}, ss_nitLast = 0, ss_nitMuxes = [], ss_networkID = 0, ss_networkName = []\<rparr>"

section \<open>Channels\<close>

definition trim_nul :: "string \<Rightarrow> string" where
  "trim_nul s = rev (dropWhile (\<lambda>c. c = chr 0) (rev s))"

fun es_descriptor_put :: "es_descriptor \<Rightarrow> StreamComponent \<Rightarrow> StreamComponent" where
  "es_descriptor_put (Language l a) c = c\<lparr>sc_Language := trim_nul l, sc_AudioType := a,
     sc_Category := or_else (sc_Category c) ''audio''\<rparr>"
| "es_descriptor_put (Component t) c = (if t \<noteq> [] then c\<lparr>sc_Label := dvbString t\<rparr> else c)"
| "es_descriptor_put (Subtitling ls) c =
     (let c = c\<lparr>sc_Category := ''subtitle''\<rparr>
      in case ls of l # _ \<Rightarrow> if l \<noteq> [] then c\<lparr>sc_Language := trim_nul l\<rparr> else c | [] \<Rightarrow> c)"
| "es_descriptor_put Teletext c = c\<lparr>sc_Category := ''teletext''\<rparr>"
| "es_descriptor_put OtherES c = c"

definition es_component :: "es_entry \<Rightarrow> StreamComponent" where
  "es_component e = fold es_descriptor_put (en_Descriptors e)
     \<lparr>sc_PID = en_PID e, sc_StreamType = en_Type e, sc_Language = [], sc_AudioType = 0, sc_Label = [],
      sc_Category = streamCategory (en_Type e), sc_TypeName = streamTypStr (en_Type e)\<rparr>"

definition dvb_channel :: "Transponder \<Rightarrow> scan_state \<Rightarrow> u16 \<times> u16 \<Rightarrow> DvbChannel" where
  "dvb_channel tp s p =
     (let i = fst p; name = str_at (ss_services s) i; t = map_of (ss_pmt s) i
      in \<lparr>dc_Name = (if name = [] then ''SID:'' @ show_nat (unat i) else name), dc_ServiceID = i,
          dc_ServiceType = (case map_of (ss_types s) i of Some ty \<Rightarrow> ty | None \<Rightarrow> 0), dc_Encrypted = (i \<in> ss_encrypted s),
          dc_PMTPID = snd p, dc_PCRPID = (case t of Some t \<Rightarrow> pt_PCRPID t | None \<Rightarrow> 0),
          dc_Streams = (case t of Some t \<Rightarrow> map es_component (pt_Streams t) | None \<Rightarrow> []), dc_Transponder = tp\<rparr>)"

text \<open>The loop over the map of programs is in any order; the channels are then sorted by service.\<close>

definition scan_channels :: "Transponder \<Rightarrow> scan_state \<Rightarrow> DvbChannel list" where
  "scan_channels tp s = sort_slice (\<lambda>a b. dc_ServiceID a < dc_ServiceID b) (map (dvb_channel tp s) (ss_programs s))"

record scan_result =
  sn_tp :: Transponder
  sn_channels :: "DvbChannel list"
  sn_nitMuxes :: "Transponder list"
  sn_networkID :: u16
  sn_networkName :: string
  sn_err :: "error option"
  sn_patReceived :: bool
  sn_nitComplete :: bool
  sn_signalOnly :: bool

text \<open>\<open>scanTransponder\<close>; \<open>tune\<close> is the RTSP exchange: \<open>Inl\<close> its error, or what the demultiplexer delivers until the time
  is up. The flags are set after the exchange.\<close>

definition scanTransponder :: "float_lib \<Rightarrow> (Transponder \<Rightarrow> string \<Rightarrow> error + demux_data list) \<Rightarrow> Transponder \<Rightarrow> string \<Rightarrow> scan_result" where
  "scanTransponder fl tune tp pids =
     (case tune tp pids of
        Inl e \<Rightarrow> \<lparr>sn_tp = tp, sn_channels = [], sn_nitMuxes = [], sn_networkID = 0, sn_networkName = [], sn_err = Some e,
                  sn_patReceived = False, sn_nitComplete = False, sn_signalOnly = False\<rparr>
      | Inr ds \<Rightarrow>
          (let s = scan_loop fl pids ds scan_start
           in \<lparr>sn_tp = tp, sn_channels = scan_channels tp s, sn_nitMuxes = ss_nitMuxes s, sn_networkID = ss_networkID s,
               sn_networkName = ss_networkName s, sn_err = None, sn_patReceived = ss_patDone s, sn_nitComplete = ss_nitDone s,
               sn_signalOnly = (pids = ''0'')\<rparr>))"

section \<open>Capabilities and seeds\<close>

text \<open>The value of \<open>X_SATIPCAP\<close>, cut at its commas; a tuner count is added up per system.\<close>

definition cap_part :: "string \<Rightarrow> (string \<times> int) list \<Rightarrow> (string \<times> int) list" where
  "cap_part raw caps =
     (let part = TrimSpace raw in
      case str_last_index part ''-'' of
        None \<Rightarrow> caps
      | Some i \<Rightarrow>
          (let sys = ToLower (take i part); n = (case Atoi (drop (Suc i) part) of Some n \<Rightarrow> n | None \<Rightarrow> 0)
           in put_map sys ((case map_of caps sys of Some k \<Rightarrow> k | None \<Rightarrow> 0) + n) caps))"

definition parse_caps :: "string \<Rightarrow> (string \<times> int) list" where
  "parse_caps v = fold cap_part (Split1 (CHR '','') v) []"

definition workerCount :: "(string \<times> int) list \<Rightarrow> nat" where
  "workerCount caps = nat (foldr (\<lambda>p m. max (snd p) m) caps 1)"

definition cap :: "(string \<times> int) list \<Rightarrow> string \<Rightarrow> int" where
  "cap caps sys = (case map_of caps sys of Some n \<Rightarrow> n | None \<Rightarrow> 0)"

definition typeOrder :: "string list" where
  "typeOrder = [''dvbt2'', ''dvbt'', ''dvbs2'', ''dvbs'', ''dvbc'', ''dvbc2'']"

definition uhf_seed :: "string \<Rightarrow> string \<Rightarrow> nat \<Rightarrow> Transponder" where
  "uhf_seed sys m ch = zero_tp\<lparr>tp_FreqMHz := of_nat (474 + (ch - 21) * 8), tp_System := sys, tp_Modulation := m, tp_BandwidthMHz := 8\<rparr>"

definition cable_seed :: "nat \<Rightarrow> Transponder" where
  "cable_seed f = zero_tp\<lparr>tp_FreqMHz := of_nat f, tp_System := ''dvbc'', tp_Modulation := ''256qam'', tp_SymbolRateKS := 6952\<rparr>"

definition sat_seed :: "nat \<Rightarrow> int \<Rightarrow> string \<Rightarrow> Transponder" where
  "sat_seed f sr pol = zero_tp\<lparr>tp_FreqMHz := of_nat f, tp_System := ''dvbs2'', tp_Modulation := ''qpsk'', tp_SymbolRateKS := sr, tp_Polarization := pol\<rparr>"

definition defaultSeeds :: "(string \<times> Transponder list) list" where
  "defaultSeeds = [(''dvbt'', map (uhf_seed ''dvbt'' ''64qam'') [21..<69]), (''dvbt2'', map (uhf_seed ''dvbt2'' ''256qam'') [21..<69]),
     (''dvbc'', map cable_seed [114, 138, 162])]"

definition astra28E :: "Transponder list" where
  "astra28E = map (\<lambda>f. sat_seed f 22000 ''h'') [10714, 10803, 10891] @ map (\<lambda>f. sat_seed f 22000 ''v'') [10729, 10818, 10906]
     @ map (\<lambda>f. sat_seed f 27500 ''h'') [11222, 11538, 11856] @ map (\<lambda>f. sat_seed f 27500 ''v'') [11302, 11597, 11895]"

definition astra19E :: "Transponder list" where
  "astra19E = map (\<lambda>f. sat_seed f 22000 ''h'') [10773, 10832, 10921, 11009] @ map (\<lambda>f. sat_seed f 22000 ''v'') [10744, 10818, 10906, 10994]
     @ map (\<lambda>f. sat_seed f 27500 ''h'') [11229, 11347, 11479, 11720, 11836]
     @ map (\<lambda>f. sat_seed f 27500 ''v'') [11278, 11414, 11538, 11778]"

definition hotbird13E :: "Transponder list" where
  "hotbird13E = map (\<lambda>f. sat_seed f 27500 ''h'') [10873, 10971, 11096, 11200, 11325, 11449, 11604, 11727]
     @ map (\<lambda>f. sat_seed f 27500 ''v'') [10930, 11033, 11137, 11242, 11370, 11491, 11623, 11766]"

definition thor08W :: "Transponder list" where
  "thor08W = map (\<lambda>(f, sr). sat_seed f sr ''h'') [(11012, 24500), (11054, 28000), (11117, 28000), (11179, 24500), (11242, 24500)]
     @ map (\<lambda>(f, sr). sat_seed f sr ''v'') [(11075, 28000), (11138, 28000), (11200, 24500), (11263, 24500)]"

definition hispasat30W :: "Transponder list" where
  "hispasat30W = map (\<lambda>f. sat_seed f 27500 ''h'') [11594, 11678, 11762, 11856, 11938, 12054]
     @ map (\<lambda>f. sat_seed f 27500 ''v'') [11638, 11722, 11810, 11977]"

definition europeanSatellites :: "(string \<times> Transponder list) list" where
  "europeanSatellites = [(''S28.2E'', astra28E), (''S19.2E'', astra19E), (''S13E'', hotbird13E), (''S0.8W'', thor08W), (''S30W'', hispasat30W)]"

definition satelliteDetectionSeeds :: "(string \<times> Transponder) list" where
  "satelliteDetectionSeeds = [(''S28.2E'', sat_seed 10714 22000 ''h''), (''S19.2E'', sat_seed 10773 22000 ''h''),
     (''S13E'', sat_seed 11200 27500 ''h''), (''S0.8W'', sat_seed 11012 24500 ''h''), (''S30W'', sat_seed 11678 27500 ''h'')]"

definition seeds_of :: "(string \<times> Transponder list) list \<Rightarrow> string \<Rightarrow> Transponder list" where
  "seeds_of seeds sys = (case map_of seeds sys of Some ts \<Rightarrow> ts | None \<Rightarrow> [])"

text \<open>The seeds of the first pass, and those of DVB-T2 put off when the device has DVB-T as well. \<open>order\<close> is the order in
  which the map of capabilities is visited.\<close>

definition pass1_seeds :: "(string \<times> Transponder list) list \<Rightarrow> (string \<times> int) list \<Rightarrow> string list \<Rightarrow> Transponder list \<times> Transponder list" where
  "pass1_seeds seeds caps order =
     (let deferT2 = (cap caps ''dvbt2'' > 0 \<and> cap caps ''dvbt'' > 0);
          seen = filter (\<lambda>sys. cap caps sys > 0 \<and> map_of seeds sys \<noteq> None) typeOrder;
          first = concat (map (\<lambda>sys. if sys = ''dvbt2'' \<and> deferT2 then [] else seeds_of seeds sys) seen);
          more = concat (map (seeds_of seeds) (filter (\<lambda>sys. sys \<notin> set seen) order))
      in (first @ more, if deferT2 \<and> ''dvbt2'' \<in> set seen then seeds_of seeds ''dvbt2'' else []))"

section \<open>The pool of workers\<close>

record workItem =
  wi_tp :: Transponder
  wi_timeout :: time
  wi_signalOnly :: bool

definition item_pids :: "workItem \<Rightarrow> string" where
  "item_pids i = (if wi_signalOnly i then ''0'' else ''0,16,17'')"

record pool =
  pl_pending :: "workItem list"
  pl_flight :: "workItem list"
  pl_scanned :: "string set"  \<comment> \<open>\<open>prevScanned\<close>\<close>
  pl_mentioned :: "string set"
  pl_found :: "Transponder list"
  pl_failed :: "Transponder list"
  pl_complete :: bool
  pl_network :: string

record pool_cfg =
  pc_float :: float_lib
  pc_workers :: nat
  pc_seedTimeout :: time
  pc_muxTimeout :: time
  pc_retry :: bool
  pc_initial :: "string set"  \<comment> \<open>\<open>initialKeys\<close>\<close>

definition fill :: "pool_cfg \<Rightarrow> pool \<Rightarrow> pool" where
  "fill c p = (let n = pc_workers c - length (pl_flight p)
     in p\<lparr>pl_flight := pl_flight p @ take n (pl_pending p), pl_pending := drop n (pl_pending p)\<rparr>)"

definition enqueue :: "pool_cfg \<Rightarrow> Transponder \<Rightarrow> pool \<Rightarrow> pool" where
  "enqueue c tp p =
     (let k = muxKey (pc_float c) tp; p = p\<lparr>pl_mentioned := insert k (pl_mentioned p)\<rparr>
      in if k \<in> pl_scanned p then p
         else
           (let item = (if HasSuffix (tp_System tp) ''2'' then \<lparr>wi_tp = tp, wi_timeout = pc_muxTimeout c, wi_signalOnly = False\<rparr>
                else \<lparr>wi_tp = tp, wi_timeout = pc_seedTimeout c, wi_signalOnly = pl_complete p\<rparr>)
            in p\<lparr>pl_scanned := insert k (pl_scanned p), pl_pending := item # pl_pending p\<rparr>))"

definition no_signal :: "scan_result \<Rightarrow> bool" where
  "no_signal r = (if sn_signalOnly r then sn_err r \<noteq> None \<or> \<not> sn_patReceived r
     else sn_err r \<noteq> None \<or> sn_nitMuxes r = [] \<and> sn_networkID r = 0)"

definition on_result :: "pool_cfg \<Rightarrow> scan_result \<Rightarrow> pool \<Rightarrow> pool" where
  "on_result c r p =
     (if no_signal r then
        (if pc_retry c \<and> muxKey (pc_float c) (sn_tp r) \<in> pc_initial c then p\<lparr>pl_failed := pl_failed p @ [sn_tp r]\<rparr> else p)
      else
        (let p = p\<lparr>pl_found := pl_found p @ [sn_tp r]\<rparr>;
             p = (if pl_network p = [] \<and> sn_networkName r \<noteq> [] then p\<lparr>pl_network := sn_networkName r\<rparr> else p);
             p = (if sn_nitComplete r then p\<lparr>pl_complete := True\<rparr> else p)
         in fold (enqueue c) (sn_nitMuxes r) p))"

definition remove_at :: "nat \<Rightarrow> 'a list \<Rightarrow> 'a list" where
  "remove_at k xs = take k xs @ drop (Suc k) xs"

text \<open>The worker of the item at some place is the next to answer; \<open>scan\<close> is its \<open>scanTransponder\<close>.\<close>

inductive pool_step :: "pool_cfg \<Rightarrow> (workItem \<Rightarrow> scan_result \<Rightarrow> bool) \<Rightarrow> pool \<Rightarrow> workItem \<Rightarrow> pool \<Rightarrow> bool" for c scan where
  answer: "k < length (pl_flight p) \<Longrightarrow> scan (pl_flight p ! k) r \<Longrightarrow>
     pool_step c scan p (pl_flight p ! k) (fill c (on_result c r (p\<lparr>pl_flight := remove_at k (pl_flight p)\<rparr>)))"

inductive pool_run :: "pool_cfg \<Rightarrow> (workItem \<Rightarrow> scan_result \<Rightarrow> bool) \<Rightarrow> pool \<Rightarrow> workItem list \<Rightarrow> pool \<Rightarrow> bool" for c scan where
  start: "pool_run c scan p [] p"
| more: "pool_run c scan p tr q \<Longrightarrow> pool_step c scan q i q' \<Longrightarrow> pool_run c scan p (tr @ [i]) q'"

inductive_cases pool_stepE: "pool_step c scan p i p'"
inductive_cases pool_run_NilE: "pool_run c scan p [] q"

definition item_key :: "pool_cfg \<Rightarrow> workItem \<Rightarrow> string" where
  "item_key c i = muxKey (pc_float c) (wi_tp i)"

definition pool_start :: "pool_cfg \<Rightarrow> workItem list \<Rightarrow> string set \<Rightarrow> string \<Rightarrow> pool" where
  "pool_start c initial prev net = fill c
     \<lparr>pl_pending = initial, pl_flight = [], pl_scanned = prev \<union> item_key c ` set initial, pl_mentioned = {}, pl_found = [],
      pl_failed = [], pl_complete = False, pl_network = net\<rparr>"

section \<open>The second pass\<close>

definition t2Margin :: rat where "t2Margin = 16"

definition t_range :: "Transponder list \<Rightarrow> rat \<times> rat" where
  "t_range found = foldl (\<lambda>(mn, mx) f. if tp_System f = ''dvbt''
       then (if mn = 0 \<or> tp_FreqMHz f < mn then tp_FreqMHz f else mn, if tp_FreqMHz f > mx then tp_FreqMHz f else mx)
       else (mn, mx)) (0, 0) found"

definition in_t_range :: "rat \<times> rat \<Rightarrow> Transponder \<Rightarrow> bool" where
  "in_t_range r s = (fst r > 0 \<and> tp_FreqMHz s \<ge> fst r - t2Margin \<and> tp_FreqMHz s \<le> snd r + t2Margin)"

definition pass2_items :: "pool_cfg \<Rightarrow> Transponder list \<Rightarrow> pool \<Rightarrow> workItem list" where
  "pass2_items c deferred p =
     (let fl = pc_float c; r = t_range (pl_found p);
          again = filter (\<lambda>s. muxKey fl s \<in> pl_mentioned p
             \<or> (if tp_System s = ''dvbt2'' then in_t_range r s else HasSuffix (tp_System s) ''2'')) (pl_failed p);
          late = filter (\<lambda>s. muxKey fl s \<notin> pl_scanned p \<and> (muxKey fl s \<in> pl_mentioned p \<or> in_t_range r s)) deferred
      in map (\<lambda>s. \<lparr>wi_tp = s, wi_timeout = pc_muxTimeout c, wi_signalOnly = False\<rparr>) (again @ late))"

text \<open>\<open>discoverMuxes\<close>: both passes run until no worker is busy.\<close>

definition discover_run :: "pool_cfg \<Rightarrow> (workItem \<Rightarrow> scan_result \<Rightarrow> bool) \<Rightarrow> (string \<times> Transponder list) list \<Rightarrow> (string \<times> int) list \<Rightarrow> string list
    \<Rightarrow> Transponder list \<Rightarrow> string \<Rightarrow> bool" where
  "discover_run c0 scan seeds caps order muxes net \<longleftrightarrow>
     (\<exists>tr1 p1 tr2 p2.
        let c0 = c0\<lparr>pc_workers := workerCount caps\<rparr>;
            (first, deferred) = pass1_seeds seeds caps order;
            items1 = map (\<lambda>s. \<lparr>wi_tp = s, wi_timeout = pc_seedTimeout c0, wi_signalOnly = False\<rparr>) first;
            c1 = c0\<lparr>pc_retry := True, pc_initial := item_key c0 ` set items1\<rparr>;
            items2 = pass2_items c1 deferred p1;
            c2 = c0\<lparr>pc_retry := False, pc_initial := item_key c0 ` set items2\<rparr>
        in pool_run c1 scan (pool_start c1 items1 {} []) tr1 p1 \<and> pl_flight p1 = []
           \<and> pool_run c2 scan (pool_start c2 items2 (pl_scanned p1) (pl_network p1)) tr2 p2 \<and> pl_flight p2 = []
           \<and> muxes = pl_found p1 @ pl_found p2 \<and> net = pl_network p2)"

section \<open>The scan\<close>

record ScanResult =
  sr_Host :: string
  sr_NetworkName :: string
  sr_Muxes :: "Transponder list"
  sr_Channels :: "DvbChannel list"
  sr_NoSignalMuxes :: "Transponder list"
  sr_ErrorMuxes :: "Transponder list"

definition channel_less :: "DvbChannel \<Rightarrow> DvbChannel \<Rightarrow> bool" where
  "channel_less a b = (if tp_FreqMHz (dc_Transponder a) \<noteq> tp_FreqMHz (dc_Transponder b)
     then tp_FreqMHz (dc_Transponder a) < tp_FreqMHz (dc_Transponder b) else dc_ServiceID a < dc_ServiceID b)"

text \<open>\<open>Scan\<close>, from what \<open>resolveMuxes\<close> returns; the workers of \<open>scanParallel\<close> write each its own place of the results.\<close>

definition scan_device :: "(Transponder \<Rightarrow> scan_result) \<Rightarrow> string \<Rightarrow> error + (Transponder list \<times> string) \<Rightarrow> error + ScanResult" where
  "scan_device scan host resolved =
     (case resolved of
        Inl e \<Rightarrow> Inl e
      | Inr (muxes, net) \<Rightarrow>
          if muxes = [] then Inr \<lparr>sr_Host = host, sr_NetworkName = net, sr_Muxes = [], sr_Channels = [], sr_NoSignalMuxes = [], sr_ErrorMuxes = []\<rparr>
          else
            (let results = map scan muxes
             in Inr \<lparr>sr_Host = host, sr_NetworkName = net, sr_Muxes = muxes,
                  sr_Channels = sort_slice channel_less (concat (map sn_channels (filter (\<lambda>r. sn_err r = None) results))),
                  sr_NoSignalMuxes = map sn_tp (filter (\<lambda>r. sn_err r = None \<and> sn_channels r = []) results),
                  sr_ErrorMuxes = map sn_tp (filter (\<lambda>r. sn_err r \<noteq> None) results)\<rparr>))"

text \<open>\<open>applySatelliteSeeds\<close> changes the global \<open>defaultSeeds\<close> and the capabilities; \<open>detected\<close> is the satellite that the
  detection answered first with a network.\<close>

definition applySatelliteSeeds :: "string \<Rightarrow> string option \<Rightarrow> (string \<times> Transponder list) list \<times> (string \<times> int) list
    \<Rightarrow> (string \<times> Transponder list) list \<times> (string \<times> int) list" where
  "applySatelliteSeeds satellite detected st =
     (let (seeds, caps) = st in
      if \<not> (cap caps ''dvbs2'' > 0 \<or> cap caps ''dvbs'' > 0) then (seeds, caps)
      else if satellite \<noteq> [] then (put_map ''dvbs2'' (seeds_of europeanSatellites satellite) seeds, caps)
      else case detected of
        Some i \<Rightarrow> (put_map ''dvbs2'' (seeds_of europeanSatellites i) seeds, caps)
      | None \<Rightarrow> (seeds, filter (\<lambda>p. fst p \<noteq> ''dvbs2'' \<and> fst p \<noteq> ''dvbs'') caps))"

definition with_dvbt :: "(string \<times> int) list \<Rightarrow> (string \<times> int) list" where
  "with_dvbt caps = (if cap caps ''dvbt2'' > 0 \<and> cap caps ''dvbt'' = 0 then put_map ''dvbt'' (cap caps ''dvbt2'') caps else caps)"

definition splitHost :: "string \<Rightarrow> string" where
  "splitHost hostport = (case str_last_index hostport '':'' of Some i \<Rightarrow> take i hostport | None \<Rightarrow> hostport)"

section \<open>The services of a transponder\<close>

lemma keys_put_map: "fst ` set (put_map k v m) = insert k (fst ` set m)"
  by (auto simp: put_map_def)

lemma distinct_put_map: "distinct (map fst m) \<Longrightarrow> distinct (map fst (put_map k v m))"
  by (auto simp: put_map_def distinct_map inj_on_def)

definition own_programs :: "(u16 \<times> u16) list \<Rightarrow> (u16 \<times> u16) list" where
  "own_programs ps = fold (\<lambda>(n, pid) m. if n \<noteq> 0 then put_map n pid m else m) ps []"

lemma programs_fold:
  assumes "distinct (map fst m)"
  shows "distinct (map fst (fold (\<lambda>(n, pid) m. if n \<noteq> 0 then put_map n pid m else m) ps m))"
    and "fst ` set (fold (\<lambda>(n, pid) m. if n \<noteq> 0 then put_map n pid m else m) ps m) = fst ` set m \<union> {n \<in> fst ` set ps. n \<noteq> 0}"
  using assms
proof (induction ps arbitrary: m)
  case (Cons x ps)
  obtain n pid where x: "x = (n, pid)" by fastforce
  { case 1 then show ?case using Cons.IH(1) by (simp add: x distinct_put_map) }
  { case 2 then show ?case using Cons.IH(2) by (auto simp: x distinct_put_map keys_put_map simp del: set_map) }
qed simp_all

lemma names_keep: "ss_programs (fold (name_service i) ds s) = ss_programs s" "ss_patDone (fold (name_service i) ds s) = ss_patDone s"
  by (induction ds arbitrary: s) (simp_all add: name_service_def)

lemma on_service_keeps: "ss_programs (on_service v s) = ss_programs s" "ss_patDone (on_service v s) = ss_patDone s"
  by (simp_all add: on_service_def Let_def names_keep)

lemma on_services_keep: "ss_programs (fold on_service vs s) = ss_programs s" "ss_patDone (fold on_service vs s) = ss_patDone s"
  by (induction vs arbitrary: s) (simp_all add: on_service_keeps)

lemma on_SDT_keeps: "ss_programs (on_SDT d s) = ss_programs s" "ss_patDone (on_SDT d s) = ss_patDone s"
  by (auto simp: on_SDT_def Let_def on_services_keep split: option.splits prod.splits)

lemma on_NIT_keeps: "ss_programs (on_NIT fl d s) = ss_programs s" "ss_patDone (on_NIT fl d s) = ss_patDone s"
  by (auto simp: on_NIT_def Let_def split: option.splits prod.splits)

lemma on_PMT_keeps: "ss_programs (on_PMT d s) = ss_programs s" "ss_patDone (on_PMT d s) = ss_patDone s"
  by (auto simp: on_PMT_def split: option.splits)

lemma on_data_programs: "ss_programs (on_data fl d s) = ss_programs (on_PAT d s)" "ss_patDone (on_data fl d s) = ss_patDone (on_PAT d s)"
  by (simp_all add: on_data_def on_PMT_keeps on_NIT_keeps on_SDT_keeps)

lemma scan_loop_after_pat: "ss_patDone s \<Longrightarrow> ss_programs (scan_loop fl pids ds s) = ss_programs s"
proof (induction ds arbitrary: s)
  case (Cons d ds)
  then have "ss_programs (on_data fl d s) = ss_programs s" "ss_patDone (on_data fl d s)"
    by (auto simp: on_data_programs on_PAT_def split: option.splits)
  then show ?case using Cons.IH by (simp add: Let_def)
qed simp

lemma scan_loop_programs:
  assumes "list_all (\<lambda>d. dd_PAT d = None) ds1" "dd_PAT d = Some ps" "\<not> ss_patDone s" "ss_programs s = []"
  shows "ss_programs (scan_loop fl pids (ds1 @ d # ds2) s) = own_programs ps"
  using assms
proof (induction ds1 arbitrary: s)
  case Nil
  then have "ss_programs (on_data fl d s) = own_programs ps" "ss_patDone (on_data fl d s)"
    by (simp_all add: on_data_programs on_PAT_def own_programs_def)
  then show ?case by (simp add: Let_def scan_loop_after_pat)
next
  case (Cons x ds1)
  then have "ss_programs (on_data fl x s) = []" "\<not> ss_patDone (on_data fl x s)"
    by (simp_all add: on_data_programs on_PAT_def)
  then show ?case using Cons by (simp add: Let_def scan_finished_def)
qed

text \<open>Whatever tables arrive and in whatever order, a scan finds exactly the services of the first program association table,
  each once, in the order of their numbers; the program number 0, which stands for the network table, is not one.\<close>

theorem scan_finds_services:
  assumes "tune tp pids = Inr (ds1 @ d # ds2)" "list_all (\<lambda>d. dd_PAT d = None) ds1" "dd_PAT d = Some ps"
  shows "let chs = sn_channels (scanTransponder fl tune tp pids)
    in sorted_wrt (<) (map dc_ServiceID chs) \<and> set (map dc_ServiceID chs) = {n \<in> fst ` set ps. n \<noteq> 0}"
proof -
  define s where "s = scan_loop fl pids (ds1 @ d # ds2) scan_start"
  have p: "ss_programs s = own_programs ps" unfolding s_def
    using assms(2,3) by (intro scan_loop_programs) (simp_all add: scan_start_def)
  have dist: "distinct (map fst (ss_programs s))" and keys: "fst ` set (ss_programs s) = {n \<in> fst ` set ps. n \<noteq> 0}"
    unfolding p own_programs_def using programs_fold [of "[]" ps] by simp_all
  have chs: "sn_channels (scanTransponder fl tune tp pids) = scan_channels tp s" using assms(1) by (simp add: scanTransponder_def s_def Let_def)
  have ids: "map dc_ServiceID (map (dvb_channel tp s) (ss_programs s)) = map fst (ss_programs s)"
    by (simp add: dvb_channel_def Let_def)
  have "sorted_wrt (\<lambda>a b. \<not> dc_ServiceID b < dc_ServiceID a) (scan_channels tp s)"
    unfolding scan_channels_def by (rule slice_order.slice_sorted [OF slice_order_key])
  then have "sorted (map dc_ServiceID (scan_channels tp s))" by (simp add: sorted_wrt_map not_less)
  moreover have "mset (map dc_ServiceID (scan_channels tp s)) = mset (map fst (ss_programs s))"
    unfolding ids [symmetric] by (simp add: scan_channels_def del: map_map)
  then have "distinct (map dc_ServiceID (scan_channels tp s))" "set (map dc_ServiceID (scan_channels tp s)) = fst ` set (ss_programs s)"
    using dist by (metis mset_eq_imp_distinct_iff, metis mset_eq_setD set_map)
  ultimately show ?thesis unfolding chs Let_def using keys by (simp add: strict_sorted_iff)
qed

text \<open>When two services share the PID of their program map tables, the table of the second is ignored.\<close>

theorem shared_pmt_pid_ignored:
  assumes "map_of (ss_programs s) a = Some pid" "map_of (ss_programs s) b = Some pid" "a \<noteq> b" "ss_collected s = {}" "ss_pmt s = []"
    and "dd_PMT d1 = Some t1" "pt_ProgramNumber t1 = a" "dd_PMT d2 = Some t2" "pt_ProgramNumber t2 = b"
  shows "map_of (ss_pmt (on_PMT d2 (on_PMT d1 s))) b = None"
  using assms by (simp add: on_PMT_def put_map_def)

section \<open>Every transponder is scanned once\<close>

lemma mset_remove_at: "k < length xs \<Longrightarrow> mset xs = add_mset (xs ! k) (mset (remove_at k xs))"
  unfolding remove_at_def by (subst id_take_nth_drop [of k xs]) simp_all

text \<open>The items that have been answered are \<open>tr\<close>.\<close>

definition all_items :: "workItem list \<Rightarrow> pool \<Rightarrow> workItem multiset" where
  "all_items tr p = mset tr + mset (pl_flight p) + mset (pl_pending p)"

definition pool_inv :: "pool_cfg \<Rightarrow> workItem list \<Rightarrow> string set \<Rightarrow> workItem list \<Rightarrow> pool \<Rightarrow> bool" where
  "pool_inv c initial prev tr p \<longleftrightarrow>
     (\<exists>extra. image_mset (item_key c) (all_items tr p) = image_mset (item_key c) (mset initial) + mset extra \<and> distinct extra
        \<and> set extra \<inter> (prev \<union> item_key c ` set initial) = {} \<and> set extra \<subseteq> pl_mentioned p
        \<and> pl_scanned p = prev \<union> item_key c ` set initial \<union> set extra)
     \<and> pl_mentioned p \<subseteq> pl_scanned p"

definition pool_busy :: "pool_cfg \<Rightarrow> pool \<Rightarrow> bool" where
  "pool_busy c p \<longleftrightarrow> pl_pending p \<noteq> [] \<longrightarrow> length (pl_flight p) \<ge> pc_workers c"

lemma fill_items: "all_items tr (fill c p) = all_items tr p" "pl_scanned (fill c p) = pl_scanned p" "pl_mentioned (fill c p) = pl_mentioned p"
proof -
  have "mset (take n xs) + mset (drop n xs) = mset xs" for n and xs :: "workItem list" by (metis append_take_drop_id mset_append)
  then show "all_items tr (fill c p) = all_items tr p" by (simp add: all_items_def fill_def Let_def add.assoc)
qed (simp_all add: fill_def Let_def)

lemma fill_busy: "pool_busy c (fill c p)"
  by (auto simp: pool_busy_def fill_def Let_def)

lemma enqueue_inv: "pool_inv c initial prev tr p \<Longrightarrow> pool_inv c initial prev tr (enqueue c tp p)"
proof -
  assume inv: "pool_inv c initial prev tr p"
  let ?k = "muxKey (pc_float c) tp"
  from inv obtain extra where e: "image_mset (item_key c) (all_items tr p) = image_mset (item_key c) (mset initial) + mset extra" "distinct extra"
      "set extra \<inter> (prev \<union> item_key c ` set initial) = {}" "set extra \<subseteq> pl_mentioned p" "pl_scanned p = prev \<union> item_key c ` set initial \<union> set extra"
      "pl_mentioned p \<subseteq> pl_scanned p"
    by (auto simp: pool_inv_def)
  show ?thesis
  proof (cases "?k \<in> pl_scanned p")
    case True
    then have "enqueue c tp p = p\<lparr>pl_mentioned := insert ?k (pl_mentioned p)\<rparr>" by (simp add: enqueue_def Let_def)
    then show ?thesis using e True unfolding pool_inv_def by (auto simp: all_items_def intro!: exI [of _ extra])
  next
    case False
    have "image_mset (item_key c) (all_items tr (enqueue c tp p)) = image_mset (item_key c) (mset initial) + mset (?k # extra)"
      using False e(1) by (simp add: enqueue_def Let_def all_items_def item_key_def)
    moreover have "pl_scanned (enqueue c tp p) = insert ?k (pl_scanned p)" "pl_mentioned (enqueue c tp p) = insert ?k (pl_mentioned p)"
      using False by (simp_all add: enqueue_def Let_def)
    moreover have "distinct (?k # extra)" "set (?k # extra) \<inter> (prev \<union> item_key c ` set initial) = {}"
      using e(2,3,5) False by simp_all
    moreover have "pl_scanned (enqueue c tp p) = prev \<union> item_key c ` set initial \<union> set (?k # extra)"
      "set (?k # extra) \<subseteq> pl_mentioned (enqueue c tp p)" "pl_mentioned (enqueue c tp p) \<subseteq> pl_scanned (enqueue c tp p)"
      unfolding calculation(2,3) using e(4-6) by auto
    ultimately show ?thesis unfolding pool_inv_def by blast
  qed
qed

lemma enqueue_all_inv: "pool_inv c initial prev tr p \<Longrightarrow> pool_inv c initial prev tr (fold (enqueue c) ms p)"
  by (induction ms arbitrary: p) (simp_all add: enqueue_inv)

lemma on_result_inv: "pool_inv c initial prev tr p \<Longrightarrow> pool_inv c initial prev tr (on_result c r p)"
proof -
  assume "pool_inv c initial prev tr p"
  moreover have "pool_inv c initial prev tr p \<Longrightarrow> pl_pending q = pl_pending p \<Longrightarrow> pl_flight q = pl_flight p \<Longrightarrow> pl_scanned q = pl_scanned p
    \<Longrightarrow> pl_mentioned q = pl_mentioned p \<Longrightarrow> pool_inv c initial prev tr q" for q by (simp add: pool_inv_def all_items_def)
  ultimately show ?thesis unfolding on_result_def Let_def by (auto intro!: enqueue_all_inv)
qed

lemma pool_step_inv:
  assumes "pool_step c scan p i p'" "pool_inv c initial prev tr p"
  shows "pool_inv c initial prev (tr @ [i]) p'" and "pool_busy c p'"
proof -
  obtain k r where k: "k < length (pl_flight p)" "i = pl_flight p ! k"
    and p': "p' = fill c (on_result c r (p\<lparr>pl_flight := remove_at k (pl_flight p)\<rparr>))" using assms(1) by (rule pool_stepE) blast
  let ?q = "p\<lparr>pl_flight := remove_at k (pl_flight p)\<rparr>"
  have "all_items (tr @ [i]) ?q = all_items tr p" using mset_remove_at [OF k(1)] k(2) by (simp add: all_items_def)
  then have "pool_inv c initial prev (tr @ [i]) ?q" using assms(2) by (simp add: pool_inv_def)
  then have "pool_inv c initial prev (tr @ [i]) (on_result c r ?q)" by (rule on_result_inv)
  then show "pool_inv c initial prev (tr @ [i]) p'" unfolding p' pool_inv_def fill_items .
  show "pool_busy c p'" unfolding p' by (rule fill_busy)
qed

lemma pool_run_inv:
  assumes "pool_run c scan p0 tr p" "p0 = pool_start c initial prev net"
  shows "pool_inv c initial prev tr p \<and> pool_busy c p"
  using assms
proof (induction rule: pool_run.induct)
  case start
  have "all_items [] (pool_start c initial prev net) = mset initial" by (simp add: pool_start_def fill_items) (simp add: all_items_def)
  then show ?case using start by (simp add: pool_inv_def) (simp add: pool_start_def fill_items fill_busy)
next
  case (more tr q i q')
  then show ?case using pool_step_inv by blast
qed

text \<open>In whatever order the workers answer, no transponder is scanned twice in a pass, when the first ones are different and
  new.\<close>

theorem pool_scans_once:
  assumes "pool_run c scan (pool_start c initial prev net) tr p" "distinct (map (item_key c) initial)"
  shows "distinct (map (item_key c) tr)"
proof -
  obtain extra where e: "image_mset (item_key c) (all_items tr p) = image_mset (item_key c) (mset initial) + mset extra" "distinct extra"
      "set extra \<inter> (prev \<union> item_key c ` set initial) = {}"
    using pool_run_inv [OF assms(1) refl] by (auto simp: pool_inv_def)
  have "mset (map (item_key c) (tr @ pl_flight p @ pl_pending p)) = mset (map (item_key c) initial @ extra)"
    using e(1) by (simp add: all_items_def add.assoc)
  moreover have "distinct (map (item_key c) initial @ extra)" using assms(2) e(2,3) by auto
  ultimately have "distinct (map (item_key c) (tr @ pl_flight p @ pl_pending p))" by (metis mset_eq_imp_distinct_iff)
  then show ?thesis by simp
qed


text \<open>C12: A pass ends: with finitely many transponders to be named, no run is longer than their number and that of the first ones.\<close>

theorem pool_terminates:
  assumes "pool_run c scan (pool_start c initial prev net) tr p" "finite U"
    and "\<forall>i r. scan i r \<longrightarrow> muxKey (pc_float c) ` set (sn_nitMuxes r) \<subseteq> U"
  shows "length tr \<le> length initial + card U"
proof -
  have "pl_mentioned p \<subseteq> U"
    using assms(1)
  proof (induction "pool_start c initial prev net" tr p rule: pool_run.induct)
    case start
    then show ?case by (simp add: pool_start_def fill_items)
  next
    case (more tr q i q')
    obtain r where r: "scan i r" and q': "\<exists>k. q' = fill c (on_result c r (q\<lparr>pl_flight := remove_at k (pl_flight q)\<rparr>))"
      using more(3) by (rule pool_stepE) blast
    have en: "pl_mentioned (fold (enqueue c) ms x) = pl_mentioned x \<union> muxKey (pc_float c) ` set ms" for ms x
      by (induction ms arbitrary: x) (auto simp: enqueue_def Let_def)
    have "muxKey (pc_float c) ` set (sn_nitMuxes r) \<subseteq> U" using assms(3) r by blast
    then have "pl_mentioned (on_result c r x) \<subseteq> pl_mentioned x \<union> U" for x by (auto simp: on_result_def Let_def en)
    then show ?case using q' more(2) by (fastforce simp: fill_items)
  qed
  moreover obtain extra where e: "image_mset (item_key c) (all_items tr p) = image_mset (item_key c) (mset initial) + mset extra" "distinct extra"
      "set extra \<subseteq> pl_mentioned p"
    using pool_run_inv [OF assms(1) refl] by (auto simp: pool_inv_def)
  ultimately have "length extra \<le> card U" using distinct_card [OF e(2)] card_mono [OF assms(2)] by (metis subset_trans)
  moreover have "length tr \<le> size (all_items tr p)" by (simp add: all_items_def)
  moreover have "size (all_items tr p) = length initial + length extra" using arg_cong [OF e(1), of size] by simp
  ultimately show ?thesis by simp
qed

section \<open>Results and seeds\<close>

text \<open>Every transponder of a scan ends in exactly one of three places: it has channels, it is listed without signal, or
  it is listed with an error.\<close>

theorem scan_accounts_for_all:
  assumes "scan_device scan host (Inr (muxes, net)) = Inr r" "\<forall>t. sn_tp (scan t) = t"
  shows "mset (sr_NoSignalMuxes r) + mset (sr_ErrorMuxes r) + mset (filter (\<lambda>t. sn_err (scan t) = None \<and> sn_channels (scan t) \<noteq> []) muxes) = mset muxes"
proof -
  have "mset (filter (\<lambda>t. sn_err (scan t) = None \<and> sn_channels (scan t) = []) ms) + mset (filter (\<lambda>t. sn_err (scan t) \<noteq> None) ms)
      + mset (filter (\<lambda>t. sn_err (scan t) = None \<and> sn_channels (scan t) \<noteq> []) ms) = mset ms" for ms
    by (induction ms) auto
  moreover have "map sn_tp (filter P (map scan ms)) = filter (\<lambda>t. P (scan t)) ms" for P ms
    using assms(2) by (induction ms) auto
  ultimately show ?thesis using assms(1) by (auto simp: scan_device_def Let_def split: if_splits)
qed

text \<open>The channels come in the order of frequency and service, and are those of the transponders without an error.\<close>

lemma channel_order: "slice_order channel_less"
  unfolding channel_less_def by (rule slice_order_key2)

theorem scan_channels_sorted:
  assumes "scan_device scan host (Inr (muxes, net)) = Inr r"
  shows "sorted_wrt (\<lambda>a b. \<not> channel_less b a) (sr_Channels r)
    \<and> set (sr_Channels r) = (\<Union>t \<in> {t \<in> set muxes. sn_err (scan t) = None}. set (sn_channels (scan t)))"
  using assms slice_order.slice_sorted [OF channel_order]
  by (auto simp: scan_device_def Let_def split: if_splits)

text \<open>The key of a satellite transponder leaves its polarisation out: of two transponders on one frequency, which
  satellites carry with opposite polarisations, the second that a table names is never scanned.\<close>

theorem polarisation_not_in_key:
  assumes "tp_System a = ''dvbs2''" "b = a\<lparr>tp_Polarization := pol, tp_SymbolRateKS := sr\<rparr>" "muxKey (pc_float c) a \<in> pl_scanned p"
  shows "pl_pending (enqueue c b p) = pl_pending p"
  using assms by (simp add: enqueue_def muxKey_def Let_def)

text \<open>The transponder by which a satellite is recognised is one of its seeds.\<close>

theorem detection_seeds_are_seeds:
  "\<forall>(i, t) \<in> set satelliteDetectionSeeds. t \<in> set (seeds_of europeanSatellites i)"
  by (simp add: satelliteDetectionSeeds_def europeanSatellites_def seeds_of_def astra28E_def astra19E_def hotbird13E_def thor08W_def
      hispasat30W_def sat_seed_def zero_tp_def)

section \<open>A run of the pool\<close>

definition demo_floats :: float_lib where
  "demo_floats = \<lparr>fl_g = \<lambda>r. show_int \<lfloor>r\<rfloor>, fl_0f = \<lambda>r. if r = 474 then ''474'' else if r = 482 then ''482'' else [], fl_Parse = \<lambda>s. map_option of_int (Atoi s)\<rparr>"

definition demo_cfg :: pool_cfg where
  "demo_cfg = \<lparr>pc_float = demo_floats, pc_workers = 1, pc_seedTimeout = 20, pc_muxTimeout = 60, pc_retry = False, pc_initial = {}\<rparr>"

definition demo_item :: "nat \<Rightarrow> workItem" where
  "demo_item ch = \<lparr>wi_tp = uhf_seed ''dvbt'' ''64qam'' ch, wi_timeout = 20, wi_signalOnly = False\<rparr>"

definition demo_answer :: "workItem \<Rightarrow> scan_result" where
  "demo_answer i = \<lparr>sn_tp = wi_tp i, sn_channels = [], sn_nitMuxes = map (uhf_seed ''dvbt'' ''64qam'') [21, 22], sn_networkID = 1,
     sn_networkName = ''n'', sn_err = None, sn_patReceived = True, sn_nitComplete = False, sn_signalOnly = False\<rparr>"

lemma demo_keys: "muxKey demo_floats (uhf_seed ''dvbt'' ''64qam'' 21) = ''474/dvbt''" "muxKey demo_floats (uhf_seed ''dvbt'' ''64qam'' 22) = ''482/dvbt''"
  by (simp_all add: muxKey_def demo_floats_def uhf_seed_def)

lemma demo_result:
  assumes "''474/dvbt'' \<in> pl_scanned q"
  shows "pl_flight (on_result demo_cfg (demo_answer i) q) = pl_flight q"
    and "pl_pending (on_result demo_cfg (demo_answer i) q)
      = (if ''482/dvbt'' \<in> pl_scanned q then pl_pending q else (demo_item 22)\<lparr>wi_signalOnly := pl_complete q\<rparr> # pl_pending q)"
    and "pl_scanned (on_result demo_cfg (demo_answer i) q) = insert ''482/dvbt'' (pl_scanned q)"
    and "pl_complete (on_result demo_cfg (demo_answer i) q) = pl_complete q"
proof -
  have ns: "\<not> no_signal (demo_answer i)" by (simp add: no_signal_def demo_answer_def)
  have f: "pc_float demo_cfg = demo_floats" "pc_seedTimeout demo_cfg = 20" by (simp_all add: demo_cfg_def)
  have sys: "tp_System (uhf_seed ''dvbt'' m ch) = ''dvbt''" for m ch by (simp add: uhf_seed_def)
  have suf: "\<not> HasSuffix ''dvbt'' ''2''" by (simp add: HasSuffix_def suffix_def)
  have nit: "sn_nitMuxes (demo_answer i) = [uhf_seed ''dvbt'' ''64qam'' 21, uhf_seed ''dvbt'' ''64qam'' 22]" "\<not> sn_nitComplete (demo_answer i)"
    by (simp_all add: demo_answer_def)
  let ?r = "on_result demo_cfg (demo_answer i) q"
  have "pl_flight ?r = pl_flight q \<and> pl_pending ?r = (if ''482/dvbt'' \<in> pl_scanned q then pl_pending q else (demo_item 22)\<lparr>wi_signalOnly := pl_complete q\<rparr> # pl_pending q)
     \<and> pl_scanned ?r = insert ''482/dvbt'' (pl_scanned q) \<and> pl_complete ?r = pl_complete q"
    using assms ns by (auto simp: on_result_def Let_def nit enqueue_def f demo_keys sys suf demo_item_def)
  then show "pl_flight ?r = pl_flight q" "pl_pending ?r = (if ''482/dvbt'' \<in> pl_scanned q then pl_pending q else (demo_item 22)\<lparr>wi_signalOnly := pl_complete q\<rparr> # pl_pending q)"
     "pl_scanned ?r = insert ''482/dvbt'' (pl_scanned q)" "pl_complete ?r = pl_complete q" by simp_all
qed

lemma demo_run:
  obtains p where "pool_run demo_cfg (\<lambda>i r. r = demo_answer i) (pool_start demo_cfg [demo_item 21] {} []) [demo_item 21, demo_item 22] p"
    "pl_flight p = []"
proof -
  let ?scan = "\<lambda>i r. r = demo_answer i"
  let ?p0 = "pool_start demo_cfg [demo_item 21] {} []"
  have w: "pc_workers demo_cfg = 1" "(demo_item ch)\<lparr>wi_signalOnly := False\<rparr> = demo_item ch" for ch by (simp_all add: demo_cfg_def demo_item_def)
  have p0: "pl_flight ?p0 = [demo_item 21]" "pl_pending ?p0 = []" "pl_scanned ?p0 = {''474/dvbt''}" "\<not> pl_complete ?p0"
    by (simp_all add: pool_start_def fill_def Let_def demo_cfg_def item_key_def demo_item_def demo_keys)
  define q where "q = on_result demo_cfg (demo_answer (demo_item 21)) (?p0\<lparr>pl_flight := []\<rparr>)"
  have q: "pl_flight q = []" "pl_pending q = [demo_item 22]" "pl_scanned q = {''474/dvbt'', ''482/dvbt''}"
    using p0 by (simp_all add: q_def demo_result w insert_commute)
  have s1: "pool_step demo_cfg ?scan ?p0 (demo_item 21) (fill demo_cfg q)"
    using pool_step.answer [of 0 ?p0 ?scan] p0(1) by (simp add: q_def remove_at_def)
  have f: "pl_flight (fill demo_cfg q) = [demo_item 22]" "pl_pending (fill demo_cfg q) = []" "pl_scanned (fill demo_cfg q) = pl_scanned q"
    using q by (simp_all add: fill_def Let_def w)
  define r where "r = on_result demo_cfg (demo_answer (demo_item 22)) ((fill demo_cfg q)\<lparr>pl_flight := []\<rparr>)"
  have s2: "pool_step demo_cfg ?scan (fill demo_cfg q) (demo_item 22) (fill demo_cfg r)"
    using pool_step.answer [of 0 "fill demo_cfg q" ?scan] f(1) by (simp add: r_def remove_at_def)
  have "pl_flight (fill demo_cfg r) = []" using f q by (simp add: fill_def [of _ r] Let_def) (simp add: r_def demo_result)
  then show ?thesis using that [of "fill demo_cfg r"] pool_run.more [OF pool_run.more [OF pool_run.start s1] s2] by simp
qed


theorem pool_scans_once_witness:
  "distinct (map (item_key demo_cfg) [demo_item 21, demo_item 22])"
proof -
  obtain p where p: "pool_run demo_cfg (\<lambda>i r. r = demo_answer i) (pool_start demo_cfg [demo_item 21] {} []) [demo_item 21, demo_item 22] p"
    "pl_flight p = []" by (rule demo_run)
  show ?thesis using pool_scans_once [OF p(1)] by simp
qed

theorem pool_terminates_witness:
  "length [demo_item 21, demo_item 22] \<le> length [demo_item 21] + card {''474/dvbt'', ''482/dvbt''}"
proof -
  obtain p where p: "pool_run demo_cfg (\<lambda>i r. r = demo_answer i) (pool_start demo_cfg [demo_item 21] {} []) [demo_item 21, demo_item 22] p"
    "pl_flight p = []" by (rule demo_run)
  show ?thesis
    by (rule pool_terminates [OF p(1)]) (simp_all add: demo_answer_def demo_cfg_def demo_keys)
qed

theorem scan_finds_services_witness:
  "map dc_ServiceID (sn_channels (scanTransponder demo_floats
     (\<lambda>tp pids. Inr ([] @ \<lparr>dd_PAT = Some [(0, 16), (7, 100), (3, 101)], dd_SDT = None, dd_NIT = None, dd_PMT = None, dd_First = None\<rparr> # []))
     zero_tp ''all'')) = [3, 7]"
proof -
  have strict: "sorted_wrt (<) [3, 7 :: u16]" by simp
  let ?d = "\<lparr>dd_PAT = Some [(0, 16), (7, 100), (3, 101)], dd_SDT = None, dd_NIT = None, dd_PMT = None, dd_First = None\<rparr>"
  have "let chs = sn_channels (scanTransponder demo_floats (\<lambda>tp pids. Inr ([] @ ?d # [])) zero_tp ''all'')
    in sorted_wrt (<) (map dc_ServiceID chs) \<and> set (map dc_ServiceID chs) = {n \<in> fst ` set [(0, 16), (7, 100 :: u16), (3 :: u16, 101)]. n \<noteq> 0}"
    by (rule scan_finds_services [of _ _ _ "[]" ?d "[]"]) simp_all
  moreover have "sorted_wrt (<) ys \<and> set ys = {n \<in> fst ` set [(0, 16), (7, 100 :: u16), (3 :: u16, 101)]. n \<noteq> 0} \<Longrightarrow> ys = [3, 7]" for ys
  proof -
    have "{n \<in> fst ` set [(0, 16), (7, 100 :: u16), (3 :: u16, 101)]. n \<noteq> 0} = set [3, 7]" by auto
    then show "sorted_wrt (<) ys \<and> set ys = {n \<in> fst ` set [(0, 16), (7, 100 :: u16), (3 :: u16, 101)]. n \<noteq> 0} \<Longrightarrow> ys = [3, 7]"
      by (metis strict_sorted_equal [of "[3, 7] :: u16 list" ys] strict)
  qed
  ultimately show ?thesis unfolding Let_def by blast
qed

end
