(* ===== verification/TunerSources.thy ===== *)
theory TunerSources
  imports SatScan M3uRefresh
begin

text \<open>
  The sources that are tuners on the network: SAT>IP devices (\<open>pkg/service/satip.go\<close>) and HDHomeRun devices
  (\<open>pkg/service/hdhr_source.go\<close>), over their source stores, the database stream store and the channel store.
  What a device answers, the hash that names a stream, the clock and the outcome of every write are inputs; syncing the
  database has no effect on the state.
\<close>

section \<open>The state\<close>

text \<open>What is given to the probe cache: whether there is video, its codec, and codec and language of the audio tracks.\<close>

record tuner_probe =
  tq_HasVideo :: bool
  tq_Video :: "string option"
  tq_Audio :: "(string \<times> string) list"

record 'b tuner_service =
  tv_streams :: "'b BoltStreamStore"
  tv_channels :: channels
  tv_status :: "ident \<Rightarrow> RefreshStatus"
  tv_probes :: "(ident \<times> tuner_probe) list"
  tv_headers :: "(ident \<times> byte list) list"

record 'b satip_service = "'b tuner_service" +
  tv_satip :: satip_sources

record 'b hdhr_service = "'b tuner_service" +
  tv_hdhr :: hdhr_sources

record tuner_in =
  ti_tx :: "nat \<Rightarrow> error option"
  ti_now :: time
  ti_stale_tx :: "error option"
  ti_map_env :: env
  ti_done :: time
  ti_done_env :: env
  ti_count_env :: env
  ti_start_env :: env
  ti_error_env :: env
  ti_id :: "string \<Rightarrow> ident"

definition tuner_status :: "ident \<Rightarrow> RefreshStatus \<Rightarrow> ('b, 'm) tuner_service_scheme \<Rightarrow> ('b, 'm) tuner_service_scheme" where
  "tuner_status i st s = s\<lparr>tv_status := (tv_status s)(i := st)\<rparr>"

definition tuner_error :: "string \<Rightarrow> RefreshStatus" where
  "tuner_error msg = \<lparr>rs_State = ''error'', rs_Message = msg, rs_Total = 0, rs_Progress = 0\<rparr>"

text \<open>Both services save the streams of a scan and drop the source's streams that are not to be kept, from the store and from the
  channels; the first result is the error of the upsert, the second the streams that were dropped.\<close>

definition save_streams :: "source_kind \<Rightarrow> tuner_in \<Rightarrow> ident \<Rightarrow> Stream list \<Rightarrow> ident list \<Rightarrow> ('b, 'm) tuner_service_scheme
    \<Rightarrow> error option \<times> ('b, 'm) tuner_service_scheme" where
  "save_streams k e src sts keep s =
     (case Bolt_BulkUpsert (ti_tx e) (ti_now e) sts (tv_streams s) of
        (Some x, b) \<Rightarrow> (Some x, s\<lparr>tv_streams := b\<rparr>)
      | (None, b) \<Rightarrow>
          (let (gone, b2) = deleteStaleByIndex (ti_stale_tx e) (bs_source k b) (src @ ''/'') keep b;
               s1 = s\<lparr>tv_streams := b2\<rparr>
           in (None, if gone = [] then s1
                else s1\<lparr>tv_channels := snd (ChannelStore_RemoveStreamMappings (ti_map_env e) gone (tv_channels s1))\<rparr>)))"

section \<open>SAT>IP devices\<close>

definition satipTracks :: "StreamComponent list \<Rightarrow> StreamTrack list" where
  "satipTracks cs = map (\<lambda>c. \<lparr>tr_PID = sc_PID c, tr_Type = sc_TypeName c, tr_Category = sc_Category c, tr_Language = sc_Language c,
     tr_AudioType = sc_AudioType c, tr_Label = sc_Label c\<rparr>) cs"

definition satipStreamGroup :: "byte \<Rightarrow> string" where
  "satipStreamGroup t = (if t \<in> {0x02, 0x07, 0x0A} then ''Radio'' else if t \<in> {0x11, 0x19, 0x1F, 0x20} then ''HD'' else ''SD'')"

definition satip_hash :: "ident \<Rightarrow> u16 \<Rightarrow> string" where
  "satip_hash src i = src @ '':'' @ show_nat (unat i)"

definition satip_stream :: "tuner_in \<Rightarrow> float_lib \<Rightarrow> SatIPSource \<Rightarrow> DvbChannel \<Rightarrow> Stream" where
  "satip_stream e fl src ch = zero_stream\<lparr>st_ID := ti_id e (satip_hash (sa_ID src) (dc_ServiceID ch)), st_SatIPSourceID := sa_ID src,
     st_Name := dc_Name ch, st_URL := channel_RTSPURL fl ch (sa_Host src), st_Group := satipStreamGroup (dc_ServiceType ch),
     st_ContentHash := satip_hash (sa_ID src) (dc_ServiceID ch), st_IsActive := True, st_Tracks := satipTracks (dc_Streams ch)\<rparr>"

definition satip_probe :: "Stream \<Rightarrow> tuner_probe" where
  "satip_probe st = (let hasVideo = (st_Group st \<noteq> ''Radio'') in
     \<lparr>tq_HasVideo = hasVideo,
      tq_Video = (if hasVideo then map_option tr_Type (find (\<lambda>t. tr_Category t = ''video'') (st_Tracks st)) else None),
      tq_Audio = map (\<lambda>t. (tr_Type t, tr_Language t)) (filter (\<lambda>t. tr_Category t = ''audio'') (st_Tracks st))\<rparr>)"

text \<open>\<open>url.Parse\<close> and \<open>Query().Get\<close> on the addresses that a scan builds, which have no escapes.\<close>

definition url_query :: "string \<Rightarrow> string \<Rightarrow> string" where
  "url_query url k =
     (case str_index url ''?'' of
        None \<Rightarrow> []
      | Some i \<Rightarrow>
          (case find (\<lambda>p. HasPrefix p (k @ ''='')) (Split1 (CHR ''&'') (drop (Suc i) url)) of
             None \<Rightarrow> [] | Some p \<Rightarrow> drop (length k + 1) p))"

definition satipMuxKeyFromURL :: "string \<Rightarrow> string" where
  "satipMuxKeyFromURL url =
     (let freq = url_query url ''freq''; msys = url_query url ''msys'' in
      if freq = [] \<or> msys = [] then []
      else if msys = ''dvbt2'' then freq @ ''/'' @ msys @ ''/'' @ (let plp = url_query url ''plp'' in if plp = [] then ''0'' else plp)
      else freq @ ''/'' @ msys)"

text \<open>\<open>net.SplitHostPort\<close> succeeds, and \<open>net.JoinHostPort\<close>\<close>

definition has_port :: "string \<Rightarrow> bool" where
  "has_port h = (case str_last_index h '':'' of
      None \<Rightarrow> False
    | Some i \<Rightarrow>
        if HasPrefix h ''['' then
          (case str_index h '']'' of None \<Rightarrow> False
           | Some j \<Rightarrow> j + 1 = i \<and> \<not> str_contains (drop 1 h) ''['' \<and> \<not> str_contains (drop (j + 1) h) '']'')
        else CHR '':'' \<notin> set (take i h) \<and> \<not> str_contains h ''['' \<and> \<not> str_contains h '']'')"

definition JoinHostPort :: "string \<Rightarrow> string \<Rightarrow> string" where
  "JoinHostPort host port = (if CHR '':'' \<in> set host then ''['' @ host @ '']:'' @ port else host @ '':'' @ port)"

definition satip_finalize :: "tuner_in \<Rightarrow> SatIPSource \<Rightarrow> Stream list \<Rightarrow> ident list \<Rightarrow> 'b satip_service \<Rightarrow> error option \<times> 'b satip_service" where
  "satip_finalize e src sts keep s =
     (case save_streams SatIP e (sa_ID src) sts keep s of
        (Some x, s1) \<Rightarrow> (Some (''upserting streams: '' @ x), s1)
      | (None, s1) \<Rightarrow>
          (case SatIPStore_UpdateLastScanned (ti_done_env e) (sa_ID src) (ti_done e) (tv_satip s1) of
             (Some x, ss) \<Rightarrow> (Some (''updating last scanned: '' @ x), s1\<lparr>tv_satip := ss\<rparr>)
           | (None, ss) \<Rightarrow>
               (case SatIPStore_UpdateStreamCount (ti_count_env e) (sa_ID src) (int (length sts)) ss of
                  (Some x, ss2) \<Rightarrow> (Some (''updating stream count: '' @ x), s1\<lparr>tv_satip := ss2\<rparr>)
                | (None, ss2) \<Rightarrow> (None, s1\<lparr>tv_satip := ss2\<rparr>))))"

text \<open>The transponders without signal or with an error keep their streams.\<close>

definition silent_keys :: "float_lib \<Rightarrow> ScanResult \<Rightarrow> string set" where
  "silent_keys fl r = muxKey fl ` set (sr_NoSignalMuxes r @ sr_ErrorMuxes r)"

definition silent_streams :: "float_lib \<Rightarrow> ScanResult \<Rightarrow> Stream list \<Rightarrow> ident list" where
  "silent_streams fl r existing = map st_ID (filter (\<lambda>st. satipMuxKeyFromURL (st_URL st) \<in> silent_keys fl r) existing)"

definition satip_scanSource :: "tuner_in \<Rightarrow> float_lib \<Rightarrow> (string \<Rightarrow> int \<Rightarrow> string \<Rightarrow> error + ScanResult) \<Rightarrow> SatIPSource \<Rightarrow> 'b satip_service
    \<Rightarrow> error option \<times> 'b satip_service" where
  "satip_scanSource e fl scan src s =
     (let s0 = tuner_status (sa_ID src) (running ''Discovering muxes via NIT...'' 0 0) s;
          httpPort = (if sa_HTTPPort src = 0 then 8875 else sa_HTTPPort src);
          scanHost = (if has_port (sa_Host src) then sa_Host src else JoinHostPort (sa_Host src) ''554'')
      in case scan scanHost httpPort (sa_TransmitterFile src) of
           Inl x \<Rightarrow> (Some (''scanning satip device: '' @ x), s0)
         | Inr r \<Rightarrow>
             (let s1 = tuner_status (sa_ID src) (running (''Found '' @ show_nat (length (sr_Channels r)) @ '' channels, saving...'') 0 0) s0;
                  sts = map (satip_stream e fl src) (sr_Channels r);
                  s2 = s1\<lparr>tv_probes := tv_probes s1 @ map (\<lambda>st. (st_ID st, satip_probe st)) sts\<rparr>;
                  kept = silent_streams fl r (Bolt_ListBySatIPSourceID (sa_ID src) (tv_streams s2))
              in satip_finalize e src sts (map st_ID sts @ kept) s2))"

definition SatIP_ScanSource :: "tuner_in \<Rightarrow> float_lib \<Rightarrow> (string \<Rightarrow> int \<Rightarrow> string \<Rightarrow> error + ScanResult) \<Rightarrow> ident \<Rightarrow> 'b satip_service
    \<Rightarrow> error option \<times> 'b satip_service" where
  "SatIP_ScanSource e fl scan i s =
     (case SatIPStore_GetByID i (tv_satip s) of
        Inl x \<Rightarrow> (Some (''getting satip source: '' @ x), s)
      | Inr src \<Rightarrow>
          (case satip_scanSource e fl scan src (tuner_status i (running ''Scanning device capabilities...'' 0 0) s) of
             (Some x, s1) \<Rightarrow> (Some x, tuner_status i (tuner_error x) (s1\<lparr>tv_satip := snd (SatIPStore_UpdateLastError (ti_error_env e) (sa_ID src) x (tv_satip s1))\<rparr>))
           | (None, s1) \<Rightarrow> (None, tuner_status i \<lparr>rs_State = ''done'', rs_Message = ''Scan complete'', rs_Total = 0, rs_Progress = 0\<rparr>
               (s1\<lparr>tv_satip := snd (SatIPStore_UpdateLastError (ti_error_env e) (sa_ID src) [] (tv_satip s1))\<rparr>))))"

definition SatIP_CreateSource :: "env \<Rightarrow> SatIPSource \<Rightarrow> 'b satip_service \<Rightarrow> error option \<times> 'b satip_service" where
  "SatIP_CreateSource e src s = (case SatIPStore_Create e src (tv_satip s) of (r, ss) \<Rightarrow> (map_option (\<lambda>x. ''creating satip source: '' @ x) r, s\<lparr>tv_satip := ss\<rparr>))"

definition SatIP_GetSource :: "ident \<Rightarrow> 'b satip_service \<Rightarrow> error + SatIPSource" where
  "SatIP_GetSource i s = (case SatIPStore_GetByID i (tv_satip s) of Inl x \<Rightarrow> Inl (''getting satip source: '' @ x) | Inr a \<Rightarrow> Inr a)"

definition SatIP_UpdateSource :: "env \<Rightarrow> SatIPSource \<Rightarrow> 'b satip_service \<Rightarrow> error option \<times> 'b satip_service" where
  "SatIP_UpdateSource e src s = (case SatIPStore_Update e src (tv_satip s) of (r, ss) \<Rightarrow> (map_option (\<lambda>x. ''updating satip source: '' @ x) r, s\<lparr>tv_satip := ss\<rparr>))"

definition SatIP_DeleteSource :: "env \<Rightarrow> error option \<Rightarrow> ident \<Rightarrow> 'b satip_service \<Rightarrow> error option \<times> 'b satip_service" where
  "SatIP_DeleteSource e tx i s =
     (let s1 = s\<lparr>tv_streams := Bolt_DeleteBySatIPSourceID tx i (tv_streams s)\<rparr>
      in case SatIPStore_Delete e i (tv_satip s1) of (r, ss) \<Rightarrow> (map_option (\<lambda>x. ''deleting satip source: '' @ x) r, s1\<lparr>tv_satip := ss\<rparr>))"

definition SatIP_ClearSource :: "env \<Rightarrow> env \<Rightarrow> error option \<Rightarrow> ident \<Rightarrow> 'b satip_service \<Rightarrow> error option \<times> 'b satip_service" where
  "SatIP_ClearSource me ce tx i s =
     (case SatIPStore_GetByID i (tv_satip s) of
        Inl x \<Rightarrow> (Some (''getting satip source: '' @ x), s)
      | Inr src \<Rightarrow>
          (let gone = map st_ID (Bolt_ListBySatIPSourceID i (tv_streams s));
               s1 = s\<lparr>tv_streams := Bolt_DeleteBySatIPSourceID tx i (tv_streams s)\<rparr>;
               s2 = (if gone = [] then s1 else s1\<lparr>tv_channels := snd (ChannelStore_RemoveStreamMappings me gone (tv_channels s1))\<rparr>)
           in (None, s2\<lparr>tv_satip := snd (SatIPStore_UpdateStreamCount ce i 0 (tv_satip s2))\<rparr>)))"

section \<open>HDHomeRun devices\<close>

record hdhrDiscoverResp =
  hr_FriendlyName :: string
  hr_ModelNumber :: string
  hr_FirmwareVersion :: string
  hr_DeviceID :: string
  hr_TunerCount :: int
  hr_LineupURL :: string

record hdhrLineupEntry =
  hl_GuideNumber :: string
  hl_GuideName :: string
  hl_VideoCodec :: string
  hl_AudioCodec :: string
  hl_URL :: string
  hl_HD :: int
  hl_DRM :: int

text \<open>What the network answers to a request for a JSON document: no request, no answer, a status, and the document or the error
  of the decoder.\<close>

datatype 'a json_answer = NoRequest error | NoReply error | JsonReply int "error + 'a"

fun fetch_json :: "string \<Rightarrow> string \<Rightarrow> string \<Rightarrow> 'a json_answer \<Rightarrow> error + 'a" where
  "fetch_json c d p (NoRequest x) = Inl x"
| "fetch_json c d p (NoReply x) = Inl (c @ x)"
| "fetch_json c d p (JsonReply st body) = (if st \<noteq> 200 then Inl (d @ show_int st) else case body of Inl x \<Rightarrow> Inl (p @ x) | Inr v \<Rightarrow> Inr v)"

record hdhr_net =
  hn_discover :: "string \<Rightarrow> hdhrDiscoverResp json_answer"
  hn_lineup :: "string \<Rightarrow> hdhrLineupEntry list json_answer"
  hn_capture :: "string \<Rightarrow> error + byte list"

definition fetchDiscover :: "hdhr_net \<Rightarrow> string \<Rightarrow> error + hdhrDiscoverResp" where
  "fetchDiscover n baseURL = fetch_json ''connecting to device: '' ''device returned '' ''parsing discover response: '' (hn_discover n (baseURL @ ''/discover.json''))"

definition fetchLineup :: "hdhr_net \<Rightarrow> string \<Rightarrow> error + hdhrLineupEntry list" where
  "fetchLineup n url = fetch_json ''fetching lineup: '' ''lineup returned '' ''parsing lineup: '' (hn_lineup n url)"

definition normalizeHDHRHost :: "string \<Rightarrow> string" where
  "normalizeHDHRHost host = (let trimmed = rev (dropWhile (\<lambda>c. c = CHR ''/'') (rev host))
     in if HasPrefix host ''http://'' \<or> HasPrefix host ''https://'' then trimmed else ''http://'' @ trimmed)"

definition playable :: "hdhrLineupEntry \<Rightarrow> bool" where
  "playable en \<longleftrightarrow> hl_URL en \<noteq> [] \<and> hl_DRM en \<noteq> 1"

definition hdhr_stream :: "tuner_in \<Rightarrow> ident \<Rightarrow> hdhrLineupEntry \<Rightarrow> Stream" where
  "hdhr_stream e src en = zero_stream\<lparr>st_ID := ti_id e (src @ '':'' @ hl_GuideNumber en), st_HDHRSourceID := src, st_Name := hl_GuideName en,
     st_URL := hl_URL en,
     st_Group := (if hl_VideoCodec en = [] \<or> EqualFold (hl_VideoCodec en) ''none'' then ''Radio'' else if hl_HD en = 1 then ''HD'' else ''SD''),
     st_TvgID := hl_GuideNumber en, st_IsActive := True\<rparr>"

definition hdhrProbeFromLineup :: "hdhrLineupEntry \<Rightarrow> tuner_probe" where
  "hdhrProbeFromLineup en =
     (let v = ToLower (hl_VideoCodec en); a = ToLower (hl_AudioCodec en); hasVideo = (v \<noteq> [] \<and> v \<noteq> ''none'')
      in \<lparr>tq_HasVideo = hasVideo,
          tq_Video = (if \<not> hasVideo then None else Some (if v = ''mpeg2'' then ''mpeg2video'' else if v \<in> {''hevc'', ''h265''} then ''hevc'' else ''h264'')),
          tq_Audio = [(if a \<in> {''mpeg'', ''mp2''} then ''mp2'' else if a = ''ac3'' then ''ac3'' else ''aac_latm'', ''eng'')]\<rparr>)"

text \<open>The address a stream header is captured from: the first playable HD entry, or else the first playable one.\<close>

definition captureURL :: "hdhrLineupEntry list \<Rightarrow> string option" where
  "captureURL lineup = (case find (\<lambda>en. hl_HD en = 1 \<and> playable en) lineup of
      Some en \<Rightarrow> Some (hl_URL en)
    | None \<Rightarrow> map_option hl_URL (find playable lineup))"

definition hdhr_fail :: "tuner_in \<Rightarrow> ident \<Rightarrow> string \<Rightarrow> string \<Rightarrow> 'b hdhr_service \<Rightarrow> error option \<times> 'b hdhr_service" where
  "hdhr_fail e i msg x s = (Some (msg @ x), (tuner_status i (tuner_error x) s)\<lparr>tv_hdhr := snd (HDHRSourceStore_UpdateLastError (ti_error_env e) i x (tv_hdhr s))\<rparr>)"

definition HDHR_ScanSource :: "tuner_in \<Rightarrow> hdhr_net \<Rightarrow> ident \<Rightarrow> 'b hdhr_service \<Rightarrow> error option \<times> 'b hdhr_service" where
  "HDHR_ScanSource e n i s =
     (case HDHRSourceStore_GetByID i (tv_hdhr s) of
        Inl x \<Rightarrow> (Some (''source not found: '' @ x), s)
      | Inr src \<Rightarrow>
          (let s0 = (tuner_status i (running ''Connecting to device...'' 0 0) s)\<lparr>tv_hdhr := snd (HDHRSourceStore_UpdateLastError (ti_start_env e) i [] (tv_hdhr s))\<rparr>
           in case hs_Devices src of
                [] \<Rightarrow> (Some ''no devices configured'', tuner_status i (tuner_error ''no devices configured'') s0)
              | dev # _ \<Rightarrow>
                  (let baseURL = normalizeHDHRHost (tn_Host dev)
                   in case fetchDiscover n baseURL of
                        Inl x \<Rightarrow> hdhr_fail e i ''discover failed: '' x s0
                      | Inr d \<Rightarrow>
                          (case fetchLineup n (if hr_LineupURL d \<noteq> [] then hr_LineupURL d else baseURL @ ''/lineup.json'') of
                             Inl x \<Rightarrow> hdhr_fail e i ''lineup failed: '' x s0
                           | Inr lineup \<Rightarrow>
                               (let ens = filter playable lineup;
                                    sts = map (hdhr_stream e i) ens;
                                    s1 = s0\<lparr>tv_probes := tv_probes s0 @ map (\<lambda>en. (st_ID (hdhr_stream e i en), hdhrProbeFromLineup en)) ens\<rparr>;
                                    s2 = (case (if sts = [] then None else captureURL lineup) of
                                        None \<Rightarrow> s1
                                      | Some u \<Rightarrow> (case hn_capture n u of Inl x \<Rightarrow> s1
                                          | Inr h \<Rightarrow> s1\<lparr>tv_headers := tv_headers s1 @ map (\<lambda>st. (st_ID st, h)) sts\<rparr>))
                                in case save_streams HDHR e i sts (map st_ID sts) s2 of
                                     (Some x, s3) \<Rightarrow> hdhr_fail e i ''upserting streams: '' x s3
                                   | (None, s3) \<Rightarrow>
                                       (let hs = snd (HDHRSourceStore_UpdateStreamCount (ti_count_env e) i (int (length sts))
                                              (snd (HDHRSourceStore_UpdateLastScanned (ti_done_env e) i (ti_done e) (tv_hdhr s3))))
                                        in (None, tuner_status i \<lparr>rs_State = ''done'', rs_Message = ''Found '' @ show_nat (length sts) @ '' channels'',
                                             rs_Total = length sts, rs_Progress = length sts\<rparr> (s3\<lparr>tv_hdhr := hs\<rparr>))))))))"

definition HDHR_DeleteSource :: "env \<Rightarrow> error option \<Rightarrow> ident \<Rightarrow> 'b hdhr_service \<Rightarrow> error option \<times> 'b hdhr_service" where
  "HDHR_DeleteSource e tx i s =
     (let s1 = s\<lparr>tv_streams := Bolt_DeleteByHDHRSourceID tx i (tv_streams s)\<rparr>
      in case HDHRSourceStore_Delete e i (tv_hdhr s1) of (r, hs) \<Rightarrow> (r, s1\<lparr>tv_hdhr := hs\<rparr>))"

definition HDHR_ClearSource :: "env \<Rightarrow> error option \<Rightarrow> ident \<Rightarrow> 'b hdhr_service \<Rightarrow> error option \<times> 'b hdhr_service" where
  "HDHR_ClearSource e tx i s = (None, s\<lparr>tv_streams := Bolt_DeleteByHDHRSourceID tx i (tv_streams s),
     tv_hdhr := snd (HDHRSourceStore_UpdateStreamCount e i 0 (tv_hdhr s))\<rparr>)"

definition device_of :: "string \<Rightarrow> hdhrDiscoverResp \<Rightarrow> HDHRTuner" where
  "device_of host d = \<lparr>tn_Host = host, tn_DeviceID = hr_DeviceID d, tn_DeviceModel = hr_ModelNumber d,
     tn_FirmwareVersion = hr_FirmwareVersion d, tn_TunerCount = hr_TunerCount d\<rparr>"

definition total_tuners :: "HDHRTuner list \<Rightarrow> int" where
  "total_tuners ds = sum_list (map tn_TunerCount ds)"

definition known_devices :: "hdhr_sources \<Rightarrow> string list" where
  "known_devices ss = concat (map (\<lambda>a. map tn_DeviceID (hs_Devices a)) ss)"

text \<open>\<open>autoLinkDevices\<close> for the addresses that answered the broadcast.\<close>

fun link_devices :: "hdhr_net \<Rightarrow> string list \<Rightarrow> string list \<Rightarrow> HDHRTuner list \<Rightarrow> HDHRTuner list" where
  "link_devices n [] known ds = ds"
| "link_devices n (ip # ips) known ds =
     (case fetchDiscover n (''http://'' @ ip) of
        Inl x \<Rightarrow> link_devices n ips known ds
      | Inr d \<Rightarrow> if hr_DeviceID d \<in> set known then link_devices n ips known ds
                 else link_devices n ips (hr_DeviceID d # known) (ds @ [device_of ip d]))"

definition autoLinkDevices :: "env \<Rightarrow> hdhr_net \<Rightarrow> error + string list \<Rightarrow> HDHRSource \<Rightarrow> 'b hdhr_service \<Rightarrow> 'b hdhr_service" where
  "autoLinkDevices e n broadcast src s =
     (case broadcast of
        Inl x \<Rightarrow> s
      | Inr ips \<Rightarrow>
          (let ds = link_devices n ips (known_devices (HDHRSourceStore_List (tv_hdhr s))) (hs_Devices src)
           in if ds = [] then s
              else s\<lparr>tv_hdhr := snd (HDHRSourceStore_Update e (src\<lparr>hs_Devices := ds, hs_TunerCount := total_tuners ds\<rparr>) (tv_hdhr s))\<rparr>))"

definition HDHR_CreateSource :: "env \<Rightarrow> env \<Rightarrow> hdhr_net \<Rightarrow> error + string list \<Rightarrow> HDHRSource \<Rightarrow> 'b hdhr_service \<Rightarrow> error option \<times> 'b hdhr_service" where
  "HDHR_CreateSource e e2 n broadcast src s =
     (case HDHRSourceStore_Create e src (tv_hdhr s) of
        (Some x, hs) \<Rightarrow> (Some x, s\<lparr>tv_hdhr := hs\<rparr>)
      | (None, hs) \<Rightarrow> (None, if hs_Devices src = [] then autoLinkDevices e2 n broadcast (hdhr_entry e src) (s\<lparr>tv_hdhr := hs\<rparr>) else s\<lparr>tv_hdhr := hs\<rparr>))"

definition HDHR_AddDevice :: "env \<Rightarrow> hdhr_net \<Rightarrow> HDHRSource \<Rightarrow> string \<Rightarrow> 'b hdhr_service \<Rightarrow> error option \<times> 'b hdhr_service" where
  "HDHR_AddDevice e n zero host s =
     (case fetchDiscover n (normalizeHDHRHost host) of
        Inl x \<Rightarrow> (Some (''connecting to device: '' @ x), s)
      | Inr d \<Rightarrow>
          (case HDHRSourceStore_List (tv_hdhr s) of
             [] \<Rightarrow> (case HDHRSourceStore_Create e (zero\<lparr>hs_Name := ''HDHomeRun'', hs_Devices := [device_of host d], hs_IsEnabled := True,
                       hs_TunerCount := hr_TunerCount d\<rparr>) (tv_hdhr s) of (r, hs) \<Rightarrow> (r, s\<lparr>tv_hdhr := hs\<rparr>))
           | src # _ \<Rightarrow>
               if list_ex (\<lambda>t. tn_DeviceID t = hr_DeviceID d) (hs_Devices src) then (None, s)
               else (let ds = hs_Devices src @ [device_of host d]
                     in case HDHRSourceStore_Update e (src\<lparr>hs_Devices := ds, hs_TunerCount := total_tuners ds\<rparr>) (tv_hdhr s) of
                          (r, hs) \<Rightarrow> (r, s\<lparr>tv_hdhr := hs\<rparr>))))"

section \<open>Saving keeps the channels in step\<close>

definition tuner_ok :: "('b, 'm) tuner_service_scheme \<Rightarrow> bool" where
  "tuner_ok s \<longleftrightarrow> bolt_invar (tv_streams s) \<and> mapped (tv_channels s) \<subseteq> dom (decode (tv_streams s))"

lemma tuner_ok_same: "tv_streams s' = tv_streams s \<Longrightarrow> tv_channels s' = tv_channels s \<Longrightarrow> tuner_ok s' = tuner_ok s"
  by (simp add: tuner_ok_def)

lemma tuner_status_fields [simp]:
  "tv_streams (tuner_status i st s) = tv_streams s" "tv_channels (tuner_status i st s) = tv_channels s"
  by (simp_all add: tuner_status_def)

lemma satip_status [simp]: "tv_satip (tuner_status i st s) = tv_satip s"
  by (simp add: tuner_status_def)

lemma hdhr_status [simp]: "tv_hdhr (tuner_status i st s) = tv_hdhr s"
  by (simp add: tuner_status_def)

lemma save_streams_ok:
  assumes s: "tuner_ok s" and sts: "list_all stream_ok sts" "plain_id src"
  shows "tuner_ok (snd (save_streams k e src sts keep s))"
proof -
  let ?m = "decode (tv_streams s)"
  obtain x b where u: "Bolt_BulkUpsert (ti_tx e) (ti_now e) sts (tv_streams s) = (x, b)" by fastforce
  have r: "bolt_rep (tv_streams s) ?m" and c: "mapped (tv_channels s) \<subseteq> dom ?m" using s by (simp_all add: tuner_ok_def bolt_invar_def)
  obtain n where n: "bolt_rep b (fold (upsert1 (ti_now e)) (take n sts) ?m)"
    by (rule upsert_any [OF r sts(1), of "ti_tx e" "ti_now e"]) (simp add: u)
  let ?M = "fold (upsert1 (ti_now e)) (take n sts) ?m"
  have cM: "mapped (tv_channels s) \<subseteq> dom ?M" using c by (auto simp: upsert_fold_dom)
  show ?thesis
  proof (cases x)
    case (Some y)
    then show ?thesis using rep_invar [OF n] cM by (simp add: save_streams_def u tuner_ok_def)
  next
    case None
    obtain g b2 where gb: "deleteStaleByIndex (ti_stale_tx e) (bs_source k b) (src @ ''/'') keep b = (g, b2)" by fastforce
    have st: "set g = {i. \<exists>st. ?M i = Some st \<and> stale_of k src keep st}"
      "bolt_rep b2 (if ti_stale_tx e = None then drop_streams (stale_of k src keep) ?M else ?M)"
      using stale_of_any [OF n sts(2), of "ti_stale_tx e" k keep] by (simp_all add: gb)
    have "mapped (tv_channels s) - set g \<subseteq> dom (decode b2)" unfolding rep_decode [OF st(2)] st(1)
      using cM by (auto simp: drop_streams_def dom_def split: option.splits if_splits)
    moreover have "mapped (tv_channels (snd (save_streams k e src sts keep s))) = mapped (tv_channels s) - set g"
      "tv_streams (snd (save_streams k e src sts keep s)) = b2"
      using None by (simp_all add: save_streams_def u gb mapped_removed Let_def)
    ultimately show ?thesis using rep_invar [OF st(2)] by (simp add: tuner_ok_def)
  qed
qed

text \<open>When every write succeeds, the streams are the saved ones over the old ones, less the stale ones.\<close>

lemma save_streams_exact:
  assumes s: "tuner_ok s" and sts: "list_all stream_ok sts" "plain_id src" and tx: "ti_tx e = (\<lambda>_. None)" "ti_stale_tx e = None"
  shows "fst (save_streams k e src sts keep s) = None"
    and "decode (tv_streams (snd (save_streams k e src sts keep s)))
      = drop_streams (stale_of k src keep) (fold (upsert1 (ti_now e)) sts (decode (tv_streams s)))"
    and "mapped (tv_channels (snd (save_streams k e src sts keep s)))
      = mapped (tv_channels s) - {i. \<exists>st. fold (upsert1 (ti_now e)) sts (decode (tv_streams s)) i = Some st \<and> stale_of k src keep st}"
proof -
  let ?m = "decode (tv_streams s)"
  have r: "bolt_rep (tv_streams s) ?m" using s by (simp add: tuner_ok_def bolt_invar_def)
  obtain b where u: "Bolt_BulkUpsert (\<lambda>_. None) (ti_now e) sts (tv_streams s) = (None, b)"
    and n: "bolt_rep b (fold (upsert1 (ti_now e)) sts ?m)"
    using bolt_batches_rep [OF r sts(1), of 0 "ti_now e"] by (metis Bolt_BulkUpsert_def prod.collapse)
  obtain g b2 where gb: "deleteStaleByIndex None (bs_source k b) (src @ ''/'') keep b = (g, b2)" by fastforce
  have st: "set g = {i. \<exists>st. fold (upsert1 (ti_now e)) sts ?m i = Some st \<and> stale_of k src keep st}"
    "bolt_rep b2 (drop_streams (stale_of k src keep) (fold (upsert1 (ti_now e)) sts ?m))"
    using stale_of_any [OF n sts(2), of None k keep] by (simp_all add: gb)
  show "fst (save_streams k e src sts keep s) = None" by (simp add: save_streams_def u gb tx Let_def)
  show "decode (tv_streams (snd (save_streams k e src sts keep s))) = drop_streams (stale_of k src keep) (fold (upsert1 (ti_now e)) sts ?m)"
    using rep_decode [OF st(2)] by (simp add: save_streams_def u gb tx Let_def)
  show "mapped (tv_channels (snd (save_streams k e src sts keep s)))
      = mapped (tv_channels s) - {i. \<exists>st. fold (upsert1 (ti_now e)) sts ?m i = Some st \<and> stale_of k src keep st}"
    unfolding st(1) [symmetric] by (simp add: save_streams_def u gb tx mapped_removed Let_def)
qed

section \<open>A scan of a SAT>IP device\<close>


lemma satip_stream_fields:
  "st_ID (satip_stream e fl src ch) = ti_id e (satip_hash (sa_ID src) (dc_ServiceID ch))" "st_SatIPSourceID (satip_stream e fl src ch) = sa_ID src"
  "st_M3UAccountID (satip_stream e fl src ch) = []" "st_HDHRSourceID (satip_stream e fl src ch) = []" "st_Name (satip_stream e fl src ch) = dc_Name ch"
  "st_VODType (satip_stream e fl src ch) = []" "length (st_Group (satip_stream e fl src ch)) \<le> 5"
  by (simp_all add: satip_stream_def zero_stream_def satipStreamGroup_def)

definition scan_ok :: "tuner_in \<Rightarrow> SatIPSource \<Rightarrow> ScanResult \<Rightarrow> bool" where
  "scan_ok e src r \<longleftrightarrow> plain_id (sa_ID src) \<and> (\<forall>x. plain_id (ti_id e x)) \<and> (\<forall>ch \<in> set (sr_Channels r). length (dc_Name ch) \<le> 30000)"

lemma satip_streams_ok: "scan_ok e src r \<Longrightarrow> list_all stream_ok (map (satip_stream e fl src) (sr_Channels r))"
  by (auto simp: list_all_iff scan_ok_def stream_ok_def satip_stream_fields intro: order_trans [OF satip_stream_fields(7)])

lemma satip_finalize_fields:
  "tv_streams (snd (satip_finalize e src sts keep s)) = tv_streams (snd (save_streams SatIP e (sa_ID src) sts keep s))"
  "tv_channels (snd (satip_finalize e src sts keep s)) = tv_channels (snd (save_streams SatIP e (sa_ID src) sts keep s))"
  by (auto simp: satip_finalize_def split: prod.split option.split)

text \<open>What a scan does to the streams and channels: nothing when it fails, or one saving of the streams it found.\<close>

lemma satip_scan_fields:
  assumes "SatIPStore_GetByID i (tv_satip s) = Inr src"
  shows "case scan (if has_port (sa_Host src) then sa_Host src else JoinHostPort (sa_Host src) ''554'')
        (if sa_HTTPPort src = 0 then 8875 else sa_HTTPPort src) (sa_TransmitterFile src) of
      Inl x \<Rightarrow> tv_streams (snd (SatIP_ScanSource e fl scan i s)) = tv_streams s \<and> tv_channels (snd (SatIP_ScanSource e fl scan i s)) = tv_channels s
    | Inr r \<Rightarrow> \<exists>s1. tv_streams s1 = tv_streams s \<and> tv_channels s1 = tv_channels s
        \<and> (let sts = map (satip_stream e fl src) (sr_Channels r); f = satip_finalize e src sts
             (map st_ID sts @ silent_streams fl r (Bolt_ListBySatIPSourceID (sa_ID src) (tv_streams s))) s1
           in tv_streams (snd (SatIP_ScanSource e fl scan i s)) = tv_streams (snd f) \<and> tv_channels (snd (SatIP_ScanSource e fl scan i s)) = tv_channels (snd f)
              \<and> fst (SatIP_ScanSource e fl scan i s) = fst f)"
proof -
  let ?host = "if has_port (sa_Host src) then sa_Host src else JoinHostPort (sa_Host src) ''554''" and ?port = "if sa_HTTPPort src = 0 then 8875 else sa_HTTPPort src"
  let ?s0 = "tuner_status i (running ''Scanning device capabilities...'' 0 0) s"
  let ?q = "satip_scanSource e fl scan src ?s0"
  have out: "tv_streams (snd (SatIP_ScanSource e fl scan i s)) = tv_streams (snd ?q)" "tv_channels (snd (SatIP_ScanSource e fl scan i s)) = tv_channels (snd ?q)"
    "fst (SatIP_ScanSource e fl scan i s) = fst ?q"
    using assms by (auto simp: SatIP_ScanSource_def split: prod.split option.split)
  show ?thesis
  proof (cases "scan ?host ?port (sa_TransmitterFile src)")
    case (Inl x)
    then show ?thesis using out by (simp add: satip_scanSource_def Let_def)
  next
    case (Inr r)
    let ?sts = "map (satip_stream e fl src) (sr_Channels r)"
    define s1 where "s1 = (tuner_status (sa_ID src) (running (''Found '' @ show_nat (length (sr_Channels r)) @ '' channels, saving...'') 0 0)
      (tuner_status (sa_ID src) (running ''Discovering muxes via NIT...'' 0 0) ?s0))\<lparr>tv_probes := tv_probes ?s0 @ map (\<lambda>st. (st_ID st, satip_probe st)) ?sts\<rparr>"
    have f: "tv_streams s1 = tv_streams s" "tv_channels s1 = tv_channels s" by (simp_all add: s1_def)
    have "?q = satip_finalize e src ?sts (map st_ID ?sts @ silent_streams fl r (Bolt_ListBySatIPSourceID (sa_ID src) (tv_streams s))) s1"
      using Inr by (simp add: satip_scanSource_def Let_def s1_def) (simp add: tuner_status_def)
    then show ?thesis using Inr f out by (auto simp: Let_def intro!: exI [of _ s1])
  qed
qed

text \<open>A scan of a SAT>IP device keeps the channels in step with the streams: every stream a channel is mapped to exists,
  whatever the device answers and whichever writes fail.\<close>

theorem satip_scan_keeps_channels:
  assumes "tuner_ok s" "\<forall>src. SatIPStore_GetByID i (tv_satip s) = Inr src \<longrightarrow> (\<forall>h p f r. scan h p f = Inr r \<longrightarrow> scan_ok e src r)"
  shows "tuner_ok (snd (SatIP_ScanSource e fl scan i s))"
proof (cases "SatIPStore_GetByID i (tv_satip s)")
  case (Inl x)
  then show ?thesis using assms(1) by (simp add: SatIP_ScanSource_def)
next
  case (Inr src)
  let ?host = "if has_port (sa_Host src) then sa_Host src else JoinHostPort (sa_Host src) ''554''" and ?port = "if sa_HTTPPort src = 0 then 8875 else sa_HTTPPort src"
  note f = satip_scan_fields [OF Inr, of e fl scan]
  show ?thesis
  proof (cases "scan ?host ?port (sa_TransmitterFile src)")
    case (Inl x)
    then show ?thesis using f assms(1) by (simp add: tuner_ok_def)
  next
    case r: (Inr r)
    then have ok: "scan_ok e src r" using assms(2) Inr by blast
    let ?sts = "map (satip_stream e fl src) (sr_Channels r)" and ?keep = "map st_ID (map (satip_stream e fl src) (sr_Channels r)) @ silent_streams fl r (Bolt_ListBySatIPSourceID (sa_ID src) (tv_streams s))"
    obtain s1 where s1: "tv_streams s1 = tv_streams s" "tv_channels s1 = tv_channels s"
      "tv_streams (snd (SatIP_ScanSource e fl scan i s)) = tv_streams (snd (satip_finalize e src ?sts ?keep s1))"
      "tv_channels (snd (SatIP_ScanSource e fl scan i s)) = tv_channels (snd (satip_finalize e src ?sts ?keep s1))"
      using f r by (auto simp: Let_def)
    have "tuner_ok (snd (save_streams SatIP e (sa_ID src) ?sts ?keep s1))"
      using assms(1) s1 ok by (intro save_streams_ok satip_streams_ok) (simp_all add: tuner_ok_def scan_ok_def)
    then show ?thesis using s1 by (simp add: tuner_ok_def satip_finalize_fields)
  qed
qed



section \<open>The key of a transponder in the address of its streams\<close>

lemma str_index_char: "c \<notin> set a \<Longrightarrow> str_index (a @ c # b) [c] = Some (length a)"
  by (induction a) auto

lemma Split1_at: "c \<notin> set a \<Longrightarrow> Split1 c (a @ c # b) = a # Split1 c b"
  by (induction a) auto

definition url_text :: "string \<Rightarrow> bool" where
  "url_text s \<longleftrightarrow> CHR ''?'' \<notin> set s \<and> CHR ''&'' \<notin> set s"

text \<open>The parts of an address up to its query, and the first four pairs of the query.\<close>

lemma url_query_pairs:
  assumes "url_text host" "url_text g" "url_text sys" "url_text m" "url_text pids"
  shows "Split1 (CHR ''&'') (drop (Suc (length (''rtsp://'' @ host @ ''/'')))
      (''rtsp://'' @ host @ ''/?freq='' @ g @ ''&msys='' @ sys @ ''&mtype='' @ m @ ''&pids='' @ pids @ rest))
    = [''freq='' @ g, ''msys='' @ sys, ''mtype='' @ m] @ Split1 (CHR ''&'') (''pids='' @ pids @ rest)"
    and "str_index (''rtsp://'' @ host @ ''/?freq='' @ g @ ''&msys='' @ sys @ ''&mtype='' @ m @ ''&pids='' @ pids @ rest) ''?''
      = Some (length (''rtsp://'' @ host @ ''/''))"
proof -
  have "drop (Suc (length (''rtsp://'' @ host @ ''/''))) (''rtsp://'' @ host @ ''/?freq='' @ g @ ''&msys='' @ sys @ ''&mtype='' @ m @ ''&pids='' @ pids @ rest)
    = (''freq='' @ g) @ CHR ''&'' # (''msys='' @ sys) @ CHR ''&'' # (''mtype='' @ m) @ CHR ''&'' # (''pids='' @ pids @ rest)" by simp
  then show "Split1 (CHR ''&'') (drop (Suc (length (''rtsp://'' @ host @ ''/'')))
      (''rtsp://'' @ host @ ''/?freq='' @ g @ ''&msys='' @ sys @ ''&mtype='' @ m @ ''&pids='' @ pids @ rest))
    = [''freq='' @ g, ''msys='' @ sys, ''mtype='' @ m] @ Split1 (CHR ''&'') (''pids='' @ pids @ rest)"
    using assms Split1_at [of "CHR ''&''" "''freq='' @ g"] Split1_at [of "CHR ''&''" "''msys='' @ sys"] Split1_at [of "CHR ''&''" "''mtype='' @ m"]
    by (simp only: url_text_def) simp
  show "str_index (''rtsp://'' @ host @ ''/?freq='' @ g @ ''&msys='' @ sys @ ''&mtype='' @ m @ ''&pids='' @ pids @ rest) ''?''
      = Some (length (''rtsp://'' @ host @ ''/''))"
    using str_index_char [of "CHR ''?''" "''rtsp://'' @ host @ ''/''" "''freq='' @ g @ ''&msys='' @ sys @ ''&mtype='' @ m @ ''&pids='' @ pids @ rest"] assms(1)
    by (simp add: url_text_def)
qed

lemma show_nat_digits: "set (show_nat n) \<subseteq> {chr d | d. 48 \<le> d \<and> d < 58}"
proof (induction n rule: show_nat.induct)
  case (1 n)
  show ?case by (subst show_nat.simps) (use 1 in \<open>auto split: if_splits\<close>)
qed

lemma show_int_url: "url_text (show_int n)"
proof -
  have "chr d \<noteq> CHR ''?'' \<and> chr d \<noteq> CHR ''&''" if "48 \<le> d" "d < 58" for d
  proof -
    have c: "(of_char (chr d) :: nat) = d" using that by (simp add: chr_def)
    have d: "d \<noteq> 63" "d \<noteq> 38" using that by auto
    have "(of_char (CHR ''?'') :: nat) = 63" "(of_char (CHR ''&'') :: nat) = 38" by simp_all
    then show ?thesis using c d by metis
  qed
  then have "url_text (show_nat k)" for k using show_nat_digits [of k] unfolding url_text_def by fastforce
  then show ?thesis by (auto simp: show_int_def url_text_def)
qed

text \<open>The key that \<open>satipMuxKeyFromURL\<close> finds in the address of a stream has the frequency as the address shows it.\<close>

theorem url_key:
  assumes "url_text host" "url_text pids" "url_text (fl_g fl (tp_FreqMHz t))" "url_text (tp_System t)" "url_text (tp_Modulation t)"
    and "fl_g fl (tp_FreqMHz t) \<noteq> []" "tp_System t \<noteq> []"
  shows "satipMuxKeyFromURL (tp_RTSPURL fl t host pids)
    = fl_g fl (tp_FreqMHz t) @ ''/'' @ tp_System t @ (if tp_System t = ''dvbt2'' then ''/'' @ show_int (tp_PLPID t) else [])"
proof -
  define p where "p = (if pids = ''sdt'' then ''0,16,17'' else pids)"
  define tail where "tail = (if tp_System t \<in> {''dvbt'', ''dvbt2''} then
              ''&bw='' @ show_int (tp_BandwidthMHz t) @ (if tp_System t = ''dvbt2'' then ''&plp='' @ show_int (tp_PLPID t) else [])
            else if tp_System t \<in> {''dvbs'', ''dvbs2''} then ''&pol='' @ tp_Polarization t @ ''&sr='' @ show_int (tp_SymbolRateKS t)
            else if tp_System t \<in> {''dvbc'', ''dvbc2''} then ''&sr='' @ show_int (tp_SymbolRateKS t) else [])"
  have p: "url_text p" using assms(2) by (simp add: p_def url_text_def)
  let ?u = "''rtsp://'' @ host @ ''/?freq='' @ fl_g fl (tp_FreqMHz t) @ ''&msys='' @ tp_System t @ ''&mtype='' @ tp_Modulation t @ ''&pids='' @ p @ tail"
  have u: "tp_RTSPURL fl t host pids = ?u" by (simp add: tp_RTSPURL_def Let_def p_def tail_def)
  note q = url_query_pairs [OF assms(1,3,4,5) p, of tail]
  have query: "url_query ?u k = (case find (\<lambda>x. HasPrefix x (k @ ''='')) ([''freq='' @ fl_g fl (tp_FreqMHz t), ''msys='' @ tp_System t, ''mtype='' @ tp_Modulation t]
      @ Split1 (CHR ''&'') (''pids='' @ p @ tail)) of None \<Rightarrow> [] | Some x \<Rightarrow> drop (length k + 1) x)" for k
    unfolding url_query_def q option.case ..
  have f: "url_query ?u ''freq'' = fl_g fl (tp_FreqMHz t)" "url_query ?u ''msys'' = tp_System t"
    unfolding query by (simp_all add: HasPrefix_def)
  have plp: "url_query ?u ''plp'' = show_int (tp_PLPID t)" if "tp_System t = ''dvbt2''"
  proof -
    have "''pids='' @ p @ tail = (''pids='' @ p) @ CHR ''&'' # (''bw='' @ show_int (tp_BandwidthMHz t)) @ CHR ''&'' # (''plp='' @ show_int (tp_PLPID t))"
      using that by (simp add: tail_def)
    moreover have "Split1 (CHR ''&'') (''plp='' @ show_int (tp_PLPID t)) = [''plp='' @ show_int (tp_PLPID t)]"
    proof -
      have "CHR ''&'' \<notin> set x \<Longrightarrow> Split1 (CHR ''&'') x = [x]" for x by (induction x) auto
      then show ?thesis using show_int_url [of "tp_PLPID t"] by (simp add: url_text_def)
    qed
    ultimately have "Split1 (CHR ''&'') (''pids='' @ p @ tail) = [''pids='' @ p, ''bw='' @ show_int (tp_BandwidthMHz t), ''plp='' @ show_int (tp_PLPID t)]"
      using p show_int_url [of "tp_BandwidthMHz t"] Split1_at [of "CHR ''&''" "''pids='' @ p"] Split1_at [of "CHR ''&''" "''bw='' @ show_int (tp_BandwidthMHz t)"]
      by (simp only: url_text_def) simp
    then show ?thesis unfolding query by (simp add: HasPrefix_def)
  qed
  have ne: "show_int n \<noteq> []" for n
    by (cases "n < 0") (simp_all add: show_int_def, subst show_nat.simps, simp)
  show ?thesis unfolding u satipMuxKeyFromURL_def Let_def f using assms(6,7) plp ne by (auto simp: plp)
qed


text \<open>For a terrestrial transponder between two megahertz (the United Kingdom has many at a sixth of a megahertz beside the raster) the
  two differ: when it gives no signal, the streams it had are deleted.\<close>

theorem fractional_key_lost:
  assumes "url_text host" "url_text pids" "url_text (fl_g fl (tp_FreqMHz t))" "url_text (tp_Modulation t)"
    and "fl_g fl (tp_FreqMHz t) \<noteq> []" "tp_System t = ''dvbt''" "fl_0f fl (tp_FreqMHz t) \<noteq> fl_g fl (tp_FreqMHz t)"
  shows "satipMuxKeyFromURL (tp_RTSPURL fl t host pids) \<noteq> muxKey fl t"
proof -
  have "url_text (tp_System t)" by (simp add: assms(6) url_text_def)
  with url_key [OF assms(1-3) this assms(4,5)] assms(6,7) show ?thesis by (simp add: muxKey_def)
qed

text \<open>Services on two transponders that have the same number, which is unique within one transport stream only, get one stream.\<close>

theorem same_service_number_collides:
  "dc_ServiceID a = dc_ServiceID b \<Longrightarrow> st_ID (satip_stream e fl src a) = st_ID (satip_stream e fl src b)"
  by (simp add: satip_stream_fields)



section \<open>HDHomeRun devices\<close>

lemma hdhr_stream_fields:
  "st_ID (hdhr_stream e i en) = ti_id e (i @ '':'' @ hl_GuideNumber en)" "st_HDHRSourceID (hdhr_stream e i en) = i"
  "st_M3UAccountID (hdhr_stream e i en) = []" "st_SatIPSourceID (hdhr_stream e i en) = []" "st_Name (hdhr_stream e i en) = hl_GuideName en"
  "st_VODType (hdhr_stream e i en) = []" "length (st_Group (hdhr_stream e i en)) \<le> 5"
  by (simp_all add: hdhr_stream_def zero_stream_def)

definition lineup_ok :: "tuner_in \<Rightarrow> ident \<Rightarrow> hdhrLineupEntry list \<Rightarrow> bool" where
  "lineup_ok e i lineup \<longleftrightarrow> plain_id i \<and> (\<forall>x. plain_id (ti_id e x)) \<and> (\<forall>en \<in> set lineup. length (hl_GuideName en) \<le> 30000)"

lemma hdhr_streams_ok: "lineup_ok e i lineup \<Longrightarrow> list_all stream_ok (map (hdhr_stream e i) (filter playable lineup))"
  by (auto simp: list_all_iff lineup_ok_def stream_ok_def hdhr_stream_fields intro: order_trans [OF hdhr_stream_fields(7)])

lemma hdhr_fail_fields [simp]:
  "tv_streams (snd (hdhr_fail e i msg x s)) = tv_streams s" "tv_channels (snd (hdhr_fail e i msg x s)) = tv_channels s"
  by (simp_all add: hdhr_fail_def)

text \<open>A scan of an HDHomeRun device that answers with a lineup, when every write succeeds, leaves the source with exactly the entries
  that have an address and are not encrypted, and the streams of other sources as they were; the status says how many there are.\<close>

theorem hdhr_scan_exact:
  assumes "tuner_ok s" "HDHRSourceStore_GetByID i (tv_hdhr s) = Inr src" "hs_Devices src = dev # devs"
    and "fetchDiscover n (normalizeHDHRHost (tn_Host dev)) = Inr d" "\<forall>u. fetchLineup n u = Inr lineup" "lineup_ok e i lineup"
    and "ti_tx e = (\<lambda>_. None)" "ti_stale_tx e = None" "distinct (map (st_ID \<circ> hdhr_stream e i) (filter playable lineup))"
  shows "let m = decode (tv_streams s); s' = snd (HDHR_ScanSource e n i s); m' = decode (tv_streams s'); new = (st_ID \<circ> hdhr_stream e i) ` {en \<in> set lineup. playable en}
    in fst (HDHR_ScanSource e n i s) = None \<and> rs_Total (tv_status s' i) = length (filter playable lineup)
      \<and> (\<forall>en \<in> set lineup. playable en \<longrightarrow> m' (st_ID (hdhr_stream e i en)) = Some (merged (ti_now e) (m (st_ID (hdhr_stream e i en))) (hdhr_stream e i en)))
      \<and> (\<forall>j. j \<notin> new \<longrightarrow> m' j = (case m j of None \<Rightarrow> None | Some st \<Rightarrow> if st_HDHRSourceID st = i then None else Some st))"
proof -
  let ?ens = "filter playable lineup" and ?m = "decode (tv_streams s)"
  let ?sts = "map (hdhr_stream e i) ?ens"
  let ?M = "fold (upsert1 (ti_now e)) ?sts ?m"
  define s1 where "s1 = (let s0 = (tuner_status i (running ''Connecting to device...'' 0 0) s)\<lparr>tv_hdhr := snd (HDHRSourceStore_UpdateLastError (ti_start_env e) i [] (tv_hdhr s))\<rparr>;
     s1 = s0\<lparr>tv_probes := tv_probes s0 @ map (\<lambda>en. (st_ID (hdhr_stream e i en), hdhrProbeFromLineup en)) ?ens\<rparr>
     in case (if ?sts = [] then None else captureURL lineup) of None \<Rightarrow> s1
        | Some u \<Rightarrow> (case hn_capture n u of Inl x \<Rightarrow> s1 | Inr h \<Rightarrow> s1\<lparr>tv_headers := tv_headers s1 @ map (\<lambda>st. (st_ID st, h)) ?sts\<rparr>))"
  have f: "tv_streams s1 = tv_streams s" "tv_channels s1 = tv_channels s" by (simp_all add: s1_def Let_def split: option.split sum.split)
  have ok1: "tuner_ok s1" using assms(1) f by (simp add: tuner_ok_def)
  have i: "plain_id i" using assms(6) by (simp add: lineup_ok_def)
  note sv = save_streams_exact [OF ok1 hdhr_streams_ok [OF assms(6)] i assms(7,8), of HDHR "map st_ID ?sts"]
  obtain s3 where s3: "save_streams HDHR e i ?sts (map st_ID ?sts) s1 = (None, s3)" using sv(1) by (metis prod.collapse)
  have out: "fst (HDHR_ScanSource e n i s) = None" "tv_streams (snd (HDHR_ScanSource e n i s)) = tv_streams s3"
    "rs_Total (tv_status (snd (HDHR_ScanSource e n i s)) i) = length ?sts"
    using assms(2-5) s3 unfolding s1_def
    by (simp_all add: HDHR_ScanSource_def Let_def tuner_status_def)
  have m': "decode (tv_streams (snd (HDHR_ScanSource e n i s))) = drop_streams (stale_of HDHR i (map st_ID ?sts)) ?M"
    unfolding out(2) using sv(2) s3 f by simp
  have rep: "bolt_rep (tv_streams s) ?m" using assms(1) by (simp add: tuner_ok_def bolt_invar_def)
  have new: "drop_streams (stale_of HDHR i (map st_ID ?sts)) ?M (st_ID (hdhr_stream e i en)) = Some (merged (ti_now e) (?m (st_ID (hdhr_stream e i en))) (hdhr_stream e i en))"
    if "en \<in> set lineup" "playable en" for en
  proof -
    have "?M (st_ID (hdhr_stream e i en)) = Some (merged (ti_now e) (?m (st_ID (hdhr_stream e i en))) (hdhr_stream e i en))"
      using that assms(9) by (intro fold_upsert_distinct) simp_all
    then show ?thesis unfolding drop_streams_Some using that by (simp add: stale_of_def)
  qed
  have rest: "drop_streams (stale_of HDHR i (map st_ID ?sts)) ?M j = (case ?m j of None \<Rightarrow> None | Some st \<Rightarrow> if st_HDHRSourceID st = i then None else Some st)"
    if j: "j \<notin> (st_ID \<circ> hdhr_stream e i) ` {en \<in> set lineup. playable en}" for j
  proof -
    have "?M j = ?m j" using j by (subst fold_upsert_other) auto
    then show ?thesis using j rep_keyed [OF rep, of j] by (auto simp: drop_streams_def stale_of_def split: option.split)
  qed
  show ?thesis unfolding Let_def m' using out(1,3) new rest by (simp only: length_map) blast
qed

text \<open>A scan of an HDHomeRun device keeps the channels in step with the streams as well.\<close>

theorem hdhr_scan_keeps_channels:
  assumes "tuner_ok s" "plain_id i" "\<forall>x. plain_id (ti_id e x)" "\<forall>u lineup. fetchLineup n u = Inr lineup \<longrightarrow> (\<forall>en \<in> set lineup. length (hl_GuideName en) \<le> 30000)"
  shows "tuner_ok (snd (HDHR_ScanSource e n i s))"
proof -
  have save: "tuner_ok (snd (save_streams HDHR e i (map (hdhr_stream e i) (filter playable lineup)) keep s1))"
    if "tv_streams s1 = tv_streams s" "tv_channels s1 = tv_channels s" "fetchLineup n u = Inr lineup" for s1 :: "'a hdhr_service" and u lineup keep
    using assms that by (intro save_streams_ok hdhr_streams_ok) (auto simp: tuner_ok_def lineup_ok_def)
  have out: "tuner_ok (snd (case r of (Some x, s3) \<Rightarrow> hdhr_fail e i msg x s3
      | (None, s3) \<Rightarrow> (None, tuner_status i (st s3) (s3\<lparr>tv_hdhr := hs s3\<rparr>)))) = tuner_ok (snd r)" for r :: "error option \<times> 'a hdhr_service" and msg st hs
    by (auto simp: tuner_ok_def split: prod.split option.split)
  show ?thesis
  proof (cases "HDHRSourceStore_GetByID i (tv_hdhr s)")
    case (Inl x)
    then show ?thesis using assms(1) by (simp add: HDHR_ScanSource_def)
  next
    case src: (Inr src)
    show ?thesis
    proof (cases "hs_Devices src")
      case Nil
      then show ?thesis using assms(1) src by (simp add: HDHR_ScanSource_def Let_def tuner_ok_def)
    next
      case dev: (Cons dev devs)
      show ?thesis
      proof (cases "fetchDiscover n (normalizeHDHRHost (tn_Host dev))")
        case (Inl x)
        then show ?thesis using assms(1) src dev by (simp add: HDHR_ScanSource_def Let_def tuner_ok_def)
      next
        case d: (Inr d)
        show ?thesis
        proof (cases "fetchLineup n (if hr_LineupURL d \<noteq> [] then hr_LineupURL d else normalizeHDHRHost (tn_Host dev) @ ''/lineup.json'')")
          case (Inl x)
          then show ?thesis using assms(1) src dev d by (simp add: HDHR_ScanSource_def Let_def tuner_ok_def)
        next
          case (Inr lineup)
          show ?thesis unfolding HDHR_ScanSource_def Let_def src dev d Inr sum.case list.case out
            by (rule save [OF _ _ Inr]) (simp_all split: option.split sum.split)
        qed
      qed
    qed
  qed
qed

text \<open>Clearing an HDHomeRun source deletes its streams and leaves the channels mapped to them, where clearing a SAT>IP source does not.\<close>

theorem hdhr_clear_leaves_mappings:
  assumes "tuner_ok s" "plain_id i" "decode (tv_streams s) j = Some st" "st_HDHRSourceID st = i" "j \<in> mapped (tv_channels s)"
  shows "\<not> tuner_ok (snd (HDHR_ClearSource e None i s))"
proof -
  have "bolt_invar (tv_streams s)" using assms(1) by (simp add: tuner_ok_def)
  from bolt.delete_by_abs [OF this assms(2), of HDHR] have "decode (Bolt_DeleteByHDHRSourceID None i (tv_streams s)) j = None"
    using assms(3,4) by (simp add: drop_streams_def)
  then show ?thesis using assms(5) by (auto simp: HDHR_ClearSource_def tuner_ok_def)
qed

theorem satip_clear_keeps_channels:
  assumes "tuner_ok s" "plain_id i"
  shows "tuner_ok (snd (SatIP_ClearSource me ce None i s))"
proof (cases "SatIPStore_GetByID i (tv_satip s)")
  case (Inl x)
  then show ?thesis using assms by (simp add: SatIP_ClearSource_def)
next
  case (Inr src)
  let ?m = "decode (tv_streams s)" and ?gone = "map st_ID (Bolt_ListBySatIPSourceID i (tv_streams s))"
  have inv: "bolt_invar (tv_streams s)" and c: "mapped (tv_channels s) \<subseteq> dom ?m" using assms(1) by (simp_all add: tuner_ok_def)
  then have rep: "bolt_rep (tv_streams s) ?m" by (simp add: bolt_invar_def)
  have d: "decode (Bolt_DeleteBySatIPSourceID None i (tv_streams s)) = drop_streams (\<lambda>st. st_SatIPSourceID st = i) ?m"
    "bolt_invar (Bolt_DeleteBySatIPSourceID None i (tv_streams s))"
    using bolt.delete_by_abs [OF inv assms(2), of SatIP] bolt.delete_by_invar [OF inv, of SatIP i] by simp_all
  have "set (Bolt_ListBySatIPSourceID i (tv_streams s)) = {st \<in> ran ?m. st_SatIPSourceID st = i}" using list_by_rep [OF rep assms(2), of SatIP] by simp
  then have g: "set ?gone = {j. \<exists>st. ?m j = Some st \<and> st_SatIPSourceID st = i}" using rep_keyed [OF rep] by (force simp: ran_def)
  have "mapped (tv_channels (snd (SatIP_ClearSource me ce None i s))) = mapped (tv_channels s) - set ?gone"
    using Inr by (simp add: SatIP_ClearSource_def Let_def mapped_removed)
  moreover have "tv_streams (snd (SatIP_ClearSource me ce None i s)) = Bolt_DeleteBySatIPSourceID None i (tv_streams s)"
    using Inr by (simp add: SatIP_ClearSource_def Let_def)
  moreover have "mapped (tv_channels s) - set ?gone \<subseteq> dom (drop_streams (\<lambda>st. st_SatIPSourceID st = i) ?m)"
    using c unfolding g by (auto simp: drop_streams_def dom_def split: option.splits)
  ultimately show ?thesis using d by (simp add: tuner_ok_def)
qed

text \<open>A device that answers the broadcast is linked once, and not when a source has it already.\<close>

theorem devices_linked_once:
  "set (map tn_DeviceID ds) \<subseteq> set known \<Longrightarrow> distinct (map tn_DeviceID ds) \<Longrightarrow>
   distinct (map tn_DeviceID (link_devices n ips known ds))
    \<and> set (map tn_DeviceID (link_devices n ips known ds)) \<inter> set known \<subseteq> set (map tn_DeviceID ds)"
proof (induction n ips known ds rule: link_devices.induct)
  case (1 n known ds)
  then show ?case by simp
next
  case (2 n ip ips known ds)
  consider x where "fetchDiscover n (''http://'' @ ip) = Inl x"
    | d where "fetchDiscover n (''http://'' @ ip) = Inr d" "hr_DeviceID d \<in> set known"
    | d where "fetchDiscover n (''http://'' @ ip) = Inr d" "hr_DeviceID d \<notin> set known"
    by (cases "fetchDiscover n (''http://'' @ ip)") auto
  then show ?case
  proof cases
    case 1
    with 2 show ?thesis by simp
  next
    case 2
    with "2.IH"(2) "2.prems" show ?thesis by simp
  next
    case (3 d)
    let ?ds = "ds @ [device_of ip d]"
    have "set (map tn_DeviceID ?ds) \<subseteq> set (hr_DeviceID d # known)" "distinct (map tn_DeviceID ?ds)"
      using "2.prems" 3 by (auto simp: device_of_def)
    with "2.IH"(3) 3 have "distinct (map tn_DeviceID (link_devices n ips (hr_DeviceID d # known) ?ds))
      \<and> set (map tn_DeviceID (link_devices n ips (hr_DeviceID d # known) ?ds)) \<inter> set (hr_DeviceID d # known) \<subseteq> set (map tn_DeviceID ?ds)"
      by blast
    with 3 show ?thesis by (auto simp: device_of_def)
  qed
qed

section \<open>A service with streams\<close>











end
