(* ===== verification/Spec2Isabelle.thy ===== *)
theory Spec2Isabelle
  imports CodecConfig Keyframe Selector TsHeader Strategy ChannelService Scheduler ClientService Auth SessionRuns StreamRuns Paths SourceStores M3u Logos EpgStore GuideXml Xtream SmallStores M3uRefresh EpgService Boxes SatScan TunerSources
begin

text \<open>
  Header.
\<close>

end
